(* ===== verification/Prelude.thy ===== *)
theory Prelude
  imports Main "HOL-Library.Word" "HOL-Library.Sublist"
begin

text \<open>
  The library's base: the errors a run of the virtual machine can end in, the
  state-and-error functions every stateful operation of the model is written with,
  their proof rules, the fixed-width integer conversions of C++ and the character
  classes of \<^verbatim>\<open><ctype.h>\<close>.
\<close>

section \<open>Errors\<close>

text \<open>
  How an operation can fail to return. \<open>ErrorExit\<close> and \<open>Quit\<close> are
  \<^verbatim>\<open>Universe::ErrorExit\<close> and \<^verbatim>\<open>Universe::Quit\<close>. \<open>StdException\<close> is a C++ exception nobody
  catches, \<open>Signal\<close> a trap of the processor. The next four are undefined behaviour
  of the C++ code: the model stops where the code has no defined meaning any more.
  \<open>OutOfFuel\<close> belongs to the model only: the bound given to a loop or a recursion was
  too small.
\<close>

datatype err =
    ErrorExit string
  | Quit int
  | StdException string
  | Signal string
  | NullPointer
  | BadCast
  | OutOfRange
  | BufferOverflow
  | OutOfFuel

section \<open>Functions on a state that may fail\<close>

type_synonym ('s, 'a) se = "'s \<Rightarrow> err + 'a \<times> 's"

named_theorems se_simps \<open>equations that run an operation on a state\<close>
named_theorems se_intro \<open>rules for triples over operations\<close>

definition returnE :: "'a \<Rightarrow> ('s, 'a) se" where
  "returnE x = (\<lambda>s. Inr (x, s))"

definition throwE :: "err \<Rightarrow> ('s, 'a) se" where
  "throwE e = (\<lambda>s. Inl e)"

definition bindE :: "('s, 'a) se \<Rightarrow> ('a \<Rightarrow> ('s, 'b) se) \<Rightarrow> ('s, 'b) se" where
  "bindE m f = (\<lambda>s. case m s of Inl e \<Rightarrow> Inl e | Inr r \<Rightarrow> f (fst r) (snd r))"

definition thenE :: "('s, 'a) se \<Rightarrow> ('s, 'b) se \<Rightarrow> ('s, 'b) se" where
  "thenE m k = bindE m (\<lambda>_. k)"

definition getsE :: "('s \<Rightarrow> 'a) \<Rightarrow> ('s, 'a) se" where
  "getsE f = (\<lambda>s. Inr (f s, s))"

definition modifyE :: "('s \<Rightarrow> 's) \<Rightarrow> ('s, unit) se" where
  "modifyE f = (\<lambda>s. Inr ((), f s))"

definition whenE :: "bool \<Rightarrow> ('s, unit) se \<Rightarrow> ('s, unit) se" where
  "whenE b m = (if b then m else returnE ())"

primrec forE :: "'a list \<Rightarrow> ('a \<Rightarrow> ('s, unit) se) \<Rightarrow> ('s, unit) se" where
  "forE [] f = returnE ()"
| "forE (x # xs) f = thenE (f x) (forE xs f)"

text \<open>
  \<open>whileE n b m\<close> is \<^verbatim>\<open>while (b) m\<close> with at most \<open>n\<close> rounds, \<open>doWhileE\<close> the loop that
  tests after the body. The condition reads the state only.
\<close>

primrec whileE :: "nat \<Rightarrow> ('s \<Rightarrow> bool) \<Rightarrow> ('s, unit) se \<Rightarrow> ('s, unit) se" where
  "whileE 0 b m = (\<lambda>s. if b s then Inl OutOfFuel else Inr ((), s))"
| "whileE (Suc n) b m = (\<lambda>s. if b s then thenE m (whileE n b m) s else Inr ((), s))"

definition doWhileE :: "nat \<Rightarrow> ('s, unit) se \<Rightarrow> ('s \<Rightarrow> bool) \<Rightarrow> ('s, unit) se" where
  "doWhileE n m b = thenE m (whileE n b m)"

text \<open>The same loop with a condition that is itself an operation.\<close>

primrec whileM :: "nat \<Rightarrow> ('s, bool) se \<Rightarrow> ('s, unit) se \<Rightarrow> ('s, unit) se" where
  "whileM 0 b m = bindE b (\<lambda>x. if x then throwE OutOfFuel else returnE ())"
| "whileM (Suc n) b m = bindE b (\<lambda>x. if x then thenE m (whileM n b m) else returnE ())"

definition doWhileM :: "nat \<Rightarrow> ('s, unit) se \<Rightarrow> ('s, bool) se \<Rightarrow> ('s, unit) se" where
  "doWhileM n m b = thenE m (whileM n b m)"

text \<open>Running an operation on a part of a larger state.\<close>

definition liftE :: "('t \<Rightarrow> 's) \<Rightarrow> ('s \<Rightarrow> 't \<Rightarrow> 't) \<Rightarrow> ('s, 'a) se \<Rightarrow> ('t, 'a) se" where
  "liftE get put m =
     (\<lambda>t. case m (get t) of Inl e \<Rightarrow> Inl e | Inr r \<Rightarrow> Inr (fst r, put (snd r) t))"

lemma returnE_run [simp, se_simps]: "returnE x s = Inr (x, s)"
  by (simp add: returnE_def)

lemma throwE_run [simp, se_simps]: "throwE e s = Inl e"
  by (simp add: throwE_def)

lemma getsE_run [simp, se_simps]: "getsE f s = Inr (f s, s)"
  by (simp add: getsE_def)

lemma modifyE_run [simp, se_simps]: "modifyE f s = Inr ((), f s)"
  by (simp add: modifyE_def)

lemma bindE_Inr [simp, se_simps]: "m s = Inr r \<Longrightarrow> bindE m f s = f (fst r) (snd r)"
  by (simp add: bindE_def)

lemma bindE_Inl [simp, se_simps]: "m s = Inl e \<Longrightarrow> bindE m f s = Inl e"
  by (simp add: bindE_def)

lemma thenE_Inr [simp, se_simps]: "m s = Inr r \<Longrightarrow> thenE m k s = k (snd r)"
  by (simp add: thenE_def)

lemma thenE_Inl [simp, se_simps]: "m s = Inl e \<Longrightarrow> thenE m k s = Inl e"
  by (simp add: thenE_def)

lemma whenE_run [simp, se_simps]: "whenE b m s = (if b then m s else Inr ((), s))"
  by (simp add: whenE_def)

lemma bindE_InrE:
  assumes "bindE m f s = Inr r"
  obtains x s' where "m s = Inr (x, s')" and "f x s' = Inr r"
  using assms by (auto simp: bindE_def split: sum.splits)

lemma thenE_InrE:
  assumes "thenE m k s = Inr r"
  obtains x s' where "m s = Inr (x, s')" and "k s' = Inr r"
  using assms unfolding thenE_def by (rule bindE_InrE)

lemma bindE_cong [fundef_cong]:
  assumes "m s = m' s'" and "s = s'"
    and "\<And>x t. m' s' = Inr (x, t) \<Longrightarrow> f x t = f' x t"
  shows "bindE m f s = bindE m' f' s'"
  using assms by (auto simp: bindE_def split: sum.splits)

lemma liftE_run:
  "liftE get put m t =
     (case m (get t) of Inl e \<Rightarrow> Inl e | Inr r \<Rightarrow> Inr (fst r, put (snd r) t))"
  by (simp add: liftE_def)

lemma liftE_Inr [simp, se_simps]:
  "m (get t) = Inr r \<Longrightarrow> liftE get put m t = Inr (fst r, put (snd r) t)"
  by (simp add: liftE_def)

subsection \<open>Triples\<close>

text \<open>
  \<open>triple P m Q\<close>: when \<open>m\<close> returns from a state with \<open>P\<close>, its result and its
  final state satisfy \<open>Q\<close>. \<open>avoids P m e\<close>: from a state with \<open>P\<close> the run does
  not end in error \<open>e\<close>.
\<close>

definition triple :: "('s \<Rightarrow> bool) \<Rightarrow> ('s, 'a) se \<Rightarrow> ('a \<Rightarrow> 's \<Rightarrow> bool) \<Rightarrow> bool" where
  "triple P m Q \<longleftrightarrow> (\<forall>s x s'. P s \<longrightarrow> m s = Inr (x, s') \<longrightarrow> Q x s')"

lemma tripleI: "(\<And>s x s'. P s \<Longrightarrow> m s = Inr (x, s') \<Longrightarrow> Q x s') \<Longrightarrow> triple P m Q"
  by (simp add: triple_def)

lemma tripleD: "triple P m Q \<Longrightarrow> P s \<Longrightarrow> m s = Inr (x, s') \<Longrightarrow> Q x s'"
  by (simp add: triple_def)

lemma triple_return [se_intro]: "(\<And>s. P s \<Longrightarrow> Q x s) \<Longrightarrow> triple P (returnE x) Q"
  by (simp add: triple_def)

lemma triple_throw [se_intro]: "triple P (throwE e) Q"
  by (simp add: triple_def)

lemma triple_bind:
  "triple P m R \<Longrightarrow> (\<And>x. triple (R x) (f x) Q) \<Longrightarrow> triple P (bindE m f) Q"
  unfolding triple_def by (blast elim: bindE_InrE)

lemma triple_then:
  "triple P m (\<lambda>_. R) \<Longrightarrow> triple R k Q \<Longrightarrow> triple P (thenE m k) Q"
  unfolding thenE_def by (rule triple_bind)

lemma triple_weaken:
  "triple P m Q \<Longrightarrow> (\<And>s. P' s \<Longrightarrow> P s) \<Longrightarrow> (\<And>x s. Q x s \<Longrightarrow> Q' x s) \<Longrightarrow> triple P' m Q'"
  unfolding triple_def by blast

lemma triple_if [se_intro]:
  "(b \<Longrightarrow> triple P m Q) \<Longrightarrow> (\<not> b \<Longrightarrow> triple P k Q) \<Longrightarrow> triple P (if b then m else k) Q"
  by simp

lemma triple_while:
  assumes body: "triple (\<lambda>s. P s \<and> b s) m (\<lambda>_. P)"
  shows "triple P (whileE n b m) (\<lambda>_ s. P s \<and> \<not> b s)"
proof (induction n)
  case 0
  then show ?case by (auto simp: triple_def)
next
  case (Suc n)
  show ?case
  proof (rule tripleI)
    fix s x s' assume "P s" and run: "whileE (Suc n) b m s = Inr (x, s')"
    show "P s' \<and> \<not> b s'"
    proof (cases "b s")
      case True
      with run have "thenE m (whileE n b m) s = Inr (x, s')" by simp
      then obtain y t where "m s = Inr (y, t)" and "whileE n b m t = Inr (x, s')"
        by (rule thenE_InrE)
      with True \<open>P s\<close> body Suc.IH show ?thesis by (blast dest: tripleD)
    next
      case False
      with run \<open>P s\<close> show ?thesis by simp
    qed
  qed
qed

lemma triple_for:
  assumes "\<And>x. x \<in> set xs \<Longrightarrow> triple P (f x) (\<lambda>_. P)"
  shows "triple P (forE xs f) (\<lambda>_. P)"
  using assms by (induction xs) (auto intro: triple_then triple_return)

subsection \<open>Runs that do not exhaust their bounds\<close>

text \<open>\<open>fine P m Q\<close>: from a state with \<open>P\<close>, \<open>m\<close> does not end in \<open>OutOfFuel\<close>, and when it
  returns, its result and final state satisfy \<open>Q\<close>.\<close>

definition fine :: "('s \<Rightarrow> bool) \<Rightarrow> ('s, 'a) se \<Rightarrow> ('a \<Rightarrow> 's \<Rightarrow> bool) \<Rightarrow> bool" where
  "fine P m Q \<longleftrightarrow>
     (\<forall>s. P s \<longrightarrow> (case m s of Inl e \<Rightarrow> e \<noteq> OutOfFuel | Inr r \<Rightarrow> Q (fst r) (snd r)))"

named_theorems fine_intro \<open>rules for runs that do not exhaust their bounds\<close>

lemma fineI:
  assumes "\<And>s. P s \<Longrightarrow> m s \<noteq> Inl OutOfFuel"
    and "\<And>s x s'. P s \<Longrightarrow> m s = Inr (x, s') \<Longrightarrow> Q x s'"
  shows "fine P m Q"
  unfolding fine_def
proof (intro allI impI)
  fix s assume "P s"
  with assms show "case m s of Inl e \<Rightarrow> e \<noteq> OutOfFuel | Inr r \<Rightarrow> Q (fst r) (snd r)"
    by (cases "m s") auto
qed

lemma fine_noFuel: "fine P m Q \<Longrightarrow> P s \<Longrightarrow> m s \<noteq> Inl OutOfFuel"
  unfolding fine_def by fastforce

lemma fineD: "fine P m Q \<Longrightarrow> P s \<Longrightarrow> m s = Inr (x, s') \<Longrightarrow> Q x s'"
  unfolding fine_def by fastforce

lemma fine_triple: "fine P m Q \<Longrightarrow> triple P m Q"
  by (blast intro: tripleI dest: fineD)

lemma fine_return [fine_intro]: "(\<And>s. P s \<Longrightarrow> Q x s) \<Longrightarrow> fine P (returnE x) Q"
  by (simp add: fine_def)

lemma fine_throw [fine_intro]: "e \<noteq> OutOfFuel \<Longrightarrow> fine P (throwE e) Q"
  by (simp add: fine_def)

lemma fine_gets [fine_intro]: "(\<And>s. P s \<Longrightarrow> Q (f s) s) \<Longrightarrow> fine P (getsE f) Q"
  by (simp add: fine_def)

lemma fine_modify [fine_intro]: "(\<And>s. P s \<Longrightarrow> Q () (f s)) \<Longrightarrow> fine P (modifyE f) Q"
  by (simp add: fine_def)

lemma fine_bind:
  "fine P m R \<Longrightarrow> (\<And>x. fine (R x) (f x) Q) \<Longrightarrow> fine P (bindE m f) Q"
  unfolding fine_def bindE_def by (fastforce split: sum.splits)

lemma fine_then:
  "fine P m (\<lambda>_. R) \<Longrightarrow> fine R k Q \<Longrightarrow> fine P (thenE m k) Q"
  unfolding thenE_def by (rule fine_bind)

lemma fine_weaken:
  "fine P m Q \<Longrightarrow> (\<And>s. P' s \<Longrightarrow> P s) \<Longrightarrow> (\<And>x s. Q x s \<Longrightarrow> Q' x s) \<Longrightarrow> fine P' m Q'"
  unfolding fine_def by (fastforce split: sum.splits)

lemma fine_if [fine_intro]:
  "(b \<Longrightarrow> fine P m Q) \<Longrightarrow> (\<not> b \<Longrightarrow> fine P k Q) \<Longrightarrow> fine P (if b then m else k) Q"
  by simp

lemma fine_when [fine_intro]:
  "(b \<Longrightarrow> fine P m Q) \<Longrightarrow> (\<And>s. \<not> b \<Longrightarrow> P s \<Longrightarrow> Q () s) \<Longrightarrow> fine P (whenE b m) Q"
  by (simp add: whenE_def fine_return)

lemma fine_bind_gets:
  "(\<And>x. fine (\<lambda>s. P s \<and> x = f s) (g x) Q) \<Longrightarrow> fine P (bindE (getsE f) g) Q"
  by (simp add: fine_def bindE_def)

lemma fine_pre: "(\<And>s. P s \<Longrightarrow> fine ((=) s) m Q) \<Longrightarrow> fine P m Q"
  by (simp add: fine_def)

text \<open>A loop whose body lowers a measure below the bound ends within the bound.\<close>

lemma fine_whileM:
  assumes cond: "\<And>k. fine (\<lambda>s. I s \<and> f s \<le> k) b (\<lambda>x s. if x then C s \<and> f s \<le> k else D s)"
    and body: "\<And>k. fine (\<lambda>s. C s \<and> f s \<le> k) m (\<lambda>_ s. I s \<and> f s < k)"
  shows "fine (\<lambda>s. I s \<and> f s < n) (whileM n b m) (\<lambda>_. D)"
proof (induction n)
  case 0
  then show ?case by (simp add: fine_def)
next
  case (Suc n)
  have "fine (\<lambda>s. C s \<and> f s \<le> n) (thenE m (whileM n b m)) (\<lambda>_. D)"
    by (rule fine_then [OF body Suc.IH])
  then have "fine (\<lambda>s. if x then C s \<and> f s \<le> n else D s)
      (if x then thenE m (whileM n b m) else returnE ()) (\<lambda>_. D)" for x :: bool
    by (cases x) (simp_all add: fine_return)
  then have "fine (\<lambda>s. I s \<and> f s \<le> n) (whileM (Suc n) b m) (\<lambda>_. D)"
    unfolding whileM.simps by (rule fine_bind [OF cond])
  then show ?case by (simp add: less_Suc_eq_le)
qed

lemma fine_doWhileM:
  assumes "fine P m (\<lambda>_ s. I s \<and> f s < n)"
    and "\<And>k. fine (\<lambda>s. I s \<and> f s \<le> k) b (\<lambda>x s. if x then C s \<and> f s \<le> k else D s)"
    and "\<And>k. fine (\<lambda>s. C s \<and> f s \<le> k) m (\<lambda>_ s. I s \<and> f s < k)"
  shows "fine P (doWhileM n m b) (\<lambda>_. D)"
  unfolding doWhileM_def by (rule fine_then [OF assms(1) fine_whileM [OF assms(2,3)]])

text \<open>A counting loop whose rounds all return.\<close>

lemma forE_total:
  assumes "\<And>i s. j \<le> i \<Longrightarrow> i < n \<Longrightarrow> I i s \<Longrightarrow> \<exists>s'. f i s = Inr ((), s') \<and> I (Suc i) s'"
    and "I j s" and "j \<le> n"
  shows "\<exists>s'. forE [j..<n] f s = Inr ((), s') \<and> I n s'"
  using assms
proof (induction "n - j" arbitrary: j s)
  case 0
  then show ?case by simp
next
  case (Suc k)
  then have "j < n" by simp
  with Suc.prems obtain s1 where s1: "f j s = Inr ((), s1)" "I (Suc j) s1" by blast
  have "\<exists>s'. forE [Suc j..<n] f s1 = Inr ((), s') \<and> I n s'"
    using Suc.hyps(2) Suc.prems(1) s1(2) \<open>j < n\<close> by (intro Suc.hyps(1)) auto
  with s1(1) \<open>j < n\<close> show ?case by (simp add: upt_rec [of j n])
qed

section \<open>Fixed-width integers\<close>

text \<open>
  A C++ conversion to a signed or unsigned type of \<open>w\<close> bits, on the mathematical
  value (gcc's two's complement wrap-around).
\<close>

definition to_i32 :: "int \<Rightarrow> int" where
  "to_i32 k = signed_take_bit 31 k"

definition to_i64 :: "int \<Rightarrow> int" where
  "to_i64 k = signed_take_bit 63 k"

definition to_u32 :: "int \<Rightarrow> int" where
  "to_u32 k = take_bit 32 k"

abbreviation in_i32 :: "int \<Rightarrow> bool" where
  "in_i32 k \<equiv> - 2147483648 \<le> k \<and> k \<le> 2147483647"

abbreviation in_i64 :: "int \<Rightarrow> bool" where
  "in_i64 k \<equiv> - 9223372036854775808 \<le> k \<and> k \<le> 9223372036854775807"

lemma to_i32_id [simp]: "in_i32 k \<Longrightarrow> to_i32 k = k"
  by (simp add: to_i32_def signed_take_bit_int_eq_self_iff)

lemma to_i64_id [simp]: "in_i64 k \<Longrightarrow> to_i64 k = k"
  by (simp add: to_i64_def signed_take_bit_int_eq_self_iff)

lemma to_i32_range: "in_i32 (to_i32 k)"
  using signed_take_bit_int_greater_eq_minus_exp [of 31 k]
    signed_take_bit_int_less_exp [of 31 k]
  by (simp add: to_i32_def)

lemma to_i64_range: "in_i64 (to_i64 k)"
  using signed_take_bit_int_greater_eq_minus_exp [of 63 k]
    signed_take_bit_int_less_exp [of 63 k]
  by (simp add: to_i64_def)

text \<open>C++ division and remainder: the quotient is rounded towards zero.\<close>

definition c_div :: "int \<Rightarrow> int \<Rightarrow> int" where
  "c_div a b = sgn a * sgn b * (\<bar>a\<bar> div \<bar>b\<bar>)"

definition c_mod :: "int \<Rightarrow> int \<Rightarrow> int" where
  "c_mod a b = a - c_div a b * b"

section \<open>Characters\<close>

definition char_code :: "char \<Rightarrow> nat" where
  "char_code c = of_char c"

text \<open>\<^verbatim>\<open>isspace\<close>, \<^verbatim>\<open>isalpha\<close>, \<^verbatim>\<open>isdigit\<close> in the C locale.\<close>

definition isspace :: "char \<Rightarrow> bool" where
  "isspace c \<longleftrightarrow> (let k = char_code c in k = 32 \<or> 9 \<le> k \<and> k \<le> 13)"

definition isdigit :: "char \<Rightarrow> bool" where
  "isdigit c \<longleftrightarrow> (let k = char_code c in 48 \<le> k \<and> k \<le> 57)"

definition isalpha :: "char \<Rightarrow> bool" where
  "isalpha c \<longleftrightarrow> (let k = char_code c in 65 \<le> k \<and> k \<le> 90 \<or> 97 \<le> k \<and> k \<le> 122)"

text \<open>The C string a character sequence is read as: it ends before the first NUL.\<close>

definition cstr :: "string \<Rightarrow> string" where
  "cstr s = takeWhile (\<lambda>c. c \<noteq> CHR 0x00) s"

lemma cstr_cstr [simp]: "cstr (cstr s) = cstr s"
  unfolding cstr_def by (induction s) (auto dest: set_takeWhileD)

lemma cstr_id: "CHR 0x00 \<notin> set s \<Longrightarrow> cstr s = s"
  unfolding cstr_def by (induction s) auto

lemma cstr_append: "cstr s = s \<Longrightarrow> cstr (s @ t) = s @ cstr t"
  unfolding cstr_def by (induction s) (auto split: if_splits)

section \<open>Lists\<close>

text \<open>The first position of an element, for the searches that return an index or -1.\<close>

primrec index_of :: "'a \<Rightarrow> 'a list \<Rightarrow> nat option" where
  "index_of x [] = None"
| "index_of x (y # ys) = (if y = x then Some 0 else map_option Suc (index_of x ys))"

lemma index_of_None: "index_of x xs = None \<longleftrightarrow> x \<notin> set xs"
  by (induction xs) auto

lemma index_of_SomeD:
  "index_of x xs = Some i \<Longrightarrow> i < length xs \<and> xs ! i = x \<and> x \<notin> set (take i xs)"
  by (induction xs arbitrary: i) (auto split: if_splits)

lemma index_of_append_in: "x \<in> set xs \<Longrightarrow> index_of x (xs @ ys) = index_of x xs"
  by (induction xs) auto

lemma index_of_append_notin:
  "x \<notin> set xs \<Longrightarrow> index_of x (xs @ ys) = map_option (\<lambda>i. length xs + i) (index_of x ys)"
  by (cases "index_of x ys"; induction xs; auto)

lemma index_of_Some_ex: "x \<in> set xs \<Longrightarrow> \<exists>i. index_of x xs = Some i"
  by (cases "index_of x xs") (auto simp: index_of_None)

end
