(* ===== verification/Lexer.thy ===== *)
theory Lexer
  imports Prelude
begin

text \<open>
  \<^verbatim>\<open>src/compiler/Lexer.cpp\<close>: the tokens of a source file. The lexer's members are a
  record. Its input stream is the rest of the file with the state \<^verbatim>\<open>good()\<close> reports. The
  line buffer is read one position past its end as NUL, like \<^verbatim>\<open>std::string::operator[]\<close>;
  reading further is \<open>OutOfRange\<close>. \<^verbatim>\<open>text\<close> and \<^verbatim>\<open>nextText\<close> hold \<^verbatim>\<open>BUFSIZ\<close> characters
  with the terminating NUL, the copy \<^verbatim>\<open>Peek\<close> saves holds 256; a longer token overruns them.

  The fuel of the lexer's loops is the number of characters left in the stream and in the
  line buffer, and two; every round consumes one or is the last, which \<open>GetSym_progress\<close> shows to be enough.
\<close>

datatype Symbol =
    NONE | Integer | NotSym | And | Or | Star | Div | Mod | Plus
  | Minus | Equal | More | Less | Comma | At | Per | NewBlock
  | EndBlock | Colon | Period | Exit | Assign | NewTerm | EndTerm | Pound
  | Primitive | Separator | STString | Identifier | Keyword | KeywordSequence
  | OperatorSequence

record lexer =
  lx_rest :: string
  lx_good :: bool
  lx_sym :: Symbol
  lx_symc :: char
  lx_text :: string
  lx_line :: nat
  lx_peekDone :: bool
  lx_nextSym :: Symbol
  lx_nextSymc :: char
  lx_nextText :: string
  lx_buf :: string
  lx_bufp :: nat

type_synonym 'a lexM = "(lexer, 'a) se"

named_theorems lex_defs \<open>definitions of the lexer\<close>

definition BUFSIZ :: nat where
  "BUFSIZ = 8192"

definition Lexer_new :: "string \<Rightarrow> lexer" where
  "Lexer_new file =
     \<lparr>lx_rest = file, lx_good = True, lx_sym = NONE, lx_symc = CHR 0x00, lx_text = [],
      lx_line = 0, lx_peekDone = False, lx_nextSym = NONE, lx_nextSymc = CHR 0x00,
      lx_nextText = [], lx_buf = [], lx_bufp = 0\<rparr>"

definition GetText :: "lexer \<Rightarrow> string" where
  "GetText l = cstr (lx_text l)"

definition GetNextText :: "lexer \<Rightarrow> string" where
  "GetNextText l = cstr (lx_nextText l)"

section \<open>The line buffer\<close>

definition EOB :: "lexer \<Rightarrow> bool" where
  "EOB l \<longleftrightarrow> length (lx_buf l) \<le> lx_bufp l"

definition charAt :: "nat \<Rightarrow> char lexM" where
  [lex_defs]: "charAt k =
     (\<lambda>l. if lx_bufp l + k < length (lx_buf l) then Inr (lx_buf l ! (lx_bufp l + k), l)
          else if lx_bufp l + k = length (lx_buf l) then Inr (CHR 0x00, l)
          else Inl OutOfRange)"

definition BC :: "char lexM" where
  [lex_defs]: "BC = charAt 0"

definition advance :: "nat \<Rightarrow> unit lexM" where
  [lex_defs]: "advance k = modifyE (\<lambda>l. l\<lparr>lx_bufp := lx_bufp l + k\<rparr>)"

text \<open>\<^verbatim>\<open>std::getline\<close> on a stream that is good: the line without its end; reaching the end of
  the file before a line end clears \<^verbatim>\<open>good()\<close>.\<close>

definition getline :: "lexer \<Rightarrow> lexer" where
  "getline l =
     (let line = takeWhile (\<lambda>c. c \<noteq> CHR 0x0A) (lx_rest l) in
      if length line < length (lx_rest l)
      then l\<lparr>lx_buf := line, lx_rest := drop (Suc (length line)) (lx_rest l)\<rparr>
      else l\<lparr>lx_buf := line, lx_rest := [], lx_good := False\<rparr>)"

definition fillBuffer :: "int lexM" where
  [lex_defs]: "fillBuffer =
     (\<lambda>l. if \<not> lx_good l then Inr (0, l)
          else let l' = getline l in
               Inr (int (length (lx_buf l')), l'\<lparr>lx_line := lx_line l' + 1, lx_bufp := 0\<rparr>))"

definition fillIfEOB :: "unit lexM" where
  [lex_defs]: "fillIfEOB =
     bindE (getsE EOB) (\<lambda>e. if e then thenE fillBuffer (returnE ()) else returnE ())"

text \<open>The characters that are left, and one for the end of the stream.\<close>

definition lx_remaining :: "lexer \<Rightarrow> nat" where
  "lx_remaining l =
     length (lx_rest l) + (if lx_good l then 1 else 0) + (length (lx_buf l) - lx_bufp l)"

section \<open>White space and comments\<close>

definition skipWhiteSpace :: "unit lexM" where
  [lex_defs]: "skipWhiteSpace =
     bindE (getsE lx_remaining) (\<lambda>n.
       whileM (Suc n) (bindE BC (\<lambda>c. returnE (isspace c)))
         (thenE (advance 1) fillIfEOB))"

definition skipComment :: "unit lexM" where
  [lex_defs]: "skipComment =
     bindE BC (\<lambda>c.
       if c = CHR 0x22 then
         bindE (getsE lx_remaining) (\<lambda>n.
         thenE (doWhileM (Suc (Suc n))
                 (thenE (advance 1) fillIfEOB)
                 (bindE BC (\<lambda>d. returnE (d \<noteq> CHR 0x22))))
           (advance 1))
       else returnE ())"

text \<open>\<^verbatim>\<open>EOB || isspace(_BC) || _BC == '"'\<close>, which reads the buffer only when not at its end.\<close>

definition moreBlank :: "bool lexM" where
  [lex_defs]: "moreBlank =
     bindE (getsE lx_good) (\<lambda>good.
     bindE (getsE EOB) (\<lambda>e.
       if e then returnE good
       else bindE BC (\<lambda>c. returnE ((isspace c \<or> c = CHR 0x22) \<and> good))))"

definition skipBlank :: "unit lexM" where
  [lex_defs]: "skipBlank =
     bindE (getsE lx_remaining) (\<lambda>n.
       doWhileM (Suc (Suc n)) (thenE fillIfEOB (thenE skipWhiteSpace skipComment)) moreBlank)"

section \<open>Tokens\<close>

definition ISOP :: "char \<Rightarrow> bool" where
  "ISOP c \<longleftrightarrow> c \<in> set [CHR ''~'', CHR ''&'', CHR ''|'', CHR ''*'', CHR ''/'', CHR 0x5C,
     CHR ''+'', CHR ''='', CHR ''>'', CHR ''<'', CHR '','', CHR ''@'', CHR ''%'']"

definition SEPARATOR :: string where
  "SEPARATOR = ''----''"

definition PRIMITIVE :: string where
  "PRIMITIVE = ''primitive''"

text \<open>Storing a token: its symbol, \<^verbatim>\<open>symc\<close> where the branch sets it, and the characters
  written to \<^verbatim>\<open>text\<close>.\<close>

definition setToken :: "Symbol \<Rightarrow> char option \<Rightarrow> string \<Rightarrow> unit lexM" where
  [lex_defs]: "setToken s ch t =
     (if BUFSIZ \<le> length t then throwE BufferOverflow
      else modifyE (\<lambda>l. l\<lparr>lx_sym := s,
             lx_symc := (case ch of None \<Rightarrow> lx_symc l | Some c \<Rightarrow> c), lx_text := t\<rparr>))"

text \<open>\<^verbatim>\<open>while (p(_BC)) *t++ = buf[bufp++];\<close> for a test NUL does not pass.\<close>

definition takeText :: "(char \<Rightarrow> bool) \<Rightarrow> string lexM" where
  [lex_defs]: "takeText p =
     bindE BC (\<lambda>_.
     bindE (getsE (\<lambda>l. takeWhile p (drop (lx_bufp l) (lx_buf l)))) (\<lambda>t.
     thenE (advance (length t)) (returnE t)))"

text \<open>\<^verbatim>\<open>buf.substr(bufp, n)\<close>, which throws behind the end of the buffer.\<close>

definition substr :: "nat \<Rightarrow> string lexM" where
  [lex_defs]: "substr n =
     (\<lambda>l. if length (lx_buf l) < lx_bufp l then Inl (StdException ''out_of_range'')
          else Inr (take n (drop (lx_bufp l) (lx_buf l)), l))"

text \<open>A string literal: everything up to the closing quote, which must be on the same line.\<close>

definition scanString :: "unit lexM" where
  [lex_defs]: "scanString =
     bindE (getsE (\<lambda>l. drop (Suc (lx_bufp l)) (lx_buf l))) (\<lambda>r.
       let t = takeWhile (\<lambda>c. c \<noteq> CHR 0x27) r in
       if length t < length r
       then thenE (setToken STString (Some (CHR 0x00)) t) (advance (length t + 2))
       else throwE OutOfRange)"

definition MATCH :: "Symbol \<Rightarrow> unit lexM" where
  [lex_defs]: "MATCH s = bindE BC (\<lambda>c. thenE (setToken s (Some c) [c]) (advance 1))"

definition scanColon :: "unit lexM" where
  [lex_defs]: "scanColon =
     bindE (charAt 1) (\<lambda>d.
       if d = CHR ''='' then thenE (advance 2) (setToken Assign (Some (CHR 0x00)) '':='')
       else thenE (advance 1) (setToken Colon (Some (CHR '':'')) '':''))"

definition scanMinus :: "unit lexM" where
  [lex_defs]: "scanMinus =
     bindE (substr (length SEPARATOR)) (\<lambda>t.
       if t = SEPARATOR then
         bindE (takeText (\<lambda>c. c = CHR ''-'')) (\<lambda>u. setToken Separator None u)
       else thenE (advance 1) (setToken Minus (Some (CHR ''-'')) ''-''))"

definition single_ops :: "(char \<times> Symbol) list" where
  "single_ops = [(CHR ''~'', NotSym), (CHR ''&'', And), (CHR ''|'', Or), (CHR ''*'', Star),
     (CHR ''/'', Div), (CHR 0x5C, Mod), (CHR ''+'', Plus), (CHR ''='', Equal),
     (CHR ''>'', More), (CHR ''<'', Less), (CHR '','', Comma), (CHR ''@'', At),
     (CHR ''%'', Per)]"

definition scanOperator :: "unit lexM" where
  [lex_defs]: "scanOperator =
     bindE (charAt 1) (\<lambda>d.
       if ISOP d then
         bindE (takeText ISOP) (\<lambda>u. setToken OperatorSequence (Some (CHR 0x00)) u)
       else bindE BC (\<lambda>c. case map_of single_ops c of
              Some s \<Rightarrow> MATCH s | None \<Rightarrow> returnE ()))"

definition identChar :: "char \<Rightarrow> bool" where
  "identChar c \<longleftrightarrow> isalpha c \<or> isdigit c \<or> c = CHR ''_''"

definition scanIdentifier :: "unit lexM" where
  [lex_defs]: "scanIdentifier =
     bindE (takeText identChar) (\<lambda>t.
     bindE BC (\<lambda>c.
       if c = CHR '':'' then
         thenE (advance 1)
        (bindE BC (\<lambda>d.
           if isalpha d then
             bindE (takeText (\<lambda>e. isalpha e \<or> e = CHR '':'')) (\<lambda>u.
               setToken KeywordSequence (Some (CHR 0x00)) (t @ '':'' @ u))
           else setToken Keyword (Some (CHR 0x00)) (t @ '':'')))
       else setToken Identifier (Some (CHR 0x00)) t))"

definition scanNumber :: "unit lexM" where
  [lex_defs]: "scanNumber =
     bindE (takeText isdigit) (\<lambda>t. setToken Integer (Some (CHR 0x00)) t)"

definition scanToken :: "unit lexM" where
  [lex_defs]: "scanToken =
     bindE BC (\<lambda>c.
       if c = CHR 0x27 then scanString
       else if c = CHR ''['' then MATCH NewBlock
       else if c = CHR '']'' then MATCH EndBlock
       else if c = CHR '':'' then scanColon
       else if c = CHR ''('' then MATCH NewTerm
       else if c = CHR '')'' then MATCH EndTerm
       else if c = CHR ''#'' then MATCH Pound
       else if c = CHR ''^'' then MATCH Exit
       else if c = CHR ''.'' then MATCH Period
       else if c = CHR ''-'' then scanMinus
       else if ISOP c then scanOperator
       else bindE (substr (length PRIMITIVE)) (\<lambda>t.
         if t = PRIMITIVE then
           thenE (advance (length PRIMITIVE)) (setToken Primitive (Some (CHR 0x00)) ''primitive'')
         else if isalpha c then scanIdentifier
         else if isdigit c then scanNumber
         else setToken NONE (Some c) (if c = CHR 0x00 then [] else [c])))"

text \<open>
  \<^verbatim>\<open>GetSym\<close>. A token that was peeked at is handed out: \<^verbatim>\<open>strncpy\<close> copies its first 512
  characters, and \<^verbatim>\<open>text\<close> still holds the others, since scanning that token was the last
  longer write to it.
\<close>

definition GetSym :: "Symbol lexM" where
  [lex_defs]: "GetSym =
     bindE (getsE lx_peekDone) (\<lambda>b.
       if b then
         thenE (modifyE (\<lambda>l. l\<lparr>lx_peekDone := False, lx_sym := lx_nextSym l,
                  lx_symc := lx_nextSymc l, lx_text := cstr (lx_nextText l)\<rparr>))
           (getsE lx_sym)
       else thenE skipBlank (thenE scanToken (getsE lx_sym)))"

definition Peek :: "Symbol lexM" where
  [lex_defs]: "Peek =
     bindE (getsE (\<lambda>l. (lx_sym l, lx_symc l, cstr (lx_text l)))) (\<lambda>save.
       if 256 \<le> length (snd (snd save)) then throwE BufferOverflow
       else
         thenE GetSym
        (thenE (modifyE (\<lambda>l. l\<lparr>lx_nextSym := lx_sym l, lx_nextSymc := lx_symc l,
                  lx_nextText := cstr (lx_text l), lx_sym := fst save,
                  lx_symc := fst (snd save), lx_text := snd (snd save),
                  lx_peekDone := True\<rparr>))
           (getsE lx_nextSym)))"

section \<open>Progress\<close>

definition cur :: "lexer \<Rightarrow> char" where
  "cur l = (if lx_bufp l < length (lx_buf l) then lx_buf l ! lx_bufp l else CHR 0x00)"

definition peekOf :: "lexer \<Rightarrow> bool \<times> Symbol \<times> char \<times> string" where
  "peekOf l = (lx_peekDone l, lx_nextSym l, lx_nextSymc l, lx_nextText l)"

lemma isspace_NUL [simp]: "\<not> isspace (CHR 0x00)"
  by (simp add: isspace_def char_code_def)

lemma BC_fine: "fine Q BC (\<lambda>c l. Q l \<and> c = cur l \<and> lx_bufp l \<le> length (lx_buf l))"
  by (auto simp: fine_def BC_def charAt_def cur_def)

lemma getline_remaining:
  assumes "EOB l" "lx_good l"
  shows "lx_remaining ((getline l)\<lparr>lx_line := k, lx_bufp := 0\<rparr>) < lx_remaining l"
    and "peekOf ((getline l)\<lparr>lx_line := k, lx_bufp := 0\<rparr>) = peekOf l"
  using assms length_takeWhile_le [of "\<lambda>c. c \<noteq> CHR 0x0A" "lx_rest l"]
  by (auto simp: getline_def lx_remaining_def EOB_def peekOf_def Let_def)

lemma fillIfEOB_run:
  "\<exists>l'. fillIfEOB l = Inr ((), l') \<and> peekOf l' = peekOf l \<and>
     (if EOB l \<and> lx_good l then lx_remaining l' < lx_remaining l \<and> lx_bufp l' = 0 else l' = l)"
  using getline_remaining [of l "lx_line (getline l) + 1"]
  by (cases "lx_good l") (auto simp: lex_defs Let_def)

definition advFill :: "unit lexM" where
  "advFill = thenE (advance 1) fillIfEOB"

lemma advFill_run:
  "\<exists>l'. advFill l = Inr ((), l') \<and> peekOf l' = peekOf l \<and> lx_remaining l' \<le> lx_remaining l \<and>
     (lx_bufp l < length (lx_buf l) \<or> lx_good l \<longrightarrow> lx_remaining l' < lx_remaining l) \<and>
     (length (lx_buf l) \<le> lx_bufp l \<longrightarrow> \<not> lx_good l \<longrightarrow> length (lx_buf l') < lx_bufp l')"
proof -
  obtain l' where run: "fillIfEOB (l\<lparr>lx_bufp := lx_bufp l + 1\<rparr>) = Inr ((), l')"
    and pk: "peekOf l' = peekOf (l\<lparr>lx_bufp := lx_bufp l + 1\<rparr>)"
    and post: "if EOB (l\<lparr>lx_bufp := lx_bufp l + 1\<rparr>) \<and> lx_good l
       then lx_remaining l' < lx_remaining (l\<lparr>lx_bufp := lx_bufp l + 1\<rparr>) \<and> lx_bufp l' = 0
       else l' = l\<lparr>lx_bufp := lx_bufp l + 1\<rparr>"
    using fillIfEOB_run [of "l\<lparr>lx_bufp := lx_bufp l + 1\<rparr>"] by auto
  from post have "lx_remaining l' \<le> lx_remaining l \<and>
     (lx_bufp l < length (lx_buf l) \<or> lx_good l \<longrightarrow> lx_remaining l' < lx_remaining l) \<and>
     (length (lx_buf l) \<le> lx_bufp l \<longrightarrow> \<not> lx_good l \<longrightarrow> length (lx_buf l') < lx_bufp l')"
    by (auto simp: lx_remaining_def EOB_def split: if_splits)
  with run pk show ?thesis
    by (auto simp: advFill_def advance_def peekOf_def)
qed

lemma advFill_fine:
  "fine (\<lambda>l. lx_remaining l = k \<and> peekOf l = pk \<and> lx_bufp l < length (lx_buf l)) advFill
     (\<lambda>_ l. lx_remaining l < k \<and> peekOf l = pk)"
  unfolding fine_def using advFill_run by (fastforce)


text \<open>In the next lemmas \<open>b\<close> asks for strict progress.\<close>

definition blankInv :: "nat \<Rightarrow> bool \<times> Symbol \<times> char \<times> string \<Rightarrow> bool \<Rightarrow> (lexer \<Rightarrow> bool) \<Rightarrow> lexer \<Rightarrow> bool" where
  "blankInv k pk b A l \<longleftrightarrow>
     lx_remaining l \<le> k \<and> peekOf l = pk \<and> (b \<longrightarrow> lx_remaining l < k \<or> A l)"

lemma skipWhiteSpace_fine:
  "fine (blankInv k pk b (\<lambda>l. isspace (cur l) \<or> A (cur l))) skipWhiteSpace
     (\<lambda>_. blankInv k pk b (\<lambda>l. A (cur l)))"
proof -
  let ?I = "blankInv k pk b (\<lambda>l. isspace (cur l) \<or> A (cur l))"
  have cond: "fine (\<lambda>l. ?I l \<and> lx_remaining l \<le> j)
      (bindE BC (\<lambda>c. returnE (isspace c)))
      (\<lambda>x l. if x then (?I l \<and> isspace (cur l)) \<and> lx_remaining l \<le> j
             else blankInv k pk b (\<lambda>l. A (cur l)) l)" for j
    by (rule fine_bind [OF BC_fine]) (auto simp: blankInv_def intro: fine_return)
  have body: "fine (\<lambda>l. (?I l \<and> isspace (cur l)) \<and> lx_remaining l \<le> j)
      (thenE (advance 1) fillIfEOB)
      (\<lambda>_ l. ?I l \<and> lx_remaining l < j)" for j
    unfolding advFill_def [symmetric]
  proof (rule fine_pre)
    fix s assume s: "(?I s \<and> isspace (cur s)) \<and> lx_remaining s \<le> j"
    then have "lx_bufp s < length (lx_buf s)" by (auto simp: cur_def split: if_splits)
    with s show "fine ((=) s) advFill (\<lambda>_ l. ?I l \<and> lx_remaining l < j)"
      by (intro fine_weaken [OF advFill_fine [of "lx_remaining s" pk]]) (auto simp: blankInv_def)
  qed
  have loop: "fine (\<lambda>l. ?I l \<and> lx_remaining l < n)
      (whileM n (bindE BC (\<lambda>c. returnE (isspace c))) (thenE (advance 1) fillIfEOB))
      (\<lambda>_. blankInv k pk b (\<lambda>l. A (cur l)))" for n
    by (rule fine_whileM [OF cond body])
  show ?thesis
    unfolding skipWhiteSpace_def
    by (rule fine_bind_gets, rule fine_weaken [OF loop]) auto
qed

definition commentMeasure :: "lexer \<Rightarrow> nat" where
  "commentMeasure l = lx_remaining l + (if lx_bufp l \<le> length (lx_buf l) then 1 else 0)"

lemma advFill_measure:
  "fine (\<lambda>l. (lx_remaining l < k \<and> peekOf l = pk \<and> lx_bufp l \<le> length (lx_buf l)) \<and> commentMeasure l \<le> j)
     (thenE (advance 1) fillIfEOB)
     (\<lambda>_ l. (lx_remaining l < k \<and> peekOf l = pk) \<and> commentMeasure l < j)"
  unfolding advFill_def [symmetric]
proof (rule fineI)
  fix s assume s: "(lx_remaining s < k \<and> peekOf s = pk \<and> lx_bufp s \<le> length (lx_buf s)) \<and> commentMeasure s \<le> j"
  obtain s' where run: "advFill s = Inr ((), s')" "peekOf s' = peekOf s" "lx_remaining s' \<le> lx_remaining s"
    "lx_bufp s < length (lx_buf s) \<or> lx_good s \<longrightarrow> lx_remaining s' < lx_remaining s"
    "length (lx_buf s) \<le> lx_bufp s \<longrightarrow> \<not> lx_good s \<longrightarrow> length (lx_buf s') < lx_bufp s'"
    using advFill_run [of s] by blast
  show "advFill s \<noteq> Inl OutOfFuel" using run(1) by simp
  fix x s'' assume "advFill s = Inr (x, s'')"
  with run(1) have "s'' = s'" by simp
  with s run(2-) show "(lx_remaining s'' < k \<and> peekOf s'' = pk) \<and> commentMeasure s'' < j"
    by (cases "lx_bufp s < length (lx_buf s) \<or> lx_good s") (auto simp: commentMeasure_def split: if_splits)
qed

lemma skipComment_fine:
  "fine (blankInv k pk b (\<lambda>l. cur l = CHR 0x22)) skipComment
     (\<lambda>_. blankInv k pk b (\<lambda>_. False))"
proof -
  let ?I = "\<lambda>k l. lx_remaining l < k \<and> peekOf l = pk"
  have cond: "fine (\<lambda>l. ?I k l \<and> commentMeasure l \<le> j)
      (bindE BC (\<lambda>d. returnE (d \<noteq> CHR 0x22)))
      (\<lambda>x l. if x then (lx_remaining l < k \<and> peekOf l = pk \<and> lx_bufp l \<le> length (lx_buf l)) \<and> commentMeasure l \<le> j
             else ?I k l)" for j k
    by (rule fine_bind [OF BC_fine]) (auto intro: fine_return)
  have first: "fine (\<lambda>l. (lx_remaining l \<le> k \<and> peekOf l = pk \<and> cur l = CHR 0x22) \<and> n = lx_remaining l)
      (thenE (advance 1) fillIfEOB) (\<lambda>_ l. ?I k l \<and> commentMeasure l < Suc (Suc n))" for n k
    unfolding advFill_def [symmetric]
  proof (rule fine_pre)
    fix s assume s: "(lx_remaining s \<le> k \<and> peekOf s = pk \<and> cur s = CHR 0x22) \<and> n = lx_remaining s"
    then have "lx_bufp s < length (lx_buf s)" by (auto simp: cur_def split: if_splits)
    with s show "fine ((=) s) advFill (\<lambda>_ l. ?I k l \<and> commentMeasure l < Suc (Suc n))"
      by (intro fine_weaken [OF advFill_fine [of "lx_remaining s" pk]]) (auto simp: commentMeasure_def)
  qed
  have last: "fine (?I k) (advance 1) (\<lambda>_. ?I k)" for k
    by (auto simp: fine_def advance_def lx_remaining_def peekOf_def)
  have rest: "fine (\<lambda>l. lx_remaining l \<le> k \<and> peekOf l = pk \<and> cur l = CHR 0x22)
     (bindE (getsE lx_remaining) (\<lambda>n.
         thenE (doWhileM (Suc (Suc n)) (thenE (advance 1) fillIfEOB)
                 (bindE BC (\<lambda>d. returnE (d \<noteq> CHR 0x22)))) (advance 1)))
     (\<lambda>_. ?I k)" for k
    by (rule fine_bind_gets, rule fine_then [OF _ last],
        rule fine_doWhileM [OF first cond advFill_measure])
  have branch: "fine (\<lambda>l. blankInv k pk b (\<lambda>l. cur l = CHR 0x22) l \<and> c = cur l \<and> lx_bufp l \<le> length (lx_buf l))
     (if c = CHR 0x22 then (bindE (getsE lx_remaining) (\<lambda>n.
         thenE (doWhileM (Suc (Suc n)) (thenE (advance 1) fillIfEOB)
                 (bindE BC (\<lambda>d. returnE (d \<noteq> CHR 0x22)))) (advance 1)))
      else returnE ()) (\<lambda>_. blankInv k pk b (\<lambda>_. False))" for c
  proof (rule fine_if)
    show "c = CHR 0x22 \<Longrightarrow> fine (\<lambda>l. blankInv k pk b (\<lambda>l. cur l = CHR 0x22) l \<and> c = cur l \<and> lx_bufp l \<le> length (lx_buf l))
      (bindE (getsE lx_remaining) (\<lambda>n.
         thenE (doWhileM (Suc (Suc n)) (thenE (advance 1) fillIfEOB)
                 (bindE BC (\<lambda>d. returnE (d \<noteq> CHR 0x22)))) (advance 1)))
      (\<lambda>_. blankInv k pk b (\<lambda>_. False))"
      by (rule fine_weaken [OF rest [of k]]) (auto simp: blankInv_def)
  qed (rule fine_return, auto simp: blankInv_def)
  show ?thesis
    unfolding skipComment_def by (rule fine_bind [OF BC_fine branch])
qed

lemma fillIfEOB_fine:
  "fine (blankInv k pk b (\<lambda>l. lx_good l \<and> (EOB l \<or> A (cur l)))) fillIfEOB
     (\<lambda>_. blankInv k pk b (\<lambda>l. A (cur l)))"
proof (rule fineI)
  fix s assume s: "blankInv k pk b (\<lambda>l. lx_good l \<and> (EOB l \<or> A (cur l))) s"
  obtain s' where run: "fillIfEOB s = Inr ((), s')" "peekOf s' = peekOf s"
    "if EOB s \<and> lx_good s then lx_remaining s' < lx_remaining s \<and> lx_bufp s' = 0 else s' = s"
    using fillIfEOB_run [of s] by blast
  show "fillIfEOB s \<noteq> Inl OutOfFuel" using run(1) by simp
  fix x s'' assume "fillIfEOB s = Inr (x, s'')"
  with run(1) have "s'' = s'" by simp
  with s run(2,3) show "blankInv k pk b (\<lambda>l. A (cur l)) s''"
    by (auto simp: blankInv_def split: if_splits)
qed

lemma skipBlank_fine:
  "fine (\<lambda>l. lx_remaining l \<le> k \<and> peekOf l = pk) skipBlank
     (\<lambda>_ l. lx_remaining l \<le> k \<and> peekOf l = pk)"
proof -
  let ?C = "\<lambda>l. lx_good l \<and> (EOB l \<or> isspace (cur l) \<or> cur l = CHR 0x22)"
  have once: "fine (blankInv k pk b ?C) (thenE fillIfEOB (thenE skipWhiteSpace skipComment))
      (\<lambda>_. blankInv k pk b (\<lambda>_. False))" for k b
    by (rule fine_then [OF fillIfEOB_fine fine_then [OF skipWhiteSpace_fine skipComment_fine]])
  have cond: "fine (\<lambda>l. (lx_remaining l \<le> k \<and> peekOf l = pk) \<and> lx_remaining l \<le> j) moreBlank
      (\<lambda>x l. if x then (lx_remaining l \<le> k \<and> peekOf l = pk \<and> ?C l) \<and> lx_remaining l \<le> j
             else lx_remaining l \<le> k \<and> peekOf l = pk)" for j
    by (auto simp: fine_def moreBlank_def BC_def charAt_def bindE_def EOB_def cur_def
        split: sum.splits if_splits)
  have body: "fine (\<lambda>l. (lx_remaining l \<le> k \<and> peekOf l = pk \<and> ?C l) \<and> lx_remaining l \<le> j)
      (thenE fillIfEOB (thenE skipWhiteSpace skipComment))
      (\<lambda>_ l. (lx_remaining l \<le> k \<and> peekOf l = pk) \<and> lx_remaining l < j)" for j
  proof (rule fine_pre)
    fix s assume s: "(lx_remaining s \<le> k \<and> peekOf s = pk \<and> ?C s) \<and> lx_remaining s \<le> j"
    then show "fine ((=) s) (thenE fillIfEOB (thenE skipWhiteSpace skipComment))
       (\<lambda>_ l. (lx_remaining l \<le> k \<and> peekOf l = pk) \<and> lx_remaining l < j)"
      by (intro fine_weaken [OF once [of "lx_remaining s" True]]) (auto simp: blankInv_def)
  qed
  have first: "fine (\<lambda>l. (lx_remaining l \<le> k \<and> peekOf l = pk) \<and> n = lx_remaining l)
      (thenE fillIfEOB (thenE skipWhiteSpace skipComment))
      (\<lambda>_ l. (lx_remaining l \<le> k \<and> peekOf l = pk) \<and> lx_remaining l < Suc (Suc n))" for n
  proof (rule fine_pre)
    fix s assume s: "(lx_remaining s \<le> k \<and> peekOf s = pk) \<and> n = lx_remaining s"
    then show "fine ((=) s) (thenE fillIfEOB (thenE skipWhiteSpace skipComment))
       (\<lambda>_ l. (lx_remaining l \<le> k \<and> peekOf l = pk) \<and> lx_remaining l < Suc (Suc n))"
      by (intro fine_weaken [OF once [of "lx_remaining s" False]]) (auto simp: blankInv_def)
  qed
  show ?thesis
    unfolding skipBlank_def
    by (rule fine_bind_gets, rule fine_doWhileM [OF first cond body])
qed


section \<open>The shape of tokens\<close>

definition token_ok :: "Symbol \<Rightarrow> string \<Rightarrow> bool" where
  "token_ok s t \<longleftrightarrow>
     (s = Identifier \<longrightarrow> t \<noteq> [] \<and> isalpha (hd t) \<and> list_all identChar t) \<and>
     (s = Keyword \<longrightarrow> (\<exists>u. t = u @ '':'' \<and> u \<noteq> [] \<and> isalpha (hd u) \<and> list_all identChar u)) \<and>
     (s = Integer \<longrightarrow> t \<noteq> [] \<and> list_all isdigit t) \<and>
     (s = OperatorSequence \<longrightarrow> t \<noteq> [] \<and> list_all ISOP t) \<and>
     (s = Minus \<or> s \<in> snd ` set single_ops \<longrightarrow> (\<exists>c. t = [c] \<and> (c = CHR ''-'' \<or> ISOP c)))"

lemma cstr_noNUL: "list_all (\<lambda>c. c \<noteq> CHR 0x00) t \<Longrightarrow> cstr t = t"
  by (rule cstr_id) (auto simp: list_all_iff)

lemma NUL_classes [simp]: "\<not> isalpha (CHR 0x00)" "\<not> isdigit (CHR 0x00)" "\<not> identChar (CHR 0x00)"
  "\<not> ISOP (CHR 0x00)"
  by (simp_all add: isalpha_def isdigit_def identChar_def ISOP_def char_code_def)

lemma cstr_list_all: "list_all p t \<Longrightarrow> \<not> p (CHR 0x00) \<Longrightarrow> cstr t = t"
  by (rule cstr_id) (auto simp: list_all_iff)

lemma token_ok_id:
  assumes "token_ok s t"
    and "s \<in> {Identifier, Keyword, Integer, OperatorSequence, Minus} \<union> snd ` set single_ops"
  shows "cstr t = t"
proof -
  have "CHR 0x00 \<notin> set t" if "s = Minus \<or> s \<in> snd ` set single_ops"
  proof -
    from assms(1) that obtain c where "t = [c]" "c = CHR ''-'' \<or> ISOP c"
      unfolding token_ok_def by blast
    then show ?thesis by auto
  qed
  moreover have "CHR 0x00 \<notin> set t" if "s = Keyword"
  proof -
    from assms(1) that obtain u where "t = u @ '':''" "list_all identChar u"
      unfolding token_ok_def by blast
    then show ?thesis by (auto simp: list_all_iff)
  qed
  moreover have "CHR 0x00 \<notin> set t" if "s = Identifier \<or> s = Integer \<or> s = OperatorSequence"
  proof -
    from assms(1) that have "list_all identChar t \<or> list_all isdigit t \<or> list_all ISOP t"
      unfolding token_ok_def by blast
    then show ?thesis by (auto simp: list_all_iff)
  qed
  ultimately show ?thesis using assms(2) by (intro cstr_id) blast
qed

lemma token_ok_other:
  "s \<notin> {Identifier, Keyword, Integer, OperatorSequence, Minus} \<union> snd ` set single_ops \<Longrightarrow> token_ok s t"
  unfolding token_ok_def by blast

lemma token_ok_cstr: "token_ok s t \<Longrightarrow> token_ok s (cstr t)"
  using token_ok_id token_ok_other by metis

lemma takeText_run:
  "takeText p l =
     (if lx_bufp l \<le> length (lx_buf l)
      then Inr (takeWhile p (drop (lx_bufp l) (lx_buf l)),
             l\<lparr>lx_bufp := lx_bufp l + length (takeWhile p (drop (lx_bufp l) (lx_buf l)))\<rparr>)
      else Inl OutOfRange)"
  by (auto simp: takeText_def BC_def charAt_def advance_def bindE_def)

lemma setToken_run:
  "setToken s ch t l =
     (if BUFSIZ \<le> length t then Inl BufferOverflow
      else Inr ((), l\<lparr>lx_sym := s, lx_symc := (case ch of None \<Rightarrow> lx_symc l | Some c \<Rightarrow> c), lx_text := t\<rparr>))"
  by (simp add: setToken_def)

text \<open>What scanning a token promises.\<close>

definition scanned :: "lexer \<Rightarrow> lexer \<Rightarrow> bool" where
  "scanned l l' \<longleftrightarrow> lx_remaining l' \<le> lx_remaining l \<and> peekOf l' = peekOf l \<and>
     (lx_sym l' \<noteq> NONE \<longrightarrow> lx_remaining l' < lx_remaining l) \<and> token_ok (lx_sym l') (lx_text l')"

definition scans :: "(lexer \<Rightarrow> bool) \<Rightarrow> unit lexM \<Rightarrow> bool" where
  "scans P m \<longleftrightarrow> (\<forall>l. P l \<longrightarrow> lx_bufp l < length (lx_buf l) \<longrightarrow>
     (case m l of Inl e \<Rightarrow> e \<noteq> OutOfFuel | Inr r \<Rightarrow> scanned l (snd r)))"

lemmas scan_simps = scans_def scanned_def lx_remaining_def peekOf_def takeText_run setToken_run
  charAt_def BC_def advance_def bindE_def thenE_def substr_def Let_def

lemma scans_String: "scans (\<lambda>_. True) scanString"
  by (auto simp: scan_simps scanString_def token_ok_def single_ops_def split: if_splits)

lemma scans_MATCH:
  "s \<in> set [NewBlock, EndBlock, NewTerm, EndTerm, Pound, Exit, Period] \<Longrightarrow> scans (\<lambda>_. True) (MATCH s)"
  by (auto simp: scan_simps MATCH_def token_ok_def single_ops_def)

lemma scans_Colon: "scans (\<lambda>l. cur l = CHR '':'') scanColon"
  by (auto simp: scan_simps scanColon_def token_ok_def single_ops_def)

lemma takeWhile_cur:
  "lx_bufp l < length (lx_buf l) \<Longrightarrow> p (cur l) \<Longrightarrow>
     takeWhile p (drop (lx_bufp l) (lx_buf l)) =
       cur l # takeWhile p (drop (Suc (lx_bufp l)) (lx_buf l))"
  by (simp add: cur_def Cons_nth_drop_Suc [symmetric])

lemma takeText_bound:
  "lx_bufp l < length (lx_buf l) \<Longrightarrow>
   lx_bufp l + length (takeWhile p (drop (lx_bufp l) (lx_buf l))) \<le> length (lx_buf l)"
  using length_takeWhile_le [of p "drop (lx_bufp l) (lx_buf l)"] by simp

lemma scans_Minus: "scans (\<lambda>l. cur l = CHR ''-'') scanMinus"
  using takeWhile_cur [of _ "\<lambda>c. c = CHR ''-''"]
  by (auto simp: scan_simps scanMinus_def token_ok_def single_ops_def)

lemma list_all_takeWhile: "list_all p (takeWhile p xs)"
  by (induction xs) auto

lemma single_ops_ISOP: "ISOP c \<Longrightarrow> \<exists>s. map_of single_ops c = Some s \<and> s \<noteq> NONE \<and> s \<in> snd ` set single_ops"
  by (auto simp: ISOP_def single_ops_def)

lemma token_ok_single: "ISOP c \<Longrightarrow> s \<in> snd ` set single_ops \<Longrightarrow> token_ok s [c]"
  by (auto simp: token_ok_def single_ops_def)

lemma scans_Operator: "scans (\<lambda>l. ISOP (cur l)) scanOperator"
proof -
  have 1: "token_ok OperatorSequence (takeWhile ISOP xs)" if "takeWhile ISOP xs \<noteq> []" for xs
    using that by (simp add: token_ok_def list_all_takeWhile single_ops_def)
  show ?thesis
    unfolding scans_def
  proof (intro allI impI)
    fix l assume op: "ISOP (cur l)" and b: "lx_bufp l < length (lx_buf l)"
    obtain s where s: "map_of single_ops (cur l) = Some s" "s \<noteq> NONE" "s \<in> snd ` set single_ops"
      using single_ops_ISOP [OF op] by blast
    have c: "lx_buf l ! lx_bufp l = cur l" using b by (simp add: cur_def)
    show "case scanOperator l of Inl e \<Rightarrow> e \<noteq> OutOfFuel | Inr r \<Rightarrow> scanned l (snd r)"
      using b s c takeWhile_cur [of l ISOP, OF b op] 1 [of "drop (lx_bufp l) (lx_buf l)"] token_ok_single [OF op s(3)]
      by (auto simp: scan_simps scanOperator_def MATCH_def)
  qed
qed

lemma isalpha_identChar: "isalpha c \<Longrightarrow> identChar c"
  by (simp add: identChar_def)

lemma scans_Identifier: "scans (\<lambda>l. isalpha (cur l)) scanIdentifier"
proof -
  have id: "token_ok Identifier (c # takeWhile identChar xs)" "token_ok Keyword ((c # takeWhile identChar xs) @ '':'')"
    if "isalpha c" for xs c
    using that isalpha_identChar by (auto simp: token_ok_def list_all_takeWhile single_ops_def)
  have ks: "token_ok KeywordSequence t" for t by (simp add: token_ok_def single_ops_def)
  show ?thesis
    unfolding scans_def
  proof (intro allI impI)
    fix l assume al: "isalpha (cur l)" and b: "lx_bufp l < length (lx_buf l)"
    show "case scanIdentifier l of Inl e \<Rightarrow> e \<noteq> OutOfFuel | Inr r \<Rightarrow> scanned l (snd r)"
      using b takeWhile_cur [of l identChar, OF b isalpha_identChar [OF al]] takeText_bound [OF b, of identChar]
        id [OF al] ks
      by (auto simp: scan_simps scanIdentifier_def split: if_splits)
  qed
qed

lemma scans_Number: "scans (\<lambda>l. isdigit (cur l)) scanNumber"
  unfolding scans_def
proof (intro allI impI)
  fix l assume al: "isdigit (cur l)" and b: "lx_bufp l < length (lx_buf l)"
  have "token_ok Integer (c # takeWhile isdigit xs)" if "isdigit c" for c xs
    using that by (simp add: token_ok_def list_all_takeWhile single_ops_def)
  then show "case scanNumber l of Inl e \<Rightarrow> e \<noteq> OutOfFuel | Inr r \<Rightarrow> scanned l (snd r)"
    using b takeWhile_cur [of l isdigit, OF b al] al
    by (auto simp: scan_simps scanNumber_def)
qed


lemma scansE:
  "scans P m \<Longrightarrow> P l \<Longrightarrow> lx_bufp l < length (lx_buf l) \<Longrightarrow>
     (case m l of Inl e \<Rightarrow> e \<noteq> OutOfFuel | Inr r \<Rightarrow> scanned l (snd r))"
  by (simp add: scans_def)

lemma token_ok_NONE: "token_ok NONE t" "token_ok Primitive t"
  by (simp_all add: token_ok_def single_ops_def)

lemma scans_primitive:
  "scans (\<lambda>l. take (length PRIMITIVE) (drop (lx_bufp l) (lx_buf l)) = PRIMITIVE)
     (thenE (advance (length PRIMITIVE)) (setToken Primitive (Some (CHR 0x00)) ''primitive''))"
  by (auto simp: scan_simps token_ok_NONE PRIMITIVE_def)

lemma scanToken_run:
  "case scanToken l of Inl e \<Rightarrow> e \<noteq> OutOfFuel | Inr r \<Rightarrow> scanned l (snd r)"
proof (cases "lx_bufp l < length (lx_buf l)")
  case True
  have bc: "BC l = Inr (cur l, l)" using True by (simp add: BC_def charAt_def cur_def)
  have sub: "substr n l = Inr (take n (drop (lx_bufp l) (lx_buf l)), l)" for n
    using True by (simp add: substr_def)
  have none: "case setToken NONE ch t l of Inl e \<Rightarrow> e \<noteq> OutOfFuel | Inr r \<Rightarrow> scanned l (snd r)" for ch t
    by (simp add: setToken_run scanned_def lx_remaining_def peekOf_def token_ok_NONE)
  note S = scansE [OF scans_String, of l] scansE [OF scans_MATCH, of _ l] scansE [OF scans_Colon, of l]
    scansE [OF scans_Minus, of l] scansE [OF scans_Operator, of l] scansE [OF scans_primitive, of l]
    scansE [OF scans_Identifier, of l] scansE [OF scans_Number, of l]
  show ?thesis
    unfolding scanToken_def bindE_Inr [of BC l "(cur l, l)", OF bc] fst_conv snd_conv
    by (intro S if_split [where P = "\<lambda>m. case m l of Inl e \<Rightarrow> e \<noteq> OutOfFuel | Inr r \<Rightarrow> scanned l (snd r)", THEN iffD2] conjI impI True TrueI)
      (simp_all add: True sub none S)
next
  case False
  then show ?thesis
    by (auto simp: scanToken_def BC_def charAt_def bindE_def ISOP_def substr_def PRIMITIVE_def
        setToken_run scanned_def lx_remaining_def peekOf_def token_ok_NONE BUFSIZ_def)
qed

lemma scanToken_fine:
  "fine (\<lambda>l. lx_remaining l \<le> k \<and> peekOf l = pk) scanToken
     (\<lambda>_ l. lx_remaining l \<le> k \<and> peekOf l = pk \<and> (lx_sym l \<noteq> NONE \<longrightarrow> lx_remaining l < k) \<and>
        token_ok (lx_sym l) (lx_text l))"
  unfolding fine_def
proof (intro allI impI)
  fix s assume "lx_remaining s \<le> k \<and> peekOf s = pk"
  with scanToken_run [of s]
  show "case scanToken s of Inl e \<Rightarrow> e \<noteq> OutOfFuel | Inr r \<Rightarrow>
      lx_remaining (snd r) \<le> k \<and> peekOf (snd r) = pk \<and>
      (lx_sym (snd r) \<noteq> NONE \<longrightarrow> lx_remaining (snd r) < k) \<and> token_ok (lx_sym (snd r)) (lx_text (snd r))"
    by (auto simp: scanned_def split: sum.splits)
qed

definition lx_measure :: "lexer \<Rightarrow> nat" where
  "lx_measure l =
     2 * lx_remaining l + (if lx_peekDone l \<and> lx_nextSym l \<noteq> NONE then 1 else 0)"

definition lexer_ok :: "lexer \<Rightarrow> bool" where
  "lexer_ok l \<longleftrightarrow> token_ok (lx_sym l) (lx_text l) \<and>
     (lx_peekDone l \<longrightarrow> token_ok (lx_nextSym l) (lx_nextText l))"

lemma scan_fine:
  "fine (\<lambda>l. lexer_ok l \<and> lx_measure l = k \<and> \<not> lx_peekDone l) (thenE skipBlank (thenE scanToken (getsE lx_sym)))
     (\<lambda>s l. lexer_ok l \<and> s = lx_sym l \<and> lx_measure l \<le> k \<and> \<not> lx_peekDone l \<and>
        (s \<noteq> NONE \<longrightarrow> lx_measure l + 2 \<le> k))"
proof (rule fine_pre)
  fix s assume s: "lexer_ok s \<and> lx_measure s = k \<and> \<not> lx_peekDone s"
  have r: "2 * lx_remaining s = k" using s by (auto simp: lx_measure_def)
  let ?r = "lx_remaining s" and ?p = "peekOf s"
  have "fine (\<lambda>l. lx_remaining l \<le> ?r \<and> peekOf l = ?p) (thenE skipBlank (thenE scanToken (getsE lx_sym)))
     (\<lambda>x l. lx_remaining l \<le> ?r \<and> peekOf l = ?p \<and> (lx_sym l \<noteq> NONE \<longrightarrow> lx_remaining l < ?r) \<and>
        token_ok (lx_sym l) (lx_text l) \<and> x = lx_sym l)"
    by (rule fine_then [OF skipBlank_fine fine_then [OF scanToken_fine fine_gets]]) simp
  then show "fine ((=) s) (thenE skipBlank (thenE scanToken (getsE lx_sym)))
     (\<lambda>x l. lexer_ok l \<and> x = lx_sym l \<and> lx_measure l \<le> k \<and> \<not> lx_peekDone l \<and>
        (x \<noteq> NONE \<longrightarrow> lx_measure l + 2 \<le> k))"
    by (rule fine_weaken) (use s r in \<open>auto simp: lexer_ok_def lx_measure_def peekOf_def\<close>)
qed

lemma GetSym_progress:
  "fine (\<lambda>l. lexer_ok l \<and> lx_measure l = k) GetSym
     (\<lambda>s l. lexer_ok l \<and> s = lx_sym l \<and> lx_measure l \<le> k \<and> \<not> lx_peekDone l \<and>
        (s \<noteq> NONE \<longrightarrow> lx_measure l < k))"
proof (rule fine_pre)
  fix s assume s: "lexer_ok s \<and> lx_measure s = k"
  show "fine ((=) s) GetSym (\<lambda>x l. lexer_ok l \<and> x = lx_sym l \<and> lx_measure l \<le> k \<and> \<not> lx_peekDone l \<and>
        (x \<noteq> NONE \<longrightarrow> lx_measure l < k))"
  proof (cases "lx_peekDone s")
    case True
    with s show ?thesis
      by (auto simp: fine_def GetSym_def lexer_ok_def lx_measure_def lx_remaining_def
          intro: token_ok_cstr)
  next
    case False
    with s have "fine ((=) s) (thenE skipBlank (thenE scanToken (getsE lx_sym))) (\<lambda>x l. lexer_ok l \<and> x = lx_sym l \<and>
       lx_measure l \<le> k \<and> \<not> lx_peekDone l \<and> (x \<noteq> NONE \<longrightarrow> lx_measure l + 2 \<le> k))"
      by (intro fine_weaken [OF scan_fine]) auto
    then show ?thesis using False by (fastforce simp: fine_def GetSym_def split: sum.splits)
  qed
qed

lemma Peek_progress:
  "fine (\<lambda>l. lexer_ok l \<and> lx_measure l = k \<and> lx_sym l = s \<and> GetText l = t) Peek
     (\<lambda>x l. lexer_ok l \<and> lx_measure l \<le> k \<and> lx_peekDone l \<and> x = lx_nextSym l \<and>
        lx_sym l = s \<and> GetText l = t)"
proof (rule fineI)
  fix l assume l: "lexer_ok l \<and> lx_measure l = k \<and> lx_sym l = s \<and> GetText l = t"
  have F: "case GetSym l of Inl e \<Rightarrow> e \<noteq> OutOfFuel | Inr r \<Rightarrow> lexer_ok (snd r) \<and> fst r = lx_sym (snd r) \<and>
      lx_measure (snd r) \<le> k \<and> \<not> lx_peekDone (snd r) \<and> (fst r \<noteq> NONE \<longrightarrow> lx_measure (snd r) < k)"
    using GetSym_progress [of k] l unfolding fine_def by blast
  then show "Peek l \<noteq> Inl OutOfFuel"
    by (cases "GetSym l") (auto simp: Peek_def)
  fix x l' assume run: "Peek l = Inr (x, l')"
  then obtain y l1 where g: "GetSym l = Inr (y, l1)"
    by (cases "GetSym l") (auto simp: Peek_def split: if_splits)
  have eq: "lx_remaining l' = lx_remaining l1" "lx_nextSym l' = lx_sym l1" "lx_peekDone l'"
    "lx_nextText l' = cstr (lx_text l1)" "lx_sym l' = lx_sym l" "lx_text l' = cstr (lx_text l)" "x = lx_nextSym l'"
    using run by (auto simp: Peek_def g lx_remaining_def split: if_splits)
  have ok: "lexer_ok l'"
    using F l by (auto simp: g lexer_ok_def eq intro: token_ok_cstr)
  have "lx_measure l' \<le> k"
    using F eq by (cases "y = NONE") (auto simp: g lx_measure_def)
  moreover have "GetText l' = GetText l" by (simp add: GetText_def eq)
  ultimately show "lexer_ok l' \<and> lx_measure l' \<le> k \<and> lx_peekDone l' \<and> x = lx_nextSym l' \<and>
      lx_sym l' = s \<and> GetText l' = t"
    using ok eq l by auto
qed

text \<open>A token that is peeked at is the token handed out next.\<close>

lemma Peek_GetSym:
  assumes "Peek l = Inr (s, l')"
  shows "\<exists>l1 l2. GetSym l = Inr (s, l1) \<and> GetSym l' = Inr (s, l2) \<and>
     GetText l2 = GetText l1 \<and> GetNextText l' = GetText l1 \<and>
     (lx_rest l2, lx_good l2, lx_line l2, lx_buf l2, lx_bufp l2) =
     (lx_rest l1, lx_good l1, lx_line l1, lx_buf l1, lx_bufp l1) \<and>
     lx_sym l' = lx_sym l \<and> GetText l' = GetText l"
proof -
  obtain y l1 where g: "GetSym l = Inr (y, l1)"
    using assms by (cases "GetSym l") (auto simp: Peek_def split: if_splits)
  have "y = lx_sym l1"
    using g by (auto simp: GetSym_def elim!: bindE_InrE thenE_InrE split: if_splits)
  with assms g show ?thesis
    by (auto simp: Peek_def GetText_def GetNextText_def GetSym_def [of] split: if_splits)
qed

text \<open>A current token of 256 characters or more overruns the copy \<^verbatim>\<open>Peek\<close> saves.\<close>

lemma Peek_overrun: "256 \<le> length (GetText l) \<Longrightarrow> Peek l = Inl BufferOverflow"
  by (simp add: Peek_def GetText_def)

end
