(* ===== verification/ExtList.thy ===== *)
theory ExtList
  imports Prelude
begin

text \<open>
  \<^verbatim>\<open>src/misc/ExtendedList.h\<close>: the list template every generation context of the compiler
  keeps its fields, methods, arguments, locals and literals in. The \<^verbatim>\<open>std::list\<close> inside is
  a HOL list; \<open>null\<close> is what \<^verbatim>\<open>return NULL\<close> yields at the element type. The locale
  \<open>indexed_pool\<close> states what the code generator relies on when it stores a literal once
  and later asks for its index.
\<close>

definition ListAdd :: "'a list \<Rightarrow> 'a \<Rightarrow> 'a list" where
  "ListAdd xs x = xs @ [x]"

definition PushBack :: "'a list \<Rightarrow> 'a \<Rightarrow> 'a list" where
  "PushBack xs x = xs @ [x]"

fun ListGet :: "'a \<Rightarrow> 'a list \<Rightarrow> int \<Rightarrow> 'a" where
  "ListGet null [] i = null"
| "ListGet null (x # xs) i = (if i = 0 then x else ListGet null xs (i - 1))"

definition ListSize :: "'a list \<Rightarrow> int" where
  "ListSize xs = int (length xs)"

definition IndexOf :: "'a list \<Rightarrow> 'a \<Rightarrow> int" where
  "IndexOf xs x = (case index_of x xs of Some i \<Rightarrow> int i | None \<Rightarrow> -1)"

definition ListAddIfAbsent :: "'a list \<Rightarrow> 'a \<Rightarrow> 'a list" where
  "ListAddIfAbsent xs x = (if IndexOf xs x = -1 then ListAdd xs x else xs)"

definition ListClear :: "'a list \<Rightarrow> 'a list" where
  "ListClear xs = []"

lemma IndexOf_absent [simp]: "IndexOf xs x = -1 \<longleftrightarrow> x \<notin> set xs"
proof (cases "index_of x xs")
  case None
  then have "x \<notin> set xs" by (simp add: index_of_None)
  with None show ?thesis by (simp add: IndexOf_def)
next
  case (Some i)
  then have "xs ! i = x" and "i < length xs" using index_of_SomeD [OF Some] by auto
  with Some show ?thesis by (auto simp: IndexOf_def)
qed

lemma IndexOf_present:
  assumes "x \<in> set xs"
  obtains i where "IndexOf xs x = int i" "i < length xs" "xs ! i = x" "x \<notin> set (take i xs)"
proof -
  obtain i where i: "index_of x xs = Some i" using index_of_Some_ex [OF assms] by blast
  from index_of_SomeD [OF i] i that show ?thesis by (auto simp: IndexOf_def)
qed

lemma IndexOf_range: "-1 \<le> IndexOf xs x \<and> IndexOf xs x < ListSize xs"
proof (cases "x \<in> set xs")
  case True
  then show ?thesis by (rule IndexOf_present) (simp add: ListSize_def)
next
  case False
  then have eq: "IndexOf xs x = -1" by simp
  show ?thesis unfolding eq by (simp add: ListSize_def)
qed

lemma IndexOf_append: "x \<in> set xs \<Longrightarrow> IndexOf (xs @ ys) x = IndexOf xs x"
  by (simp add: IndexOf_def index_of_append_in)

lemma IndexOf_PushBack_absent: "x \<notin> set xs \<Longrightarrow> IndexOf (PushBack xs x) x = ListSize xs"
  by (simp add: IndexOf_def PushBack_def ListSize_def index_of_append_notin)

lemma ListGet_nth: "0 \<le> i \<Longrightarrow> i < ListSize xs \<Longrightarrow> ListGet null xs i = xs ! nat i"
proof (induction xs arbitrary: i)
  case Nil
  then show ?case by (simp add: ListSize_def)
next
  case (Cons x xs)
  then show ?case
    by (cases "i = 0") (auto simp: ListSize_def nth_Cons' nat_diff_distrib)
qed

lemma ListGet_int: "k < length xs \<Longrightarrow> ListGet null xs (int k) = xs ! k"
  by (simp add: ListGet_nth ListSize_def)

lemma ListGet_outside: "i < 0 \<or> ListSize xs \<le> i \<Longrightarrow> ListGet null xs i = null"
  by (induction xs arbitrary: i) (auto simp: ListSize_def)

section \<open>The interface the code generator uses\<close>

locale indexed_pool =
  fixes add :: "'p \<Rightarrow> 'a \<Rightarrow> 'p"
    and get :: "'p \<Rightarrow> int \<Rightarrow> 'a"
    and idx :: "'p \<Rightarrow> 'a \<Rightarrow> int"
    and size :: "'p \<Rightarrow> int"
  assumes idx_range: "-1 \<le> idx p x \<and> idx p x < size p"
    and get_idx: "idx p x \<noteq> -1 \<Longrightarrow> get p (idx p x) = x"
    and idx_add_kept: "idx p x \<noteq> -1 \<Longrightarrow> idx (add p y) x = idx p x"
    and idx_add_new: "idx p x = -1 \<Longrightarrow> idx (add p x) x = size p"
    and get_add_old: "0 \<le> i \<Longrightarrow> i < size p \<Longrightarrow> get (add p y) i = get p i"
    and size_add: "size (add p y) = size p + 1"
    and size_nonneg: "0 \<le> size p"
begin

definition add_absent :: "'p \<Rightarrow> 'a \<Rightarrow> 'p" where
  "add_absent p x = (if idx p x = -1 then add p x else p)"

lemma add_absent_found: "idx (add_absent p x) x \<noteq> -1"
  using idx_add_new [of p x] size_nonneg [of p] by (auto simp: add_absent_def)

lemma get_add_absent: "get (add_absent p x) (idx (add_absent p x) x) = x"
  by (rule get_idx) (rule add_absent_found)

lemma add_absent_keeps:
  assumes "idx p y \<noteq> -1"
  shows "get (add_absent p x) (idx p y) = y"
  using assms idx_range [of p y] get_idx [of p y] get_add_old [of "idx p y" p x]
  by (auto simp: add_absent_def)

lemma add_absent_size: "size p \<le> size (add_absent p x) \<and> size (add_absent p x) \<le> size p + 1"
  by (simp add: add_absent_def size_add)

end

lemma ListGet_IndexOf: "x \<in> set xs \<Longrightarrow> ListGet null xs (IndexOf xs x) = x"
  by (erule IndexOf_present) (simp add: ListGet_nth ListSize_def)

interpretation pool: indexed_pool PushBack "ListGet null" IndexOf ListSize
proof
  fix p :: "'a list" and x y :: 'a and i :: int
  show "-1 \<le> IndexOf p x \<and> IndexOf p x < ListSize p" by (rule IndexOf_range)
  show "IndexOf p x \<noteq> -1 \<Longrightarrow> ListGet null p (IndexOf p x) = x" by (simp add: ListGet_IndexOf)
  show "IndexOf p x \<noteq> -1 \<Longrightarrow> IndexOf (PushBack p y) x = IndexOf p x"
    by (simp add: PushBack_def IndexOf_append)
  show "IndexOf p x = -1 \<Longrightarrow> IndexOf (PushBack p x) x = ListSize p"
    by (simp add: IndexOf_PushBack_absent)
  show "0 \<le> i \<Longrightarrow> i < ListSize p \<Longrightarrow> ListGet null (PushBack p y) i = ListGet null p i"
    by (simp add: ListGet_nth PushBack_def ListSize_def nth_append nat_less_iff)
  show "ListSize (PushBack p y) = ListSize p + 1" by (simp add: PushBack_def ListSize_def)
  show "0 \<le> ListSize p" by (simp add: ListSize_def)
qed

end
