(* ===== verification/Bytecodes.thy ===== *)
theory Bytecodes
  imports Prelude
begin

text \<open>
  \<^verbatim>\<open>src/interpreter/bytecodes.h\<close> and \<^verbatim>\<open>bytecodes.cpp\<close>: the opcodes, their byte values and
  the tables of instruction lengths and names. The \<^verbatim>\<open>#define\<close>d opcodes are a datatype,
  \<open>opcode\<close> gives the byte of each and \<open>opcode_of\<close> reads a byte back, with \<open>None\<close> for the
  bytes no opcode has.
\<close>

type_synonym u8 = "8 word"

datatype bytecode =
    BC_HALT | BC_DUP | BC_PUSH_LOCAL | BC_PUSH_ARGUMENT | BC_PUSH_FIELD | BC_PUSH_BLOCK
  | BC_PUSH_CONSTANT | BC_PUSH_GLOBAL | BC_POP | BC_POP_LOCAL | BC_POP_ARGUMENT
  | BC_POP_FIELD | BC_SEND | BC_SUPER_SEND | BC_RETURN_LOCAL | BC_RETURN_NON_LOCAL

fun opcode :: "bytecode \<Rightarrow> u8" where
  "opcode BC_HALT = 0"
| "opcode BC_DUP = 1"
| "opcode BC_PUSH_LOCAL = 2"
| "opcode BC_PUSH_ARGUMENT = 3"
| "opcode BC_PUSH_FIELD = 4"
| "opcode BC_PUSH_BLOCK = 5"
| "opcode BC_PUSH_CONSTANT = 6"
| "opcode BC_PUSH_GLOBAL = 7"
| "opcode BC_POP = 8"
| "opcode BC_POP_LOCAL = 9"
| "opcode BC_POP_ARGUMENT = 10"
| "opcode BC_POP_FIELD = 11"
| "opcode BC_SEND = 12"
| "opcode BC_SUPER_SEND = 13"
| "opcode BC_RETURN_LOCAL = 14"
| "opcode BC_RETURN_NON_LOCAL = 15"

definition all_bytecodes :: "bytecode list" where
  "all_bytecodes =
     [BC_HALT, BC_DUP, BC_PUSH_LOCAL, BC_PUSH_ARGUMENT, BC_PUSH_FIELD, BC_PUSH_BLOCK,
      BC_PUSH_CONSTANT, BC_PUSH_GLOBAL, BC_POP, BC_POP_LOCAL, BC_POP_ARGUMENT,
      BC_POP_FIELD, BC_SEND, BC_SUPER_SEND, BC_RETURN_LOCAL, BC_RETURN_NON_LOCAL]"

definition opcode_of :: "u8 \<Rightarrow> bytecode option" where
  "opcode_of b = (if unat b < length all_bytecodes then Some (all_bytecodes ! unat b) else None)"

definition bytecodeLengths :: "nat list" where
  "bytecodeLengths = [1, 1, 3, 3, 2, 2, 2, 2, 1, 3, 3, 2, 2, 2, 1, 1]"

definition bytecodeNames :: "string list" where
  "bytecodeNames =
     [''HALT            '', ''DUP             '', ''PUSH_LOCAL      '', ''PUSH_ARGUMENT   '',
      ''PUSH_FIELD      '', ''PUSH_BLOCK      '', ''PUSH_CONSTANT   '', ''PUSH_GLOBAL     '',
      ''POP             '', ''POP_LOCAL       '', ''POP_ARGUMENT    '', ''POP_FIELD       '',
      ''SEND            '', ''SUPER_SEND      '', ''RETURN_LOCAL    '', ''RETURN_NON_LOCAL'']"

text \<open>The table reads are unchecked array accesses: past the sixteenth entry they read
  outside the table.\<close>

definition GetBytecodeLength :: "u8 \<Rightarrow> ('s, nat) se" where
  "GetBytecodeLength bc =
     (if unat bc < length bytecodeLengths then returnE (bytecodeLengths ! unat bc)
      else throwE OutOfRange)"

definition GetBytecodeName :: "u8 \<Rightarrow> ('s, string) se" where
  "GetBytecodeName bc =
     (if unat bc < length bytecodeNames then returnE (bytecodeNames ! unat bc)
      else throwE OutOfRange)"

text \<open>The length of an instruction by its opcode, the meaning of the length table.\<close>

fun bc_length :: "bytecode \<Rightarrow> nat" where
  "bc_length BC_PUSH_LOCAL = 3"
| "bc_length BC_PUSH_ARGUMENT = 3"
| "bc_length BC_POP_LOCAL = 3"
| "bc_length BC_POP_ARGUMENT = 3"
| "bc_length BC_PUSH_FIELD = 2"
| "bc_length BC_PUSH_BLOCK = 2"
| "bc_length BC_PUSH_CONSTANT = 2"
| "bc_length BC_PUSH_GLOBAL = 2"
| "bc_length BC_POP_FIELD = 2"
| "bc_length BC_SEND = 2"
| "bc_length BC_SUPER_SEND = 2"
| "bc_length _ = 1"

lemma opcode_of_opcode [simp]: "opcode_of (opcode b) = Some b"
  by (cases b) (simp_all add: opcode_of_def all_bytecodes_def)

lemma opcode_inj [simp]: "opcode a = opcode b \<longleftrightarrow> a = b"
  by (metis opcode_of_opcode option.inject)

lemma opcode_of_SomeD:
  assumes "opcode_of b = Some c"
  shows "b = opcode c"
proof -
  have n: "unat b < 16" and c: "c = all_bytecodes ! unat b"
    using assms by (auto simp: opcode_of_def all_bytecodes_def split: if_splits)
  have "b = word_of_nat (unat b)" by simp
  moreover have "opcode (all_bytecodes ! k) = word_of_nat k" if "k < 16" for k
    using that by (auto simp: all_bytecodes_def numeral_eq_Suc less_Suc_eq)
  ultimately show ?thesis using n c by metis
qed

lemma opcode_of_iff: "opcode_of b = Some c \<longleftrightarrow> b = opcode c"
  by (auto dest: opcode_of_SomeD)

lemma bc_length_pos [simp]: "0 < bc_length b"
  by (cases b) auto

lemma GetBytecodeLength_opcode [simp]: "GetBytecodeLength (opcode b) = returnE (bc_length b)"
  by (cases b) (simp_all add: GetBytecodeLength_def bytecodeLengths_def)

end
