(* ===== verification/Signatures.thy ===== *)
theory Signatures
  imports Prelude
begin

text \<open>
  Selectors as character sequences: \<^verbatim>\<open>src/vmobjects/Signature.cpp\<close>, the name mangling
  \<^verbatim>\<open>VMSymbol::GetPlainString\<close> under which primitives are registered, and the signature
  \<^verbatim>\<open>VMEvaluationPrimitive::computeSignatureString\<close> gives the block evaluation primitives.
\<close>

definition binary_chars :: "char list" where
  "binary_chars = [CHR ''~'', CHR ''&'', CHR ''|'', CHR ''*'', CHR ''/'', CHR ''@'', CHR ''+'',
     CHR ''-'', CHR ''='', CHR ''>'', CHR ''<'', CHR '','', CHR ''%'', CHR 0x5C]"

definition IsBinary :: "string \<Rightarrow> bool" where
  "IsBinary sig = (case sig of [] \<Rightarrow> False | c # _ \<Rightarrow> c \<in> set binary_chars)"

text \<open>The loop that counts the colons. The source runs it one character too far, onto the
  terminating NUL, which is no colon.\<close>

fun numColons :: "string \<Rightarrow> nat" where
  "numColons [] = 0"
| "numColons (c # cs) = (if c = CHR '':'' then Suc (numColons cs) else numColons cs)"

definition GetNumberOfArguments :: "string \<Rightarrow> nat" where
  "GetNumberOfArguments sig = (if IsBinary sig then 2 else numColons sig + 1)"

fun plain_char :: "char \<Rightarrow> string" where
  "plain_char c =
     (if c = CHR ''~'' then ''tilde''
      else if c = CHR ''&'' then ''and''
      else if c = CHR ''|'' then ''bar''
      else if c = CHR ''*'' then ''star''
      else if c = CHR ''/'' then ''slash''
      else if c = CHR ''@'' then ''at''
      else if c = CHR ''+'' then ''plus''
      else if c = CHR ''-'' then ''minus''
      else if c = CHR ''='' then ''equal''
      else if c = CHR ''>'' then ''greaterthan''
      else if c = CHR ''<'' then ''lowerthan''
      else if c = CHR '','' then ''comma''
      else if c = CHR ''%'' then ''percent''
      else if c = CHR 0x5C then ''backslash''
      else if c = CHR '':'' then ''_''
      else if c \<noteq> CHR 0x00 then [c] else [])"

definition GetPlainString :: "string \<Rightarrow> string" where
  "GetPlainString s = concat (map plain_char s)"

text \<open>
  \<^verbatim>\<open>while(--argc) signatureString + WITH_S;\<close> evaluates the concatenation and drops it, so the
  loop only counts down. \<open>argc\<close> is the value when the loop is entered, positive for every
  block (its receiver counts as an argument).
\<close>

fun with_loop :: "nat \<Rightarrow> string \<Rightarrow> string" where
  "with_loop 0 signatureString = signatureString"
| "with_loop (Suc argc) signatureString =
     (if argc = 0 then signatureString else with_loop argc signatureString)"

definition computeSignatureString :: "nat \<Rightarrow> string" where
  "computeSignatureString argc =
     (if argc = 1 then ''value'' else with_loop (argc - 1) (''value'' @ '':''))"

lemma numColons_append [simp]: "numColons (s @ t) = numColons s + numColons t"
  by (induction s) auto

lemma numColons_none: "CHR '':'' \<notin> set s \<Longrightarrow> numColons s = 0"
  by (induction s) auto

lemma numColons_replicate [simp]: "numColons (replicate n (CHR '':'')) = n"
  by (induction n) auto

lemma GetNumberOfArguments_pos [simp]: "0 < GetNumberOfArguments s"
  by (simp add: GetNumberOfArguments_def)

lemma with_loop_id [simp]: "with_loop n s = s"
  by (induction n s rule: with_loop.induct) auto

lemma computeSignatureString_eq:
  "computeSignatureString argc = (if argc = 1 then ''value'' else ''value:'')"
  by (simp add: computeSignatureString_def)

text \<open>A unary selector has one argument, the receiver; every keyword adds one.\<close>

lemma unary_arguments:
  "s = c # cs \<Longrightarrow> isalpha c \<Longrightarrow> CHR '':'' \<notin> set s \<Longrightarrow> GetNumberOfArguments s = 1"
  by (auto simp: GetNumberOfArguments_def IsBinary_def binary_chars_def isalpha_def char_code_def
      numColons_none)

definition is_keyword :: "string \<Rightarrow> bool" where
  "is_keyword s = (case s of [] \<Rightarrow> False | c # cs \<Rightarrow> isalpha c \<and> numColons s = 1)"

lemma numColons_concat_keywords:
  "list_all is_keyword kws \<Longrightarrow> numColons (concat kws) = length kws"
  by (induction kws) (auto simp: is_keyword_def split: list.splits)

lemma keyword_arguments:
  assumes "list_all is_keyword kws" "kws \<noteq> []"
  shows "GetNumberOfArguments (concat kws) = length kws + 1"
proof -
  obtain c cs kws' where "kws = (c # cs) # kws'" and c: "isalpha c"
    using assms by (cases kws) (auto simp: is_keyword_def split: list.splits)
  then have "\<not> IsBinary (concat kws)"
    by (auto simp: IsBinary_def binary_chars_def isalpha_def char_code_def)
  with assms(1) show ?thesis by (simp add: GetNumberOfArguments_def numColons_concat_keywords)
qed

lemma block_signature_arguments:
  "GetNumberOfArguments (''$block method'' @ replicate n (CHR '':'')) = n + 1"
  by (simp add: GetNumberOfArguments_def IsBinary_def binary_chars_def)

end
