(* ===== verification/Objects.thy ===== *)
theory Objects
  imports Prelude ExtList Bytecodes Signatures
begin

text \<open>
  The object memory: the layouts of \<^verbatim>\<open>src/vmobjects/\<close>, the heap they live in, and the
  object operations that need no other object of the virtual machine
  (\<^verbatim>\<open>VMObject\<close>, \<^verbatim>\<open>VMInteger\<close>, \<^verbatim>\<open>VMBigInteger\<close>, \<^verbatim>\<open>VMString\<close>, \<^verbatim>\<open>VMSymbol\<close>, \<^verbatim>\<open>VMArray\<close>).

  A pointer is a number, \<open>NULL\<close> is 0, the heap a partial map. An object holds the C++
  class it was constructed with, the byte size it was allocated with, the pointer fields
  \<^verbatim>\<open>FIELDS[0..numberOfFields-1]\<close> (\<^verbatim>\<open>FIELDS[0]\<close> is \<^verbatim>\<open>clazz\<close>, the named pointer members of a
  subclass follow in the order of their declaration, since the source reads them both by
  name and by index), the indexable pointers behind them, and the members that are no
  pointers. \<^verbatim>\<open>hash\<close> is the object's address.
\<close>

type_synonym ptr = nat

definition NULL :: ptr where
  "NULL = 0"

datatype kind =
    KObject | KClass | KArray | KFrame | KMethod | KPrimitive | KEvaluationPrimitive
  | KInteger | KBigInteger | KDouble | KString | KSymbol | KBlock

text \<open>
  The routines a primitive can be bound to: the two of the virtual machine itself, and
  the registered ones, by the name of their container class and the name they are
  registered under.
\<close>

datatype routine = EmptyRoutine | EvaluationRoutine | Routine string string

datatype payload =
    NoData
  | IntData int
  | BigData int
  | DoubleData "64 word"
  | StrData string
  | CodeData "u8 list"
  | PrimData routine bool
  | EvalData routine bool ptr

record vmobject =
  o_kind :: kind
  o_size :: int
  o_fields :: "ptr list"
  o_slots :: "ptr list"
  o_data :: payload

text \<open>
  The state of the virtual machine: the heap and the next free address, the symbol
  table (\<^verbatim>\<open>std::map\<close> with NULL for absent keys), the root table \<^verbatim>\<open>SetGlobal\<close> stores in,
  the global pointers of \<^verbatim>\<open>Universe.cpp\<close>, the current frame of the interpreter, the class
  path, the readable source files and loadable primitive libraries of the file system, and
  what has been written to \<^verbatim>\<open>cout\<close> by Smalltalk code. A library is the list of the class
  names it supports, with the selectors it can create routines for.
\<close>

record vm =
  heap :: "ptr \<Rightarrow> vmobject option"
  nextPtr :: nat
  symtab :: "string \<Rightarrow> ptr"
  rootTable :: "string \<Rightarrow> ptr option"
  nilObject :: ptr
  trueObject :: ptr
  falseObject :: ptr
  objectClass :: ptr
  classClass :: ptr
  metaClassClass :: ptr
  nilClass :: ptr
  integerClass :: ptr
  bigIntegerClass :: ptr
  arrayClass :: ptr
  methodClass :: ptr
  symbolClass :: ptr
  frameClass :: ptr
  primitiveClass :: ptr
  stringClass :: ptr
  systemClass :: ptr
  blockClass :: ptr
  doubleClass :: ptr
  curFrame :: ptr
  classPath :: "string list"
  files :: "string \<Rightarrow> string option"
  libs :: "string \<Rightarrow> (string \<Rightarrow> (string list) option) option"
  out :: string

type_synonym 'a vmM = "(vm, 'a) se"

named_theorems vm_defs \<open>definitions of the heap operations\<close>

section \<open>Access to the heap\<close>

definition deref :: "ptr \<Rightarrow> vmobject vmM" where
  [vm_defs]: "deref p = (\<lambda>v. case heap v p of None \<Rightarrow> Inl NullPointer | Some ob \<Rightarrow> Inr (ob, v))"

text \<open>The object behind a pointer used at a static type: \<open>ks\<close> are the constructed classes
  for which that use is defined.\<close>

definition derefAs :: "kind list \<Rightarrow> ptr \<Rightarrow> vmobject vmM" where
  [vm_defs]: "derefAs ks p =
     bindE (deref p) (\<lambda>ob. if o_kind ob \<in> set ks then returnE ob else throwE BadCast)"

definition store :: "ptr \<Rightarrow> vmobject \<Rightarrow> unit vmM" where
  [vm_defs]: "store p ob = modifyE (\<lambda>v. v\<lparr>heap := (heap v)(p \<mapsto> ob)\<rparr>)"

definition allocate :: "vmobject \<Rightarrow> ptr vmM" where
  [vm_defs]: "allocate ob =
     (\<lambda>v. Inr (nextPtr v, v\<lparr>heap := (heap v)(nextPtr v \<mapsto> ob), nextPtr := nextPtr v + 1\<rparr>))"

text \<open>A named pointer member, the \<open>i\<close>-th entry of \<^verbatim>\<open>FIELDS\<close>.\<close>

definition getMember :: "kind list \<Rightarrow> nat \<Rightarrow> ptr \<Rightarrow> ptr vmM" where
  [vm_defs]: "getMember ks i p =
     bindE (derefAs ks p) (\<lambda>ob.
       if i < length (o_fields ob) then returnE (o_fields ob ! i) else throwE OutOfRange)"

definition setMember :: "kind list \<Rightarrow> nat \<Rightarrow> ptr \<Rightarrow> ptr \<Rightarrow> unit vmM" where
  [vm_defs]: "setMember ks i p x =
     bindE (derefAs ks p) (\<lambda>ob.
       if i < length (o_fields ob) then store p (ob\<lparr>o_fields := (o_fields ob)[i := x]\<rparr>)
       else throwE OutOfRange)"

definition anyKind :: "kind list" where
  "anyKind = [KObject, KClass, KArray, KFrame, KMethod, KPrimitive, KEvaluationPrimitive,
     KInteger, KBigInteger, KDouble, KString, KSymbol, KBlock]"

lemma anyKind_all [simp]: "k \<in> set anyKind"
  by (cases k) (simp_all add: anyKind_def)

definition invokableKinds :: "kind list" where
  "invokableKinds = [KMethod, KPrimitive, KEvaluationPrimitive]"

definition arrayKinds :: "kind list" where
  "arrayKinds = [KArray, KFrame]"

definition stringKinds :: "kind list" where
  "stringKinds = [KString, KSymbol]"

section \<open>Object sizes\<close>

text \<open>
  The sizes on the 32-bit target: the virtual table pointer, the two words of the
  collector's header, \<^verbatim>\<open>hash\<close>, \<^verbatim>\<open>objectSize\<close>, \<^verbatim>\<open>numberOfFields\<close>, \<^verbatim>\<open>gcfield\<close>, sixteen bytes of
  \<^verbatim>\<open>objectType\<close> and \<^verbatim>\<open>clazz\<close>.
\<close>

definition sizeof_VMObject :: int where
  "sizeof_VMObject = 48"

definition sizeof_pointer :: int where
  "sizeof_pointer = 4"

definition sizeof_VMString :: int where
  "sizeof_VMString = sizeof_VMObject + 4"

text \<open>\<^verbatim>\<open>VMObject::GetAdditionalSpaceConsumption\<close>, from the two integers it reads.\<close>

definition GetAdditionalSpaceConsumption :: "int \<Rightarrow> int \<Rightarrow> int" where
  "GetAdditionalSpaceConsumption objectSize numberOfFields =
     to_i32 (objectSize - (sizeof_VMObject + sizeof_pointer * (numberOfFields - 1)))"

definition additional :: "vmobject \<Rightarrow> int" where
  "additional ob = GetAdditionalSpaceConsumption (o_size ob) (int (length (o_fields ob)))"

text \<open>\<^verbatim>\<open>VMArray::GetNumberOfIndexableFields\<close>: \<^verbatim>\<open>sizeof\<close> makes the division unsigned.\<close>

definition ArrayLength :: "vmobject \<Rightarrow> int" where
  "ArrayLength ob = to_i32 (to_u32 (additional ob) div sizeof_pointer)"

text \<open>\<^verbatim>\<open>VMString::GetStringLength\<close>.\<close>

definition StringLength :: "vmobject \<Rightarrow> int" where
  "StringLength ob = additional ob - 4 - 1"

definition array_size_ok :: "vmobject \<Rightarrow> bool" where
  "array_size_ok ob \<longleftrightarrow>
     o_size ob = sizeof_VMObject + sizeof_pointer * (int (length (o_fields ob)) - 1)
       + sizeof_pointer * int (length (o_slots ob)) \<and>
     length (o_slots ob) < 536870912"

lemma ArrayLength_ok: "array_size_ok ob \<Longrightarrow> ArrayLength ob = int (length (o_slots ob))"
  by (simp add: ArrayLength_def additional_def GetAdditionalSpaceConsumption_def array_size_ok_def
      sizeof_pointer_def to_u32_def take_bit_int_eq_self)

section \<open>VMObject\<close>

definition GetClass :: "ptr \<Rightarrow> ptr vmM" where
  [vm_defs]: "GetClass p = getMember anyKind 0 p"

definition SetClass :: "ptr \<Rightarrow> ptr \<Rightarrow> unit vmM" where
  [vm_defs]: "SetClass p cl = setMember anyKind 0 p cl"

definition GetNumberOfFields :: "ptr \<Rightarrow> int vmM" where
  [vm_defs]: "GetNumberOfFields p = bindE (deref p) (\<lambda>ob. returnE (int (length (o_fields ob))))"

definition GetObjectSize :: "ptr \<Rightarrow> int vmM" where
  [vm_defs]: "GetObjectSize p = bindE (deref p) (\<lambda>ob. returnE (o_size ob))"

definition GetHash :: "ptr \<Rightarrow> int vmM" where
  [vm_defs]: "GetHash p = bindE (deref p) (\<lambda>ob. returnE (to_i32 (int p)))"

text \<open>\<^verbatim>\<open>FIELDS[index]\<close> is unchecked: behind the fields come the indexable pointers, an access
  outside both leaves the object.\<close>

definition GetField :: "ptr \<Rightarrow> int \<Rightarrow> ptr vmM" where
  [vm_defs]: "GetField p index =
     bindE (deref p) (\<lambda>ob.
       let cells = o_fields ob @ o_slots ob in
       if 0 \<le> index \<and> index < int (length cells) then returnE (cells ! nat index)
       else throwE OutOfRange)"

definition SetField :: "ptr \<Rightarrow> int \<Rightarrow> ptr \<Rightarrow> unit vmM" where
  [vm_defs]: "SetField p index value =
     bindE (deref p) (\<lambda>ob.
       let n = int (length (o_fields ob)) in
       if 0 \<le> index \<and> index < n then
         store p (ob\<lparr>o_fields := (o_fields ob)[nat index := value]\<rparr>)
       else if n \<le> index \<and> index < n + int (length (o_slots ob)) then
         store p (ob\<lparr>o_slots := (o_slots ob)[nat (index - n) := value]\<rparr>)
       else throwE OutOfRange)"

text \<open>The fields the constructor of \<^verbatim>\<open>VMObject\<close> leaves: \<^verbatim>\<open>SetNumberOfFields\<close> fills all of them
  with nil and \<^verbatim>\<open>SetClass(NULL)\<close> clears the first.\<close>

definition newFields :: "vm \<Rightarrow> nat \<Rightarrow> ptr list" where
  "newFields v numberOfFields = NULL # replicate numberOfFields (nilObject v)"

section \<open>Integers and strings\<close>

definition GetEmbeddedInteger :: "ptr \<Rightarrow> int vmM" where
  [vm_defs]: "GetEmbeddedInteger p =
     bindE (deref p) (\<lambda>ob. case o_data ob of IntData i \<Rightarrow> returnE i | _ \<Rightarrow> throwE BadCast)"

definition SetEmbeddedInteger :: "ptr \<Rightarrow> int \<Rightarrow> unit vmM" where
  [vm_defs]: "SetEmbeddedInteger p i =
     bindE (deref p) (\<lambda>ob. case o_data ob of
         IntData _ \<Rightarrow> store p (ob\<lparr>o_data := IntData i\<rparr>) | _ \<Rightarrow> throwE BadCast)"

definition GetEmbeddedBigInteger :: "ptr \<Rightarrow> int vmM" where
  [vm_defs]: "GetEmbeddedBigInteger p =
     bindE (deref p) (\<lambda>ob. case o_data ob of BigData i \<Rightarrow> returnE i | _ \<Rightarrow> throwE BadCast)"

definition GetStdString :: "ptr \<Rightarrow> string vmM" where
  [vm_defs]: "GetStdString p =
     bindE (deref p) (\<lambda>ob. case o_data ob of StrData s \<Rightarrow> returnE (cstr s) | _ \<Rightarrow> throwE BadCast)"

definition GetStringLength :: "ptr \<Rightarrow> int vmM" where
  [vm_defs]: "GetStringLength p =
     bindE (derefAs stringKinds p) (\<lambda>ob. returnE (StringLength ob))"

definition NewInteger :: "int \<Rightarrow> ptr vmM" where
  [vm_defs]: "NewInteger value =
     bindE (getsE integerClass) (\<lambda>c.
       allocate \<lparr>o_kind = KInteger, o_size = sizeof_VMObject + 4, o_fields = [c],
                 o_slots = [], o_data = IntData value\<rparr>)"

definition NewBigInteger :: "int \<Rightarrow> ptr vmM" where
  [vm_defs]: "NewBigInteger value =
     bindE (getsE bigIntegerClass) (\<lambda>c.
       allocate \<lparr>o_kind = KBigInteger, o_size = sizeof_VMObject + 8, o_fields = [c],
                 o_slots = [], o_data = BigData value\<rparr>)"

definition NewString :: "string \<Rightarrow> ptr vmM" where
  [vm_defs]: "NewString str =
     bindE (getsE stringClass) (\<lambda>c.
       allocate \<lparr>o_kind = KString,
                 o_size = sizeof_VMString + int (length (cstr str)) + 1, o_fields = [c],
                 o_slots = [], o_data = StrData (cstr str)\<rparr>)"

section \<open>The symbol table\<close>

definition symtab_lookup :: "string \<Rightarrow> ptr vmM" where
  [vm_defs]: "symtab_lookup restrict = getsE (\<lambda>v. symtab v (cstr restrict))"

definition symtab_insert :: "ptr \<Rightarrow> unit vmM" where
  [vm_defs]: "symtab_insert symb =
     bindE (GetStdString symb) (\<lambda>s. modifyE (\<lambda>v. v\<lparr>symtab := (symtab v)(s := symb)\<rparr>))"

definition NewSymbol :: "string \<Rightarrow> ptr vmM" where
  [vm_defs]: "NewSymbol str =
     bindE (getsE symbolClass) (\<lambda>c.
     bindE (allocate \<lparr>o_kind = KSymbol,
                 o_size = sizeof_VMString + int (length (cstr str)) + 1, o_fields = [c],
                 o_slots = [], o_data = StrData (cstr str)\<rparr>) (\<lambda>result.
     thenE (symtab_insert result) (returnE result)))"

definition SymbolFor :: "string \<Rightarrow> ptr vmM" where
  [vm_defs]: "SymbolFor str =
     bindE (symtab_lookup str) (\<lambda>result.
       if result \<noteq> NULL then returnE result else NewSymbol str)"

section \<open>Globals\<close>

text \<open>
  The root table is the collector's hash table keyed by the characters of the name
  (\<^verbatim>\<open>rootTableHashFn\<close>, \<^verbatim>\<open>rootTableHashEqualFn\<close> compare with \<^verbatim>\<open>strcmp\<close>). \<^verbatim>\<open>HasGlobal\<close> walks it
  and returns the pointer or NULL.
\<close>

definition SetGlobal :: "ptr \<Rightarrow> ptr \<Rightarrow> unit vmM" where
  [vm_defs]: "SetGlobal name val =
     bindE (GetStdString name) (\<lambda>n. modifyE (\<lambda>v. v\<lparr>rootTable := (rootTable v)(n \<mapsto> val)\<rparr>))"

definition HasGlobal :: "ptr \<Rightarrow> ptr vmM" where
  [vm_defs]: "HasGlobal name =
     bindE (GetStdString name) (\<lambda>n.
       getsE (\<lambda>v. case rootTable v n of Some p \<Rightarrow> p | None \<Rightarrow> NULL))"

definition GetGlobal :: "ptr \<Rightarrow> ptr vmM" where
  [vm_defs]: "GetGlobal name = HasGlobal name"

section \<open>Arrays\<close>

definition GetNumberOfIndexableFields :: "ptr \<Rightarrow> int vmM" where
  [vm_defs]: "GetNumberOfIndexableFields p = bindE (derefAs arrayKinds p) (\<lambda>ob. returnE (ArrayLength ob))"

definition boundsError :: string where
  "boundsError = ''Array index out of bounds''"

definition ArrayGet :: "ptr \<Rightarrow> int \<Rightarrow> ptr vmM" where
  [vm_defs]: "ArrayGet p idx =
     bindE (derefAs arrayKinds p) (\<lambda>ob.
       if ArrayLength ob - 1 < idx \<or> idx < 0 then throwE (ErrorExit boundsError)
       else if nat idx < length (o_slots ob) then returnE (o_slots ob ! nat idx)
       else throwE OutOfRange)"

definition ArraySet :: "ptr \<Rightarrow> int \<Rightarrow> ptr \<Rightarrow> unit vmM" where
  [vm_defs]: "ArraySet p idx x =
     bindE (derefAs arrayKinds p) (\<lambda>ob.
       if ArrayLength ob - 1 < idx \<or> idx < 0 then throwE (ErrorExit boundsError)
       else if nat idx < length (o_slots ob) then
         store p (ob\<lparr>o_slots := (o_slots ob)[nat idx := x]\<rparr>)
       else throwE OutOfRange)"

text \<open>
  A size that is negative or does not fit the address space makes \<^verbatim>\<open>operator new\<close> allocate
  less than the constructor writes, or ends the run in the allocation; the model ends such a run
  with one error for both.
\<close>

definition NewArray :: "int \<Rightarrow> ptr vmM" where
  [vm_defs]: "NewArray sz =
     (if sz < 0 \<or> 536870912 \<le> sz then throwE OutOfRange
      else bindE (getsE (\<lambda>v. (arrayClass v, nilObject v))) (\<lambda>cn.
        allocate \<lparr>o_kind = KArray, o_size = sizeof_VMObject + sz * sizeof_pointer,
                  o_fields = [fst cn], o_slots = replicate (nat sz) (snd cn),
                  o_data = NoData\<rparr>))"

definition CopyIndexableFieldsTo :: "ptr \<Rightarrow> ptr \<Rightarrow> unit vmM" where
  [vm_defs]: "CopyIndexableFieldsTo from to =
     bindE (GetNumberOfIndexableFields from) (\<lambda>n.
       forE [0..<nat n] (\<lambda>i. bindE (ArrayGet from (int i)) (\<lambda>x. ArraySet to (int i) x)))"

definition CopyAndExtendWith :: "ptr \<Rightarrow> ptr \<Rightarrow> ptr vmM" where
  [vm_defs]: "CopyAndExtendWith p item =
     bindE (GetNumberOfIndexableFields p) (\<lambda>fields.
     bindE (NewArray (fields + 1)) (\<lambda>result.
     thenE (CopyIndexableFieldsTo p result)
    (thenE (ArraySet result fields item)
       (returnE result))))"

definition NewArrayList :: "ptr list \<Rightarrow> ptr vmM" where
  [vm_defs]: "NewArrayList list =
     bindE (NewArray (ListSize list)) (\<lambda>result.
     thenE (forE [0..<nat (ListSize list)] (\<lambda>i. ArraySet result (int i) (ListGet NULL list (int i))))
       (returnE result))"

fun fillStrings :: "ptr \<Rightarrow> nat \<Rightarrow> string list \<Rightarrow> unit vmM" where
  "fillStrings result j [] = returnE ()"
| "fillStrings result j (s # ss) =
     bindE (NewString s) (\<lambda>p. thenE (ArraySet result (int j) p) (fillStrings result (Suc j) ss))"

definition NewArrayFromArgv :: "string list \<Rightarrow> ptr vmM" where
  [vm_defs]: "NewArrayFromArgv argv =
     bindE (NewArray (int (length argv))) (\<lambda>result.
     thenE (fillStrings result 0 argv) (returnE result))"

end
