(* ===== verification/Methods.thy ===== *)
theory Methods
  imports Objects
begin

text \<open>
  Invokables and blocks: \<^verbatim>\<open>VMInvokable\<close>, \<^verbatim>\<open>VMMethod\<close>, \<^verbatim>\<open>VMPrimitive\<close>,
  \<^verbatim>\<open>VMEvaluationPrimitive\<close> and \<^verbatim>\<open>VMBlock\<close> of \<^verbatim>\<open>src/vmobjects/\<close>, with
  \<^verbatim>\<open>Universe::NewMethod\<close>. A method's fields are \<^verbatim>\<open>clazz\<close>, \<^verbatim>\<open>signature\<close>, \<^verbatim>\<open>holder\<close>,
  \<^verbatim>\<open>numberOfLocals\<close>, \<^verbatim>\<open>maximumNumberOfStackElements\<close>, \<^verbatim>\<open>bcLength\<close>, \<^verbatim>\<open>numberOfArguments\<close>,
  \<^verbatim>\<open>numberOfConstants\<close>; its constants are the indexable pointers and its code is the
  byte payload.
\<close>

section \<open>VMInvokable\<close>

definition dynamic_cast_VMInvokable :: "ptr \<Rightarrow> ptr vmM" where
  [vm_defs]: "dynamic_cast_VMInvokable p =
     (if p = NULL then returnE NULL
      else bindE (deref p) (\<lambda>ob. returnE (if o_kind ob \<in> set invokableKinds then p else NULL)))"

definition IsPrimitive :: "ptr \<Rightarrow> bool vmM" where
  [vm_defs]: "IsPrimitive p =
     bindE (derefAs invokableKinds p) (\<lambda>ob. returnE (o_kind ob \<noteq> KMethod))"

definition GetSignature :: "ptr \<Rightarrow> ptr vmM" where
  [vm_defs]: "GetSignature p = getMember invokableKinds 1 p"

definition GetHolder :: "ptr \<Rightarrow> ptr vmM" where
  [vm_defs]: "GetHolder p = getMember invokableKinds 2 p"

definition SetHolder :: "ptr \<Rightarrow> ptr \<Rightarrow> unit vmM" where
  [vm_defs]: "SetHolder p hld = setMember invokableKinds 2 p hld"

section \<open>VMMethod\<close>

definition GetNumberOfLocals :: "ptr \<Rightarrow> int vmM" where
  [vm_defs]: "GetNumberOfLocals p = bindE (getMember [KMethod] 3 p) GetEmbeddedInteger"

definition SetNumberOfLocals :: "ptr \<Rightarrow> int \<Rightarrow> unit vmM" where
  [vm_defs]: "SetNumberOfLocals p nol =
     bindE (getMember [KMethod] 3 p) (\<lambda>i. SetEmbeddedInteger i nol)"

definition GetMaximumNumberOfStackElements :: "ptr \<Rightarrow> int vmM" where
  [vm_defs]: "GetMaximumNumberOfStackElements p = bindE (getMember [KMethod] 4 p) GetEmbeddedInteger"

definition SetMaximumNumberOfStackElements :: "ptr \<Rightarrow> int \<Rightarrow> unit vmM" where
  [vm_defs]: "SetMaximumNumberOfStackElements p stel =
     bindE (getMember [KMethod] 4 p) (\<lambda>i. SetEmbeddedInteger i stel)"

definition GetNumberOfBytecodes :: "ptr \<Rightarrow> int vmM" where
  [vm_defs]: "GetNumberOfBytecodes p = bindE (getMember [KMethod] 5 p) GetEmbeddedInteger"

definition MethodGetNumberOfArguments :: "ptr \<Rightarrow> int vmM" where
  [vm_defs]: "MethodGetNumberOfArguments p = bindE (getMember [KMethod] 6 p) GetEmbeddedInteger"

definition SetNumberOfArguments :: "ptr \<Rightarrow> int \<Rightarrow> unit vmM" where
  [vm_defs]: "SetNumberOfArguments p noa =
     bindE (getMember [KMethod] 6 p) (\<lambda>i. SetEmbeddedInteger i noa)"

definition NumberOfConstants :: "ptr \<Rightarrow> int vmM" where
  [vm_defs]: "NumberOfConstants p = bindE (getMember [KMethod] 7 p) GetEmbeddedInteger"

definition SetSignature :: "ptr \<Rightarrow> ptr \<Rightarrow> unit vmM" where
  [vm_defs]: "SetSignature p sig =
     thenE (setMember [KMethod] 1 p sig)
    (bindE (GetStdString sig) (\<lambda>s. SetNumberOfArguments p (int (GetNumberOfArguments s))))"

definition constantsError :: string where
  "constantsError = ''Array index out of bounds exception''"

definition GetIndexableField :: "ptr \<Rightarrow> int \<Rightarrow> ptr vmM" where
  [vm_defs]: "GetIndexableField p idx =
     bindE (NumberOfConstants p) (\<lambda>n.
       if n - 1 < idx \<or> idx < 0 then throwE (ErrorExit constantsError)
       else bindE (derefAs [KMethod] p) (\<lambda>ob.
         if nat idx < length (o_slots ob) then returnE (o_slots ob ! nat idx)
         else throwE OutOfRange))"

definition SetIndexableField :: "ptr \<Rightarrow> int \<Rightarrow> ptr \<Rightarrow> unit vmM" where
  [vm_defs]: "SetIndexableField p idx item =
     bindE (NumberOfConstants p) (\<lambda>n.
       if n - 1 < idx \<or> idx < 0 then throwE (ErrorExit constantsError)
       else bindE (derefAs [KMethod] p) (\<lambda>ob.
         if nat idx < length (o_slots ob) then
           store p (ob\<lparr>o_slots := (o_slots ob)[nat idx := item]\<rparr>)
         else throwE OutOfRange))"

definition GetBytecode :: "ptr \<Rightarrow> int \<Rightarrow> u8 vmM" where
  [vm_defs]: "GetBytecode p indx =
     bindE (derefAs [KMethod] p) (\<lambda>ob. case o_data ob of
         CodeData bcs \<Rightarrow> if 0 \<le> indx \<and> indx < int (length bcs) then returnE (bcs ! nat indx)
                         else throwE OutOfRange
       | _ \<Rightarrow> throwE BadCast)"

definition SetBytecode :: "ptr \<Rightarrow> int \<Rightarrow> u8 \<Rightarrow> unit vmM" where
  [vm_defs]: "SetBytecode p indx val =
     bindE (derefAs [KMethod] p) (\<lambda>ob. case o_data ob of
         CodeData bcs \<Rightarrow> if 0 \<le> indx \<and> indx < int (length bcs)
                         then store p (ob\<lparr>o_data := CodeData (bcs[nat indx := val])\<rparr>)
                         else throwE OutOfRange
       | _ \<Rightarrow> throwE BadCast)"

text \<open>The constant of the instruction at \<open>indx\<close>: its operand byte indexes the constants; out
  of their range the source prints a message and returns NULL.\<close>

definition GetConstant :: "ptr \<Rightarrow> int \<Rightarrow> ptr vmM" where
  [vm_defs]: "GetConstant p indx =
     bindE (GetBytecode p (indx + 1)) (\<lambda>bc.
     bindE (NumberOfConstants p) (\<lambda>n.
       if n \<le> int (unat bc) then returnE NULL else GetIndexableField p (int (unat bc))))"

definition SetHolderAll :: "ptr \<Rightarrow> ptr \<Rightarrow> unit vmM" where
  [vm_defs]: "SetHolderAll p hld =
     bindE (NumberOfConstants p) (\<lambda>n.
       forE [0..<nat n] (\<lambda>i.
         bindE (GetIndexableField p (int i)) (\<lambda>ob.
         bindE (dynamic_cast_VMInvokable ob) (\<lambda>vmi.
           whenE (vmi \<noteq> NULL) (SetHolder vmi hld)))))"

text \<open>
  \<^verbatim>\<open>VMMethod::VMMethod\<close>: the object with its pointer fields at nil, then the five
  integers, in the order the constructor makes them, then the constants at nil. The code
  bytes are what the allocator left, which the model fixes to zero.
\<close>

definition VMMethod_new :: "nat \<Rightarrow> nat \<Rightarrow> ptr vmM" where
  [vm_defs]: "VMMethod_new bcCount numberOfConstants =
     bindE (getsE (\<lambda>v. (newFields v 7, nilObject v))) (\<lambda>fn.
     bindE (allocate \<lparr>o_kind = KMethod,
         o_size = sizeof_VMObject + 28 + int bcCount + int numberOfConstants * sizeof_pointer,
         o_fields = fst fn, o_slots = replicate numberOfConstants (snd fn),
         o_data = CodeData (replicate bcCount 0)\<rparr>) (\<lambda>p.
     bindE (NewInteger (int bcCount)) (\<lambda>i. thenE (setMember [KMethod] 5 p i)
    (bindE (NewInteger 0) (\<lambda>i. thenE (setMember [KMethod] 3 p i)
    (bindE (NewInteger 0) (\<lambda>i. thenE (setMember [KMethod] 4 p i)
    (bindE (NewInteger 0) (\<lambda>i. thenE (setMember [KMethod] 6 p i)
    (bindE (NewInteger (int numberOfConstants)) (\<lambda>i. thenE (setMember [KMethod] 7 p i)
       (returnE p))))))))))))"

definition NewMethod :: "ptr \<Rightarrow> nat \<Rightarrow> nat \<Rightarrow> ptr vmM" where
  [vm_defs]: "NewMethod signature numberOfBytecodes numberOfConstants =
     bindE (VMMethod_new numberOfBytecodes numberOfConstants) (\<lambda>result.
     bindE (getsE methodClass) (\<lambda>c.
     thenE (SetClass result c)
    (thenE (SetSignature result signature)
    (thenE (SetGlobal signature result)
       (returnE result)))))"

section \<open>Primitives\<close>

definition VMPrimitive_new :: "ptr \<Rightarrow> ptr vmM" where
  [vm_defs]: "VMPrimitive_new signature =
     bindE (getsE (\<lambda>v. (primitiveClass v, nilObject v))) (\<lambda>cn.
       allocate \<lparr>o_kind = KPrimitive, o_size = sizeof_VMObject + 16,
                 o_fields = [fst cn, signature, snd cn], o_slots = [],
                 o_data = PrimData EmptyRoutine False\<rparr>)"

definition SetRoutine :: "ptr \<Rightarrow> routine \<Rightarrow> unit vmM" where
  [vm_defs]: "SetRoutine p rtn =
     bindE (deref p) (\<lambda>ob. case o_data ob of
         PrimData _ e \<Rightarrow> store p (ob\<lparr>o_data := PrimData rtn e\<rparr>)
       | EvalData _ e n \<Rightarrow> store p (ob\<lparr>o_data := EvalData rtn e n\<rparr>)
       | _ \<Rightarrow> throwE BadCast)"

definition SetEmpty :: "ptr \<Rightarrow> bool \<Rightarrow> unit vmM" where
  [vm_defs]: "SetEmpty p value =
     bindE (deref p) (\<lambda>ob. case o_data ob of
         PrimData r _ \<Rightarrow> store p (ob\<lparr>o_data := PrimData r value\<rparr>)
       | EvalData r _ n \<Rightarrow> store p (ob\<lparr>o_data := EvalData r value n\<rparr>)
       | _ \<Rightarrow> throwE BadCast)"

definition IsEmpty :: "ptr \<Rightarrow> bool vmM" where
  [vm_defs]: "IsEmpty p =
     bindE (deref p) (\<lambda>ob. case o_data ob of
         PrimData _ e \<Rightarrow> returnE e | EvalData _ e _ \<Rightarrow> returnE e | _ \<Rightarrow> throwE BadCast)"

definition GetRoutine :: "ptr \<Rightarrow> routine vmM" where
  [vm_defs]: "GetRoutine p =
     bindE (deref p) (\<lambda>ob. case o_data ob of
         PrimData r _ \<Rightarrow> returnE r | EvalData r _ _ \<Rightarrow> returnE r | _ \<Rightarrow> throwE BadCast)"

definition GetEmptyPrimitive :: "ptr \<Rightarrow> ptr vmM" where
  [vm_defs]: "GetEmptyPrimitive sig =
     bindE (VMPrimitive_new sig) (\<lambda>prim.
     thenE (SetEmpty prim True)
    (thenE (SetRoutine prim EmptyRoutine)
       (returnE prim)))"

text \<open>The evaluation primitive of a block with \<open>argc\<close> arguments, the block included. Its
  \<^verbatim>\<open>numberOfArguments\<close> lies behind the members the field count covers.\<close>

definition VMEvaluationPrimitive_new :: "nat \<Rightarrow> ptr vmM" where
  [vm_defs]: "VMEvaluationPrimitive_new argc =
     bindE (SymbolFor (computeSignatureString argc)) (\<lambda>signature.
     bindE (getsE (\<lambda>v. (primitiveClass v, nilObject v))) (\<lambda>cn.
     bindE (allocate \<lparr>o_kind = KEvaluationPrimitive, o_size = sizeof_VMObject + 20,
                 o_fields = [fst cn, signature, snd cn], o_slots = [],
                 o_data = EvalData EvaluationRoutine False NULL\<rparr>) (\<lambda>p.
     bindE (NewInteger (int argc)) (\<lambda>n.
     thenE (bindE (deref p) (\<lambda>ob. store p (ob\<lparr>o_data := EvalData EvaluationRoutine False n\<rparr>)))
       (returnE p)))))"

definition EvaluationArguments :: "ptr \<Rightarrow> int vmM" where
  [vm_defs]: "EvaluationArguments p =
     bindE (deref p) (\<lambda>ob. case o_data ob of
         EvalData _ _ n \<Rightarrow> GetEmbeddedInteger n | _ \<Rightarrow> throwE BadCast)"

section \<open>Blocks\<close>

definition VMBlock_new :: "ptr vmM" where
  [vm_defs]: "VMBlock_new =
     bindE (getsE (\<lambda>v. newFields v 2)) (\<lambda>fs.
       allocate \<lparr>o_kind = KBlock, o_size = sizeof_VMObject + 8, o_fields = fs, o_slots = [],
                 o_data = NoData\<rparr>)"

definition BlockSetMethod :: "ptr \<Rightarrow> ptr \<Rightarrow> unit vmM" where
  [vm_defs]: "BlockSetMethod p m = setMember [KBlock] 1 p m"

definition BlockGetMethod :: "ptr \<Rightarrow> ptr vmM" where
  [vm_defs]: "BlockGetMethod p = getMember [KBlock] 1 p"

definition BlockSetContext :: "ptr \<Rightarrow> ptr \<Rightarrow> unit vmM" where
  [vm_defs]: "BlockSetContext p c = setMember [KBlock] 2 p c"

definition BlockGetContext :: "ptr \<Rightarrow> ptr vmM" where
  [vm_defs]: "BlockGetContext p = getMember [KBlock] 2 p"

end
