(* ===== verification/ObjectLaws.thy ===== *)
theory ObjectLaws
  imports Methods
begin

text \<open>
  Laws of the object memory: the invariant of a virtual machine state, the order in which
  states grow by allocation, interned symbols, and what assembling operations leave behind.
  The locale \<open>symbol_table\<close> is the interface of \<^verbatim>\<open>Universe::SymbolFor\<close> that the compiler and
  the method lookup rely on: pointer equality of symbols is equality of their characters.
\<close>

section \<open>States and their growth\<close>

definition strOf :: "vm \<Rightarrow> ptr \<Rightarrow> string option" where
  "strOf v p = (case heap v p of
       Some ob \<Rightarrow> (case o_data ob of StrData s \<Rightarrow> Some (cstr s) | _ \<Rightarrow> None) | None \<Rightarrow> None)"

definition symOf :: "vm \<Rightarrow> ptr \<Rightarrow> string option" where
  "symOf v p = (case heap v p of
       Some ob \<Rightarrow> (case o_data ob of
          StrData s \<Rightarrow> if o_kind ob = KSymbol then Some (cstr s) else None | _ \<Rightarrow> None) | None \<Rightarrow> None)"

definition vm_ok :: "vm \<Rightarrow> bool" where
  "vm_ok v \<longleftrightarrow> (\<forall>p. nextPtr v \<le> p \<longrightarrow> heap v p = None) \<and> heap v NULL = None \<and> NULL < nextPtr v \<and>
     (\<forall>s. symtab v s \<noteq> NULL \<longrightarrow> symOf v (symtab v s) = Some s)"

definition vm_rest :: "vm \<Rightarrow> vm" where
  "vm_rest v = v\<lparr>heap := Map.empty, nextPtr := 0, symtab := (\<lambda>_. NULL), rootTable := Map.empty\<rparr>"

definition vm_le :: "vm \<Rightarrow> vm \<Rightarrow> bool" where
  "vm_le v v' \<longleftrightarrow> heap v \<subseteq>\<^sub>m heap v' \<and> nextPtr v \<le> nextPtr v' \<and> vm_rest v' = vm_rest v \<and>
     (\<forall>s. symtab v s \<noteq> NULL \<longrightarrow> symtab v' s = symtab v s)"

lemma vm_le_refl [simp]: "vm_le v v"
  by (simp add: vm_le_def)

lemma vm_le_trans: "vm_le u v \<Longrightarrow> vm_le v w \<Longrightarrow> vm_le u w"
  unfolding vm_le_def by (metis map_le_trans order_trans)

lemma vm_le_heap: "vm_le v v' \<Longrightarrow> heap v p = Some ob \<Longrightarrow> heap v' p = Some ob"
  by (auto simp: vm_le_def map_le_def dom_def)

lemma vm_le_strOf: "vm_le v v' \<Longrightarrow> strOf v p = Some s \<Longrightarrow> strOf v' p = Some s"
  by (auto simp: strOf_def dest: vm_le_heap split: option.splits)

lemma vm_le_symOf: "vm_le v v' \<Longrightarrow> symOf v p = Some s \<Longrightarrow> symOf v' p = Some s"
  by (auto simp: symOf_def dest: vm_le_heap split: option.splits)

lemma symOf_strOf: "symOf v p = Some s \<Longrightarrow> strOf v p = Some s"
  by (auto simp: symOf_def strOf_def split: option.splits payload.splits if_splits)

lemma vm_rest_fields:
  assumes "vm_rest v' = vm_rest v"
  shows "nilObject v' = nilObject v" "integerClass v' = integerClass v" "methodClass v' = methodClass v"
    "symbolClass v' = symbolClass v" "stringClass v' = stringClass v" "primitiveClass v' = primitiveClass v"
    "arrayClass v' = arrayClass v" "curFrame v' = curFrame v"
  using arg_cong [OF assms, of nilObject] arg_cong [OF assms, of integerClass]
    arg_cong [OF assms, of methodClass] arg_cong [OF assms, of symbolClass]
    arg_cong [OF assms, of stringClass] arg_cong [OF assms, of primitiveClass]
    arg_cong [OF assms, of arrayClass] arg_cong [OF assms, of curFrame]
  by (simp_all add: vm_rest_def)

lemma vm_ok_fresh: "vm_ok v \<Longrightarrow> nextPtr v \<le> p \<Longrightarrow> heap v p = None"
  by (simp add: vm_ok_def)

lemma vm_ok_bound: "vm_ok v \<Longrightarrow> heap v p = Some ob \<Longrightarrow> p < nextPtr v \<and> p \<noteq> NULL"
  unfolding vm_ok_def by (metis leI option.distinct(1))

lemma strOf_bound: "vm_ok v \<Longrightarrow> strOf v p = Some s \<Longrightarrow> p < nextPtr v \<and> p \<noteq> NULL"
  by (auto simp: strOf_def split: option.splits dest: vm_ok_bound)

text \<open>New objects at the end of the heap, with other tables changed at will.\<close>

lemma vm_le_alloc:
  assumes "vm_ok v" and "\<And>p. p < nextPtr v \<Longrightarrow> h p = heap v p" and "nextPtr v \<le> n"
    and "v' = v\<lparr>heap := h, nextPtr := n, rootTable := r\<rparr>"
    and "\<And>p. n \<le> p \<Longrightarrow> h p = None"
  shows "vm_le v v'" and "vm_ok v'"
proof -
  have "heap v \<subseteq>\<^sub>m h"
    using assms(1,2) by (auto simp: map_le_def dest: vm_ok_bound)
  then show le: "vm_le v v'"
    using assms by (simp add: vm_le_def vm_rest_def)
  show "vm_ok v'"
    using assms vm_le_symOf [OF le] by (auto simp: vm_ok_def)
qed

lemma vm_le_alloc1:
  assumes "vm_ok v" and "v' = v\<lparr>heap := (heap v)(nextPtr v \<mapsto> ob), nextPtr := nextPtr v + 1\<rparr>"
  shows "vm_le v v' \<and> vm_ok v'"
proof -
  have "v' = v\<lparr>heap := (heap v)(nextPtr v \<mapsto> ob), nextPtr := nextPtr v + 1, rootTable := rootTable v\<rparr>"
    using assms(2) by simp
  from vm_le_alloc [OF assms(1) _ _ this] assms(1) show ?thesis by (simp add: vm_ok_fresh)
qed

lemma GetStdString_run: "strOf v p = Some s \<Longrightarrow> GetStdString p v = Inr (s, v)"
  by (auto simp: strOf_def GetStdString_def deref_def split: option.splits payload.splits)

lemma GetStdString_None: "strOf v p = None \<Longrightarrow> \<exists>e. GetStdString p v = Inl e \<and> e \<noteq> OutOfFuel"
  by (auto simp: strOf_def GetStdString_def deref_def bindE_def split: option.splits payload.splits)

section \<open>Integers and strings\<close>

definition intOf :: "vm \<Rightarrow> ptr \<Rightarrow> int option" where
  "intOf v p = (case heap v p of
       Some ob \<Rightarrow> (case o_data ob of IntData i \<Rightarrow> Some i | _ \<Rightarrow> None) | None \<Rightarrow> None)"

lemma GetEmbeddedInteger_run: "intOf v p = Some i \<Longrightarrow> GetEmbeddedInteger p v = Inr (i, v)"
  by (auto simp: intOf_def GetEmbeddedInteger_def deref_def split: option.splits payload.splits)

lemma vm_le_intOf: "vm_le v v' \<Longrightarrow> intOf v p = Some s \<Longrightarrow> intOf v' p = Some s"
  by (auto simp: intOf_def dest: vm_le_heap split: option.splits)

lemma NewInteger_run:
  assumes "vm_ok v"
  obtains v' where "NewInteger i v = Inr (nextPtr v, v')" "vm_le v v'" "vm_ok v'"
    "intOf v' (nextPtr v) = Some i"
proof -
  let ?v' = "v\<lparr>heap := (heap v)(nextPtr v \<mapsto> \<lparr>o_kind = KInteger, o_size = sizeof_VMObject + 4,
     o_fields = [integerClass v], o_slots = [], o_data = IntData i\<rparr>), nextPtr := nextPtr v + 1\<rparr>"
  have "vm_le v ?v' \<and> vm_ok ?v'" by (rule vm_le_alloc1 [OF assms refl])
  moreover have "NewInteger i v = Inr (nextPtr v, ?v')"
    by (simp add: NewInteger_def allocate_def)
  ultimately show ?thesis by (intro that) (auto simp: intOf_def)
qed

lemma NewString_run:
  assumes "vm_ok v"
  obtains v' where "NewString s v = Inr (nextPtr v, v')" "vm_le v v'" "vm_ok v'"
    "strOf v' (nextPtr v) = Some (cstr s)"
proof -
  let ?v' = "v\<lparr>heap := (heap v)(nextPtr v \<mapsto> \<lparr>o_kind = KString,
     o_size = sizeof_VMString + int (length (cstr s)) + 1,
     o_fields = [stringClass v], o_slots = [], o_data = StrData (cstr s)\<rparr>), nextPtr := nextPtr v + 1\<rparr>"
  have "vm_le v ?v' \<and> vm_ok ?v'" by (rule vm_le_alloc1 [OF assms refl])
  moreover have "NewString s v = Inr (nextPtr v, ?v')"
    by (simp add: NewString_def allocate_def)
  ultimately show ?thesis by (intro that) (auto simp: strOf_def)
qed

section \<open>Interned symbols\<close>

locale symbol_table =
  fixes intern :: "string \<Rightarrow> ('s, 'p) se"
    and chars :: "'s \<Rightarrow> 'p \<Rightarrow> string option"
    and inv :: "'s \<Rightarrow> bool"
    and norm :: "string \<Rightarrow> string"
    and grows :: "'s \<Rightarrow> 's \<Rightarrow> bool"
  assumes intern_total: "inv v \<Longrightarrow> \<exists>p v'. intern s v = Inr (p, v')"
    and intern_chars: "inv v \<Longrightarrow> intern s v = Inr (p, v') \<Longrightarrow> chars v' p = Some (norm s)"
    and intern_inv: "inv v \<Longrightarrow> intern s v = Inr (p, v') \<Longrightarrow> inv v' \<and> grows v v'"
    and intern_again: "inv v \<Longrightarrow> intern s v = Inr (p, v') \<Longrightarrow> grows v' w \<Longrightarrow> inv w \<Longrightarrow>
        norm t = norm s \<Longrightarrow> intern t w = Inr (p, w)"
    and grows_chars: "grows v v' \<Longrightarrow> chars v p = Some s \<Longrightarrow> chars v' p = Some s"
begin

lemma intern_eq_iff:
  assumes "inv v" "intern s v = Inr (p, v1)" "grows v1 v2" "inv v2" "intern t v2 = Inr (q, v3)"
  shows "p = q \<longleftrightarrow> norm s = norm t"
proof
  assume "p = q"
  have "chars v3 p = Some (norm s)"
    using assms intern_chars grows_chars intern_inv by blast
  moreover have "chars v3 q = Some (norm t)" using assms intern_chars by blast
  ultimately show "norm s = norm t" using \<open>p = q\<close> by simp
next
  assume "norm s = norm t"
  then show "p = q" using assms intern_again [of v s p v1 v2 t] by simp
qed

lemma intern_stable:
  assumes "inv v" "intern s v = Inr (p, v1)" "grows v1 v2" "inv v2"
  shows "intern s v2 = Inr (p, v2)"
  using assms intern_again by blast

end

lemma SymbolFor_run:
  assumes "vm_ok v"
  shows "\<exists>p v'. SymbolFor s v = Inr (p, v') \<and> vm_le v v' \<and> vm_ok v' \<and>
     symOf v' p = Some (cstr s) \<and> symtab v' (cstr s) = p \<and> p \<noteq> NULL"
proof (cases "symtab v (cstr s) = NULL")
  case False
  with assms show ?thesis
    by (auto simp: SymbolFor_def symtab_lookup_def vm_ok_def)
next
  case True
  let ?ob = "\<lparr>o_kind = KSymbol, o_size = sizeof_VMString + int (length (cstr s)) + 1,
     o_fields = [symbolClass v], o_slots = [], o_data = StrData (cstr s)\<rparr>"
  let ?v' = "v\<lparr>heap := (heap v)(nextPtr v \<mapsto> ?ob), nextPtr := nextPtr v + 1,
     symtab := (symtab v)(cstr s := nextPtr v)\<rparr>"
  have run: "SymbolFor s v = Inr (nextPtr v, ?v')"
    using True
    by (simp add: SymbolFor_def symtab_lookup_def NewSymbol_def allocate_def symtab_insert_def
        GetStdString_def deref_def)
  have le: "vm_le v ?v'"
    using True assms by (auto simp: vm_le_def vm_rest_def map_le_def vm_ok_fresh)
  have "symOf ?v' (nextPtr v) = Some (cstr s)" by (simp add: symOf_def)
  moreover from this have "vm_ok ?v'"
    using assms vm_le_symOf [OF le] by (auto simp: vm_ok_def)
  moreover have "nextPtr v \<noteq> NULL" using assms by (simp add: vm_ok_def)
  ultimately show ?thesis using run le by auto
qed

interpretation symbols: symbol_table SymbolFor symOf vm_ok cstr vm_le
proof
  fix v v' w :: vm and s t :: string and p :: ptr
  assume ok: "vm_ok v"
  show "\<exists>p v'. SymbolFor s v = Inr (p, v')" using SymbolFor_run [OF ok] by blast
  assume run: "SymbolFor s v = Inr (p, v')"
  then have facts: "vm_le v v'" "vm_ok v'" "symOf v' p = Some (cstr s)" "symtab v' (cstr s) = p" "p \<noteq> NULL"
    using SymbolFor_run [OF ok, of s] by auto
  show "symOf v' p = Some (cstr s)" by (rule facts)
  show "vm_ok v' \<and> vm_le v v'" using facts by blast
  assume "vm_le v' w" "cstr t = cstr s"
  then have "symtab w (cstr t) = p" "p \<noteq> NULL" using facts by (auto simp: vm_le_def)
  then show "SymbolFor t w = Inr (p, w)" by (simp add: SymbolFor_def symtab_lookup_def)
qed (rule vm_le_symOf)

end
