(* ===== verification/GenContexts.thy ===== *)
theory GenContexts
  imports ObjectLaws
begin

text \<open>
  The generation contexts of the compiler: \<^verbatim>\<open>src/compiler/MethodGenerationContext.cpp\<close>,
  \<^verbatim>\<open>ClassGenerationContext.cpp\<close> (its collecting half) and \<^verbatim>\<open>BytecodeGenerator.cpp\<close>. A
  method context is a record. \<^verbatim>\<open>outerGenc\<close> chains the contexts of nested blocks: the model
  passes the chain as the list of contexts from the innermost to the method's own, so
  the operations that need the chain take a list. \<^verbatim>\<open>holderGenc\<close> is the one class context
  of the parse.
\<close>

record mgenc =
  m_blockMethod :: bool
  m_signature :: ptr
  m_arguments :: "string list"
  m_primitive :: bool
  m_locals :: "string list"
  m_literals :: "ptr list"
  m_finished :: bool
  m_bytecode :: "u8 list"

record cgenc =
  c_name :: ptr
  c_superName :: ptr
  c_classSide :: bool
  c_instanceFields :: "ptr list"
  c_instanceMethods :: "ptr list"
  c_classFields :: "ptr list"
  c_classMethods :: "ptr list"

section \<open>MethodGenerationContext\<close>

definition MethodGenerationContext_new :: mgenc where
  "MethodGenerationContext_new =
     \<lparr>m_blockMethod = False, m_signature = NULL, m_arguments = [], m_primitive = False,
      m_locals = [], m_literals = [], m_finished = False, m_bytecode = []\<rparr>"

text \<open>The conversion to \<^verbatim>\<open>int8_t\<close>.\<close>

definition to_i8 :: "int \<Rightarrow> int" where
  "to_i8 k = signed_take_bit 7 k"

definition FindLiteralIndex :: "mgenc \<Rightarrow> ptr \<Rightarrow> int" where
  "FindLiteralIndex m lit = to_i8 (IndexOf (m_literals m) lit)"

text \<open>\<^verbatim>\<open>FindVar\<close> along the chain of contexts: the index, the number of contexts walked out and
  whether the variable is an argument; \<open>None\<close> is the result false.\<close>

fun FindVar :: "mgenc list \<Rightarrow> string \<Rightarrow> nat \<Rightarrow> (int \<times> nat \<times> bool) option" where
  "FindVar [] var context = None"
| "FindVar (m # outer) var context =
     (if IndexOf (m_locals m) var = -1 then
        if IndexOf (m_arguments m) var = -1 then
          if outer = [] then None else FindVar outer var (context + 1)
        else Some (IndexOf (m_arguments m) var, context, True)
      else Some (IndexOf (m_locals m) var, context, False))"

definition MGGetNumberOfArguments :: "mgenc \<Rightarrow> int" where
  "MGGetNumberOfArguments m = ListSize (m_arguments m)"

definition SetIsBlockMethod :: "bool \<Rightarrow> mgenc \<Rightarrow> mgenc" where
  "SetIsBlockMethod b m = m\<lparr>m_blockMethod := b\<rparr>"

definition MGSetSignature :: "ptr \<Rightarrow> mgenc \<Rightarrow> mgenc" where
  "MGSetSignature sig m = m\<lparr>m_signature := sig\<rparr>"

definition SetPrimitive :: "bool \<Rightarrow> mgenc \<Rightarrow> mgenc" where
  "SetPrimitive b m = m\<lparr>m_primitive := b\<rparr>"

definition AddArgument :: "string \<Rightarrow> mgenc \<Rightarrow> mgenc" where
  "AddArgument arg m = m\<lparr>m_arguments := PushBack (m_arguments m) arg\<rparr>"

definition AddLocal :: "string \<Rightarrow> mgenc \<Rightarrow> mgenc" where
  "AddLocal loc m = m\<lparr>m_locals := PushBack (m_locals m) loc\<rparr>"

definition AddLiteral :: "ptr \<Rightarrow> mgenc \<Rightarrow> mgenc" where
  "AddLiteral lit m = m\<lparr>m_literals := PushBack (m_literals m) lit\<rparr>"

text \<open>The test of \<^verbatim>\<open>AddArgumentIfAbsent\<close> looks at the locals, as the source does.\<close>

definition AddArgumentIfAbsent :: "string \<Rightarrow> mgenc \<Rightarrow> bool \<times> mgenc" where
  "AddArgumentIfAbsent arg m =
     (if IndexOf (m_locals m) arg \<noteq> -1 then (False, m) else (True, AddArgument arg m))"

definition AddLocalIfAbsent :: "string \<Rightarrow> mgenc \<Rightarrow> bool \<times> mgenc" where
  "AddLocalIfAbsent loc m =
     (if IndexOf (m_locals m) loc \<noteq> -1 then (False, m) else (True, AddLocal loc m))"

definition AddLiteralIfAbsent :: "ptr \<Rightarrow> mgenc \<Rightarrow> bool \<times> mgenc" where
  "AddLiteralIfAbsent lit m =
     (if IndexOf (m_literals m) lit \<noteq> -1 then (False, m) else (True, AddLiteral lit m))"

definition SetFinished :: "bool \<Rightarrow> mgenc \<Rightarrow> mgenc" where
  "SetFinished b m = m\<lparr>m_finished := b\<rparr>"

text \<open>\<^verbatim>\<open>pop_back\<close>: the parser calls it behind an instruction it has emitted, so the code is not empty.\<close>

definition RemoveLastBytecode :: "mgenc \<Rightarrow> mgenc" where
  "RemoveLastBytecode m = m\<lparr>m_bytecode := butlast (m_bytecode m)\<rparr>"

definition AddBytecode :: "u8 \<Rightarrow> mgenc \<Rightarrow> mgenc" where
  "AddBytecode bc m = m\<lparr>m_bytecode := m_bytecode m @ [bc]\<rparr>"

subsection \<open>The stack a method needs\<close>

text \<open>One round of the loop of \<^verbatim>\<open>ComputeStackDepth\<close>: the new position and depth. The depth is a
  \<^verbatim>\<open>uint8_t\<close>. An operand behind the end of the code is an access outside the vector.\<close>

definition depthStep :: "u8 list \<Rightarrow> ptr list \<Rightarrow> nat \<Rightarrow> u8 \<Rightarrow> (nat \<times> u8) vmM" where
  "depthStep code lits i depth =
     (case opcode_of (code ! i) of
        Some BC_HALT \<Rightarrow> returnE (i + 1, depth)
      | Some BC_DUP \<Rightarrow> returnE (i + 1, depth + 1)
      | Some BC_PUSH_LOCAL \<Rightarrow> returnE (i + 3, depth + 1)
      | Some BC_PUSH_ARGUMENT \<Rightarrow> returnE (i + 3, depth + 1)
      | Some BC_PUSH_FIELD \<Rightarrow> returnE (i + 2, depth + 1)
      | Some BC_PUSH_BLOCK \<Rightarrow> returnE (i + 2, depth + 1)
      | Some BC_PUSH_CONSTANT \<Rightarrow> returnE (i + 2, depth + 1)
      | Some BC_PUSH_GLOBAL \<Rightarrow> returnE (i + 2, depth + 1)
      | Some BC_POP \<Rightarrow> returnE (i + 1, depth - 1)
      | Some BC_POP_LOCAL \<Rightarrow> returnE (i + 3, depth - 1)
      | Some BC_POP_ARGUMENT \<Rightarrow> returnE (i + 3, depth - 1)
      | Some BC_POP_FIELD \<Rightarrow> returnE (i + 2, depth - 1)
      | Some BC_SEND \<Rightarrow>
          if i + 1 < length code then
            bindE (GetStdString (ListGet NULL lits (uint (code ! (i + 1))))) (\<lambda>sig.
              returnE (i + 2, depth - of_nat (GetNumberOfArguments sig) + 1))
          else throwE OutOfRange
      | Some BC_SUPER_SEND \<Rightarrow>
          if i + 1 < length code then
            bindE (GetStdString (ListGet NULL lits (uint (code ! (i + 1))))) (\<lambda>sig.
              returnE (i + 2, depth - of_nat (GetNumberOfArguments sig) + 1))
          else throwE OutOfRange
      | Some BC_RETURN_LOCAL \<Rightarrow> returnE (i + 1, depth)
      | Some BC_RETURN_NON_LOCAL \<Rightarrow> returnE (i + 1, depth)
      | None \<Rightarrow> throwE (Quit 1))"

primrec depthLoop :: "nat \<Rightarrow> u8 list \<Rightarrow> ptr list \<Rightarrow> nat \<Rightarrow> u8 \<Rightarrow> u8 \<Rightarrow> u8 vmM" where
  "depthLoop 0 code lits i depth maxDepth =
     (if i < length code then throwE OutOfFuel else returnE maxDepth)"
| "depthLoop (Suc n) code lits i depth maxDepth =
     (if i < length code then
        bindE (depthStep code lits i depth) (\<lambda>r.
          depthLoop n code lits (fst r) (snd r) (if maxDepth < snd r then snd r else maxDepth))
      else returnE maxDepth)"

definition ComputeStackDepth :: "mgenc \<Rightarrow> u8 vmM" where
  "ComputeStackDepth m =
     depthLoop (length (m_bytecode m)) (m_bytecode m) (m_literals m) 0 0 0"

subsection \<open>Assembly\<close>

definition MethodAssemble :: "mgenc \<Rightarrow> ptr vmM" where
  "MethodAssemble m =
     (let numLiterals = length (m_literals m) in
      bindE (NewMethod (m_signature m) (length (m_bytecode m)) numLiterals) (\<lambda>meth.
      thenE (SetNumberOfLocals meth (ListSize (m_locals m)))
     (bindE (ComputeStackDepth m) (\<lambda>depth.
      thenE (SetMaximumNumberOfStackElements meth (uint depth))
     (thenE (forE [0..<numLiterals] (\<lambda>i.
         SetIndexableField meth (int i) (ListGet NULL (m_literals m) (int i))))
     (thenE (forE [0..<length (m_bytecode m)] (\<lambda>i.
         SetBytecode meth (int i) (m_bytecode m ! i)))
       (returnE meth)))))))"

definition AssemblePrimitive :: "mgenc \<Rightarrow> ptr vmM" where
  "AssemblePrimitive m = GetEmptyPrimitive (m_signature m)"

section \<open>ClassGenerationContext\<close>

definition ClassGenerationContext_new :: cgenc where
  "ClassGenerationContext_new =
     \<lparr>c_name = NULL, c_superName = NULL, c_classSide = False, c_instanceFields = [],
      c_instanceMethods = [], c_classFields = [], c_classMethods = []\<rparr>"

definition CGSetName :: "ptr \<Rightarrow> cgenc \<Rightarrow> cgenc" where
  "CGSetName n c = c\<lparr>c_name := n\<rparr>"

definition SetSuperName :: "ptr \<Rightarrow> cgenc \<Rightarrow> cgenc" where
  "SetSuperName n c = c\<lparr>c_superName := n\<rparr>"

definition SetClassSide :: "bool \<Rightarrow> cgenc \<Rightarrow> cgenc" where
  "SetClassSide b c = c\<lparr>c_classSide := b\<rparr>"

definition AddClassField :: "ptr \<Rightarrow> cgenc \<Rightarrow> cgenc" where
  "AddClassField f c = c\<lparr>c_classFields := ListAdd (c_classFields c) f\<rparr>"

definition AddInstanceField :: "ptr \<Rightarrow> cgenc \<Rightarrow> cgenc" where
  "AddInstanceField f c = c\<lparr>c_instanceFields := ListAdd (c_instanceFields c) f\<rparr>"

definition AddInstanceMethod :: "ptr \<Rightarrow> cgenc \<Rightarrow> cgenc" where
  "AddInstanceMethod m c = c\<lparr>c_instanceMethods := ListAdd (c_instanceMethods c) m\<rparr>"

definition AddClassMethod :: "ptr \<Rightarrow> cgenc \<Rightarrow> cgenc" where
  "AddClassMethod m c = c\<lparr>c_classMethods := ListAdd (c_classMethods c) m\<rparr>"

definition FindField :: "cgenc \<Rightarrow> string \<Rightarrow> bool vmM" where
  "FindField c field =
     bindE (SymbolFor field) (\<lambda>f.
       returnE (IndexOf (if c_classSide c then c_classFields c else c_instanceFields c) f \<noteq> -1))"

section \<open>BytecodeGenerator\<close>

definition EMIT1 :: "bytecode \<Rightarrow> mgenc \<Rightarrow> mgenc" where
  "EMIT1 BC m = AddBytecode (opcode BC) m"

definition EMIT2 :: "bytecode \<Rightarrow> int \<Rightarrow> mgenc \<Rightarrow> mgenc" where
  "EMIT2 BC idx m = AddBytecode (word_of_int idx) (AddBytecode (opcode BC) m)"

definition EMIT3 :: "bytecode \<Rightarrow> int \<Rightarrow> int \<Rightarrow> mgenc \<Rightarrow> mgenc" where
  "EMIT3 BC idx ctx m =
     AddBytecode (word_of_int ctx) (AddBytecode (word_of_int idx) (AddBytecode (opcode BC) m))"

definition EmitHALT :: "mgenc \<Rightarrow> mgenc" where
  "EmitHALT m = EMIT1 BC_HALT m"

definition EmitDUP :: "mgenc \<Rightarrow> mgenc" where
  "EmitDUP m = EMIT1 BC_DUP m"

definition EmitPUSHLOCAL :: "int \<Rightarrow> int \<Rightarrow> mgenc \<Rightarrow> mgenc" where
  "EmitPUSHLOCAL idx ctx m = EMIT3 BC_PUSH_LOCAL idx ctx m"

definition EmitPUSHARGUMENT :: "int \<Rightarrow> int \<Rightarrow> mgenc \<Rightarrow> mgenc" where
  "EmitPUSHARGUMENT idx ctx m = EMIT3 BC_PUSH_ARGUMENT idx ctx m"

definition EmitPUSHFIELD :: "ptr \<Rightarrow> mgenc \<Rightarrow> mgenc" where
  "EmitPUSHFIELD field m = EMIT2 BC_PUSH_FIELD (FindLiteralIndex m field) m"

definition EmitPUSHBLOCK :: "ptr \<Rightarrow> mgenc \<Rightarrow> mgenc" where
  "EmitPUSHBLOCK block m = EMIT2 BC_PUSH_BLOCK (FindLiteralIndex m block) m"

definition EmitPUSHCONSTANT :: "ptr \<Rightarrow> mgenc \<Rightarrow> mgenc" where
  "EmitPUSHCONSTANT cst m = EMIT2 BC_PUSH_CONSTANT (FindLiteralIndex m cst) m"

definition EmitPUSHCONSTANTString :: "ptr \<Rightarrow> mgenc \<Rightarrow> mgenc" where
  "EmitPUSHCONSTANTString str m = EMIT2 BC_PUSH_CONSTANT (FindLiteralIndex m str) m"

definition EmitPUSHGLOBAL :: "ptr \<Rightarrow> mgenc \<Rightarrow> mgenc" where
  "EmitPUSHGLOBAL global m = EMIT2 BC_PUSH_GLOBAL (FindLiteralIndex m global) m"

definition EmitPOP :: "mgenc \<Rightarrow> mgenc" where
  "EmitPOP m = EMIT1 BC_POP m"

definition EmitPOPLOCAL :: "int \<Rightarrow> int \<Rightarrow> mgenc \<Rightarrow> mgenc" where
  "EmitPOPLOCAL idx ctx m = EMIT3 BC_POP_LOCAL idx ctx m"

definition EmitPOPARGUMENT :: "int \<Rightarrow> int \<Rightarrow> mgenc \<Rightarrow> mgenc" where
  "EmitPOPARGUMENT idx ctx m = EMIT3 BC_POP_ARGUMENT idx ctx m"

definition EmitPOPFIELD :: "ptr \<Rightarrow> mgenc \<Rightarrow> mgenc" where
  "EmitPOPFIELD field m = EMIT2 BC_POP_FIELD (FindLiteralIndex m field) m"

definition EmitSEND :: "ptr \<Rightarrow> mgenc \<Rightarrow> mgenc" where
  "EmitSEND msg m = EMIT2 BC_SEND (FindLiteralIndex m msg) m"

definition EmitSUPERSEND :: "ptr \<Rightarrow> mgenc \<Rightarrow> mgenc" where
  "EmitSUPERSEND msg m = EMIT2 BC_SUPER_SEND (FindLiteralIndex m msg) m"

definition EmitRETURNLOCAL :: "mgenc \<Rightarrow> mgenc" where
  "EmitRETURNLOCAL m = EMIT1 BC_RETURN_LOCAL m"

definition EmitRETURNNONLOCAL :: "mgenc \<Rightarrow> mgenc" where
  "EmitRETURNNONLOCAL m = EMIT1 BC_RETURN_NON_LOCAL m"

end
