(* ===== verification/Parser.thy ===== *)
theory Parser
  imports Lexer GenContexts
begin

text \<open>
  \<^verbatim>\<open>src/compiler/Parser.cpp\<close>: the recursive-descent parser that emits code while it reads.
  The state holds the parser's members, the generation contexts and the virtual machine
  the symbols and literals are allocated in. \<open>p_ctxs\<close> is the chain of method contexts, the
  current \<^verbatim>\<open>mgenc\<close> first. A syntax error is a message on \<^verbatim>\<open>stderr\<close> only and parsing goes
  on: \<open>p_errors\<close> collects what was expected, what was found and the line.

  The grammar functions are mutually recursive through \<^verbatim>\<open>expression\<close> and \<^verbatim>\<open>blockBody\<close>.
  Each is a definition of its own that takes the recursion \<open>rc\<close> (for \<^verbatim>\<open>expression\<close> inside
  \<^verbatim>\<open>blockBody\<close>, \<open>ex\<close>) and a bound \<open>n\<close> for its loops; \<open>parseN\<close> ties the knot and lowers the
  bound at each recursive call. The bound of a parse is the number of characters of the
  source, twice, and five.
\<close>

record pstate =
  p_lexer :: lexer
  p_sym :: Symbol
  p_text :: string
  p_nextSym :: Symbol
  p_nextText :: string
  p_ctxs :: "mgenc list"
  p_cgenc :: cgenc
  p_vm :: vm
  p_errors :: "(Symbol list \<times> Symbol \<times> nat) list"

type_synonym 'a PM = "(pstate, 'a) se"

datatype nterm = NExpression | NBlockBody bool

type_synonym rec = "nterm \<Rightarrow> unit PM"

named_theorems parser_defs \<open>definitions of the parser\<close>

section \<open>Access to the parts of the state\<close>

definition lexM :: "'a lexM \<Rightarrow> 'a PM" where
  [parser_defs]: "lexM m = liftE p_lexer (\<lambda>l s. s\<lparr>p_lexer := l\<rparr>) m"

definition vmM :: "'a vmM \<Rightarrow> 'a PM" where
  [parser_defs]: "vmM m = liftE p_vm (\<lambda>v s. s\<lparr>p_vm := v\<rparr>) m"

definition mgenc :: "mgenc PM" where
  [parser_defs]: "mgenc = (\<lambda>s. case p_ctxs s of [] \<Rightarrow> Inl NullPointer | m # ms \<Rightarrow> Inr (m, s))"

definition onMgenc :: "(mgenc \<Rightarrow> mgenc) \<Rightarrow> unit PM" where
  [parser_defs]: "onMgenc f =
     (\<lambda>s. case p_ctxs s of [] \<Rightarrow> Inl NullPointer | m # ms \<Rightarrow> Inr ((), s\<lparr>p_ctxs := f m # ms\<rparr>))"

definition onCgenc :: "(cgenc \<Rightarrow> cgenc) \<Rightarrow> unit PM" where
  [parser_defs]: "onCgenc f = modifyE (\<lambda>s. s\<lparr>p_cgenc := f (p_cgenc s)\<rparr>)"

text \<open>\<^verbatim>\<open>new MethodGenerationContext()\<close> becoming the current one, and \<^verbatim>\<open>delete\<close>.\<close>

definition enterContext :: "mgenc \<Rightarrow> unit PM" where
  [parser_defs]: "enterContext m = modifyE (\<lambda>s. s\<lparr>p_ctxs := m # p_ctxs s\<rparr>)"

definition leaveContext :: "unit PM" where
  [parser_defs]: "leaveContext = modifyE (\<lambda>s. s\<lparr>p_ctxs := tl (p_ctxs s)\<rparr>)"

definition sym :: "Symbol PM" where
  [parser_defs]: "sym = getsE p_sym"

definition textM :: "string PM" where
  [parser_defs]: "textM = getsE p_text"

section \<open>Tokens\<close>

definition GETSYM :: "unit PM" where
  [parser_defs]: "GETSYM =
     bindE (lexM GetSym) (\<lambda>s.
       modifyE (\<lambda>p. p\<lparr>p_sym := s, p_text := GetText (p_lexer p)\<rparr>))"

definition PEEK :: "unit PM" where
  [parser_defs]: "PEEK =
     bindE (lexM Peek) (\<lambda>s.
       modifyE (\<lambda>p. p\<lparr>p_nextSym := s, p_nextText := GetNextText (p_lexer p)\<rparr>))"

text \<open>The symbol lists of the grammar end with \<open>NONE\<close>, except for \<open>keywordSelectorSyms\<close>: a
  test that reaches its end reads outside the array.\<close>

definition singleOpSyms :: "Symbol list" where
  "singleOpSyms = [NotSym, And, Or, Star, Div, Mod, Plus, Equal, More, Less, Comma, At, Per, NONE]"

definition binaryOpSyms :: "Symbol list" where
  "binaryOpSyms = [Or, Comma, Minus, Equal, NotSym, And, Or, Star, Div, Mod, Plus, Equal,
     More, Less, Comma, At, Per, NONE]"

definition keywordSelectorSyms :: "Symbol list" where
  "keywordSelectorSyms = [Keyword, KeywordSequence]"

fun symIn :: "Symbol list \<Rightarrow> bool PM" where
  "symIn [] = throwE OutOfRange"
| "symIn (x # xs) =
     (if x = NONE then returnE False
      else bindE sym (\<lambda>s. if x = s then returnE True else symIn xs))"

definition accept :: "Symbol \<Rightarrow> bool PM" where
  [parser_defs]: "accept x =
     bindE sym (\<lambda>s. if s = x then thenE GETSYM (returnE True) else returnE False)"

definition acceptOneOf :: "Symbol list \<Rightarrow> bool PM" where
  [parser_defs]: "acceptOneOf ss =
     bindE (symIn ss) (\<lambda>b. if b then thenE GETSYM (returnE True) else returnE False)"

definition parseError :: "Symbol list \<Rightarrow> unit PM" where
  [parser_defs]: "parseError ss =
     modifyE (\<lambda>p. p\<lparr>p_errors := p_errors p @ [(ss, p_sym p, lx_line (p_lexer p))]\<rparr>)"

definition expect :: "Symbol \<Rightarrow> bool PM" where
  [parser_defs]: "expect x =
     bindE (accept x) (\<lambda>b. if b then returnE True else thenE (parseError [x]) (returnE False))"

text \<open>The message of \<^verbatim>\<open>expectOneOf\<close> prints the names up to a \<open>NONE\<close>: the list without one is
  read past its end.\<close>

definition expectOneOf :: "Symbol list \<Rightarrow> bool PM" where
  [parser_defs]: "expectOneOf ss =
     bindE (acceptOneOf ss) (\<lambda>b.
       if b then returnE True
       else if NONE \<in> set ss
       then thenE (parseError (takeWhile (\<lambda>x. x \<noteq> NONE) ss)) (returnE False)
       else throwE OutOfRange)"

text \<open>\<^verbatim>\<open>sym == OperatorSequence || symIn(binaryOpSyms)\<close>.\<close>

definition atBinary :: "bool PM" where
  [parser_defs]: "atBinary =
     bindE sym (\<lambda>s. if s = OperatorSequence then returnE True else symIn binaryOpSyms)"

text \<open>\<^verbatim>\<open>sym == Identifier || sym == Keyword || sym == OperatorSequence || symIn(binaryOpSyms)\<close>.\<close>

definition atMessage :: "bool PM" where
  [parser_defs]: "atMessage =
     bindE sym (\<lambda>s. if s = Identifier \<or> s = Keyword then returnE True else atBinary)"

section \<open>Variables\<close>

definition genPushVariable :: "string \<Rightarrow> unit PM" where
  [parser_defs]: "genPushVariable var =
     bindE (getsE p_ctxs) (\<lambda>ctxs.
       case FindVar ctxs var 0 of
         Some (index, context, is_argument) \<Rightarrow>
           if is_argument then onMgenc (EmitPUSHARGUMENT index (int context))
           else onMgenc (EmitPUSHLOCAL index (int context))
       | None \<Rightarrow>
           bindE (getsE p_cgenc) (\<lambda>cg.
           bindE (vmM (FindField cg var)) (\<lambda>isField.
             if isField then
               bindE (vmM (SymbolFor var)) (\<lambda>fieldName.
               thenE (onMgenc (\<lambda>m. snd (AddLiteralIfAbsent fieldName m)))
                 (onMgenc (EmitPUSHFIELD fieldName)))
             else
               bindE (vmM (SymbolFor var)) (\<lambda>global.
               thenE (onMgenc (\<lambda>m. snd (AddLiteralIfAbsent global m)))
                 (onMgenc (EmitPUSHGLOBAL global))))))"

definition genPopVariable :: "string \<Rightarrow> unit PM" where
  [parser_defs]: "genPopVariable var =
     bindE (getsE p_ctxs) (\<lambda>ctxs.
       case FindVar ctxs var 0 of
         Some (index, context, is_argument) \<Rightarrow>
           if is_argument then onMgenc (EmitPOPARGUMENT index (int context))
           else onMgenc (EmitPOPLOCAL index (int context))
       | None \<Rightarrow> bindE (vmM (SymbolFor var)) (\<lambda>s. onMgenc (EmitPOPFIELD s)))"

section \<open>Names and selectors\<close>

definition identifierM :: "string PM" where
  [parser_defs]: "identifierM =
     bindE textM (\<lambda>s.
     bindE (accept Primitive) (\<lambda>b.
       if b then returnE s else thenE (expect Identifier) (returnE s)))"

definition variable :: "string PM" where
  [parser_defs]: "variable = identifierM"

definition argument :: "string PM" where
  [parser_defs]: "argument = variable"

definition keywordM :: "string PM" where
  [parser_defs]: "keywordM = bindE textM (\<lambda>s. thenE (expect Keyword) (returnE s))"

definition stringM :: "string PM" where
  [parser_defs]: "stringM = bindE textM (\<lambda>s. thenE (expect STString) (returnE s))"

definition unarySelector :: "ptr PM" where
  [parser_defs]: "unarySelector = bindE identifierM (\<lambda>s. vmM (SymbolFor s))"

definition orElse :: "bool PM \<Rightarrow> bool PM \<Rightarrow> bool PM" where
  [parser_defs]: "orElse m k = bindE m (\<lambda>b. if b then returnE True else k)"

definition binarySelector :: "ptr PM" where
  [parser_defs]: "binarySelector =
     bindE textM (\<lambda>s.
     thenE (orElse (accept Or) (orElse (accept Comma) (orElse (accept Minus)
           (orElse (accept Equal) (orElse (acceptOneOf singleOpSyms)
           (orElse (accept OperatorSequence) (expect NONE)))))))
       (vmM (SymbolFor s)))"

definition keywordSelector :: "ptr PM" where
  [parser_defs]: "keywordSelector =
     bindE textM (\<lambda>s. thenE (expectOneOf keywordSelectorSyms) (vmM (SymbolFor s)))"

definition selector :: "ptr PM" where
  [parser_defs]: "selector =
     bindE sym (\<lambda>s.
     bindE (if s = OperatorSequence then returnE True else symIn singleOpSyms) (\<lambda>b.
       if b then binarySelector
       else if s = Keyword \<or> s = KeywordSequence then keywordSelector
       else unarySelector))"

section \<open>Literals\<close>

text \<open>\<^verbatim>\<open>strtoul(text, NULL, 10)\<close>: the value of the leading digits, with \<^verbatim>\<open>ULONG_MAX\<close> of the
  32-bit target on overflow. Leading blanks, which only the text of a string token can have, are
  skipped; a leading sign is accepted and negates in unsigned arithmetic.\<close>

definition digits_value :: "string \<Rightarrow> nat" where
  "digits_value ds = foldl (\<lambda>n c. 10 * n + (char_code c - 48)) 0 ds"

definition strtoul :: "string \<Rightarrow> int" where
  "strtoul text =
     (let t = dropWhile isspace text;
          neg = (t \<noteq> [] \<and> hd t = CHR ''-'');
          u = (if t \<noteq> [] \<and> (hd t = CHR ''-'' \<or> hd t = CHR ''+'') then tl t else t);
          k = int (digits_value (takeWhile isdigit u)) in
      if 4294967295 < k then 4294967295
      else if neg then to_u32 (- k) else k)"

definition literalInteger :: "int PM" where
  [parser_defs]: "literalInteger =
     bindE textM (\<lambda>t. thenE (expect Integer) (returnE (strtoul t)))"

definition literalDecimal :: "int PM" where
  [parser_defs]: "literalDecimal = literalInteger"

definition negativeDecimal :: "int PM" where
  [parser_defs]: "negativeDecimal =
     thenE (expect Minus) (bindE literalInteger (\<lambda>i. returnE (to_i32 (- to_i32 i))))"

definition addConstant :: "ptr \<Rightarrow> unit PM" where
  [parser_defs]: "addConstant lit =
     thenE (onMgenc (\<lambda>m. snd (AddLiteralIfAbsent lit m))) (onMgenc (EmitPUSHCONSTANT lit))"

definition literalNumber :: "unit PM" where
  [parser_defs]: "literalNumber =
     bindE sym (\<lambda>s.
     bindE (if s = Minus then negativeDecimal
            else bindE literalDecimal (\<lambda>k. returnE (to_i32 k))) (\<lambda>val.
     bindE (vmM (NewInteger val)) addConstant))"

definition literalSymbol :: "unit PM" where
  [parser_defs]: "literalSymbol =
     thenE (expect Pound)
    (bindE sym (\<lambda>s.
     bindE (if s = STString then bindE stringM (\<lambda>t. vmM (SymbolFor t)) else selector)
       addConstant))"

definition literalString :: "unit PM" where
  [parser_defs]: "literalString =
     bindE stringM (\<lambda>s. bindE (vmM (NewString s)) addConstant)"

definition literal :: "unit PM" where
  [parser_defs]: "literal =
     bindE sym (\<lambda>s.
       if s = Pound then literalSymbol
       else if s = STString then literalString
       else literalNumber)"

section \<open>Expressions\<close>

definition emitSend :: "bool \<Rightarrow> ptr \<Rightarrow> unit PM" where
  [parser_defs]: "emitSend super msg =
     (if super then onMgenc (EmitSUPERSEND msg) else onMgenc (EmitSEND msg))"

definition unaryMessage :: "bool \<Rightarrow> unit PM" where
  [parser_defs]: "unaryMessage super =
     bindE unarySelector (\<lambda>msg.
     thenE (onMgenc (\<lambda>m. snd (AddLiteralIfAbsent msg m)))
       (emitSend super msg))"

definition nestedTerm :: "rec \<Rightarrow> unit PM" where
  [parser_defs]: "nestedTerm rc = thenE (expect NewTerm) (thenE (rc NExpression) (thenE (expect EndTerm) (returnE ())))"

definition blockArguments :: "nat \<Rightarrow> unit PM" where
  [parser_defs]: "blockArguments n =
     doWhileM n
       (thenE (expect Colon)
         (bindE argument (\<lambda>a. onMgenc (\<lambda>m. snd (AddArgumentIfAbsent a m)))))
       (bindE sym (\<lambda>s. returnE (s = Colon)))"

definition blockPattern :: "nat \<Rightarrow> unit PM" where
  [parser_defs]: "blockPattern n = thenE (blockArguments n) (thenE (expect Or) (returnE ()))"

definition localsM :: "nat \<Rightarrow> unit PM" where
  [parser_defs]: "localsM n =
     whileM n (bindE sym (\<lambda>s. returnE (s = Identifier)))
       (bindE variable (\<lambda>v. onMgenc (\<lambda>m. snd (AddLocalIfAbsent v m))))"

definition blockContents :: "nat \<Rightarrow> rec \<Rightarrow> unit PM" where
  [parser_defs]: "blockContents n rc =
     thenE (bindE (accept Or) (\<lambda>b.
              if b then thenE (localsM n) (thenE (expect Or) (returnE ())) else returnE ()))
       (rc (NBlockBody False))"

definition nestedBlock :: "nat \<Rightarrow> rec \<Rightarrow> unit PM" where
  [parser_defs]: "nestedBlock n rc =
     thenE (onMgenc (\<lambda>m. snd (AddArgumentIfAbsent ''$block self'' m)))
    (thenE (expect NewBlock)
    (bindE sym (\<lambda>s.
     thenE (if s = Colon then blockPattern n else returnE ())
    (bindE mgenc (\<lambda>m.
     bindE (vmM (SymbolFor (''$block method'' @
               replicate (nat (MGGetNumberOfArguments m) - 1) (CHR '':'')))) (\<lambda>block_sig.
     thenE (onMgenc (MGSetSignature block_sig))
    (thenE (blockContents n rc)
    (bindE mgenc (\<lambda>m'.
     thenE (if \<not> m_finished m'
            then thenE (onMgenc EmitRETURNLOCAL) (onMgenc (SetFinished True))
            else returnE ())
    (thenE (expect EndBlock) (returnE ())))))))))))"

text \<open>\<^verbatim>\<open>primary\<close> returns whether the receiver was \<^verbatim>\<open>super\<close>.\<close>

definition primary :: "nat \<Rightarrow> rec \<Rightarrow> bool PM" where
  [parser_defs]: "primary n rc =
     bindE sym (\<lambda>s.
       if s = Identifier then
         bindE variable (\<lambda>v.
           if v = ''super'' then thenE (genPushVariable ''self'') (returnE True)
           else thenE (genPushVariable v) (returnE False))
       else if s = NewTerm then thenE (nestedTerm rc) (returnE False)
       else if s = NewBlock then
         thenE (enterContext (SetIsBlockMethod True MethodGenerationContext_new))
        (thenE (nestedBlock n rc)
        (bindE mgenc (\<lambda>bgenc.
         bindE (vmM (MethodAssemble bgenc)) (\<lambda>block_method.
         thenE leaveContext
        (thenE (onMgenc (AddLiteral block_method))
        (thenE (onMgenc (EmitPUSHBLOCK block_method))
           (returnE False)))))))
       else thenE literal (returnE False))"

definition binaryOperand :: "nat \<Rightarrow> rec \<Rightarrow> bool PM" where
  [parser_defs]: "binaryOperand n rc =
     bindE (primary n rc) (\<lambda>super.
     thenE (whileM n (bindE sym (\<lambda>s. returnE (s = Identifier))) (unaryMessage super))
       (returnE super))"

definition binaryMessage :: "nat \<Rightarrow> rec \<Rightarrow> bool \<Rightarrow> unit PM" where
  [parser_defs]: "binaryMessage n rc super =
     bindE binarySelector (\<lambda>msg.
     thenE (onMgenc (\<lambda>m. snd (AddLiteralIfAbsent msg m)))
    (thenE (binaryOperand n rc)
       (emitSend super msg)))"

definition formula :: "nat \<Rightarrow> rec \<Rightarrow> unit PM" where
  [parser_defs]: "formula n rc =
     bindE (binaryOperand n rc) (\<lambda>super.
     bindE atBinary (\<lambda>b.
     thenE (if b then binaryMessage n rc super else returnE ())
       (whileM n atBinary (binaryMessage n rc False))))"

text \<open>The \<^verbatim>\<open>do .. while\<close> loop of \<^verbatim>\<open>keywordMessage\<close> with the selector it accumulates.\<close>

primrec keywordParts :: "nat \<Rightarrow> nat \<Rightarrow> rec \<Rightarrow> string \<Rightarrow> string PM" where
  "keywordParts 0 n rc kw = throwE OutOfFuel"
| "keywordParts (Suc j) n rc kw =
     bindE keywordM (\<lambda>k.
     thenE (formula n rc)
    (bindE sym (\<lambda>s.
       if s = Keyword then keywordParts j n rc (kw @ k) else returnE (kw @ k))))"

definition keywordMessage :: "nat \<Rightarrow> rec \<Rightarrow> bool \<Rightarrow> unit PM" where
  [parser_defs]: "keywordMessage n rc super =
     bindE (keywordParts n n rc []) (\<lambda>kw.
     bindE (vmM (SymbolFor kw)) (\<lambda>msg.
     thenE (onMgenc (\<lambda>m. snd (AddLiteralIfAbsent msg m)))
       (emitSend super msg)))"

definition messages :: "nat \<Rightarrow> rec \<Rightarrow> bool \<Rightarrow> unit PM" where
  [parser_defs]: "messages n rc super =
     bindE sym (\<lambda>s.
       if s = Identifier then
         thenE (unaryMessage super)
        (thenE (whileM n (bindE sym (\<lambda>s. returnE (s = Identifier))) (unaryMessage False))
        (thenE (whileM n atBinary (binaryMessage n rc False))
        (bindE sym (\<lambda>s. if s = Keyword then keywordMessage n rc False else returnE ()))))
       else bindE atBinary (\<lambda>b.
         if b then
           thenE (binaryMessage n rc super)
          (thenE (whileM n atBinary (binaryMessage n rc False))
          (bindE sym (\<lambda>s. if s = Keyword then keywordMessage n rc False else returnE ())))
         else keywordMessage n rc super))"

definition evaluation :: "nat \<Rightarrow> rec \<Rightarrow> unit PM" where
  [parser_defs]: "evaluation n rc =
     bindE (primary n rc) (\<lambda>super.
     bindE atMessage (\<lambda>b. if b then messages n rc super else returnE ()))"

definition assignment :: "string PM" where
  [parser_defs]: "assignment =
     bindE variable (\<lambda>v.
     bindE (vmM (SymbolFor v)) (\<lambda>var.
     thenE (onMgenc (\<lambda>m. snd (AddLiteralIfAbsent var m)))
    (thenE (expect Assign) (returnE v))))"

primrec assignments :: "nat \<Rightarrow> string list \<Rightarrow> string list PM" where
  "assignments 0 l = throwE OutOfFuel"
| "assignments (Suc n) l =
     bindE sym (\<lambda>s.
       if s = Identifier then
         bindE assignment (\<lambda>v.
         thenE PEEK
        (bindE (getsE p_nextSym) (\<lambda>nx.
           if nx = Assign then assignments n (l @ [v]) else returnE (l @ [v]))))
       else returnE l)"

definition assignation :: "nat \<Rightarrow> rec \<Rightarrow> unit PM" where
  [parser_defs]: "assignation n rc =
     bindE (assignments n []) (\<lambda>l.
     thenE (evaluation n rc)
    (thenE (forE l (\<lambda>_. onMgenc EmitDUP))
       (forE l genPopVariable)))"

definition expression :: "nat \<Rightarrow> rec \<Rightarrow> unit PM" where
  [parser_defs]: "expression n rc =
     thenE PEEK
    (bindE (getsE p_nextSym) (\<lambda>nx.
       if nx = Assign then assignation n rc else evaluation n rc))"

section \<open>Statements\<close>

definition result :: "unit PM \<Rightarrow> unit PM" where
  [parser_defs]: "result ex =
     thenE ex
    (bindE mgenc (\<lambda>m.
     thenE (if m_blockMethod m then onMgenc EmitRETURNNONLOCAL else onMgenc EmitRETURNLOCAL)
    (thenE (onMgenc (SetFinished True))
    (thenE (accept Period) (returnE ())))))"

definition blockBody :: "unit PM \<Rightarrow> rec \<Rightarrow> bool \<Rightarrow> unit PM" where
  [parser_defs]: "blockBody ex rc seen_period =
     bindE (accept Exit) (\<lambda>b.
       if b then result ex
       else bindE sym (\<lambda>s.
         if s = EndBlock then
           thenE (if seen_period then onMgenc RemoveLastBytecode else returnE ())
          (thenE (onMgenc EmitRETURNLOCAL) (onMgenc (SetFinished True)))
         else if s = EndTerm then
           thenE (onMgenc (EmitPUSHARGUMENT 0 0))
          (thenE (onMgenc EmitRETURNLOCAL) (onMgenc (SetFinished True)))
         else
           thenE ex
          (bindE (accept Period) (\<lambda>p.
             if p then thenE (onMgenc EmitPOP) (rc (NBlockBody True)) else returnE ()))))"

primrec parseN :: "nat \<Rightarrow> rec" where
  "parseN 0 = (\<lambda>_. throwE OutOfFuel)"
| "parseN (Suc n) = (\<lambda>nt. case nt of
       NExpression \<Rightarrow> expression (Suc n) (parseN n)
     | NBlockBody seen_period \<Rightarrow> blockBody (expression (Suc n) (parseN n)) (parseN n) seen_period)"

section \<open>Methods and classes\<close>

definition methodBlock :: "nat \<Rightarrow> rec \<Rightarrow> unit PM" where
  [parser_defs]: "methodBlock n rc =
     thenE (expect NewTerm)
    (thenE (blockContents n rc)
    (bindE mgenc (\<lambda>m.
     thenE (if \<not> m_finished m
            then thenE (onMgenc EmitPOP)
                (thenE (onMgenc (EmitPUSHARGUMENT 0 0))
                (thenE (onMgenc EmitRETURNLOCAL) (onMgenc (SetFinished True))))
            else returnE ())
    (thenE (expect EndTerm) (returnE ())))))"

definition unaryPattern :: "unit PM" where
  [parser_defs]: "unaryPattern = bindE unarySelector (\<lambda>s. onMgenc (MGSetSignature s))"

definition binaryPattern :: "unit PM" where
  [parser_defs]: "binaryPattern =
     bindE binarySelector (\<lambda>s.
     thenE (onMgenc (MGSetSignature s))
       (bindE argument (\<lambda>a. onMgenc (\<lambda>m. snd (AddArgumentIfAbsent a m)))))"

primrec keywordPatternParts :: "nat \<Rightarrow> string \<Rightarrow> string PM" where
  "keywordPatternParts 0 kw = throwE OutOfFuel"
| "keywordPatternParts (Suc j) kw =
     bindE keywordM (\<lambda>k.
     bindE argument (\<lambda>a.
     thenE (onMgenc (\<lambda>m. snd (AddArgumentIfAbsent a m)))
    (bindE sym (\<lambda>s.
       if s = Keyword then keywordPatternParts j (kw @ k) else returnE (kw @ k)))))"

definition keywordPattern :: "nat \<Rightarrow> unit PM" where
  [parser_defs]: "keywordPattern n =
     bindE (keywordPatternParts n []) (\<lambda>kw.
     bindE (vmM (SymbolFor kw)) (\<lambda>s. onMgenc (MGSetSignature s)))"

definition pattern :: "nat \<Rightarrow> unit PM" where
  [parser_defs]: "pattern n =
     bindE sym (\<lambda>s.
       if s = Identifier then unaryPattern
       else if s = Keyword then keywordPattern n
       else binaryPattern)"

definition primitiveBlock :: "unit PM" where
  [parser_defs]: "primitiveBlock = thenE (expect Primitive) (returnE ())"

definition methodM :: "nat \<Rightarrow> rec \<Rightarrow> unit PM" where
  [parser_defs]: "methodM n rc =
     thenE (pattern n)
    (thenE (expect Equal)
    (bindE sym (\<lambda>s.
       if s = Primitive then thenE (onMgenc (SetPrimitive True)) primitiveBlock
       else methodBlock n rc)))"

text \<open>\<^verbatim>\<open>instanceFields\<close> and \<^verbatim>\<open>classFields\<close>, which differ in the list they add to.\<close>

definition fieldsM :: "nat \<Rightarrow> (ptr \<Rightarrow> cgenc \<Rightarrow> cgenc) \<Rightarrow> unit PM" where
  [parser_defs]: "fieldsM n add =
     bindE (accept Or) (\<lambda>b.
       if b then
         thenE (whileM n (bindE sym (\<lambda>s. returnE (s = Identifier)))
                 (bindE variable (\<lambda>var. bindE (vmM (SymbolFor var)) (\<lambda>f. onCgenc (add f)))))
           (thenE (expect Or) (returnE ()))
       else returnE ())"

definition instanceFields :: "nat \<Rightarrow> unit PM" where
  [parser_defs]: "instanceFields n = fieldsM n AddInstanceField"

definition classFields :: "nat \<Rightarrow> unit PM" where
  [parser_defs]: "classFields n = fieldsM n AddClassField"

text \<open>One method of a class: its context, its code, its assembly, its place in the class.\<close>

definition methodOfClass :: "nat \<Rightarrow> rec \<Rightarrow> (ptr \<Rightarrow> cgenc \<Rightarrow> cgenc) \<Rightarrow> unit PM" where
  [parser_defs]: "methodOfClass n rc add =
     thenE (enterContext (AddArgument ''self'' MethodGenerationContext_new))
    (thenE (methodM n rc)
    (bindE mgenc (\<lambda>m.
     bindE (vmM (if m_primitive m then AssemblePrimitive m else MethodAssemble m)) (\<lambda>p.
     thenE (onCgenc (add p)) leaveContext))))"

definition Classdef :: "nat \<Rightarrow> unit PM" where
  [parser_defs]: "Classdef n =
     bindE textM (\<lambda>t.
     bindE (vmM (SymbolFor t)) (\<lambda>name.
     thenE (onCgenc (CGSetName name))
    (thenE (expect Identifier)
    (thenE (expect Equal)
    (bindE sym (\<lambda>s.
     thenE (if s = Identifier then
              bindE textM (\<lambda>u. bindE (vmM (SymbolFor u)) (\<lambda>sn.
                thenE (onCgenc (SetSuperName sn)) (thenE (accept Identifier) (returnE ()))))
            else bindE (vmM (SymbolFor ''Object'')) (\<lambda>sn. onCgenc (SetSuperName sn)))
    (thenE (expect NewTerm)
    (thenE (instanceFields n)
    (thenE (whileM n atMessage (methodOfClass n (parseN n) AddInstanceMethod))
    (bindE (accept Separator) (\<lambda>sep.
     thenE (if sep then
              thenE (onCgenc (SetClassSide True))
             (thenE (classFields n)
               (whileM n atMessage (methodOfClass n (parseN n) AddClassMethod)))
            else returnE ())
    (thenE (expect EndTerm) (returnE ())))))))))))))"

text \<open>The constructor reads the first token.\<close>

definition Parser_start :: "string \<Rightarrow> cgenc \<Rightarrow> vm \<Rightarrow> pstate" where
  "Parser_start file cg v =
     \<lparr>p_lexer = Lexer_new file, p_sym = NONE, p_text = [], p_nextSym = NONE, p_nextText = [],
      p_ctxs = [], p_cgenc = cg, p_vm = v, p_errors = []\<rparr>"

definition parseBound :: "string \<Rightarrow> nat" where
  "parseBound file = 2 * length file + 5"

definition parseClass :: "string \<Rightarrow> unit PM" where
  "parseClass file = thenE GETSYM (Classdef (parseBound file))"

end
