(* ===== verification/CodeCheck.thy ===== *)
theory CodeCheck
  imports GenContexts
begin

text \<open>
  What well-formed bytecode is: \<open>scan\<close> reads code instruction by instruction, follows the
  depth of the evaluation stack and checks every operand against the literals of the
  method and the variables of the chain of contexts. \<^verbatim>\<open>ComputeStackDepth\<close> computes its
  maximal depth. The abstraction of a literal is what its users need: a symbol with the
  number of arguments its signature has, a method, or another object.
\<close>

datatype lit = LSym nat | LMethod | LOther

definition litOf :: "vm \<Rightarrow> ptr list \<Rightarrow> nat \<Rightarrow> lit option" where
  "litOf v lits i =
     (if i < length lits then
        (case symOf v (lits ! i) of
           Some s \<Rightarrow> Some (LSym (GetNumberOfArguments s))
         | None \<Rightarrow>
             (case heap v (lits ! i) of
                Some ob \<Rightarrow> Some (if o_kind ob = KMethod then LMethod else LOther)
              | None \<Rightarrow> None))
      else None)"

text \<open>The number of locals and of arguments of every context of the chain.\<close>

type_synonym env = "(nat \<times> nat) list"

definition envOf :: "mgenc list \<Rightarrow> env" where
  "envOf ms = map (\<lambda>m. (length (m_locals m), length (m_arguments m))) ms"

text \<open>The depth after an instruction, \<open>None\<close> when the stack is too shallow or an operand
  wrong. \<open>a\<close> and \<open>b\<close> are the operand bytes.\<close>

fun effect :: "env \<Rightarrow> (nat \<Rightarrow> lit option) \<Rightarrow> bytecode \<Rightarrow> nat \<Rightarrow> nat \<Rightarrow> nat \<Rightarrow> nat option" where
  "effect env lt BC_HALT a b d = Some d"
| "effect env lt BC_DUP a b d = (if 1 \<le> d then Some (d + 1) else None)"
| "effect env lt BC_PUSH_LOCAL a b d =
     (if b < length env \<and> a < fst (env ! b) then Some (d + 1) else None)"
| "effect env lt BC_PUSH_ARGUMENT a b d =
     (if b < length env \<and> a < snd (env ! b) then Some (d + 1) else None)"
| "effect env lt BC_PUSH_FIELD a b d = (case lt a of Some (LSym n) \<Rightarrow> Some (d + 1) | _ \<Rightarrow> None)"
| "effect env lt BC_PUSH_BLOCK a b d = (case lt a of Some LMethod \<Rightarrow> Some (d + 1) | _ \<Rightarrow> None)"
| "effect env lt BC_PUSH_CONSTANT a b d = (case lt a of Some l \<Rightarrow> Some (d + 1) | _ \<Rightarrow> None)"
| "effect env lt BC_PUSH_GLOBAL a b d = (case lt a of Some (LSym n) \<Rightarrow> Some (d + 1) | _ \<Rightarrow> None)"
| "effect env lt BC_POP a b d = (if 1 \<le> d then Some (d - 1) else None)"
| "effect env lt BC_POP_LOCAL a b d =
     (if 1 \<le> d \<and> b < length env \<and> a < fst (env ! b) then Some (d - 1) else None)"
| "effect env lt BC_POP_ARGUMENT a b d =
     (if 1 \<le> d \<and> b < length env \<and> a < snd (env ! b) then Some (d - 1) else None)"
| "effect env lt BC_POP_FIELD a b d =
     (case lt a of Some (LSym n) \<Rightarrow> if 1 \<le> d then Some (d - 1) else None | _ \<Rightarrow> None)"
| "effect env lt BC_SEND a b d =
     (case lt a of Some (LSym n) \<Rightarrow> if n \<le> d then Some (d - n + 1) else None | _ \<Rightarrow> None)"
| "effect env lt BC_SUPER_SEND a b d =
     (case lt a of Some (LSym n) \<Rightarrow> if n \<le> d then Some (d - n + 1) else None | _ \<Rightarrow> None)"
| "effect env lt BC_RETURN_LOCAL a b d = (if 1 \<le> d then Some d else None)"
| "effect env lt BC_RETURN_NON_LOCAL a b d = (if 1 \<le> d then Some d else None)"

definition byteAt :: "u8 list \<Rightarrow> nat \<Rightarrow> nat" where
  "byteAt code i = (if i < length code then unat (code ! i) else 0)"

text \<open>One instruction at the head of the code: the depth after it and the code behind it.\<close>

definition scanStep :: "env \<Rightarrow> (nat \<Rightarrow> lit option) \<Rightarrow> u8 list \<Rightarrow> nat \<Rightarrow> (nat \<times> u8 list) option" where
  "scanStep env lt code d =
     (case code of [] \<Rightarrow> None
      | c # cs \<Rightarrow>
         (case opcode_of c of
            None \<Rightarrow> None
          | Some op \<Rightarrow>
              if length code < bc_length op then None
              else (case effect env lt op (byteAt code 1) (byteAt code 2) d of
                      None \<Rightarrow> None | Some d' \<Rightarrow> Some (d', drop (bc_length op) code))))"

lemma scanStep_shorter: "scanStep env lt code d = Some (d', rest) \<Longrightarrow> length rest < length code"
  by (auto simp: scanStep_def split: list.splits option.splits if_splits)

function scan :: "env \<Rightarrow> (nat \<Rightarrow> lit option) \<Rightarrow> u8 list \<Rightarrow> nat \<Rightarrow> (nat \<times> nat) option" where
  "scan env lt code d =
     (if code = [] then Some (d, d)
      else (case scanStep env lt code d of
              None \<Rightarrow> None
            | Some (d', rest) \<Rightarrow> map_option (\<lambda>(df, m). (df, max d m)) (scan env lt rest d')))"
  by pat_completeness auto
termination
  by (relation "measure (\<lambda>(env, lt, code, d). length code)") (auto dest: scanStep_shorter)

declare scan.simps [simp del]

lemma scan_Nil [simp]: "scan env lt [] d = Some (d, d)"
  by (simp add: scan.simps)

lemma scan_step:
  "scanStep env lt code d = Some (d', rest) \<Longrightarrow>
     scan env lt code d = map_option (\<lambda>(df, m). (df, max d m)) (scan env lt rest d')"
  by (subst scan.simps) (auto simp: scanStep_def)

lemma scan_stepE:
  assumes "scan env lt code d = Some (df, m)" "code \<noteq> []"
  obtains d' rest k where "scanStep env lt code d = Some (d', rest)"
    "scan env lt rest d' = Some (df, k)" "m = max d k"
proof -
  obtain d' rest where st: "scanStep env lt code d = Some (d', rest)"
    using assms by (subst (asm) scan.simps) (auto split: option.splits)
  with assms(1) that show ?thesis by (auto simp: scan_step)
qed

lemma scanStepE:
  assumes "scanStep env lt code d = Some (d', rest)"
  obtains c cs op where "code = c # cs" "opcode_of c = Some op" "bc_length op \<le> length code"
    "effect env lt op (byteAt code 1) (byteAt code 2) d = Some d'" "rest = drop (bc_length op) code"
  using assms by (auto simp: scanStep_def split: list.splits option.splits if_splits)

lemma scanStepI:
  assumes "code = c # cs" "opcode_of c = Some op" "bc_length op \<le> length code"
    "effect env lt op (byteAt code 1) (byteAt code 2) d = Some d'"
  shows "scanStep env lt code d = Some (d', drop (bc_length op) code)"
  using assms by (simp add: scanStep_def)

lemma scan_max: "scan env lt code d = Some (df, m) \<Longrightarrow> d \<le> m \<and> df \<le> m"
proof (induction env lt code d arbitrary: df m rule: scan.induct)
  case (1 env lt code d)
  show ?case
  proof (cases "code = []")
    case False
    with 1(2) obtain d' rest k where "scanStep env lt code d = Some (d', rest)"
      "scan env lt rest d' = Some (df, k)" "m = max d k" by (rule scan_stepE)
    with 1(1) [OF False this(1) refl this(2)] show ?thesis by auto
  qed (use 1(2) in simp)
qed

lemma scanStep_append:
  assumes "scanStep env lt code d = Some (d', rest)"
  shows "scanStep env lt (code @ cs2) d = Some (d', rest @ cs2)"
proof -
  from assms obtain c cs op where c: "code = c # cs" "opcode_of c = Some op" "bc_length op \<le> length code"
    "effect env lt op (byteAt code 1) (byteAt code 2) d = Some d'" "rest = drop (bc_length op) code"
    by (rule scanStepE)
  have "effect env lt op (byteAt (code @ cs2) 1) (byteAt (code @ cs2) 2) d = Some d'"
    using c(3,4) by (cases op) (auto simp: byteAt_def nth_append)
  with c have "scanStep env lt (code @ cs2) d = Some (d', drop (bc_length op) (code @ cs2))"
    by (intro scanStepI) auto
  with c(3,5) show ?thesis by simp
qed

lemma scan_append:
  "scan env lt c1 d = Some (d1, m1) \<Longrightarrow>
     scan env lt (c1 @ c2) d = map_option (\<lambda>(df, m). (df, max m1 m)) (scan env lt c2 d1)"
proof (induction env lt c1 d arbitrary: m1 rule: scan.induct)
  case (1 env lt c1 d)
  show ?case
  proof (cases "c1 = []")
    case True
    with 1(2) show ?thesis
      by (cases "scan env lt c2 d1") (auto dest: scan_max)
  next
    case False
    with 1(2) obtain d' rest k where st: "scanStep env lt c1 d = Some (d', rest)"
      and r: "scan env lt rest d' = Some (d1, k)" "m1 = max d k" by (rule scan_stepE)
    show ?thesis
      using 1(1) [OF False st refl r(1)] r(2) scan_step [OF scanStep_append [OF st]]
      by (cases "scan env lt c2 d1") (auto simp: max.assoc)
  qed
qed

lemma scan_append_Some:
  assumes "scan env lt c1 d = Some (d1, m1)" and "scan env lt c2 d1 = Some (d2, m2)"
  shows "scan env lt (c1 @ c2) d = Some (d2, max m1 m2)"
  using scan_append [OF assms(1), of c2] assms(2) by simp

lemma effect_mono:
  assumes "effect env lt op a b d = Some d'" and "\<And>i l. lt i = Some l \<Longrightarrow> lt' i = Some l"
  shows "effect env lt' op a b d = Some d'"
proof (cases "lt a")
  case None
  with assms(1) show ?thesis by (cases op) auto
next
  case (Some l)
  with assms(2) have "lt' a = Some l" by blast
  with assms(1) Some show ?thesis by (cases op) auto
qed

lemma scanStep_mono:
  assumes "scanStep env lt code d = Some (d', rest)" and "\<And>i l. lt i = Some l \<Longrightarrow> lt' i = Some l"
  shows "scanStep env lt' code d = Some (d', rest)"
proof -
  from assms(1) obtain c cs op where c: "code = c # cs" "opcode_of c = Some op" "bc_length op \<le> length code"
    "effect env lt op (byteAt code 1) (byteAt code 2) d = Some d'" "rest = drop (bc_length op) code"
    by (rule scanStepE)
  from scanStepI [OF c(1-3) effect_mono [OF c(4) assms(2)]] c(5) show ?thesis by simp
qed

lemma scan_mono:
  "scan env lt code d = Some (df, m) \<Longrightarrow> (\<And>i l. lt i = Some l \<Longrightarrow> lt' i = Some l) \<Longrightarrow>
     scan env lt' code d = Some (df, m)"
proof (induction env lt code d arbitrary: df m rule: scan.induct)
  case (1 env lt code d)
  show ?case
  proof (cases "code = []")
    case False
    with 1(2) obtain d' rest k where st: "scanStep env lt code d = Some (d', rest)"
      and r: "scan env lt rest d' = Some (df, k)" "m = max d k" by (rule scan_stepE)
    from 1(1) [OF False st refl r(1) 1(3)] scan_step [OF scanStep_mono [OF st 1(3)]] r(2)
    show ?thesis by simp
  qed (use 1(2) in simp)
qed

text \<open>Single instructions, as the code generator emits them.\<close>

lemma scan_instr:
  assumes "c = opcode op" "bc_length op = Suc (length args)"
    "effect env lt op (byteAt (c # args) 1) (byteAt (c # args) 2) d = Some d'"
  shows "scan env lt (c # args) d = Some (d', max d d')"
proof -
  have "scanStep env lt (c # args) d = Some (d', drop (bc_length op) (c # args))"
    by (rule scanStepI) (use assms in auto)
  from scan_step [OF this] assms(2) show ?thesis by simp
qed

section \<open>ComputeStackDepth computes the maximal depth\<close>

text \<open>The 8-bit depth follows the depth of \<open>scan\<close>, so for code that checks and stays below
  256 the result is the maximum \<open>scan\<close> finds, and for deeper code it is 255.\<close>

lemma effect_depthStep:
  assumes "i < length code" "opcode_of (code ! i) = Some op" "i + bc_length op \<le> length code"
    and "effect env (litOf v lits) op (byteAt (drop i code) 1) (byteAt (drop i code) 2) d = Some d'"
  shows "depthStep code lits i (of_nat d) v = Inr ((i + bc_length op, of_nat d'), v)"
proof -
  have send: "depthStep code lits i (of_nat d) v = Inr ((i + 2, of_nat d'), v)"
    if "op = BC_SEND \<or> op = BC_SUPER_SEND"
  proof -
    let ?a = "unat (code ! (i + 1))"
    note op = that
    have len: "i + 1 < length code" using assms(3) op by auto
    then have a: "byteAt (drop i code) 1 = ?a" by (simp add: byteAt_def less_diff_conv)
    obtain n where n: "litOf v lits ?a = Some (LSym n)" "n \<le> d" "d' = d - n + 1"
      using assms(4) op a by (auto split: option.splits lit.splits if_splits)
    then obtain s where s: "symOf v (lits ! ?a) = Some s" "n = GetNumberOfArguments s" "?a < length lits"
      by (auto simp: litOf_def split: option.splits if_splits)
    have "ListGet NULL lits (uint (code ! (i + 1))) = lits ! ?a"
      unfolding uint_nat using s(3) by (rule ListGet_int)
    then have "GetStdString (ListGet NULL lits (uint (code ! (i + 1)))) v = Inr (s, v)"
      using s(1) by (simp add: GetStdString_run symOf_strOf)
    then show ?thesis using op assms(2) len n s(2) by (auto simp: depthStep_def of_nat_diff)
  qed
  show ?thesis
    using assms(2,4) send by (cases op) (auto simp: depthStep_def of_nat_diff split: if_splits option.splits lit.splits)
qed

lemma effect_bound: "effect env lt op a b d = Some d' \<Longrightarrow> d' \<le> d + 1"
  by (cases op) (auto split: if_splits option.splits lit.splits)

text \<open>The 8-bit depth wraps beyond 255, but the depth rises by one at most, so the greatest
  depth has reached 255 before and stays there.\<close>

lemma max_saturates:
  assumes "d \<le> mx" "d' \<le> d + 1"
  shows "(if (of_nat (min mx 255) :: u8) < of_nat d' then of_nat d' else of_nat (min mx 255))
     = (of_nat (min (max mx d') 255) :: u8)"
proof (cases "mx < 255")
  case True
  then show ?thesis using assms by (auto simp: word_less_nat_alt unat_of_nat max_def)
next
  case False
  have "\<not> (of_nat 255 :: u8) < of_nat d'"
  proof -
    have "(of_nat 255 :: u8) = - 1" by simp
    then show ?thesis by (metis word_n1_ge not_less)
  qed
  with False show ?thesis by (auto simp: min_def max_def)
qed

lemma depthLoop_scan:
  "scan env (litOf v lits) (drop i code) d = Some (df, m) \<Longrightarrow>
     d \<le> mx \<Longrightarrow> i \<le> length code \<Longrightarrow> length code - i \<le> n \<Longrightarrow>
     depthLoop n code lits i (of_nat d) (of_nat (min mx 255)) v = Inr (of_nat (min (max mx m) 255), v)"
proof (induction n arbitrary: i d mx m)
  case 0
  then have "max mx m = mx" by simp
  with 0 show ?case by simp
next
  case (Suc n)
  show ?case
  proof (cases "i < length code")
    case False
    with Suc.prems have "max mx m = mx" by simp
    with False show ?thesis by simp
  next
    case True
    then have "drop i code \<noteq> []" by simp
    with Suc.prems(1) obtain d' rest k where st: "scanStep env (litOf v lits) (drop i code) d = Some (d', rest)"
      and r: "scan env (litOf v lits) rest d' = Some (df, k)" "m = max d k" by (rule scan_stepE)
    from st obtain c cs op where c: "drop i code = c # cs" "opcode_of c = Some op"
      "bc_length op \<le> length (drop i code)"
      "effect env (litOf v lits) op (byteAt (drop i code) 1) (byteAt (drop i code) 2) d = Some d'"
      "rest = drop (bc_length op) (drop i code)"
      by (rule scanStepE)
    have len: "i + bc_length op \<le> length code" using c(3) True by simp
    have ci: "code ! i = c" using c(1) True by (metis Cons_nth_drop_Suc list.inject)
    have step: "depthStep code lits i (of_nat d) v = Inr ((i + bc_length op, of_nat d'), v)"
      by (rule effect_depthStep [OF True _ len c(4)]) (simp add: c(2) ci)
    obtain z where z: "bc_length op = Suc z" using gr0_implies_Suc [OF bc_length_pos] by blast
    note upd = max_saturates [OF Suc.prems(2) effect_bound [OF c(4)]]
    have r': "scan env (litOf v lits) (drop (i + bc_length op) code) d' = Some (df, k)"
      using r(1) c(5) by (simp add: add.commute)
    have "depthLoop n code lits (i + bc_length op) (of_nat d') (of_nat (min (max mx d') 255)) v
        = Inr (of_nat (min (max (max mx d') k) 255), v)"
      by (rule Suc.IH [OF r']) (use Suc.prems(4) c(3) True z in auto)
    moreover have "max (max mx d') k = max mx m"
      using r(2) scan_max [OF r(1)] Suc.prems(2) by auto
    ultimately show ?thesis using True step by (simp add: upd split del: if_split cong: if_cong)
  qed
qed

lemma ComputeStackDepth_scan:
  assumes "scan env (litOf v (m_literals m)) (m_bytecode m) 0 = Some (df, mx)"
  shows "ComputeStackDepth m v = Inr (of_nat (min mx 255), v)"
  using depthLoop_scan [of env v "m_literals m" 0 "m_bytecode m" 0 df mx 0 "length (m_bytecode m)"] assms
  by (simp add: ComputeStackDepth_def)

end
