(* ===== verification/Assembly.thy ===== *)
theory Assembly
  imports CodeCheck
begin

text \<open>
  What \<^verbatim>\<open>MethodGenerationContext::Assemble\<close> leaves in the heap, and the meaning of a
  verified method: its code checks against its own literals and the chain of contexts it
  runs in, its stack size is the one the code needs, and the block methods among its
  literals are verified one context further in.
\<close>

section \<open>Assembled methods\<close>

definition methodObject :: "vm \<Rightarrow> ptr \<Rightarrow> ptr \<Rightarrow> u8 list \<Rightarrow> ptr list \<Rightarrow> vmobject" where
  "methodObject v n sig code lits =
     \<lparr>o_kind = KMethod,
      o_size = sizeof_VMObject + 28 + int (length code) + int (length lits) * sizeof_pointer,
      o_fields = [methodClass v, sig, nilObject v, n + 2, n + 3, n + 1, n + 4, n + 5],
      o_slots = lits, o_data = CodeData code\<rparr>"

text \<open>The state after a method was allocated at \<open>n\<close>: six new objects.\<close>

definition methodAt :: "vm \<Rightarrow> ptr \<Rightarrow> string \<Rightarrow> u8 list \<Rightarrow> ptr list \<Rightarrow> int \<Rightarrow> int \<Rightarrow> vm \<Rightarrow> bool" where
  "methodAt v sig s code lits nl ms v' \<longleftrightarrow>
     (let n = nextPtr v in
      vm_rest v' = vm_rest v \<and> nextPtr v' = n + 6 \<and> symtab v' = symtab v \<and>
      rootTable v' = (rootTable v)(s \<mapsto> n) \<and>
      (\<forall>p. p < n \<longrightarrow> heap v' p = heap v p) \<and> (\<forall>p. n + 6 \<le> p \<longrightarrow> heap v' p = None) \<and>
      heap v' n = Some (methodObject v n sig code lits) \<and>
      intOf v' (n + 1) = Some (int (length code)) \<and> intOf v' (n + 2) = Some nl \<and>
      intOf v' (n + 3) = Some ms \<and> intOf v' (n + 4) = Some (int (GetNumberOfArguments s)) \<and>
      intOf v' (n + 5) = Some (int (length lits)))"

lemma NewMethod_run:
  assumes ok: "vm_ok v" and s: "strOf v sig = Some s"
  shows "\<exists>v'. NewMethod sig nb nc v = Inr (nextPtr v, v') \<and>
     methodAt v sig s (replicate nb 0) (replicate nc (nilObject v)) 0 0 v'"
proof -
  have sig: "sig < nextPtr v" using strOf_bound [OF ok s] by simp
  obtain ob t where ob: "heap v sig = Some ob" "o_data ob = StrData t" "cstr t = s"
    using s by (auto simp: strOf_def split: option.splits payload.splits)
  have fresh: "heap v p = None" if "nextPtr v \<le> p" for p
    using ok that by (rule vm_ok_fresh)
  show ?thesis
    using sig ob fresh
    by (simp add: vm_defs methodAt_def methodObject_def intOf_def newFields_def Let_def vm_rest_def
        invokableKinds_def numeral_eq_Suc)
qed


lemma vm_rest_heap [simp]: "vm_rest (w\<lparr>heap := h\<rparr>) = vm_rest w"
  by (simp add: vm_rest_def)

lemma methodAt_bound: "methodAt v sig s code lits nl ms w \<Longrightarrow> heap w (nextPtr v) = Some (methodObject v (nextPtr v) sig code lits)"
  by (simp add: methodAt_def Let_def)

lemma getMember_run:
  "heap w p = Some ob \<Longrightarrow> o_kind ob \<in> set ks \<Longrightarrow> i < length (o_fields ob) \<Longrightarrow>
     getMember ks i p w = Inr (o_fields ob ! i, w)"
  by (simp add: getMember_def derefAs_def deref_def)

lemma setInt:
  assumes "intOf w p = Some i"
  obtains w' where "SetEmbeddedInteger p k w = Inr ((), w')" "\<And>q. q \<noteq> p \<Longrightarrow> heap w' q = heap w q"
    "\<And>q. q \<noteq> p \<Longrightarrow> intOf w' q = intOf w q" "intOf w' p = Some k" "vm_rest w' = vm_rest w" "nextPtr w' = nextPtr w" "symtab w' = symtab w"
    "rootTable w' = rootTable w"
proof -
  obtain ob where ob: "heap w p = Some ob" "o_data ob = IntData i"
    using assms by (auto simp: intOf_def split: option.splits payload.splits)
  let ?w' = "w\<lparr>heap := (heap w)(p \<mapsto> ob\<lparr>o_data := IntData k\<rparr>)\<rparr>"
  have "SetEmbeddedInteger p k w = Inr ((), ?w')"
    by (simp add: SetEmbeddedInteger_def deref_def store_def ob)
  then show ?thesis by (rule that) (auto simp: intOf_def)
qed

lemma SetNumberOfLocals_run:
  assumes m: "methodAt v sig s code lits nl ms w"
  shows "\<exists>w'. SetNumberOfLocals (nextPtr v) k w = Inr ((), w') \<and> methodAt v sig s code lits k ms w'"
proof -
  have "intOf w (nextPtr v + 2) = Some nl" using m by (simp add: methodAt_def Let_def)
  then obtain w' where w': "SetEmbeddedInteger (nextPtr v + 2) k w = Inr ((), w')"
    "\<And>q. q \<noteq> nextPtr v + 2 \<Longrightarrow> heap w' q = heap w q"
    "\<And>q. q \<noteq> nextPtr v + 2 \<Longrightarrow> intOf w' q = intOf w q" "intOf w' (nextPtr v + 2) = Some k"
    "vm_rest w' = vm_rest w" "nextPtr w' = nextPtr w" "symtab w' = symtab w" "rootTable w' = rootTable w"
    by (rule setInt [of w _ _ k]) blast
  have "SetNumberOfLocals (nextPtr v) k w = Inr ((), w')"
    using w'(1) methodAt_bound [OF m]
    by (simp add: SetNumberOfLocals_def getMember_run methodObject_def numeral_eq_Suc)
  moreover have "methodAt v sig s code lits k ms w'"
    using m w'(2-) by (simp add: methodAt_def Let_def)
  ultimately show ?thesis by blast
qed

lemma SetMaximumNumberOfStackElements_run:
  assumes m: "methodAt v sig s code lits nl ms w"
  shows "\<exists>w'. SetMaximumNumberOfStackElements (nextPtr v) k w = Inr ((), w') \<and> methodAt v sig s code lits nl k w'"
proof -
  have "intOf w (nextPtr v + 3) = Some ms" using m by (simp add: methodAt_def Let_def)
  then obtain w' where w': "SetEmbeddedInteger (nextPtr v + 3) k w = Inr ((), w')"
    "\<And>q. q \<noteq> nextPtr v + 3 \<Longrightarrow> heap w' q = heap w q"
    "\<And>q. q \<noteq> nextPtr v + 3 \<Longrightarrow> intOf w' q = intOf w q" "intOf w' (nextPtr v + 3) = Some k"
    "vm_rest w' = vm_rest w" "nextPtr w' = nextPtr w" "symtab w' = symtab w" "rootTable w' = rootTable w"
    by (rule setInt [of w _ _ k]) blast
  have "SetMaximumNumberOfStackElements (nextPtr v) k w = Inr ((), w')"
    using w'(1) methodAt_bound [OF m]
    by (simp add: SetMaximumNumberOfStackElements_def getMember_run methodObject_def numeral_eq_Suc)
  moreover have "methodAt v sig s code lits nl k w'"
    using m w'(2-) by (simp add: methodAt_def Let_def)
  ultimately show ?thesis by blast
qed

lemma methodAt_update:
  assumes m: "methodAt v sig s code lits nl ms w"
    and "w' = w\<lparr>heap := (heap w)(nextPtr v \<mapsto> methodObject v (nextPtr v) sig code' lits')\<rparr>"
    and "length code' = length code" "length lits' = length lits"
  shows "methodAt v sig s code' lits' nl ms w'"
  using assms by (auto simp: methodAt_def Let_def intOf_def)

lemma SetIndexableField_run:
  assumes m: "methodAt v sig s code lits nl ms w" and i: "i < length lits"
  shows "\<exists>w'. SetIndexableField (nextPtr v) (int i) x w = Inr ((), w') \<and>
     methodAt v sig s code (lits[i := x]) nl ms w'"
proof -
  let ?w' = "w\<lparr>heap := (heap w)(nextPtr v \<mapsto> methodObject v (nextPtr v) sig code (lits[i := x]))\<rparr>"
  have n: "intOf w (nextPtr v + 5) = Some (int (length lits))"
    using m by (simp add: methodAt_def Let_def)
  have "NumberOfConstants (nextPtr v) w = Inr (int (length lits), w)"
    using methodAt_bound [OF m] n
    by (simp add: NumberOfConstants_def getMember_run GetEmbeddedInteger_run methodObject_def numeral_eq_Suc)
  then have "SetIndexableField (nextPtr v) (int i) x w = Inr ((), ?w')"
    using i methodAt_bound [OF m]
    by (simp add: SetIndexableField_def derefAs_def deref_def store_def methodObject_def)
  moreover have "methodAt v sig s code (lits[i := x]) nl ms ?w'"
    by (rule methodAt_update [OF m refl]) simp_all
  ultimately show ?thesis by blast
qed

lemma SetBytecode_run:
  assumes m: "methodAt v sig s code lits nl ms w" and i: "i < length code"
  shows "\<exists>w'. SetBytecode (nextPtr v) (int i) x w = Inr ((), w') \<and>
     methodAt v sig s (code[i := x]) lits nl ms w'"
proof -
  let ?w' = "w\<lparr>heap := (heap w)(nextPtr v \<mapsto> methodObject v (nextPtr v) sig (code[i := x]) lits)\<rparr>"
  have "SetBytecode (nextPtr v) (int i) x w = Inr ((), ?w')"
    using i methodAt_bound [OF m]
    by (simp add: SetBytecode_def derefAs_def deref_def store_def methodObject_def)
  moreover have "methodAt v sig s (code[i := x]) lits nl ms ?w'"
    by (rule methodAt_update [OF m refl]) simp_all
  ultimately show ?thesis by blast
qed

lemma take_update: "i < length xs \<Longrightarrow> length ys = length xs \<Longrightarrow>
   (take i xs @ drop i ys)[i := xs ! i] = take (Suc i) xs @ drop (Suc i) ys"
  by (simp add: list_update_append take_Suc_conv_app_nth Cons_nth_drop_Suc [symmetric])

lemma fill_literals:
  assumes m: "methodAt v sig s code l0 nl ms w" and len: "length l0 = length lits"
  shows "\<exists>w'. forE [0..<length lits] (\<lambda>i. SetIndexableField (nextPtr v) (int i) (ListGet NULL lits (int i))) w
     = Inr ((), w') \<and> methodAt v sig s code lits nl ms w'"
proof -
  let ?I = "\<lambda>i w. methodAt v sig s code (take i lits @ drop i l0) nl ms w"
  have "\<exists>w'. forE [0..<length lits] (\<lambda>i. SetIndexableField (nextPtr v) (int i) (ListGet NULL lits (int i))) w
     = Inr ((), w') \<and> ?I (length lits) w'"
  proof (rule forE_total)
    fix i w assume "i < length lits" "?I i w"
    with SetIndexableField_run [OF this(2), of i "lits ! i"] take_update [of i lits l0] len
    show "\<exists>w'. SetIndexableField (nextPtr v) (int i) (ListGet NULL lits (int i)) w = Inr ((), w') \<and> ?I (Suc i) w'"
      by (simp add: ListGet_int)
  qed (use m in simp_all)
  with len show ?thesis by simp
qed

lemma fill_code:
  assumes m: "methodAt v sig s c0 lits nl ms w" and len: "length c0 = length code"
  shows "\<exists>w'. forE [0..<length code] (\<lambda>i. SetBytecode (nextPtr v) (int i) (code ! i)) w
     = Inr ((), w') \<and> methodAt v sig s code lits nl ms w'"
proof -
  let ?I = "\<lambda>i w. methodAt v sig s (take i code @ drop i c0) lits nl ms w"
  have "\<exists>w'. forE [0..<length code] (\<lambda>i. SetBytecode (nextPtr v) (int i) (code ! i)) w
     = Inr ((), w') \<and> ?I (length code) w'"
  proof (rule forE_total)
    fix i w assume "i < length code" "?I i w"
    with SetBytecode_run [OF this(2), of i "code ! i"] take_update [of i code c0] len
    show "\<exists>w'. SetBytecode (nextPtr v) (int i) (code ! i) w = Inr ((), w') \<and> ?I (Suc i) w'"
      by simp
  qed (use m in simp_all)
  with len show ?thesis by simp
qed

lemma methodAt_grows:
  assumes ok: "vm_ok v" and m: "methodAt v sig s code lits nl ms w"
  shows "vm_le v w" "vm_ok w"
proof -
  have "heap v \<subseteq>\<^sub>m heap w"
    using ok m by (auto simp: map_le_def methodAt_def Let_def dest: vm_ok_bound)
  then show le: "vm_le v w" using m by (simp add: vm_le_def methodAt_def Let_def)
  have "heap w NULL = None"
    using ok m by (simp add: methodAt_def Let_def vm_ok_def)
  then show "vm_ok w"
    using ok m vm_le_symOf [OF le] by (auto simp: vm_ok_def methodAt_def Let_def)
qed

lemma depthStep_state: "depthStep code lits i d v = Inr (r, w) \<Longrightarrow> w = v"
  by (auto simp: depthStep_def GetStdString_def deref_def split: option.splits bytecode.splits if_splits
      payload.splits elim!: bindE_InrE)

lemma depthStep_fuel: "depthStep code lits i d v \<noteq> Inl OutOfFuel \<and>
    (depthStep code lits i d v = Inr (r, w) \<longrightarrow> i < fst r)"
  by (cases "strOf v (ListGet NULL lits (uint (code ! (i + 1))))")
    (auto simp: depthStep_def bindE_def GetStdString_run dest!: GetStdString_None
      split: option.splits bytecode.splits if_splits sum.splits)

lemma depthLoop_state:
  "depthLoop n code lits i d mx v = Inr (r, w) \<Longrightarrow> w = v"
  by (induction n arbitrary: i d mx)
    (auto split: if_splits elim!: bindE_InrE dest!: depthStep_state)

lemma depthLoop_fuel: "length code - i \<le> n \<Longrightarrow> depthLoop n code lits i d mx v \<noteq> Inl OutOfFuel"
proof (induction n arbitrary: i d mx)
  case (Suc n)
  show ?case
  proof (cases "depthStep code lits i d v")
    case (Inl e)
    with depthStep_fuel [of code lits i d v] show ?thesis by auto
  next
    case (Inr r)
    obtain p w where r: "r = (p, w)" by fastforce
    with Inr have "w = v" "i < fst p"
      using depthStep_state depthStep_fuel [of code lits i d v p w] by auto
    with Suc Inr r show ?thesis by simp
  qed
qed simp

lemma MethodAssemble_run:
  assumes ok: "vm_ok v" and s: "strOf v (m_signature m) = Some s"
  shows "MethodAssemble m v \<noteq> Inl OutOfFuel"
    and "MethodAssemble m v = Inr (p, w) \<Longrightarrow> p = nextPtr v \<and> vm_le v w \<and> vm_ok w \<and>
      (\<exists>depth v1. vm_le v v1 \<and> ComputeStackDepth m v1 = Inr (depth, v1) \<and>
        methodAt v (m_signature m) s (m_bytecode m) (m_literals m) (int (length (m_locals m))) (uint depth) w)"
proof -
  let ?n = "nextPtr v" and ?sig = "m_signature m"
  let ?L = "m_literals m" and ?C = "m_bytecode m" and ?nl = "int (length (m_locals m))"
  obtain v0 where v0: "NewMethod ?sig (length ?C) (length ?L) v = Inr (?n, v0)"
    "methodAt v ?sig s (replicate (length ?C) 0) (replicate (length ?L) (nilObject v)) 0 0 v0"
    using NewMethod_run [OF ok s] by blast
  obtain v1 where v1: "SetNumberOfLocals ?n ?nl v0 = Inr ((), v1)"
    "methodAt v ?sig s (replicate (length ?C) 0) (replicate (length ?L) (nilObject v)) ?nl 0 v1"
    using SetNumberOfLocals_run [OF v0(2)] by blast
  have le1: "vm_le v v1" by (rule methodAt_grows [OF ok v1(2)])
  have rest: "\<exists>w. MethodAssemble m v = Inr (?n, w) \<and>
      methodAt v ?sig s ?C ?L ?nl (uint depth) w"
    if "ComputeStackDepth m v1 = Inr (depth, v1)" for depth
  proof -
    obtain v2 where v2: "SetMaximumNumberOfStackElements ?n (uint depth) v1 = Inr ((), v2)"
      "methodAt v ?sig s (replicate (length ?C) 0) (replicate (length ?L) (nilObject v)) ?nl (uint depth) v2"
      using SetMaximumNumberOfStackElements_run [OF v1(2)] by blast
    obtain v3 where v3: "forE [0..<length ?L] (\<lambda>i. SetIndexableField ?n (int i) (ListGet NULL ?L (int i))) v2 = Inr ((), v3)"
      "methodAt v ?sig s (replicate (length ?C) 0) ?L ?nl (uint depth) v3"
      using fill_literals [OF v2(2)] by auto
    obtain v4 where v4: "forE [0..<length ?C] (\<lambda>i. SetBytecode ?n (int i) (?C ! i)) v3 = Inr ((), v4)"
      "methodAt v ?sig s ?C ?L ?nl (uint depth) v4"
      using fill_code [OF v3(2)] by auto
    show ?thesis
      using v0(1) v1(1) that v2(1) v3(1) v4 by (simp add: MethodAssemble_def Let_def ListSize_def)
  qed
  show "MethodAssemble m v \<noteq> Inl OutOfFuel"
  proof (cases "ComputeStackDepth m v1")
    case (Inl e)
    have "e \<noteq> OutOfFuel"
      using depthLoop_fuel [of ?C 0 "length ?C" ?L 0 0 v1] Inl by (simp add: ComputeStackDepth_def)
    with v0(1) v1(1) Inl show ?thesis by (simp add: MethodAssemble_def Let_def ListSize_def)
  next
    case (Inr r)
    then have "ComputeStackDepth m v1 = Inr (fst r, v1)"
      using depthLoop_state by (cases r) (auto simp: ComputeStackDepth_def)
    from rest [OF this] show ?thesis by auto
  qed
  assume run: "MethodAssemble m v = Inr (p, w)"
  show "p = ?n \<and> vm_le v w \<and> vm_ok w \<and> (\<exists>depth v1. vm_le v v1 \<and> ComputeStackDepth m v1 = Inr (depth, v1) \<and>
        methodAt v ?sig s ?C ?L ?nl (uint depth) w)"
  proof (cases "ComputeStackDepth m v1")
    case (Inl e)
    with v0(1) v1(1) run show ?thesis by (simp add: MethodAssemble_def Let_def ListSize_def)
  next
    case (Inr r)
    then have c: "ComputeStackDepth m v1 = Inr (fst r, v1)"
      using depthLoop_state by (cases r) (auto simp: ComputeStackDepth_def)
    from rest [OF c] run have "p = ?n" "methodAt v ?sig s ?C ?L ?nl (uint (fst r)) w" by auto
    with methodAt_grows [OF ok this(2)] le1 c show ?thesis by blast
  qed
qed


section \<open>Verified methods\<close>

definition isMethod :: "vm \<Rightarrow> ptr \<Rightarrow> bool" where
  "isMethod v q = (case heap v q of Some ob \<Rightarrow> o_kind ob = KMethod | None \<Rightarrow> False)"

text \<open>The operand bytes number literals, variables and contexts up to 256 of each.\<close>

definition fits :: "env \<Rightarrow> nat \<Rightarrow> bool" where
  "fits env n \<longleftrightarrow> length env \<le> 256 \<and> list_all (\<lambda>(l, a). l \<le> 256 \<and> a \<le> 256) env \<and> n \<le> 256"

text \<open>The body leaves one value for the return instruction that ends the code. A block without
  statements is the exception: its code is the return instruction alone. The stack size is the
  greatest depth of the body, cut off at 255, the last 8-bit number.\<close>

definition checks :: "env \<Rightarrow> (nat \<Rightarrow> lit option) \<Rightarrow> u8 list \<Rightarrow> int \<Rightarrow> bool" where
  "checks env lt code ms \<longleftrightarrow>
     code = [opcode BC_RETURN_LOCAL] \<and> ms = 0 \<or>
     (\<exists>body r mx. code = body @ [opcode r] \<and> (r = BC_RETURN_LOCAL \<or> r = BC_RETURN_NON_LOCAL) \<and>
        scan env lt body 0 = Some (1, mx) \<and> ms = int (min mx 255))"

text \<open>Code, literals, number of locals, of arguments, and stack size of a method object.\<close>

definition methodParts :: "vm \<Rightarrow> ptr \<Rightarrow> (u8 list \<times> ptr list \<times> nat \<times> nat \<times> int) option" where
  "methodParts v p =
     (case heap v p of
        None \<Rightarrow> None
      | Some ob \<Rightarrow>
          if o_kind ob = KMethod \<and> length (o_fields ob) = 8 then
            (case (o_data ob, intOf v (o_fields ob ! 3), intOf v (o_fields ob ! 6),
                   intOf v (o_fields ob ! 4), intOf v (o_fields ob ! 7)) of
               (CodeData code, Some nl, Some na, Some ms, Some nc) \<Rightarrow>
                 if nc = int (length (o_slots ob)) \<and> 0 \<le> nl \<and> 0 \<le> na
                 then Some (code, o_slots ob, nat nl, nat na, ms) else None
             | _ \<Rightarrow> None)
          else None)"

inductive verified :: "vm \<Rightarrow> env \<Rightarrow> ptr \<Rightarrow> bool" for v :: vm where
  "methodParts v p = Some (code, lits, nl, na, ms) \<Longrightarrow>
   (fits ((nl, na) # env) (length lits) \<longrightarrow> checks ((nl, na) # env) (litOf v lits) code ms) \<Longrightarrow>
   (\<And>q. q \<in> set lits \<Longrightarrow> heap v q \<noteq> None) \<Longrightarrow>
   (\<And>q. q \<in> set lits \<Longrightarrow> isMethod v q \<Longrightarrow> verified v ((nl, na) # env) q) \<Longrightarrow>
   verified v env p"

lemma litOf_mono:
  assumes "vm_le v v'" "litOf v lits i = Some l"
  shows "litOf v' (lits @ lits2) i = Some l"
proof -
  have i: "i < length lits" using assms(2) by (auto simp: litOf_def split: if_splits)
  obtain ob where ob: "heap v (lits ! i) = Some ob"
    using assms(2) by (auto simp: litOf_def symOf_def split: if_splits option.splits)
  then have "symOf v' (lits ! i) = symOf v (lits ! i)" "heap v' (lits ! i) = Some ob"
    using vm_le_heap [OF assms(1) ob] by (simp_all add: symOf_def)
  with i ob assms(2) show ?thesis by (simp add: litOf_def nth_append cong: option.case_cong)
qed

lemma litOf_le: "vm_le v v' \<Longrightarrow> litOf v lits i = Some l \<Longrightarrow> litOf v' lits i = Some l"
  using litOf_mono [of v v' lits i l "[]"] by simp

lemma methodParts_le: "vm_le v v' \<Longrightarrow> methodParts v p = Some x \<Longrightarrow> methodParts v' p = Some x"
proof -
  assume le: "vm_le v v'" and x: "methodParts v p = Some x"
  then obtain ob code nl na ms where parts: "heap v p = Some ob" "o_kind ob = KMethod"
    "length (o_fields ob) = 8" "o_data ob = CodeData code" "intOf v (o_fields ob ! 3) = Some nl"
    "intOf v (o_fields ob ! 6) = Some na" "intOf v (o_fields ob ! 4) = Some ms"
    "intOf v (o_fields ob ! 7) = Some (int (length (o_slots ob)))" "0 \<le> nl" "0 \<le> na"
    "x = (code, o_slots ob, nat nl, nat na, ms)"
    unfolding methodParts_def by (auto split: option.splits if_splits payload.splits)
  from vm_le_heap [OF le parts(1)] vm_le_intOf [OF le parts(5)] vm_le_intOf [OF le parts(6)]
    vm_le_intOf [OF le parts(7)] vm_le_intOf [OF le parts(8)] parts
  show "methodParts v' p = Some x" by (simp add: methodParts_def)
qed

lemma checks_mono:
  "checks env lt code ms \<Longrightarrow> (\<And>i l. lt i = Some l \<Longrightarrow> lt' i = Some l) \<Longrightarrow> checks env lt' code ms"
  unfolding checks_def by (blast intro: scan_mono)

lemma isMethod_le: "vm_le v v' \<Longrightarrow> heap v q \<noteq> None \<Longrightarrow> isMethod v' q = isMethod v q"
  by (auto simp: isMethod_def dest: vm_le_heap)

lemma verified_le:
  assumes "verified v env p" and le: "vm_le v v'"
  shows "verified v' env p"
  using assms(1)
proof (induction rule: verified.induct)
  case (1 p code lits nl na ms env)
  show ?case
  proof (rule verified.intros)
    show "methodParts v' p = Some (code, lits, nl, na, ms)" by (rule methodParts_le [OF le 1(1)])
    show "fits ((nl, na) # env) (length lits) \<longrightarrow> checks ((nl, na) # env) (litOf v' lits) code ms"
    proof
      assume "fits ((nl, na) # env) (length lits)"
      with 1(2) have "checks ((nl, na) # env) (litOf v lits) code ms" by simp
      then show "checks ((nl, na) # env) (litOf v' lits) code ms"
        by (rule checks_mono) (rule litOf_le [OF le])
    qed
  next
    fix q assume q: "q \<in> set lits"
    then show "heap v' q \<noteq> None" using 1(3) vm_le_heap [OF le] by blast
    assume "isMethod v' q"
    with q 1 show "verified v' ((nl, na) # env) q" using isMethod_le [OF le] by blast
  qed
qed

lemma methodAt_parts:
  "methodAt v sig s code lits (int nl) ms w \<Longrightarrow>
     methodParts w (nextPtr v) = Some (code, lits, nl, GetNumberOfArguments s, ms)"
  by (simp add: methodParts_def methodAt_def methodObject_def Let_def numeral_eq_Suc)

end
