(* ===== verification/ParserTokens.thy ===== *)
theory ParserTokens
  imports Parser Assembly
begin

text \<open>
  How the operations of the parser are specified (\<open>spec\<close>: no loop bound is exhausted, and
  initial and final state are related), and the specifications of its token level: reading,
  accepting and expecting a token, names and selectors. \<open>pm\<close> is the measure the loops of the
  grammar lower: the characters still to be read and the current token.
\<close>

section \<open>Specifications of parser operations\<close>

definition spec :: "(pstate \<Rightarrow> bool) \<Rightarrow> 'a PM \<Rightarrow> (pstate \<Rightarrow> 'a \<Rightarrow> pstate \<Rightarrow> bool) \<Rightarrow> bool" where
  "spec P m R \<longleftrightarrow>
     (\<forall>s. P s \<longrightarrow> (case m s of Inl e \<Rightarrow> e \<noteq> OutOfFuel | Inr r \<Rightarrow> R s (fst r) (snd r)))"

lemma specI:
  assumes "\<And>s. P s \<Longrightarrow> m s \<noteq> Inl OutOfFuel" "\<And>s x s'. P s \<Longrightarrow> m s = Inr (x, s') \<Longrightarrow> R s x s'"
  shows "spec P m R"
  unfolding spec_def
proof (intro allI impI)
  fix s assume "P s"
  with assms show "case m s of Inl e \<Rightarrow> e \<noteq> OutOfFuel | Inr r \<Rightarrow> R s (fst r) (snd r)"
    by (cases "m s") auto
qed

lemma spec_at:
  "spec P m R \<Longrightarrow> P s \<Longrightarrow> case m s of Inl e \<Rightarrow> e \<noteq> OutOfFuel | Inr r \<Rightarrow> R s (fst r) (snd r)"
  by (simp add: spec_def)

lemma specD: "spec P m R \<Longrightarrow> P s \<Longrightarrow> m s = Inr (x, s') \<Longrightarrow> R s x s'"
  unfolding spec_def by fastforce

lemma spec_fuel: "spec P m R \<Longrightarrow> P s \<Longrightarrow> m s \<noteq> Inl OutOfFuel"
  unfolding spec_def by fastforce

lemma spec_conseq:
  assumes "spec P m R" "\<And>s. P' s \<Longrightarrow> P s" "\<And>s x s'. P' s \<Longrightarrow> R s x s' \<Longrightarrow> R' s x s'"
  shows "spec P' m R'"
  using assms unfolding spec_def by (fastforce split: sum.splits)

lemma spec_pre: "spec P m R \<Longrightarrow> (\<And>s. P' s \<Longrightarrow> P s) \<Longrightarrow> spec P' m R"
  by (simp add: spec_def)

lemma spec_post: "spec P m R \<Longrightarrow> (\<And>s x s'. P s \<Longrightarrow> R s x s' \<Longrightarrow> R' s x s') \<Longrightarrow> spec P m R'"
  by (rule spec_conseq)

lemma spec_bind:
  assumes "spec P m Q"
    and "\<And>s0 x. P s0 \<Longrightarrow> spec (\<lambda>s1. Q s0 x s1) (f x) (\<lambda>_ y s2. R s0 y s2)"
  shows "spec P (bindE m f) R"
  using assms unfolding spec_def bindE_def by (fastforce split: sum.splits)

lemma spec_then:
  assumes "spec P m Q"
    and "\<And>s0 x. P s0 \<Longrightarrow> spec (\<lambda>s1. Q s0 x s1) k (\<lambda>_ y s2. R s0 y s2)"
  shows "spec P (thenE m k) R"
  unfolding thenE_def using assms by (rule spec_bind)

lemma spec_return: "(\<And>s. P s \<Longrightarrow> R s x s) \<Longrightarrow> spec P (returnE x) R"
  by (simp add: spec_def)

lemma spec_gets: "(\<And>s. P s \<Longrightarrow> R s (f s) s) \<Longrightarrow> spec P (getsE f) R"
  by (simp add: spec_def)

lemma spec_modify: "(\<And>s. P s \<Longrightarrow> R s () (f s)) \<Longrightarrow> spec P (modifyE f) R"
  by (simp add: spec_def)

lemma spec_throw: "e \<noteq> OutOfFuel \<Longrightarrow> spec P (throwE e) R"
  by (simp add: spec_def)

lemma spec_if:
  "(b \<Longrightarrow> spec P m R) \<Longrightarrow> (\<not> b \<Longrightarrow> spec P k R) \<Longrightarrow> spec P (if b then m else k) R"
  by simp

lemma spec_False: "(\<And>s. \<not> P s) \<Longrightarrow> spec P m R"
  by (simp add: spec_def)

text \<open>A loop whose test only looks at the state, with a relation its rounds compose to.\<close>

lemma spec_while:
  assumes cond: "\<And>s. I s \<Longrightarrow> b s = Inr (c s, s)"
    and body: "spec (\<lambda>s. I s \<and> c s \<and> f s < n) m (\<lambda>s _ s'. I s' \<and> R s s' \<and> f s' < f s)"
    and refl: "\<And>s. I s \<Longrightarrow> R s s" and trans: "\<And>s t u. R s t \<Longrightarrow> R t u \<Longrightarrow> R s u"
  shows "spec (\<lambda>s. I s \<and> f s < n) (whileM n b m) (\<lambda>s _ s'. I s' \<and> R s s' \<and> f s' \<le> f s \<and> \<not> c s')"
proof -
  have "spec (\<lambda>s. I s \<and> f s < k \<and> f s < n) (whileM k b m) (\<lambda>s _ s'. I s' \<and> R s s' \<and> f s' \<le> f s \<and> \<not> c s')" for k
  proof (induction k)
    case 0
    show ?case by (simp add: spec_False)
  next
    case (Suc k)
    show ?case
      unfolding spec_def
    proof (intro allI impI)
      fix s assume s: "I s \<and> f s < Suc k \<and> f s < n"
      show "case whileM (Suc k) b m s of Inl e \<Rightarrow> e \<noteq> OutOfFuel
         | Inr r \<Rightarrow> I (snd r) \<and> R s (snd r) \<and> f (snd r) \<le> f s \<and> \<not> c (snd r)"
      proof (cases "c s")
        case False
        with s refl show ?thesis by (simp add: cond)
      next
        case True
        with s body have b: "case m s of Inl e \<Rightarrow> e \<noteq> OutOfFuel | Inr r \<Rightarrow> I (snd r) \<and> R s (snd r) \<and> f (snd r) < f s"
          unfolding spec_def by blast
        show ?thesis
        proof (cases "m s")
          case (Inl e)
          with b True s show ?thesis by (simp add: cond)
        next
          case (Inr r)
          with b s have r: "I (snd r)" "R s (snd r)" "f (snd r) < f s" "f (snd r) < k" "f (snd r) < n" by auto
          from Suc.IH r have "case whileM k b m (snd r) of Inl e \<Rightarrow> e \<noteq> OutOfFuel
             | Inr q \<Rightarrow> I (snd q) \<and> R (snd r) (snd q) \<and> f (snd q) \<le> f (snd r) \<and> \<not> c (snd q)"
            unfolding spec_def by blast
          with Inr True s r trans show ?thesis by (auto simp: cond split: sum.splits)
        qed
      qed
    qed
  qed
  from this [of n] show ?thesis by simp
qed

lemma fine_at:
  "fine P m Q \<Longrightarrow> P s \<Longrightarrow> case m s of Inl e \<Rightarrow> e \<noteq> OutOfFuel | Inr r \<Rightarrow> Q (fst r) (snd r)"
  by (simp add: fine_def)

section \<open>Tokens\<close>

definition pm :: "pstate \<Rightarrow> nat" where
  "pm s = lx_measure (p_lexer s) + (if p_sym s = NONE then 0 else 1)"

definition pok :: "pstate \<Rightarrow> bool" where
  "pok s \<longleftrightarrow> vm_ok (p_vm s) \<and> lexer_ok (p_lexer s) \<and> token_ok (p_sym s) (p_text s) \<and>
     cstr (p_text s) = p_text s"

definition same :: "pstate \<Rightarrow> pstate \<Rightarrow> bool" where
  "same s s' \<longleftrightarrow> p_ctxs s' = p_ctxs s \<and> p_cgenc s' = p_cgenc s \<and> p_vm s' = p_vm s"

lemma GETSYM_spec:
  "spec pok GETSYM (\<lambda>s _ s'. pok s' \<and> same s s' \<and> pm s' \<le> pm s \<and> (p_sym s \<noteq> NONE \<longrightarrow> pm s' < pm s))"
proof (rule specI)
  fix s assume s: "pok s"
  then have l: "lexer_ok (p_lexer s)" by (simp add: pok_def)
  have F: "case GetSym (p_lexer s) of Inl e \<Rightarrow> e \<noteq> OutOfFuel | Inr r \<Rightarrow> lexer_ok (snd r) \<and> fst r = lx_sym (snd r) \<and>
      lx_measure (snd r) \<le> lx_measure (p_lexer s) \<and> \<not> lx_peekDone (snd r) \<and> (fst r \<noteq> NONE \<longrightarrow> lx_measure (snd r) < lx_measure (p_lexer s))"
    using GetSym_progress [of "lx_measure (p_lexer s)"] l unfolding fine_def by blast
  show "GETSYM s \<noteq> Inl OutOfFuel"
    using F by (cases "GetSym (p_lexer s)") (auto simp: GETSYM_def lexM_def liftE_def bindE_def)
  fix x s' assume run: "GETSYM s = Inr (x, s')"
  show "pok s' \<and> same s s' \<and> pm s' \<le> pm s \<and> (p_sym s \<noteq> NONE \<longrightarrow> pm s' < pm s)"
  proof (cases "GetSym (p_lexer s)")
    case (Inl e)
    with run show ?thesis by (simp add: GETSYM_def lexM_def liftE_def bindE_def)
  next
    case (Inr r)
    with run have s': "s' = s\<lparr>p_lexer := snd r, p_sym := fst r, p_text := GetText (snd r)\<rparr>"
      by (simp add: GETSYM_def lexM_def liftE_def bindE_def)
    have t: "token_ok (fst r) (GetText (snd r))"
      using F Inr by (auto simp: lexer_ok_def GetText_def token_ok_cstr)
    show ?thesis
      using s F Inr t by (auto simp: s' pok_def same_def pm_def GetText_def)
  qed
qed

lemma PEEK_spec:
  "spec pok PEEK (\<lambda>s _ s'. pok s' \<and> same s s' \<and> pm s' \<le> pm s \<and> p_sym s' = p_sym s \<and> p_text s' = p_text s)"
proof (rule specI)
  fix s assume s: "pok s"
  then have l: "lexer_ok (p_lexer s)" by (simp add: pok_def)
  have F: "case Peek (p_lexer s) of Inl e \<Rightarrow> e \<noteq> OutOfFuel | Inr r \<Rightarrow> lexer_ok (snd r) \<and>
      lx_measure (snd r) \<le> lx_measure (p_lexer s)"
    using fine_at [OF Peek_progress, of "p_lexer s" "lx_measure (p_lexer s)" "lx_sym (p_lexer s)" "GetText (p_lexer s)"] l
    by (cases "Peek (p_lexer s)") simp_all
  show "PEEK s \<noteq> Inl OutOfFuel"
    using F by (cases "Peek (p_lexer s)") (auto simp: PEEK_def lexM_def liftE_def bindE_def)
  fix x s' assume run: "PEEK s = Inr (x, s')"
  show "pok s' \<and> same s s' \<and> pm s' \<le> pm s \<and> p_sym s' = p_sym s \<and> p_text s' = p_text s"
    using F run s by (cases "Peek (p_lexer s)") (auto simp: PEEK_def lexM_def liftE_def bindE_def pok_def same_def pm_def)
qed

lemma accept_run:
  "accept x s = (if p_sym s = x
     then (case GETSYM s of Inl e \<Rightarrow> Inl e | Inr r \<Rightarrow> Inr (True, snd r)) else Inr (False, s))"
  by (simp add: accept_def sym_def bindE_def thenE_def split: sum.split)

lemma accept_spec:
  "spec pok (accept x) (\<lambda>s b s'. pok s' \<and> same s s' \<and> pm s' \<le> pm s \<and> b = (p_sym s = x) \<and>
     (b \<longrightarrow> x \<noteq> NONE \<longrightarrow> pm s' < pm s) \<and> (\<not> b \<longrightarrow> s' = s))"
  unfolding spec_def
proof (intro allI impI)
  fix s assume s: "pok s"
  note g = spec_at [OF GETSYM_spec s]
  show "case accept x s of Inl e \<Rightarrow> e \<noteq> OutOfFuel | Inr r \<Rightarrow> pok (snd r) \<and> same s (snd r) \<and>
     pm (snd r) \<le> pm s \<and> fst r = (p_sym s = x) \<and> (fst r \<longrightarrow> x \<noteq> NONE \<longrightarrow> pm (snd r) < pm s) \<and>
     (\<not> fst r \<longrightarrow> snd r = s)"
  proof (cases "p_sym s = x")
    case True
    with g show ?thesis by (cases "GETSYM s") (simp_all add: accept_run)
  next
    case False
    with s show ?thesis by (simp add: accept_run same_def)
  qed
qed

lemma expect_spec:
  "spec pok (expect x) (\<lambda>s b s'. pok s' \<and> same s s' \<and> pm s' \<le> pm s \<and> b = (p_sym s = x) \<and>
     (b \<longrightarrow> x \<noteq> NONE \<longrightarrow> pm s' < pm s) \<and> (\<not> b \<longrightarrow> p_sym s' = p_sym s \<and> p_text s' = p_text s))"
  unfolding expect_def
proof (rule spec_bind [OF accept_spec], rule spec_if)
  fix s0 b assume "b"
  then show "spec (\<lambda>s1. pok s1 \<and> same s0 s1 \<and> pm s1 \<le> pm s0 \<and> b = (p_sym s0 = x) \<and> (b \<longrightarrow> x \<noteq> NONE \<longrightarrow> pm s1 < pm s0) \<and> (\<not> b \<longrightarrow> s1 = s0))
     (returnE True) (\<lambda>_ b s'. pok s' \<and> same s0 s' \<and> pm s' \<le> pm s0 \<and> b = (p_sym s0 = x) \<and>
     (b \<longrightarrow> x \<noteq> NONE \<longrightarrow> pm s' < pm s0) \<and> (\<not> b \<longrightarrow> p_sym s' = p_sym s0 \<and> p_text s' = p_text s0))"
    by (intro spec_return) simp
next
  fix s0 b assume "\<not> b"
  then show "spec (\<lambda>s1. pok s1 \<and> same s0 s1 \<and> pm s1 \<le> pm s0 \<and> b = (p_sym s0 = x) \<and> (b \<longrightarrow> x \<noteq> NONE \<longrightarrow> pm s1 < pm s0) \<and> (\<not> b \<longrightarrow> s1 = s0))
     (thenE (parseError [x]) (returnE False)) (\<lambda>_ b s'. pok s' \<and> same s0 s' \<and> pm s' \<le> pm s0 \<and> b = (p_sym s0 = x) \<and>
     (b \<longrightarrow> x \<noteq> NONE \<longrightarrow> pm s' < pm s0) \<and> (\<not> b \<longrightarrow> p_sym s' = p_sym s0 \<and> p_text s' = p_text s0))"
    by (simp add: spec_def parseError_def same_def pok_def pm_def)
qed

fun syms :: "Symbol list \<Rightarrow> Symbol list" where
  "syms [] = []"
| "syms (x # xs) = (if x = NONE then [] else x # syms xs)"

lemma symIn_run: "NONE \<in> set ss \<Longrightarrow> symIn ss s = Inr (p_sym s \<in> set (syms ss), s)"
  by (induction ss) (auto simp: sym_def)

lemma symIn_fuel: "symIn ss s \<noteq> Inl OutOfFuel \<and> (symIn ss s = Inr (b, s') \<longrightarrow> s' = s \<and> (b \<longrightarrow> p_sym s \<in> set (syms ss)))"
  by (induction ss) (auto simp: sym_def)

lemma syms_NONE: "NONE \<notin> set (syms ss)"
  by (induction ss) auto

lemma acceptOneOf_spec:
  "spec pok (acceptOneOf ss) (\<lambda>s b s'. pok s' \<and> same s s' \<and> pm s' \<le> pm s \<and>
     (NONE \<in> set ss \<longrightarrow> b = (p_sym s \<in> set (syms ss))) \<and> (b \<longrightarrow> pm s' < pm s) \<and> (\<not> b \<longrightarrow> s' = s))"
  unfolding acceptOneOf_def
proof (rule spec_bind [where Q = "\<lambda>s b s'. s' = s \<and> (b \<longrightarrow> p_sym s \<in> set (syms ss)) \<and>
     (NONE \<in> set ss \<longrightarrow> b = (p_sym s \<in> set (syms ss)))"])
  show "spec pok (symIn ss) (\<lambda>s b s'. s' = s \<and> (b \<longrightarrow> p_sym s \<in> set (syms ss)) \<and>
     (NONE \<in> set ss \<longrightarrow> b = (p_sym s \<in> set (syms ss))))"
  proof (rule specI)
    fix s show "symIn ss s \<noteq> Inl OutOfFuel" using symIn_fuel by blast
    fix b s' assume "symIn ss s = Inr (b, s')"
    with symIn_fuel [of ss s b s'] symIn_run [of ss s]
    show "s' = s \<and> (b \<longrightarrow> p_sym s \<in> set (syms ss)) \<and> (NONE \<in> set ss \<longrightarrow> b = (p_sym s \<in> set (syms ss)))"
      by auto
  qed
  fix s0 b assume s0: "pok s0"
  have n: "p_sym s0 \<noteq> NONE" if "p_sym s0 \<in> set (syms ss)"
    using syms_NONE [of ss] that by auto
  note g = spec_at [OF GETSYM_spec s0]
  show "spec (\<lambda>s1. s1 = s0 \<and> (b \<longrightarrow> p_sym s0 \<in> set (syms ss)) \<and> (NONE \<in> set ss \<longrightarrow> b = (p_sym s0 \<in> set (syms ss))))
     (if b then thenE GETSYM (returnE True) else returnE False)
     (\<lambda>_ b s'. pok s' \<and> same s0 s' \<and> pm s' \<le> pm s0 \<and> (NONE \<in> set ss \<longrightarrow> b = (p_sym s0 \<in> set (syms ss))) \<and>
       (b \<longrightarrow> pm s' < pm s0) \<and> (\<not> b \<longrightarrow> s' = s0))"
  proof (cases b)
    case True
    show ?thesis
      unfolding spec_def
    proof (intro allI impI, elim conjE)
      fix s1 assume "s1 = s0" "b \<longrightarrow> p_sym s0 \<in> set (syms ss)"
        "NONE \<in> set ss \<longrightarrow> b = (p_sym s0 \<in> set (syms ss))"
      with True g n show "case (if b then thenE GETSYM (returnE True) else returnE False) s1 of
         Inl e \<Rightarrow> e \<noteq> OutOfFuel | Inr r \<Rightarrow> pok (snd r) \<and> same s0 (snd r) \<and> pm (snd r) \<le> pm s0 \<and>
         (NONE \<in> set ss \<longrightarrow> fst r = (p_sym s0 \<in> set (syms ss))) \<and> (fst r \<longrightarrow> pm (snd r) < pm s0) \<and> (\<not> fst r \<longrightarrow> snd r = s0)"
        by (cases "GETSYM s0") simp_all
    qed
  next
    case False
    with s0 show ?thesis by (simp add: spec_def same_def)
  qed
qed

section \<open>Symbols and growth of the virtual machine state\<close>

text \<open>\<open>grows\<close>: the code under construction is the same, the heap may have grown.\<close>

definition grows :: "pstate \<Rightarrow> pstate \<Rightarrow> bool" where
  "grows s s' \<longleftrightarrow> pok s' \<and> vm_le (p_vm s) (p_vm s') \<and> p_ctxs s' = p_ctxs s \<and>
     p_cgenc s' = p_cgenc s \<and> pm s' \<le> pm s"

lemma same_grows: "pok s' \<Longrightarrow> same s s' \<Longrightarrow> pm s' \<le> pm s \<Longrightarrow> grows s s'"
  by (simp add: grows_def same_def)

lemma grows_refl: "pok s \<Longrightarrow> grows s s"
  by (simp add: grows_def)

lemma grows_trans: "grows s t \<Longrightarrow> grows t u \<Longrightarrow> grows s u"
  unfolding grows_def using vm_le_trans le_trans by metis

lemma grows_pok: "grows s s' \<Longrightarrow> pok s'"
  by (simp add: grows_def)

lemma grows_pm: "grows s s' \<Longrightarrow> pm s' \<le> pm s"
  by (simp add: grows_def)

text \<open>An operation on the virtual machine alone.\<close>

lemma vmM_spec:
  assumes "\<And>v. vm_ok v \<Longrightarrow> Q v \<Longrightarrow> m v \<noteq> Inl OutOfFuel"
    and "\<And>v p v'. vm_ok v \<Longrightarrow> Q v \<Longrightarrow> m v = Inr (p, v') \<Longrightarrow> vm_le v v' \<and> vm_ok v' \<and> R v p v'"
  shows "spec (\<lambda>s. pok s \<and> Q (p_vm s)) (vmM m)
     (\<lambda>s p s'. grows s s' \<and> pm s' = pm s \<and> p_sym s' = p_sym s \<and> p_text s' = p_text s \<and> R (p_vm s) p (p_vm s'))"
proof (rule specI)
  fix s assume s: "pok s \<and> Q (p_vm s)"
  then have ok: "vm_ok (p_vm s)" by (simp add: pok_def)
  show "vmM m s \<noteq> Inl OutOfFuel"
    using assms(1) [OF ok] s by (auto simp: vmM_def liftE_def split: sum.splits)
  fix p s' assume "vmM m s = Inr (p, s')"
  then obtain v' where r: "m (p_vm s) = Inr (p, v')" "s' = s\<lparr>p_vm := v'\<rparr>"
    by (auto simp: vmM_def liftE_def split: sum.splits)
  from assms(2) [OF ok _ r(1)] s r(2)
  show "grows s s' \<and> pm s' = pm s \<and> p_sym s' = p_sym s \<and> p_text s' = p_text s \<and> R (p_vm s) p (p_vm s')"
    by (simp add: grows_def pok_def pm_def)
qed

lemma SymbolFor_spec:
  "spec pok (vmM (SymbolFor t)) (\<lambda>s p s'. grows s s' \<and> pm s' = pm s \<and> p_sym s' = p_sym s \<and>
     p_text s' = p_text s \<and> symOf (p_vm s') p = Some (cstr t))"
proof -
  have "spec (\<lambda>s. pok s \<and> True) (vmM (SymbolFor t)) (\<lambda>s p s'. grows s s' \<and> pm s' = pm s \<and> p_sym s' = p_sym s \<and>
     p_text s' = p_text s \<and> symOf (p_vm s') p = Some (cstr t))"
  proof (rule vmM_spec)
    fix v assume "vm_ok v" from SymbolFor_run [OF this, of t] show "SymbolFor t v \<noteq> Inl OutOfFuel" by auto
  next
    fix v p v' assume "vm_ok v" "SymbolFor t v = Inr (p, v')"
    with SymbolFor_run [OF this(1), of t] show "vm_le v v' \<and> vm_ok v' \<and> symOf v' p = Some (cstr t)" by auto
  qed
  then show ?thesis by simp
qed

lemma NewInteger_spec:
  "spec pok (vmM (NewInteger k)) (\<lambda>s p s'. grows s s' \<and> pm s' = pm s \<and>
     heap (p_vm s') p \<noteq> None \<and> \<not> isMethod (p_vm s') p)"
proof -
  have "spec (\<lambda>s. pok s \<and> True) (vmM (NewInteger k)) (\<lambda>s p s'. grows s s' \<and> pm s' = pm s \<and> p_sym s' = p_sym s \<and>
     p_text s' = p_text s \<and> (heap (p_vm s') p \<noteq> None \<and> \<not> isMethod (p_vm s') p))"
  proof (rule vmM_spec)
    fix v show "NewInteger k v \<noteq> Inl OutOfFuel" by (simp add: NewInteger_def allocate_def)
    fix p v' assume ok: "vm_ok v" and run: "NewInteger k v = Inr (p, v')"
    have v': "v' = v\<lparr>heap := (heap v)(nextPtr v \<mapsto> \<lparr>o_kind = KInteger, o_size = sizeof_VMObject + 4,
       o_fields = [integerClass v], o_slots = [], o_data = IntData k\<rparr>), nextPtr := nextPtr v + 1\<rparr>" and p: "p = nextPtr v"
      using run by (auto simp: NewInteger_def allocate_def)
    from vm_le_alloc1 [OF ok v']
    show "vm_le v v' \<and> vm_ok v' \<and> (heap v' p \<noteq> None \<and> \<not> isMethod v' p)"
      by (simp add: p v' isMethod_def)
  qed
  then show ?thesis by (rule spec_conseq) auto
qed

lemma NewString_spec:
  "spec pok (vmM (NewString t)) (\<lambda>s p s'. grows s s' \<and> pm s' = pm s \<and>
     heap (p_vm s') p \<noteq> None \<and> \<not> isMethod (p_vm s') p)"
proof -
  have "spec (\<lambda>s. pok s \<and> True) (vmM (NewString t)) (\<lambda>s p s'. grows s s' \<and> pm s' = pm s \<and> p_sym s' = p_sym s \<and>
     p_text s' = p_text s \<and> (heap (p_vm s') p \<noteq> None \<and> \<not> isMethod (p_vm s') p))"
  proof (rule vmM_spec)
    fix v show "NewString t v \<noteq> Inl OutOfFuel" by (simp add: NewString_def allocate_def)
    fix p v' assume ok: "vm_ok v" and run: "NewString t v = Inr (p, v')"
    have v': "v' = v\<lparr>heap := (heap v)(nextPtr v \<mapsto> \<lparr>o_kind = KString,
       o_size = sizeof_VMString + int (length (cstr t)) + 1,
       o_fields = [stringClass v], o_slots = [], o_data = StrData (cstr t)\<rparr>), nextPtr := nextPtr v + 1\<rparr>" and p: "p = nextPtr v"
      using run by (auto simp: NewString_def allocate_def)
    from vm_le_alloc1 [OF ok v']
    show "vm_le v v' \<and> vm_ok v' \<and> (heap v' p \<noteq> None \<and> \<not> isMethod v' p)"
      by (simp add: p v' isMethod_def)
  qed
  then show ?thesis by (rule spec_conseq) auto
qed

text \<open>\<open>spec_grows\<close>: sequencing when both parts only grow the state.\<close>

lemma textM_spec: "spec P textM (\<lambda>s t s'. s' = s \<and> t = p_text s)"
  by (simp add: textM_def spec_gets)

lemma sym_spec: "spec P sym (\<lambda>s x s'. s' = s \<and> x = p_sym s)"
  by (simp add: sym_def spec_gets)

lemma spec_sym:
  "(\<And>x. spec (\<lambda>s. P s \<and> p_sym s = x) (f x) R) \<Longrightarrow> spec P (bindE sym f) R"
  by (simp add: spec_def sym_def bindE_def)

lemma spec_text:
  "(\<And>x. spec (\<lambda>s. P s \<and> p_text s = x) (f x) R) \<Longrightarrow> spec P (bindE textM f) R"
  by (simp add: spec_def textM_def bindE_def)

lemma spec_getsb:
  "(\<And>x. spec (\<lambda>s. P s \<and> g s = x) (f x) R) \<Longrightarrow> spec P (bindE (getsE g) f) R"
  by (simp add: spec_def bindE_def)

lemma identifierM_spec:
  "spec pok identifierM (\<lambda>s t s'. pok s' \<and> same s s' \<and> pm s' \<le> pm s \<and> t = p_text s \<and>
     (p_sym s = Identifier \<longrightarrow> pm s' < pm s))"
  unfolding identifierM_def
proof (rule spec_text, rule spec_bind)
  fix x show "spec (\<lambda>s. pok s \<and> p_text s = x) (accept Primitive) (\<lambda>s b s'. pok s' \<and> same s s' \<and> pm s' \<le> pm s \<and> b = (p_sym s = Primitive) \<and> (\<not> b \<longrightarrow> s' = s))"
    by (rule spec_conseq [OF accept_spec]) auto
  fix s0 b assume "pok s0 \<and> p_text s0 = x"
  then show "spec (\<lambda>s'. pok s' \<and> same s0 s' \<and> pm s' \<le> pm s0 \<and> b = (p_sym s0 = Primitive) \<and> (\<not> b \<longrightarrow> s' = s0))
     (if b then returnE x else thenE (expect Identifier) (returnE x))
     (\<lambda>_ t s'. pok s' \<and> same s0 s' \<and> pm s' \<le> pm s0 \<and> t = p_text s0 \<and> (p_sym s0 = Identifier \<longrightarrow> pm s' < pm s0))"
    by (intro spec_if spec_return spec_then [OF spec_conseq [OF expect_spec, where P' = "(=) s0"], THEN spec_conseq]) auto
qed

lemma variable_spec:
  "spec pok variable (\<lambda>s t s'. pok s' \<and> same s s' \<and> pm s' \<le> pm s \<and> t = p_text s \<and>
     (p_sym s = Identifier \<longrightarrow> pm s' < pm s))"
  unfolding variable_def by (rule identifierM_spec)

lemma expectText_spec:
  assumes "x \<noteq> NONE"
  shows "spec pok (bindE textM (\<lambda>t. thenE (expect x) (returnE t))) (\<lambda>s t s'. pok s' \<and> same s s' \<and> pm s' \<le> pm s \<and>
     t = p_text s \<and> (p_sym s = x \<longrightarrow> pm s' < pm s))"
  by (rule spec_text, rule spec_then [OF spec_pre [OF expect_spec]], simp, rule spec_return)
    (use assms in auto)


lemma keywordM_spec:
  "spec pok keywordM (\<lambda>s t s'. pok s' \<and> same s s' \<and> pm s' \<le> pm s \<and>
     t = p_text s \<and> (p_sym s = Keyword \<longrightarrow> pm s' < pm s))"
  unfolding keywordM_def by (rule expectText_spec) simp

lemma stringM_spec:
  "spec pok stringM (\<lambda>s t s'. pok s' \<and> same s s' \<and> pm s' \<le> pm s \<and>
     t = p_text s \<and> (p_sym s = STString \<longrightarrow> pm s' < pm s))"
  unfolding stringM_def by (rule expectText_spec) simp

text \<open>\<open>selects s p s'\<close>: the operation returned the symbol of the current token's text.\<close>

definition selects :: "pstate \<Rightarrow> ptr \<Rightarrow> pstate \<Rightarrow> bool" where
  "selects s p s' \<longleftrightarrow> grows s s' \<and> symOf (p_vm s') p = Some (p_text s)"

lemma SymbolFor_selects:
  "pok s0 \<Longrightarrow> spec (\<lambda>s1. pok s1 \<and> same s0 s1 \<and> pm s1 \<le> pm s0 \<and> Q s1) (vmM (SymbolFor (p_text s0)))
     (\<lambda>s1 p s2. selects s0 p s2 \<and> pm s2 = pm s1)"
  by (rule spec_conseq [OF SymbolFor_spec])
    (auto simp: selects_def grows_def same_def pok_def)

lemma unarySelector_spec:
  "spec pok unarySelector (\<lambda>s p s'. selects s p s' \<and> (p_sym s = Identifier \<longrightarrow> pm s' < pm s))"
  unfolding unarySelector_def
proof (rule spec_bind [OF identifierM_spec])
  fix s0 x assume s0: "pok s0"
  show "spec (\<lambda>s1. pok s1 \<and> same s0 s1 \<and> pm s1 \<le> pm s0 \<and> x = p_text s0 \<and> (p_sym s0 = Identifier \<longrightarrow> pm s1 < pm s0))
     (vmM (SymbolFor x)) (\<lambda>_ p s'. selects s0 p s' \<and> (p_sym s0 = Identifier \<longrightarrow> pm s' < pm s0))"
  proof (cases "x = p_text s0")
    case True
    show ?thesis unfolding True
      by (rule spec_conseq [OF SymbolFor_selects [OF s0]]) auto
  qed (simp add: spec_def)
qed

text \<open>A chain of alternatives each of which leaves the state alone when it fails.\<close>

lemma orElse_spec:
  assumes "spec pok m (\<lambda>s b s'. pok s' \<and> same s s' \<and> pm s' \<le> pm s \<and> (p_sym s \<in> A \<longrightarrow> b) \<and> (b \<longrightarrow> pm s' < pm s) \<and> (\<not> b \<longrightarrow> s' = s))"
    and "spec pok k (\<lambda>s b s'. pok s' \<and> same s s' \<and> pm s' \<le> pm s \<and> (p_sym s \<in> B \<longrightarrow> pm s' < pm s))"
  shows "spec pok (orElse m k) (\<lambda>s b s'. pok s' \<and> same s s' \<and> pm s' \<le> pm s \<and> (p_sym s \<in> A \<union> B \<longrightarrow> pm s' < pm s))"
  unfolding orElse_def
proof (rule spec_bind [OF assms(1)])
  fix s0 b assume s0: "pok s0"
  show "spec (\<lambda>s1. pok s1 \<and> same s0 s1 \<and> pm s1 \<le> pm s0 \<and> (p_sym s0 \<in> A \<longrightarrow> b) \<and> (b \<longrightarrow> pm s1 < pm s0) \<and> (\<not> b \<longrightarrow> s1 = s0))
     (if b then returnE True else k)
     (\<lambda>_ b s'. pok s' \<and> same s0 s' \<and> pm s' \<le> pm s0 \<and> (p_sym s0 \<in> A \<union> B \<longrightarrow> pm s' < pm s0))"
  proof (cases b)
    case True
    then show ?thesis by (auto intro: spec_return)
  next
    case False
    then show ?thesis by (auto intro: spec_conseq [OF assms(2)])
  qed
qed

lemma accept_alt:
  "x \<noteq> NONE \<Longrightarrow> spec pok (accept x) (\<lambda>s b s'. pok s' \<and> same s s' \<and> pm s' \<le> pm s \<and> (p_sym s \<in> {x} \<longrightarrow> b) \<and>
     (b \<longrightarrow> pm s' < pm s) \<and> (\<not> b \<longrightarrow> s' = s))"
  by (rule spec_post [OF accept_spec]) auto

lemma acceptOneOf_alt:
  "NONE \<in> set ss \<Longrightarrow> spec pok (acceptOneOf ss) (\<lambda>s b s'. pok s' \<and> same s s' \<and> pm s' \<le> pm s \<and>
     (p_sym s \<in> set (syms ss) \<longrightarrow> b) \<and> (b \<longrightarrow> pm s' < pm s) \<and> (\<not> b \<longrightarrow> s' = s))"
  by (rule spec_post [OF acceptOneOf_spec]) auto

definition binSyms :: "Symbol set" where
  "binSyms = {OperatorSequence, Minus} \<union> snd ` set single_ops"

lemma binSyms_eq: "binSyms = {Or} \<union> ({Comma} \<union> ({Minus} \<union> ({Equal} \<union> (set (syms singleOpSyms) \<union> ({OperatorSequence} \<union> {})))))"
  by (auto simp: binSyms_def single_ops_def singleOpSyms_def)

lemma binarySelector_spec:
  "spec pok binarySelector (\<lambda>s p s'. selects s p s' \<and> (p_sym s \<in> binSyms \<longrightarrow> pm s' < pm s))"
proof -
  have e: "spec pok (expect NONE) (\<lambda>s b s'. pok s' \<and> same s s' \<and> pm s' \<le> pm s \<and> (p_sym s \<in> {} \<longrightarrow> pm s' < pm s))"
    by (rule spec_post [OF expect_spec]) auto
  have chain: "spec pok (orElse (accept Or) (orElse (accept Comma) (orElse (accept Minus)
           (orElse (accept Equal) (orElse (acceptOneOf singleOpSyms)
           (orElse (accept OperatorSequence) (expect NONE)))))))
     (\<lambda>s b s'. pok s' \<and> same s s' \<and> pm s' \<le> pm s \<and> (p_sym s \<in> binSyms \<longrightarrow> pm s' < pm s))"
    unfolding binSyms_eq
    by (intro orElse_spec accept_alt acceptOneOf_alt e) (simp_all add: singleOpSyms_def)
  show ?thesis
    unfolding binarySelector_def
  proof (rule spec_text, rule spec_then [OF spec_pre [OF chain]], simp)
    fix x s0 b assume s0: "pok s0 \<and> p_text s0 = x"
    then show "spec (\<lambda>s1. pok s1 \<and> same s0 s1 \<and> pm s1 \<le> pm s0 \<and> (p_sym s0 \<in> binSyms \<longrightarrow> pm s1 < pm s0))
     (vmM (SymbolFor x)) (\<lambda>_ p s'. selects s0 p s' \<and> (p_sym s0 \<in> binSyms \<longrightarrow> pm s' < pm s0))"
      using SymbolFor_selects [of s0] by (auto intro: spec_conseq [OF SymbolFor_selects [of s0]])
  qed
qed

lemma expectOneOf_spec:
  "spec pok (expectOneOf ss) (\<lambda>s b s'. pok s' \<and> same s s' \<and> pm s' \<le> pm s)"
  unfolding expectOneOf_def
proof (rule spec_bind [OF acceptOneOf_spec])
  fix s0 b assume s0: "pok s0"
  show "spec (\<lambda>s1. pok s1 \<and> same s0 s1 \<and> pm s1 \<le> pm s0 \<and> (NONE \<in> set ss \<longrightarrow> b = (p_sym s0 \<in> set (syms ss))) \<and>
       (b \<longrightarrow> pm s1 < pm s0) \<and> (\<not> b \<longrightarrow> s1 = s0))
     (if b then returnE True
      else if NONE \<in> set ss then thenE (parseError (takeWhile (\<lambda>x. x \<noteq> NONE) ss)) (returnE False)
      else throwE OutOfRange)
     (\<lambda>_ b s'. pok s' \<and> same s0 s' \<and> pm s' \<le> pm s0)"
    by (auto simp: spec_def parseError_def same_def pok_def pm_def)
qed

lemma NONE_syms: "NONE \<in> set singleOpSyms" "NONE \<in> set binaryOpSyms"
  by (simp_all add: singleOpSyms_def binaryOpSyms_def)

lemma selector_spec: "spec pok selector (\<lambda>s p s'. selects s p s')"
proof -
  have k: "spec pok keywordSelector (\<lambda>s p s'. selects s p s')"
    unfolding keywordSelector_def
  proof (rule spec_text, rule spec_then [OF spec_pre [OF expectOneOf_spec]], simp)
    fix x s0 b assume s0: "pok s0 \<and> p_text s0 = x"
    then show "spec (\<lambda>s1. pok s1 \<and> same s0 s1 \<and> pm s1 \<le> pm s0)
     (vmM (SymbolFor x)) (\<lambda>_ p s'. selects s0 p s')"
      by (auto intro: spec_conseq [OF SymbolFor_selects [of s0]])
  qed
  have t: "spec P (if x = OperatorSequence then returnE True else symIn singleOpSyms) (\<lambda>s b s'. s' = s)" for P x
    by (auto simp: spec_def symIn_run NONE_syms)
  show ?thesis
    unfolding selector_def
  proof (rule spec_sym, rule spec_bind [OF t])
    fix x s0 b assume "pok s0 \<and> p_sym s0 = x"
    then show "spec (\<lambda>s1. s1 = s0) (if b then binarySelector else if x = Keyword \<or> x = KeywordSequence
       then keywordSelector else unarySelector) (\<lambda>_ p s'. selects s0 p s')"
      by (intro spec_if spec_conseq [OF binarySelector_spec] spec_conseq [OF k] spec_conseq [OF unarySelector_spec]) auto
  qed
qed

end
