(* ===== verification/EmitLaws.thy ===== *)
theory EmitLaws
  imports ParserTokens
begin

text \<open>
  What an emission does to the code under construction: \<open>emits a b s s'\<close> says that the step
  from \<open>s\<close> to \<open>s'\<close> appended code that takes the operand stack from any depth \<open>d + a\<close> to \<open>d + b\<close>,
  with every operand in range of the literals, the locals and the arguments in scope. Then the
  sends, the variables and the assignments.
\<close>

section \<open>Emitted code\<close>

definition okLits :: "vm \<Rightarrow> env \<Rightarrow> ptr list \<Rightarrow> bool" where
  "okLits v env ls \<longleftrightarrow>
     (\<forall>q \<in> set ls. heap v q \<noteq> None \<and> (isMethod v q \<longrightarrow> verified v env q))"

definition bok :: "pstate \<Rightarrow> bool" where
  "bok s \<longleftrightarrow> pok s \<and> p_ctxs s \<noteq> [] \<and> (\<forall>m \<in> set (p_ctxs s). m_arguments m \<noteq> [])"

text \<open>\<open>emits a b s s'\<close>: the current method got code that, started on a stack with at least
  \<open>a\<close> values, ends with \<open>b\<close> in their place, and literals that code refers to.\<close>

definition emits :: "nat \<Rightarrow> nat \<Rightarrow> pstate \<Rightarrow> pstate \<Rightarrow> bool" where
  "emits a b s s' \<longleftrightarrow>
     pok s' \<and> vm_le (p_vm s) (p_vm s') \<and> p_cgenc s' = p_cgenc s \<and> pm s' \<le> pm s \<and>
     (\<exists>m ms c ls. p_ctxs s = m # ms \<and>
        p_ctxs s' = m\<lparr>m_bytecode := m_bytecode m @ c, m_literals := m_literals m @ ls\<rparr> # ms \<and>
        okLits (p_vm s') (envOf (m # ms)) ls \<and>
        (fits (envOf (m # ms)) (length (m_literals m @ ls)) \<longrightarrow>
           (\<forall>d. \<exists>mx. scan (envOf (m # ms)) (litOf (p_vm s') (m_literals m @ ls)) c (d + a) = Some (d + b, mx))))"

lemma okLits_le: "okLits v env ls \<Longrightarrow> vm_le v v' \<Longrightarrow> okLits v' env ls"
  unfolding okLits_def using vm_le_heap isMethod_le verified_le
  by (metis (no_types, lifting) not_None_eq)

lemma okLits_append [simp]: "okLits v env (xs @ ys) \<longleftrightarrow> okLits v env xs \<and> okLits v env ys"
  by (auto simp: okLits_def)

lemma okLits_Nil [simp]: "okLits v env []"
  by (simp add: okLits_def)

lemma envOf_upd [simp]:
  "envOf (m\<lparr>m_bytecode := c, m_literals := l\<rparr> # ms) = envOf (m # ms)"
  "envOf (m\<lparr>m_literals := l\<rparr> # ms) = envOf (m # ms)"
  "envOf (m\<lparr>m_bytecode := c\<rparr> # ms) = envOf (m # ms)"
  by (simp_all add: envOf_def)

lemma fits_le: "fits env n \<Longrightarrow> k \<le> n \<Longrightarrow> fits env k"
  by (simp add: fits_def)

lemma emits_pok: "emits a b s s' \<Longrightarrow> pok s'"
  by (simp add: emits_def)

lemma emits_pm: "emits a b s s' \<Longrightarrow> pm s' \<le> pm s"
  by (simp add: emits_def)

lemma emits_bok: "bok s \<Longrightarrow> emits a b s s' \<Longrightarrow> bok s'"
  by (auto simp: bok_def emits_def)

lemma emits_trans:
  assumes "emits a b s t" and "emits b c t u"
  shows "emits a c s u"
proof -
  obtain m ms c1 l1 where 1: "p_ctxs s = m # ms"
    "p_ctxs t = m\<lparr>m_bytecode := m_bytecode m @ c1, m_literals := m_literals m @ l1\<rparr> # ms"
    "okLits (p_vm t) (envOf (m # ms)) l1"
    "fits (envOf (m # ms)) (length (m_literals m @ l1)) \<longrightarrow>
       (\<forall>d. \<exists>mx. scan (envOf (m # ms)) (litOf (p_vm t) (m_literals m @ l1)) c1 (d + a) = Some (d + b, mx))"
    using assms(1) unfolding emits_def by blast
  obtain c2 l2 where 2: "p_ctxs u = m\<lparr>m_bytecode := m_bytecode m @ c1 @ c2, m_literals := m_literals m @ l1 @ l2\<rparr> # ms"
    "okLits (p_vm u) (envOf (m # ms)) l2"
    "fits (envOf (m # ms)) (length (m_literals m @ l1 @ l2)) \<longrightarrow>
       (\<forall>d. \<exists>mx. scan (envOf (m # ms)) (litOf (p_vm u) (m_literals m @ l1 @ l2)) c2 (d + b) = Some (d + c, mx))"
    using assms(2) 1(2) unfolding emits_def by (auto simp: add.assoc)
  have le: "vm_le (p_vm t) (p_vm u)" using assms(2) by (simp add: emits_def)
  have scan: "\<exists>mx. scan (envOf (m # ms)) (litOf (p_vm u) (m_literals m @ l1 @ l2)) (c1 @ c2) (d + a) = Some (d + c, mx)"
    if f: "fits (envOf (m # ms)) (length (m_literals m @ l1 @ l2))" for d
  proof -
    obtain m1 where "scan (envOf (m # ms)) (litOf (p_vm t) (m_literals m @ l1)) c1 (d + a) = Some (d + b, m1)"
      using 1(4) fits_le [OF f] by auto
    then have "scan (envOf (m # ms)) (litOf (p_vm u) ((m_literals m @ l1) @ l2)) c1 (d + a) = Some (d + b, m1)"
      by (rule scan_mono) (rule litOf_mono [OF le])
    with 2(3) f scan_append_Some show ?thesis by fastforce
  qed
  show ?thesis
    unfolding emits_def
  proof (intro conjI exI)
    show "pok u" "p_cgenc u = p_cgenc s" "pm u \<le> pm s" "vm_le (p_vm s) (p_vm u)"
      using assms vm_le_trans by (auto simp: emits_def)
    show "p_ctxs s = m # ms" by (rule 1)
    show "p_ctxs u = m\<lparr>m_bytecode := m_bytecode m @ (c1 @ c2), m_literals := m_literals m @ (l1 @ l2)\<rparr> # ms"
      using 2(1) by simp
    show "okLits (p_vm u) (envOf (m # ms)) (l1 @ l2)" using 1(3) 2(2) le okLits_le by simp
    show "fits (envOf (m # ms)) (length (m_literals m @ (l1 @ l2))) \<longrightarrow>
       (\<forall>d. \<exists>mx. scan (envOf (m # ms)) (litOf (p_vm u) (m_literals m @ (l1 @ l2))) (c1 @ c2) (d + a) = Some (d + c, mx))"
      using scan by simp
  qed
qed

lemma emits_shift: 
  assumes "emits a b s s'"
  shows "emits (k + a) (k + b) s s'"
  using assms unfolding emits_def by (metis (no_types, lifting) add.assoc)

lemma grows_emits: "grows s s' \<Longrightarrow> p_ctxs s \<noteq> [] \<Longrightarrow> emits a a s s'"
proof -
  assume g: "grows s s'" and "p_ctxs s \<noteq> []"
  then obtain m ms where "p_ctxs s = m # ms" by (cases "p_ctxs s") auto
  with g have c: "p_ctxs s = m # ms"
     "p_ctxs s' = m\<lparr>m_bytecode := m_bytecode m @ [], m_literals := m_literals m @ []\<rparr> # ms"
    by (simp_all add: grows_def)
  show ?thesis
    unfolding emits_def
    by (intro conjI exI [of _ m] exI [of _ ms] exI [of _ "[]"] c)
      (use g in \<open>simp_all add: grows_def\<close>)
qed

lemma same_emits: "pok s' \<Longrightarrow> same s s' \<Longrightarrow> pm s' \<le> pm s \<Longrightarrow> p_ctxs s \<noteq> [] \<Longrightarrow> emits a a s s'"
  by (rule grows_emits [OF same_grows])

lemma emits_refl: "bok s \<Longrightarrow> emits a a s s"
  by (rule grows_emits [OF grows_refl]) (simp_all add: bok_def)

lemma selects_emits: "selects s p s' \<Longrightarrow> p_ctxs s \<noteq> [] \<Longrightarrow> emits a a s s'"
  unfolding selects_def by (blast intro: grows_emits)

subsection \<open>Single instructions\<close>

lemma onMgenc_run: "p_ctxs s = m # ms \<Longrightarrow> onMgenc f s = Inr ((), s\<lparr>p_ctxs := f m # ms\<rparr>)"
  by (simp add: onMgenc_def)

lemma pm_ctxs [simp]: "pm (s\<lparr>p_ctxs := c\<rparr>) = pm s"
  by (simp add: pm_def)

lemma pok_ctxs [simp]: "pok (s\<lparr>p_ctxs := c\<rparr>) = pok s"
  by (simp add: pok_def)

text \<open>The literals an instruction adds, and the instruction.\<close>

lemma emit_spec:
  assumes step: "\<And>s m ms. P s \<Longrightarrow> p_ctxs s = m # ms \<Longrightarrow>
       \<exists>ls c. f m = m\<lparr>m_bytecode := m_bytecode m @ c, m_literals := m_literals m @ ls\<rparr> \<and>
         okLits (p_vm s) (envOf (m # ms)) ls \<and>
         (fits (envOf (m # ms)) (length (m_literals m @ ls)) \<longrightarrow>
           (\<forall>d. \<exists>mx. scan (envOf (m # ms)) (litOf (p_vm s) (m_literals m @ ls)) c (d + a) = Some (d + b, mx)))"
  shows "spec (\<lambda>s. P s \<and> bok s) (onMgenc f) (\<lambda>s _ s'. emits a b s s' \<and> pm s' = pm s)"
proof (rule specI)
  fix s assume s: "P s \<and> bok s"
  then obtain m ms where c: "p_ctxs s = m # ms" by (cases "p_ctxs s") (auto simp: bok_def)
  then show "onMgenc f s \<noteq> Inl OutOfFuel" by (simp add: onMgenc_run)
  fix x s' assume "onMgenc f s = Inr (x, s')"
  with c have s': "s' = s\<lparr>p_ctxs := f m # ms\<rparr>" by (simp add: onMgenc_run)
  with step [OF conjunct1 [OF s] c] s c show "emits a b s s' \<and> pm s' = pm s"
    unfolding emits_def bok_def by (auto simp: s')
qed

lemma uint_literal:
  assumes "x \<in> set lits" "length lits \<le> 256"
  obtains i where "unat (word_of_int (to_i8 (IndexOf lits x)) :: u8) = i" "i < length lits" "lits ! i = x"
proof -
  obtain i where i: "IndexOf lits x = int i" "i < length lits" "lits ! i = x"
    using assms(1) by (rule IndexOf_present) 
  have "(word_of_int (to_i8 (int i)) :: u8) = word_of_int (int i)"
    unfolding to_i8_def by (rule bit_word_eqI) (simp add: bit_simps)
  then have "unat (word_of_int (to_i8 (int i)) :: u8) = i"
    using i(2) assms(2) by (simp add: unat_of_nat)
  with i that show ?thesis by simp
qed

text \<open>An instruction whose operand is a literal that was just made sure of.\<close>

definition adds :: "ptr \<Rightarrow> (mgenc \<Rightarrow> mgenc) \<Rightarrow> bool" where
  "adds p g \<longleftrightarrow> (\<forall>m. \<exists>ls. g m = m\<lparr>m_literals := m_literals m @ ls\<rparr> \<and> p \<in> set (m_literals m @ ls) \<and> set ls \<subseteq> {p})"

lemma adds_IfAbsent: "adds p (\<lambda>m. snd (AddLiteralIfAbsent p m))"
  unfolding adds_def
proof
  fix m
  show "\<exists>ls. snd (AddLiteralIfAbsent p m) = m\<lparr>m_literals := m_literals m @ ls\<rparr> \<and> p \<in> set (m_literals m @ ls) \<and> set ls \<subseteq> {p}"
    by (rule exI [of _ "if p \<in> set (m_literals m) then [] else [p]"])
      (simp add: AddLiteralIfAbsent_def AddLiteral_def PushBack_def)
qed

lemma adds_AddLiteral: "adds p (AddLiteral p)"
  unfolding adds_def by (auto simp: AddLiteral_def PushBack_def)

lemma emit_literal:
  assumes add: "adds p g" and eff: "\<And>l. Q l \<Longrightarrow> (\<And>d lt env i k. lt i = Some l \<Longrightarrow> effect env lt op i k (d + a) = Some (d + b))"
    and len: "bc_length op = 2"
  shows "spec (\<lambda>s. bok s \<and> okLits (p_vm s) (envOf (p_ctxs s)) [p] \<and> (\<exists>l. Q l \<and> litOf (p_vm s) [p] 0 = Some l))
     (thenE (onMgenc g) (onMgenc (\<lambda>m. EMIT2 op (FindLiteralIndex m p) m)))
     (\<lambda>s _ s'. emits a b s s' \<and> pm s' = pm s)"
proof (rule specI)
  let ?m = "thenE (onMgenc g) (onMgenc (\<lambda>m. EMIT2 op (FindLiteralIndex m p) m))"
  fix s assume s: "bok s \<and> okLits (p_vm s) (envOf (p_ctxs s)) [p] \<and> (\<exists>l. Q l \<and> litOf (p_vm s) [p] 0 = Some l)"
  then obtain m ms l where c: "p_ctxs s = m # ms" and l: "Q l" "litOf (p_vm s) [p] 0 = Some l"
    by (cases "p_ctxs s") (auto simp: bok_def)
  obtain ls where ls: "g m = m\<lparr>m_literals := m_literals m @ ls\<rparr>" "p \<in> set (m_literals m @ ls)" "set ls \<subseteq> {p}"
    using add unfolding adds_def by blast
  define c0 where "c0 = [opcode op, word_of_int (to_i8 (IndexOf (m_literals m @ ls) p))]"
  have run: "?m s = Inr ((), s\<lparr>p_ctxs := m\<lparr>m_bytecode := m_bytecode m @ c0, m_literals := m_literals m @ ls\<rparr> # ms\<rparr>)"
    by (simp add: onMgenc_run c ls(1) EMIT2_def AddBytecode_def FindLiteralIndex_def c0_def)
  then show "?m s \<noteq> Inl OutOfFuel" by simp
  have scan: "\<exists>mx. scan (envOf (m # ms)) (litOf (p_vm s) (m_literals m @ ls)) c0 (d + a) = Some (d + b, mx)"
    if f: "fits (envOf (m # ms)) (length (m_literals m @ ls))" for d
  proof -
    have "p \<in> set (m_literals m @ ls)" "length (m_literals m @ ls) \<le> 256"
      using f ls(2) by (auto simp: fits_def)
    then obtain i where i: "unat (word_of_int (to_i8 (IndexOf (m_literals m @ ls) p)) :: u8) = i"
      "i < length (m_literals m @ ls)" "(m_literals m @ ls) ! i = p" by (rule uint_literal)
    then have "litOf (p_vm s) (m_literals m @ ls) i = Some l"
      using l(2) by (simp add: litOf_def cong: option.case_cong)
    then have e: "effect (envOf (m # ms)) (litOf (p_vm s) (m_literals m @ ls)) op
        (byteAt c0 1) (byteAt c0 2) (d + a) = Some (d + b)"
      using i(1) by (intro eff [OF l(1)]) (simp add: c0_def byteAt_def)
    have "scan (envOf (m # ms)) (litOf (p_vm s) (m_literals m @ ls)) c0 (d + a) = Some (d + b, max (d + a) (d + b))"
      unfolding c0_def by (rule scan_instr [OF refl]) (use len e in \<open>simp_all add: c0_def\<close>)
    then show ?thesis by blast
  qed
  fix x s' assume "?m s = Inr (x, s')"
  with run have s': "s' = s\<lparr>p_ctxs := m\<lparr>m_bytecode := m_bytecode m @ c0, m_literals := m_literals m @ ls\<rparr> # ms\<rparr>" by simp
  have "okLits (p_vm s) (envOf (m # ms)) ls" using s c ls(3) by (auto simp: okLits_def)
  with s c scan show "emits a b s s' \<and> pm s' = pm s"
    unfolding emits_def by (auto simp: s' bok_def)
qed

section \<open>Literals, variables and sends\<close>

lemma symOf_lit:
  assumes "symOf v p = Some t"
  shows "okLits v env [p]" "litOf v [p] 0 = Some (LSym (GetNumberOfArguments t))"
  using assms by (auto simp: symOf_def okLits_def isMethod_def litOf_def split: option.splits payload.splits if_splits)

lemma heap_lit: "heap v p = Some ob \<Longrightarrow> \<exists>l. litOf v [p] 0 = Some l"
  by (auto simp: litOf_def split: option.splits)

lemma emit_symbol:
  assumes eff: "\<And>d lt env i k. lt i = Some (LSym n) \<Longrightarrow> effect env lt op i k (d + a) = Some (d + b)"
    and len: "bc_length op = 2"
  shows "spec (\<lambda>s. bok s \<and> (\<exists>t. symOf (p_vm s) p = Some t \<and> GetNumberOfArguments t = n))
     (thenE (onMgenc (\<lambda>m. snd (AddLiteralIfAbsent p m))) (onMgenc (\<lambda>m. EMIT2 op (FindLiteralIndex m p) m)))
     (\<lambda>s _ s'. emits a b s s' \<and> pm s' = pm s)"
  by (rule spec_pre [OF emit_literal [where Q = "\<lambda>l. l = LSym n" and a = a and b = b, OF adds_IfAbsent _ len]])
    (auto intro: eff symOf_lit)

text \<open>An instruction whose operand is a literal that is there already.\<close>

definition litIn :: "nat \<Rightarrow> ptr \<Rightarrow> pstate \<Rightarrow> bool" where
  "litIn n p s \<longleftrightarrow> (\<exists>m ms t. p_ctxs s = m # ms \<and> p \<in> set (m_literals m) \<and> symOf (p_vm s) p = Some t \<and>
     GetNumberOfArguments t = n)"

lemma litIn_emits: "litIn n p s \<Longrightarrow> emits a b s s' \<Longrightarrow> litIn n p s'"
  by (auto simp: litIn_def emits_def dest: vm_le_symOf)

lemma emit_present:
  assumes eff: "\<And>d lt env i k. lt i = Some (LSym n) \<Longrightarrow> effect env lt op i k (d + a) = Some (d + b)"
    and len: "bc_length op = 2"
  shows "spec (\<lambda>s. litIn n p s \<and> bok s) (onMgenc (\<lambda>m. EMIT2 op (FindLiteralIndex m p) m))
     (\<lambda>s _ s'. emits a b s s' \<and> pm s' = pm s)"
proof (rule emit_spec)
  fix s m ms
  assume "litIn n p s" and "p_ctxs s = m # ms"
  then obtain t where p: "p \<in> set (m_literals m)" "symOf (p_vm s) p = Some t" "GetNumberOfArguments t = n"
    by (auto simp: litIn_def)
  let ?c = "[opcode op, word_of_int (to_i8 (IndexOf (m_literals m) p))]"
  have "\<exists>mx. scan (envOf (m # ms)) (litOf (p_vm s) (m_literals m)) ?c (d + a) = Some (d + b, mx)"
    if f: "fits (envOf (m # ms)) (length (m_literals m))" for d
  proof -
    from f have "length (m_literals m) \<le> 256" by (simp add: fits_def)
    with p(1) obtain i where i: "unat (word_of_int (to_i8 (IndexOf (m_literals m) p)) :: u8) = i"
      "i < length (m_literals m)" "m_literals m ! i = p" by (rule uint_literal)
    then have "litOf (p_vm s) (m_literals m) i = Some (LSym n)"
      using p(2,3) by (simp add: litOf_def)
    then have "effect (envOf (m # ms)) (litOf (p_vm s) (m_literals m)) op (byteAt ?c 1) (byteAt ?c 2) (d + a) = Some (d + b)"
      by (intro eff) (simp add: byteAt_def i(1))
    from scan_instr [OF refl _ this] show ?thesis by (auto simp: len)
  qed
  then show "\<exists>ls c. EMIT2 op (FindLiteralIndex m p) m = m\<lparr>m_bytecode := m_bytecode m @ c, m_literals := m_literals m @ ls\<rparr> \<and>
     okLits (p_vm s) (envOf (m # ms)) ls \<and>
     (fits (envOf (m # ms)) (length (m_literals m @ ls)) \<longrightarrow>
       (\<forall>d. \<exists>mx. scan (envOf (m # ms)) (litOf (p_vm s) (m_literals m @ ls)) c (d + a) = Some (d + b, mx)))"
    by (intro exI [of _ "[]"] exI [of _ ?c]) (simp add: EMIT2_def AddBytecode_def FindLiteralIndex_def)
qed

lemma EmitPUSHCONSTANT_alt: "EmitPUSHCONSTANT p = (\<lambda>m. EMIT2 BC_PUSH_CONSTANT (FindLiteralIndex m p) m)"
  "EmitPUSHGLOBAL p = (\<lambda>m. EMIT2 BC_PUSH_GLOBAL (FindLiteralIndex m p) m)"
  "EmitPUSHFIELD p = (\<lambda>m. EMIT2 BC_PUSH_FIELD (FindLiteralIndex m p) m)"
  "EmitPOPFIELD p = (\<lambda>m. EMIT2 BC_POP_FIELD (FindLiteralIndex m p) m)"
  "EmitSEND p = (\<lambda>m. EMIT2 BC_SEND (FindLiteralIndex m p) m)"
  "EmitSUPERSEND p = (\<lambda>m. EMIT2 BC_SUPER_SEND (FindLiteralIndex m p) m)"
  "EmitPUSHBLOCK p = (\<lambda>m. EMIT2 BC_PUSH_BLOCK (FindLiteralIndex m p) m)"
  by (simp_all add: fun_eq_iff EmitPUSHCONSTANT_def EmitPUSHGLOBAL_def EmitPUSHFIELD_def EmitPOPFIELD_def
      EmitSEND_def EmitSUPERSEND_def EmitPUSHBLOCK_def)

lemma addConstant_spec:
  "spec (\<lambda>s. bok s \<and> heap (p_vm s) p \<noteq> None \<and> \<not> isMethod (p_vm s) p) (addConstant p)
     (\<lambda>s _ s'. emits 0 1 s s' \<and> pm s' = pm s)"
  unfolding addConstant_def EmitPUSHCONSTANT_alt
  by (rule spec_pre [OF emit_literal [where Q = "\<lambda>_. True" and a = 0 and b = 1, OF adds_IfAbsent]])
    (auto simp: okLits_def dest: heap_lit)

lemma send_spec:
  "spec (\<lambda>s. bok s \<and> (\<exists>t. symOf (p_vm s) p = Some t \<and> GetNumberOfArguments t = n))
     (thenE (onMgenc (\<lambda>m. snd (AddLiteralIfAbsent p m))) (emitSend super p))
     (\<lambda>s _ s'. emits n 1 s s' \<and> pm s' = pm s)"
  unfolding emitSend_def EmitPUSHCONSTANT_alt
  by (cases super) (auto intro: emit_symbol)

lemma FindVar_ok:
  "FindVar ms var k = Some (i, c, b) \<Longrightarrow>
     \<exists>j x. c = k + j \<and> j < length ms \<and> i = int x \<and>
       x < (if b then snd (envOf ms ! j) else fst (envOf ms ! j))"
proof (induction ms var k rule: FindVar.induct)
  case (2 m ms var k)
  show ?case
  proof (cases "var \<in> set (m_locals m)")
    case True
    then obtain x where "IndexOf (m_locals m) var = int x" "x < length (m_locals m)" by (rule IndexOf_present)
    with True 2(2) show ?thesis by (intro exI [of _ 0] exI [of _ x]) (auto simp: envOf_def)
  next
    case nl: False
    show ?thesis
    proof (cases "var \<in> set (m_arguments m)")
      case True
      then obtain x where "IndexOf (m_arguments m) var = int x" "x < length (m_arguments m)" by (rule IndexOf_present)
      with True nl 2(2) show ?thesis by (intro exI [of _ 0] exI [of _ x]) (auto simp: envOf_def)
    next
      case False
      with nl 2(2) have "ms \<noteq> []" "FindVar ms var (k + 1) = Some (i, c, b)" by (auto split: if_splits)
      with 2(1) nl False obtain j x where "c = k + 1 + j" "j < length ms" "i = int x"
        "x < (if b then snd (envOf ms ! j) else fst (envOf ms ! j))" by auto
      then have "c = k + Suc j \<and> Suc j < length (m # ms) \<and> i = int x \<and>
          x < (if b then snd (envOf (m # ms) ! Suc j) else fst (envOf (m # ms) ! Suc j))"
        by (cases b) (simp_all add: envOf_def)
      then show ?thesis by blast
    qed
  qed
qed simp

lemma envOf_length [simp]: "length (envOf ms) = length ms"
  by (simp add: envOf_def)

text \<open>Instructions on a variable: \<open>sel\<close> picks locals or arguments.\<close>

lemma emit_variable:
  assumes eff: "\<And>d lt env x j. j < length env \<Longrightarrow> x < (if b then snd (env ! j) else fst (env ! j)) \<Longrightarrow>
      effect env lt op x j (d + a) = Some (d + a')"
    and len: "bc_length op = 3"
  shows "spec (\<lambda>s. (\<exists>j x. c = j \<and> j < length (p_ctxs s) \<and> i = int x \<and>
        x < (if b then snd (envOf (p_ctxs s) ! j) else fst (envOf (p_ctxs s) ! j))) \<and> bok s)
     (onMgenc (EMIT3 op i (int c))) (\<lambda>s _ s'. emits a a' s s' \<and> pm s' = pm s)"
proof (rule emit_spec)
  fix s m ms assume v: "\<exists>j x. c = j \<and> j < length (p_ctxs s) \<and> i = int x \<and>
        x < (if b then snd (envOf (p_ctxs s) ! j) else fst (envOf (p_ctxs s) ! j))"
    and cx: "p_ctxs s = m # ms"
  let ?env = "envOf (m # ms)" and ?c = "[opcode op, word_of_int i, word_of_int (int c)]"
  obtain x where x: "c < length ?env" "i = int x" "x < (if b then snd (?env ! c) else fst (?env ! c))"
    using v unfolding cx by auto
  have "\<exists>mx. scan ?env lt ?c (d + a) = Some (d + a', mx)" if f: "fits ?env k" for d lt k
  proof -
    note f' = f [unfolded fits_def list_all_length]
    have len': "length ?env \<le> 256" by (rule conjunct1 [OF f'])
    have "(\<lambda>(l, a). l \<le> 256 \<and> a \<le> 256) (?env ! c)"
      by (rule conjunct1 [OF conjunct2 [OF f'], rule_format]) (rule x(1))
    with len' have "fst (?env ! c) \<le> 256" "snd (?env ! c) \<le> 256" "c < 256"
      using x(1) by (auto split: prod.splits)
    then have "x < 256" using x(3) by (simp split: if_splits)
    then have "unat (word_of_int i :: u8) = x"
      by (simp add: x(2) unat_of_nat)
    moreover have "unat (word_of_int (int c) :: u8) = c"
      using \<open>c < 256\<close> by (simp add: unat_of_nat)
    ultimately have e: "effect ?env lt op (byteAt ?c 1) (byteAt ?c 2) (d + a) = Some (d + a')"
      using eff [OF x(1,3), of lt d] by (simp add: byteAt_def del: envOf_length)
    have "scan ?env lt ?c (d + a) = Some (d + a', max (d + a) (d + a'))"
      by (rule scan_instr [OF refl _ e]) (simp add: len)
    then show ?thesis by blast
  qed
  then show "\<exists>ls c'. EMIT3 op i (int c) m = m\<lparr>m_bytecode := m_bytecode m @ c', m_literals := m_literals m @ ls\<rparr> \<and>
         okLits (p_vm s) ?env ls \<and> (fits ?env (length (m_literals m @ ls)) \<longrightarrow>
           (\<forall>d. \<exists>mx. scan ?env (litOf (p_vm s) (m_literals m @ ls)) c' (d + a) = Some (d + a', mx)))"
    by (intro exI [of _ "[]"] exI [of _ ?c]) (simp add: EMIT3_def AddBytecode_def)
qed

lemma EmitPUSHLOCAL_alt: "EmitPUSHLOCAL i c = EMIT3 BC_PUSH_LOCAL i c"
  "EmitPUSHARGUMENT i c = EMIT3 BC_PUSH_ARGUMENT i c"
  "EmitPOPLOCAL i c = EMIT3 BC_POP_LOCAL i c"
  "EmitPOPARGUMENT i c = EMIT3 BC_POP_ARGUMENT i c"
  by (simp_all add: fun_eq_iff EmitPUSHLOCAL_def EmitPUSHARGUMENT_def EmitPOPLOCAL_def EmitPOPARGUMENT_def)

lemma FindField_spec:
  "spec pok (vmM (FindField cg var)) (\<lambda>s b s'. grows s s' \<and> pm s' = pm s)"
proof -
  have "spec (\<lambda>s. pok s \<and> True) (vmM (FindField cg var)) (\<lambda>s p s'. grows s s' \<and> pm s' = pm s \<and> p_sym s' = p_sym s \<and>
     p_text s' = p_text s \<and> True)"
  proof (rule vmM_spec)
    fix v assume ok: "vm_ok v"
    from SymbolFor_run [OF this, of var] show "FindField cg var v \<noteq> Inl OutOfFuel" by (auto simp: FindField_def)
    fix p v' assume "FindField cg var v = Inr (p, v')"
    with SymbolFor_run [OF ok, of var] show "vm_le v v' \<and> vm_ok v' \<and> True" by (auto simp: FindField_def)
  qed
  then show ?thesis by (rule spec_conseq) auto
qed

text \<open>Growth followed by an emission.\<close>

lemma grows_then_emits:
  assumes "bok s0" "grows s0 s1" "emits a b s1 s2"
  shows "emits a b s0 s2"
  using assms grows_emits emits_trans by (metis bok_def)

lemma bok_grows: "bok s \<Longrightarrow> grows s s' \<Longrightarrow> bok s'"
  by (auto simp: bok_def grows_def)

lemma symbolEmit_spec:
  assumes "spec (\<lambda>s. bok s \<and> (\<exists>t. symOf (p_vm s) p = Some t \<and> GetNumberOfArguments t = GetNumberOfArguments (cstr var))) (k p)
     (\<lambda>s _ s'. emits a b s s' \<and> pm s' = pm s)"
  shows "spec (\<lambda>s1. bok s0 \<and> grows s0 s1 \<and> pm s1 = pm s0 \<and> symOf (p_vm s1) p = Some (cstr var)) (k p)
     (\<lambda>_ _ s'. emits a b s0 s' \<and> pm s' = pm s0)"
  by (rule spec_conseq [OF assms]) (auto intro: bok_grows grows_then_emits)

lemma symbolFor_emit:
  assumes "\<And>p. spec (\<lambda>s. bok s \<and> (\<exists>t. symOf (p_vm s) p = Some t \<and> GetNumberOfArguments t = GetNumberOfArguments (cstr var))) (k p)
     (\<lambda>s _ s'. emits a b s s' \<and> pm s' = pm s)"
  shows "spec bok (bindE (vmM (SymbolFor var)) k) (\<lambda>s _ s'. emits a b s s' \<and> pm s' = pm s)"
  by (rule spec_bind [OF spec_pre [OF SymbolFor_spec]])
    (auto simp: bok_def [of] intro: spec_pre [OF symbolEmit_spec [OF assms]])

lemma genPushVariable_spec:
  "spec bok (genPushVariable var) (\<lambda>s _ s'. emits 0 1 s s' \<and> pm s' = pm s)"
  unfolding genPushVariable_def
proof (rule spec_getsb)
  fix ctxs
  let ?R = "\<lambda>s (_::unit) s'. emits 0 1 s s' \<and> pm s' = pm s"
  show "spec (\<lambda>s. bok s \<and> p_ctxs s = ctxs) (case FindVar ctxs var 0 of
         Some (index, context, is_argument) \<Rightarrow>
           if is_argument then onMgenc (EmitPUSHARGUMENT index (int context))
           else onMgenc (EmitPUSHLOCAL index (int context))
       | None \<Rightarrow>
           bindE (getsE p_cgenc) (\<lambda>cg.
           bindE (vmM (FindField cg var)) (\<lambda>isField.
             if isField then
               bindE (vmM (SymbolFor var)) (\<lambda>fieldName.
               thenE (onMgenc (\<lambda>m. snd (AddLiteralIfAbsent fieldName m)))
                 (onMgenc (EmitPUSHFIELD fieldName)))
             else
               bindE (vmM (SymbolFor var)) (\<lambda>global.
               thenE (onMgenc (\<lambda>m. snd (AddLiteralIfAbsent global m)))
                 (onMgenc (EmitPUSHGLOBAL global)))))) ?R"
  proof (cases "FindVar ctxs var 0")
    case (Some r)
    obtain i c b where r: "r = (i, c, b)" by (cases r)
    from FindVar_ok [OF Some [unfolded r]]
    have ok: "\<exists>j x. c = j \<and> j < length ctxs \<and> i = int x \<and> x < (if b then snd (envOf ctxs ! j) else fst (envOf ctxs ! j))"
      by simp
    show ?thesis
      unfolding Some r option.case prod.case EmitPUSHLOCAL_alt
      by (rule spec_if; rule spec_pre [OF emit_variable [where b = b]]) (use ok in auto)
  next
    case None
    have one: "spec bok (if f then
               bindE (vmM (SymbolFor var)) (\<lambda>fieldName.
               thenE (onMgenc (\<lambda>m. snd (AddLiteralIfAbsent fieldName m)))
                 (onMgenc (EmitPUSHFIELD fieldName)))
             else
               bindE (vmM (SymbolFor var)) (\<lambda>global.
               thenE (onMgenc (\<lambda>m. snd (AddLiteralIfAbsent global m)))
                 (onMgenc (EmitPUSHGLOBAL global)))) ?R" for f
      unfolding EmitPUSHCONSTANT_alt
      by (intro spec_if symbolFor_emit emit_symbol) simp_all
    show ?thesis
      unfolding None option.case
    proof (rule spec_getsb, rule spec_bind [OF spec_pre [OF FindField_spec]])
      fix cg s0 f assume s0: "(bok s0 \<and> p_ctxs s0 = ctxs) \<and> p_cgenc s0 = cg"
      show "spec (\<lambda>s1. grows s0 s1 \<and> pm s1 = pm s0) (if f then
               bindE (vmM (SymbolFor var)) (\<lambda>fieldName.
               thenE (onMgenc (\<lambda>m. snd (AddLiteralIfAbsent fieldName m)))
                 (onMgenc (EmitPUSHFIELD fieldName)))
             else
               bindE (vmM (SymbolFor var)) (\<lambda>global.
               thenE (onMgenc (\<lambda>m. snd (AddLiteralIfAbsent global m)))
                 (onMgenc (EmitPUSHGLOBAL global)))) (\<lambda>_ y. ?R s0 y)"
        by (rule spec_conseq [OF one]) (use s0 in \<open>auto intro: bok_grows grows_then_emits\<close>)
    qed (auto simp: bok_def)
  qed
qed

section \<open>Assignments\<close>

text \<open>The symbol of a variable is a literal of the current method.\<close>

definition hasLit :: "pstate \<Rightarrow> string \<Rightarrow> bool" where
  "hasLit s var \<longleftrightarrow> symtab (p_vm s) (cstr var) \<noteq> NULL \<and>
     (\<exists>m ms. p_ctxs s = m # ms \<and> symtab (p_vm s) (cstr var) \<in> set (m_literals m))"

lemma hasLit_emits: "hasLit s var \<Longrightarrow> emits a b s s' \<Longrightarrow> hasLit s' var"
  by (auto simp: hasLit_def emits_def vm_le_def)

lemma emitDUP_spec: "spec bok (onMgenc EmitDUP) (\<lambda>s _ s'. emits (Suc k) (Suc (Suc k)) s s' \<and> pm s' = pm s)"
proof -
  have "spec (\<lambda>s. True \<and> bok s) (onMgenc EmitDUP) (\<lambda>s _ s'. emits (Suc k) (Suc (Suc k)) s s' \<and> pm s' = pm s)"
  proof (rule emit_spec)
    fix s m ms
    have "scan env lt [opcode BC_DUP] (d + Suc k) = Some (d + Suc (Suc k), max (d + Suc k) (d + Suc (Suc k)))" for env lt d
      by (rule scan_instr [OF refl]) simp_all
    then show "\<exists>ls c. EmitDUP m = m\<lparr>m_bytecode := m_bytecode m @ c, m_literals := m_literals m @ ls\<rparr> \<and>
         okLits (p_vm s) (envOf (m # ms)) ls \<and>
         (fits (envOf (m # ms)) (length (m_literals m @ ls)) \<longrightarrow>
           (\<forall>d. \<exists>mx. scan (envOf (m # ms)) (litOf (p_vm s) (m_literals m @ ls)) c (d + Suc k) = Some (d + Suc (Suc k), mx)))"
      by (intro exI [of _ "[]"] exI [of _ "[opcode BC_DUP]"]) (simp add: EmitDUP_def EMIT1_def AddBytecode_def)
  qed
  then show ?thesis by simp
qed

lemma emitDUPs_spec:
  "spec bok (forE l (\<lambda>_. onMgenc EmitDUP)) (\<lambda>s _ s'. emits (Suc k) (Suc k + length l) s s')"
proof (induction l arbitrary: k)
  case Nil
  show ?case unfolding forE.simps by (rule spec_return) (simp add: emits_refl)
next
  case (Cons x l)
  show ?case
    unfolding forE.simps
    by (rule spec_then [OF emitDUP_spec [of k]], rule spec_conseq [OF Cons.IH [of "Suc k"]])
      (auto intro: emits_bok emits_trans)
qed

lemma genPopVariable_spec:
  "spec (\<lambda>s. bok s \<and> hasLit s var) (genPopVariable var) (\<lambda>s _ s'. emits (Suc k) k s s' \<and> pm s' = pm s)"
  unfolding genPopVariable_def
proof (rule spec_getsb)
  fix ctxs
  let ?R = "\<lambda>s (_::unit) s'. emits (Suc k) k s s' \<and> pm s' = pm s"
  show "spec (\<lambda>s. (bok s \<and> hasLit s var) \<and> p_ctxs s = ctxs) (case FindVar ctxs var 0 of
         Some (index, context, is_argument) \<Rightarrow>
           if is_argument then onMgenc (EmitPOPARGUMENT index (int context))
           else onMgenc (EmitPOPLOCAL index (int context))
       | None \<Rightarrow> bindE (vmM (SymbolFor var)) (\<lambda>s. onMgenc (EmitPOPFIELD s))) ?R"
  proof (cases "FindVar ctxs var 0")
    case (Some r)
    obtain i c b where r: "r = (i, c, b)" by (cases r)
    from FindVar_ok [OF Some [unfolded r]]
    have ok: "\<exists>j x. c = j \<and> j < length ctxs \<and> i = int x \<and> x < (if b then snd (envOf ctxs ! j) else fst (envOf ctxs ! j))"
      by simp
    show ?thesis
      unfolding Some r option.case prod.case EmitPUSHLOCAL_alt
      by (rule spec_if; rule spec_pre [OF emit_variable [where b = b]]) (use ok in auto)
  next
    case None
    have pop: "spec (\<lambda>s. litIn (GetNumberOfArguments (cstr var)) p s \<and> bok s) (onMgenc (EmitPOPFIELD p)) ?R" for p
      unfolding EmitPUSHCONSTANT_alt by (rule emit_present) simp_all
    have run: "vmM (SymbolFor var) s = Inr (symtab (p_vm s) (cstr var), s)" if "hasLit s var" for s
      using that by (simp add: vmM_def liftE_def SymbolFor_def symtab_lookup_def hasLit_def)
    show ?thesis
      unfolding None option.case
    proof (rule spec_bind [where Q = "\<lambda>s p s'. s' = s \<and> p = symtab (p_vm s) (cstr var)"])
      show "spec (\<lambda>s. (bok s \<and> hasLit s var) \<and> p_ctxs s = ctxs) (vmM (SymbolFor var))
         (\<lambda>s p s'. s' = s \<and> p = symtab (p_vm s) (cstr var))"
        by (auto simp: spec_def run)
      fix s0 p assume s0: "(bok s0 \<and> hasLit s0 var) \<and> p_ctxs s0 = ctxs"
      then have "symOf (p_vm s0) (symtab (p_vm s0) (cstr var)) = Some (cstr var)"
        by (auto simp: bok_def pok_def hasLit_def vm_ok_def)
      with s0 show "spec (\<lambda>s1. s1 = s0 \<and> p = symtab (p_vm s0) (cstr var)) (onMgenc (EmitPOPFIELD p)) (\<lambda>_. ?R s0)"
        by (intro spec_conseq [OF pop]) (auto simp: hasLit_def litIn_def)
    qed
  qed
qed

lemma genPopVariables_spec:
  "spec (\<lambda>s. bok s \<and> (\<forall>v \<in> set l. hasLit s v)) (forE l genPopVariable) (\<lambda>s _ s'. emits (k + length l) k s s')"
proof (induction l)
  case Nil
  show ?case unfolding forE.simps by (rule spec_return) (simp add: emits_refl)
next
  case (Cons x l)
  show ?case
    unfolding forE.simps
  proof (rule spec_then [OF spec_pre [OF genPopVariable_spec [of x "k + length l"]]])
    fix s0 u assume s0: "bok s0 \<and> (\<forall>v \<in> set (x # l). hasLit s0 v)"
    show "spec (\<lambda>s1. emits (Suc (k + length l)) (k + length l) s0 s1 \<and> pm s1 = pm s0) (forE l genPopVariable)
       (\<lambda>_ _ s'. emits (k + length (x # l)) k s0 s')"
      by (rule spec_conseq [OF Cons.IH]) (use s0 in \<open>auto intro: emits_bok emits_trans hasLit_emits\<close>)
  qed auto
qed

lemma addLiteral_spec:
  "spec (\<lambda>s. bok s \<and> symOf (p_vm s) p = Some (cstr v) \<and> symtab (p_vm s) (cstr v) = p)
     (onMgenc (\<lambda>m. snd (AddLiteralIfAbsent p m))) (\<lambda>s _ s'. emits k k s s' \<and> pm s' = pm s \<and> hasLit s' v \<and> p_sym s' = p_sym s)"
proof (rule specI)
  fix s assume s: "bok s \<and> symOf (p_vm s) p = Some (cstr v) \<and> symtab (p_vm s) (cstr v) = p"
  then obtain m ms where c: "p_ctxs s = m # ms" by (cases "p_ctxs s") (auto simp: bok_def)
  let ?ls = "if p \<in> set (m_literals m) then [] else [p]"
  have run: "onMgenc (\<lambda>m. snd (AddLiteralIfAbsent p m)) s =
      Inr ((), s\<lparr>p_ctxs := m\<lparr>m_bytecode := m_bytecode m @ [], m_literals := m_literals m @ ?ls\<rparr> # ms\<rparr>)"
    by (simp add: onMgenc_run c AddLiteralIfAbsent_def AddLiteral_def PushBack_def)
  then show "onMgenc (\<lambda>m. snd (AddLiteralIfAbsent p m)) s \<noteq> Inl OutOfFuel" by simp
  fix x s' assume "onMgenc (\<lambda>m. snd (AddLiteralIfAbsent p m)) s = Inr (x, s')"
  with run have s': "s' = s\<lparr>p_ctxs := m\<lparr>m_bytecode := m_bytecode m @ [], m_literals := m_literals m @ ?ls\<rparr> # ms\<rparr>"
    by simp
  have ok: "okLits (p_vm s) (envOf (m # ms)) ?ls" using symOf_lit(1) [of "p_vm s" p] s by simp
  have e: "emits k k s s'"
    unfolding emits_def s'
    by (intro conjI exI [of _ m] exI [of _ ms] exI [of _ "[]"] exI [of _ "?ls"] c)
      (use s ok in \<open>simp_all add: bok_def\<close>)
  have "p \<noteq> NULL"
  proof -
    have "heap (p_vm s) p \<noteq> None" using s by (auto simp: symOf_def split: option.splits)
    then show ?thesis using s by (auto simp: bok_def pok_def vm_ok_def)
  qed
  then show "emits k k s s' \<and> pm s' = pm s \<and> hasLit s' v \<and> p_sym s' = p_sym s"
    using e s by (simp add: s' hasLit_def)
qed

lemma SymbolFor_tab_spec:
  "spec pok (vmM (SymbolFor t)) (\<lambda>s p s'. grows s s' \<and> pm s' = pm s \<and> p_sym s' = p_sym s \<and>
     p_text s' = p_text s \<and> (symOf (p_vm s') p = Some (cstr t) \<and> symtab (p_vm s') (cstr t) = p))"
proof -
  have "spec (\<lambda>s. pok s \<and> True) (vmM (SymbolFor t)) (\<lambda>s p s'. grows s s' \<and> pm s' = pm s \<and> p_sym s' = p_sym s \<and>
     p_text s' = p_text s \<and> (symOf (p_vm s') p = Some (cstr t) \<and> symtab (p_vm s') (cstr t) = p))"
  proof (rule vmM_spec)
    fix v assume "vm_ok v" from SymbolFor_run [OF this, of t] show "SymbolFor t v \<noteq> Inl OutOfFuel" by auto
  next
    fix v p v' assume "vm_ok v" "SymbolFor t v = Inr (p, v')"
    with SymbolFor_run [OF this(1), of t] show "vm_le v v' \<and> vm_ok v' \<and> (symOf v' p = Some (cstr t) \<and> symtab v' (cstr t) = p)" by auto
  qed
  then show ?thesis by simp
qed

lemma bok_pok [simp]: "bok s \<Longrightarrow> pok s"
  by (simp add: bok_def)

lemma bok_ctxs: "bok s \<Longrightarrow> p_ctxs s \<noteq> []"
  by (simp add: bok_def)

lemma same_then_emits:
  "bok s0 \<Longrightarrow> pok s1 \<Longrightarrow> same s0 s1 \<Longrightarrow> pm s1 \<le> pm s0 \<Longrightarrow> emits a b s1 s2 \<Longrightarrow> emits a b s0 s2"
  by (rule grows_then_emits [OF _ same_grows])

lemma bok_same: "bok s0 \<Longrightarrow> pok s1 \<Longrightarrow> same s0 s1 \<Longrightarrow> bok s1"
  by (simp add: bok_def same_def)

lemma emits_then_same:
  assumes "emits a b s0 s1" "pok s2" "same s1 s2" "pm s2 \<le> pm s1"
  shows "emits a b s0 s2"
proof -
  have "p_ctxs s1 \<noteq> []" using assms(1) by (auto simp: emits_def)
  then show ?thesis using assms same_emits emits_trans by blast
qed

lemma assignment_spec:
  "spec bok assignment (\<lambda>s v s'. emits k k s s' \<and> hasLit s' v \<and> (p_sym s = Identifier \<longrightarrow> pm s' < pm s))"
  unfolding assignment_def
proof (rule spec_bind [OF spec_pre [OF variable_spec]])
  fix s0 v assume s0: "bok s0"
  let ?P = "\<lambda>s1. bok s1 \<and> emits k k s0 s1 \<and> (p_sym s0 = Identifier \<longrightarrow> pm s1 < pm s0)"
  have 1: "spec ?P (vmM (SymbolFor v)) (\<lambda>_ p s2. ?P s2 \<and> symOf (p_vm s2) p = Some (cstr v) \<and> symtab (p_vm s2) (cstr v) = p)"
    by (rule spec_conseq [OF SymbolFor_tab_spec])
      (auto intro: bok_grows emits_trans [OF _ grows_emits] dest: bok_ctxs)
  have 2: "spec (\<lambda>s2. ?P s2 \<and> symOf (p_vm s2) p = Some (cstr v) \<and> symtab (p_vm s2) (cstr v) = p)
      (onMgenc (\<lambda>m. snd (AddLiteralIfAbsent p m))) (\<lambda>_ _ s3. ?P s3 \<and> hasLit s3 v)" for p
    by (rule spec_conseq [OF addLiteral_spec [of _ v k]]) (auto intro: emits_bok emits_trans)
  have 3: "spec (\<lambda>s3. ?P s3 \<and> hasLit s3 v) (thenE (expect Assign) (returnE v))
      (\<lambda>_ r s4. r = v \<and> ?P s4 \<and> hasLit s4 v)"
    by (rule spec_then [OF spec_pre [OF expect_spec]], simp, rule spec_return)
      (auto intro: bok_same emits_then_same simp: same_def hasLit_def)
  have "spec ?P (bindE (vmM (SymbolFor v)) (\<lambda>var. thenE (onMgenc (\<lambda>m. snd (AddLiteralIfAbsent var m)))
       (thenE (expect Assign) (returnE v)))) (\<lambda>_ r s4. r = v \<and> ?P s4 \<and> hasLit s4 v)"
    by (rule spec_bind [OF 1], rule spec_then [OF 2 3])
  then show "spec (\<lambda>s1. pok s1 \<and> same s0 s1 \<and> pm s1 \<le> pm s0 \<and> v = p_text s0 \<and> (p_sym s0 = Identifier \<longrightarrow> pm s1 < pm s0))
     (bindE (vmM (SymbolFor v)) (\<lambda>var. thenE (onMgenc (\<lambda>m. snd (AddLiteralIfAbsent var m)))
       (thenE (expect Assign) (returnE v))))
     (\<lambda>_ r s'. emits k k s0 s' \<and> hasLit s' r \<and> (p_sym s0 = Identifier \<longrightarrow> pm s' < pm s0))"
    by (rule spec_conseq) (use s0 bok_ctxs in \<open>auto intro: bok_same same_emits\<close>)
qed simp

lemma assignments_spec:
  "spec (\<lambda>s. bok s \<and> pm s < n \<and> (\<forall>v \<in> set l. hasLit s v)) (assignments n l)
     (\<lambda>s r s'. emits k k s s' \<and> (\<forall>v \<in> set r. hasLit s' v))"
proof (induction n arbitrary: l)
  case 0
  show ?case by (simp add: spec_False)
next
  case (Suc n)
  show ?case
    unfolding assignments.simps
  proof (rule spec_sym, rule spec_if)
    fix x assume x: "x = Identifier"
    show "spec (\<lambda>s. (bok s \<and> pm s < Suc n \<and> (\<forall>v \<in> set l. hasLit s v)) \<and> p_sym s = x)
      (bindE assignment (\<lambda>v. thenE PEEK (bindE (getsE p_nextSym) (\<lambda>nx.
           if nx = Assign then assignments n (l @ [v]) else returnE (l @ [v])))))
      (\<lambda>s r s'. emits k k s s' \<and> (\<forall>v \<in> set r. hasLit s' v))"
    proof (rule spec_bind [OF spec_pre [OF assignment_spec [of k]]])
      fix s0 v assume s0: "(bok s0 \<and> pm s0 < Suc n \<and> (\<forall>v \<in> set l. hasLit s0 v)) \<and> p_sym s0 = x"
      let ?P = "\<lambda>s1. bok s1 \<and> emits k k s0 s1 \<and> pm s1 < n \<and> (\<forall>u \<in> set (l @ [v]). hasLit s1 u)"
      have 1: "spec ?P PEEK (\<lambda>_ _. ?P)"
        by (rule spec_conseq [OF PEEK_spec])
          (auto intro: bok_same emits_then_same simp: same_def hasLit_def)
      have 2: "spec ?P (bindE (getsE p_nextSym) (\<lambda>nx.
           if nx = Assign then assignments n (l @ [v]) else returnE (l @ [v])))
          (\<lambda>_ r s'. emits k k s0 s' \<and> (\<forall>v \<in> set r. hasLit s' v))"
        by (rule spec_getsb, rule spec_if, rule spec_conseq [OF Suc.IH], simp,
            blast intro: emits_trans, rule spec_return, simp)
      have "spec ?P (thenE PEEK (bindE (getsE p_nextSym) (\<lambda>nx.
           if nx = Assign then assignments n (l @ [v]) else returnE (l @ [v]))))
          (\<lambda>_ r s'. emits k k s0 s' \<and> (\<forall>v \<in> set r. hasLit s' v))"
        by (rule spec_then [OF 1 2])
      then show "spec (\<lambda>s1. emits k k s0 s1 \<and> hasLit s1 v \<and> (p_sym s0 = Identifier \<longrightarrow> pm s1 < pm s0))
        (thenE PEEK (bindE (getsE p_nextSym) (\<lambda>nx.
           if nx = Assign then assignments n (l @ [v]) else returnE (l @ [v]))))
        (\<lambda>_ r s'. emits k k s0 s' \<and> (\<forall>v \<in> set r. hasLit s' v))"
        by (rule spec_conseq) (use s0 x in \<open>auto intro: emits_bok hasLit_emits\<close>)
    qed simp
  qed (auto intro: spec_return emits_refl)
qed

end
