(* ===== verification/ExprLaws.thy ===== *)
theory ExprLaws
  imports EmitLaws
begin

text \<open>
  The expressions of the grammar push one value: literals, unary, binary and keyword messages,
  evaluations, assignations.
\<close>

section \<open>Expressions\<close>

text \<open>\<open>E n a b m\<close>: with the measure at most \<open>n\<close>, \<open>m\<close> emits code from \<open>a\<close> to \<open>b\<close>.\<close>

definition E :: "nat \<Rightarrow> nat \<Rightarrow> nat \<Rightarrow> 'a PM \<Rightarrow> bool" where
  "E n a b m \<longleftrightarrow> spec (\<lambda>s. bok s \<and> pm s \<le> n) m (\<lambda>s _ s'. emits a b s s')"

lemma E_then: "E n a b m \<Longrightarrow> E n b c k \<Longrightarrow> E n a c (thenE m k)"
  unfolding E_def
  by (rule spec_then, assumption, rule spec_conseq, assumption)
    (auto intro: emits_bok emits_trans dest: emits_pm)

lemma E_bind: "E n a b m \<Longrightarrow> (\<And>x. E n b c (f x)) \<Longrightarrow> E n a c (bindE m f)"
  unfolding E_def
  by (rule spec_bind, assumption, rule spec_conseq, assumption)
    (auto intro: emits_bok emits_trans dest: emits_pm)

lemma E_if: "E n a b m \<Longrightarrow> E n a b k \<Longrightarrow> E n a b (if c then m else k)"
  by simp

lemma E_return: "E n a a (returnE x)"
  unfolding E_def by (rule spec_return) (simp add: emits_refl)

lemma E_gets: "(\<And>x. E n a b (f x)) \<Longrightarrow> E n a b (bindE (getsE g) f)"
  unfolding E_def by (rule spec_getsb, rule spec_pre, assumption) auto

lemma E_sym: "(\<And>x. E n a b (f x)) \<Longrightarrow> E n a b (bindE sym f)"
  unfolding E_def by (rule spec_sym, rule spec_pre, assumption) auto

lemma E_shift: "E n a b m \<Longrightarrow> E n (k + a) (k + b) m"
  unfolding E_def by (erule spec_post) (auto intro: emits_shift)

lemma E_spec: "spec bok m (\<lambda>s _ s'. emits a b s s' \<and> X s s') \<Longrightarrow> E n a b m"
  unfolding E_def by (erule spec_conseq) auto

lemma E_tok:
  "spec pok m (\<lambda>s x s'. pok s' \<and> same s s' \<and> pm s' \<le> pm s \<and> X s x s') \<Longrightarrow> E n a a m"
  unfolding E_def by (erule spec_conseq) (auto intro: same_emits dest: bok_ctxs)

text \<open>Tokens and allocations in front of an emission.\<close>

lemma E_grow_bind:
  assumes "spec pok m (\<lambda>s x s'. grows s s' \<and> Z x s')"
    and "\<And>x. spec (\<lambda>s. bok s \<and> pm s \<le> n \<and> Z x s) (f x) (\<lambda>s _ s'. emits a b s s')"
  shows "E n a b (bindE m f)"
  unfolding E_def
proof (rule spec_bind [OF spec_pre [OF assms(1)]])
  fix s0 x assume s0: "bok s0 \<and> pm s0 \<le> n"
  show "spec (\<lambda>s1. grows s0 s1 \<and> Z x s1) (f x) (\<lambda>_ _ s2. emits a b s0 s2)"
    by (rule spec_conseq [OF assms(2)])
      (use s0 grows_pm in \<open>force intro: bok_grows grows_then_emits\<close>)+
qed simp

lemma grows_same: "spec pok m (\<lambda>s x s'. pok s' \<and> same s s' \<and> pm s' \<le> pm s \<and> X s x s') \<Longrightarrow>
    spec pok m (\<lambda>s x s'. grows s s' \<and> True)"
  by (erule spec_post) (auto intro: same_grows)

lemma E_tok_bind:
  assumes "spec pok m (\<lambda>s x s'. pok s' \<and> same s s' \<and> pm s' \<le> pm s \<and> X s x s')" "\<And>x. E n a b (f x)"
  shows "E n a b (bindE m f)"
  by (rule E_grow_bind [OF grows_same [OF assms(1)]]) (use assms(2) in \<open>simp add: E_def\<close>)

lemma constant_spec:
  "spec (\<lambda>s. bok s \<and> pm s \<le> n \<and> heap (p_vm s) p \<noteq> None \<and> \<not> isMethod (p_vm s) p) (addConstant p) (\<lambda>s _ s'. emits 0 1 s s')"
  by (rule spec_conseq [OF addConstant_spec]) auto

lemma NewInteger_E: "E n 0 1 (bindE (vmM (NewInteger k)) addConstant)"
  by (rule E_grow_bind [where Z = "\<lambda>p s. heap (p_vm s) p \<noteq> None \<and> \<not> isMethod (p_vm s) p"])
    (rule spec_post [OF NewInteger_spec], simp, rule constant_spec)

lemma NewString_E: "E n 0 1 (bindE (vmM (NewString k)) addConstant)"
  by (rule E_grow_bind [where Z = "\<lambda>p s. heap (p_vm s) p \<noteq> None \<and> \<not> isMethod (p_vm s) p"])
    (rule spec_post [OF NewString_spec], simp, rule constant_spec)

lemma symOf_constant: "symOf v p = Some t \<Longrightarrow> heap v p \<noteq> None \<and> \<not> isMethod v p"
  by (auto simp: symOf_def isMethod_def split: option.splits payload.splits if_splits)

lemma selects_E: 
  assumes "spec pok m (\<lambda>s p s'. selects s p s')"
  shows "E n 0 1 (bindE m addConstant)"
proof (rule E_grow_bind [where Z = "\<lambda>p s. heap (p_vm s) p \<noteq> None \<and> \<not> isMethod (p_vm s) p"])
  show "spec pok m (\<lambda>s p s'. grows s s' \<and> (heap (p_vm s') p \<noteq> None \<and> \<not> isMethod (p_vm s') p))"
    by (rule spec_post [OF assms]) (use symOf_constant in \<open>auto simp: selects_def\<close>)
qed (rule constant_spec)

lemma literalInteger_spec:
  "spec pok literalInteger (\<lambda>s x s'. pok s' \<and> same s s' \<and> pm s' \<le> pm s \<and> True)"
  unfolding literalInteger_def
  by (rule spec_text, rule spec_then [OF spec_pre [OF expect_spec]], simp, rule spec_return) auto

lemma E_val:
  assumes "spec pok m (\<lambda>s x s'. pok s' \<and> same s s' \<and> pm s' \<le> pm s \<and> True)"
  shows "spec pok (bindE m (\<lambda>k. returnE (g k))) (\<lambda>s x s'. pok s' \<and> same s s' \<and> pm s' \<le> pm s \<and> True)"
  by (rule spec_bind [OF assms], rule spec_return) simp

lemma negativeDecimal_spec:
  "spec pok negativeDecimal (\<lambda>s x s'. pok s' \<and> same s s' \<and> pm s' \<le> pm s \<and> True)"
  unfolding negativeDecimal_def
  by (rule spec_then [OF expect_spec], rule spec_conseq [OF E_val [OF literalInteger_spec]])
    (auto simp: same_def)

lemma literalNumber_E: "E n 0 1 literalNumber"
  unfolding literalNumber_def literalDecimal_def
proof (rule E_sym)
  fix x
  have t: "spec pok (if x = Minus then negativeDecimal else bindE literalInteger (\<lambda>k. returnE (to_i32 k)))
      (\<lambda>s x s'. pok s' \<and> same s s' \<and> pm s' \<le> pm s \<and> True)"
    by (rule spec_if) (rule negativeDecimal_spec E_val [OF literalInteger_spec])+
  show "E n 0 1 (bindE (if x = Minus then negativeDecimal else bindE literalInteger (\<lambda>k. returnE (to_i32 k)))
     (\<lambda>val. bindE (vmM (NewInteger val)) addConstant))"
    by (rule E_tok_bind [OF t NewInteger_E])
qed

lemma literalString_E: "E n 0 1 literalString"
  unfolding literalString_def by (rule E_tok_bind [OF stringM_spec NewString_E])

lemma stringSymbol_spec: "spec pok (bindE stringM (\<lambda>t. vmM (SymbolFor t))) (\<lambda>s p s'. selects s p s')"
proof (rule spec_bind [OF stringM_spec])
  fix s0 x assume "pok s0"
  then show "spec (\<lambda>s1. pok s1 \<and> same s0 s1 \<and> pm s1 \<le> pm s0 \<and> x = p_text s0 \<and> (p_sym s0 = STString \<longrightarrow> pm s1 < pm s0))
     (vmM (SymbolFor x)) (\<lambda>_ p s'. selects s0 p s')"
    by (cases "x = p_text s0") (auto intro: spec_conseq [OF SymbolFor_selects [of s0]] simp: spec_False)
qed

lemma literalSymbol_E: "E n 0 1 literalSymbol"
  unfolding literalSymbol_def
proof (rule E_then [OF E_tok [OF expect_spec]], rule E_sym)
  fix x
  have "spec pok (if x = STString then bindE stringM (\<lambda>t. vmM (SymbolFor t)) else selector) (\<lambda>s p s'. selects s p s')"
    by (rule spec_if) (rule stringSymbol_spec selector_spec)+
  then show "E n 0 1 (bindE (if x = STString then bindE stringM (\<lambda>t. vmM (SymbolFor t)) else selector) addConstant)"
    by (rule selects_E)
qed

lemma literal_E: "E n 0 1 literal"
  unfolding literal_def
  by (intro E_sym E_if literalSymbol_E literalString_E literalNumber_E)

subsection \<open>Messages\<close>

lemma token_unary:
  assumes "pok s" "p_sym s = Identifier" shows "GetNumberOfArguments (p_text s) = 1"
proof -
  from assms have t: "p_text s \<noteq> []" "isalpha (hd (p_text s))" "list_all identChar (p_text s)"
    by (auto simp: pok_def token_ok_def)
  have "\<not> identChar (CHR '':'')" by (simp add: identChar_def isalpha_def isdigit_def char_code_def)
  then have "CHR '':'' \<notin> set (p_text s)" using t(3) by (auto simp: list_all_iff)
  with t show ?thesis using unary_arguments [of "p_text s" "hd (p_text s)" "tl (p_text s)"] by simp
qed

lemma token_keyword:
  assumes "pok s" "p_sym s = Keyword" shows "is_keyword (p_text s)"
proof -
  from assms obtain u where u: "p_text s = u @ '':''" "u \<noteq> []" "isalpha (hd u)" "list_all identChar u"
    by (auto simp: pok_def token_ok_def)
  have "\<not> identChar (CHR '':'')" by (simp add: identChar_def isalpha_def isdigit_def char_code_def)
  then have "numColons u = 0" using u(4) by (intro numColons_none) (auto simp: list_all_iff)
  then show ?thesis using u by (cases u) (auto simp: is_keyword_def)
qed

lemma token_binary:
  assumes "pok s" "p_sym s \<in> binSyms" shows "GetNumberOfArguments (p_text s) = 2"
proof -
  have "p_text s \<noteq> [] \<and> (hd (p_text s) = CHR ''-'' \<or> ISOP (hd (p_text s)))"
  proof (cases "p_sym s = OperatorSequence")
    case True
    with assms show ?thesis by (cases "p_text s") (auto simp: pok_def token_ok_def)
  next
    case False
    with assms obtain c where "p_text s = [c]" "c = CHR ''-'' \<or> ISOP c"
      unfolding pok_def token_ok_def binSyms_def by blast
    then show ?thesis by simp
  qed
  then have "IsBinary (p_text s)"
    by (cases "p_text s") (auto simp: IsBinary_def binary_chars_def ISOP_def)
  then show ?thesis by (simp add: GetNumberOfArguments_def)
qed

lemma atBinary_run: "atBinary s = Inr (p_sym s \<in> binSyms, s)"
proof -
  have "symIn binaryOpSyms s = Inr (p_sym s \<in> set (syms binaryOpSyms), s)"
    by (rule symIn_run) (rule NONE_syms)
  moreover have "binSyms = insert OperatorSequence (set (syms binaryOpSyms))"
    by (auto simp: binSyms_def single_ops_def binaryOpSyms_def)
  ultimately show ?thesis by (auto simp: atBinary_def sym_def)
qed

lemma atMessage_run: "atMessage s = Inr (p_sym s \<in> {Identifier, Keyword} \<union> binSyms, s)"
  using atBinary_run by (simp add: atMessage_def sym_def)

lemma isIdentifier_run: "bindE sym (\<lambda>s. returnE (s = x)) s = Inr (p_sym s = x, s)"
  by (simp add: sym_def)

lemma E_while:
  assumes "\<And>s. b s = Inr (c s, s)"
    and "spec (\<lambda>s. bok s \<and> c s \<and> pm s \<le> n) m (\<lambda>s _ s'. emits a a s s' \<and> pm s' < pm s)"
  shows "E n a a (whileM (Suc n) b m)"
proof -
  have "spec (\<lambda>s. bok s \<and> pm s < Suc n) (whileM (Suc n) b m)
      (\<lambda>s _ s'. bok s' \<and> (bok s \<and> bok s' \<and> emits a a s s') \<and> pm s' \<le> pm s \<and> \<not> c s')"
  proof (rule spec_while)
    show "b s = Inr (c s, s)" for s by (rule assms)
    show "spec (\<lambda>s. bok s \<and> c s \<and> pm s < Suc n) m
        (\<lambda>s _ s'. bok s' \<and> (bok s \<and> bok s' \<and> emits a a s s') \<and> pm s' < pm s)"
      by (rule spec_conseq [OF assms(2)]) (auto intro: emits_bok)
  qed (auto intro: emits_refl emits_trans)
  then show ?thesis unfolding E_def by (rule spec_conseq) auto
qed

lemma selects_send:
  assumes sel: "spec pok m (\<lambda>s p s'. selects s p s' \<and> X s s')"
    and n: "\<And>s. pok s \<Longrightarrow> C s \<Longrightarrow> GetNumberOfArguments (p_text s) = k"
  shows "spec (\<lambda>s. bok s \<and> C s) (bindE m (\<lambda>msg. thenE (onMgenc (\<lambda>m. snd (AddLiteralIfAbsent msg m)))
       (emitSend super msg))) (\<lambda>s _ s'. emits k 1 s s' \<and> (\<exists>t. X s t \<and> pm s' = pm t))"
proof (rule spec_bind [OF spec_pre [OF sel]])
  fix s0 p assume s0: "bok s0 \<and> C s0"
  then have "GetNumberOfArguments (p_text s0) = k" using n by simp
  then show "spec (\<lambda>s1. selects s0 p s1 \<and> X s0 s1) (thenE (onMgenc (\<lambda>m. snd (AddLiteralIfAbsent p m)))
       (emitSend super p)) (\<lambda>_ _ s'. emits k 1 s0 s' \<and> (\<exists>t. X s0 t \<and> pm s' = pm t))"
    by (intro spec_conseq [OF send_spec [of p k]])
      (use s0 in \<open>auto simp: selects_def intro: bok_grows grows_then_emits\<close>)
qed simp

lemma unaryMessage_spec:
  "spec (\<lambda>s. bok s \<and> p_sym s = Identifier) (unaryMessage super) (\<lambda>s _ s'. emits 1 1 s s' \<and> pm s' < pm s)"
  unfolding unaryMessage_def
  by (rule spec_post [OF selects_send [OF unarySelector_spec token_unary]]) auto

lemma unaries_E: "E n 1 1 (whileM (Suc n) (bindE sym (\<lambda>s. returnE (s = Identifier))) (unaryMessage super))"
  by (rule E_while [OF isIdentifier_run]) (rule spec_pre [OF unaryMessage_spec], simp)

lemma binaryOperand_E: "E n 0 1 (primary (Suc n) rc) \<Longrightarrow> E n 0 1 (binaryOperand (Suc n) rc)"
  unfolding binaryOperand_def by (rule E_bind, assumption, rule E_then [OF unaries_E E_return])

lemma emitSend_present:
  "spec (\<lambda>s. litIn n p s \<and> bok s) (emitSend super p) (\<lambda>s _ s'. emits n 1 s s' \<and> pm s' = pm s)"
  unfolding emitSend_def EmitPUSHCONSTANT_alt by (cases super) (simp_all add: emit_present)

lemma addSelector_spec:
  "spec (\<lambda>s. bok s \<and> (\<exists>t. symOf (p_vm s) p = Some t \<and> GetNumberOfArguments t = n))
     (onMgenc (\<lambda>m. snd (AddLiteralIfAbsent p m))) (\<lambda>s _ s'. emits 0 0 s s' \<and> pm s' = pm s \<and> litIn n p s')"
proof (rule specI)
  fix s assume s: "bok s \<and> (\<exists>t. symOf (p_vm s) p = Some t \<and> GetNumberOfArguments t = n)"
  then obtain m ms where c: "p_ctxs s = m # ms" by (cases "p_ctxs s") (auto simp: bok_def)
  let ?ls = "if p \<in> set (m_literals m) then [] else [p]"
  have run: "onMgenc (\<lambda>m. snd (AddLiteralIfAbsent p m)) s =
      Inr ((), s\<lparr>p_ctxs := m\<lparr>m_bytecode := m_bytecode m @ [], m_literals := m_literals m @ ?ls\<rparr> # ms\<rparr>)"
    by (simp add: onMgenc_run c AddLiteralIfAbsent_def AddLiteral_def PushBack_def)
  then show "onMgenc (\<lambda>m. snd (AddLiteralIfAbsent p m)) s \<noteq> Inl OutOfFuel" by simp
  fix x s' assume "onMgenc (\<lambda>m. snd (AddLiteralIfAbsent p m)) s = Inr (x, s')"
  with run have s': "s' = s\<lparr>p_ctxs := m\<lparr>m_bytecode := m_bytecode m @ [], m_literals := m_literals m @ ?ls\<rparr> # ms\<rparr>"
    by simp
  have ok: "okLits (p_vm s) (envOf (m # ms)) ?ls" using symOf_lit(1) [of "p_vm s" p] s by auto
  have e: "emits 0 0 s s'"
    unfolding emits_def s'
    by (intro conjI exI [of _ m] exI [of _ ms] exI [of _ "[]"] exI [of _ "?ls"] c)
      (use s ok in \<open>simp_all add: bok_def\<close>)
  then show "emits 0 0 s s' \<and> pm s' = pm s \<and> litIn n p s'"
    using s by (auto simp: s' litIn_def)
qed

lemma emits_pm_le: "emits a b s s' \<Longrightarrow> pm s \<le> n \<Longrightarrow> pm s' \<le> n"
  by (auto dest: emits_pm)

lemma emits_12: "emits 0 (Suc 0) s s' \<Longrightarrow> emits (Suc 0) 2 s s'"
  using emits_shift [of 0 1 s s' 1] by (simp add: numeral_2_eq_2)

lemma binaryMessage_spec:
  assumes prim: "E n 0 1 (primary (Suc n) rc)"
  shows "spec (\<lambda>s. bok s \<and> p_sym s \<in> binSyms \<and> pm s \<le> n) (binaryMessage (Suc n) rc super)
     (\<lambda>s _ s'. emits 1 1 s s' \<and> pm s' < pm s)"
  unfolding binaryMessage_def
proof (rule spec_bind [OF spec_pre [OF binarySelector_spec]])
  fix s0 p assume s0: "bok s0 \<and> p_sym s0 \<in> binSyms \<and> pm s0 \<le> n"
  then have k: "GetNumberOfArguments (p_text s0) = 2" using token_binary by simp
  let ?P = "\<lambda>a b s. bok s \<and> emits a b s0 s \<and> pm s < pm s0"
  have 1: "spec (\<lambda>s. selects s0 p s \<and> (p_sym s0 \<in> binSyms \<longrightarrow> pm s < pm s0)) (onMgenc (\<lambda>m. snd (AddLiteralIfAbsent p m)))
     (\<lambda>_ _ s. ?P 1 1 s \<and> litIn 2 p s)"
    by (rule spec_conseq [OF addSelector_spec [of p 2]])
      (use s0 k in \<open>auto simp: selects_def bok_ctxs intro: bok_grows emits_bok
         grows_then_emits [OF _ _ emits_shift [of 0 0 _ _ 1, simplified]]\<close>)
  have 2: "spec (\<lambda>s. ?P 1 1 s \<and> litIn 2 p s) (binaryOperand (Suc n) rc) (\<lambda>_ _ s. ?P 1 2 s \<and> litIn 2 p s)"
    by (rule spec_conseq [OF binaryOperand_E [OF prim, unfolded E_def]])
      (use s0 in \<open>auto intro: emits_bok litIn_emits emits_trans emits_12 dest: emits_pm\<close>)
  have 3: "spec (\<lambda>s. ?P 1 2 s \<and> litIn 2 p s) (emitSend super p) (\<lambda>_ _ s'. emits 1 1 s0 s' \<and> pm s' < pm s0)"
    by (rule spec_conseq [OF emitSend_present]) (auto intro: emits_trans)
  show "spec (\<lambda>s1. selects s0 p s1 \<and> (p_sym s0 \<in> binSyms \<longrightarrow> pm s1 < pm s0))
     (thenE (onMgenc (\<lambda>m. snd (AddLiteralIfAbsent p m))) (thenE (binaryOperand (Suc n) rc) (emitSend super p)))
     (\<lambda>_ _ s'. emits 1 1 s0 s' \<and> pm s' < pm s0)"
    by (rule spec_then [OF 1 spec_then [OF 2 3]])
qed simp

lemma binaries_E: "E n 0 1 (primary (Suc n) rc) \<Longrightarrow> E n 1 1 (whileM (Suc n) atBinary (binaryMessage (Suc n) rc super))"
  by (rule E_while [OF atBinary_run]) (rule spec_pre [OF binaryMessage_spec], auto)

lemma formula_E:
  assumes prim: "E n 0 1 (primary (Suc n) rc)"
  shows "E n 0 1 (formula (Suc n) rc)"
  unfolding formula_def
proof (rule E_bind [OF binaryOperand_E [OF prim]])
  fix super
  have "spec (\<lambda>s. bok s \<and> pm s \<le> n) (bindE atBinary (\<lambda>b. if b then binaryMessage (Suc n) rc super else returnE ()))
      (\<lambda>s _ s'. emits 1 1 s s')"
  proof (rule spec_bind [where Q = "\<lambda>s b s'. s' = s \<and> b = (p_sym s \<in> binSyms)"])
    show "spec (\<lambda>s. bok s \<and> pm s \<le> n) atBinary (\<lambda>s b s'. s' = s \<and> b = (p_sym s \<in> binSyms))"
      by (simp add: spec_def atBinary_run)
    fix s0 b assume s0: "bok s0 \<and> pm s0 \<le> n"
    show "spec (\<lambda>s1. s1 = s0 \<and> b = (p_sym s0 \<in> binSyms)) (if b then binaryMessage (Suc n) rc super else returnE ())
        (\<lambda>_ _ s'. emits 1 1 s0 s')"
      by (rule spec_if, rule spec_conseq [OF binaryMessage_spec [OF prim]], use s0 in simp, simp, rule spec_return)
        (use s0 in \<open>simp add: emits_refl\<close>)
  qed
  then have "E n 1 1 (bindE atBinary (\<lambda>b. if b then binaryMessage (Suc n) rc super else returnE ()))"
    by (simp add: E_def)
  from E_then [OF this binaries_E [OF prim]]
  have "E n 1 1 (thenE (bindE atBinary (\<lambda>b. if b then binaryMessage (Suc n) rc super else returnE ()))
       (whileM (Suc n) atBinary (binaryMessage (Suc n) rc False)))" .
  moreover have "thenE (bindE atBinary f) k = bindE atBinary (\<lambda>b. thenE (f b) k)" for f :: "bool \<Rightarrow> unit PM" and k :: "unit PM"
    by (rule ext) (auto simp: thenE_def bindE_def split: sum.split)
  ultimately show "E n 1 1 (bindE atBinary (\<lambda>b. thenE (if b then binaryMessage (Suc n) rc super else returnE ())
       (whileM (Suc n) atBinary (binaryMessage (Suc n) rc False))))" by simp
qed

definition kwOK :: "string \<Rightarrow> bool" where
  "kwOK k \<longleftrightarrow> is_keyword k \<and> cstr k = k"

lemma keywordParts_spec:
  assumes prim: "E n 0 1 (primary (Suc n) rc)"
  shows "spec (\<lambda>s. bok s \<and> pm s \<le> n \<and> pm s < j \<and> p_sym s = Keyword) (keywordParts j (Suc n) rc kw)
     (\<lambda>s r s'. \<exists>kws. r = kw @ concat kws \<and> kws \<noteq> [] \<and> list_all kwOK kws \<and> emits 0 (length kws) s s')"
proof (induction j arbitrary: kw)
  case 0
  show ?case by (simp add: spec_False)
next
  case (Suc j)
  show ?case
    unfolding keywordParts.simps
  proof (rule spec_bind [OF spec_pre [OF keywordM_spec]])
    fix s0 k assume s0: "bok s0 \<and> pm s0 \<le> n \<and> pm s0 < Suc j \<and> p_sym s0 = Keyword"
    then have kw: "kwOK (p_text s0)" using token_keyword [of s0] by (auto simp: kwOK_def bok_def pok_def)
    let ?P = "\<lambda>b s. bok s \<and> emits 0 b s0 s \<and> pm s < pm s0 \<and> k = p_text s0"
    have 1: "spec (\<lambda>s1. pok s1 \<and> same s0 s1 \<and> pm s1 \<le> pm s0 \<and> k = p_text s0 \<and> (p_sym s0 = Keyword \<longrightarrow> pm s1 < pm s0))
        (formula (Suc n) rc) (\<lambda>_ _ s. ?P 1 s)"
      by (rule spec_conseq [OF formula_E [OF prim, unfolded E_def]])
        (use s0 in \<open>auto intro: bok_same emits_bok same_then_emits dest: emits_pm\<close>)
    have 2: "spec (?P 1) (bindE sym (\<lambda>s. if s = Keyword then keywordParts j (Suc n) rc (kw @ k) else returnE (kw @ k)))
        (\<lambda>_ r s'. \<exists>kws. r = kw @ concat kws \<and> kws \<noteq> [] \<and> list_all kwOK kws \<and> emits 0 (length kws) s0 s')"
    proof (rule spec_sym, rule spec_if)
      fix x assume x: "x = Keyword"
      show "spec (\<lambda>s. ?P 1 s \<and> p_sym s = x) (keywordParts j (Suc n) rc (kw @ k))
        (\<lambda>_ r s'. \<exists>kws. r = kw @ concat kws \<and> kws \<noteq> [] \<and> list_all kwOK kws \<and> emits 0 (length kws) s0 s')"
      proof (rule spec_conseq [OF Suc.IH])
        fix s assume "?P 1 s \<and> p_sym s = x"
        then show "bok s \<and> pm s \<le> n \<and> pm s < j \<and> p_sym s = Keyword" using s0 x by auto
      next
        fix s r s' assume P: "?P 1 s \<and> p_sym s = x"
          and "\<exists>kws. r = (kw @ k) @ concat kws \<and> kws \<noteq> [] \<and> list_all kwOK kws \<and> emits 0 (length kws) s s'"
        then obtain kws where kws: "r = (kw @ k) @ concat kws" "list_all kwOK kws" "emits 0 (length kws) s s'" by blast
        have "emits 1 (1 + length kws) s s'" using emits_shift [OF kws(3), of 1] by simp
        then have "emits 0 (1 + length kws) s0 s'" using P emits_trans by blast
        then show "\<exists>kws. r = kw @ concat kws \<and> kws \<noteq> [] \<and> list_all kwOK kws \<and> emits 0 (length kws) s0 s'"
          using kws P kw by (intro exI [of _ "k # kws"]) simp
      qed
    next
      fix x
      show "spec (\<lambda>s. ?P 1 s \<and> p_sym s = x) (returnE (kw @ k))
        (\<lambda>_ r s'. \<exists>kws. r = kw @ concat kws \<and> kws \<noteq> [] \<and> list_all kwOK kws \<and> emits 0 (length kws) s0 s')"
        by (rule spec_return) (use kw in \<open>auto intro: exI [of _ "[k]"]\<close>)
    qed
    show "spec (\<lambda>s1. pok s1 \<and> same s0 s1 \<and> pm s1 \<le> pm s0 \<and> k = p_text s0 \<and> (p_sym s0 = Keyword \<longrightarrow> pm s1 < pm s0))
        (thenE (formula (Suc n) rc) (bindE sym (\<lambda>s. if s = Keyword then keywordParts j (Suc n) rc (kw @ k) else returnE (kw @ k))))
        (\<lambda>_ r s'. \<exists>kws. r = kw @ concat kws \<and> kws \<noteq> [] \<and> list_all kwOK kws \<and> emits 0 (length kws) s0 s')"
      by (rule spec_then [OF 1 2])
  qed simp
qed

lemma kwOK_arguments:
  assumes "list_all kwOK kws" "kws \<noteq> []"
  shows "GetNumberOfArguments (cstr (concat kws)) = length kws + 1"
proof -
  have "cstr (concat kws) = concat kws"
    using assms(1) by (induction kws) (auto simp: kwOK_def cstr_append, simp add: cstr_def)
  moreover have "list_all is_keyword kws" using assms(1) by (simp add: list_all_iff kwOK_def)
  ultimately show ?thesis using keyword_arguments assms(2) by simp
qed

lemma keywordMessage_spec:
  assumes prim: "E n 0 1 (primary (Suc n) rc)"
  shows "spec (\<lambda>s. bok s \<and> pm s \<le> n \<and> p_sym s = Keyword) (keywordMessage (Suc n) rc super)
     (\<lambda>s _ s'. emits 1 1 s s')"
  unfolding keywordMessage_def
proof (rule spec_bind [OF spec_pre [OF keywordParts_spec [OF prim]]])
  fix s0 kw assume s0: "bok s0 \<and> pm s0 \<le> n \<and> p_sym s0 = Keyword"
  let ?k = "thenE (onMgenc (\<lambda>m. snd (AddLiteralIfAbsent p m))) (emitSend super p)"
  have "spec (\<lambda>s1. bok s1 \<and> emits 0 (length kws) s0 s1)
      (bindE (vmM (SymbolFor (concat kws))) (\<lambda>msg. thenE (onMgenc (\<lambda>m. snd (AddLiteralIfAbsent msg m))) (emitSend super msg)))
      (\<lambda>_ _ s'. emits 1 1 s0 s')" if kws: "list_all kwOK kws" "kws \<noteq> []" for kws
  proof -
    have "spec bok (bindE (vmM (SymbolFor (concat kws))) (\<lambda>msg. thenE (onMgenc (\<lambda>m. snd (AddLiteralIfAbsent msg m))) (emitSend super msg)))
      (\<lambda>s _ s'. emits (1 + length kws) 1 s s' \<and> pm s' = pm s)"
      by (rule symbolFor_emit, rule spec_pre [OF send_spec]) (use kwOK_arguments [OF kws] in auto)
    then show ?thesis
    proof (rule spec_conseq)
      fix s x s' assume "bok s \<and> emits 0 (length kws) s0 s" "emits (1 + length kws) 1 s s' \<and> pm s' = pm s"
      then show "emits 1 1 s0 s'" using emits_shift [of 0 "length kws" s0 s 1] emits_trans by auto
    qed simp
  qed
  then show "spec (\<lambda>s1. \<exists>kws. kw = [] @ concat kws \<and> kws \<noteq> [] \<and> list_all kwOK kws \<and> emits 0 (length kws) s0 s1)
      (bindE (vmM (SymbolFor kw)) (\<lambda>msg. thenE (onMgenc (\<lambda>m. snd (AddLiteralIfAbsent msg m))) (emitSend super msg)))
      (\<lambda>_ _ s'. emits 1 1 s0 s')"
    using s0 unfolding spec_def by (auto dest: emits_bok)
qed auto

lemma afterOperands_E:
  assumes prim: "E n 0 1 (primary (Suc n) rc)"
  shows "E n 1 1 (bindE sym (\<lambda>s. if s = Keyword then keywordMessage (Suc n) rc super else returnE ()))"
  unfolding E_def
proof (rule spec_sym, rule spec_if)
  fix x assume "x = Keyword"
  then show "spec (\<lambda>s. (bok s \<and> pm s \<le> n) \<and> p_sym s = x) (keywordMessage (Suc n) rc super) (\<lambda>s _ s'. emits 1 1 s s')"
    by (intro spec_pre [OF keywordMessage_spec [OF prim]]) auto
qed (rule spec_return, simp add: emits_refl)

lemma spec_E_then:
  assumes "spec (\<lambda>s. bok s \<and> pm s \<le> n \<and> X s) m (\<lambda>s _ s'. emits a b s s')" "E n b c k"
  shows "spec (\<lambda>s. bok s \<and> pm s \<le> n \<and> X s) (thenE m k) (\<lambda>s _ s'. emits a c s s')"
  by (rule spec_then [OF assms(1)], rule spec_conseq [OF assms(2) [unfolded E_def]])
    (auto intro: emits_bok emits_trans dest: emits_pm)

lemma messages_spec:
  assumes prim: "E n 0 1 (primary (Suc n) rc)"
  shows "spec (\<lambda>s. bok s \<and> pm s \<le> n \<and> p_sym s \<in> {Identifier, Keyword} \<union> binSyms)
     (messages (Suc n) rc super) (\<lambda>s _ s'. emits 1 1 s s')"
  unfolding messages_def
proof (rule spec_sym, rule spec_if)
  fix x assume x: "x = Identifier"
  have "spec (\<lambda>s. bok s \<and> pm s \<le> n \<and> p_sym s = Identifier) (unaryMessage super) (\<lambda>s _ s'. emits 1 1 s s')"
    by (rule spec_conseq [OF unaryMessage_spec]) auto
  from spec_E_then [OF this E_then [OF unaries_E E_then [OF binaries_E [OF prim] afterOperands_E [OF prim]]]]
  show "spec (\<lambda>s. (bok s \<and> pm s \<le> n \<and> p_sym s \<in> {Identifier, Keyword} \<union> binSyms) \<and> p_sym s = x)
     (thenE (unaryMessage super)
        (thenE (whileM (Suc n) (bindE sym (\<lambda>s. returnE (s = Identifier))) (unaryMessage False))
        (thenE (whileM (Suc n) atBinary (binaryMessage (Suc n) rc False))
        (bindE sym (\<lambda>s. if s = Keyword then keywordMessage (Suc n) rc False else returnE ())))))
     (\<lambda>s _ s'. emits 1 1 s s')"
    by (rule spec_pre) (use x in auto)
next
  fix x assume x: "x \<noteq> Identifier"
  show "spec (\<lambda>s. (bok s \<and> pm s \<le> n \<and> p_sym s \<in> {Identifier, Keyword} \<union> binSyms) \<and> p_sym s = x)
     (bindE atBinary (\<lambda>b.
         if b then
           thenE (binaryMessage (Suc n) rc super)
          (thenE (whileM (Suc n) atBinary (binaryMessage (Suc n) rc False))
          (bindE sym (\<lambda>s. if s = Keyword then keywordMessage (Suc n) rc False else returnE ())))
         else keywordMessage (Suc n) rc super)) (\<lambda>s _ s'. emits 1 1 s s')"
  proof (rule spec_bind [where Q = "\<lambda>s b s'. s' = s \<and> b = (p_sym s \<in> binSyms)"], simp add: spec_def atBinary_run, rule spec_if)
    fix s0 b assume s0: "(bok s0 \<and> pm s0 \<le> n \<and> p_sym s0 \<in> {Identifier, Keyword} \<union> binSyms) \<and> p_sym s0 = x" and b: b
    have "spec (\<lambda>s. bok s \<and> pm s \<le> n \<and> p_sym s \<in> binSyms) (binaryMessage (Suc n) rc super) (\<lambda>s _ s'. emits 1 1 s s')"
      by (rule spec_conseq [OF binaryMessage_spec [OF prim]]) auto
    from spec_E_then [OF this E_then [OF binaries_E [OF prim] afterOperands_E [OF prim]]]
    show "spec (\<lambda>s1. s1 = s0 \<and> b = (p_sym s0 \<in> binSyms)) (thenE (binaryMessage (Suc n) rc super)
          (thenE (whileM (Suc n) atBinary (binaryMessage (Suc n) rc False))
          (bindE sym (\<lambda>s. if s = Keyword then keywordMessage (Suc n) rc False else returnE ()))))
        (\<lambda>_ _ s'. emits 1 1 s0 s')"
      by (rule spec_conseq) (use s0 b in auto)
  next
    fix s0 b assume s0: "(bok s0 \<and> pm s0 \<le> n \<and> p_sym s0 \<in> {Identifier, Keyword} \<union> binSyms) \<and> p_sym s0 = x" and b: "\<not> b"
    show "spec (\<lambda>s1. s1 = s0 \<and> b = (p_sym s0 \<in> binSyms)) (keywordMessage (Suc n) rc super) (\<lambda>_ _ s'. emits 1 1 s0 s')"
      by (rule spec_conseq [OF keywordMessage_spec [OF prim]]) (use s0 b x in auto)
  qed
qed

lemma evaluation_E:
  assumes prim: "E n 0 1 (primary (Suc n) rc)"
  shows "E n 0 1 (evaluation (Suc n) rc)"
  unfolding evaluation_def
proof (rule E_bind [OF prim])
  fix super
  show "E n 1 1 (bindE atMessage (\<lambda>b. if b then messages (Suc n) rc super else returnE ()))"
    unfolding E_def
  proof (rule spec_bind [where Q = "\<lambda>s b s'. s' = s \<and> b = (p_sym s \<in> {Identifier, Keyword} \<union> binSyms)"],
      simp add: spec_def atMessage_run, rule spec_if)
    fix s0 b assume s0: "bok s0 \<and> pm s0 \<le> n" and b: b
    show "spec (\<lambda>s1. s1 = s0 \<and> b = (p_sym s0 \<in> {Identifier, Keyword} \<union> binSyms)) (messages (Suc n) rc super) (\<lambda>_ _ s'. emits 1 1 s0 s')"
      by (rule spec_conseq [OF messages_spec [OF prim]]) (use s0 b in auto)
  qed (rule spec_return, simp add: emits_refl)
qed

lemma expression_E:
  assumes prim: "E n 0 1 (primary (Suc n) rc)"
  shows "E n 0 1 (expression (Suc n) rc)"
proof -
  have asg: "E n 0 1 (assignation (Suc n) rc)"
    unfolding assignation_def E_def
  proof (rule spec_bind [OF spec_pre [OF assignments_spec [where k = 0]]])
    fix s0 l assume s0: "bok s0 \<and> pm s0 \<le> n"
    let ?P = "\<lambda>b s. bok s \<and> emits 0 b s0 s \<and> pm s \<le> n \<and> (\<forall>v \<in> set l. hasLit s v)"
    have 1: "spec (\<lambda>s1. emits 0 0 s0 s1 \<and> (\<forall>v \<in> set l. hasLit s1 v)) (evaluation (Suc n) rc) (\<lambda>_ _. ?P 1)"
      by (rule spec_conseq [OF evaluation_E [OF prim, unfolded E_def]])
        (use s0 in \<open>auto intro: emits_bok emits_trans hasLit_emits emits_pm_le\<close>)
    have 2: "spec (?P 1) (forE l (\<lambda>_. onMgenc EmitDUP)) (\<lambda>_ _. ?P (1 + length l))"
      by (rule spec_conseq [OF emitDUPs_spec [of l 0]])
        (use s0 in \<open>auto intro: emits_bok emits_trans hasLit_emits dest: emits_pm\<close>)
    have 3: "spec (?P (1 + length l)) (forE l genPopVariable) (\<lambda>_ _ s'. emits 0 1 s0 s')"
      by (rule spec_conseq [OF genPopVariables_spec [of l 1]]) (auto intro: emits_trans)
    show "spec (\<lambda>s1. emits 0 0 s0 s1 \<and> (\<forall>v \<in> set l. hasLit s1 v))
       (thenE (evaluation (Suc n) rc) (thenE (forE l (\<lambda>_. onMgenc EmitDUP)) (forE l genPopVariable))) (\<lambda>_ _ s'. emits 0 1 s0 s')"
      by (rule spec_then [OF 1 spec_then [OF 2 3]])
  qed auto
  have peek: "E n 0 0 PEEK"
    by (rule E_tok) (rule PEEK_spec)
  show ?thesis
    unfolding expression_def
    by (intro E_then [OF peek] E_gets E_if asg evaluation_E [OF prim])
qed

end
