(* ===== verification/BodyLaws.thy ===== *)
theory BodyLaws
  imports ExprLaws
begin

text \<open>
  Bodies of blocks and methods: a body ends with a return on a stack that holds one value, an
  assembled block is a verified method, and the mutual recursion of the grammar keeps both
  specifications with a bound above the measure of the input.
\<close>

section \<open>Bodies\<close>

definition bodyAt :: "nat \<Rightarrow> pstate \<Rightarrow> pstate \<Rightarrow> bool" where
  "bodyAt d s0 s \<longleftrightarrow>
     pok s \<and> vm_le (p_vm s0) (p_vm s) \<and> p_cgenc s = p_cgenc s0 \<and> pm s \<le> pm s0 \<and>
     (\<exists>m ms c l. p_ctxs s0 = m # ms \<and> p_ctxs s = m\<lparr>m_bytecode := c, m_literals := l\<rparr> # ms \<and>
        \<not> m_finished m \<and> okLits (p_vm s) (envOf (m # ms)) l \<and>
        (fits (envOf (m # ms)) (length l) \<longrightarrow>
           (\<exists>mx. scan (envOf (m # ms)) (litOf (p_vm s) l) c 0 = Some (d, mx))))"

definition codeDone :: "env \<Rightarrow> (nat \<Rightarrow> lit option) \<Rightarrow> u8 list \<Rightarrow> bool" where
  "codeDone env lt code \<longleftrightarrow> code = [opcode BC_RETURN_LOCAL] \<or>
     (\<exists>body r mx. code = body @ [opcode r] \<and> (r = BC_RETURN_LOCAL \<or> r = BC_RETURN_NON_LOCAL) \<and>
        scan env lt body 0 = Some (1, mx))"

text \<open>The end of a body: it is finished, or its last statement's value is on the stack.\<close>

definition bodyEnd :: "env \<Rightarrow> vm \<Rightarrow> bool \<Rightarrow> u8 list \<Rightarrow> ptr list \<Rightarrow> bool" where
  "bodyEnd env v f c l \<longleftrightarrow>
     okLits v env l \<and>
     (fits env (length l) \<longrightarrow>
        (if f then codeDone env (litOf v l) c
         else \<exists>mx. scan env (litOf v l) c 0 = Some (1, mx)))"

definition bodyDone :: "pstate \<Rightarrow> pstate \<Rightarrow> bool" where
  "bodyDone s0 s \<longleftrightarrow>
     pok s \<and> vm_le (p_vm s0) (p_vm s) \<and> p_cgenc s = p_cgenc s0 \<and> pm s \<le> pm s0 \<and>
     (\<exists>m ms c l f. p_ctxs s0 = m # ms \<and>
        p_ctxs s = m\<lparr>m_bytecode := c, m_literals := l, m_finished := f\<rparr> # ms \<and>
        bodyEnd (envOf (m # ms)) (p_vm s) f c l)"

definition bodyStart :: "bool \<Rightarrow> pstate \<Rightarrow> bool" where
  "bodyStart seen s \<longleftrightarrow>
     bok s \<and>
     (\<exists>m ms. p_ctxs s = m # ms \<and> \<not> m_finished m \<and> okLits (p_vm s) (envOf (m # ms)) (m_literals m) \<and>
        (if seen then
           (\<exists>c. m_bytecode m = c @ [opcode BC_POP] \<and>
              (fits (envOf (m # ms)) (length (m_literals m)) \<longrightarrow>
                 (\<exists>mx. scan (envOf (m # ms)) (litOf (p_vm s) (m_literals m)) c 0 = Some (1, mx))))
         else m_bytecode m = []))"

lemma scan_POP:
  assumes "scan env lt c 0 = Some (1, mx)"
  shows "scan env lt (c @ [opcode BC_POP]) 0 = Some (0, max mx 1)"
proof -
  have "scan env lt [opcode BC_POP] 1 = Some (0, max 1 0)" by (rule scan_instr [OF refl]) simp_all
  from scan_append_Some [OF assms this] show ?thesis by simp
qed

lemma mgenc_self: "m\<lparr>m_bytecode := m_bytecode m, m_literals := m_literals m\<rparr> = m"
  by simp

lemma bodyStart_at: assumes "bodyStart seen s" shows "bodyAt 0 s s"
proof -
  obtain m ms where c: "p_ctxs s = m # ms" "\<not> m_finished m" "okLits (p_vm s) (envOf (m # ms)) (m_literals m)"
    and code: "if seen then
           (\<exists>c. m_bytecode m = c @ [opcode BC_POP] \<and>
              (fits (envOf (m # ms)) (length (m_literals m)) \<longrightarrow>
                 (\<exists>mx. scan (envOf (m # ms)) (litOf (p_vm s) (m_literals m)) c 0 = Some (1, mx))))
         else m_bytecode m = []"
    using assms unfolding bodyStart_def by blast
  have "fits (envOf (m # ms)) (length (m_literals m)) \<longrightarrow>
     (\<exists>mx. scan (envOf (m # ms)) (litOf (p_vm s) (m_literals m)) (m_bytecode m) 0 = Some (0, mx))"
    using code scan_POP by (cases seen) auto
  with c assms show ?thesis
    unfolding bodyAt_def bodyStart_def by (metis mgenc_self bok_pok order_refl vm_le_refl)
qed

lemma bodyAt_emits:
  assumes "bodyAt a s0 s1" "emits a b s1 s2"
  shows "bodyAt b s0 s2"
proof -
  obtain m ms c1 l1 where 1: "p_ctxs s0 = m # ms" "p_ctxs s1 = m\<lparr>m_bytecode := c1, m_literals := l1\<rparr> # ms"
    "\<not> m_finished m" "okLits (p_vm s1) (envOf (m # ms)) l1"
    "fits (envOf (m # ms)) (length l1) \<longrightarrow>
           (\<exists>mx. scan (envOf (m # ms)) (litOf (p_vm s1) l1) c1 0 = Some (a, mx))"
    using assms(1) unfolding bodyAt_def by blast
  obtain c2 l2 where 2: "p_ctxs s2 = m\<lparr>m_bytecode := c1 @ c2, m_literals := l1 @ l2\<rparr> # ms"
    "okLits (p_vm s2) (envOf (m # ms)) l2"
    "fits (envOf (m # ms)) (length (l1 @ l2)) \<longrightarrow>
       (\<forall>d. \<exists>mx. scan (envOf (m # ms)) (litOf (p_vm s2) (l1 @ l2)) c2 (d + a) = Some (d + b, mx))"
    using assms(2) 1(2) unfolding emits_def by auto
  have le: "vm_le (p_vm s1) (p_vm s2)" using assms(2) by (simp add: emits_def)
  have "\<exists>mx. scan (envOf (m # ms)) (litOf (p_vm s2) (l1 @ l2)) (c1 @ c2) 0 = Some (b, mx)"
    if f: "fits (envOf (m # ms)) (length (l1 @ l2))"
  proof -
    obtain m1 where "scan (envOf (m # ms)) (litOf (p_vm s1) l1) c1 0 = Some (a, m1)"
      using 1(5) fits_le [OF f] by auto
    then have "scan (envOf (m # ms)) (litOf (p_vm s2) (l1 @ l2)) c1 0 = Some (a, m1)"
      by (rule scan_mono) (rule litOf_mono [OF le])
    moreover obtain m2 where "scan (envOf (m # ms)) (litOf (p_vm s2) (l1 @ l2)) c2 a = Some (b, m2)"
      using 2(3) f by (metis add_0)
    ultimately show ?thesis using scan_append_Some by blast
  qed
  moreover have "pok s2" "p_cgenc s2 = p_cgenc s0" "pm s2 \<le> pm s0" "vm_le (p_vm s0) (p_vm s2)"
    using assms vm_le_trans by (auto simp: emits_def bodyAt_def)
  moreover have "okLits (p_vm s2) (envOf (m # ms)) (l1 @ l2)" using 1(4) 2(2) le okLits_le by simp
  ultimately show ?thesis unfolding bodyAt_def using 1(1,3) 2(1) by blast
qed

lemma bodyAt_bok: "bok s0 \<Longrightarrow> bodyAt d s0 s \<Longrightarrow> bok s"
  by (auto simp: bok_def bodyAt_def)

lemma bodyAt_same:
  "bodyAt d s0 s1 \<Longrightarrow> pok s2 \<Longrightarrow> same s1 s2 \<Longrightarrow> pm s2 \<le> pm s1 \<Longrightarrow> bodyAt d s0 s2"
  by (rule bodyAt_emits, assumption, rule same_emits) (auto simp: bodyAt_def)

lemma bodyAt_pok: "bodyAt d s0 s \<Longrightarrow> pok s"
  by (simp add: bodyAt_def)

lemma bodyAt_E: "E n a b m \<Longrightarrow> spec (\<lambda>s. bok s0 \<and> bodyAt a s0 s \<and> pm s \<le> n) m (\<lambda>_ _ s'. bok s0 \<and> bodyAt b s0 s' \<and> pm s' \<le> n)"
  unfolding E_def by (erule spec_conseq) (auto intro: bodyAt_bok bodyAt_emits emits_pm_le)

text \<open>A return instruction ends a body.\<close>

lemma bodyAt_return:
  assumes b: "bodyAt 1 s0 s" and r: "r = BC_RETURN_LOCAL \<or> r = BC_RETURN_NON_LOCAL"
    and s': "\<And>m ms. p_ctxs s = m # ms \<Longrightarrow> s' = s\<lparr>p_ctxs := SetFinished True (EMIT1 r m) # ms\<rparr>"
  shows "bodyDone s0 s'"
proof -
  obtain m ms c l where 1: "p_ctxs s0 = m # ms" "p_ctxs s = m\<lparr>m_bytecode := c, m_literals := l\<rparr> # ms"
    "okLits (p_vm s) (envOf (m # ms)) l"
    "fits (envOf (m # ms)) (length l) \<longrightarrow>
           (\<exists>mx. scan (envOf (m # ms)) (litOf (p_vm s) l) c 0 = Some (1, mx))"
    using b unfolding bodyAt_def by blast
  have eq: "s' = s\<lparr>p_ctxs := m\<lparr>m_bytecode := c @ [opcode r], m_literals := l, m_finished := True\<rparr> # ms\<rparr>"
    using s' [OF 1(2)] by (simp add: SetFinished_def EMIT1_def AddBytecode_def)
  have "bodyEnd (envOf (m # ms)) (p_vm s) True (c @ [opcode r]) l"
    using 1(3,4) r unfolding codeDone_def bodyEnd_def by auto
  then show ?thesis
    unfolding bodyDone_def
    by (intro conjI exI [of _ m] exI [of _ ms] exI [of _ "c @ [opcode r]"] exI [of _ l] exI [of _ True])
      (use b 1 in \<open>simp_all add: eq bodyAt_def\<close>)
qed

lemma bodyDone_same:
  "bodyDone s0 s1 \<Longrightarrow> pok s2 \<Longrightarrow> same s1 s2 \<Longrightarrow> pm s2 \<le> pm s1 \<Longrightarrow> bodyDone s0 s2"
  unfolding bodyDone_def same_def by (elim conjE exE) (simp, blast)

lemma bodyDone_trans:
  assumes "bodyAt d s0 s1" "bodyDone s1 s2"
  shows "bodyDone s0 s2"
proof -
  obtain m ms c1 l1 where 1: "p_ctxs s0 = m # ms" "p_ctxs s1 = m\<lparr>m_bytecode := c1, m_literals := l1\<rparr> # ms"
    using assms(1) unfolding bodyAt_def by blast
  obtain c2 l2 f where 2: "p_ctxs s2 = m\<lparr>m_bytecode := c2, m_literals := l2, m_finished := f\<rparr> # ms"
    "bodyEnd (envOf (m # ms)) (p_vm s2) f c2 l2"
    using assms(2) 1(2) unfolding bodyDone_def by auto
  have "pok s2" "vm_le (p_vm s0) (p_vm s2)" "p_cgenc s2 = p_cgenc s0" "pm s2 \<le> pm s0"
    using assms vm_le_trans by (auto simp: bodyDone_def bodyAt_def)
  with 1(1) 2 show ?thesis unfolding bodyDone_def by blast
qed

lemma bodyAt_finish:
  assumes "bodyAt 1 s0 s" shows "bodyDone s0 s"
proof -
  obtain m ms c l where 1: "p_ctxs s0 = m # ms" "p_ctxs s = m\<lparr>m_bytecode := c, m_literals := l\<rparr> # ms"
    "\<not> m_finished m" "okLits (p_vm s) (envOf (m # ms)) l"
    "fits (envOf (m # ms)) (length l) \<longrightarrow>
           (\<exists>mx. scan (envOf (m # ms)) (litOf (p_vm s) l) c 0 = Some (1, mx))"
    using assms unfolding bodyAt_def by blast
  then have "p_ctxs s = m\<lparr>m_bytecode := c, m_literals := l, m_finished := False\<rparr> # ms" by simp
  moreover have "bodyEnd (envOf (m # ms)) (p_vm s) False c l" using 1 by (simp add: bodyEnd_def)
  ultimately show ?thesis using 1(1) assms unfolding bodyDone_def bodyAt_def by blast
qed

lemma return_spec:
  assumes "r = BC_RETURN_LOCAL \<or> r = BC_RETURN_NON_LOCAL"
  shows "spec (bodyAt 1 s0) (thenE (onMgenc (EMIT1 r)) (onMgenc (SetFinished True))) (\<lambda>_ _ s'. bodyDone s0 s')"
  unfolding spec_def
proof (intro allI impI)
  fix s assume b: "bodyAt 1 s0 s"
  then obtain m ms where c: "p_ctxs s = m # ms" by (auto simp: bodyAt_def)
  have "thenE (onMgenc (EMIT1 r)) (onMgenc (SetFinished True)) s = Inr ((), s\<lparr>p_ctxs := SetFinished True (EMIT1 r m) # ms\<rparr>)"
    by (simp add: onMgenc_def c thenE_def bindE_def)
  moreover have "bodyDone s0 (s\<lparr>p_ctxs := SetFinished True (EMIT1 r m) # ms\<rparr>)"
    by (rule bodyAt_return [OF b assms]) (use c in simp)
  ultimately show "case thenE (onMgenc (EMIT1 r)) (onMgenc (SetFinished True)) s of
     Inl e \<Rightarrow> e \<noteq> OutOfFuel | Inr r \<Rightarrow> bodyDone s0 (snd r)" by simp
qed

lemma EmitRETURN_alt: "EmitRETURNLOCAL = EMIT1 BC_RETURN_LOCAL" "EmitRETURNNONLOCAL = EMIT1 BC_RETURN_NON_LOCAL"
  "EmitPOP = EMIT1 BC_POP"
  by (simp_all add: fun_eq_iff EmitRETURNLOCAL_def EmitRETURNNONLOCAL_def EmitPOP_def)

lemma emptyBody_spec:
  "spec (\<lambda>s. bodyStart False s0 \<and> same s0 s \<and> pok s \<and> pm s \<le> pm s0)
     (thenE (onMgenc EmitRETURNLOCAL) (onMgenc (SetFinished True))) (\<lambda>_ _ s'. bodyDone s0 s')"
  unfolding spec_def
proof (intro allI impI, elim conjE)
  fix s assume st: "bodyStart False s0" and sm: "same s0 s" "pok s" "pm s \<le> pm s0"
  then obtain m ms where c: "p_ctxs s0 = m # ms" "p_ctxs s = m # ms" "m_bytecode m = []" "p_vm s = p_vm s0"
     "okLits (p_vm s) (envOf (m # ms)) (m_literals m)"
    by (auto simp: bodyStart_def same_def)
  let ?c = "[opcode BC_RETURN_LOCAL]"
  have run: "thenE (onMgenc EmitRETURNLOCAL) (onMgenc (SetFinished True)) s =
     Inr ((), s\<lparr>p_ctxs := m\<lparr>m_bytecode := ?c, m_literals := m_literals m, m_finished := True\<rparr> # ms\<rparr>)"
    using c(2,3) by (simp add: onMgenc_def thenE_def bindE_def SetFinished_def EmitRETURNLOCAL_def EMIT1_def AddBytecode_def)
  have "bodyDone s0 (s\<lparr>p_ctxs := m\<lparr>m_bytecode := ?c, m_literals := m_literals m, m_finished := True\<rparr> # ms\<rparr>)"
    unfolding bodyDone_def
    by (intro conjI exI [of _ m] exI [of _ ms] exI [of _ ?c] exI [of _ "m_literals m"] exI [of _ True])
      (use sm c in \<open>simp_all add: same_def codeDone_def bodyEnd_def\<close>)
  with run show "case thenE (onMgenc EmitRETURNLOCAL) (onMgenc (SetFinished True)) s of
     Inl e \<Rightarrow> e \<noteq> OutOfFuel | Inr r \<Rightarrow> bodyDone s0 (snd r)" by simp
qed

lemma removePop_spec:
  "spec (\<lambda>s. bodyStart True s0 \<and> same s0 s \<and> pok s \<and> pm s \<le> pm s0) (onMgenc RemoveLastBytecode) (\<lambda>_ _ s'. bodyAt 1 s0 s')"
  unfolding spec_def
proof (intro allI impI, elim conjE)
  fix s assume st: "bodyStart True s0" and sm: "same s0 s" "pok s" "pm s \<le> pm s0"
  then obtain m ms c where c: "p_ctxs s0 = m # ms" "p_ctxs s = m # ms" "m_bytecode m = c @ [opcode BC_POP]" "p_vm s = p_vm s0"
     "okLits (p_vm s) (envOf (m # ms)) (m_literals m)" "\<not> m_finished m"
     "fits (envOf (m # ms)) (length (m_literals m)) \<longrightarrow>
         (\<exists>mx. scan (envOf (m # ms)) (litOf (p_vm s) (m_literals m)) c 0 = Some (1, mx))"
    by (auto simp: bodyStart_def same_def)
  have run: "onMgenc RemoveLastBytecode s =
     Inr ((), s\<lparr>p_ctxs := m\<lparr>m_bytecode := c, m_literals := m_literals m\<rparr> # ms\<rparr>)"
    using c(3) by (simp add: onMgenc_run [OF c(2)] RemoveLastBytecode_def)
  have "bodyAt 1 s0 (s\<lparr>p_ctxs := m\<lparr>m_bytecode := c, m_literals := m_literals m\<rparr> # ms\<rparr>)"
    unfolding bodyAt_def
    by (intro conjI exI [of _ m] exI [of _ ms] exI [of _ c] exI [of _ "m_literals m"])
      (use sm c in \<open>simp_all add: same_def\<close>)
  with run show "case onMgenc RemoveLastBytecode s of
     Inl e \<Rightarrow> e \<noteq> OutOfFuel | Inr r \<Rightarrow> bodyAt 1 s0 (snd r)" by simp
qed

lemma pushSelf_E: "E n 0 1 (onMgenc (EmitPUSHARGUMENT 0 0))"
proof -
  have "spec (\<lambda>s. (\<exists>j x. 0 = j \<and> j < length (p_ctxs s) \<and> (0::int) = int x \<and>
        x < (if True then snd (envOf (p_ctxs s) ! j) else fst (envOf (p_ctxs s) ! j))) \<and> bok s)
     (onMgenc (EMIT3 BC_PUSH_ARGUMENT 0 (int 0))) (\<lambda>s _ s'. emits 0 1 s s' \<and> pm s' = pm s)"
    by (rule emit_variable) simp_all
  moreover have "EMIT3 BC_PUSH_ARGUMENT 0 (int 0) = EmitPUSHARGUMENT 0 0"
    by (simp add: EmitPUSHLOCAL_alt)
  ultimately have "spec (\<lambda>s. (\<exists>j x. 0 = j \<and> j < length (p_ctxs s) \<and> (0::int) = int x \<and>
        x < (if True then snd (envOf (p_ctxs s) ! j) else fst (envOf (p_ctxs s) ! j))) \<and> bok s)
     (onMgenc (EmitPUSHARGUMENT 0 0)) (\<lambda>s _ s'. emits 0 1 s s' \<and> pm s' = pm s)" by (simp only:)
  then show ?thesis
    unfolding E_def
    by (rule spec_conseq) (auto simp: bok_def envOf_def neq_Nil_conv)
qed

lemma pop_spec:
  "spec (\<lambda>s. bok s0 \<and> bodyAt 1 s0 s) (onMgenc EmitPOP) (\<lambda>s _ s'. bodyStart True s' \<and> bodyAt 0 s0 s' \<and> pm s' = pm s)"
  unfolding spec_def
proof (intro allI impI, elim conjE)
  fix s assume bs: "bok s0" and b: "bodyAt 1 s0 s"
  then obtain m ms c l where 1: "p_ctxs s0 = m # ms" "p_ctxs s = m\<lparr>m_bytecode := c, m_literals := l\<rparr> # ms"
    "\<not> m_finished m" "okLits (p_vm s) (envOf (m # ms)) l"
    "fits (envOf (m # ms)) (length l) \<longrightarrow>
           (\<exists>mx. scan (envOf (m # ms)) (litOf (p_vm s) l) c 0 = Some (1, mx))"
    unfolding bodyAt_def by blast
  let ?s' = "s\<lparr>p_ctxs := m\<lparr>m_bytecode := c @ [opcode BC_POP], m_literals := l\<rparr> # ms\<rparr>"
  have run: "onMgenc EmitPOP s = Inr ((), ?s')"
    by (simp add: onMgenc_run [OF 1(2)] EmitPOP_def EMIT1_def AddBytecode_def)
  have "bodyStart True ?s'"
    using bodyAt_bok [OF bs b] 1 by (simp add: bodyStart_def bok_def)
  moreover have "bodyAt 0 s0 ?s'"
    unfolding bodyAt_def
    by (intro conjI exI [of _ m] exI [of _ ms] exI [of _ "c @ [opcode BC_POP]"] exI [of _ l])
      (use b 1 scan_POP in \<open>auto simp: bodyAt_def\<close>)
  ultimately show "case onMgenc EmitPOP s of Inl e \<Rightarrow> e \<noteq> OutOfFuel
     | Inr r \<Rightarrow> bodyStart True (snd r) \<and> bodyAt 0 s0 (snd r) \<and> pm (snd r) = pm s"
    using run by simp
qed

text \<open>What the recursion promises below a bound.\<close>

definition rcOK :: "nat \<Rightarrow> rec \<Rightarrow> bool" where
  "rcOK n rc \<longleftrightarrow>
     spec (\<lambda>s. bok s \<and> pm s < n) (rc NExpression) (\<lambda>s _ s'. emits 0 1 s s') \<and>
     (\<forall>seen. spec (\<lambda>s. bodyStart seen s \<and> pm s < n) (rc (NBlockBody seen)) (\<lambda>s _ s'. bodyDone s s'))"

lemma bodyAt_accept:
  "spec (bodyAt d s0) (accept x) (\<lambda>s b s'. bodyAt d s0 s' \<and> pm s' \<le> pm s \<and> (b \<longrightarrow> x \<noteq> NONE \<longrightarrow> pm s' < pm s))"
  by (rule spec_conseq [OF accept_spec]) (auto intro: bodyAt_same bodyAt_pok)

lemma thenE_assoc: "thenE (thenE a b) c = thenE a (thenE b c)"
  by (rule ext) (auto simp: thenE_def bindE_def split: sum.split)

lemma bind_then_assoc: "thenE (bindE a f) c = bindE a (\<lambda>x. thenE (f x) c)"
  by (rule ext) (auto simp: thenE_def bindE_def split: sum.split)

lemma result_spec:
  assumes ex: "E n 0 1 ex"
  shows "spec (\<lambda>s. bok s0 \<and> bodyAt 0 s0 s \<and> pm s \<le> n) (result ex) (\<lambda>_ _ s'. bodyDone s0 s')"
proof -
  have ret: "spec (\<lambda>s. bok s0 \<and> bodyAt 1 s0 s \<and> pm s \<le> n)
     (thenE (if b then onMgenc EmitRETURNNONLOCAL else onMgenc EmitRETURNLOCAL) (onMgenc (SetFinished True)))
     (\<lambda>_ _ s'. bodyDone s0 s')" for b
    unfolding EmitRETURN_alt
    by (cases b) (auto intro: spec_pre [OF return_spec])
  have fin: "spec (bodyDone s0) (thenE (accept Period) (returnE ())) (\<lambda>_ _ s'. bodyDone s0 s')"
    by (rule spec_then [OF spec_pre [OF accept_spec]], simp add: bodyDone_def, rule spec_return)
      (auto intro: bodyDone_same)
  have tail: "spec (\<lambda>s. bok s0 \<and> bodyAt 1 s0 s \<and> pm s \<le> n)
     (thenE (if b then onMgenc EmitRETURNNONLOCAL else onMgenc EmitRETURNLOCAL)
        (thenE (onMgenc (SetFinished True)) (thenE (accept Period) (returnE ()))))
     (\<lambda>_ _ s'. bodyDone s0 s')" for b
    using spec_then [OF ret [of b] fin] by (simp only: thenE_assoc)
  show ?thesis
    unfolding result_def
  proof (rule spec_then [OF bodyAt_E [OF ex]], rule spec_bind [where Q = "\<lambda>s m s'. s' = s"])
    show "spec (\<lambda>s1. bok s0 \<and> bodyAt 1 s0 s1 \<and> pm s1 \<le> n) mgenc (\<lambda>s m s'. s' = s)"
      by (simp add: spec_def mgenc_def split: list.split)
    fix s1 and m :: mgenc assume "bok s0 \<and> bodyAt 1 s0 s1 \<and> pm s1 \<le> n"
    then show "spec (\<lambda>s2. s2 = s1)
       (thenE (if m_blockMethod m then onMgenc EmitRETURNNONLOCAL else onMgenc EmitRETURNLOCAL)
         (thenE (onMgenc (SetFinished True)) (thenE (accept Period) (returnE ())))) (\<lambda>_ _ s'. bodyDone s0 s')"
      by (intro spec_conseq [OF tail]) auto
  qed
qed

lemma blockBody_spec:
  assumes ex: "E n 0 1 ex" and rc: "rcOK n rc"
  shows "spec (\<lambda>s. bodyStart seen s \<and> pm s \<le> n) (blockBody ex rc seen) (\<lambda>s _ s'. bodyDone s s')"
  unfolding blockBody_def
proof (rule spec_bind [OF spec_pre [OF accept_spec]], simp add: bodyStart_def, rule spec_if)
  fix s0 b assume s0: "bodyStart seen s0 \<and> pm s0 \<le> n" and b: b
  then have at: "bodyAt 0 s0 s0" "bok s0" by (auto intro: bodyStart_at simp: bodyStart_def)
  show "spec (\<lambda>s1. pok s1 \<and> same s0 s1 \<and> pm s1 \<le> pm s0 \<and> b = (p_sym s0 = Exit) \<and>
       (b \<longrightarrow> Exit \<noteq> NONE \<longrightarrow> pm s1 < pm s0) \<and> (\<not> b \<longrightarrow> s1 = s0)) (result ex) (\<lambda>_ _ s'. bodyDone s0 s')"
    by (rule spec_conseq [OF result_spec [OF ex, of s0]]) (use at s0 in \<open>auto intro: bodyAt_same\<close>)
next
  fix s0 b assume s0: "bodyStart seen s0 \<and> pm s0 \<le> n" and b: "\<not> b"
  then have at: "bodyAt 0 s0 s0" "bok s0" by (auto intro: bodyStart_at simp: bodyStart_def)
  let ?P = "\<lambda>s1. bok s0 \<and> bodyAt 0 s0 s1 \<and> pm s1 \<le> n"
  have endBlock: "spec (\<lambda>s1. s1 = s0) (thenE (if seen then onMgenc RemoveLastBytecode else returnE ())
      (thenE (onMgenc EmitRETURNLOCAL) (onMgenc (SetFinished True)))) (\<lambda>_ _ s'. bodyDone s0 s')"
  proof (cases seen)
    case True
    have "spec (\<lambda>s1. s1 = s0) (thenE (onMgenc RemoveLastBytecode)
      (thenE (onMgenc EmitRETURNLOCAL) (onMgenc (SetFinished True)))) (\<lambda>_ _ s'. bodyDone s0 s')"
      unfolding EmitRETURN_alt
      by (rule spec_then [OF spec_pre [OF removePop_spec [of s0]] return_spec [of BC_RETURN_LOCAL s0]])
        (use s0 True in \<open>simp_all add: same_def bodyStart_def\<close>)
    then show ?thesis using True by simp
  next
    case False
    have "spec (\<lambda>s1. s1 = s0) (thenE (returnE ())
      (thenE (onMgenc EmitRETURNLOCAL) (onMgenc (SetFinished True)))) (\<lambda>_ _ s'. bodyDone s0 s')"
      by (rule spec_then [where Q = "\<lambda>s _ s'. s' = s"], rule spec_return, simp,
          rule spec_conseq [OF emptyBody_spec [of s0]])
        (use s0 False in \<open>auto simp: same_def bodyStart_def\<close>)
    then show ?thesis using False by simp
  qed
  have endTerm: "spec ?P (thenE (onMgenc (EmitPUSHARGUMENT 0 0))
      (thenE (onMgenc EmitRETURNLOCAL) (onMgenc (SetFinished True)))) (\<lambda>_ _ s'. bodyDone s0 s')"
    unfolding EmitRETURN_alt
    by (rule spec_then [OF bodyAt_E [OF pushSelf_E]], rule spec_pre [OF return_spec [of BC_RETURN_LOCAL s0]]) auto
  have statement: "spec ?P (thenE ex (bindE (accept Period) (\<lambda>p.
      if p then thenE (onMgenc EmitPOP) (rc (NBlockBody True)) else returnE ()))) (\<lambda>_ _ s'. bodyDone s0 s')"
  proof (rule spec_then [OF bodyAt_E [OF ex]], rule spec_bind [OF spec_pre [OF bodyAt_accept [of 1 s0]]], simp, rule spec_if)
    fix s1 p assume s1: "bok s0 \<and> bodyAt 1 s0 s1 \<and> pm s1 \<le> n" and p: p
    have "spec (\<lambda>s. bodyAt 1 s0 s \<and> pm s < n) (thenE (onMgenc EmitPOP) (rc (NBlockBody True))) (\<lambda>_ _ s'. bodyDone s0 s')"
    proof (rule spec_then [OF spec_pre [OF pop_spec [of s0]]])
      fix s2 assume s2: "bodyAt 1 s0 s2 \<and> pm s2 < n"
      show "spec (\<lambda>s. bodyStart True s \<and> bodyAt 0 s0 s \<and> pm s = pm s2) (rc (NBlockBody True)) (\<lambda>_ _ s'. bodyDone s0 s')"
        by (rule spec_conseq [OF conjunct2 [OF rc [unfolded rcOK_def], rule_format, of True]])
          (use s2 in \<open>auto intro: bodyDone_trans\<close>)
    qed (use s1 in auto)
    then show "spec (\<lambda>s. bodyAt 1 s0 s \<and> pm s \<le> pm s1 \<and> (p \<longrightarrow> Period \<noteq> NONE \<longrightarrow> pm s < pm s1))
       (thenE (onMgenc EmitPOP) (rc (NBlockBody True))) (\<lambda>_ _ s'. bodyDone s0 s')"
      by (rule spec_pre) (use s1 p in auto)
  qed (rule spec_return, auto intro: bodyAt_finish)
  show "spec (\<lambda>s1. pok s1 \<and> same s0 s1 \<and> pm s1 \<le> pm s0 \<and> b = (p_sym s0 = Exit) \<and>
       (b \<longrightarrow> Exit \<noteq> NONE \<longrightarrow> pm s1 < pm s0) \<and> (\<not> b \<longrightarrow> s1 = s0))
     (bindE sym (\<lambda>s.
         if s = EndBlock then
           thenE (if seen then onMgenc RemoveLastBytecode else returnE ())
          (thenE (onMgenc EmitRETURNLOCAL) (onMgenc (SetFinished True)))
         else if s = EndTerm then
           thenE (onMgenc (EmitPUSHARGUMENT 0 0))
          (thenE (onMgenc EmitRETURNLOCAL) (onMgenc (SetFinished True)))
         else
           thenE ex
          (bindE (accept Period) (\<lambda>p.
             if p then thenE (onMgenc EmitPOP) (rc (NBlockBody True)) else returnE ()))))
     (\<lambda>_ _ s'. bodyDone s0 s')"
    by (rule spec_sym, intro spec_if spec_pre [OF endBlock] spec_pre [OF endTerm] spec_pre [OF statement])
      (use b at s0 in auto)
qed

section \<open>Methods under construction\<close>

definition header :: "mgenc \<Rightarrow> bool" where
  "header m \<longleftrightarrow> m_bytecode m = [] \<and> m_literals m = [] \<and> \<not> m_finished m \<and> \<not> m_primitive m \<and> m_arguments m \<noteq> []"

definition sigOK :: "vm \<Rightarrow> mgenc \<Rightarrow> bool" where
  "sigOK v m \<longleftrightarrow> (\<exists>t. strOf v (m_signature m) = Some t \<and> GetNumberOfArguments t = length (m_arguments m))"

definition reach :: "pstate \<Rightarrow> pstate \<Rightarrow> bool" where
  "reach s0 s \<longleftrightarrow> pok s \<and> vm_le (p_vm s0) (p_vm s) \<and> p_cgenc s = p_cgenc s0 \<and> pm s \<le> pm s0"

definition hdr :: "bool \<Rightarrow> mgenc list \<Rightarrow> pstate \<Rightarrow> pstate \<Rightarrow> bool" where
  "hdr b ms s0 s \<longleftrightarrow> reach s0 s \<and>
     (\<exists>m. p_ctxs s = m # ms \<and> header m \<and> (b \<longrightarrow> sigOK (p_vm s) m))"

definition built :: "mgenc list \<Rightarrow> pstate \<Rightarrow> pstate \<Rightarrow> bool" where
  "built ms s0 s \<longleftrightarrow> reach s0 s \<and>
     (\<exists>m. p_ctxs s = m # ms \<and> \<not> m_primitive m \<and> m_arguments m \<noteq> [] \<and> sigOK (p_vm s) m \<and>
        bodyEnd (envOf (m # ms)) (p_vm s) (m_finished m) (m_bytecode m) (m_literals m))"

lemma reach_refl: "pok s \<Longrightarrow> reach s s"
  by (simp add: reach_def)

lemma reach_trans: "reach s t \<Longrightarrow> reach t u \<Longrightarrow> reach s u"
  unfolding reach_def using vm_le_trans le_trans by metis

lemma reach_same: "reach s0 s \<Longrightarrow> pok s' \<Longrightarrow> same s s' \<Longrightarrow> pm s' \<le> pm s \<Longrightarrow> reach s0 s'"
  by (auto simp: reach_def same_def)

lemma reach_pok: "reach s0 s \<Longrightarrow> pok s"
  by (simp add: reach_def)

lemma sigOK_le: "sigOK v m \<Longrightarrow> vm_le v v' \<Longrightarrow> sigOK v' m"
  by (auto simp: sigOK_def dest: vm_le_strOf)

lemma hdr_same: "hdr b ms s0 s \<Longrightarrow> pok s' \<Longrightarrow> same s s' \<Longrightarrow> pm s' \<le> pm s \<Longrightarrow> hdr b ms s0 s'"
  unfolding hdr_def using reach_same by (fastforce simp: same_def)

lemma hdr_pok: "hdr b ms s0 s \<Longrightarrow> pok s"
  by (auto simp: hdr_def reach_def)

lemma hdr_tok:
  assumes "spec pok m (\<lambda>s x s'. pok s' \<and> same s s' \<and> pm s' \<le> pm s \<and> X s x s')"
  shows "spec (hdr b ms s0) m (\<lambda>s x s'. hdr b ms s0 s' \<and> pm s' \<le> pm s \<and> X s x s')"
  by (rule spec_conseq [OF assms]) (auto intro: hdr_same hdr_pok)

lemma hdr_on:
  assumes "\<And>m. header m \<Longrightarrow> header (f m)" and "b' \<Longrightarrow> b"
    and "\<And>m. b' \<Longrightarrow> m_signature (f m) = m_signature m \<and> m_arguments (f m) = m_arguments m"
  shows "spec (hdr b ms s0) (onMgenc f) (\<lambda>s _ s'. hdr b' ms s0 s' \<and> pm s' = pm s)"
  unfolding spec_def
proof (intro allI impI)
  fix s assume h: "hdr b ms s0 s"
  then obtain m where m: "p_ctxs s = m # ms" "header m" "b \<longrightarrow> sigOK (p_vm s) m" unfolding hdr_def by blast
  have "hdr b' ms s0 (s\<lparr>p_ctxs := f m # ms\<rparr>)"
    using h m assms by (auto simp: hdr_def reach_def sigOK_def)
  then show "case onMgenc f s of Inl e \<Rightarrow> e \<noteq> OutOfFuel | Inr r \<Rightarrow> hdr b' ms s0 (snd r) \<and> pm (snd r) = pm s"
    by (simp add: onMgenc_run [OF m(1)])
qed

lemma hdr_AddArgument: "spec (hdr b ms s0) (onMgenc (\<lambda>m. snd (AddArgumentIfAbsent a m))) (\<lambda>s _ s'. hdr False ms s0 s' \<and> pm s' = pm s)"
  by (rule hdr_on) (auto simp: header_def AddArgumentIfAbsent_def AddArgument_def PushBack_def)

lemma hdr_AddLocal: "spec (hdr b ms s0) (onMgenc (\<lambda>m. snd (AddLocalIfAbsent a m))) (\<lambda>s _ s'. hdr b ms s0 s' \<and> pm s' = pm s)"
  by (rule hdr_on) (auto simp: header_def AddLocalIfAbsent_def AddLocal_def)

lemma argument_spec:
  "spec pok argument (\<lambda>s t s'. pok s' \<and> same s s' \<and> pm s' \<le> pm s \<and> True)"
  unfolding argument_def by (rule spec_post [OF variable_spec]) auto

lemma oneArgument_spec:
  "spec (\<lambda>s. hdr False ms s0 s \<and> p_sym s = Colon) (thenE (expect Colon)
      (bindE argument (\<lambda>a. onMgenc (\<lambda>m. snd (AddArgumentIfAbsent a m)))))
     (\<lambda>s _ s'. hdr False ms s0 s' \<and> pm s' < pm s)"
proof (rule spec_then [OF spec_pre [OF hdr_tok [OF expect_spec]]])
  fix s1 b assume s1: "hdr False ms s0 s1 \<and> p_sym s1 = Colon"
  have "spec (\<lambda>s. hdr False ms s0 s \<and> pm s < pm s1) (bindE argument (\<lambda>a. onMgenc (\<lambda>m. snd (AddArgumentIfAbsent a m))))
     (\<lambda>_ _ s'. hdr False ms s0 s' \<and> pm s' < pm s1)"
  proof (rule spec_bind [OF spec_pre [OF hdr_tok [OF argument_spec]]])
    fix s2 a assume "hdr False ms s0 s2 \<and> pm s2 < pm s1"
    then show "spec (\<lambda>s. hdr False ms s0 s \<and> pm s \<le> pm s2 \<and> True) (onMgenc (\<lambda>m. snd (AddArgumentIfAbsent a m)))
      (\<lambda>_ _ s'. hdr False ms s0 s' \<and> pm s' < pm s1)"
      by (intro spec_conseq [OF hdr_AddArgument]) auto
  qed simp
  then show "spec (\<lambda>s. hdr False ms s0 s \<and> pm s \<le> pm s1 \<and> b = (p_sym s1 = Colon) \<and>
       (b \<longrightarrow> Colon \<noteq> NONE \<longrightarrow> pm s < pm s1) \<and> (\<not> b \<longrightarrow> p_sym s = p_sym s1 \<and> p_text s = p_text s1))
     (bindE argument (\<lambda>a. onMgenc (\<lambda>m. snd (AddArgumentIfAbsent a m))))
     (\<lambda>_ _ s'. hdr False ms s0 s' \<and> pm s' < pm s1)"
    by (rule spec_pre) (use s1 in auto)
qed simp

lemma blockArguments_spec:
  "spec (\<lambda>s. hdr False ms s0 s \<and> p_sym s = Colon \<and> pm s \<le> n) (blockArguments n) (\<lambda>s _ s'. hdr False ms s0 s' \<and> pm s' \<le> pm s)"
  unfolding blockArguments_def doWhileM_def
proof (rule spec_then [OF spec_pre [OF oneArgument_spec]])
  fix s1 assume s1: "hdr False ms s0 s1 \<and> p_sym s1 = Colon \<and> pm s1 \<le> n"
  have "spec (\<lambda>s. hdr False ms s0 s \<and> pm s < n)
     (whileM n (bindE sym (\<lambda>s. returnE (s = Colon))) (thenE (expect Colon)
         (bindE argument (\<lambda>a. onMgenc (\<lambda>m. snd (AddArgumentIfAbsent a m))))))
     (\<lambda>s _ s'. hdr False ms s0 s' \<and> True \<and> pm s' \<le> pm s \<and> \<not> p_sym s' = Colon)"
    by (rule spec_while [where R = "\<lambda>_ _. True" and c = "\<lambda>s. p_sym s = Colon" and f = pm])
      (auto simp: isIdentifier_run intro: spec_conseq [OF oneArgument_spec])
  then show "spec (\<lambda>s. hdr False ms s0 s \<and> pm s < pm s1)
     (whileM n (bindE sym (\<lambda>s. returnE (s = Colon))) (thenE (expect Colon)
         (bindE argument (\<lambda>a. onMgenc (\<lambda>m. snd (AddArgumentIfAbsent a m))))))
     (\<lambda>_ _ s'. hdr False ms s0 s' \<and> pm s' \<le> pm s1)"
    by (rule spec_conseq) (use s1 in auto)
qed simp

lemma hdr_expect: "spec (hdr b ms s0) (thenE (expect x) (returnE ())) (\<lambda>s _ s'. hdr b ms s0 s' \<and> pm s' \<le> pm s)"
  by (rule spec_then [OF hdr_tok [OF expect_spec]], rule spec_return) auto

lemma blockPattern_spec:
  "spec (\<lambda>s. hdr False ms s0 s \<and> p_sym s = Colon \<and> pm s \<le> n) (blockPattern n) (\<lambda>s _ s'. hdr False ms s0 s' \<and> pm s' \<le> pm s)"
  unfolding blockPattern_def
  by (rule spec_then [OF blockArguments_spec], rule spec_conseq [OF hdr_expect]) auto

lemma localsM_spec:
  "spec (\<lambda>s. hdr b ms s0 s \<and> pm s < n) (localsM n) (\<lambda>s _ s'. hdr b ms s0 s' \<and> pm s' \<le> pm s)"
proof -
  have body: "spec (\<lambda>s. hdr b ms s0 s \<and> p_sym s = Identifier) (bindE variable (\<lambda>v. onMgenc (\<lambda>m. snd (AddLocalIfAbsent v m))))
     (\<lambda>s _ s'. hdr b ms s0 s' \<and> pm s' < pm s)"
  proof (rule spec_bind [OF spec_pre [OF hdr_tok [OF variable_spec]]])
    fix s1 v assume s1: "hdr b ms s0 s1 \<and> p_sym s1 = Identifier"
    show "spec (\<lambda>s. hdr b ms s0 s \<and> pm s \<le> pm s1 \<and> v = p_text s1 \<and> (p_sym s1 = Identifier \<longrightarrow> pm s < pm s1))
      (onMgenc (\<lambda>m. snd (AddLocalIfAbsent v m))) (\<lambda>_ _ s'. hdr b ms s0 s' \<and> pm s' < pm s1)"
      by (rule spec_conseq [OF hdr_AddLocal]) (use s1 in auto)
  qed simp
  have "spec (\<lambda>s. hdr b ms s0 s \<and> pm s < n)
     (whileM n (bindE sym (\<lambda>s. returnE (s = Identifier))) (bindE variable (\<lambda>v. onMgenc (\<lambda>m. snd (AddLocalIfAbsent v m)))))
     (\<lambda>s _ s'. hdr b ms s0 s' \<and> True \<and> pm s' \<le> pm s \<and> \<not> p_sym s' = Identifier)"
    by (rule spec_while [where R = "\<lambda>_ _. True" and c = "\<lambda>s. p_sym s = Identifier" and f = pm])
      (auto simp: isIdentifier_run intro: spec_conseq [OF body])
  then show ?thesis unfolding localsM_def by (rule spec_conseq) auto
qed

lemma blockContents_spec:
  assumes rc: "rcOK n rc" and le: "n \<le> N" and args: "\<forall>m \<in> set ms. m_arguments m \<noteq> []"
  shows "spec (\<lambda>s. hdr True ms s0 s \<and> pm s < n) (blockContents N rc) (\<lambda>s _ s'. built ms s0 s' \<and> pm s' \<le> pm s)"
proof -
  have locals: "spec (\<lambda>s. hdr True ms s0 s \<and> pm s < n) (bindE (accept Or) (\<lambda>b.
              if b then thenE (localsM N) (thenE (expect Or) (returnE ())) else returnE ()))
      (\<lambda>s _ s'. hdr True ms s0 s' \<and> pm s' \<le> pm s)"
  proof (rule spec_bind [OF spec_pre [OF hdr_tok [OF accept_spec, of True ms s0]]], simp, rule spec_if)
    fix s1 b assume s1: "hdr True ms s0 s1 \<and> pm s1 < n"
    have "spec (\<lambda>s. hdr True ms s0 s \<and> pm s \<le> pm s1) (thenE (localsM N) (thenE (expect Or) (returnE ())))
        (\<lambda>_ _ s'. hdr True ms s0 s' \<and> pm s' \<le> pm s1)"
      by (rule spec_then [OF spec_pre [OF localsM_spec [of True ms s0]]], use s1 le in simp, rule spec_conseq [OF hdr_expect]) auto
    then show "spec (\<lambda>s. hdr True ms s0 s \<and> pm s \<le> pm s1 \<and> b = (p_sym s1 = Or) \<and>
       (b \<longrightarrow> Or \<noteq> NONE \<longrightarrow> pm s < pm s1) \<and> (\<not> b \<longrightarrow> s = s1)) (thenE (localsM N) (thenE (expect Or) (returnE ())))
        (\<lambda>_ _ s'. hdr True ms s0 s' \<and> pm s' \<le> pm s1)"
      by (rule spec_pre) simp
  qed (rule spec_return, simp)
  show ?thesis
    unfolding blockContents_def
  proof (rule spec_then [OF locals])
    fix s1 assume s1: "hdr True ms s0 s1 \<and> pm s1 < n"
    show "spec (\<lambda>s. hdr True ms s0 s \<and> pm s \<le> pm s1) (rc (NBlockBody False)) (\<lambda>_ _ s'. built ms s0 s' \<and> pm s' \<le> pm s1)"
    proof (rule spec_conseq [OF conjunct2 [OF rc [unfolded rcOK_def], rule_format, of False]])
      fix s assume "hdr True ms s0 s \<and> pm s \<le> pm s1"
      then show "bodyStart False s \<and> pm s < n"
        using args s1 by (auto simp: bodyStart_def bok_def hdr_def reach_def header_def)
    next
      fix s x s' assume h: "hdr True ms s0 s \<and> pm s \<le> pm s1" and d: "bodyDone s s'"
      from h obtain m where m: "p_ctxs s = m # ms" "header m" "sigOK (p_vm s) m" by (auto simp: hdr_def)
      from d m(1) obtain c l f where e: "p_ctxs s' = m\<lparr>m_bytecode := c, m_literals := l, m_finished := f\<rparr> # ms"
        "bodyEnd (envOf (m # ms)) (p_vm s') f c l" "reach s s'"
        by (auto simp: bodyDone_def reach_def)
      have "sigOK (p_vm s') m" using sigOK_le [OF m(3)] e(3) by (simp add: reach_def)
      moreover have "envOf (m\<lparr>m_bytecode := c, m_literals := l, m_finished := f\<rparr> # ms) = envOf (m # ms)"
        by (simp add: envOf_def)
      moreover have "reach s0 s'" using h e(3) reach_trans by (auto simp: hdr_def)
      ultimately show "built ms s0 s' \<and> pm s' \<le> pm s1"
        using e m(2) h by (simp add: built_def header_def sigOK_def reach_def)
    qed
  qed
qed

lemma mgenc_spec: "spec (\<lambda>s. \<exists>ms. P ms s) mgenc (\<lambda>s m s'. s' = s \<and> (\<exists>ms. p_ctxs s = m # ms))"
  by (simp add: spec_def mgenc_def split: list.split)

text \<open>The end of a method: what is missing after the body, then the closing token.\<close>

definition complete :: "mgenc list \<Rightarrow> pstate \<Rightarrow> pstate \<Rightarrow> bool" where
  "complete ms s0 s \<longleftrightarrow> reach s0 s \<and>
     (\<exists>m. p_ctxs s = m # ms \<and> \<not> m_primitive m \<and> m_arguments m \<noteq> [] \<and> sigOK (p_vm s) m \<and>
        bodyEnd (envOf (m # ms)) (p_vm s) True (m_bytecode m) (m_literals m))"

lemma complete_same: "complete ms s0 s \<Longrightarrow> pok s' \<Longrightarrow> same s s' \<Longrightarrow> pm s' \<le> pm s \<Longrightarrow> complete ms s0 s'"
  unfolding complete_def using reach_same by (fastforce simp: same_def)

lemma complete_expect:
  "spec (complete ms s0) (thenE (expect x) (returnE ())) (\<lambda>s _ s'. complete ms s0 s' \<and> pm s' \<le> pm s)"
  by (rule spec_then [OF spec_pre [OF expect_spec]], simp add: complete_def reach_def, rule spec_return)
    (auto intro: complete_same)

lemma built_finished:
  "built ms s0 s \<Longrightarrow> p_ctxs s = m # ms' \<Longrightarrow> m_finished m \<Longrightarrow> complete ms s0 s"
  by (auto simp: built_def complete_def)

text \<open>An unfinished body is one whose last value is on the stack.\<close>

lemma built_bodyAt:
  assumes "built ms s0 s" "p_ctxs s = m # ms'" "\<not> m_finished m"
  shows "ms' = ms \<and> bodyAt 1 s s"
proof -
  have m: "ms' = ms" "reach s0 s" "bodyEnd (envOf (m # ms)) (p_vm s) False (m_bytecode m) (m_literals m)"
    using assms by (auto simp: built_def)
  have "bodyAt 1 s s"
    unfolding bodyAt_def
    by (intro conjI exI [of _ m] exI [of _ ms] exI [of _ "m_bytecode m"] exI [of _ "m_literals m"])
      (use m assms in \<open>simp_all add: reach_def bodyEnd_def\<close>)
  with m show ?thesis by simp
qed

lemma built_bodyDone:
  assumes b: "built ms s0 s" and d: "bodyDone s s'" and f: "\<forall>m ms'. p_ctxs s' = m # ms' \<longrightarrow> m_finished m"
  shows "complete ms s0 s'"
proof -
  obtain m where m: "p_ctxs s = m # ms" "\<not> m_primitive m" "m_arguments m \<noteq> []" "sigOK (p_vm s) m"
    using b by (auto simp: built_def)
  from d m(1) obtain c l g where e: "p_ctxs s' = m\<lparr>m_bytecode := c, m_literals := l, m_finished := g\<rparr> # ms"
    "bodyEnd (envOf (m # ms)) (p_vm s') g c l" "reach s s'"
    by (auto simp: bodyDone_def reach_def)
  have g: "g" using f e(1) by simp
  have "sigOK (p_vm s') m" using sigOK_le [OF m(4)] e(3) by (simp add: reach_def)
  moreover have "envOf (m\<lparr>m_bytecode := c, m_literals := l, m_finished := g\<rparr> # ms) = envOf (m # ms)"
    by (simp add: envOf_def)
  moreover have "reach s0 s'" using b e(3) reach_trans by (auto simp: built_def)
  ultimately show ?thesis using e m g by (simp add: complete_def sigOK_def)
qed

lemma return_finished:
  assumes "r = BC_RETURN_LOCAL \<or> r = BC_RETURN_NON_LOCAL"
  shows "spec (bodyAt 1 s0) (thenE (onMgenc (EMIT1 r)) (onMgenc (SetFinished True)))
     (\<lambda>s _ s'. bodyDone s0 s' \<and> pm s' = pm s \<and> (\<forall>m ms'. p_ctxs s' = m # ms' \<longrightarrow> m_finished m))"
  unfolding spec_def
proof (intro allI impI)
  fix s assume b: "bodyAt 1 s0 s"
  then obtain m ms where c: "p_ctxs s = m # ms" by (auto simp: bodyAt_def)
  have "thenE (onMgenc (EMIT1 r)) (onMgenc (SetFinished True)) s = Inr ((), s\<lparr>p_ctxs := SetFinished True (EMIT1 r m) # ms\<rparr>)"
    by (simp add: onMgenc_def c thenE_def bindE_def)
  moreover have "bodyDone s0 (s\<lparr>p_ctxs := SetFinished True (EMIT1 r m) # ms\<rparr>)"
    by (rule bodyAt_return [OF b assms]) (use c in simp)
  ultimately show "case thenE (onMgenc (EMIT1 r)) (onMgenc (SetFinished True)) s of
     Inl e \<Rightarrow> e \<noteq> OutOfFuel | Inr r \<Rightarrow> bodyDone s0 (snd r) \<and> pm (snd r) = pm s \<and>
       (\<forall>m ms'. p_ctxs (snd r) = m # ms' \<longrightarrow> m_finished m)" by (simp add: SetFinished_def)
qed

lemma finishBlock_spec:
  "spec (built ms s0) (bindE mgenc (\<lambda>m'.
     thenE (if \<not> m_finished m' then thenE (onMgenc EmitRETURNLOCAL) (onMgenc (SetFinished True)) else returnE ())
       (thenE (expect x) (returnE ())))) (\<lambda>s _ s'. complete ms s0 s' \<and> pm s' \<le> pm s)"
proof (rule spec_bind [where Q = "\<lambda>s m s'. s' = s \<and> (\<exists>ms. p_ctxs s = m # ms)"])
  show "spec (built ms s0) mgenc (\<lambda>s m s'. s' = s \<and> (\<exists>ms. p_ctxs s = m # ms))"
    by (simp add: spec_def mgenc_def split: list.split)
  fix s1 m assume s1: "built ms s0 s1"
  have "spec (\<lambda>s. s = s1 \<and> (\<exists>ms. p_ctxs s1 = m # ms))
     (if \<not> m_finished m then thenE (onMgenc EmitRETURNLOCAL) (onMgenc (SetFinished True)) else returnE ())
     (\<lambda>_ _ s'. complete ms s0 s' \<and> pm s' \<le> pm s1)"
  proof (rule spec_if)
    assume "\<not> m_finished m"
    then show "spec (\<lambda>s. s = s1 \<and> (\<exists>ms. p_ctxs s1 = m # ms))
      (thenE (onMgenc EmitRETURNLOCAL) (onMgenc (SetFinished True))) (\<lambda>_ _ s'. complete ms s0 s' \<and> pm s' \<le> pm s1)"
      unfolding EmitRETURN_alt
      by (intro spec_conseq [OF return_finished [of BC_RETURN_LOCAL s1]])
        (use s1 built_bodyAt in \<open>auto intro: built_bodyDone\<close>)
  qed (rule spec_return, use s1 in \<open>auto intro: built_finished\<close>)
  then show "spec (\<lambda>s. s = s1 \<and> (\<exists>ms. p_ctxs s1 = m # ms))
     (thenE (if \<not> m_finished m then thenE (onMgenc EmitRETURNLOCAL) (onMgenc (SetFinished True)) else returnE ())
       (thenE (expect x) (returnE ()))) (\<lambda>_ _ s'. complete ms s0 s' \<and> pm s' \<le> pm s1)"
    by (rule spec_then, intro spec_conseq [OF complete_expect]) auto
qed

lemma built_emits:
  assumes b: "built ms s0 s" "p_ctxs s = m # ms'" "\<not> m_finished m" and args: "\<forall>m \<in> set ms. m_arguments m \<noteq> []"
  shows "bok s"
  using b args by (auto simp: built_def bok_def reach_def)

lemma finishMethod_spec:
  assumes args: "\<forall>m \<in> set ms. m_arguments m \<noteq> []"
  shows "spec (built ms s0) (bindE mgenc (\<lambda>m.
     thenE (if \<not> m_finished m
            then thenE (onMgenc EmitPOP)
                (thenE (onMgenc (EmitPUSHARGUMENT 0 0))
                (thenE (onMgenc EmitRETURNLOCAL) (onMgenc (SetFinished True))))
            else returnE ())
    (thenE (expect x) (returnE ())))) (\<lambda>s _ s'. complete ms s0 s' \<and> pm s' \<le> pm s)"
proof (rule spec_bind [where Q = "\<lambda>s m s'. s' = s \<and> (\<exists>ms. p_ctxs s = m # ms)"])
  show "spec (built ms s0) mgenc (\<lambda>s m s'. s' = s \<and> (\<exists>ms. p_ctxs s = m # ms))"
    by (simp add: spec_def mgenc_def split: list.split)
  fix s1 m assume s1: "built ms s0 s1"
  let ?k = "thenE (onMgenc EmitPOP) (thenE (onMgenc (EmitPUSHARGUMENT 0 0))
                (thenE (onMgenc EmitRETURNLOCAL) (onMgenc (SetFinished True))))"
  have "spec (\<lambda>s. s = s1 \<and> (\<exists>ms. p_ctxs s1 = m # ms)) (if \<not> m_finished m then ?k else returnE ())
     (\<lambda>_ _ s'. complete ms s0 s' \<and> pm s' \<le> pm s1)"
  proof (rule spec_if)
    assume nf: "\<not> m_finished m"
    show "spec (\<lambda>s. s = s1 \<and> (\<exists>ms. p_ctxs s1 = m # ms)) ?k (\<lambda>_ _ s'. complete ms s0 s' \<and> pm s' \<le> pm s1)"
    proof (cases "\<exists>ms'. p_ctxs s1 = m # ms'")
      case True
      then have at: "bodyAt 1 s1 s1" "bok s1"
        using built_bodyAt [OF s1 _ nf] built_emits [OF s1 _ nf args] by auto
      have 1: "spec (\<lambda>s. s = s1 \<and> (\<exists>ms. p_ctxs s1 = m # ms)) (onMgenc EmitPOP) (\<lambda>_ _ s. bok s1 \<and> bodyAt 0 s1 s \<and> pm s \<le> pm s1)"
        by (rule spec_conseq [OF pop_spec [of s1]]) (use at in auto)
      have 2: "spec (\<lambda>s. bok s1 \<and> bodyAt 0 s1 s \<and> pm s \<le> pm s1) (onMgenc (EmitPUSHARGUMENT 0 0))
          (\<lambda>_ _ s. bok s1 \<and> bodyAt 1 s1 s \<and> pm s \<le> pm s1)"
        by (rule bodyAt_E [OF pushSelf_E])
      have 3: "spec (\<lambda>s. bok s1 \<and> bodyAt 1 s1 s \<and> pm s \<le> pm s1) (thenE (onMgenc EmitRETURNLOCAL) (onMgenc (SetFinished True)))
          (\<lambda>_ _ s'. complete ms s0 s' \<and> pm s' \<le> pm s1)"
        unfolding EmitRETURN_alt
        by (rule spec_conseq [OF return_finished [of BC_RETURN_LOCAL s1]]) (auto intro: built_bodyDone [OF s1])
      show ?thesis by (rule spec_then [OF 1 spec_then [OF 2 3]])
    qed (simp add: spec_def)
  qed (rule spec_return, use s1 in \<open>auto intro: built_finished\<close>)
  then show "spec (\<lambda>s. s = s1 \<and> (\<exists>ms. p_ctxs s1 = m # ms))
     (thenE (if \<not> m_finished m then ?k else returnE ())
       (thenE (expect x) (returnE ()))) (\<lambda>_ _ s'. complete ms s0 s' \<and> pm s' \<le> pm s1)"
    by (rule spec_then, intro spec_conseq [OF complete_expect]) auto
qed

section \<open>Blocks\<close>

text \<open>Setting a signature with the right number of arguments.\<close>

lemma setSignature_spec:
  "spec (\<lambda>s. hdr b ms s0 s \<and> (\<exists>m t. p_ctxs s = m # ms \<and> symOf (p_vm s) sig = Some t \<and> GetNumberOfArguments t = length (m_arguments m)))
     (onMgenc (MGSetSignature sig)) (\<lambda>s _ s'. hdr True ms s0 s' \<and> pm s' = pm s)"
  unfolding spec_def
proof (intro allI impI)
  fix s assume h: "hdr b ms s0 s \<and> (\<exists>m t. p_ctxs s = m # ms \<and> symOf (p_vm s) sig = Some t \<and> GetNumberOfArguments t = length (m_arguments m))"
  then obtain m t where m: "p_ctxs s = m # ms" "header m" "symOf (p_vm s) sig = Some t" "GetNumberOfArguments t = length (m_arguments m)"
    unfolding hdr_def by auto
  have "hdr True ms s0 (s\<lparr>p_ctxs := MGSetSignature sig m # ms\<rparr>)"
    using h m symOf_strOf [OF m(3)] by (auto simp: hdr_def reach_def sigOK_def MGSetSignature_def header_def)
  then show "case onMgenc (MGSetSignature sig) s of Inl e \<Rightarrow> e \<noteq> OutOfFuel | Inr r \<Rightarrow> hdr True ms s0 (snd r) \<and> pm (snd r) = pm s"
    by (simp add: onMgenc_run [OF m(1)])
qed

lemma hdr_grows: "hdr b ms s0 s \<Longrightarrow> grows s s' \<Longrightarrow> hdr b ms s0 s'"
  unfolding hdr_def grows_def reach_def by (auto intro: vm_le_trans sigOK_le)

definition bgenc0 :: mgenc where
  "bgenc0 = SetIsBlockMethod True MethodGenerationContext_new"

lemma nestedBlock_spec:
  assumes rc: "rcOK n rc" and args: "\<forall>m \<in> set ms. m_arguments m \<noteq> []"
  shows "spec (\<lambda>s. pok s \<and> p_ctxs s = bgenc0 # ms \<and> pm s \<le> n \<and> p_sym s = NewBlock) (nestedBlock (Suc n) rc)
     (\<lambda>s _ s'. complete ms s s')"
  unfolding nestedBlock_def
proof (rule spec_then [where Q = "\<lambda>s _ s'. hdr False ms s s' \<and> pm s' \<le> pm s \<and> p_sym s' = p_sym s"])
  show "spec (\<lambda>s. pok s \<and> p_ctxs s = bgenc0 # ms \<and> pm s \<le> n \<and> p_sym s = NewBlock)
     (onMgenc (\<lambda>m. snd (AddArgumentIfAbsent ''$block self'' m)))
     (\<lambda>s _ s'. hdr False ms s s' \<and> pm s' \<le> pm s \<and> p_sym s' = p_sym s)"
    by (auto simp: spec_def onMgenc_def hdr_def reach_def header_def AddArgumentIfAbsent_def AddArgument_def PushBack_def
        bgenc0_def SetIsBlockMethod_def MethodGenerationContext_new_def)
  fix s0 assume s0: "pok s0 \<and> p_ctxs s0 = bgenc0 # ms \<and> pm s0 \<le> n \<and> p_sym s0 = NewBlock"
  let ?P = "\<lambda>b s. hdr b ms s0 s \<and> pm s < n"
  have 1: "spec (\<lambda>s. hdr False ms s0 s \<and> pm s \<le> pm s0 \<and> p_sym s = p_sym s0) (expect NewBlock) (\<lambda>_ _. ?P False)"
    by (rule spec_conseq [OF hdr_tok [OF expect_spec, of False ms s0]]) (use s0 in auto)
  have 2: "spec (\<lambda>s. ?P False s \<and> p_sym s = x) (if x = Colon then blockPattern (Suc n) else returnE ()) (\<lambda>_ _. ?P False)" for x
    by (rule spec_if, rule spec_conseq [OF blockPattern_spec [of ms s0 "Suc n"]], simp, simp, rule spec_return, simp)
  have 3: "spec (?P False) mgenc (\<lambda>s m s'. s' = s \<and> (\<exists>ms. p_ctxs s = m # ms))"
    by (simp add: spec_def mgenc_def split: list.split)
  have 4: "spec (\<lambda>s. s = s1 \<and> (\<exists>ms. p_ctxs s1 = m # ms)) (bindE (vmM (SymbolFor (''$block method'' @
               replicate (nat (MGGetNumberOfArguments m) - 1) (CHR '':'')))) (\<lambda>block_sig. onMgenc (MGSetSignature block_sig)))
      (\<lambda>_ _. ?P True)" if s1: "?P False s1" for s1 m
  proof (rule spec_bind [OF spec_pre [OF SymbolFor_spec]])
    let ?t = "''$block method'' @ replicate (nat (MGGetNumberOfArguments m) - 1) (CHR '':'')"
    fix s p assume s: "s = s1 \<and> (\<exists>ms. p_ctxs s1 = m # ms)"
    then have m: "p_ctxs s1 = m # ms" "m_arguments m \<noteq> []" using s1 by (auto simp: hdr_def header_def)
    have "cstr ?t = ?t" by (rule cstr_id) auto
    moreover have "GetNumberOfArguments ?t = length (m_arguments m)"
      using m(2) unfolding block_signature_arguments by (cases "m_arguments m") (simp_all add: MGGetNumberOfArguments_def ListSize_def)
    ultimately show "spec (\<lambda>s'. grows s s' \<and> pm s' = pm s \<and> p_sym s' = p_sym s \<and> p_text s' = p_text s \<and> symOf (p_vm s') p = Some (cstr ?t))
        (onMgenc (MGSetSignature p)) (\<lambda>_ _. ?P True)"
      by (intro spec_conseq [OF setSignature_spec [of False ms s0 p]])
        (use s s1 m in \<open>auto intro: hdr_grows simp: grows_def\<close>)
  qed (use s1 in \<open>auto dest: hdr_pok\<close>)
  have 5: "spec (?P True) (blockContents (Suc n) rc) (\<lambda>_ _ s'. built ms s0 s')"
    by (rule spec_conseq [OF blockContents_spec [OF rc _ args]]) auto
  have 6: "spec (built ms s0) (bindE mgenc (\<lambda>m'. thenE (if \<not> m_finished m'
            then thenE (onMgenc EmitRETURNLOCAL) (onMgenc (SetFinished True)) else returnE ())
        (thenE (expect EndBlock) (returnE ())))) (\<lambda>_ _ s'. complete ms s0 s')"
    by (rule spec_post [OF finishBlock_spec]) simp
  have tail: "spec (?P False) (bindE mgenc (\<lambda>m. bindE (vmM (SymbolFor (''$block method'' @
               replicate (nat (MGGetNumberOfArguments m) - 1) (CHR '':'')))) (\<lambda>block_sig.
     thenE (onMgenc (MGSetSignature block_sig)) (thenE (blockContents (Suc n) rc) (bindE mgenc (\<lambda>m'.
     thenE (if \<not> m_finished m' then thenE (onMgenc EmitRETURNLOCAL) (onMgenc (SetFinished True)) else returnE ())
     (thenE (expect EndBlock) (returnE ())))))))) (\<lambda>_ _ s'. complete ms s0 s')"
  proof (rule spec_bind [OF 3])
    fix s1 m assume "?P False s1"
    from spec_then [OF 4 [OF this] spec_then [OF 5 6]]
    show "spec (\<lambda>s'. s' = s1 \<and> (\<exists>ms. p_ctxs s1 = m # ms)) (bindE (vmM (SymbolFor (''$block method'' @
               replicate (nat (MGGetNumberOfArguments m) - 1) (CHR '':'')))) (\<lambda>block_sig.
     thenE (onMgenc (MGSetSignature block_sig)) (thenE (blockContents (Suc n) rc) (bindE mgenc (\<lambda>m'.
     thenE (if \<not> m_finished m' then thenE (onMgenc EmitRETURNLOCAL) (onMgenc (SetFinished True)) else returnE ())
     (thenE (expect EndBlock) (returnE ()))))))) (\<lambda>_ _ s'. complete ms s0 s')"
      by (simp only: bind_then_assoc)
  qed
  show "spec (\<lambda>s. hdr False ms s0 s \<and> pm s \<le> pm s0 \<and> p_sym s = p_sym s0)
     (thenE (expect NewBlock) (bindE sym (\<lambda>s. thenE (if s = Colon then blockPattern (Suc n) else returnE ())
        (bindE mgenc (\<lambda>m. bindE (vmM (SymbolFor (''$block method'' @
               replicate (nat (MGGetNumberOfArguments m) - 1) (CHR '':'')))) (\<lambda>block_sig.
     thenE (onMgenc (MGSetSignature block_sig)) (thenE (blockContents (Suc n) rc) (bindE mgenc (\<lambda>m'.
     thenE (if \<not> m_finished m' then thenE (onMgenc EmitRETURNLOCAL) (onMgenc (SetFinished True)) else returnE ())
     (thenE (expect EndBlock) (returnE ())))))))))))  (\<lambda>_ _ s'. complete ms s0 s')"
    by (rule spec_then [OF 1], rule spec_sym, rule spec_then [OF 2 tail])
qed

section \<open>Assembled blocks and methods are verified\<close>

lemma codeDone_checks:
  assumes cd: "codeDone env (litOf v (m_literals m)) (m_bytecode m)" and le: "vm_le v v1"
    and depth: "ComputeStackDepth m v1 = Inr (depth, v1)"
  shows "checks env (litOf v (m_literals m)) (m_bytecode m) (uint depth)"
proof (cases "m_bytecode m = [opcode BC_RETURN_LOCAL]")
  case True
  have "opcode_of 14 = Some BC_RETURN_LOCAL" using opcode_of_opcode [of BC_RETURN_LOCAL] by simp
  then have "depth = 0" using depth True by (simp add: ComputeStackDepth_def depthStep_def)
  with True show ?thesis by (simp add: checks_def)
next
  case False
  with cd obtain body r mx where b: "m_bytecode m = body @ [opcode r]" "r = BC_RETURN_LOCAL \<or> r = BC_RETURN_NON_LOCAL"
    "scan env (litOf v (m_literals m)) body 0 = Some (1, mx)" by (auto simp: codeDone_def)
  have "scan env (litOf v1 (m_literals m)) body 0 = Some (1, mx)"
    by (rule scan_mono [OF b(3)]) (rule litOf_le [OF le])
  moreover have "scan env (litOf v1 (m_literals m)) [opcode r] 1 = Some (1, max 1 1)"
    by (rule scan_instr [OF refl]) (use b(2) in auto)
  ultimately have s: "scan env (litOf v1 (m_literals m)) (m_bytecode m) 0 = Some (1, max mx 1)"
    using scan_append_Some b(1) by fastforce
  have "1 \<le> mx" using scan_max [OF b(3)] by simp
  then have "max mx 1 = mx" by simp
  then have "depth = of_nat (min mx 255)" using ComputeStackDepth_scan [OF s] depth by simp
  moreover have "min mx 255 < 256" by simp
  ultimately have "uint depth = int (min mx 255)" by (simp only: uint_nat unat_of_nat) simp
  with b show ?thesis unfolding checks_def by blast
qed

lemma Assemble_verified:
  assumes ok: "vm_ok v" and sig: "sigOK v m" and body: "bodyEnd (envOf (m # ms)) v True (m_bytecode m) (m_literals m)"
    and run: "MethodAssemble m v = Inr (p, w)"
  shows "vm_le v w \<and> vm_ok w \<and> verified w (envOf ms) p \<and> isMethod w p \<and> heap w p \<noteq> None \<and> litOf w [p] 0 = Some LMethod"
proof -
  obtain t where t: "strOf v (m_signature m) = Some t" "GetNumberOfArguments t = length (m_arguments m)"
    using sig by (auto simp: sigOK_def)
  from MethodAssemble_run(2) [OF ok t(1) run] obtain depth v1 where r: "p = nextPtr v" "vm_le v w" "vm_ok w" "vm_le v v1"
    "ComputeStackDepth m v1 = Inr (depth, v1)"
    "methodAt v (m_signature m) t (m_bytecode m) (m_literals m) (int (length (m_locals m))) (uint depth) w" by blast
  let ?env = "envOf (m # ms)"
  have env: "?env = (length (m_locals m), GetNumberOfArguments t) # envOf ms" by (simp add: envOf_def t(2))
  have parts: "methodParts w p = Some (m_bytecode m, m_literals m, length (m_locals m), GetNumberOfArguments t, uint depth)"
    using methodAt_parts [OF r(6)] r(1) by simp
  have "verified w (envOf ms) p"
  proof (rule verified.intros [OF parts], unfold env [symmetric], intro impI)
    assume "fits ?env (length (m_literals m))"
    then have "codeDone ?env (litOf v (m_literals m)) (m_bytecode m)" using body by (simp add: bodyEnd_def)
    from codeDone_checks [OF this r(4,5)]
    show "checks ?env (litOf w (m_literals m)) (m_bytecode m) (uint depth)"
      by (rule checks_mono) (rule litOf_le [OF r(2)])
  next
    fix q assume q: "q \<in> set (m_literals m)"
    have o: "okLits w ?env (m_literals m)"
      by (rule okLits_le [OF conjunct1 [OF body [unfolded bodyEnd_def]] r(2)])
    with q show "heap w q \<noteq> None" by (simp add: okLits_def)
    assume "isMethod w q"
    with o q show "verified w ?env q" by (simp add: okLits_def)
  qed
  moreover have h: "heap w p = Some (methodObject v p (m_signature m) (m_bytecode m) (m_literals m))"
    using methodAt_bound [OF r(6)] r(1) by simp
  ultimately show ?thesis
    using r(2,3) by (simp add: isMethod_def litOf_def symOf_def methodObject_def)
qed

lemma Assemble_spec:
  "spec (\<lambda>s. pok s \<and> sigOK (p_vm s) m \<and> bodyEnd (envOf (m # ms)) (p_vm s) True (m_bytecode m) (m_literals m))
     (vmM (MethodAssemble m)) (\<lambda>s p s'. grows s s' \<and> pm s' = pm s \<and> p_sym s' = p_sym s \<and> p_text s' = p_text s \<and>
       verified (p_vm s') (envOf ms) p \<and> isMethod (p_vm s') p \<and> heap (p_vm s') p \<noteq> None \<and>
       litOf (p_vm s') [p] 0 = Some LMethod)"
proof (rule vmM_spec)
  fix v assume v: "vm_ok v" "sigOK v m \<and> bodyEnd (envOf (m # ms)) v True (m_bytecode m) (m_literals m)"
  then obtain t where "strOf v (m_signature m) = Some t" by (auto simp: sigOK_def)
  from MethodAssemble_run(1) [OF v(1) this] show "MethodAssemble m v \<noteq> Inl OutOfFuel" .
next
  fix v p v' assume v: "vm_ok v" "sigOK v m \<and> bodyEnd (envOf (m # ms)) v True (m_bytecode m) (m_literals m)"
    and run: "MethodAssemble m v = Inr (p, v')"
  from Assemble_verified [OF v(1) conjunct1 [OF v(2)] conjunct2 [OF v(2)] run]
  show "vm_le v v' \<and> vm_ok v' \<and> verified v' (envOf ms) p \<and> isMethod v' p \<and> heap v' p \<noteq> None \<and> litOf v' [p] 0 = Some LMethod"
    by blast
qed

lemma reach_grows: "reach s0 s1 \<Longrightarrow> grows s1 s2 \<Longrightarrow> reach s0 s2"
  unfolding reach_def grows_def using vm_le_trans le_trans by metis

lemma block_spec:
  assumes rc: "rcOK n rc"
  shows "spec (\<lambda>s. bok s \<and> pm s \<le> n \<and> p_sym s = NewBlock)
     (thenE (enterContext (SetIsBlockMethod True MethodGenerationContext_new))
        (thenE (nestedBlock (Suc n) rc)
        (bindE mgenc (\<lambda>bgenc.
         bindE (vmM (MethodAssemble bgenc)) (\<lambda>block_method.
         thenE leaveContext
        (thenE (onMgenc (AddLiteral block_method))
        (thenE (onMgenc (EmitPUSHBLOCK block_method))
           (returnE False))))))))
     (\<lambda>s _ s'. emits 0 1 s s')"
proof (rule spec_then [where Q = "\<lambda>s _ s'. s' = s\<lparr>p_ctxs := bgenc0 # p_ctxs s\<rparr>"])
  show "spec (\<lambda>s. bok s \<and> pm s \<le> n \<and> p_sym s = NewBlock) (enterContext (SetIsBlockMethod True MethodGenerationContext_new))
     (\<lambda>s _ s'. s' = s\<lparr>p_ctxs := bgenc0 # p_ctxs s\<rparr>)"
    by (simp add: spec_def enterContext_def bgenc0_def)
  fix s0 assume s0: "bok s0 \<and> pm s0 \<le> n \<and> p_sym s0 = NewBlock"
  let ?ms = "p_ctxs s0" and ?s1 = "s0\<lparr>p_ctxs := bgenc0 # p_ctxs s0\<rparr>"
  have args: "\<forall>m \<in> set ?ms. m_arguments m \<noteq> []" using s0 by (simp add: bok_def)
  have 1: "spec (\<lambda>s. s = ?s1) (nestedBlock (Suc n) rc) (\<lambda>_ _ s. complete ?ms ?s1 s)"
    by (rule spec_conseq [OF nestedBlock_spec [OF rc args]]) (use s0 in \<open>auto simp: bok_def\<close>)
  have 2: "spec (complete ?ms ?s1) mgenc (\<lambda>s m s'. s' = s \<and> p_ctxs s = m # ?ms)"
    by (auto simp: spec_def mgenc_def complete_def split: list.split)
  have 3: "spec (\<lambda>s. s = s2 \<and> p_ctxs s2 = m # ?ms) (vmM (MethodAssemble m))
      (\<lambda>_ p s. reach ?s1 s \<and> p_ctxs s = m # ?ms \<and> okLits (p_vm s) (envOf ?ms) [p] \<and> litOf (p_vm s) [p] 0 = Some LMethod)"
    if c: "complete ?ms ?s1 s2" for s2 m
  proof (cases "p_ctxs s2 = m # ?ms")
    case True
    then show ?thesis
      by (intro spec_conseq [OF Assemble_spec [of m ?ms]])
        (use c True in \<open>auto simp: complete_def okLits_def grows_def reach_def intro: vm_le_trans\<close>)
  qed (simp add: spec_def)
  have 4: "spec (\<lambda>s. reach ?s1 s \<and> p_ctxs s = m # ?ms \<and> okLits (p_vm s) (envOf ?ms) [p] \<and> litOf (p_vm s) [p] 0 = Some LMethod)
      leaveContext (\<lambda>_ _ s. grows s0 s \<and> okLits (p_vm s) (envOf (p_ctxs s)) [p] \<and> litOf (p_vm s) [p] 0 = Some LMethod)" for m p
    by (auto simp: spec_def leaveContext_def grows_def reach_def)
  have 5: "spec (\<lambda>s. grows s0 s \<and> okLits (p_vm s) (envOf (p_ctxs s)) [p] \<and> litOf (p_vm s) [p] 0 = Some LMethod)
      (thenE (onMgenc (AddLiteral p)) (onMgenc (EmitPUSHBLOCK p))) (\<lambda>_ _ s. emits 0 1 s0 s)" for p
    unfolding EmitPUSHCONSTANT_alt
    by (rule spec_conseq [OF emit_literal [where Q = "\<lambda>l. l = LMethod" and a = 0 and b = 1, OF adds_AddLiteral]])
      (use s0 in \<open>auto intro: bok_grows grows_then_emits\<close>)
  have 6: "spec (emits 0 1 s0) (returnE False) (\<lambda>_ _ s. emits 0 1 s0 s)"
    by (rule spec_return)
  show "spec (\<lambda>s. s = ?s1) (thenE (nestedBlock (Suc n) rc)
        (bindE mgenc (\<lambda>bgenc.
         bindE (vmM (MethodAssemble bgenc)) (\<lambda>block_method.
         thenE leaveContext
        (thenE (onMgenc (AddLiteral block_method))
        (thenE (onMgenc (EmitPUSHBLOCK block_method))
           (returnE False))))))) (\<lambda>_ _ s'. emits 0 1 s0 s')"
  proof (rule spec_then [OF 1], rule spec_bind [OF 2])
    fix s2 m assume c: "complete ?ms ?s1 s2"
    show "spec (\<lambda>s. s = s2 \<and> p_ctxs s2 = m # ?ms) (bindE (vmM (MethodAssemble m)) (\<lambda>block_method.
         thenE leaveContext (thenE (onMgenc (AddLiteral block_method)) (thenE (onMgenc (EmitPUSHBLOCK block_method))
           (returnE False))))) (\<lambda>_ _ s'. emits 0 1 s0 s')"
      unfolding thenE_assoc [of "onMgenc _" "onMgenc _", symmetric]
      by (rule spec_bind [OF 3 [OF c]], rule spec_then [OF 4 spec_then [OF 5 6]])
  qed
qed

lemma primary_E:
  assumes rc: "rcOK n rc"
  shows "E n 0 1 (primary (Suc n) rc)"
  unfolding primary_def E_def
proof (rule spec_sym, intro spec_if)
  fix x
  have "E n 0 1 (if v = ''super'' then thenE (genPushVariable ''self'') (returnE True)
           else thenE (genPushVariable v) (returnE False))" for v
    by (intro E_if E_then [OF _ E_return] E_spec [OF genPushVariable_spec])
  then have "E n 0 1 (bindE variable (\<lambda>v. if v = ''super'' then thenE (genPushVariable ''self'') (returnE True)
           else thenE (genPushVariable v) (returnE False)))"
    by (rule E_tok_bind [OF variable_spec])
  then show "spec (\<lambda>s. (bok s \<and> pm s \<le> n) \<and> p_sym s = x) (bindE variable (\<lambda>v. if v = ''super'' then thenE (genPushVariable ''self'') (returnE True)
           else thenE (genPushVariable v) (returnE False))) (\<lambda>s _ s'. emits 0 1 s s')"
    unfolding E_def by (rule spec_pre) simp
next
  fix x assume x: "x = NewTerm"
  show "spec (\<lambda>s. (bok s \<and> pm s \<le> n) \<and> p_sym s = x) (thenE (nestedTerm rc) (returnE False)) (\<lambda>s _ s'. emits 0 1 s s')"
    unfolding nestedTerm_def thenE_assoc
  proof (rule spec_then [OF spec_pre [OF expect_spec]])
    fix s0 b assume s0: "(bok s0 \<and> pm s0 \<le> n) \<and> p_sym s0 = x"
    have 1: "spec (\<lambda>s. pok s \<and> same s0 s \<and> pm s \<le> pm s0 \<and> b = (p_sym s0 = NewTerm) \<and>
       (b \<longrightarrow> NewTerm \<noteq> NONE \<longrightarrow> pm s < pm s0) \<and> (\<not> b \<longrightarrow> p_sym s = p_sym s0 \<and> p_text s = p_text s0))
       (rc NExpression) (\<lambda>_ _ s. bok s \<and> emits 0 1 s0 s \<and> pm s \<le> n)"
      by (rule spec_conseq [OF conjunct1 [OF rc [unfolded rcOK_def]]])
        (use s0 x in \<open>auto intro: bok_same emits_bok same_then_emits dest: emits_pm\<close>)
    have e2: "E n 1 1 (thenE (expect EndTerm) (thenE (returnE ()) (returnE False)))"
      by (intro E_then [OF E_tok [OF expect_spec] E_then [OF E_return E_return]])
    have 2: "spec (\<lambda>s. bok s \<and> emits 0 1 s0 s \<and> pm s \<le> n) (thenE (expect EndTerm) (thenE (returnE ()) (returnE False))) (\<lambda>_ _ s. emits 0 1 s0 s)"
      by (rule spec_conseq [OF e2 [unfolded E_def]]) (auto intro: emits_trans)
    show "spec (\<lambda>s. pok s \<and> same s0 s \<and> pm s \<le> pm s0 \<and> b = (p_sym s0 = NewTerm) \<and>
       (b \<longrightarrow> NewTerm \<noteq> NONE \<longrightarrow> pm s < pm s0) \<and> (\<not> b \<longrightarrow> p_sym s = p_sym s0 \<and> p_text s = p_text s0))
       (thenE (rc NExpression) (thenE (expect EndTerm) (thenE (returnE ()) (returnE False)))) (\<lambda>_ _ s'. emits 0 1 s0 s')"
      by (rule spec_then [OF 1 2])
  qed simp
next
  fix x assume "x = NewBlock"
  then show "spec (\<lambda>s. (bok s \<and> pm s \<le> n) \<and> p_sym s = x)
     (thenE (enterContext (SetIsBlockMethod True MethodGenerationContext_new))
        (thenE (nestedBlock (Suc n) rc)
        (bindE mgenc (\<lambda>bgenc.
         bindE (vmM (MethodAssemble bgenc)) (\<lambda>block_method.
         thenE leaveContext
        (thenE (onMgenc (AddLiteral block_method))
        (thenE (onMgenc (EmitPUSHBLOCK block_method))
           (returnE False))))))))
     (\<lambda>s _ s'. emits 0 1 s s')"
    by (intro spec_pre [OF block_spec [OF rc]]) auto
next
  fix x
  have "E n 0 1 (thenE literal (returnE False))" by (rule E_then [OF literal_E E_return])
  then show "spec (\<lambda>s. (bok s \<and> pm s \<le> n) \<and> p_sym s = x) (thenE literal (returnE False)) (\<lambda>s _ s'. emits 0 1 s s')"
    unfolding E_def by (rule spec_pre) simp
qed

lemma parseN_OK: "rcOK n (parseN n)"
proof (induction n)
  case 0
  show ?case by (simp add: rcOK_def spec_False)
next
  case (Suc n)
  have ex: "E n 0 1 (expression (Suc n) (parseN n))" by (rule expression_E [OF primary_E [OF Suc.IH]])
  show ?case
    unfolding rcOK_def
  proof (intro conjI allI)
    show "spec (\<lambda>s. bok s \<and> pm s < Suc n) (parseN (Suc n) NExpression) (\<lambda>s _ s'. emits 0 1 s s')"
      using ex by (simp add: E_def less_Suc_eq_le)
    show "spec (\<lambda>s. bodyStart seen s \<and> pm s < Suc n) (parseN (Suc n) (NBlockBody seen)) (\<lambda>s _ s'. bodyDone s s')" for seen
      using blockBody_spec [OF ex Suc.IH, of seen] by (simp add: less_Suc_eq_le)
  qed
qed

end
