(* ===== verification/ClassLaws.thy ===== *)
theory ClassLaws
  imports BodyLaws
begin

text \<open>
  Patterns give a method context the signature its arguments need, a method of a class is
  verified code or an empty primitive, and a parse of a whole source, from a state of the
  virtual machine that satisfies its invariant, returns within the bound of \<open>parseBound\<close> with a
  class all of whose methods are of this kind.
\<close>

section \<open>Patterns\<close>

text \<open>\<open>phdr k s0 s\<close>: the pattern of a method is being read, \<open>k\<close> arguments so far.\<close>

definition phdr :: "nat \<Rightarrow> pstate \<Rightarrow> pstate \<Rightarrow> bool" where
  "phdr k s0 s \<longleftrightarrow> reach s0 s \<and>
     (\<exists>m. p_ctxs s = [m] \<and> header m \<and> m_locals m = [] \<and> length (m_arguments m) = k)"

lemma phdr_pok: "phdr k s0 s \<Longrightarrow> pok s"
  by (auto simp: phdr_def reach_def)

lemma phdr_same: "phdr k s0 s \<Longrightarrow> pok s' \<Longrightarrow> same s s' \<Longrightarrow> pm s' \<le> pm s \<Longrightarrow> phdr k s0 s'"
  unfolding phdr_def using reach_same by (fastforce simp: same_def)

lemma phdr_grows: "phdr k s0 s \<Longrightarrow> grows s s' \<Longrightarrow> phdr k s0 s'"
  unfolding phdr_def grows_def reach_def by (auto intro: vm_le_trans)

lemma phdr_tok:
  assumes "spec pok m (\<lambda>s x s'. pok s' \<and> same s s' \<and> pm s' \<le> pm s \<and> X s x s')"
  shows "spec (phdr k s0) m (\<lambda>s x s'. phdr k s0 s' \<and> pm s' \<le> pm s \<and> X s x s')"
  by (rule spec_conseq [OF assms]) (auto intro: phdr_same phdr_pok)

lemma phdr_AddArgument:
  "spec (phdr k s0) (onMgenc (\<lambda>m. snd (AddArgumentIfAbsent a m))) (\<lambda>s _ s'. phdr (Suc k) s0 s' \<and> pm s' = pm s)"
  by (auto simp: spec_def onMgenc_def phdr_def reach_def header_def AddArgumentIfAbsent_def AddArgument_def
      PushBack_def IndexOf_def pm_def pok_def)

lemma phdr_argument:
  "spec (phdr k s0) (bindE argument (\<lambda>a. onMgenc (\<lambda>m. snd (AddArgumentIfAbsent a m))))
     (\<lambda>s _ s'. phdr (Suc k) s0 s' \<and> pm s' \<le> pm s)"
proof (rule spec_bind [OF phdr_tok [OF argument_spec]])
  fix s1 a assume "phdr k s0 s1"
  show "spec (\<lambda>s. phdr k s0 s \<and> pm s \<le> pm s1 \<and> True) (onMgenc (\<lambda>m. snd (AddArgumentIfAbsent a m)))
     (\<lambda>_ _ s'. phdr (Suc k) s0 s' \<and> pm s' \<le> pm s1)"
    by (rule spec_conseq [OF phdr_AddArgument]) auto
qed

lemma phdr_signature:
  "spec (\<lambda>s. phdr k s0 s \<and> (\<exists>t. symOf (p_vm s) sig = Some t \<and> GetNumberOfArguments t = k))
     (onMgenc (MGSetSignature sig)) (\<lambda>s _ s'. hdr True [] s0 s' \<and> pm s' = pm s)"
  by (rule spec_conseq [OF setSignature_spec [of False "[]" s0 sig]]) (auto simp: phdr_def hdr_def)

lemma unaryPattern_spec:
  "spec (\<lambda>s. phdr 1 s0 s \<and> p_sym s = Identifier) unaryPattern (\<lambda>s _ s'. hdr True [] s0 s' \<and> pm s' < pm s)"
  unfolding unaryPattern_def
proof (rule spec_bind [OF spec_pre [OF unarySelector_spec]])
  fix s1 p assume s1: "phdr 1 s0 s1 \<and> p_sym s1 = Identifier"
  show "spec (\<lambda>s. selects s1 p s \<and> (p_sym s1 = Identifier \<longrightarrow> pm s < pm s1)) (onMgenc (MGSetSignature p))
     (\<lambda>_ _ s'. hdr True [] s0 s' \<and> pm s' < pm s1)"
    by (rule spec_conseq [OF phdr_signature [of 1 s0 p]])
      (use s1 token_unary [of s1] phdr_pok in \<open>auto simp: selects_def intro: phdr_grows\<close>)
qed (auto dest: phdr_pok)

text \<open>The signature is set before the argument is read.\<close>

lemma binaryPattern_spec:
  "spec (\<lambda>s. phdr 1 s0 s \<and> p_sym s \<in> binSyms) binaryPattern (\<lambda>s _ s'. hdr True [] s0 s' \<and> pm s' < pm s)"
  unfolding binaryPattern_def
proof (rule spec_bind [OF spec_pre [OF binarySelector_spec]])
  fix s1 p assume s1: "phdr 1 s0 s1 \<and> p_sym s1 \<in> binSyms"
  let ?P = "\<lambda>k s. phdr k s0 s \<and> pm s < pm s1 \<and> (\<exists>m. p_ctxs s = [m] \<and> m_signature m = p \<and> symOf (p_vm s) p = Some (p_text s1))"
  have 1: "spec (\<lambda>s. selects s1 p s \<and> (p_sym s1 \<in> binSyms \<longrightarrow> pm s < pm s1)) (onMgenc (MGSetSignature p)) (\<lambda>_ _. ?P 1)"
    unfolding spec_def
  proof (intro allI impI)
    fix s assume s: "selects s1 p s \<and> (p_sym s1 \<in> binSyms \<longrightarrow> pm s < pm s1)"
    then have "phdr 1 s0 s" using s1 by (auto simp: selects_def intro: phdr_grows)
    with s s1 show "case onMgenc (MGSetSignature p) s of Inl e \<Rightarrow> e \<noteq> OutOfFuel | Inr r \<Rightarrow> ?P 1 (snd r)"
      by (auto simp: onMgenc_def phdr_def reach_def header_def MGSetSignature_def selects_def pm_def pok_def)
  qed
  have 2: "spec (?P 1) argument (\<lambda>_ _. ?P 1)"
    by (rule spec_conseq [OF argument_spec]) (auto simp: same_def intro: phdr_pok phdr_same)
  have 3: "spec (?P 1) (onMgenc (\<lambda>m. snd (AddArgumentIfAbsent a m))) (\<lambda>_ _ s'. hdr True [] s0 s' \<and> pm s' < pm s1)" for a
    unfolding spec_def
  proof (intro allI impI)
    fix s assume s: "?P 1 s"
    then obtain m where m: "p_ctxs s = [m]" "header m" "m_locals m = []" "length (m_arguments m) = 1" "m_signature m = p"
      "symOf (p_vm s) p = Some (p_text s1)" "reach s0 s" by (auto simp: phdr_def)
    have "sigOK (p_vm s) (snd (AddArgumentIfAbsent a m))"
      using m symOf_strOf [OF m(6)] s1 token_binary [of s1] phdr_pok
      by (auto simp: sigOK_def AddArgumentIfAbsent_def AddArgument_def PushBack_def IndexOf_def)
    with m s show "case onMgenc (\<lambda>m. snd (AddArgumentIfAbsent a m)) s of Inl e \<Rightarrow> e \<noteq> OutOfFuel
       | Inr r \<Rightarrow> hdr True [] s0 (snd r) \<and> pm (snd r) < pm s1"
      by (auto simp: onMgenc_run [OF m(1)] hdr_def reach_def header_def AddArgumentIfAbsent_def AddArgument_def PushBack_def IndexOf_def)
  qed
  show "spec (\<lambda>s. selects s1 p s \<and> (p_sym s1 \<in> binSyms \<longrightarrow> pm s < pm s1))
     (thenE (onMgenc (MGSetSignature p)) (bindE argument (\<lambda>a. onMgenc (\<lambda>m. snd (AddArgumentIfAbsent a m)))))
     (\<lambda>_ _ s'. hdr True [] s0 s' \<and> pm s' < pm s1)"
    by (rule spec_then [OF 1], rule spec_bind [OF 2 3])
qed (auto dest: phdr_pok)

lemma keywordPatternParts_spec:
  "spec (\<lambda>s. phdr k s0 s \<and> p_sym s = Keyword \<and> pm s < j) (keywordPatternParts j kw)
     (\<lambda>s r s'. \<exists>kws. r = kw @ concat kws \<and> kws \<noteq> [] \<and> list_all kwOK kws \<and> phdr (k + length kws) s0 s' \<and> pm s' < pm s)"
proof (induction j arbitrary: k kw)
  case 0
  show ?case by (simp add: spec_False)
next
  case (Suc j)
  show ?case
    unfolding keywordPatternParts.simps
  proof (rule spec_bind [OF spec_pre [OF phdr_tok [OF keywordM_spec]]])
    fix s1 t assume s1: "phdr k s0 s1 \<and> p_sym s1 = Keyword \<and> pm s1 < Suc j"
    then have "pok s1" "p_sym s1 = Keyword" using phdr_pok by blast+
    then have kw: "kwOK (p_text s1)" using token_keyword [of s1] by (simp add: kwOK_def pok_def)
    let ?P = "\<lambda>k s. phdr k s0 s \<and> pm s < pm s1"
    have 1: "spec (?P k) (bindE argument (\<lambda>a. onMgenc (\<lambda>m. snd (AddArgumentIfAbsent a m)))) (\<lambda>_ _. ?P (Suc k))"
      by (rule spec_conseq [OF phdr_argument]) auto
    have 2: "spec (?P (Suc k)) (bindE sym (\<lambda>s. if s = Keyword then keywordPatternParts j (kw @ p_text s1) else returnE (kw @ p_text s1)))
        (\<lambda>_ r s'. \<exists>kws. r = kw @ concat kws \<and> kws \<noteq> [] \<and> list_all kwOK kws \<and> phdr (k + length kws) s0 s' \<and> pm s' < pm s1)"
    proof (rule spec_sym, rule spec_if)
      fix x assume x: "x = Keyword"
      show "spec (\<lambda>s. ?P (Suc k) s \<and> p_sym s = x) (keywordPatternParts j (kw @ p_text s1))
        (\<lambda>_ r s'. \<exists>kws. r = kw @ concat kws \<and> kws \<noteq> [] \<and> list_all kwOK kws \<and> phdr (k + length kws) s0 s' \<and> pm s' < pm s1)"
      proof (rule spec_conseq [OF Suc.IH [of "Suc k"]])
        fix s assume "?P (Suc k) s \<and> p_sym s = x"
        then show "phdr (Suc k) s0 s \<and> p_sym s = Keyword \<and> pm s < j" using s1 x by auto
      next
        fix s r s' assume P: "?P (Suc k) s \<and> p_sym s = x"
          and "\<exists>kws. r = (kw @ p_text s1) @ concat kws \<and> kws \<noteq> [] \<and> list_all kwOK kws \<and> phdr (Suc k + length kws) s0 s' \<and> pm s' < pm s"
        then obtain kws where "r = (kw @ p_text s1) @ concat kws" "list_all kwOK kws" "phdr (Suc k + length kws) s0 s'" "pm s' < pm s" by blast
        then show "\<exists>kws. r = kw @ concat kws \<and> kws \<noteq> [] \<and> list_all kwOK kws \<and> phdr (k + length kws) s0 s' \<and> pm s' < pm s1"
          using P kw by (intro exI [of _ "p_text s1 # kws"]) simp
      qed
    next
      fix x
      show "spec (\<lambda>s. ?P (Suc k) s \<and> p_sym s = x) (returnE (kw @ p_text s1))
        (\<lambda>_ r s'. \<exists>kws. r = kw @ concat kws \<and> kws \<noteq> [] \<and> list_all kwOK kws \<and> phdr (k + length kws) s0 s' \<and> pm s' < pm s1)"
        by (rule spec_return) (use kw in \<open>auto intro: exI [of _ "[p_text s1]"]\<close>)
    qed
    have 3: "spec (?P k) (bindE argument (\<lambda>a. thenE (onMgenc (\<lambda>m. snd (AddArgumentIfAbsent a m)))
       (bindE sym (\<lambda>s. if s = Keyword then keywordPatternParts j (kw @ p_text s1) else returnE (kw @ p_text s1)))))
        (\<lambda>_ r s'. \<exists>kws. r = kw @ concat kws \<and> kws \<noteq> [] \<and> list_all kwOK kws \<and> phdr (k + length kws) s0 s' \<and> pm s' < pm s1)"
      using spec_then [OF 1 2] by (simp only: bind_then_assoc)
    show "spec (\<lambda>s. phdr k s0 s \<and> pm s \<le> pm s1 \<and> t = p_text s1 \<and> (p_sym s1 = Keyword \<longrightarrow> pm s < pm s1))
        (bindE argument (\<lambda>a. thenE (onMgenc (\<lambda>m. snd (AddArgumentIfAbsent a m)))
       (bindE sym (\<lambda>s. if s = Keyword then keywordPatternParts j (kw @ t) else returnE (kw @ t)))))
        (\<lambda>_ r s'. \<exists>kws. r = kw @ concat kws \<and> kws \<noteq> [] \<and> list_all kwOK kws \<and> phdr (k + length kws) s0 s' \<and> pm s' < pm s1)"
    proof (cases "t = p_text s1")
      case True
      show ?thesis unfolding True by (rule spec_pre [OF 3]) (use s1 in auto)
    qed (simp add: spec_def)
  qed simp
qed

lemma keywordPattern_spec:
  "spec (\<lambda>s. phdr 1 s0 s \<and> p_sym s = Keyword \<and> pm s < n) (keywordPattern n) (\<lambda>s _ s'. hdr True [] s0 s' \<and> pm s' < pm s)"
  unfolding keywordPattern_def
proof (rule spec_bind [OF keywordPatternParts_spec])
  fix s1 kw assume s1: "phdr 1 s0 s1 \<and> p_sym s1 = Keyword \<and> pm s1 < n"
  have "spec (\<lambda>s. phdr (1 + length kws) s0 s \<and> pm s < pm s1) (bindE (vmM (SymbolFor (concat kws))) (\<lambda>s. onMgenc (MGSetSignature s)))
     (\<lambda>_ _ s'. hdr True [] s0 s' \<and> pm s' < pm s1)" if kws: "list_all kwOK kws" "kws \<noteq> []" for kws
  proof (rule spec_bind [OF spec_pre [OF SymbolFor_spec]])
    fix s p assume s: "phdr (1 + length kws) s0 s \<and> pm s < pm s1"
    show "spec (\<lambda>s'. grows s s' \<and> pm s' = pm s \<and> p_sym s' = p_sym s \<and> p_text s' = p_text s \<and> symOf (p_vm s') p = Some (cstr (concat kws)))
       (onMgenc (MGSetSignature p)) (\<lambda>_ _ s'. hdr True [] s0 s' \<and> pm s' < pm s1)"
      by (rule spec_conseq [OF phdr_signature [of "1 + length kws" s0 p]])
        (use s kwOK_arguments [OF kws] in \<open>auto intro: phdr_grows\<close>)
  qed (auto dest: phdr_pok)
  then show "spec (\<lambda>s. \<exists>kws. kw = [] @ concat kws \<and> kws \<noteq> [] \<and> list_all kwOK kws \<and> phdr (1 + length kws) s0 s \<and> pm s < pm s1)
     (bindE (vmM (SymbolFor kw)) (\<lambda>s. onMgenc (MGSetSignature s))) (\<lambda>_ _ s'. hdr True [] s0 s' \<and> pm s' < pm s1)"
    unfolding spec_def by fastforce
qed

lemma pattern_spec:
  "spec (\<lambda>s. phdr 1 s0 s \<and> p_sym s \<in> {Identifier, Keyword} \<union> binSyms \<and> pm s < n) (pattern n)
     (\<lambda>s _ s'. hdr True [] s0 s' \<and> pm s' < pm s)"
  unfolding pattern_def
proof (rule spec_sym, intro spec_if)
  let ?P = "\<lambda>x s. (phdr 1 s0 s \<and> p_sym s \<in> {Identifier, Keyword} \<union> binSyms \<and> pm s < n) \<and> p_sym s = x"
  let ?Q = "\<lambda>s (_::unit) s'. hdr True [] s0 s' \<and> pm s' < pm s"
  show "spec (?P x) unaryPattern ?Q" if "x = Identifier" for x
    by (rule spec_pre [OF unaryPattern_spec]) (use that in auto)
  show "spec (?P x) (keywordPattern n) ?Q" if "x = Keyword" for x
    by (rule spec_pre [OF keywordPattern_spec]) (use that in auto)
  show "spec (?P x) binaryPattern ?Q" if "x \<noteq> Identifier" "x \<noteq> Keyword" for x
    by (rule spec_pre [OF binaryPattern_spec]) (use that in auto)
qed

section \<open>Methods\<close>

lemma methodBlock_spec:
  assumes rc: "rcOK n rc"
  shows "spec (\<lambda>s. hdr True [] s0 s \<and> pm s < n) (methodBlock n rc) (\<lambda>s _ s'. complete [] s0 s' \<and> pm s' \<le> pm s)"
  unfolding methodBlock_def
proof (rule spec_then [OF spec_pre [OF hdr_tok [OF expect_spec, of True "[]" s0]]], simp)
  fix s1 b assume s1: "hdr True [] s0 s1 \<and> pm s1 < n"
  have 1: "spec (\<lambda>s. hdr True [] s0 s \<and> pm s \<le> pm s1) (blockContents n rc) (\<lambda>_ _ s. built [] s0 s \<and> pm s \<le> pm s1)"
    by (rule spec_conseq [OF blockContents_spec [OF rc order_refl]]) (use s1 in auto)
  show "spec (\<lambda>s. hdr True [] s0 s \<and> pm s \<le> pm s1 \<and> b = (p_sym s1 = NewTerm) \<and> (b \<longrightarrow> NewTerm \<noteq> NONE \<longrightarrow> pm s < pm s1) \<and>
       (\<not> b \<longrightarrow> p_sym s = p_sym s1 \<and> p_text s = p_text s1)) (thenE (blockContents n rc)
    (bindE mgenc (\<lambda>m.
     thenE (if \<not> m_finished m
            then thenE (onMgenc EmitPOP)
                (thenE (onMgenc (EmitPUSHARGUMENT 0 0))
                (thenE (onMgenc EmitRETURNLOCAL) (onMgenc (SetFinished True))))
            else returnE ())
    (thenE (expect EndTerm) (returnE ()))))) (\<lambda>_ _ s'. complete [] s0 s' \<and> pm s' \<le> pm s1)"
    by (rule spec_then [OF spec_pre [OF 1] spec_conseq [OF finishMethod_spec]]) auto
qed

text \<open>A method is complete, or it is marked primitive and has a signature.\<close>

definition methodDone :: "pstate \<Rightarrow> pstate \<Rightarrow> bool" where
  "methodDone s0 s \<longleftrightarrow> complete [] s0 s \<or>
     reach s0 s \<and> (\<exists>m. p_ctxs s = [m] \<and> m_primitive m \<and> sigOK (p_vm s) m)"

lemma method_spec:
  assumes rc: "rcOK n rc"
  shows "spec (\<lambda>s. phdr 1 s0 s \<and> p_sym s \<in> {Identifier, Keyword} \<union> binSyms \<and> pm s < n) (methodM n rc)
     (\<lambda>s _ s'. methodDone s0 s' \<and> pm s' < pm s)"
  unfolding methodM_def
proof (rule spec_then [OF pattern_spec])
  fix s1 assume s1: "phdr 1 s0 s1 \<and> p_sym s1 \<in> {Identifier, Keyword} \<union> binSyms \<and> pm s1 < n"
  let ?P = "\<lambda>s. hdr True [] s0 s \<and> pm s < pm s1"
  have 1: "spec ?P (expect Equal) (\<lambda>_ _. ?P)"
    by (rule spec_conseq [OF hdr_tok [OF expect_spec, of True "[]" s0]]) auto
  have 2: "spec (\<lambda>s. ?P s \<and> p_sym s = x) (thenE (onMgenc (SetPrimitive True)) primitiveBlock)
      (\<lambda>_ _ s. methodDone s0 s \<and> pm s < pm s1)" for x
  proof (rule spec_then)
    let ?R = "\<lambda>s. reach s0 s \<and> pm s < pm s1 \<and> (\<exists>m. p_ctxs s = [m] \<and> m_primitive m \<and> sigOK (p_vm s) m)"
    show "spec (\<lambda>s. ?P s \<and> p_sym s = x) (onMgenc (SetPrimitive True)) (\<lambda>_ _. ?R)"
      by (auto simp: spec_def onMgenc_def hdr_def reach_def SetPrimitive_def sigOK_def pm_def pok_def)
    show "spec ?R primitiveBlock (\<lambda>_ _ s. methodDone s0 s \<and> pm s < pm s1)"
      unfolding primitiveBlock_def
      by (rule spec_then [OF spec_pre [OF expect_spec]], simp add: reach_def, rule spec_return)
        (auto simp: methodDone_def same_def reach_def)
  qed
  have 3: "spec (\<lambda>s. ?P s \<and> p_sym s = x) (methodBlock n rc) (\<lambda>_ _ s. methodDone s0 s \<and> pm s < pm s1)" for x
    by (rule spec_conseq [OF methodBlock_spec [OF rc, of s0]]) (use s1 in \<open>auto simp: methodDone_def\<close>)
  show "spec ?P (thenE (expect Equal) (bindE sym (\<lambda>s.
       if s = Primitive then thenE (onMgenc (SetPrimitive True)) primitiveBlock
       else methodBlock n rc))) (\<lambda>_ _ s'. methodDone s0 s' \<and> pm s' < pm s1)"
    by (rule spec_then [OF 1], rule spec_sym, rule spec_if, rule 2, rule 3)
qed

section \<open>The methods of a class\<close>

definition emptyPrimitive :: "vm \<Rightarrow> ptr \<Rightarrow> bool" where
  "emptyPrimitive v p = (case heap v p of
       Some ob \<Rightarrow> o_kind ob = KPrimitive \<and> o_data ob = PrimData EmptyRoutine True | None \<Rightarrow> False)"

definition compiled :: "vm \<Rightarrow> ptr \<Rightarrow> bool" where
  "compiled v p \<longleftrightarrow> isMethod v p \<and> verified v [] p \<or> emptyPrimitive v p"

definition classOK :: "vm \<Rightarrow> cgenc \<Rightarrow> bool" where
  "classOK v cg \<longleftrightarrow> (\<forall>p \<in> set (c_instanceMethods cg) \<union> set (c_classMethods cg). compiled v p)"

lemma compiled_le:
  assumes "compiled v p" and le: "vm_le v v'"
  shows "compiled v' p"
proof -
  obtain ob where ob: "heap v p = Some ob"
    using assms(1) by (auto simp: compiled_def isMethod_def emptyPrimitive_def split: option.splits)
  with vm_le_heap [OF le ob] assms(1) verified_le [OF _ le] show ?thesis
    by (auto simp: compiled_def isMethod_def emptyPrimitive_def)
qed

lemma classOK_le: "classOK v cg \<Longrightarrow> vm_le v v' \<Longrightarrow> classOK v' cg"
  by (auto simp: classOK_def intro: compiled_le)

definition cls :: "pstate \<Rightarrow> pstate \<Rightarrow> bool" where
  "cls s0 s \<longleftrightarrow> pok s \<and> p_ctxs s = [] \<and> vm_le (p_vm s0) (p_vm s) \<and> pm s \<le> pm s0 \<and>
     classOK (p_vm s) (p_cgenc s)"

lemma cls_pok: "cls s0 s \<Longrightarrow> pok s"
  by (simp add: cls_def)

lemma cls_same: "cls s0 s \<Longrightarrow> pok s' \<Longrightarrow> same s s' \<Longrightarrow> pm s' \<le> pm s \<Longrightarrow> cls s0 s'"
  by (auto simp: cls_def same_def)

lemma cls_grows: "cls s0 s \<Longrightarrow> grows s s' \<Longrightarrow> cls s0 s'"
  by (auto simp: cls_def grows_def intro: vm_le_trans classOK_le)

lemma cls_tok:
  assumes "spec pok m (\<lambda>s x s'. pok s' \<and> same s s' \<and> pm s' \<le> pm s \<and> X s x s')"
  shows "spec (cls s0) m (\<lambda>s x s'. cls s0 s' \<and> pm s' \<le> pm s \<and> X s x s')"
  by (rule spec_conseq [OF assms]) (auto intro: cls_same cls_pok)

lemma cls_SymbolFor: "spec (cls s0) (vmM (SymbolFor t)) (\<lambda>s p s'. cls s0 s' \<and> pm s' = pm s)"
  by (rule spec_conseq [OF SymbolFor_spec]) (auto intro: cls_grows cls_pok)

lemma cls_onCgenc:
  assumes "\<And>c. c_instanceMethods (f c) = c_instanceMethods c" "\<And>c. c_classMethods (f c) = c_classMethods c"
  shows "spec (cls s0) (onCgenc f) (\<lambda>s _ s'. cls s0 s' \<and> pm s' = pm s)"
  unfolding spec_def onCgenc_def by (auto simp: cls_def classOK_def assms pok_def pm_def)

lemma cls_expect: "spec (cls s0) (thenE (expect x) (returnE ())) (\<lambda>s _ s'. cls s0 s' \<and> pm s' \<le> pm s)"
  by (rule spec_then [OF cls_tok [OF expect_spec]], rule spec_return) auto

text \<open>The empty primitive a \<^verbatim>\<open>primitive\<close> method stands for until one is loaded.\<close>

lemma GetEmptyPrimitive_run:
  assumes ok: "vm_ok v"
  obtains v' where "GetEmptyPrimitive sig v = Inr (nextPtr v, v')" "vm_le v v'" "vm_ok v'" "emptyPrimitive v' (nextPtr v)"
proof -
  let ?ob = "\<lparr>o_kind = KPrimitive, o_size = sizeof_VMObject + 16,
     o_fields = [primitiveClass v, sig, nilObject v], o_slots = [], o_data = PrimData EmptyRoutine True\<rparr>"
  let ?v' = "v\<lparr>heap := (heap v)(nextPtr v \<mapsto> ?ob), nextPtr := nextPtr v + 1\<rparr>"
  have "GetEmptyPrimitive sig v = Inr (nextPtr v, ?v')"
    by (simp add: vm_defs)
  moreover have "vm_le v ?v' \<and> vm_ok ?v'" by (rule vm_le_alloc1 [OF ok refl])
  ultimately show ?thesis by (intro that) (auto simp: emptyPrimitive_def)
qed

lemma AssemblePrimitive_spec:
  "spec pok (vmM (AssemblePrimitive m)) (\<lambda>s p s'. grows s s' \<and> pm s' = pm s \<and> compiled (p_vm s') p)"
proof -
  have "spec (\<lambda>s. pok s \<and> True) (vmM (AssemblePrimitive m)) (\<lambda>s p s'. grows s s' \<and> pm s' = pm s \<and> p_sym s' = p_sym s \<and>
     p_text s' = p_text s \<and> compiled (p_vm s') p)"
  proof (rule vmM_spec)
    fix v assume "vm_ok v"
    then obtain v' where v': "GetEmptyPrimitive (m_signature m) v = Inr (nextPtr v, v')" "vm_le v v'" "vm_ok v'" "emptyPrimitive v' (nextPtr v)"
      by (rule GetEmptyPrimitive_run)
    show "AssemblePrimitive m v \<noteq> Inl OutOfFuel" using v'(1) by (simp add: AssemblePrimitive_def)
    fix p w assume "AssemblePrimitive m v = Inr (p, w)"
    with v' show "vm_le v w \<and> vm_ok w \<and> compiled w p" by (auto simp: AssemblePrimitive_def compiled_def)
  qed
  then show ?thesis by (rule spec_conseq) auto
qed

definition methodAdder :: "(ptr \<Rightarrow> cgenc \<Rightarrow> cgenc) \<Rightarrow> bool" where
  "methodAdder add \<longleftrightarrow> (\<forall>v p c. classOK v c \<longrightarrow> compiled v p \<longrightarrow> classOK v (add p c))"

lemma methodAdders: "methodAdder AddInstanceMethod" "methodAdder AddClassMethod"
  by (auto simp: methodAdder_def classOK_def AddInstanceMethod_def AddClassMethod_def ListAdd_def)

lemma methodOfClass_spec:
  assumes add: "methodAdder add"
  shows "spec (\<lambda>s. cls s0 s \<and> p_sym s \<in> {Identifier, Keyword} \<union> binSyms \<and> pm s < n)
     (methodOfClass n (parseN n) add) (\<lambda>s _ s'. cls s0 s' \<and> pm s' < pm s)"
  unfolding methodOfClass_def
proof (rule spec_then [where Q = "\<lambda>s _ s'. phdr 1 s s' \<and> p_sym s' = p_sym s \<and> pm s' = pm s"])
  show "spec (\<lambda>s. cls s0 s \<and> p_sym s \<in> {Identifier, Keyword} \<union> binSyms \<and> pm s < n)
     (enterContext (AddArgument ''self'' MethodGenerationContext_new)) (\<lambda>s _ s'. phdr 1 s s' \<and> p_sym s' = p_sym s \<and> pm s' = pm s)"
    by (auto simp: spec_def enterContext_def cls_def phdr_def reach_def header_def AddArgument_def PushBack_def
        MethodGenerationContext_new_def pm_def pok_def)
  fix s1 assume s1: "cls s0 s1 \<and> p_sym s1 \<in> {Identifier, Keyword} \<union> binSyms \<and> pm s1 < n"
  let ?D = "\<lambda>s. methodDone s1 s \<and> pm s < pm s1"
  have 1: "spec (\<lambda>s. phdr 1 s1 s \<and> p_sym s = p_sym s1 \<and> pm s = pm s1) (methodM n (parseN n)) (\<lambda>_ _. ?D)"
    by (rule spec_conseq [OF method_spec [OF parseN_OK]]) (use s1 in auto)
  have 2: "spec ?D mgenc (\<lambda>s m s'. s' = s \<and> (\<exists>ms. p_ctxs s = m # ms))"
    by (auto simp: spec_def mgenc_def split: list.split)
  let ?G = "\<lambda>p s. reach s1 s \<and> pm s < pm s1 \<and> compiled (p_vm s) p \<and> (\<exists>m. p_ctxs s = [m])"
  have 3: "spec (\<lambda>s. s = s2 \<and> (\<exists>ms. p_ctxs s2 = m # ms)) (vmM (if m_primitive m then AssemblePrimitive m else MethodAssemble m))
      (\<lambda>_ p. ?G p)" if s2: "?D s2" for s2 m
  proof (cases "p_ctxs s2 = [m]")
    case False
    have "\<not> (\<exists>ms. p_ctxs s2 = m # ms)" using False s2 by (auto simp: methodDone_def complete_def)
    then show ?thesis by (simp add: spec_def)
  next
    case c: True
    have r: "reach s1 s2" using s2 by (auto simp: methodDone_def complete_def)
    show ?thesis
    proof (cases "m_primitive m")
      case True
      show ?thesis
        unfolding if_P [OF True]
        by (rule spec_conseq [OF AssemblePrimitive_spec])
          (use r c s2 in \<open>auto simp: grows_def reach_def intro: vm_le_trans\<close>)
    next
      case False
      have "complete [] s1 s2" using s2 c False by (auto simp: methodDone_def)
      then have b: "sigOK (p_vm s2) m \<and> bodyEnd (envOf (m # [])) (p_vm s2) True (m_bytecode m) (m_literals m)"
        using c by (auto simp: complete_def)
      have env: "envOf [] = []" by (simp add: envOf_def)
      show ?thesis
        unfolding if_not_P [OF False]
        by (rule spec_conseq [OF Assemble_spec [of m "[]"]])
          (use r c s2 b in \<open>auto simp: grows_def reach_def compiled_def env intro: vm_le_trans\<close>)
    qed
  qed
  have 4: "spec (?G p) (onCgenc (add p)) (\<lambda>_ _ s. cls s0 (s\<lparr>p_ctxs := []\<rparr>) \<and> pm s < pm s1)" for p
  proof -
    have "classOK v (p_cgenc s1)" if "vm_le (p_vm s1) v" for v
      using s1 that classOK_le by (auto simp: cls_def)
    then show ?thesis
      using s1 add by (auto simp: spec_def onCgenc_def reach_def cls_def methodAdder_def pm_def pok_def intro: vm_le_trans)
  qed
  have 5: "spec (\<lambda>s. cls s0 (s\<lparr>p_ctxs := []\<rparr>) \<and> pm s < pm s1 \<and> (\<exists>m. p_ctxs s = [m])) leaveContext (\<lambda>_ _ s. cls s0 s \<and> pm s < pm s1)"
    by (auto simp: spec_def leaveContext_def pm_def)
  have 4: "spec (?G p) (onCgenc (add p)) (\<lambda>_ _ s. cls s0 (s\<lparr>p_ctxs := []\<rparr>) \<and> pm s < pm s1 \<and> (\<exists>m. p_ctxs s = [m]))" for p
    using 4 [of p] unfolding spec_def onCgenc_def by auto
  show "spec (\<lambda>s. phdr 1 s1 s \<and> p_sym s = p_sym s1 \<and> pm s = pm s1)
     (thenE (methodM n (parseN n)) (bindE mgenc (\<lambda>m.
     bindE (vmM (if m_primitive m then AssemblePrimitive m else MethodAssemble m)) (\<lambda>p.
     thenE (onCgenc (add p)) leaveContext)))) (\<lambda>_ _ s'. cls s0 s' \<and> pm s' < pm s1)"
    by (rule spec_then [OF 1], rule spec_bind [OF 2], rule spec_bind [OF 3], assumption, rule spec_then [OF 4 5])
qed

section \<open>Class definitions\<close>

lemma methods_spec:
  assumes "methodAdder add"
  shows "spec (\<lambda>s. cls s0 s \<and> pm s < n) (whileM n atMessage (methodOfClass n (parseN n) add)) (\<lambda>s _ s'. cls s0 s' \<and> pm s' \<le> pm s)"
proof -
  have "spec (\<lambda>s. cls s0 s \<and> pm s < n) (whileM n atMessage (methodOfClass n (parseN n) add))
     (\<lambda>s _ s'. cls s0 s' \<and> True \<and> pm s' \<le> pm s \<and> \<not> p_sym s' \<in> {Identifier, Keyword} \<union> binSyms)"
    by (rule spec_while [where R = "\<lambda>_ _. True" and f = pm and c = "\<lambda>s. p_sym s \<in> {Identifier, Keyword} \<union> binSyms"])
      (auto simp only: atMessage_run intro: spec_conseq [OF methodOfClass_spec [OF assms]])
  then show ?thesis by (rule spec_post) auto
qed

lemma fieldsM_spec:
  assumes add: "\<And>f c. c_instanceMethods (add f c) = c_instanceMethods c" "\<And>f c. c_classMethods (add f c) = c_classMethods c"
  shows "spec (\<lambda>s. cls s0 s \<and> pm s < n) (fieldsM n add) (\<lambda>s _ s'. cls s0 s' \<and> pm s' \<le> pm s)"
proof -
  have body: "spec (\<lambda>s. cls s0 s \<and> p_sym s = Identifier) (bindE variable (\<lambda>var. bindE (vmM (SymbolFor var)) (\<lambda>f. onCgenc (add f))))
     (\<lambda>s _ s'. cls s0 s' \<and> pm s' < pm s)"
  proof (rule spec_bind [OF spec_pre [OF cls_tok [OF variable_spec]]])
    fix s1 v assume s1: "cls s0 s1 \<and> p_sym s1 = Identifier"
    have "spec (\<lambda>s. cls s0 s \<and> pm s < pm s1) (vmM (SymbolFor v)) (\<lambda>_ _ s. cls s0 s \<and> pm s < pm s1)"
      by (rule spec_conseq [OF cls_SymbolFor]) auto
    moreover have "spec (\<lambda>s. cls s0 s \<and> pm s < pm s1) (onCgenc (add f)) (\<lambda>_ _ s. cls s0 s \<and> pm s < pm s1)" for f
      by (rule spec_conseq [OF cls_onCgenc [OF add]]) auto
    ultimately have "spec (\<lambda>s. cls s0 s \<and> pm s < pm s1) (bindE (vmM (SymbolFor v)) (\<lambda>f. onCgenc (add f))) (\<lambda>_ _ s. cls s0 s \<and> pm s < pm s1)"
      by (rule spec_bind)
    then show "spec (\<lambda>s. cls s0 s \<and> pm s \<le> pm s1 \<and> v = p_text s1 \<and> (p_sym s1 = Identifier \<longrightarrow> pm s < pm s1))
      (bindE (vmM (SymbolFor v)) (\<lambda>f. onCgenc (add f))) (\<lambda>_ _ s. cls s0 s \<and> pm s < pm s1)"
      by (rule spec_pre) (use s1 in auto)
  qed simp
  have loop: "spec (\<lambda>s. cls s0 s \<and> pm s < n) (whileM n (bindE sym (\<lambda>s. returnE (s = Identifier)))
      (bindE variable (\<lambda>var. bindE (vmM (SymbolFor var)) (\<lambda>f. onCgenc (add f)))))
     (\<lambda>s _ s'. cls s0 s' \<and> True \<and> pm s' \<le> pm s \<and> \<not> p_sym s' = Identifier)"
    by (rule spec_while [where R = "\<lambda>_ _. True" and c = "\<lambda>s. p_sym s = Identifier" and f = pm])
      (auto simp: isIdentifier_run intro: spec_conseq [OF body])
  show ?thesis
    unfolding fieldsM_def
  proof (rule spec_bind [OF spec_pre [OF cls_tok [OF accept_spec, of s0]]], simp, rule spec_if)
    fix s1 b assume s1: "cls s0 s1 \<and> pm s1 < n"
    show "spec (\<lambda>s. cls s0 s \<and> pm s \<le> pm s1 \<and> b = (p_sym s1 = Or) \<and> (b \<longrightarrow> Or \<noteq> NONE \<longrightarrow> pm s < pm s1) \<and> (\<not> b \<longrightarrow> s = s1))
      (thenE (whileM n (bindE sym (\<lambda>s. returnE (s = Identifier)))
        (bindE variable (\<lambda>var. bindE (vmM (SymbolFor var)) (\<lambda>f. onCgenc (add f))))) (thenE (expect Or) (returnE ())))
      (\<lambda>_ _ s'. cls s0 s' \<and> pm s' \<le> pm s1)"
      by (rule spec_then [OF spec_pre [OF loop]], use s1 in simp, rule spec_conseq [OF cls_expect]) auto
  qed (rule spec_return, simp)
qed

text \<open>\<open>clsOp n s0 m\<close>: within the bound, \<open>m\<close> keeps the class in order and does not unread input.\<close>

definition clsOp :: "nat \<Rightarrow> pstate \<Rightarrow> 'a PM \<Rightarrow> bool" where
  "clsOp n s0 m \<longleftrightarrow> spec (\<lambda>s. cls s0 s \<and> pm s < n) m (\<lambda>s x s'. cls s0 s' \<and> pm s' \<le> pm s)"

lemma clsOp_bind: "clsOp n s0 m \<Longrightarrow> (\<And>x. clsOp n s0 (f x)) \<Longrightarrow> clsOp n s0 (bindE m f)"
  unfolding clsOp_def by (rule spec_bind, assumption, rule spec_conseq, assumption) auto

lemma clsOp_then: "clsOp n s0 m \<Longrightarrow> clsOp n s0 k \<Longrightarrow> clsOp n s0 (thenE m k)"
  unfolding thenE_def by (rule clsOp_bind)

lemma clsOp_if: "clsOp n s0 m \<Longrightarrow> clsOp n s0 k \<Longrightarrow> clsOp n s0 (if b then m else k)"
  by simp

lemma clsOp_basic:
  "clsOp n s0 (vmM (SymbolFor t))" "clsOp n s0 textM" "clsOp n s0 sym" "clsOp n s0 (expect x)" "clsOp n s0 (accept x)"
  "clsOp n s0 (onCgenc (CGSetName p))" "clsOp n s0 (onCgenc (SetSuperName p))" "clsOp n s0 (onCgenc (SetClassSide b))"
  "clsOp n s0 (returnE y)"
proof -
  have on: "clsOp n s0 (onCgenc f)" if "\<And>c. c_instanceMethods (f c) = c_instanceMethods c"
    "\<And>c. c_classMethods (f c) = c_classMethods c" for f
    unfolding clsOp_def by (rule spec_conseq [OF cls_onCgenc [OF that, of s0]]) auto
  show "clsOp n s0 (vmM (SymbolFor t))"
    unfolding clsOp_def by (rule spec_conseq [OF cls_SymbolFor [of s0]]) auto
  show "clsOp n s0 textM" "clsOp n s0 sym" "clsOp n s0 (returnE y)"
    by (simp_all add: clsOp_def spec_def textM_def sym_def)
  show "clsOp n s0 (expect x)" "clsOp n s0 (accept x)"
    unfolding clsOp_def
    by (rule spec_conseq [OF cls_tok [OF expect_spec, of s0]], auto)
      (rule spec_conseq [OF cls_tok [OF accept_spec, of s0]], auto)
  show "clsOp n s0 (onCgenc (CGSetName p))" "clsOp n s0 (onCgenc (SetSuperName p))" "clsOp n s0 (onCgenc (SetClassSide b))"
    by (rule on; simp add: CGSetName_def SetSuperName_def SetClassSide_def)+
qed

lemma clsOp_lists:
  "clsOp n s0 (instanceFields n)" "clsOp n s0 (classFields n)"
  "clsOp n s0 (whileM n atMessage (methodOfClass n (parseN n) AddInstanceMethod))"
  "clsOp n s0 (whileM n atMessage (methodOfClass n (parseN n) AddClassMethod))"
  unfolding clsOp_def instanceFields_def classFields_def
  by (rule fieldsM_spec methods_spec methodAdders; simp add: AddInstanceField_def AddClassField_def methodAdders)+

lemma Classdef_spec: "clsOp n s0 (Classdef n)"
  unfolding Classdef_def
  by (intro clsOp_bind clsOp_then clsOp_if clsOp_basic clsOp_lists)

section \<open>A whole parse\<close>

definition cgenc0 :: "cgenc \<Rightarrow> bool" where
  "cgenc0 cg \<longleftrightarrow> c_instanceMethods cg = [] \<and> c_classMethods cg = []"

lemma Parser_start_ok:
  assumes "vm_ok v" "cgenc0 cg"
  shows "cls (Parser_start file cg v) (Parser_start file cg v)" "pm (Parser_start file cg v) < parseBound file"
  using assms
  by (auto simp: Parser_start_def cls_def pok_def lexer_ok_def Lexer_new_def token_ok_def cstr_def
      classOK_def cgenc0_def pm_def lx_measure_def parseBound_def lx_remaining_def single_ops_def)

lemma parseClass_spec:
  "spec (\<lambda>s. vm_ok v \<and> cgenc0 cg \<and> s = Parser_start file cg v) (parseClass file)
     (\<lambda>_ _ s. pok s \<and> p_ctxs s = [] \<and> vm_le v (p_vm s) \<and> classOK (p_vm s) (p_cgenc s))"
  unfolding parseClass_def
proof (rule spec_conseq [OF clsOp_then [OF _ Classdef_spec, unfolded clsOp_def]])
  show "spec (\<lambda>s. cls (Parser_start file cg v) s \<and> pm s < parseBound file) GETSYM
     (\<lambda>s x s'. cls (Parser_start file cg v) s' \<and> pm s' \<le> pm s)"
    by (rule spec_conseq [OF GETSYM_spec]) (auto intro: cls_same cls_pok)
  fix s assume "vm_ok v \<and> cgenc0 cg \<and> s = Parser_start file cg v"
  then show "cls (Parser_start file cg v) s \<and> pm s < parseBound file" using Parser_start_ok by blast
  fix x s' assume "cls (Parser_start file cg v) s' \<and> pm s' \<le> pm s"
  then show "pok s' \<and> p_ctxs s' = [] \<and> vm_le v (p_vm s') \<and> classOK (p_vm s') (p_cgenc s')"
    by (simp add: cls_def Parser_start_def)
qed

end
