(* ===== verification/Classes.thy ===== *)
theory Classes
  imports Methods
begin

text \<open>
  \<^verbatim>\<open>src/vmobjects/VMClass.cpp\<close>: method dictionaries, instance fields and the loading of
  primitives. The named fields of a class are \<^verbatim>\<open>clazz\<close>, \<^verbatim>\<open>superClass\<close>, \<^verbatim>\<open>name\<close>,
  \<^verbatim>\<open>instanceFields\<close> and \<^verbatim>\<open>instanceInvokables\<close>. Walks along the superclass chain take the
  number of allocated objects as their bound: an acyclic chain is shorter.
\<close>

section \<open>Fields\<close>

definition GetSuperClass :: "ptr \<Rightarrow> ptr vmM" where
  [vm_defs]: "GetSuperClass c = getMember [KClass] 1 c"

definition SetSuperClass :: "ptr \<Rightarrow> ptr \<Rightarrow> unit vmM" where
  [vm_defs]: "SetSuperClass c sc = setMember [KClass] 1 c sc"

definition HasSuperClass :: "ptr \<Rightarrow> bool vmM" where
  [vm_defs]: "HasSuperClass c =
     bindE (getMember [KClass] 1 c) (\<lambda>s. getsE (\<lambda>v. s \<noteq> NULL \<and> s \<noteq> nilObject v))"

definition GetName :: "ptr \<Rightarrow> ptr vmM" where
  [vm_defs]: "GetName c = getMember [KClass] 2 c"

definition SetName :: "ptr \<Rightarrow> ptr \<Rightarrow> unit vmM" where
  [vm_defs]: "SetName c n = setMember [KClass] 2 c n"

definition GetInstanceFields :: "ptr \<Rightarrow> ptr vmM" where
  [vm_defs]: "GetInstanceFields c = getMember [KClass] 3 c"

definition SetInstanceFields :: "ptr \<Rightarrow> ptr \<Rightarrow> unit vmM" where
  [vm_defs]: "SetInstanceFields c a = setMember [KClass] 3 c a"

definition GetInstanceInvokables :: "ptr \<Rightarrow> ptr vmM" where
  [vm_defs]: "GetInstanceInvokables c = getMember [KClass] 4 c"

section \<open>Invokables\<close>

definition GetNumberOfInstanceInvokables :: "ptr \<Rightarrow> int vmM" where
  [vm_defs]: "GetNumberOfInstanceInvokables c =
     bindE (GetInstanceInvokables c) GetNumberOfIndexableFields"

definition GetInstanceInvokable :: "ptr \<Rightarrow> int \<Rightarrow> ptr vmM" where
  [vm_defs]: "GetInstanceInvokable c index =
     bindE (GetInstanceInvokables c) (\<lambda>a. ArrayGet a index)"

text \<open>A value that is not nil must be an invokable: the result of the cast is used unchecked.\<close>

definition SetInstanceInvokable :: "ptr \<Rightarrow> int \<Rightarrow> ptr \<Rightarrow> unit vmM" where
  [vm_defs]: "SetInstanceInvokable c index invokable =
     bindE (GetInstanceInvokables c) (\<lambda>a.
     thenE (ArraySet a index invokable)
    (bindE (getsE nilObject) (\<lambda>n.
       whenE (invokable \<noteq> n)
         (bindE (dynamic_cast_VMInvokable invokable) (\<lambda>inv. SetHolder inv c)))))"

definition SetInstanceInvokables :: "ptr \<Rightarrow> ptr \<Rightarrow> unit vmM" where
  [vm_defs]: "SetInstanceInvokables c invokables =
     thenE (setMember [KClass] 4 c invokables)
    (bindE (GetNumberOfInstanceInvokables c) (\<lambda>n.
       forE [0..<nat n] (\<lambda>i.
         bindE (GetInstanceInvokable c (int i)) (\<lambda>invo.
         bindE (getsE nilObject) (\<lambda>nl.
           whenE (invo \<noteq> nl)
             (bindE (dynamic_cast_VMInvokable invo) (\<lambda>inv. SetHolder inv c)))))))"

definition corruptedError :: string where
  "corruptedError =
     ''Invokables array corrupted. Either NULL pointer added or pointer to non-invokable.''"

definition nonInvokableError :: string where
  "nonInvokableError = ''Error: trying to add non-invokable to invokables array''"

text \<open>The search of \<^verbatim>\<open>AddInstanceInvokable\<close> over the remaining indices: whether an invokable
  with the same signature pointer was found and replaced.\<close>

fun replaceInvokable :: "ptr \<Rightarrow> ptr \<Rightarrow> int list \<Rightarrow> bool vmM" where
  "replaceInvokable c ptr [] = returnE False"
| "replaceInvokable c ptr (i # js) =
     bindE (GetInstanceInvokable c i) (\<lambda>x.
     bindE (dynamic_cast_VMInvokable x) (\<lambda>inv.
       if inv \<noteq> NULL then
         bindE (GetSignature ptr) (\<lambda>s1.
         bindE (GetSignature inv) (\<lambda>s2.
           if s1 = s2 then thenE (SetInstanceInvokable c i ptr) (returnE True)
           else replaceInvokable c ptr js))
       else throwE (ErrorExit corruptedError)))"

definition AddInstanceInvokable :: "ptr \<Rightarrow> ptr \<Rightarrow> bool vmM" where
  [vm_defs]: "AddInstanceInvokable c ptr =
     bindE (dynamic_cast_VMInvokable ptr) (\<lambda>newInvokable.
       if newInvokable = NULL then throwE (ErrorExit nonInvokableError)
       else
         bindE (GetNumberOfInstanceInvokables c) (\<lambda>n.
         bindE (replaceInvokable c ptr (map int [0..<nat n])) (\<lambda>replaced.
           if replaced then returnE False
           else
             bindE (GetInstanceInvokables c) (\<lambda>a.
             bindE (CopyAndExtendWith a ptr) (\<lambda>a'.
             thenE (setMember [KClass] 4 c a') (returnE True))))))"

definition AddInstancePrimitive :: "ptr \<Rightarrow> ptr \<Rightarrow> unit vmM" where
  [vm_defs]: "AddInstancePrimitive c ptr = thenE (AddInstanceInvokable c ptr) (returnE ())"

text \<open>The search of \<^verbatim>\<open>LookupInvokable\<close> in one class. A NULL entry ends it.\<close>

fun findInvokable :: "ptr \<Rightarrow> ptr \<Rightarrow> int list \<Rightarrow> ptr vmM" where
  "findInvokable c name [] = returnE NULL"
| "findInvokable c name (i # js) =
     bindE (GetInstanceInvokable c i) (\<lambda>invokable.
       if invokable = NULL then returnE NULL
       else bindE (GetSignature invokable) (\<lambda>sig.
         if sig = name then returnE invokable else findInvokable c name js))"

primrec lookupInvokable :: "nat \<Rightarrow> ptr \<Rightarrow> ptr \<Rightarrow> ptr vmM" where
  "lookupInvokable 0 c name = throwE OutOfFuel"
| "lookupInvokable (Suc fuel) c name =
     bindE (GetNumberOfInstanceInvokables c) (\<lambda>n.
     bindE (findInvokable c name (map int [0..<nat n])) (\<lambda>found.
       if found \<noteq> NULL then returnE found
       else bindE (HasSuperClass c) (\<lambda>b.
         if b then bindE (GetSuperClass c) (\<lambda>s. lookupInvokable fuel s name)
         else returnE NULL)))"

definition LookupInvokable :: "ptr \<Rightarrow> ptr \<Rightarrow> ptr vmM" where
  [vm_defs]: "LookupInvokable c name = bindE (getsE nextPtr) (\<lambda>n. lookupInvokable n c name)"

fun anyPrimitive :: "ptr \<Rightarrow> int list \<Rightarrow> bool vmM" where
  "anyPrimitive c [] = returnE False"
| "anyPrimitive c (i # js) =
     bindE (GetInstanceInvokable c i) (\<lambda>invokable.
     bindE (IsPrimitive invokable) (\<lambda>b. if b then returnE True else anyPrimitive c js))"

definition HasPrimitives :: "ptr \<Rightarrow> bool vmM" where
  [vm_defs]: "HasPrimitives c =
     bindE (GetNumberOfInstanceInvokables c) (\<lambda>n. anyPrimitive c (map int [0..<nat n]))"

section \<open>Instance fields\<close>

primrec numberOfInstanceFields :: "nat \<Rightarrow> ptr \<Rightarrow> int vmM" where
  "numberOfInstanceFields 0 c = throwE OutOfFuel"
| "numberOfInstanceFields (Suc fuel) c =
     bindE (bindE (GetInstanceFields c) GetNumberOfIndexableFields) (\<lambda>own.
     bindE (HasSuperClass c) (\<lambda>b.
     bindE (if b then bindE (GetSuperClass c) (numberOfInstanceFields fuel) else returnE 0) (\<lambda>sf.
       returnE (own + sf))))"

definition GetNumberOfInstanceFields :: "ptr \<Rightarrow> int vmM" where
  [vm_defs]: "GetNumberOfInstanceFields c = bindE (getsE nextPtr) (\<lambda>n. numberOfInstanceFields n c)"

definition numberOfSuperInstanceFields :: "ptr \<Rightarrow> int vmM" where
  [vm_defs]: "numberOfSuperInstanceFields c =
     bindE (HasSuperClass c) (\<lambda>b.
       if b then bindE (GetSuperClass c) GetNumberOfInstanceFields else returnE 0)"

primrec instanceFieldName :: "nat \<Rightarrow> ptr \<Rightarrow> int \<Rightarrow> ptr vmM" where
  "instanceFieldName 0 c index = throwE OutOfFuel"
| "instanceFieldName (Suc fuel) c index =
     bindE (numberOfSuperInstanceFields c) (\<lambda>sf.
       if sf \<le> index then bindE (GetInstanceFields c) (\<lambda>a. ArrayGet a (index - sf))
       else bindE (GetSuperClass c) (\<lambda>s. instanceFieldName fuel s index))"

definition GetInstanceFieldName :: "ptr \<Rightarrow> int \<Rightarrow> ptr vmM" where
  [vm_defs]: "GetInstanceFieldName c index =
     bindE (getsE nextPtr) (\<lambda>n. instanceFieldName n c index)"

text \<open>The loop of \<^verbatim>\<open>LookupFieldIndex\<close>, which runs to the number of fields inclusively.\<close>

fun findFieldIndex :: "ptr \<Rightarrow> ptr \<Rightarrow> int list \<Rightarrow> int vmM" where
  "findFieldIndex c name [] = returnE (-1)"
| "findFieldIndex c name (i # js) =
     bindE (GetInstanceFieldName c i) (\<lambda>f.
       if name = f then returnE i
       else
         bindE (GetStdString name) (\<lambda>s1.
         bindE (GetStdString f) (\<lambda>s2.
           if s1 = s2 then returnE i else findFieldIndex c name js)))"

definition LookupFieldIndex :: "ptr \<Rightarrow> ptr \<Rightarrow> int vmM" where
  [vm_defs]: "LookupFieldIndex c name =
     bindE (GetNumberOfInstanceFields c) (\<lambda>n. findFieldIndex c name (map int [0..<nat (n + 1)]))"

text \<open>\<^verbatim>\<open>VMObject::GetFieldName\<close> and \<^verbatim>\<open>GetFieldIndex\<close> ask the object's class.\<close>

definition GetFieldName :: "ptr \<Rightarrow> int \<Rightarrow> ptr vmM" where
  [vm_defs]: "GetFieldName p index = bindE (GetClass p) (\<lambda>c. GetInstanceFieldName c index)"

definition GetFieldIndex :: "ptr \<Rightarrow> ptr \<Rightarrow> int vmM" where
  [vm_defs]: "GetFieldIndex p fieldName = bindE (GetClass p) (\<lambda>c. LookupFieldIndex c fieldName)"

section \<open>Loading primitives\<close>

type_synonym library = "string \<Rightarrow> string list option"

definition genLoadstring :: "string \<Rightarrow> string \<Rightarrow> string" where
  "genLoadstring cp cname = cp @ ''/'' @ cname @ ''.csp''"

definition genCoreLoadstring :: "string \<Rightarrow> string" where
  "genCoreLoadstring cp = genLoadstring cp ''SOMCore''"

definition loadLib :: "string \<Rightarrow> library option vmM" where
  [vm_defs]: "loadLib path = getsE (\<lambda>v. libs v path)"

definition isResponsible :: "library \<Rightarrow> string \<Rightarrow> bool" where
  "isResponsible handle cl \<longleftrightarrow> handle cl \<noteq> None"

definition createRoutine :: "library \<Rightarrow> string \<Rightarrow> string \<Rightarrow> routine option" where
  "createRoutine handle cname selector =
     (case handle cname of
        None \<Rightarrow> None
      | Some names \<Rightarrow> if selector \<in> set names then Some (Routine cname selector) else None)"

definition setPrimitives :: "ptr \<Rightarrow> library \<Rightarrow> string \<Rightarrow> unit vmM" where
  [vm_defs]: "setPrimitives c handle cname =
     bindE (GetNumberOfInstanceInvokables c) (\<lambda>n.
       forE [0..<nat n] (\<lambda>i.
         bindE (GetInstanceInvokable c (int i)) (\<lambda>anInvokable.
         bindE (IsPrimitive anInvokable) (\<lambda>b.
           whenE b
             (bindE (GetSignature anInvokable) (\<lambda>sig.
              bindE (GetStdString sig) (\<lambda>s.
                case createRoutine handle cname (GetPlainString s) of
                  None \<Rightarrow> throwE (Quit 1)
                | Some routine \<Rightarrow>
                    thenE (SetRoutine anInvokable routine) (SetEmpty anInvokable False))))))))"

text \<open>The search along the class path: the core library first, then the library named
  after the class, which must be responsible for it.\<close>

definition responsibilityError :: string where
  "responsibilityError =
     ''Library claims no resonsibility, but musn'' @ CHR 0x27 # ''t!''"

fun findLibrary :: "string \<Rightarrow> string list \<Rightarrow> library option vmM" where
  "findLibrary cname [] = returnE None"
| "findLibrary cname (cp # cps) =
     bindE (loadLib (genCoreLoadstring cp)) (\<lambda>core.
       case core of
         Some h \<Rightarrow>
           if isResponsible h cname then returnE (Some h)
           else bindE (loadLib (genLoadstring cp cname)) (\<lambda>own.
             case own of
               Some h' \<Rightarrow>
                 if isResponsible h' cname then returnE (Some h')
                 else throwE (ErrorExit responsibilityError)
             | None \<Rightarrow> findLibrary cname cps)
       | None \<Rightarrow>
           bindE (loadLib (genLoadstring cp cname)) (\<lambda>own.
             case own of
               Some h' \<Rightarrow>
                 if isResponsible h' cname then returnE (Some h')
                 else throwE (ErrorExit responsibilityError)
             | None \<Rightarrow> findLibrary cname cps))"

definition LoadPrimitives :: "ptr \<Rightarrow> string list \<Rightarrow> unit vmM" where
  [vm_defs]: "LoadPrimitives c cp =
     bindE (bindE (GetName c) GetStdString) (\<lambda>cname.
     bindE (findLibrary cname cp) (\<lambda>dlhandle.
       case dlhandle of
         None \<Rightarrow> throwE (Quit 1)
       | Some h \<Rightarrow>
           thenE (setPrimitives c h cname)
             (bindE (GetClass c) (\<lambda>mc. setPrimitives mc h cname))))"

end
