(* ===== verification/Compiler.thy ===== *)
theory Compiler
  imports Parser Classes
begin

text \<open>
  \<^verbatim>\<open>src/compiler/SourcecodeCompiler.cpp\<close>, the assembling half of
  \<^verbatim>\<open>ClassGenerationContext.cpp\<close> and the class loading and start-up of \<^verbatim>\<open>src/vm/Universe.cpp\<close>.
  Loading a class compiles its file, which loads the superclass: the recursion of
  \<^verbatim>\<open>LoadClass\<close> takes a bound on the length of the chain of unloaded superclasses. A
  superclass that is one of the classes being loaded makes the source recurse for ever, and
  the model end in \<open>OutOfFuel\<close> for every bound. Syntax errors go to \<^verbatim>\<open>stderr\<close> and are dropped
  here; what is written to \<^verbatim>\<open>cout\<close> is appended to \<open>out\<close>. Bytecode dumps (\<^verbatim>\<open>-d\<close>) are off.
\<close>

section \<open>Decimal output\<close>

fun show_nat :: "nat \<Rightarrow> string" where
  "show_nat n = (if n < 10 then [char_of (48 + n)] else show_nat (n div 10) @ [char_of (48 + n mod 10)])"

definition show_int :: "int \<Rightarrow> string" where
  "show_int i = (if i < 0 then CHR ''-'' # show_nat (nat (- i)) else show_nat (nat i))"

definition print :: "string \<Rightarrow> unit vmM" where
  [vm_defs]: "print s = modifyE (\<lambda>v. v\<lparr>out := out v @ s\<rparr>)"

definition newline :: string where
  "newline = [CHR 0x0A]"

section \<open>Classes and instances\<close>

definition dynamic_cast_VMClass :: "ptr \<Rightarrow> ptr vmM" where
  [vm_defs]: "dynamic_cast_VMClass p =
     (if p = NULL then returnE NULL
      else bindE (deref p) (\<lambda>ob. returnE (if o_kind ob = KClass then p else NULL)))"

definition VMClass_new :: "nat \<Rightarrow> ptr vmM" where
  [vm_defs]: "VMClass_new numberOfFields =
     bindE (getsE (\<lambda>v. newFields v (numberOfFields + 4))) (\<lambda>fs.
       allocate \<lparr>o_kind = KClass, o_size = sizeof_VMObject + 16 + int numberOfFields * sizeof_pointer,
                 o_fields = fs, o_slots = [], o_data = NoData\<rparr>)"

definition NewClass :: "ptr \<Rightarrow> ptr vmM" where
  [vm_defs]: "NewClass classOfClass =
     bindE (GetNumberOfInstanceFields classOfClass) (\<lambda>numFields.
     bindE (VMClass_new (nat numFields)) (\<lambda>result.
     thenE (SetClass result classOfClass)
    (bindE (SymbolFor ''NewClass'') (\<lambda>n.
     thenE (SetGlobal n result)
       (returnE result)))))"

text \<open>A class without any instance field would get an object without its class field.\<close>

definition NewInstance :: "ptr \<Rightarrow> ptr vmM" where
  [vm_defs]: "NewInstance classOfInstance =
     bindE (GetNumberOfInstanceFields classOfInstance) (\<lambda>n.
       let numOfFields = n - 1 in
       if numOfFields < 0 then throwE OutOfRange
       else
         bindE (getsE (\<lambda>v. newFields v (nat numOfFields))) (\<lambda>fs.
         bindE (allocate \<lparr>o_kind = KObject, o_size = sizeof_VMObject + numOfFields * sizeof_pointer,
                  o_fields = fs, o_slots = [], o_data = NoData\<rparr>) (\<lambda>result.
         thenE (SetClass result classOfInstance)
           (returnE result))))"

section \<open>ClassGenerationContext\<close>

definition Assemble :: "(ptr \<Rightarrow> ptr vmM) \<Rightarrow> cgenc \<Rightarrow> ptr vmM" where
  "Assemble load c =
     bindE (GetStdString (c_name c)) (\<lambda>s. let ccname = s @ '' class'' in
     bindE (load (c_superName c)) (\<lambda>superClass.
     bindE (getsE metaClassClass) (\<lambda>meta.
     bindE (NewClass meta) (\<lambda>resultClass.
     bindE (NewArrayList (c_classFields c)) (\<lambda>a1. thenE (SetInstanceFields resultClass a1)
    (bindE (NewArrayList (c_classMethods c)) (\<lambda>a2. thenE (SetInstanceInvokables resultClass a2)
    (bindE (SymbolFor ccname) (\<lambda>n. thenE (SetName resultClass n)
    (bindE (GetClass superClass) (\<lambda>superMClass. thenE (SetSuperClass resultClass superMClass)
    (bindE (NewClass resultClass) (\<lambda>result.
     bindE (NewArrayList (c_instanceFields c)) (\<lambda>a3. thenE (SetInstanceFields result a3)
    (bindE (NewArrayList (c_instanceMethods c)) (\<lambda>a4. thenE (SetInstanceInvokables result a4)
    (thenE (SetName result (c_name c))
    (thenE (SetSuperClass result superClass)
       (returnE result)))))))))))))))))))"

definition AssembleSystemClass :: "cgenc \<Rightarrow> ptr \<Rightarrow> unit vmM" where
  "AssembleSystemClass c sysClass =
     bindE (NewArrayList (c_instanceMethods c)) (\<lambda>pArr. thenE (SetInstanceInvokables sysClass pArr)
    (bindE (NewArrayList (c_instanceFields c)) (\<lambda>a. thenE (SetInstanceFields sysClass a)
    (bindE (GetClass sysClass) (\<lambda>superMClass.
     bindE (NewArrayList (c_classMethods c)) (\<lambda>b. thenE (SetInstanceInvokables superMClass b)
    (bindE (NewArrayList (c_classFields c)) (\<lambda>d. SetInstanceFields superMClass d))))))))"

section \<open>SourcecodeCompiler\<close>

text \<open>\<^verbatim>\<open>new Parser(stream)\<close> and \<^verbatim>\<open>compile\<close>: the parser works on the heap of the virtual machine.\<close>

definition parseSource :: "string \<Rightarrow> cgenc vmM" where
  "parseSource file = (\<lambda>v.
     case parseClass file (Parser_start file ClassGenerationContext_new v) of
       Inl e \<Rightarrow> Inl e
     | Inr r \<Rightarrow> Inr (p_cgenc (snd r), p_vm (snd r)))"

definition compile :: "(ptr \<Rightarrow> ptr vmM) \<Rightarrow> string \<Rightarrow> ptr \<Rightarrow> ptr vmM" where
  "compile load file sysClass =
     bindE (parseSource file) (\<lambda>cgc.
       if sysClass = NULL then Assemble load cgc
       else thenE (AssembleSystemClass cgc sysClass) (returnE sysClass))"

definition showCompilationError :: "string \<Rightarrow> string \<Rightarrow> unit vmM" where
  "showCompilationError filename message =
     thenE (print (''Error when compiling '' @ filename @ '':'' @ newline))
       (print (message @ newline))"

definition CompileClass :: "(ptr \<Rightarrow> ptr vmM) \<Rightarrow> string \<Rightarrow> string \<Rightarrow> ptr \<Rightarrow> ptr vmM" where
  "CompileClass load path file sysClass =
     (let fname = path @ ''/'' @ file @ ''.som'' in
      bindE (getsE (\<lambda>v. files v fname)) (\<lambda>fp.
        case fp of
          None \<Rightarrow> returnE NULL
        | Some content \<Rightarrow>
            bindE (compile load content sysClass) (\<lambda>result.
            bindE (GetName result) (\<lambda>cname.
            bindE (GetStdString cname) (\<lambda>cnameC.
              if file \<noteq> cnameC then
                thenE (showCompilationError file
                  (''Filename: '' @ file @ '' does not match class name '' @ cnameC))
                  (returnE NULL)
              else returnE result)))))"

definition CompileClassString :: "(ptr \<Rightarrow> ptr vmM) \<Rightarrow> string \<Rightarrow> ptr \<Rightarrow> ptr vmM" where
  "CompileClassString load stream sysClass = compile load stream sysClass"

section \<open>Loading classes\<close>

text \<open>The loop of \<^verbatim>\<open>LoadClassBasic\<close> over the class path.\<close>

fun loadFrom :: "(ptr \<Rightarrow> ptr vmM) \<Rightarrow> ptr \<Rightarrow> ptr \<Rightarrow> string list \<Rightarrow> ptr vmM" where
  "loadFrom load name sysClass [] = returnE NULL"
| "loadFrom load name sysClass (i # js) =
     bindE (GetStdString name) (\<lambda>s.
     bindE (CompileClass load i s sysClass) (\<lambda>result.
       if result \<noteq> NULL then returnE result else loadFrom load name sysClass js))"

definition LoadClassBasic :: "(ptr \<Rightarrow> ptr vmM) \<Rightarrow> ptr \<Rightarrow> ptr \<Rightarrow> ptr vmM" where
  "LoadClassBasic load name sysClass =
     thenE (GetStdString name) (bindE (getsE classPath) (loadFrom load name sysClass))"

text \<open>\<^verbatim>\<open>result->HasPrimitives() || result->GetClass()->HasPrimitives()\<close> and the loading that follows.\<close>

definition loadPrimitivesOf :: "ptr \<Rightarrow> unit vmM" where
  "loadPrimitivesOf cl =
     bindE (HasPrimitives cl) (\<lambda>b.
     bindE (if b then returnE True else bindE (GetClass cl) HasPrimitives) (\<lambda>b'.
       whenE b' (bindE (getsE classPath) (LoadPrimitives cl))))"

definition ERR_FAIL :: int where
  "ERR_FAIL = 1"

definition ERR_SUCCESS :: int where
  "ERR_SUCCESS = 0"

primrec LoadClass :: "nat \<Rightarrow> ptr \<Rightarrow> ptr vmM" where
  "LoadClass 0 name = throwE OutOfFuel"
| "LoadClass (Suc n) name =
     bindE (HasGlobal name) (\<lambda>g.
       if g \<noteq> NULL then bindE (GetGlobal name) dynamic_cast_VMClass
       else
         bindE (LoadClassBasic (LoadClass n) name NULL) (\<lambda>result.
           if result = NULL then
             bindE (GetStdString name) (\<lambda>s.
             thenE (print (''can'' @ CHR 0x27 # ''t load class '' @ s @ newline)) (throwE (Quit ERR_FAIL)))
           else thenE (loadPrimitivesOf result) (returnE result)))"

definition LoadSystemClass :: "nat \<Rightarrow> ptr \<Rightarrow> unit vmM" where
  "LoadSystemClass n sysClass =
     bindE (GetName sysClass) (\<lambda>name.
     bindE (LoadClassBasic (LoadClass n) name sysClass) (\<lambda>result.
     bindE (GetStdString name) (\<lambda>s.
       if result = NULL then
         thenE (print (''Can'' @ CHR 0x27 # ''t load system class: '' @ s)) (throwE (Quit ERR_FAIL))
       else loadPrimitivesOf result)))"

definition LoadShellClass :: "nat \<Rightarrow> string \<Rightarrow> ptr vmM" where
  "LoadShellClass n stmt = CompileClassString (LoadClass n) stmt NULL"

section \<open>Blocks\<close>

definition AssertU :: "bool \<Rightarrow> unit vmM" where
  "AssertU value = whenE (\<not> value) (print (''Assertion failed'' @ newline))"

definition GetBlockClassWithArgs :: "nat \<Rightarrow> int \<Rightarrow> ptr vmM" where
  "GetBlockClassWithArgs n numberOfArguments =
     thenE (AssertU (numberOfArguments < 10))
    (bindE (SymbolFor (''Block'' @ show_int numberOfArguments)) (\<lambda>name.
     bindE (HasGlobal name) (\<lambda>g.
       if g \<noteq> NULL then GetGlobal name
       else
         bindE (LoadClassBasic (LoadClass n) name NULL) (\<lambda>result.
         bindE (VMEvaluationPrimitive_new (nat numberOfArguments)) (\<lambda>p.
         thenE (AddInstancePrimitive result p)
        (thenE (SetGlobal name result)
           (returnE result)))))))"

definition NewBlock :: "nat \<Rightarrow> ptr \<Rightarrow> ptr \<Rightarrow> int \<Rightarrow> ptr vmM" where
  "NewBlock n meth context arguments =
     bindE VMBlock_new (\<lambda>result.
     bindE (GetBlockClassWithArgs n arguments) (\<lambda>c.
     thenE (SetClass result c)
    (thenE (BlockSetMethod result meth)
    (thenE (BlockSetContext result context)
    (bindE (GetSignature meth) (\<lambda>sig.
     thenE (SetGlobal sig result)
       (returnE result)))))))"

section \<open>Start-up\<close>

definition NewMetaclassClass :: "ptr vmM" where
  "NewMetaclassClass =
     bindE (VMClass_new 0) (\<lambda>result.
     bindE (VMClass_new 0) (\<lambda>mclass.
     thenE (SetClass result mclass)
    (thenE (SetClass mclass result)
       (returnE result))))"

definition NewSystemClass :: "ptr vmM" where
  "NewSystemClass =
     bindE (VMClass_new 0) (\<lambda>sysClass.
     bindE (VMClass_new 0) (\<lambda>mclass.
     thenE (SetClass sysClass mclass)
    (bindE (getsE metaClassClass) (\<lambda>mm.
     thenE (SetClass mclass mm)
    (bindE (SymbolFor ''SystemClass'') (\<lambda>s.
     thenE (SetGlobal s sysClass)
       (returnE sysClass)))))))"

definition InitializeSystemClass :: "ptr \<Rightarrow> ptr \<Rightarrow> string \<Rightarrow> unit vmM" where
  "InitializeSystemClass sysClass superClass name =
     thenE (if superClass \<noteq> NULL then
              thenE (SetSuperClass sysClass superClass)
             (bindE (GetClass sysClass) (\<lambda>sysClassClass.
              bindE (GetClass superClass) (\<lambda>superClassClass.
                SetSuperClass sysClassClass superClassClass)))
            else bindE (GetClass sysClass) (\<lambda>sysClassClass.
              bindE (getsE classClass) (SetSuperClass sysClassClass)))
    (bindE (GetClass sysClass) (\<lambda>sysClassClass.
     bindE (NewArray 0) (\<lambda>a. thenE (SetInstanceFields sysClass a)
    (bindE (NewArray 0) (\<lambda>b. thenE (SetInstanceFields sysClassClass b)
    (bindE (NewArray 0) (\<lambda>c. thenE (SetInstanceInvokables sysClass c)
    (bindE (NewArray 0) (\<lambda>d. thenE (SetInstanceInvokables sysClassClass d)
    (bindE (SymbolFor name) (\<lambda>n. thenE (SetName sysClass n)
    (bindE (SymbolFor (name @ '' class'')) (\<lambda>m. thenE (SetName sysClassClass m)
    (bindE (GetName sysClass) (\<lambda>k. SetGlobal k sysClass)))))))))))))))"

text \<open>A global pointer of \<^verbatim>\<open>Universe.cpp\<close> set to a new object.\<close>

definition assignE :: "(ptr \<Rightarrow> vm \<Rightarrow> vm) \<Rightarrow> ptr vmM \<Rightarrow> unit vmM" where
  "assignE upd m = bindE m (\<lambda>p. modifyE (upd p))"

definition InitializeGlobals :: "nat \<Rightarrow> unit vmM" where
  "InitializeGlobals n =
     thenE (assignE (\<lambda>p v. v\<lparr>nilObject := p\<rparr>)
       (allocate \<lparr>o_kind = KObject, o_size = sizeof_VMObject, o_fields = [NULL], o_slots = [], o_data = NoData\<rparr>))
    (thenE (bindE (getsE nilObject) (\<lambda>p. SetField p 0 p))
    (thenE (assignE (\<lambda>p v. v\<lparr>metaClassClass := p\<rparr>) NewMetaclassClass)
    (thenE (forE [\<lambda>p v. v\<lparr>objectClass := p\<rparr>, \<lambda>p v. v\<lparr>nilClass := p\<rparr>, \<lambda>p v. v\<lparr>classClass := p\<rparr>,
         \<lambda>p v. v\<lparr>arrayClass := p\<rparr>, \<lambda>p v. v\<lparr>symbolClass := p\<rparr>, \<lambda>p v. v\<lparr>methodClass := p\<rparr>,
         \<lambda>p v. v\<lparr>integerClass := p\<rparr>, \<lambda>p v. v\<lparr>bigIntegerClass := p\<rparr>, \<lambda>p v. v\<lparr>frameClass := p\<rparr>,
         \<lambda>p v. v\<lparr>primitiveClass := p\<rparr>, \<lambda>p v. v\<lparr>stringClass := p\<rparr>, \<lambda>p v. v\<lparr>doubleClass := p\<rparr>]
       (\<lambda>upd. assignE upd NewSystemClass))
    (thenE (bindE (getsE nilObject) (\<lambda>p. bindE (getsE nilClass) (SetClass p)))
    (thenE (forE [(objectClass, \<lambda>_. NULL, ''Object''), (classClass, objectClass, ''Class''),
         (metaClassClass, classClass, ''Metaclass''), (nilClass, objectClass, ''Nil''),
         (arrayClass, objectClass, ''Array''), (methodClass, arrayClass, ''Method''),
         (symbolClass, objectClass, ''Symbol''), (integerClass, objectClass, ''Integer''),
         (bigIntegerClass, objectClass, ''BigInteger''), (frameClass, arrayClass, ''Frame''),
         (primitiveClass, objectClass, ''Primitive''), (stringClass, objectClass, ''String''),
         (doubleClass, objectClass, ''Double'')]
       (\<lambda>(c, super, name). bindE (getsE c) (\<lambda>p. bindE (getsE super) (\<lambda>q. InitializeSystemClass p q name))))
    (thenE (forE [objectClass, classClass, metaClassClass, nilClass, arrayClass, methodClass, symbolClass,
         integerClass, bigIntegerClass, frameClass, primitiveClass, stringClass, doubleClass]
       (\<lambda>c. bindE (getsE c) (LoadSystemClass n)))
    (thenE (assignE (\<lambda>p v. v\<lparr>blockClass := p\<rparr>) (bindE (SymbolFor ''Block'') (LoadClass n)))
    (thenE (assignE (\<lambda>p v. v\<lparr>trueObject := p\<rparr>)
       (bindE (SymbolFor ''True'') (\<lambda>s. bindE (LoadClass n s) NewInstance)))
    (thenE (assignE (\<lambda>p v. v\<lparr>falseObject := p\<rparr>)
       (bindE (SymbolFor ''False'') (\<lambda>s. bindE (LoadClass n s) NewInstance)))
       (assignE (\<lambda>p v. v\<lparr>systemClass := p\<rparr>) (bindE (SymbolFor ''System'') (LoadClass n))))))))))))"

end
