(* ===== verification/Frames.thy ===== *)
theory Frames
  imports Methods
begin

text \<open>
  \<^verbatim>\<open>src/vmobjects/VMFrame.cpp\<close> and \<^verbatim>\<open>Universe::NewFrame\<close>: activation records. A frame is an
  array: its first slots hold the arguments, then the locals (from \<^verbatim>\<open>localOffset\<close>), then
  the evaluation stack, whose top is at \<^verbatim>\<open>stackPointer\<close>. The fields are \<^verbatim>\<open>clazz\<close>,
  \<^verbatim>\<open>previousFrame\<close>, \<^verbatim>\<open>context\<close>, \<^verbatim>\<open>method\<close>, \<^verbatim>\<open>stackPointer\<close>, \<^verbatim>\<open>bytecodeIndex\<close> and
  \<^verbatim>\<open>localOffset\<close>; the last three point to integer objects that are updated in place.
\<close>

section \<open>Fields\<close>

definition GetPreviousFrame :: "ptr \<Rightarrow> ptr vmM" where
  [vm_defs]: "GetPreviousFrame f = getMember [KFrame] 1 f"

definition SetPreviousFrame :: "ptr \<Rightarrow> ptr \<Rightarrow> unit vmM" where
  [vm_defs]: "SetPreviousFrame f frm = setMember [KFrame] 1 f frm"

definition ClearPreviousFrame :: "ptr \<Rightarrow> unit vmM" where
  [vm_defs]: "ClearPreviousFrame f = bindE (getsE nilObject) (\<lambda>n. setMember [KFrame] 1 f n)"

definition HasPreviousFrame :: "ptr \<Rightarrow> bool vmM" where
  [vm_defs]: "HasPreviousFrame f =
     bindE (getMember [KFrame] 1 f) (\<lambda>p. getsE (\<lambda>v. p \<noteq> nilObject v))"

definition IsBootstrapFrame :: "ptr \<Rightarrow> bool vmM" where
  [vm_defs]: "IsBootstrapFrame f = bindE (HasPreviousFrame f) (\<lambda>b. returnE (\<not> b))"

definition GetContext :: "ptr \<Rightarrow> ptr vmM" where
  [vm_defs]: "GetContext f = getMember [KFrame] 2 f"

definition SetContext :: "ptr \<Rightarrow> ptr \<Rightarrow> unit vmM" where
  [vm_defs]: "SetContext f frm = setMember [KFrame] 2 f frm"

definition HasContext :: "ptr \<Rightarrow> bool vmM" where
  [vm_defs]: "HasContext f =
     bindE (getMember [KFrame] 2 f) (\<lambda>p. getsE (\<lambda>v. p \<noteq> nilObject v))"

definition FrameGetMethod :: "ptr \<Rightarrow> ptr vmM" where
  [vm_defs]: "FrameGetMethod f = getMember [KFrame] 3 f"

definition FrameSetMethod :: "ptr \<Rightarrow> ptr \<Rightarrow> unit vmM" where
  [vm_defs]: "FrameSetMethod f m = setMember [KFrame] 3 f m"

definition GetStackPointer :: "ptr \<Rightarrow> ptr vmM" where
  [vm_defs]: "GetStackPointer f = getMember [KFrame] 4 f"

definition StackPointer :: "ptr \<Rightarrow> int vmM" where
  [vm_defs]: "StackPointer f = bindE (getMember [KFrame] 4 f) GetEmbeddedInteger"

definition SetStackPointerValue :: "ptr \<Rightarrow> int \<Rightarrow> unit vmM" where
  [vm_defs]: "SetStackPointerValue f i =
     bindE (getMember [KFrame] 4 f) (\<lambda>sp. SetEmbeddedInteger sp i)"

definition GetBytecodeIndex :: "ptr \<Rightarrow> int vmM" where
  [vm_defs]: "GetBytecodeIndex f = bindE (getMember [KFrame] 5 f) GetEmbeddedInteger"

definition SetBytecodeIndex :: "ptr \<Rightarrow> int \<Rightarrow> unit vmM" where
  [vm_defs]: "SetBytecodeIndex f i =
     bindE (getMember [KFrame] 5 f) (\<lambda>bi. SetEmbeddedInteger bi i)"

definition LocalOffset :: "ptr \<Rightarrow> int vmM" where
  [vm_defs]: "LocalOffset f = bindE (getMember [KFrame] 6 f) GetEmbeddedInteger"

definition SetLocalOffset :: "ptr \<Rightarrow> int \<Rightarrow> unit vmM" where
  [vm_defs]: "SetLocalOffset f i =
     bindE (getMember [KFrame] 6 f) (\<lambda>lo. SetEmbeddedInteger lo i)"

section \<open>Contexts\<close>

text \<open>\<open>lvl\<close> comes from an operand byte, so it is never negative.\<close>

primrec GetContextLevel :: "nat \<Rightarrow> ptr \<Rightarrow> ptr vmM" where
  "GetContextLevel 0 f = returnE f"
| "GetContextLevel (Suc lvl) f = bindE (GetContext f) (GetContextLevel lvl)"

text \<open>
  \<^verbatim>\<open>while (current->HasContext())\<close> follows the context chain; a chain is at most as long as
  the heap has objects unless it is cyclic, so that number is the loop's bound.
\<close>

primrec outerContext :: "nat \<Rightarrow> ptr \<Rightarrow> ptr vmM" where
  "outerContext 0 f = bindE (HasContext f) (\<lambda>b. if b then throwE OutOfFuel else returnE f)"
| "outerContext (Suc n) f =
     bindE (HasContext f) (\<lambda>b. if b then bindE (GetContext f) (outerContext n) else returnE f)"

definition GetOuterContext :: "ptr \<Rightarrow> ptr vmM" where
  [vm_defs]: "GetOuterContext f = bindE (getsE nextPtr) (\<lambda>n. outerContext n f)"

section \<open>The stack\<close>

definition RemainingStackSize :: "ptr \<Rightarrow> int vmM" where
  [vm_defs]: "RemainingStackSize f =
     bindE (GetNumberOfIndexableFields f) (\<lambda>n.
     bindE (StackPointer f) (\<lambda>sp. returnE (n - sp - 1)))"

definition Pop :: "ptr \<Rightarrow> ptr vmM" where
  [vm_defs]: "Pop f =
     bindE (StackPointer f) (\<lambda>sp.
     thenE (SetStackPointerValue f (sp - 1))
       (ArrayGet f sp))"

definition Push :: "ptr \<Rightarrow> ptr \<Rightarrow> unit vmM" where
  [vm_defs]: "Push f obj =
     bindE (StackPointer f) (\<lambda>sp0. let sp = sp0 + 1 in
     thenE (SetStackPointerValue f sp)
       (ArraySet f sp obj))"

definition ResetStackPointer :: "ptr \<Rightarrow> unit vmM" where
  [vm_defs]: "ResetStackPointer f =
     bindE (FrameGetMethod f) (\<lambda>meth.
     bindE (MethodGetNumberOfArguments meth) (\<lambda>lo.
     thenE (SetLocalOffset f lo)
    (bindE (GetNumberOfLocals meth) (\<lambda>numLocals.
       SetStackPointerValue f (lo + numLocals - 1)))))"

definition GetStackElement :: "ptr \<Rightarrow> int \<Rightarrow> ptr vmM" where
  [vm_defs]: "GetStackElement f index = bindE (StackPointer f) (\<lambda>sp. ArrayGet f (sp - index))"

definition SetStackElement :: "ptr \<Rightarrow> int \<Rightarrow> ptr \<Rightarrow> unit vmM" where
  [vm_defs]: "SetStackElement f index obj =
     bindE (StackPointer f) (\<lambda>sp. ArraySet f (sp - index) obj)"

definition GetLocal :: "ptr \<Rightarrow> nat \<Rightarrow> nat \<Rightarrow> ptr vmM" where
  [vm_defs]: "GetLocal f index contextLevel =
     bindE (GetContextLevel contextLevel f) (\<lambda>context.
     bindE (LocalOffset context) (\<lambda>lo. ArrayGet context (lo + int index)))"

definition SetLocal :: "ptr \<Rightarrow> nat \<Rightarrow> nat \<Rightarrow> ptr \<Rightarrow> unit vmM" where
  [vm_defs]: "SetLocal f index contextLevel value =
     bindE (GetContextLevel contextLevel f) (\<lambda>context.
     bindE (LocalOffset context) (\<lambda>lo. ArraySet context (lo + int index) value))"

definition GetArgument :: "ptr \<Rightarrow> nat \<Rightarrow> nat \<Rightarrow> ptr vmM" where
  [vm_defs]: "GetArgument f index contextLevel =
     bindE (GetContextLevel contextLevel f) (\<lambda>context. ArrayGet context (int index))"

definition SetArgument :: "ptr \<Rightarrow> nat \<Rightarrow> nat \<Rightarrow> ptr \<Rightarrow> unit vmM" where
  [vm_defs]: "SetArgument f index contextLevel value =
     bindE (GetContextLevel contextLevel f) (\<lambda>context. ArraySet context (int index) value)"

definition ArgumentStackIndex :: "ptr \<Rightarrow> int \<Rightarrow> int vmM" where
  [vm_defs]: "ArgumentStackIndex f index =
     bindE (FrameGetMethod f) (\<lambda>meth.
     bindE (MethodGetNumberOfArguments meth) (\<lambda>n. returnE (n - index - 1)))"

definition CopyArgumentsFrom :: "ptr \<Rightarrow> ptr \<Rightarrow> unit vmM" where
  [vm_defs]: "CopyArgumentsFrom f frame =
     bindE (FrameGetMethod f) (\<lambda>meth.
     bindE (MethodGetNumberOfArguments meth) (\<lambda>num_args.
       forE [0..<nat num_args] (\<lambda>i.
         bindE (GetStackElement frame (num_args - 1 - int i)) (\<lambda>stackElem.
           ArraySet f (int i) stackElem))))"

section \<open>Creation\<close>

definition VMFrame_new :: "int \<Rightarrow> ptr vmM" where
  [vm_defs]: "VMFrame_new len =
     (if len < 0 \<or> 536870912 \<le> len then throwE OutOfRange
      else
       bindE (getsE (\<lambda>v. (newFields v 6, nilObject v))) (\<lambda>fn.
       bindE (allocate \<lparr>o_kind = KFrame,
           o_size = sizeof_VMObject + 24 + len * sizeof_pointer,
           o_fields = fst fn, o_slots = replicate (nat len) (snd fn), o_data = NoData\<rparr>) (\<lambda>p.
       bindE (NewInteger 0) (\<lambda>lo. thenE (setMember [KFrame] 6 p lo)
      (bindE (NewInteger 0) (\<lambda>bi. thenE (setMember [KFrame] 5 p bi)
      (bindE (NewInteger 0) (\<lambda>sp. thenE (setMember [KFrame] 4 p sp)
         (returnE p)))))))))"

text \<open>
  The frame that replaces one without room for an unplanned send: a copy with
  \<open>extraLength\<close> more slots. It shares the integer objects of the old frame.
\<close>

definition EmergencyFrameFrom :: "ptr \<Rightarrow> int \<Rightarrow> ptr vmM" where
  [vm_defs]: "EmergencyFrameFrom from extraLength =
     bindE (GetNumberOfIndexableFields from) (\<lambda>n.
     bindE (VMFrame_new (n + extraLength)) (\<lambda>result.
     bindE (GetClass from) (\<lambda>c. thenE (SetClass result c)
    (thenE (CopyIndexableFieldsTo from result)
    (bindE (GetPreviousFrame from) (\<lambda>pf. thenE (SetPreviousFrame result pf)
    (bindE (FrameGetMethod from) (\<lambda>m. thenE (FrameSetMethod result m)
    (bindE (GetContext from) (\<lambda>cx. thenE (SetContext result cx)
    (bindE (getMember [KFrame] 4 from) (\<lambda>sp. thenE (setMember [KFrame] 4 result sp)
    (bindE (getMember [KFrame] 5 from) (\<lambda>bi. thenE (setMember [KFrame] 5 result bi)
    (bindE (getMember [KFrame] 6 from) (\<lambda>lo. thenE (setMember [KFrame] 6 result lo)
       (returnE result)))))))))))))))))"

definition NewFrame :: "ptr \<Rightarrow> ptr \<Rightarrow> ptr vmM" where
  [vm_defs]: "NewFrame previousFrame method =
     bindE (MethodGetNumberOfArguments method) (\<lambda>a.
     bindE (GetNumberOfLocals method) (\<lambda>l.
     bindE (GetMaximumNumberOfStackElements method) (\<lambda>s.
     bindE (VMFrame_new (a + l + s)) (\<lambda>result.
     bindE (getsE frameClass) (\<lambda>fc.
     thenE (SetClass result fc)
    (thenE (FrameSetMethod result method)
    (thenE (whenE (previousFrame \<noteq> NULL) (SetPreviousFrame result previousFrame))
    (thenE (ResetStackPointer result)
    (thenE (SetBytecodeIndex result 0)
    (bindE (getMember [KClass] 2 fc) (\<lambda>name.
     thenE (SetGlobal name result)
       (returnE result))))))))))))"

end
