(* ===== verification/Primitives.thy ===== *)
theory Primitives
  imports Compiler Frames
begin

text \<open>
  The primitives of the core library (\<^verbatim>\<open>src/primitives/\<close>) and the tables they are registered
  in (\<^verbatim>\<open>Core.cpp\<close>, \<^verbatim>\<open>src/primitivesCore/\<close>). A primitive works on the frame it is invoked with:
  it pops its arguments, the last one first, then its receiver, and pushes its result.
  \<open>send\<close> is \<^verbatim>\<open>VMObject::Send\<close>, which the coercions of the integers use. Doubles are kept as
  their 64 bits; what the host does with them beyond comparing and truncating, its clock and
  random generator, and the routines of other primitive libraries are the parameter \<open>ext\<close> of
  the interpreter.
\<close>

type_synonym sender = "ptr \<Rightarrow> string \<Rightarrow> ptr list \<Rightarrow> unit vmM"

named_theorems prim_defs \<open>definitions of the primitives\<close>

definition kindOf :: "ptr \<Rightarrow> kind option vmM" where
  [vm_defs]: "kindOf p = getsE (\<lambda>v. map_option o_kind (heap v p))"

definition PushBool :: "ptr \<Rightarrow> bool \<Rightarrow> unit vmM" where
  [vm_defs]: "PushBool frame b =
     bindE (getsE (\<lambda>v. if b then trueObject v else falseObject v)) (Push frame)"

section \<open>Doubles\<close>

text \<open>The conversion of an integer to a double, rounding to nearest, ties to even.\<close>

fun bit_length :: "nat \<Rightarrow> nat" where
  "bit_length n = (if n = 0 then 0 else Suc (bit_length (n div 2)))"

declare bit_length.simps [simp del]

definition round_half_even :: "nat \<Rightarrow> nat \<Rightarrow> nat" where
  "round_half_even n k =
     (let q = n div 2 ^ k; r = 2 * (n mod 2 ^ k) in
      if 2 ^ k < r \<or> r = 2 ^ k \<and> odd q then q + 1 else q)"

definition double_of_int :: "int \<Rightarrow> 64 word" where
  "double_of_int i =
     (if i = 0 then 0
      else
        let n = nat \<bar>i\<bar>; l = bit_length n;
            m = (if l \<le> 53 then n * 2 ^ (53 - l) else round_half_even n (l - 53)) in
        word_of_int ((if i < 0 then 2 ^ 63 else 0) + int ((l + 1022) * 2 ^ 52 + (m - 2 ^ 52))))"

definition NewDouble :: "64 word \<Rightarrow> ptr vmM" where
  [vm_defs]: "NewDouble value =
     bindE (getsE doubleClass) (\<lambda>c.
       allocate \<lparr>o_kind = KDouble, o_size = sizeof_VMObject + 8, o_fields = [c],
                 o_slots = [], o_data = DoubleData value\<rparr>)"

definition GetEmbeddedDouble :: "ptr \<Rightarrow> 64 word vmM" where
  [vm_defs]: "GetEmbeddedDouble p =
     bindE (deref p) (\<lambda>ob. case o_data ob of DoubleData w \<Rightarrow> returnE w | _ \<Rightarrow> throwE BadCast)"

text \<open>The fields of a double; \<open>fp_key\<close> orders all doubles that are numbers, both zeros alike.\<close>

definition fp_negative :: "64 word \<Rightarrow> bool" where
  "fp_negative w \<longleftrightarrow> 2 ^ 63 \<le> unat w"

definition fp_exponent :: "64 word \<Rightarrow> nat" where
  "fp_exponent w = unat w div 2 ^ 52 mod 2 ^ 11"

definition fp_fraction :: "64 word \<Rightarrow> nat" where
  "fp_fraction w = unat w mod 2 ^ 52"

definition fp_nan :: "64 word \<Rightarrow> bool" where
  "fp_nan w \<longleftrightarrow> fp_exponent w = 2047 \<and> fp_fraction w \<noteq> 0"

definition fp_key :: "64 word \<Rightarrow> int" where
  "fp_key w = (let m = int (unat w mod 2 ^ 63) in if fp_negative w then - m else m)"

text \<open>\<^verbatim>\<open>==\<close> and \<^verbatim>\<open><\<close> of doubles.\<close>

definition fp_eq :: "64 word \<Rightarrow> 64 word \<Rightarrow> bool" where
  "fp_eq a b \<longleftrightarrow> \<not> fp_nan a \<and> \<not> fp_nan b \<and> fp_key a = fp_key b"

definition fp_lt :: "64 word \<Rightarrow> 64 word \<Rightarrow> bool" where
  "fp_lt a b \<longleftrightarrow> \<not> fp_nan a \<and> \<not> fp_nan b \<and> fp_key a < fp_key b"

text \<open>\<^verbatim>\<open>(int64_t)\<close> of a double rounds towards zero; what does not fit becomes the least value, as the
  processor's conversion leaves it.\<close>

definition fp_trunc :: "64 word \<Rightarrow> int" where
  "fp_trunc w =
     (let e = fp_exponent w;
          m = (if e = 0 then fp_fraction w else 2 ^ 52 + fp_fraction w);
          e1 = max e 1;
          t = (if 1075 \<le> e1 then m * 2 ^ (e1 - 1075) else m div 2 ^ (1075 - e1));
          r = (if fp_negative w then - int t else int t) in
      if e = 2047 \<or> r < - 9223372036854775808 \<or> 9223372036854775807 < r then - 9223372036854775808 else r)"

text \<open>What the primitives use of the host: the rounded operations of its floating-point unit, the
  text \<^verbatim>\<open>ostream\<close> writes of a double with 17 digits, the random generator and the clock in seconds
  and microseconds, both as they answer in a given state (every routine that reads them goes on to
  another state), the clock when the library was loaded, and the routines of other libraries.\<close>

record external =
  fp_add :: "64 word \<Rightarrow> 64 word \<Rightarrow> 64 word"
  fp_sub :: "64 word \<Rightarrow> 64 word \<Rightarrow> 64 word"
  fp_mul :: "64 word \<Rightarrow> 64 word \<Rightarrow> 64 word"
  fp_div :: "64 word \<Rightarrow> 64 word \<Rightarrow> 64 word"
  fp_sqrt :: "64 word \<Rightarrow> 64 word"
  fp_show :: "64 word \<Rightarrow> string"
  sys_rand :: "vm \<Rightarrow> int"
  sys_clock :: "vm \<Rightarrow> int \<times> int"
  sys_start :: "int \<times> int"
  foreign :: "string \<Rightarrow> string \<Rightarrow> ptr \<Rightarrow> unit vmM"

section \<open>Integer\<close>

definition pushResult :: "ptr \<Rightarrow> int \<Rightarrow> unit vmM" where
  [prim_defs]: "pushResult frame res =
     (if 2147483647 < res \<or> res < - 2147483648
      then bindE (NewBigInteger res) (Push frame)
      else bindE (NewInteger (to_i32 res)) (Push frame))"

definition resendAsBigInteger :: "sender \<Rightarrow> string \<Rightarrow> ptr \<Rightarrow> ptr \<Rightarrow> unit vmM" where
  [prim_defs]: "resendAsBigInteger send op left right =
     bindE (GetEmbeddedInteger left) (\<lambda>i.
     bindE (NewBigInteger (to_i64 i)) (\<lambda>leftBigInteger.
       send leftBigInteger op [right]))"

definition resendAsDouble :: "sender \<Rightarrow> string \<Rightarrow> ptr \<Rightarrow> ptr \<Rightarrow> unit vmM" where
  [prim_defs]: "resendAsDouble send op left right =
     bindE (GetEmbeddedInteger left) (\<lambda>i.
     bindE (NewDouble (double_of_int i)) (\<lambda>leftDouble.
       send leftDouble op [right]))"

definition CHECK_COERCION :: "sender \<Rightarrow> ptr \<Rightarrow> ptr \<Rightarrow> string \<Rightarrow> unit vmM \<Rightarrow> unit vmM" where
  [prim_defs]: "CHECK_COERCION send obj receiver op rest =
     bindE (kindOf obj) (\<lambda>k.
       if k = Some KBigInteger then resendAsBigInteger send op receiver obj
       else if k = Some KDouble then resendAsDouble send op receiver obj
       else rest)"

text \<open>The common frame of the binary operations: operands, coercion, operation.\<close>

definition Integer_binary :: "sender \<Rightarrow> string \<Rightarrow> (int \<Rightarrow> int \<Rightarrow> unit vmM) \<Rightarrow> ptr \<Rightarrow> unit vmM" where
  [prim_defs]: "Integer_binary send op f frame =
     bindE (Pop frame) (\<lambda>rightObj.
     bindE (Pop frame) (\<lambda>left.
       CHECK_COERCION send rightObj left op
         (bindE (GetEmbeddedInteger left) (\<lambda>l.
          bindE (GetEmbeddedInteger rightObj) (\<lambda>r. f l r)))))"

definition Integer_Plus :: "sender \<Rightarrow> ptr \<Rightarrow> unit vmM" where
  [prim_defs]: "Integer_Plus send frame =
     Integer_binary send ''+'' (\<lambda>l r. pushResult frame (to_i64 (l + r))) frame"

definition Integer_Minus :: "sender \<Rightarrow> ptr \<Rightarrow> unit vmM" where
  [prim_defs]: "Integer_Minus send frame =
     Integer_binary send ''-'' (\<lambda>l r. pushResult frame (to_i64 (l - r))) frame"

definition Integer_Star :: "sender \<Rightarrow> ptr \<Rightarrow> unit vmM" where
  [prim_defs]: "Integer_Star send frame =
     Integer_binary send ''*'' (\<lambda>l r. pushResult frame (to_i64 (l * r))) frame"

definition Integer_Slash :: "sender \<Rightarrow> ptr \<Rightarrow> unit vmM" where
  [prim_defs]: "Integer_Slash send frame =
     Integer_binary send ''/'' (\<lambda>l r.
       if r = 0 then throwE (Signal ''SIGFPE'') else pushResult frame (to_i64 (c_div l r))) frame"

definition Integer_Percent :: "sender \<Rightarrow> ptr \<Rightarrow> unit vmM" where
  [prim_defs]: "Integer_Percent send frame =
     Integer_binary send ''%'' (\<lambda>l r.
       if r = 0 then throwE (Signal ''SIGFPE'') else pushResult frame (to_i64 (c_mod l r))) frame"

definition Integer_And :: "sender \<Rightarrow> ptr \<Rightarrow> unit vmM" where
  [prim_defs]: "Integer_And send frame =
     Integer_binary send ''&'' (\<lambda>l r. pushResult frame (and l r)) frame"

text \<open>Behind the coercion check a double cannot come: the source's second test for one is dead.\<close>

definition Integer_Equal :: "sender \<Rightarrow> ptr \<Rightarrow> unit vmM" where
  [prim_defs]: "Integer_Equal send frame =
     bindE (Pop frame) (\<lambda>rightObj.
     bindE (Pop frame) (\<lambda>left.
       CHECK_COERCION send rightObj left ''=''
         (bindE (kindOf rightObj) (\<lambda>k.
            if k = Some KInteger then
              bindE (GetEmbeddedInteger left) (\<lambda>l.
              bindE (GetEmbeddedInteger rightObj) (\<lambda>r. PushBool frame (l = r)))
            else PushBool frame False))))"

definition Integer_Lowerthan :: "sender \<Rightarrow> ptr \<Rightarrow> unit vmM" where
  [prim_defs]: "Integer_Lowerthan send frame =
     Integer_binary send ''<'' (\<lambda>l r. PushBool frame (l < r)) frame"

definition Integer_AsString :: "ptr \<Rightarrow> unit vmM" where
  [prim_defs]: "Integer_AsString frame =
     bindE (Pop frame) (\<lambda>self.
     bindE (GetEmbeddedInteger self) (\<lambda>i.
     bindE (NewString (show_int i)) (Push frame)))"

text \<open>The division to a double; its operands are converted before. A double on the right is sent
  the message / instead of //.\<close>

definition Integer_Slashslash :: "external \<Rightarrow> sender \<Rightarrow> ptr \<Rightarrow> unit vmM" where
  [prim_defs]: "Integer_Slashslash ext send frame =
     Integer_binary send ''/'' (\<lambda>l r.
       bindE (NewDouble (fp_div ext (double_of_int l) (double_of_int r))) (Push frame)) frame"

definition Integer_Sqrt :: "external \<Rightarrow> ptr \<Rightarrow> unit vmM" where
  [prim_defs]: "Integer_Sqrt ext frame =
     bindE (Pop frame) (\<lambda>self.
     bindE (GetEmbeddedInteger self) (\<lambda>i.
     bindE (NewDouble (fp_sqrt ext (double_of_int i))) (Push frame)))"

text \<open>The product overflows 32 bits and wraps around before the remainder is taken.\<close>

definition Integer_AtRandom :: "external \<Rightarrow> ptr \<Rightarrow> unit vmM" where
  [prim_defs]: "Integer_AtRandom ext frame =
     bindE (Pop frame) (\<lambda>self.
     bindE (GetEmbeddedInteger self) (\<lambda>i.
     bindE (getsE (sys_rand ext)) (\<lambda>r.
     bindE (NewInteger (c_mod (to_i32 (i * r)) 2147483647)) (Push frame))))"

section \<open>BigInteger\<close>

definition CHECK_BIGINT :: "ptr \<Rightarrow> ptr vmM" where
  [prim_defs]: "CHECK_BIGINT obj =
     bindE (kindOf obj) (\<lambda>k.
       if k = Some KInteger then
         bindE (GetEmbeddedInteger obj) (\<lambda>i. NewBigInteger (to_i64 i))
       else returnE obj)"

definition PUSH_INT_OR_BIGINT :: "ptr \<Rightarrow> int \<Rightarrow> unit vmM" where
  [prim_defs]: "PUSH_INT_OR_BIGINT frame res =
     (if 2147483647 < res \<or> res < - 2147483648
      then bindE (NewBigInteger res) (Push frame)
      else bindE (NewInteger (to_i32 res)) (Push frame))"

definition BigInteger_binary :: "(int \<Rightarrow> int \<Rightarrow> unit vmM) \<Rightarrow> ptr \<Rightarrow> unit vmM" where
  [prim_defs]: "BigInteger_binary f frame =
     bindE (Pop frame) (\<lambda>rightObj.
     bindE (Pop frame) (\<lambda>left.
     bindE (CHECK_BIGINT rightObj) (\<lambda>right.
     bindE (GetEmbeddedBigInteger left) (\<lambda>l.
     bindE (GetEmbeddedBigInteger right) (\<lambda>r. f l r)))))"

text \<open>Overflow of \<^verbatim>\<open>int64_t\<close> wraps around, as gcc compiles it; so does the quotient of the least
  value by -1, which the 32-bit target computes in software.\<close>

definition BigInteger_Plus :: "ptr \<Rightarrow> unit vmM" where
  [prim_defs]: "BigInteger_Plus frame =
     BigInteger_binary (\<lambda>l r. PUSH_INT_OR_BIGINT frame (to_i64 (l + r))) frame"

definition BigInteger_Minus :: "ptr \<Rightarrow> unit vmM" where
  [prim_defs]: "BigInteger_Minus frame =
     BigInteger_binary (\<lambda>l r. PUSH_INT_OR_BIGINT frame (to_i64 (l - r))) frame"

definition BigInteger_Star :: "ptr \<Rightarrow> unit vmM" where
  [prim_defs]: "BigInteger_Star frame =
     BigInteger_binary (\<lambda>l r. PUSH_INT_OR_BIGINT frame (to_i64 (l * r))) frame"

definition BigInteger_Slash :: "ptr \<Rightarrow> unit vmM" where
  [prim_defs]: "BigInteger_Slash frame =
     BigInteger_binary (\<lambda>l r.
       if r = 0 then throwE (Signal ''SIGFPE'')
       else PUSH_INT_OR_BIGINT frame (to_i64 (c_div l r))) frame"

text \<open>The remainder and the conjunction stay big integers, whatever their value.\<close>

definition BigInteger_Percent :: "ptr \<Rightarrow> unit vmM" where
  [prim_defs]: "BigInteger_Percent frame =
     BigInteger_binary (\<lambda>l r.
       if r = 0 then throwE (Signal ''SIGFPE'')
       else bindE (NewBigInteger (to_i64 (c_mod l r))) (Push frame)) frame"

definition BigInteger_And :: "ptr \<Rightarrow> unit vmM" where
  [prim_defs]: "BigInteger_And frame =
     BigInteger_binary (\<lambda>l r. bindE (NewBigInteger (and l r)) (Push frame)) frame"

definition BigInteger_Equal :: "ptr \<Rightarrow> unit vmM" where
  [prim_defs]: "BigInteger_Equal frame = BigInteger_binary (\<lambda>l r. PushBool frame (l = r)) frame"

definition BigInteger_Lowerthan :: "ptr \<Rightarrow> unit vmM" where
  [prim_defs]: "BigInteger_Lowerthan frame = BigInteger_binary (\<lambda>l r. PushBool frame (l < r)) frame"

definition BigInteger_AsString :: "ptr \<Rightarrow> unit vmM" where
  [prim_defs]: "BigInteger_AsString frame =
     bindE (Pop frame) (\<lambda>self.
     bindE (GetEmbeddedBigInteger self) (\<lambda>i.
     bindE (NewString (show_int i)) (Push frame)))"

definition BigInteger_Sqrt :: "external \<Rightarrow> ptr \<Rightarrow> unit vmM" where
  [prim_defs]: "BigInteger_Sqrt ext frame =
     bindE (Pop frame) (\<lambda>self.
     bindE (GetEmbeddedBigInteger self) (\<lambda>i.
     bindE (NewDouble (fp_sqrt ext (double_of_int i))) (Push frame)))"

section \<open>Double\<close>

definition coerceDouble :: "ptr \<Rightarrow> 64 word vmM" where
  [prim_defs]: "coerceDouble x =
     bindE (kindOf x) (\<lambda>k.
       if k = Some KDouble then GetEmbeddedDouble x
       else if k = Some KInteger then bindE (GetEmbeddedInteger x) (\<lambda>i. returnE (double_of_int i))
       else if k = Some KBigInteger then bindE (GetEmbeddedBigInteger x) (\<lambda>i. returnE (double_of_int i))
       else throwE (ErrorExit ''Attempt to apply Double operation to non-number.''))"

definition PREPARE_OPERANDS :: "(64 word \<Rightarrow> 64 word \<Rightarrow> unit vmM) \<Rightarrow> ptr \<Rightarrow> unit vmM" where
  [prim_defs]: "PREPARE_OPERANDS f frame =
     bindE (Pop frame) (\<lambda>x.
     bindE (coerceDouble x) (\<lambda>right.
     bindE (Pop frame) (\<lambda>leftObj.
     bindE (GetEmbeddedDouble leftObj) (\<lambda>left. f left right))))"

definition Double_Plus :: "external \<Rightarrow> ptr \<Rightarrow> unit vmM" where
  [prim_defs]: "Double_Plus ext frame =
     PREPARE_OPERANDS (\<lambda>left right. bindE (NewDouble (fp_add ext left right)) (Push frame)) frame"

definition Double_Minus :: "external \<Rightarrow> ptr \<Rightarrow> unit vmM" where
  [prim_defs]: "Double_Minus ext frame =
     PREPARE_OPERANDS (\<lambda>left right. bindE (NewDouble (fp_sub ext left right)) (Push frame)) frame"

definition Double_Star :: "external \<Rightarrow> ptr \<Rightarrow> unit vmM" where
  [prim_defs]: "Double_Star ext frame =
     PREPARE_OPERANDS (\<lambda>left right. bindE (NewDouble (fp_mul ext left right)) (Push frame)) frame"

definition Double_Slashslash :: "external \<Rightarrow> ptr \<Rightarrow> unit vmM" where
  [prim_defs]: "Double_Slashslash ext frame =
     PREPARE_OPERANDS (\<lambda>left right. bindE (NewDouble (fp_div ext left right)) (Push frame)) frame"

text \<open>The remainder and the conjunction of the truncated operands.\<close>

definition Double_Percent :: "ptr \<Rightarrow> unit vmM" where
  [prim_defs]: "Double_Percent frame =
     PREPARE_OPERANDS (\<lambda>left right.
       if fp_trunc right = 0 then throwE (Signal ''SIGFPE'')
       else bindE (NewDouble (double_of_int (to_i64 (c_mod (fp_trunc left) (fp_trunc right))))) (Push frame)) frame"

definition Double_And :: "ptr \<Rightarrow> unit vmM" where
  [prim_defs]: "Double_And frame =
     PREPARE_OPERANDS (\<lambda>left right.
       bindE (NewDouble (double_of_int (and (fp_trunc left) (fp_trunc right)))) (Push frame)) frame"

definition Double_Equal :: "ptr \<Rightarrow> unit vmM" where
  [prim_defs]: "Double_Equal frame = PREPARE_OPERANDS (\<lambda>left right. PushBool frame (fp_eq left right)) frame"

definition Double_Lowerthan :: "ptr \<Rightarrow> unit vmM" where
  [prim_defs]: "Double_Lowerthan frame = PREPARE_OPERANDS (\<lambda>left right. PushBool frame (fp_lt left right)) frame"

definition Double_AsString :: "external \<Rightarrow> ptr \<Rightarrow> unit vmM" where
  [prim_defs]: "Double_AsString ext frame =
     bindE (Pop frame) (\<lambda>self.
     bindE (GetEmbeddedDouble self) (\<lambda>dbl.
     bindE (NewString (fp_show ext dbl)) (Push frame)))"

definition Double_Sqrt :: "external \<Rightarrow> ptr \<Rightarrow> unit vmM" where
  [prim_defs]: "Double_Sqrt ext frame =
     bindE (Pop frame) (\<lambda>self.
     bindE (GetEmbeddedDouble self) (\<lambda>dbl.
     bindE (NewDouble (fp_sqrt ext dbl)) (Push frame)))"

section \<open>Array\<close>

definition Array_At :: "ptr \<Rightarrow> unit vmM" where
  [prim_defs]: "Array_At frame =
     bindE (Pop frame) (\<lambda>index.
     bindE (Pop frame) (\<lambda>self.
     bindE (GetEmbeddedInteger index) (\<lambda>i.
     bindE (ArrayGet self (to_i32 (i - 1))) (Push frame))))"

definition Array_At_Put :: "ptr \<Rightarrow> unit vmM" where
  [prim_defs]: "Array_At_Put frame =
     bindE (Pop frame) (\<lambda>value.
     bindE (Pop frame) (\<lambda>index.
     bindE (GetStackElement frame 0) (\<lambda>self.
     bindE (GetEmbeddedInteger index) (\<lambda>i.
       ArraySet self (to_i32 (i - 1)) value))))"

definition Array_Length :: "ptr \<Rightarrow> unit vmM" where
  [prim_defs]: "Array_Length frame =
     bindE (Pop frame) (\<lambda>self.
     bindE (GetNumberOfIndexableFields self) (\<lambda>n.
     bindE (NewInteger n) (Push frame)))"

definition Array_New :: "ptr \<Rightarrow> unit vmM" where
  [prim_defs]: "Array_New frame =
     bindE (Pop frame) (\<lambda>len.
     thenE (Pop frame)
    (bindE (GetEmbeddedInteger len) (\<lambda>sz.
     bindE (NewArray sz) (Push frame))))"

section \<open>String and Symbol\<close>

definition String_Concatenate :: "ptr \<Rightarrow> unit vmM" where
  [prim_defs]: "String_Concatenate frame =
     bindE (Pop frame) (\<lambda>arg.
     bindE (Pop frame) (\<lambda>self.
     bindE (GetStdString arg) (\<lambda>a.
     bindE (GetStdString self) (\<lambda>s.
     bindE (NewString (s @ a)) (Push frame)))))"

definition String_AsSymbol :: "ptr \<Rightarrow> unit vmM" where
  [prim_defs]: "String_AsSymbol frame =
     bindE (Pop frame) (\<lambda>self.
     bindE (GetStdString self) (\<lambda>s.
     bindE (SymbolFor s) (Push frame)))"

definition String_Hashcode :: "ptr \<Rightarrow> unit vmM" where
  [prim_defs]: "String_Hashcode frame =
     bindE (Pop frame) (\<lambda>self.
     bindE (GetHash self) (\<lambda>h.
     bindE (NewInteger h) (Push frame)))"

definition String_Length :: "ptr \<Rightarrow> unit vmM" where
  [prim_defs]: "String_Length frame =
     bindE (Pop frame) (\<lambda>self.
     bindE (GetStringLength self) (\<lambda>len.
     bindE (NewInteger (to_i32 len)) (Push frame)))"

definition String_Equal :: "ptr \<Rightarrow> unit vmM" where
  [prim_defs]: "String_Equal frame =
     bindE (Pop frame) (\<lambda>op1.
     bindE (Pop frame) (\<lambda>op2.
     bindE (GetClass op1) (\<lambda>c1.
     bindE (GetClass op2) (\<lambda>c2.
       if c1 = c2 then
         bindE (GetStdString op1) (\<lambda>s1.
         bindE (GetStdString op2) (\<lambda>s2. PushBool frame (s1 = s2)))
       else PushBool frame False))))"

text \<open>\<^verbatim>\<open>std::string::substr\<close> with its arguments converted to \<^verbatim>\<open>size_t\<close>.\<close>

definition substr :: "string \<Rightarrow> int \<Rightarrow> int \<Rightarrow> string vmM" where
  "substr str pos n =
     (if int (length str) < to_u32 pos then throwE (StdException ''std::out_of_range'')
      else returnE (take (nat (to_u32 n)) (drop (nat (to_u32 pos)) str)))"

definition String_PrimSubstringFrom_To :: "ptr \<Rightarrow> unit vmM" where
  [prim_defs]: "String_PrimSubstringFrom_To frame =
     bindE (Pop frame) (\<lambda>endObj.
     bindE (Pop frame) (\<lambda>start.
     bindE (Pop frame) (\<lambda>self.
     bindE (GetStdString self) (\<lambda>str.
     bindE (GetEmbeddedInteger start) (\<lambda>s.
     bindE (GetEmbeddedInteger endObj) (\<lambda>e.
     bindE (substr str s (e - s)) (\<lambda>res.
     bindE (NewString res) (Push frame))))))))"

definition Symbol_AsString :: "ptr \<Rightarrow> unit vmM" where
  [prim_defs]: "Symbol_AsString frame =
     bindE (Pop frame) (\<lambda>sy.
     bindE (GetStdString sy) (\<lambda>str.
     bindE (NewString str) (Push frame)))"

section \<open>System\<close>

definition System_Global :: "ptr \<Rightarrow> unit vmM" where
  [prim_defs]: "System_Global frame =
     bindE (Pop frame) (\<lambda>arg.
     thenE (Pop frame)
    (bindE (GetGlobal arg) (\<lambda>res.
     bindE (getsE nilObject) (\<lambda>n.
       Push frame (if res \<noteq> NULL then res else n)))))"

definition System_Global_put :: "ptr \<Rightarrow> unit vmM" where
  [prim_defs]: "System_Global_put frame =
     bindE (Pop frame) (\<lambda>value.
     bindE (Pop frame) (\<lambda>arg. SetGlobal arg value))"

definition System_Load :: "nat \<Rightarrow> ptr \<Rightarrow> unit vmM" where
  [prim_defs]: "System_Load n frame =
     bindE (Pop frame) (\<lambda>arg.
     thenE (Pop frame)
    (bindE (LoadClass n arg) (\<lambda>res.
     bindE (getsE nilObject) (\<lambda>nl.
       Push frame (if res \<noteq> NULL then res else nl)))))"

definition System_Exit :: "ptr \<Rightarrow> unit vmM" where
  [prim_defs]: "System_Exit frame =
     bindE (Pop frame) (\<lambda>err.
     bindE (GetEmbeddedInteger err) (\<lambda>err_no. throwE (Quit err_no)))"

definition System_PrintString :: "ptr \<Rightarrow> unit vmM" where
  [prim_defs]: "System_PrintString frame =
     bindE (Pop frame) (\<lambda>arg. bindE (GetStdString arg) print)"

definition System_PrintNewline :: "ptr \<Rightarrow> unit vmM" where
  [prim_defs]: "System_PrintNewline frame = print newline"

text \<open>Milliseconds since the library was loaded, cut to 32 bits.\<close>

definition System_Time :: "external \<Rightarrow> ptr \<Rightarrow> unit vmM" where
  [prim_defs]: "System_Time ext frame =
     thenE (Pop frame)
    (bindE (getsE (sys_clock ext)) (\<lambda>now.
     bindE (NewInteger (to_i32 ((fst now - fst (sys_start ext)) * 1000 +
         c_div (snd now - snd (sys_start ext)) 1000))) (Push frame)))"

definition System_FullGC :: "ptr \<Rightarrow> unit vmM" where
  [prim_defs]: "System_FullGC frame = returnE ()"

section \<open>Object, Class, Block\<close>

definition Object_Equalequal :: "ptr \<Rightarrow> unit vmM" where
  [prim_defs]: "Object_Equalequal frame =
     bindE (Pop frame) (\<lambda>op1. bindE (Pop frame) (\<lambda>op2. PushBool frame (op1 = op2)))"

definition Object_ObjectSize :: "ptr \<Rightarrow> unit vmM" where
  [prim_defs]: "Object_ObjectSize frame =
     bindE (Pop frame) (\<lambda>self.
     bindE (GetObjectSize self) (\<lambda>n.
     bindE (NewInteger n) (Push frame)))"

definition Object_Hashcode :: "ptr \<Rightarrow> unit vmM" where
  [prim_defs]: "Object_Hashcode frame =
     bindE (Pop frame) (\<lambda>self.
     bindE (GetHash self) (\<lambda>h.
     bindE (NewInteger h) (Push frame)))"

definition Class_New :: "ptr \<Rightarrow> unit vmM" where
  [prim_defs]: "Class_New frame = bindE (Pop frame) (\<lambda>self. bindE (NewInstance self) (Push frame))"

definition Block_Value :: "ptr \<Rightarrow> unit vmM" where
  [prim_defs]: "Block_Value frame = returnE ()"

definition Block_Value1 :: "ptr \<Rightarrow> unit vmM" where
  [prim_defs]: "Block_Value1 frame = returnE ()"

definition Block_Value_with :: "ptr \<Rightarrow> unit vmM" where
  [prim_defs]: "Block_Value_with frame = returnE ()"

definition Block_Restart :: "ptr \<Rightarrow> unit vmM" where
  [prim_defs]: "Block_Restart frame = thenE (SetBytecodeIndex frame 0) (ResetStackPointer frame)"

section \<open>Registration\<close>

text \<open>The names each container registers, in the order of its constructor, and the containers
  in the order of \<^verbatim>\<open>setup\<close>.\<close>

definition containers :: "(string \<times> string list) list" where
  "containers =
     [(''Array'', [''new_'', ''at_'', ''at_put_'', ''length'']),
      (''BigInteger'', [''plus'', ''minus'', ''star'', ''slash'', ''percent'', ''and'', ''equal'',
         ''lowerthan'', ''asString'', ''sqrt'']),
      (''Block'', [''value'', ''restart'', ''value_'', ''value_with_'']),
      (''Class'', [''new'']),
      (''Double'', [''plus'', ''minus'', ''star'', ''slashslash'', ''percent'', ''and'', ''equal'',
         ''lowerthan'', ''asString'', ''sqrt'']),
      (''Integer'', [''plus'', ''minus'', ''star'', ''slash'', ''slashslash'', ''percent'', ''and'',
         ''equal'', ''lowerthan'', ''asString'', ''sqrt'', ''atRandom'']),
      (''Object'', [''equalequal'', ''objectSize'', ''hashcode'']),
      (''String'', [''concatenate_'', ''asSymbol'', ''hashcode'', ''length'', ''equal'',
         ''primSubstringFrom_To_'']),
      (''Symbol'', [''asString'']),
      (''System'', [''global_'', ''global_put_'', ''load_'', ''exit_'', ''printString_'',
         ''printNewline'', ''time'', ''fullGC''])]"

definition SupportsClass :: "string \<Rightarrow> bool" where
  "SupportsClass name \<longleftrightarrow> map_of containers name \<noteq> None"

definition GetPrimitiveRoutine :: "string \<Rightarrow> string \<Rightarrow> routine option" where
  "GetPrimitiveRoutine cname mname =
     (case map_of containers cname of
        None \<Rightarrow> None
      | Some names \<Rightarrow> if mname \<in> set names then Some (Routine cname mname) else None)"

text \<open>The core library as \<^verbatim>\<open>VMClass::LoadPrimitives\<close> sees it.\<close>

definition coreLibrary :: library where
  "coreLibrary = map_of containers"

text \<open>The routine behind each registered name.\<close>

definition corePrimitives :: "external \<Rightarrow> sender \<Rightarrow> nat \<Rightarrow> ((string \<times> string) \<times> (ptr \<Rightarrow> unit vmM)) list" where
  "corePrimitives ext send n =
     [((''Array'', ''new_''), Array_New), ((''Array'', ''at_''), Array_At),
      ((''Array'', ''at_put_''), Array_At_Put), ((''Array'', ''length''), Array_Length),
      ((''BigInteger'', ''plus''), BigInteger_Plus), ((''BigInteger'', ''minus''), BigInteger_Minus),
      ((''BigInteger'', ''star''), BigInteger_Star), ((''BigInteger'', ''slash''), BigInteger_Slash),
      ((''BigInteger'', ''percent''), BigInteger_Percent), ((''BigInteger'', ''and''), BigInteger_And),
      ((''BigInteger'', ''equal''), BigInteger_Equal), ((''BigInteger'', ''lowerthan''), BigInteger_Lowerthan),
      ((''BigInteger'', ''asString''), BigInteger_AsString), ((''BigInteger'', ''sqrt''), BigInteger_Sqrt ext),
      ((''Block'', ''value''), Block_Value), ((''Block'', ''restart''), Block_Restart),
      ((''Block'', ''value_''), Block_Value1), ((''Block'', ''value_with_''), Block_Value_with),
      ((''Class'', ''new''), Class_New),
      ((''Double'', ''plus''), Double_Plus ext), ((''Double'', ''minus''), Double_Minus ext),
      ((''Double'', ''star''), Double_Star ext), ((''Double'', ''slashslash''), Double_Slashslash ext),
      ((''Double'', ''percent''), Double_Percent), ((''Double'', ''and''), Double_And),
      ((''Double'', ''equal''), Double_Equal), ((''Double'', ''lowerthan''), Double_Lowerthan),
      ((''Double'', ''asString''), Double_AsString ext), ((''Double'', ''sqrt''), Double_Sqrt ext),
      ((''Integer'', ''plus''), Integer_Plus send), ((''Integer'', ''minus''), Integer_Minus send),
      ((''Integer'', ''star''), Integer_Star send), ((''Integer'', ''slash''), Integer_Slash send),
      ((''Integer'', ''percent''), Integer_Percent send), ((''Integer'', ''and''), Integer_And send),
      ((''Integer'', ''equal''), Integer_Equal send), ((''Integer'', ''lowerthan''), Integer_Lowerthan send),
      ((''Integer'', ''asString''), Integer_AsString),
      ((''Integer'', ''slashslash''), Integer_Slashslash ext send), ((''Integer'', ''sqrt''), Integer_Sqrt ext),
      ((''Integer'', ''atRandom''), Integer_AtRandom ext),
      ((''Object'', ''equalequal''), Object_Equalequal), ((''Object'', ''objectSize''), Object_ObjectSize),
      ((''Object'', ''hashcode''), Object_Hashcode),
      ((''String'', ''concatenate_''), String_Concatenate), ((''String'', ''asSymbol''), String_AsSymbol),
      ((''String'', ''hashcode''), String_Hashcode), ((''String'', ''length''), String_Length),
      ((''String'', ''equal''), String_Equal),
      ((''String'', ''primSubstringFrom_To_''), String_PrimSubstringFrom_To),
      ((''Symbol'', ''asString''), Symbol_AsString),
      ((''System'', ''global_''), System_Global), ((''System'', ''global_put_''), System_Global_put),
      ((''System'', ''load_''), System_Load n), ((''System'', ''exit_''), System_Exit),
      ((''System'', ''printString_''), System_PrintString), ((''System'', ''printNewline''), System_PrintNewline),
      ((''System'', ''time''), System_Time ext), ((''System'', ''fullGC''), System_FullGC)]"

text \<open>A routine of another primitive library is run by that library.\<close>

definition runPrimitive :: "external \<Rightarrow> sender \<Rightarrow> nat \<Rightarrow> string \<Rightarrow> string \<Rightarrow> ptr \<Rightarrow> unit vmM" where
  "runPrimitive ext send n cname fname frame =
     (case map_of (corePrimitives ext send n) (cname, fname) of
        Some routine \<Rightarrow> routine frame
      | None \<Rightarrow> foreign ext cname fname frame)"

end
