(* ===== verification/Interpreter.thy ===== *)
theory Interpreter
  imports Primitives
begin

text \<open>
  \<^verbatim>\<open>src/interpreter/Interpreter.cpp\<close>, the invocation of methods, primitives and blocks
  (\<^verbatim>\<open>VMMethod\<close>, \<^verbatim>\<open>VMPrimitive\<close>, \<^verbatim>\<open>VMEvaluationPrimitive\<close>, \<^verbatim>\<open>VMObject::Send\<close>) and the run of the
  virtual machine (\<^verbatim>\<open>Universe::initialize\<close>, \<^verbatim>\<open>Shell::Start\<close>). \<open>ext\<close> is what the
  primitives use of the host. Three loops have no bound in the source: the
  fetch loop (\<open>Start\<close> takes the number of instructions it may run), the invocation of a
  primitive that sends a message (\<open>invoke\<close>), and class loading (\<open>n\<close> bounds both).
\<close>

section \<open>Frames of the interpreter\<close>

definition GetFrame :: "ptr vmM" where
  [vm_defs]: "GetFrame = getsE curFrame"

definition SetFrame :: "ptr \<Rightarrow> unit vmM" where
  [vm_defs]: "SetFrame f = modifyE (\<lambda>v. v\<lparr>curFrame := f\<rparr>)"

definition PushNewFrame :: "ptr \<Rightarrow> ptr vmM" where
  "PushNewFrame meth =
     bindE GetFrame (\<lambda>f. bindE (NewFrame f meth) (\<lambda>g. thenE (SetFrame g) GetFrame))"

definition GetMethod :: "ptr vmM" where
  [vm_defs]: "GetMethod = bindE GetFrame FrameGetMethod"

definition GetSelf :: "ptr vmM" where
  [vm_defs]: "GetSelf =
     bindE GetFrame (\<lambda>f. bindE (GetOuterContext f) (\<lambda>context. GetArgument context 0 0))"

definition popFrame :: "ptr vmM" where
  "popFrame =
     bindE GetFrame (\<lambda>res.
     bindE (GetPreviousFrame res) (\<lambda>prev.
     thenE (SetFrame prev)
    (thenE (ClearPreviousFrame res)
       (returnE res))))"

definition popFrameAndPushResult :: "ptr \<Rightarrow> unit vmM" where
  "popFrameAndPushResult res =
     bindE popFrame (\<lambda>prevFrame.
     bindE (FrameGetMethod prevFrame) (\<lambda>meth.
     bindE (MethodGetNumberOfArguments meth) (\<lambda>numberOfArgs.
     thenE (forE [0..<nat numberOfArgs] (\<lambda>_. thenE (bindE GetFrame Pop) (returnE ())))
       (bindE GetFrame (\<lambda>f. Push f res)))))"

section \<open>Invocation\<close>

definition invokeMethod :: "ptr \<Rightarrow> ptr \<Rightarrow> unit vmM" where
  "invokeMethod meth frame = bindE (PushNewFrame meth) (\<lambda>frm. CopyArgumentsFrom frm frame)"

definition EmptyRoutine_run :: "ptr \<Rightarrow> unit vmM" where
  "EmptyRoutine_run self =
     bindE (GetSignature self) (\<lambda>sig.
     bindE (GetStdString sig) (\<lambda>s. print (''undefined primitive called: '' @ s @ newline)))"

definition evaluationRoutine :: "ptr \<Rightarrow> ptr \<Rightarrow> unit vmM" where
  "evaluationRoutine self frame =
     bindE (EvaluationArguments self) (\<lambda>numArgs.
     bindE (GetStackElement frame (numArgs - 1)) (\<lambda>block.
     bindE (BlockGetContext block) (\<lambda>context.
     bindE (BlockGetMethod block) (\<lambda>meth.
     bindE (PushNewFrame meth) (\<lambda>newFrame.
     thenE (CopyArgumentsFrom newFrame frame)
       (SetContext newFrame context))))))"

text \<open>\<^verbatim>\<open>VMObject::Send\<close>. The looked-up invokable is called without a test for NULL.\<close>

definition SendTo :: "(ptr \<Rightarrow> ptr \<Rightarrow> unit vmM) \<Rightarrow> ptr \<Rightarrow> string \<Rightarrow> ptr list \<Rightarrow> unit vmM" where
  "SendTo call this selectorString arguments =
     bindE (SymbolFor selectorString) (\<lambda>sel.
     bindE GetFrame (\<lambda>frame.
     thenE (Push frame this)
    (thenE (forE arguments (Push frame))
    (bindE (GetClass this) (\<lambda>cl.
     bindE (LookupInvokable cl sel) (\<lambda>invokable. call invokable frame))))))"

primrec invoke :: "external \<Rightarrow> nat \<Rightarrow> ptr \<Rightarrow> ptr \<Rightarrow> unit vmM" where
  "invoke ext 0 invokable frame = throwE OutOfFuel"
| "invoke ext (Suc n) invokable frame =
     bindE (derefAs invokableKinds invokable) (\<lambda>ob.
       if o_kind ob = KMethod then invokeMethod invokable frame
       else bindE (GetRoutine invokable) (\<lambda>r. case r of
           EmptyRoutine \<Rightarrow> EmptyRoutine_run invokable
         | EvaluationRoutine \<Rightarrow> evaluationRoutine invokable frame
         | Routine cname fname \<Rightarrow>
             runPrimitive ext (SendTo (invoke ext n)) (Suc n) cname fname frame))"

definition Send :: "external \<Rightarrow> nat \<Rightarrow> ptr \<Rightarrow> string \<Rightarrow> ptr list \<Rightarrow> unit vmM" where
  "Send ext n = SendTo (invoke ext n)"

definition dnu :: string where
  "dnu = ''doesNotUnderstand:arguments:''"

definition uG :: string where
  "uG = ''unknownGlobal:''"

definition eB :: string where
  "eB = ''escapedBlock:''"

text \<open>The arguments of a message nobody understands, popped into an array, last one first.\<close>

definition popArguments :: "nat \<Rightarrow> ptr vmM" where
  "popArguments numberOfArgs =
     bindE (NewArray (int numberOfArgs)) (\<lambda>argumentsArray.
     thenE (forE (rev [0..<numberOfArgs]) (\<lambda>i.
         bindE (bindE GetFrame Pop) (\<lambda>x. ArraySet argumentsArray (int i) x)))
       (returnE argumentsArray))"

definition makeRoom :: "int \<Rightarrow> unit vmM" where
  "makeRoom needed =
     bindE GetFrame (\<lambda>f.
     bindE (RemainingStackSize f) (\<lambda>remaining.
       whenE (0 < needed - remaining)
         (bindE (EmergencyFrameFrom f (needed - remaining)) SetFrame)))"

definition send :: "external \<Rightarrow> nat \<Rightarrow> ptr \<Rightarrow> ptr \<Rightarrow> unit vmM" where
  "send ext n signature receiverClass =
     bindE (LookupInvokable receiverClass signature) (\<lambda>inv0.
     bindE (dynamic_cast_VMInvokable inv0) (\<lambda>invokable.
       if invokable \<noteq> NULL then bindE GetFrame (invoke ext n invokable)
       else
         bindE (GetStdString signature) (\<lambda>s. let numberOfArgs = GetNumberOfArguments s in
         bindE GetFrame (\<lambda>f.
         bindE (GetStackElement f (int numberOfArgs - 1)) (\<lambda>receiver.
         bindE (popArguments numberOfArgs) (\<lambda>argumentsArray.
         thenE (makeRoom 3)
           (Send ext n receiver dnu [signature, argumentsArray])))))))"

section \<open>Instructions\<close>

definition doDup :: "unit vmM" where
  "doDup = bindE GetFrame (\<lambda>f. bindE (GetStackElement f 0) (\<lambda>elem. Push f elem))"

text \<open>The two operand bytes of an instruction.\<close>

definition operands :: "int \<Rightarrow> (nat \<times> nat) vmM" where
  "operands bytecodeIndex =
     bindE GetMethod (\<lambda>meth.
     bindE (GetBytecode meth (bytecodeIndex + 1)) (\<lambda>bc1.
     bindE (GetBytecode meth (bytecodeIndex + 2)) (\<lambda>bc2. returnE (unat bc1, unat bc2))))"

definition constantAt :: "int \<Rightarrow> ptr vmM" where
  "constantAt bytecodeIndex = bindE GetMethod (\<lambda>meth. GetConstant meth bytecodeIndex)"

definition doPushLocal :: "int \<Rightarrow> unit vmM" where
  "doPushLocal bytecodeIndex =
     bindE (operands bytecodeIndex) (\<lambda>(bc1, bc2).
     bindE GetFrame (\<lambda>f. bindE (GetLocal f bc1 bc2) (Push f)))"

definition doPushArgument :: "int \<Rightarrow> unit vmM" where
  "doPushArgument bytecodeIndex =
     bindE (operands bytecodeIndex) (\<lambda>(bc1, bc2).
     bindE GetFrame (\<lambda>f. bindE (GetArgument f bc1 bc2) (Push f)))"

definition doPushField :: "int \<Rightarrow> unit vmM" where
  "doPushField bytecodeIndex =
     bindE (constantAt bytecodeIndex) (\<lambda>fieldName.
     bindE GetSelf (\<lambda>self.
     bindE (GetFieldIndex self fieldName) (\<lambda>fieldIndex.
     bindE (GetField self fieldIndex) (\<lambda>x.
     bindE GetFrame (\<lambda>f. Push f x)))))"

definition doPushBlock :: "nat \<Rightarrow> int \<Rightarrow> unit vmM" where
  "doPushBlock n bytecodeIndex =
     bindE (constantAt bytecodeIndex) (\<lambda>blockMethod.
     bindE (MethodGetNumberOfArguments blockMethod) (\<lambda>numOfArgs.
     bindE GetFrame (\<lambda>f.
     bindE (NewBlock n blockMethod f numOfArgs) (\<lambda>b. Push f b))))"

definition doPushConstant :: "int \<Rightarrow> unit vmM" where
  "doPushConstant bytecodeIndex =
     bindE (constantAt bytecodeIndex) (\<lambda>constant. bindE GetFrame (\<lambda>f. Push f constant))"

definition doPushGlobal :: "external \<Rightarrow> nat \<Rightarrow> int \<Rightarrow> unit vmM" where
  "doPushGlobal ext n bytecodeIndex =
     bindE (constantAt bytecodeIndex) (\<lambda>globalName.
     bindE (GetGlobal globalName) (\<lambda>global.
       if global \<noteq> NULL then bindE GetFrame (\<lambda>f. Push f global)
       else
         bindE GetSelf (\<lambda>self.
         thenE (makeRoom 2)
           (Send ext n self uG [globalName]))))"

definition doPop :: "unit vmM" where
  "doPop = thenE (bindE GetFrame Pop) (returnE ())"

definition doPopLocal :: "int \<Rightarrow> unit vmM" where
  "doPopLocal bytecodeIndex =
     bindE (operands bytecodeIndex) (\<lambda>(bc1, bc2).
     bindE GetFrame (\<lambda>f. bindE (Pop f) (SetLocal f bc1 bc2)))"

definition doPopArgument :: "int \<Rightarrow> unit vmM" where
  "doPopArgument bytecodeIndex =
     bindE (operands bytecodeIndex) (\<lambda>(bc1, bc2).
     bindE GetFrame (\<lambda>f. bindE (Pop f) (SetArgument f bc1 bc2)))"

definition doPopField :: "int \<Rightarrow> unit vmM" where
  "doPopField bytecodeIndex =
     bindE (constantAt bytecodeIndex) (\<lambda>field_name.
     bindE GetSelf (\<lambda>self.
     bindE (GetFieldIndex self field_name) (\<lambda>field_index.
     bindE (bindE GetFrame Pop) (\<lambda>x. SetField self field_index x))))"

definition doSend :: "external \<Rightarrow> nat \<Rightarrow> int \<Rightarrow> unit vmM" where
  "doSend ext n bytecodeIndex =
     bindE (constantAt bytecodeIndex) (\<lambda>signature.
     bindE (GetStdString signature) (\<lambda>s. let numOfArgs = GetNumberOfArguments s in
     bindE GetFrame (\<lambda>f.
     bindE (GetStackElement f (int numOfArgs - 1)) (\<lambda>receiver.
     bindE (GetClass receiver) (send ext n signature)))))"

definition doSuperSend :: "external \<Rightarrow> nat \<Rightarrow> int \<Rightarrow> unit vmM" where
  "doSuperSend ext n bytecodeIndex =
     bindE (constantAt bytecodeIndex) (\<lambda>signature.
     bindE GetFrame (\<lambda>f.
     bindE (GetOuterContext f) (\<lambda>ctxt.
     bindE (FrameGetMethod ctxt) (\<lambda>realMethod.
     bindE (GetHolder realMethod) (\<lambda>holder.
     bindE (GetSuperClass holder) (\<lambda>super.
     bindE (LookupInvokable super signature) (\<lambda>inv0.
     bindE (dynamic_cast_VMInvokable inv0) (\<lambda>invokable.
       if invokable \<noteq> NULL then invoke ext n invokable f
       else
         bindE (GetStdString signature) (\<lambda>s. let numOfArgs = GetNumberOfArguments s in
         bindE (GetStackElement f (int numOfArgs - 1)) (\<lambda>receiver.
         bindE (popArguments numOfArgs) (\<lambda>argumentsArray.
           Send ext n receiver dnu [signature, argumentsArray])))))))))))"

definition doReturnLocal :: "unit vmM" where
  "doReturnLocal = bindE (bindE GetFrame Pop) popFrameAndPushResult"

text \<open>\<^verbatim>\<open>while (_FRAME != context) popFrame()\<close>: each round removes one frame of the chain, so the
  number of objects bounds the loop.\<close>

primrec unwindTo :: "nat \<Rightarrow> ptr \<Rightarrow> unit vmM" where
  "unwindTo 0 context = bindE GetFrame (\<lambda>f. if f \<noteq> context then throwE OutOfFuel else returnE ())"
| "unwindTo (Suc n) context =
     bindE GetFrame (\<lambda>f. if f \<noteq> context then thenE popFrame (unwindTo n context) else returnE ())"

definition doReturnNonLocal :: "external \<Rightarrow> nat \<Rightarrow> unit vmM" where
  "doReturnNonLocal ext n =
     bindE (bindE GetFrame Pop) (\<lambda>res.
     bindE GetFrame (\<lambda>f.
     bindE (GetOuterContext f) (\<lambda>context.
     bindE (HasPreviousFrame context) (\<lambda>alive.
       if \<not> alive then
         bindE (GetArgument f 0 0) (\<lambda>block.
         bindE (GetPreviousFrame f) (\<lambda>prevFrame.
         bindE (GetOuterContext prevFrame) (\<lambda>outerCtx.
         bindE (GetArgument outerCtx 0 0) (\<lambda>sender.
         thenE popFrame
           (Send ext n sender eB [block])))))
       else
         bindE (getsE nextPtr) (\<lambda>bound.
         thenE (unwindTo bound context) (popFrameAndPushResult res))))))"

section \<open>The fetch loop\<close>

definition unexpectedBytecode :: string where
  "unexpectedBytecode = ''Interpreter: Unexpected bytecode''"

definition execute :: "external \<Rightarrow> nat \<Rightarrow> u8 \<Rightarrow> int \<Rightarrow> bool vmM" where
  "execute ext n bc i =
     (case opcode_of bc of
        None \<Rightarrow> throwE (ErrorExit unexpectedBytecode)
      | Some BC_HALT \<Rightarrow> returnE False
      | Some BC_DUP \<Rightarrow> thenE doDup (returnE True)
      | Some BC_PUSH_LOCAL \<Rightarrow> thenE (doPushLocal i) (returnE True)
      | Some BC_PUSH_ARGUMENT \<Rightarrow> thenE (doPushArgument i) (returnE True)
      | Some BC_PUSH_FIELD \<Rightarrow> thenE (doPushField i) (returnE True)
      | Some BC_PUSH_BLOCK \<Rightarrow> thenE (doPushBlock n i) (returnE True)
      | Some BC_PUSH_CONSTANT \<Rightarrow> thenE (doPushConstant i) (returnE True)
      | Some BC_PUSH_GLOBAL \<Rightarrow> thenE (doPushGlobal ext n i) (returnE True)
      | Some BC_POP \<Rightarrow> thenE doPop (returnE True)
      | Some BC_POP_LOCAL \<Rightarrow> thenE (doPopLocal i) (returnE True)
      | Some BC_POP_ARGUMENT \<Rightarrow> thenE (doPopArgument i) (returnE True)
      | Some BC_POP_FIELD \<Rightarrow> thenE (doPopField i) (returnE True)
      | Some BC_SEND \<Rightarrow> thenE (doSend ext n i) (returnE True)
      | Some BC_SUPER_SEND \<Rightarrow> thenE (doSuperSend ext n i) (returnE True)
      | Some BC_RETURN_LOCAL \<Rightarrow> thenE doReturnLocal (returnE True)
      | Some BC_RETURN_NON_LOCAL \<Rightarrow> thenE (doReturnNonLocal ext n) (returnE True))"

definition fetch :: "(int \<times> u8) vmM" where
  "fetch =
     bindE GetFrame (\<lambda>f.
     bindE (GetBytecodeIndex f) (\<lambda>bytecodeIndex.
     bindE GetMethod (\<lambda>meth.
     bindE (GetBytecode meth bytecodeIndex) (\<lambda>bc.
     bindE (GetBytecodeLength bc) (\<lambda>bytecodeLength.
     thenE (SetBytecodeIndex f (bytecodeIndex + int bytecodeLength))
       (returnE (bytecodeIndex, bc)))))))"

definition step :: "external \<Rightarrow> nat \<Rightarrow> bool vmM" where
  "step ext n = bindE fetch (\<lambda>(i, bc). execute ext n bc i)"

primrec Start :: "external \<Rightarrow> nat \<Rightarrow> nat \<Rightarrow> unit vmM" where
  "Start ext n 0 = throwE OutOfFuel"
| "Start ext n (Suc k) = bindE (step ext n) (\<lambda>go. if go then Start ext n k else returnE ())"

section \<open>The run of the virtual machine\<close>

text \<open>The method whose frame is the bottom of the stack: a single \<^verbatim>\<open>HALT\<close>.\<close>

definition NewBootstrapMethod :: "ptr vmM" where
  "NewBootstrapMethod =
     bindE (SymbolFor ''bootstrap'') (\<lambda>s.
     bindE (NewMethod s 1 0) (\<lambda>bootstrapMethod.
     thenE (SetBytecode bootstrapMethod 0 (opcode BC_HALT))
    (thenE (SetNumberOfLocals bootstrapMethod 0)
    (thenE (SetMaximumNumberOfStackElements bootstrapMethod 2)
    (bindE (getsE systemClass) (\<lambda>c.
     thenE (SetHolder bootstrapMethod c)
       (returnE bootstrapMethod)))))))"

definition shellStatement :: "nat \<Rightarrow> string \<Rightarrow> string" where
  "shellStatement counter inp =
     ''Shell_Class_'' @ show_nat counter @ '' = (run: it = ( | tmp | tmp := ('' @ inp @
     ''). '' @ CHR 0x27 # ''it = '' @ CHR 0x27 # '' print. ^tmp println) )''"

text \<open>One line of the shell's loop: \<open>it\<close> is the last result. The result of
  \<^verbatim>\<open>LoadShellClass\<close> is never NULL, and a missing \<^verbatim>\<open>run:\<close> is a call through NULL.\<close>

definition shellLine :: "external \<Rightarrow> nat \<Rightarrow> nat \<Rightarrow> int \<Rightarrow> nat \<Rightarrow> string \<Rightarrow> ptr \<Rightarrow> ptr vmM" where
  "shellLine ext n k bytecodeIndex counter inp it =
     bindE (LoadShellClass n (shellStatement counter inp)) (\<lambda>runClass.
     bindE GetFrame (\<lambda>currentFrame.
     thenE (SetBytecodeIndex currentFrame bytecodeIndex)
    (bindE (NewInstance runClass) (\<lambda>inst.
     thenE (Push currentFrame inst)
    (thenE (Push currentFrame it)
    (bindE (SymbolFor ''run:'') (\<lambda>s.
     bindE (LookupInvokable runClass s) (\<lambda>inv0.
     bindE (dynamic_cast_VMInvokable inv0) (\<lambda>initialize.
     thenE (invoke ext n initialize currentFrame)
    (thenE (Start ext n k)
       (Pop currentFrame)))))))))))"

primrec shellLoop :: "external \<Rightarrow> nat \<Rightarrow> nat \<Rightarrow> int \<Rightarrow> string list \<Rightarrow> nat \<Rightarrow> ptr \<Rightarrow> unit vmM" where
  "shellLoop ext n k bytecodeIndex [] counter it = returnE ()"
| "shellLoop ext n k bytecodeIndex (inp # lines) counter it =
     thenE (print ''---> '')
       (if inp = [] then shellLoop ext n k bytecodeIndex lines counter it
        else bindE (shellLine ext n k bytecodeIndex counter inp it)
          (shellLoop ext n k bytecodeIndex lines (counter + 1)))"

definition Shell_Start :: "external \<Rightarrow> nat \<Rightarrow> nat \<Rightarrow> string list \<Rightarrow> ptr \<Rightarrow> unit vmM" where
  "Shell_Start ext n k lines bootstrapMethod =
     bindE (getsE nilObject) (\<lambda>it.
     thenE (print (''SOM Shell. Type '' @ CHR 0x22 # ''system exit'' @ CHR 0x22 # '' to exit.'' @ newline))
    (bindE (PushNewFrame bootstrapMethod) (\<lambda>currentFrame.
     bindE (GetBytecodeIndex currentFrame) (\<lambda>bytecodeIndex.
       shellLoop ext n k bytecodeIndex lines 0 it))))"

text \<open>\<^verbatim>\<open>Universe::initialize\<close> from the end of the argument handling on: \<open>argv\<close> are the
  arguments left for the program, \<open>lines\<close> the lines the shell's \<^verbatim>\<open>getline\<close> reads,
  the empty one at the end of the input included.\<close>

definition initialize :: "external \<Rightarrow> nat \<Rightarrow> nat \<Rightarrow> string list \<Rightarrow> string list \<Rightarrow> unit vmM" where
  "initialize ext n k argv lines =
     thenE (InitializeGlobals n)
    (bindE (bindE (getsE systemClass) NewInstance) (\<lambda>systemObject.
     thenE (forE [(''nil'', nilObject), (''true'', trueObject), (''false'', falseObject),
          (''system'', \<lambda>_. systemObject), (''System'', systemClass), (''Block'', blockClass)]
        (\<lambda>(name, val). bindE (SymbolFor name) (\<lambda>s. bindE (getsE val) (SetGlobal s))))
    (bindE NewBootstrapMethod (\<lambda>bootstrapMethod.
       if argv = [] then Shell_Start ext n k lines bootstrapMethod
       else
         bindE (NewArrayFromArgv argv) (\<lambda>argumentsArray.
         bindE (PushNewFrame bootstrapMethod) (\<lambda>bootstrapFrame.
         thenE (Push bootstrapFrame systemObject)
        (thenE (Push bootstrapFrame argumentsArray)
        (bindE (SymbolFor ''initialize:'') (\<lambda>s.
         bindE (getsE systemClass) (\<lambda>c.
         bindE (LookupInvokable c s) (\<lambda>inv0.
         bindE (dynamic_cast_VMInvokable inv0) (\<lambda>init.
         thenE (invoke ext n init bootstrapFrame)
           (Start ext n k)))))))))))))"

end
