(* ===== verification/Evaluation.thy ===== *)
theory Evaluation
  imports Interpreter
begin

text \<open>
  Evaluation of the model in the kernel. The simplifier runs a stateful operation on a concrete
  state: the congruences keep it out of continuations, the equations run one operation at a
  time, so that only what the run reaches is unfolded. The sample states the witnesses start
  from are here as well.
\<close>

section \<open>Running state functions\<close>


lemma lazy_cong:
  "bindE m f = bindE m f" "thenE m k = thenE m k" "whenE b m = whenE b m" "forE xs h = forE xs h"
  "whileM n c m' = whileM n c m'" "doWhileM n m' c = doWhileM n m' c" "liftE g p m = liftE g p m"
  by (rule refl)+

lemma bindE_lazy: "bindE m f s = (case m s of Inl e \<Rightarrow> Inl e | Inr r \<Rightarrow> f (fst r) (snd r))"
  by (simp add: bindE_def)
lemma thenE_lazy: "thenE m k s = (case m s of Inl e \<Rightarrow> Inl e | Inr r \<Rightarrow> k (snd r))"
  by (simp add: thenE_def bindE_def)
lemma whileM_lazy: "whileM n b m s = (if n = 0 then bindE b (\<lambda>x. if x then throwE OutOfFuel else returnE ()) s
   else bindE b (\<lambda>x. if x then thenE m (whileM (n - 1) b m) else returnE ()) s)"
  by (cases n) (simp_all cong: if_cong)
lemma forE_lazy: "forE xs f s = (case xs of [] \<Rightarrow> Inr ((), s) | x # ys \<Rightarrow> thenE (f x) (forE ys f) s)"
  by (cases xs) simp_all
lemma doWhileM_lazy: "doWhileM n m b s = thenE m (whileM n b m) s"
  by (simp add: doWhileM_def)

lemma list_update_lazy: "(x # xs)[i := y] = (if i = 0 then y # xs else x # xs[i - 1 := y])"
  by (cases i) simp_all
lemma upt_lazy: "[i..<j] = (if i < j then i # [Suc i..<j] else [])"
  by (rule upt_rec)
lemmas lazy = bindE_lazy thenE_lazy whileM_lazy forE_lazy doWhileM_lazy liftE_run

lemmas chars_eval = isspace_def isalpha_def isdigit_def identChar_def ISOP_def char_code_def



section \<open>Loops and recursions with a numeral bound\<close>

lemma depthLoop_lazy: "depthLoop n code lits i depth mx v = (if n = 0 then (if i < length code then throwE OutOfFuel else returnE mx) v
   else (if i < length code then
        bindE (depthStep code lits i depth) (\<lambda>r.
          depthLoop (n - 1) code lits (fst r) (snd r) (if mx < snd r then snd r else mx)) v
      else Inr (mx, v)))"
  by (cases n) (simp_all cong: if_cong)
lemma keywordPatternParts_lazy: "keywordPatternParts n kw = (if n = 0 then throwE OutOfFuel else
     bindE keywordM (\<lambda>k.
     bindE argument (\<lambda>a.
     thenE (onMgenc (\<lambda>m. snd (AddArgumentIfAbsent a m)))
    (bindE sym (\<lambda>s.
       if s = Keyword then keywordPatternParts (n - 1) (kw @ k) else returnE (kw @ k))))))"
  by (cases n) (simp_all cong: if_cong)
lemma keywordParts_lazy: "keywordParts j n rc kw = (if j = 0 then throwE OutOfFuel else
     bindE keywordM (\<lambda>k.
     thenE (formula n rc)
    (bindE sym (\<lambda>s.
       if s = Keyword then keywordParts (j - 1) n rc (kw @ k) else returnE (kw @ k)))))"
  by (cases j) (simp_all cong: if_cong)
lemma assignments_lazy: "assignments j l = (if j = 0 then throwE OutOfFuel else 
     bindE sym (\<lambda>s.
       if s = Identifier then
         bindE assignment (\<lambda>v.
         thenE PEEK
        (bindE (getsE p_nextSym) (\<lambda>nx.
           if nx = Assign then assignments (j - 1) (l @ [v]) else returnE (l @ [v]))))
       else returnE l))"
  by (cases j) (simp_all cong: if_cong)
lemma parseN_lazy: "parseN n nt s = (if n = 0 then Inl OutOfFuel else case nt of
       NExpression \<Rightarrow> expression n (parseN (n - 1)) s
     | NBlockBody seen_period \<Rightarrow> blockBody (expression n (parseN (n - 1))) (parseN (n - 1)) seen_period s)"
  by (cases n) (simp_all split: nterm.split)

lemma parse_cong: "parseN n = parseN n" "keywordParts j n rc kw = keywordParts j n rc kw" "assignments j l = assignments j l"
  "keywordPatternParts j kw = keywordPatternParts j kw" "expression n rc = expression n rc" "blockBody ex rc b = blockBody ex rc b"
  "depthLoop n = depthLoop n"
  by (rule refl)+

lemmas lex_eval = lex_defs EOB_def getline_def lx_remaining_def chars_eval PRIMITIVE_def BUFSIZ_def SEPARATOR_def GetText_def GetNextText_def cstr_def single_ops_def Lexer_new_def
lemmas parse_eval = parser_defs parseN_lazy keywordParts_lazy keywordPatternParts_lazy assignments_lazy
  parseClass_def parseSource_def Parser_start_def parseBound_def singleOpSyms_def binaryOpSyms_def keywordSelectorSyms_def
  ClassGenerationContext_new_def CGSetName_def SetSuperName_def SetClassSide_def AddInstanceMethod_def AddClassMethod_def
  AddInstanceField_def AddClassField_def ListAdd_def ListSize_def PushBack_def MethodGenerationContext_new_def AddArgument_def
  AddArgumentIfAbsent_def AddLocalIfAbsent_def AddLocal_def AddLiteralIfAbsent_def AddLiteral_def MGSetSignature_def SetPrimitive_def SetFinished_def
  RemoveLastBytecode_def AddBytecode_def EMIT1_def EMIT2_def EMIT3_def
  EmitPUSHARGUMENT_def EmitPUSHLOCAL_def EmitPOPARGUMENT_def EmitPOPLOCAL_def EmitRETURNLOCAL_def EmitRETURNNONLOCAL_def
  EmitPOP_def EmitDUP_def EmitSEND_def EmitSUPERSEND_def EmitPUSHCONSTANT_def EmitPUSHGLOBAL_def EmitPUSHFIELD_def EmitPOPFIELD_def
  EmitPUSHBLOCK_def FindLiteralIndex_def IndexOf_def to_i8_def FindField_def MGGetNumberOfArguments_def SetIsBlockMethod_def
  MethodAssemble_def AssemblePrimitive_def ComputeStackDepth_def depthStep_def opcode_of_def all_bytecodes_def
  strtoul_def digits_value_def
lemmas heap_eval = vm_defs NULL_def newFields_def invokableKinds_def anyKind_def GetNumberOfArguments_def IsBinary_def binary_chars_def list_update_lazy upt_lazy

section \<open>The sample states\<close>

text \<open>\<open>vm0\<close>: a virtual machine before anything is allocated.\<close>

definition vm0 :: vm where
  "vm0 = \<lparr>heap = Map.empty, nextPtr = 1, symtab = (\<lambda>_. NULL), rootTable = Map.empty, nilObject = NULL,
     trueObject = NULL, falseObject = NULL, objectClass = NULL, classClass = NULL, metaClassClass = NULL,
     nilClass = NULL, integerClass = NULL, bigIntegerClass = NULL, arrayClass = NULL, methodClass = NULL,
     symbolClass = NULL, frameClass = NULL, primitiveClass = NULL, stringClass = NULL, systemClass = NULL,
     blockClass = NULL, doubleClass = NULL, curFrame = NULL, classPath = [], files = Map.empty, libs = Map.empty,
     out = []\<rparr>"
definition codeOf :: "vm \<Rightarrow> ptr \<Rightarrow> u8 list" where
  "codeOf v p = (case heap v p of Some ob \<Rightarrow> (case o_data ob of CodeData c \<Rightarrow> c | _ \<Rightarrow> []) | None \<Rightarrow> [])"

lemma vm0_ok: "vm_ok vm0"
  by (simp add: vm_ok_def vm0_def NULL_def)

lemmas eval_dels = whileM.simps parseN.simps keywordParts.simps keywordPatternParts.simps assignments.simps
  depthLoop.simps bindE_Inr bindE_Inl thenE_Inr thenE_Inl forE.simps

lemmas eval_simps = vm0_def lex_eval parse_eval heap_eval lazy depthLoop_lazy codeOf_def

lemmas eval_congs = lazy_cong parse_cong

lemma parse_sample:
  "map_sum id (\<lambda>r. map (codeOf (snd r)) (c_instanceMethods (fst r))) (parseSource ''A = ( x = ( ^1 ) )'' vm0) = Inr [[6, 0, 14]]"
  by (simp add: eval_simps cong: eval_congs del: eval_dels)

end
