(* ===== verification/CompilerProperties.thy ===== *)
theory CompilerProperties
  imports ClassLaws Evaluation
begin

text \<open>
  The properties of the compiler: what \<^verbatim>\<open>SourcecodeCompiler::compile\<close> promises of the code it
  leaves in the heap, the operands and stack sizes of that code, the variables names stand
  for, and selectors.
\<close>




text \<open>C2. Compiling ends for every source text: the bounds the model gives to the loops and
  recursions of the lexer and the parser are never reached.\<close>

lemma parseSource_terminates:
  assumes "vm_ok v"
  shows "parseSource src v \<noteq> Inl OutOfFuel"
proof -
  have "cgenc0 ClassGenerationContext_new"
    by (simp add: cgenc0_def ClassGenerationContext_new_def)
  with parseClass_spec [of v ClassGenerationContext_new src] assms show ?thesis
    by (auto simp: spec_def parseSource_def split: sum.splits)
qed

lemma parseSource_terminates_witness: "parseSource ''A = ( x = ( '' vm0 \<noteq> Inl OutOfFuel"
  by (rule parseSource_terminates [OF vm0_ok])


text \<open>C5. The stack size is an 8-bit number: for all code that scans it is the greatest depth the
  scan meets, cut off at 255, so code that goes deeper gets too small a stack.\<close>

lemma ComputeStackDepth_saturates:
  assumes "scan env (litOf v (m_literals m)) (m_bytecode m) 0 = Some (df, mx)"
  shows "ComputeStackDepth m v = Inr (of_nat (min mx 255), v)"
  by (rule ComputeStackDepth_scan [OF assms])

lemma scan_pushes:
  "scan [(0, 1)] lt (concat (replicate c [opcode BC_PUSH_ARGUMENT, 0, 0])) d = Some (d + c, d + c)"
proof (induction c arbitrary: d)
  case (Suc c)
  have "scan [(0, 1)] lt [opcode BC_PUSH_ARGUMENT, 0, 0] d = Some (d + 1, max d (d + 1))"
    by (rule scan_instr [OF refl]) (simp_all add: byteAt_def)
  from scan_append_Some [OF this Suc] show ?case by simp
qed simp

lemma ComputeStackDepth_saturates_witness:
  "ComputeStackDepth (MethodGenerationContext_new
     \<lparr>m_bytecode := concat (replicate 300 [opcode BC_PUSH_ARGUMENT, 0, 0])\<rparr>) vm0 = Inr (255, vm0)"
proof -
  let ?m = "MethodGenerationContext_new\<lparr>m_bytecode := concat (replicate 300 [opcode BC_PUSH_ARGUMENT, 0, 0])\<rparr>"
  have "scan [(0, 1)] (litOf vm0 (m_literals ?m)) (m_bytecode ?m) 0 = Some (0 + 300, 0 + 300)"
    using scan_pushes [of "litOf vm0 (m_literals ?m)" 300 0] by (simp add: MethodGenerationContext_new_def del: opcode.simps)
  from ComputeStackDepth_saturates [OF this] show ?thesis by simp
qed

subsection \<open>Operands\<close>

text \<open>C6. The operand byte of PUSH_CONSTANT is the index of the literal modulo 256: it names the
  literal again exactly when the index is below 256.\<close>

lemma EmitPUSHCONSTANT_operand:
  assumes "index_of lit (m_literals m) = Some k"
  shows "\<exists>b. m_bytecode (EmitPUSHCONSTANT lit m) = m_bytecode m @ [opcode BC_PUSH_CONSTANT, b] \<and>
     unat b = k mod 256 \<and> (m_literals (EmitPUSHCONSTANT lit m) ! unat b = lit \<longleftrightarrow> k < 256)"
proof -
  have lit: "lit \<notin> set (take k (m_literals m))" "k < length (m_literals m)" "m_literals m ! k = lit"
    using index_of_SomeD [OF assms] by auto
  have idx: "IndexOf (m_literals m) lit = int k" using assms by (simp add: IndexOf_def)
  have "m_literals m ! (k mod 256) \<noteq> lit" if "\<not> k < 256"
  proof -
    have "k mod 256 < k" using that mod_less_divisor [of 256 k] by linarith
    with lit(2) have "m_literals m ! (k mod 256) \<in> set (take k (m_literals m))"
      by (metis in_set_conv_nth length_take min.absorb4 nth_take)
    with lit(1) show ?thesis by metis
  qed
  moreover have "m_literals m ! (k mod 256) = lit" if "k < 256" using that lit(3) by simp
  ultimately have names: "m_literals m ! (k mod 256) = lit \<longleftrightarrow> k < 256" by blast
  have "(word_of_int (to_i8 (int k)) :: u8) = of_nat k"
    unfolding to_i8_def by (rule bit_word_eqI) (simp add: bit_simps)
  then have "unat (word_of_int (to_i8 (int k)) :: u8) = k mod 256" by (simp add: unat_of_nat)
  with names show ?thesis
    by (simp add: EmitPUSHCONSTANT_def EMIT2_def AddBytecode_def FindLiteralIndex_def idx)
qed

text \<open>The variable a name stands for: the innermost context that has it, its locals first.\<close>

definition binds :: "mgenc \<Rightarrow> string \<Rightarrow> bool" where
  "binds m x \<longleftrightarrow> x \<in> set (m_locals m) \<or> x \<in> set (m_arguments m)"

text \<open>C7. FindVar finds a name in the innermost context that has it, among the locals before the
  arguments, and counts the contexts walked out.\<close>

lemma FindVar_innermost:
  "FindVar ms x k =
     (case find (\<lambda>i. binds (ms ! i) x) [0..<length ms] of
        None \<Rightarrow> None
      | Some i \<Rightarrow> Some (if x \<in> set (m_locals (ms ! i)) then (IndexOf (m_locals (ms ! i)) x, k + i, False)
                       else (IndexOf (m_arguments (ms ! i)) x, k + i, True)))"
proof (induction ms x k rule: FindVar.induct)
  case (2 m outer x k)
  have "find (\<lambda>i. binds ((m # outer) ! i) x) [0..<length (m # outer)] =
      (if binds m x then Some 0 else map_option Suc (find (\<lambda>i. binds (outer ! i) x) [0..<length outer]))"
  proof -
    have "[0..<length (m # outer)] = 0 # map Suc [0..<length outer]"
      by (simp add: upt_conv_Cons map_Suc_upt del: upt_Suc)
    moreover have "find P (map f xs) = map_option f (find (P \<circ> f) xs)" for P and f :: "nat \<Rightarrow> nat" and xs
      by (induction xs) auto
    ultimately show ?thesis by (simp add: comp_def)
  qed
  with 2 show ?case
    by (cases outer) (auto simp: binds_def split: option.splits)
qed simp

subsection \<open>Selectors\<close>

text \<open>C9. The signature of the evaluation primitive of a block with n arguments (the block included)
  takes n arguments only up to n = 2: with more, the keywords are computed and dropped.\<close>

lemma evaluation_arity:
  assumes "1 \<le> n"
  shows "GetNumberOfArguments (computeSignatureString n) = n \<longleftrightarrow> n \<le> 2"
  using assms
  by (auto simp: computeSignatureString_eq GetNumberOfArguments_def IsBinary_def binary_chars_def)

lemma evaluation_arity_witness: "GetNumberOfArguments (computeSignatureString 3) \<noteq> 3"
  using evaluation_arity [of 3] by simp

subsection \<open>Assembly\<close>

text \<open>C8. Assembling a method context and reading the method object back gives its bytecodes, its
  literals, the number of its locals and the number of arguments of its signature; the method
  becomes the global of its signature.\<close>

lemma MethodAssemble_parts:
  assumes "vm_ok v" "strOf v (m_signature m) = Some s" "MethodAssemble m v = Inr (p, w)"
  shows "\<exists>depth. methodParts w p =
     Some (m_bytecode m, m_literals m, length (m_locals m), GetNumberOfArguments s, uint (depth :: u8)) \<and>
     rootTable w = (rootTable v)(s \<mapsto> p)"
  using MethodAssemble_run(2) [OF assms] methodAt_parts
  unfolding methodAt_def by (fastforce simp: Let_def)

lemma FindVar_sample:
  "FindVar [MethodGenerationContext_new, AddLocal ''x'' (AddArgument ''x'' MethodGenerationContext_new)] ''x'' 0 =
     Some (0, 1, False)"
  by (simp add: MethodGenerationContext_new_def AddLocal_def AddArgument_def PushBack_def IndexOf_def)

lemma EmitPUSHCONSTANT_operand_witness:
  "\<exists>b. m_bytecode (EmitPUSHCONSTANT 7 (AddLiteral 7 MethodGenerationContext_new)) = [opcode BC_PUSH_CONSTANT, b] \<and> unat b = 0"
  using EmitPUSHCONSTANT_operand [of 7 "AddLiteral 7 MethodGenerationContext_new" 0]
  by (force simp: MethodGenerationContext_new_def AddLiteral_def PushBack_def)


lemma MethodAssemble_parts_witness:
  "\<exists>s v p w. SymbolFor ''m'' vm0 = Inr (s, v) \<and>
     MethodAssemble (MethodGenerationContext_new\<lparr>m_signature := s, m_bytecode := [14]\<rparr>) v = Inr (p, w) \<and>
     rootTable w ''m'' = Some p"
proof -
  let ?m = "\<lambda>s. MethodGenerationContext_new\<lparr>m_signature := s, m_bytecode := [14]\<rparr>"
  obtain s v where sv: "SymbolFor ''m'' vm0 = Inr (s, v)" "vm_ok v" "symOf v s = Some ''m''"
    using SymbolFor_run [OF vm0_ok, of "''m''"] by (auto simp: cstr_def)
  have "\<exists>p w. bindE (SymbolFor ''m'') (\<lambda>s. MethodAssemble (?m s)) vm0 = Inr (p, w)"
    by (simp add: eval_simps cong: eval_congs del: eval_dels)
  then obtain p w where "MethodAssemble (?m s) v = Inr (p, w)" using sv(1) by auto
  with MethodAssemble_parts [OF sv(2), of "?m s" "''m''"] symOf_strOf [OF sv(3)] sv
  show ?thesis by (force simp: MethodGenerationContext_new_def)
qed

end
