(* ===== verification/LexerRoundTrip.thy ===== *)
theory LexerRoundTrip
  imports Lexer
begin

text \<open>
  Printing and reading tokens: the tokens of a line, printed with a blank behind each, are
  read back by \<^verbatim>\<open>Lexer::GetSym\<close> one by one. \<open>tokenText\<close> says which texts are tokens.
\<close>

section \<open>Reading back printed tokens\<close>

definition identText :: "string \<Rightarrow> bool" where
  "identText t \<longleftrightarrow> t \<noteq> [] \<and> isalpha (hd t) \<and> list_all identChar t \<and> take 9 t \<noteq> PRIMITIVE"

definition brackets :: "(char \<times> Symbol) list" where
  "brackets = [(CHR ''['', NewBlock), (CHR '']'', EndBlock), (CHR ''('', NewTerm), (CHR '')'', EndTerm),
     (CHR ''#'', Pound), (CHR ''^'', Exit), (CHR ''.'', Period), (CHR ''-'', Minus), (CHR '':'', Colon)]"

inductive tokenText :: "Symbol \<Rightarrow> string \<Rightarrow> bool" where
  identWord: "identText t \<Longrightarrow> length t < BUFSIZ \<Longrightarrow> tokenText Identifier t"
| keywordWord: "identText v \<Longrightarrow> length v + 1 < BUFSIZ \<Longrightarrow> tokenText Keyword (v @ '':'')"
| keywordWords: "identText v \<Longrightarrow> length (v @ '':'' @ c # w) < BUFSIZ \<Longrightarrow> isalpha c \<Longrightarrow>
    list_all (\<lambda>d. isalpha d \<or> d = CHR '':'') w \<Longrightarrow> tokenText KeywordSequence (v @ '':'' @ c # w)"
| number: "t \<noteq> [] \<Longrightarrow> list_all isdigit t \<Longrightarrow> length t < BUFSIZ \<Longrightarrow> tokenText Integer t"
| quoted: "list_all (\<lambda>c. c \<notin> {CHR 0x27, CHR 0x0A, CHR 0x00}) t \<Longrightarrow> length t < BUFSIZ \<Longrightarrow> tokenText STString t"
| operators: "list_all ISOP t \<Longrightarrow> 2 \<le> length t \<Longrightarrow> length t < BUFSIZ \<Longrightarrow> tokenText OperatorSequence t"
| separator: "list_all (\<lambda>c. c = CHR ''-'') t \<Longrightarrow> 4 \<le> length t \<Longrightarrow> length t < BUFSIZ \<Longrightarrow> tokenText Separator t"
| assign: "tokenText Assign '':=''"
| primitiveWord: "tokenText Primitive ''primitive''"
| operator: "map_of single_ops c = Some s \<Longrightarrow> tokenText s [c]"
| bracket: "map_of brackets c = Some s \<Longrightarrow> tokenText s [c]"

definition showToken :: "Symbol \<times> string \<Rightarrow> string" where
  "showToken x = (if fst x = STString then CHR 0x27 # snd x @ [CHR 0x27] else snd x)"

definition showTokens :: "(Symbol \<times> string) list \<Rightarrow> string" where
  "showTokens ts = concat (map (\<lambda>x. showToken x @ '' '') ts)"

primrec readTokens :: "nat \<Rightarrow> (Symbol \<times> string) list lexM" where
  "readTokens 0 = returnE []"
| "readTokens (Suc n) =
     bindE GetSym (\<lambda>s. bindE (getsE GetText) (\<lambda>t. bindE (readTokens n) (\<lambda>ts. returnE ((s, t) # ts))))"

text \<open>A lexer in the last line, with \<open>u\<close> left to read.\<close>

definition lastLine :: "lexer \<Rightarrow> string \<Rightarrow> bool" where
  "lastLine l u \<longleftrightarrow> \<not> lx_peekDone l \<and> \<not> lx_good l \<and> lx_bufp l \<le> length (lx_buf l) \<and>
     drop (lx_bufp l) (lx_buf l) = u"

lemma lastLine_charAt:
  assumes "lastLine l u" "k \<le> length u"
  shows "charAt k l = Inr (if k < length u then u ! k else CHR 0x00, l)"
  using assms by (auto simp: lastLine_def charAt_def)

lemma lastLine_len: "lastLine l u \<Longrightarrow> lx_bufp l + length u = length (lx_buf l)"
  by (auto simp: lastLine_def)

lemma lastLine_advance:
  assumes "lastLine l (t @ u)"
  shows "lastLine (l\<lparr>lx_bufp := lx_bufp l + length t\<rparr>) u"
proof -
  have "drop (length t) (drop (lx_bufp l) (lx_buf l)) = u" using assms by (simp add: lastLine_def)
  then show ?thesis using assms lastLine_len [OF assms] by (simp add: lastLine_def add.commute)
qed

lemma lastLine_takeText:
  assumes "lastLine l (t @ u)" "list_all p t" "u = [] \<or> \<not> p (hd u)"
  shows "takeText p l = Inr (t, l\<lparr>lx_bufp := lx_bufp l + length t\<rparr>)"
proof -
  have "takeWhile p (t @ u) = t" using assms(2,3)
    by (cases u) (auto simp: takeWhile_append list_all_iff)
  then show ?thesis using assms(1) by (simp add: takeText_run lastLine_def)
qed

lemma lastLine_upd [simp]:
  "lastLine (l\<lparr>lx_sym := a, lx_symc := b, lx_text := c\<rparr>) u = lastLine l u"
  "lastLine (l\<lparr>lx_sym := a, lx_text := c\<rparr>) u = lastLine l u"
  by (simp_all add: lastLine_def)

text \<open>What reading one token leaves.\<close>

definition reads :: "unit lexM \<Rightarrow> lexer \<Rightarrow> Symbol \<Rightarrow> string \<Rightarrow> string \<Rightarrow> bool" where
  "reads m l s t u \<longleftrightarrow> (\<exists>l'. m l = Inr ((), l') \<and> lastLine l' u \<and> lx_sym l' = s \<and> lx_text l' = t)"

lemma reads_setToken:
  "lastLine l u \<Longrightarrow> length t < BUFSIZ \<Longrightarrow> reads (setToken s ch t) l s t u"
  by (simp add: reads_def setToken_run)

lemma reads_MATCH:
  assumes "lastLine l (c # u)"
  shows "reads (MATCH s) l s [c] u"
  using lastLine_charAt [OF assms, of 0] lastLine_advance [of l "[c]" u] assms
  by (auto simp: reads_def MATCH_def BC_def setToken_run advance_def BUFSIZ_def lastLine_def)

lemma BC_lastLine: "lastLine l (c # u) \<Longrightarrow> BC l = Inr (c, l)"
  using lastLine_charAt [of l "c # u" 0] by (simp add: BC_def)

lemma substr_lastLine: "lastLine l u \<Longrightarrow> substr n l = Inr (take n u, l)"
  by (auto simp: lastLine_def substr_def)

lemma reads_String:
  assumes "lastLine l (CHR 0x27 # t @ CHR 0x27 # u)" "list_all (\<lambda>c. c \<noteq> CHR 0x27) t" "length t < BUFSIZ"
  shows "reads scanString l STString t u"
proof -
  have d: "drop (Suc (lx_bufp l)) (lx_buf l) = t @ CHR 0x27 # u"
    using assms(1) unfolding lastLine_def by (metis drop_Suc list.sel(3) tl_drop)
  have "takeWhile (\<lambda>c. c \<noteq> CHR 0x27) (t @ CHR 0x27 # u) = t"
    using assms(2) by (simp add: list_all_iff)
  moreover have "lastLine (l\<lparr>lx_bufp := lx_bufp l + length (CHR 0x27 # t @ [CHR 0x27])\<rparr>) u"
    by (rule lastLine_advance) (use assms(1) in simp)
  ultimately show ?thesis using assms(3)
    by (simp add: reads_def scanString_def d Let_def setToken_run advance_def lastLine_def)
qed

lemma reads_Colon:
  assumes "lastLine l (CHR '':'' # d # u)"
  shows "d = CHR ''='' \<Longrightarrow> reads scanColon l Assign '':='' u"
    and "d \<noteq> CHR ''='' \<Longrightarrow> reads scanColon l Colon '':'' (d # u)"
  using lastLine_charAt [OF assms, of 1] lastLine_advance [of l "'':=''" u] lastLine_advance [of l "'':''" "d # u"] assms
  by (auto simp: reads_def scanColon_def setToken_run advance_def BUFSIZ_def lastLine_def)

lemma reads_Minus:
  assumes "lastLine l (CHR ''-'' # '' '' @ u)"
  shows "reads scanMinus l Minus ''-'' ('' '' @ u)"
  using substr_lastLine [OF assms] lastLine_advance [of l "''-''" "'' '' @ u"] assms
  by (auto simp: reads_def scanMinus_def setToken_run advance_def BUFSIZ_def SEPARATOR_def)

lemma reads_Separator:
  assumes "lastLine l (t @ '' '' @ u)" "list_all (\<lambda>c. c = CHR ''-'') t" "4 \<le> length t" "length t < BUFSIZ"
  shows "reads scanMinus l Separator t ('' '' @ u)"
proof -
  obtain t' where "t = ''----'' @ t'" using assms(2,3)
    by (auto simp: numeral_eq_Suc Suc_le_length_iff)
  then have "take (length SEPARATOR) (t @ '' '' @ u) = SEPARATOR" by (simp add: SEPARATOR_def)
  then show ?thesis
    using substr_lastLine [OF assms(1)] lastLine_takeText [OF assms(1,2)] lastLine_advance [OF assms(1)] assms(4)
    by (simp add: reads_def scanMinus_def setToken_run)
qed

lemma reads_Operators:
  assumes "lastLine l (t @ '' '' @ u)" "list_all ISOP t" "2 \<le> length t" "length t < BUFSIZ"
  shows "reads scanOperator l OperatorSequence t ('' '' @ u)"
proof -
  obtain a b t' where t: "t = a # b # t'" using assms(3) by (cases t; cases "tl t") auto
  then have "charAt 1 l = Inr (b, l)" using lastLine_charAt [OF assms(1), of 1] by simp
  moreover have "ISOP b" using assms(2) t by simp
  moreover have "\<not> ISOP (CHR '' '')" by (simp add: ISOP_def)
  ultimately show ?thesis
    using lastLine_takeText [OF assms(1,2)] lastLine_advance [OF assms(1)] assms(4)
    by (simp add: reads_def scanOperator_def setToken_run)
qed

lemma reads_Operator:
  assumes "lastLine l (c # '' '' @ u)" "map_of single_ops c = Some s"
  shows "reads scanOperator l s [c] ('' '' @ u)"
  using lastLine_charAt [OF assms(1), of 1] BC_lastLine [OF assms(1)] reads_MATCH [OF assms(1)] assms(2)
  by (simp add: reads_def scanOperator_def ISOP_def)

lemma reads_Number:
  assumes "lastLine l (t @ '' '' @ u)" "list_all isdigit t" "length t < BUFSIZ"
  shows "reads scanNumber l Integer t ('' '' @ u)"
  using lastLine_takeText [OF assms(1,2)] lastLine_advance [OF assms(1)] assms(3)
  by (simp add: reads_def scanNumber_def setToken_run isdigit_def char_code_def)

lemma reads_Identifier:
  assumes "lastLine l (t @ '' '' @ u)" "list_all identChar t" "length t < BUFSIZ"
  shows "reads scanIdentifier l Identifier t ('' '' @ u)"
  using lastLine_takeText [OF assms(1,2)] lastLine_advance [OF assms(1)] assms(3)
    BC_lastLine [OF lastLine_advance [OF assms(1), unfolded append.simps]]
  by (simp add: reads_def scanIdentifier_def setToken_run identChar_def isalpha_def isdigit_def char_code_def)

lemma reads_Keyword:
  assumes "lastLine l (t @ '':'' @ '' '' @ u)" "list_all identChar t" "length t + 1 < BUFSIZ"
  shows "reads scanIdentifier l Keyword (t @ '':'') ('' '' @ u)"
proof -
  have 1: "takeText identChar l = Inr (t, l\<lparr>lx_bufp := lx_bufp l + length t\<rparr>)"
    by (rule lastLine_takeText [OF assms(1,2)]) (simp add: identChar_def isalpha_def isdigit_def char_code_def)
  let ?l1 = "l\<lparr>lx_bufp := lx_bufp l + length t\<rparr>"
  have l1: "lastLine ?l1 ('':'' @ '' '' @ u)" by (rule lastLine_advance [OF assms(1)])
  let ?l2 = "?l1\<lparr>lx_bufp := lx_bufp ?l1 + length '':''\<rparr>"
  have l2: "lastLine ?l2 ('' '' @ u)" by (rule lastLine_advance [OF l1])
  show ?thesis
    using BC_lastLine [OF l1 [unfolded append.simps]] BC_lastLine [OF l2 [unfolded append.simps]] l2 assms(3)
    by (simp add: reads_def scanIdentifier_def 1 advance_def setToken_run isalpha_def char_code_def)
qed

lemma reads_KeywordSequence:
  assumes "lastLine l (t @ '':'' @ w @ '' '' @ u)" "list_all identChar t" "length (t @ '':'' @ w) < BUFSIZ"
    and "w = c # w'" "isalpha c" "list_all (\<lambda>d. isalpha d \<or> d = CHR '':'') w'"
  shows "reads scanIdentifier l KeywordSequence (t @ '':'' @ w) ('' '' @ u)"
proof -
  have 1: "takeText identChar l = Inr (t, l\<lparr>lx_bufp := lx_bufp l + length t\<rparr>)"
    by (rule lastLine_takeText [OF assms(1,2)]) (simp add: identChar_def isalpha_def isdigit_def char_code_def)
  let ?l1 = "l\<lparr>lx_bufp := lx_bufp l + length t\<rparr>"
  have l1: "lastLine ?l1 ('':'' @ w @ '' '' @ u)" by (rule lastLine_advance [OF assms(1)])
  let ?l2 = "?l1\<lparr>lx_bufp := lx_bufp ?l1 + length '':''\<rparr>"
  have l2: "lastLine ?l2 (w @ '' '' @ u)" by (rule lastLine_advance [OF l1])
  have 2: "takeText (\<lambda>e. isalpha e \<or> e = CHR '':'') ?l2 = Inr (w, ?l2\<lparr>lx_bufp := lx_bufp ?l2 + length w\<rparr>)"
    by (rule lastLine_takeText [OF l2]) (use assms(4-6) in \<open>simp_all add: isalpha_def char_code_def\<close>)
  have 3: "lastLine (?l2\<lparr>lx_bufp := lx_bufp ?l2 + length w\<rparr>) ('' '' @ u)" by (rule lastLine_advance [OF l2])
  show ?thesis
    using BC_lastLine [OF l1 [unfolded append.simps]] BC_lastLine [of ?l2 c "w' @ '' '' @ u"] l2 2 3 assms(3,4,5)
    by (simp add: reads_def scanIdentifier_def 1 advance_def setToken_run)
qed


lemma identText_props:
  assumes "identText t"
  shows "t \<noteq> []" "isalpha (hd t)" "list_all identChar t" "take 9 t \<noteq> PRIMITIVE"
  using assms by (simp_all add: identText_def)

text \<open>Which branch the scanner takes.\<close>

lemma length_PRIMITIVE: "length PRIMITIVE = 9"
  by (simp add: PRIMITIVE_def)

lemma reads_by: "reads m l s t u \<Longrightarrow> scanToken l = m l \<Longrightarrow> reads scanToken l s t u"
  by (simp add: reads_def)

lemma alpha_not: "isalpha c \<Longrightarrow> \<not> ISOP c \<and> c \<notin> set [CHR 0x27, CHR 0x22, CHR ''['', CHR '']'', CHR '':'', CHR ''('', CHR '')'', CHR ''#'', CHR ''^'', CHR ''.'', CHR ''-''] \<and> \<not> isspace c"
  by (auto simp: isalpha_def ISOP_def isspace_def char_code_def Let_def)

lemma digit_not: "isdigit c \<Longrightarrow> \<not> ISOP c \<and> \<not> isalpha c \<and> c \<notin> set [CHR 0x27, CHR 0x22, CHR ''['', CHR '']'', CHR '':'', CHR ''('', CHR '')'', CHR ''#'', CHR ''^'', CHR ''.'', CHR ''-'', CHR ''p''] \<and> \<not> isspace c"
  by (auto simp: isalpha_def isdigit_def ISOP_def isspace_def char_code_def Let_def)

lemma op_not: "ISOP c \<Longrightarrow> c \<notin> set [CHR 0x27, CHR 0x22, CHR ''['', CHR '']'', CHR '':'', CHR ''('', CHR '')'', CHR ''#'', CHR ''^'', CHR ''.'', CHR ''-''] \<and> \<not> isspace c"
  by (auto simp: ISOP_def isspace_def char_code_def Let_def)

lemma scanToken_word:
  assumes l: "lastLine l (t @ u)" and t: "t = c # t'" "isalpha c" "take 9 (t @ u) \<noteq> PRIMITIVE"
  shows "scanToken l = scanIdentifier l"
  using BC_lastLine [of l c "t' @ u"] substr_lastLine [OF l] l t alpha_not [OF t(2)]
  by (simp add: scanToken_def length_PRIMITIVE)

lemma identText_primitive:
  assumes "identText t" "u = [] \<or> hd u \<in> {CHR '' '', CHR '':''}"
  shows "take 9 (t @ u) \<noteq> PRIMITIVE"
proof
  assume p: "take 9 (t @ u) = PRIMITIVE"
  show False
  proof (cases "9 \<le> length t")
    case True
    with p assms(1) show False by (simp add: identText_def)
  next
    case False
    then have u: "take (9 - length t) u \<noteq> []" using p by (auto simp: PRIMITIVE_def)
    then have "hd u \<in> set (take 9 (t @ u))" using False by (cases u) (auto simp: take_Cons split: nat.splits)
    then have "hd u \<in> set ''primitive''" using p by (simp only: PRIMITIVE_def)
    with assms(2) u show False by auto
  qed
qed

lemma brackets_minus: "map_of brackets (CHR ''-'') = Some s \<Longrightarrow> s = Minus"
  and brackets_colon: "map_of brackets (CHR '':'') = Some s \<Longrightarrow> s = Colon"
  by (simp_all add: brackets_def)

lemma scanToken_bracket:
  assumes l: "lastLine l (c # '' '' @ u)" and c: "map_of brackets c = Some s"
  shows "reads scanToken l s [c] ('' '' @ u)"
proof -
  have bc: "BC l = Inr (c, l)" using l by (simp add: BC_lastLine)
  consider "c = CHR ''-''" "s = Minus" | "c = CHR '':''" "s = Colon"
    | "c \<noteq> CHR ''-''" "c \<noteq> CHR '':''" using c brackets_minus brackets_colon by blast
  then show ?thesis
  proof cases
    case 1
    with reads_by [OF reads_Minus [of l u]] l bc show ?thesis by (simp add: scanToken_def)
  next
    case 2
    with reads_by [OF reads_Colon(2) [of l "CHR '' ''" u]] l bc show ?thesis by (simp add: scanToken_def)
  next
    case 3
    then have "c \<in> {CHR ''['', CHR '']'', CHR ''('', CHR '')'', CHR ''#'', CHR ''^'', CHR ''.''}"
      using map_of_SomeD [OF c] by (auto simp: brackets_def)
    then have "scanToken l = MATCH s l"
      using bc c unfolding scanToken_def brackets_def by (elim insertE emptyE) simp_all
    with reads_by [OF reads_MATCH [OF l]] show ?thesis by simp
  qed
qed

lemma scanToken_identifier:
  assumes l: "lastLine l (t @ '' '' @ u)" and t: "identText t" "length t < BUFSIZ"
  shows "reads scanToken l Identifier t ('' '' @ u)"
proof (rule reads_by [OF reads_Identifier [OF l identText_props(3) [OF t(1)] t(2)]])
  show "scanToken l = scanIdentifier l"
    by (rule scanToken_word [OF l hd_Cons_tl [symmetric, OF identText_props(1) [OF t(1)]]
          identText_props(2) [OF t(1)] identText_primitive [OF t(1)]]) simp
qed

lemma scanToken_keyword:
  assumes l: "lastLine l (t @ '':'' @ '' '' @ u)" and t: "identText t" "length t + 1 < BUFSIZ"
  shows "reads scanToken l Keyword (t @ '':'') ('' '' @ u)"
proof (rule reads_by [OF reads_Keyword [OF l identText_props(3) [OF t(1)] t(2)]])
  show "scanToken l = scanIdentifier l"
    by (rule scanToken_word [OF l hd_Cons_tl [symmetric, OF identText_props(1) [OF t(1)]]
          identText_props(2) [OF t(1)] identText_primitive [OF t(1)]]) simp
qed

lemma scanToken_keywords:
  assumes l: "lastLine l (t @ '':'' @ w @ '' '' @ u)" and t: "identText t" "length (t @ '':'' @ w) < BUFSIZ"
    and w: "w = c # w'" "isalpha c" "list_all (\<lambda>d. isalpha d \<or> d = CHR '':'') w'"
  shows "reads scanToken l KeywordSequence (t @ '':'' @ w) ('' '' @ u)"
proof (rule reads_by [OF reads_KeywordSequence [OF l identText_props(3) [OF t(1)] t(2) w]])
  show "scanToken l = scanIdentifier l"
    by (rule scanToken_word [OF l hd_Cons_tl [symmetric, OF identText_props(1) [OF t(1)]]
          identText_props(2) [OF t(1)] identText_primitive [OF t(1)]]) simp
qed

lemma scanToken_number:
  assumes l: "lastLine l (t @ '' '' @ u)" and t: "t \<noteq> []" "list_all isdigit t" "length t < BUFSIZ"
  shows "reads scanToken l Integer t ('' '' @ u)"
proof (rule reads_by [OF reads_Number [OF l t(2,3)]])
  obtain c t' where c: "t = c # t'" "isdigit c" using t by (cases t) auto
  have "take 9 (t @ '' '' @ u) \<noteq> PRIMITIVE" using digit_not [OF c(2)] by (auto simp: c(1) PRIMITIVE_def)
  then show "scanToken l = scanNumber l"
    using c l BC_lastLine [of l c "t' @ '' '' @ u"] substr_lastLine [OF l] digit_not [OF c(2)]
    by (simp add: scanToken_def length_PRIMITIVE)
qed

lemma scanToken_string:
  assumes l: "lastLine l (CHR 0x27 # t @ CHR 0x27 # u)" "list_all (\<lambda>c. c \<noteq> CHR 0x27) t" "length t < BUFSIZ"
  shows "reads scanToken l STString t u"
  by (rule reads_by [OF reads_String [OF l]]) (simp add: scanToken_def BC_lastLine [OF l(1)])

lemma scanToken_op:
  assumes l: "lastLine l (c # u)" and "ISOP c"
  shows "scanToken l = scanOperator l"
  using BC_lastLine [OF l] op_not [OF assms(2)] assms(2) by (simp add: scanToken_def)

lemma scanToken_operators:
  assumes l: "lastLine l (t @ '' '' @ u)" and t: "list_all ISOP t" "2 \<le> length t" "length t < BUFSIZ"
  shows "reads scanToken l OperatorSequence t ('' '' @ u)"
proof (rule reads_by [OF reads_Operators [OF l t]])
  obtain c t' where "t = c # t'" using t by (cases t) auto
  with scanToken_op [of l c] l t show "scanToken l = scanOperator l" by simp
qed

lemma scanToken_operator:
  assumes l: "lastLine l (c # '' '' @ u)" and c: "map_of single_ops c = Some s"
  shows "reads scanToken l s [c] ('' '' @ u)"
proof (rule reads_by [OF reads_Operator [OF l c]])
  have "ISOP c" using map_of_SomeD [OF c] by (auto simp: single_ops_def ISOP_def)
  with scanToken_op [OF l] show "scanToken l = scanOperator l" by simp
qed

lemma scanToken_separator:
  assumes l: "lastLine l (t @ '' '' @ u)" and t: "list_all (\<lambda>c. c = CHR ''-'') t" "4 \<le> length t" "length t < BUFSIZ"
  shows "reads scanToken l Separator t ('' '' @ u)"
proof (rule reads_by [OF reads_Separator [OF l t]])
  obtain t' where "t = CHR ''-'' # t'" using t by (cases t) auto
  with BC_lastLine [of l "CHR ''-''"] l show "scanToken l = scanMinus l" by (simp add: scanToken_def)
qed

lemma scanToken_assign:
  assumes l: "lastLine l ('':='' @ u)"
  shows "reads scanToken l Assign '':='' u"
  using l BC_lastLine [OF l [unfolded append.simps]]
  by (intro reads_by [OF reads_Colon(1) [of _ "CHR ''=''"]]) (simp_all add: scanToken_def)

lemma scanToken_primitive:
  assumes l: "lastLine l (''primitive'' @ u)"
  shows "reads scanToken l Primitive ''primitive'' u"
proof -
  have "scanToken l = thenE (advance (length PRIMITIVE)) (setToken Primitive (Some (CHR 0x00)) ''primitive'') l"
    using BC_lastLine [OF l [unfolded append.simps]] substr_lastLine [OF l]
    by (simp add: scanToken_def PRIMITIVE_def ISOP_def)
  with lastLine_advance [OF l] show ?thesis
    by (simp add: reads_def advance_def setToken_run BUFSIZ_def PRIMITIVE_def)
qed

lemma scanToken_reads:
  assumes "tokenText s t" "lastLine l (showToken (s, t) @ '' '' @ u)"
  shows "reads scanToken l s t ('' '' @ u)"
  using assms
proof cases
  case identWord
  with assms(2) scanToken_identifier [of l t u] show ?thesis by (simp add: showToken_def)
next
  case (keywordWord v)
  with assms(2) scanToken_keyword [of l v u] show ?thesis by (simp add: showToken_def)
next
  case (keywordWords v c w)
  with assms(2) scanToken_keywords [of l v "c # w" u c w] show ?thesis by (simp add: showToken_def)
next
  case number
  with assms(2) scanToken_number [of l t u] show ?thesis by (simp add: showToken_def)
next
  case quoted
  with assms(2) scanToken_string [of l t "'' '' @ u"] show ?thesis by (simp add: showToken_def list_all_iff)
next
  case operators
  with assms(2) scanToken_operators [of l t u] show ?thesis by (simp add: showToken_def)
next
  case separator
  with assms(2) scanToken_separator [of l t u] show ?thesis by (simp add: showToken_def)
next
  case assign
  with assms(2) scanToken_assign [of l "'' '' @ u"] show ?thesis by (simp add: showToken_def)
next
  case primitiveWord
  with assms(2) scanToken_primitive [of l "'' '' @ u"] show ?thesis by (simp add: showToken_def)
next
  case (operator c)
  moreover have "s \<noteq> STString" using map_of_SomeD [OF operator(2)] by (auto simp: single_ops_def)
  ultimately show ?thesis using assms(2) scanToken_operator [of l c u s] by (simp add: showToken_def)
next
  case (bracket c)
  moreover have "s \<noteq> STString" using map_of_SomeD [OF bracket(2)] by (auto simp: brackets_def)
  ultimately show ?thesis using assms(2) scanToken_bracket [of l c u s] by (simp add: showToken_def)
qed

section \<open>Reading a line of tokens\<close>

definition blankFree :: "string \<Rightarrow> bool" where
  "blankFree u \<longleftrightarrow> (case u of [] \<Rightarrow> False | c # _ \<Rightarrow> \<not> isspace c \<and> c \<noteq> CHR 0x22)"

definition atLine :: "lexer \<Rightarrow> string \<Rightarrow> bool" where
  "atLine l0 u \<longleftrightarrow> \<not> lx_peekDone l0 \<and> (\<exists>l. fillIfEOB l0 = Inr ((), l) \<and> lastLine l u)"

lemma lastLine_fill: "lastLine l (c # u) \<Longrightarrow> fillIfEOB l = Inr ((), l)"
  by (auto simp: fillIfEOB_def EOB_def lastLine_def)

lemma lastLine_atLine: "lastLine l (c # u) \<Longrightarrow> atLine l (c # u)"
  using lastLine_fill by (auto simp: atLine_def lastLine_def)

lemma skipBlank_lastLine:
  assumes fl: "fillIfEOB l0 = Inr ((), l)" and l: "lastLine l (b @ u)" and b: "b = [] \<or> b = '' ''" and u: "blankFree u"
  shows "\<exists>l'. skipBlank l0 = Inr ((), l') \<and> lastLine l' u"
proof -
  obtain c u' where c: "u = c # u'" "\<not> isspace c" "c \<noteq> CHR 0x22"
    using u by (auto simp: blankFree_def split: list.splits)
  define l' where "l' = l\<lparr>lx_bufp := lx_bufp l + length b\<rparr>"
  have l': "lastLine l' (c # u')" using lastLine_advance [OF l] c(1) by (simp add: l'_def)
  have bc: "BC l' = Inr (c, l')" by (rule BC_lastLine [OF l'])
  have ws0: "whileM n (bindE BC (\<lambda>c. returnE (isspace c))) m l' = Inr ((), l')" for n m
    by (cases n) (simp_all add: bc c)
  have ws: "skipWhiteSpace l = Inr ((), l')"
  proof (cases "b = []")
    case True
    then show ?thesis using ws0 by (simp add: skipWhiteSpace_def l'_def del: whileM.simps)
  next
    case False
    then have b': "b = '' ''" using b by simp
    have "thenE (advance 1) fillIfEOB l = Inr ((), l')"
      using lastLine_fill [OF l'] by (simp add: advance_def l'_def b')
    moreover have "BC l = Inr (CHR '' '', l)" using BC_lastLine [of l "CHR '' ''" u] l b' by simp
    moreover have "isspace (CHR '' '')" by (simp add: isspace_def char_code_def)
    ultimately show ?thesis using ws0 by (simp add: skipWhiteSpace_def)
  qed
  have "skipComment l' = Inr ((), l')" by (simp add: skipComment_def bc c)
  moreover have "moreBlank l' = Inr (False, l')"
    using l' by (simp add: moreBlank_def bc c lastLine_def EOB_def)
  ultimately have "skipBlank l0 = Inr ((), l')"
    by (simp add: skipBlank_def doWhileM_def fl ws)
  with l' c(1) show ?thesis by blast
qed

lemma symbols_notBlank:
  assumes "map_of single_ops c = Some s \<or> map_of brackets c = Some s"
  shows "\<not> isspace c \<and> c \<noteq> CHR 0x22"
proof -
  have "(c, s) \<in> set single_ops \<union> set brackets" using assms map_of_SomeD by fast
  then show ?thesis by (auto simp: single_ops_def brackets_def isspace_def char_code_def)
qed

lemma showToken_blankFree:
  assumes "tokenText s t"
  shows "blankFree (showToken (s, t) @ v)"
proof (cases "s = STString")
  case True
  then show ?thesis by (simp add: blankFree_def showToken_def isspace_def char_code_def)
next
  case False
  have "\<exists>c t'. t = c # t' \<and> \<not> isspace c \<and> c \<noteq> CHR 0x22"
    using assms
  proof cases
    case identWord then show ?thesis using alpha_not [of "hd t"] by (cases t) (auto simp: identText_def)
  next
    case (keywordWord v) then show ?thesis using alpha_not [of "hd v"] by (cases v) (auto simp: identText_def)
  next
    case (keywordWords v c w) then show ?thesis using alpha_not [of "hd v"] by (cases v) (auto simp: identText_def)
  next
    case number then show ?thesis using digit_not [of "hd t"] by (cases t) auto
  next
    case operators then show ?thesis using op_not [of "hd t"] by (cases t) auto
  next
    case separator then show ?thesis by (cases t) (auto simp: isspace_def char_code_def)
  next
    case (operator c) then show ?thesis using symbols_notBlank by blast
  next
    case (bracket c) then show ?thesis using symbols_notBlank by blast
  qed (use False in \<open>simp_all add: isspace_def char_code_def\<close>)
  with False show ?thesis by (auto simp: blankFree_def showToken_def)
qed

lemma GetSym_lastLine:
  assumes "atLine l (b @ showToken (s, t) @ '' '' @ u)" "b = [] \<or> b = '' ''" "tokenText s t"
  shows "\<exists>l'. GetSym l = Inr (s, l') \<and> lastLine l' ('' '' @ u) \<and> lx_text l' = t"
proof -
  obtain l1 where 1: "skipBlank l = Inr ((), l1)" "lastLine l1 (showToken (s, t) @ '' '' @ u)"
    using assms(1) skipBlank_lastLine [OF _ _ assms(2) showToken_blankFree [OF assms(3)]]
    unfolding atLine_def by blast
  obtain l2 where "scanToken l1 = Inr ((), l2)" "lastLine l2 ('' '' @ u)" "lx_sym l2 = s" "lx_text l2 = t"
    using scanToken_reads [OF assms(3) 1(2)] by (auto simp: reads_def)
  moreover have "\<not> lx_peekDone l" using assms(1) by (simp add: atLine_def)
  ultimately show ?thesis by (simp add: GetSym_def 1(1))
qed

lemma control_classes:
  "\<not> isalpha (CHR 0x0A)" "\<not> isdigit (CHR 0x0A)" "\<not> identChar (CHR 0x0A)" "\<not> ISOP (CHR 0x0A)"
  by (simp_all add: isalpha_def isdigit_def identChar_def ISOP_def char_code_def)

definition control :: "char \<Rightarrow> bool" where
  "control c \<longleftrightarrow> c = CHR 0x00 \<or> c = CHR 0x0A"

lemma control_alpha: "control c \<Longrightarrow> \<not> isalpha c"
  unfolding control_def by (elim disjE) (simp_all add: control_classes)
lemma control_digit: "control c \<Longrightarrow> \<not> isdigit c"
  unfolding control_def by (elim disjE) (simp_all add: control_classes)
lemma control_ident: "control c \<Longrightarrow> \<not> identChar c"
  unfolding control_def by (elim disjE) (simp_all add: control_classes)
lemma control_op: "control c \<Longrightarrow> \<not> ISOP c"
  unfolding control_def by (elim disjE) (simp_all add: control_classes)
lemma control_text: "control c \<Longrightarrow> c \<notin> set ''primitive:=-''"
  unfolding control_def by (elim disjE) simp_all
lemma control_tab: "control c \<Longrightarrow> map_of single_ops c = None \<and> map_of brackets c = None"
  unfolding control_def by (elim disjE) (simp_all add: single_ops_def brackets_def)

lemma list_all_notin: "list_all p t \<Longrightarrow> \<not> p c \<Longrightarrow> c \<notin> set t"
  by (auto simp: list_all_iff)

lemma tokenText_printable:
  assumes ok: "tokenText s t" and c: "control c"
  shows "c \<notin> set t"
proof -
  note no = control_alpha [OF c] control_digit [OF c] control_ident [OF c] control_op [OF c]
  have notIn: "c \<notin> set ''primitive''" "c \<notin> set '':=''" "c \<noteq> CHR '':''" "c \<noteq> CHR ''-''"
    using control_text [OF c] by simp_all
  from ok show ?thesis
  proof cases
    case identWord
    then show ?thesis using list_all_notin [OF identText_props(3) no(3)] by simp
  next
    case (keywordWord v)
    then show ?thesis using list_all_notin [OF identText_props(3) no(3)] notIn by simp
  next
    case (keywordWords v d w)
    moreover have "c \<notin> set w" by (rule list_all_notin [OF keywordWords(6)]) (use no notIn in simp)
    moreover have "c \<noteq> d" using keywordWords(5) no by auto
    ultimately show ?thesis using list_all_notin [OF identText_props(3) no(3), of v] notIn by simp
  next
    case number
    show ?thesis by (rule list_all_notin [OF number(3) no(2)])
  next
    case quoted
    show ?thesis by (rule list_all_notin [OF quoted(2)]) (use c in \<open>auto simp: control_def\<close>)
  next
    case operators
    show ?thesis by (rule list_all_notin [OF operators(2) no(4)])
  next
    case separator
    show ?thesis by (rule list_all_notin [OF separator(2)]) (rule notIn(4))
  next
    case (operator d)
    then show ?thesis using control_tab [OF c] by auto
  next
    case (bracket d)
    then show ?thesis using control_tab [OF c] by auto
  qed (use notIn in simp_all)
qed

lemma tokenText_cstr: "tokenText s t \<Longrightarrow> cstr t = t"
  by (rule cstr_id) (simp add: tokenText_printable control_def)

lemma readTokens_atLine:
  assumes "atLine l (b @ showTokens ts)" "b = [] \<or> b = '' ''" "list_all (\<lambda>(s, t). tokenText s t) ts"
  shows "\<exists>l'. readTokens (length ts) l = Inr (ts, l')"
  using assms
proof (induction ts arbitrary: l b)
  case (Cons x ts)
  obtain s t where x: "x = (s, t)" by (cases x)
  have "atLine l (b @ showToken (s, t) @ '' '' @ showTokens ts)"
    using Cons.prems(1) by (simp add: x showTokens_def)
  moreover have ok: "tokenText s t" using Cons.prems(3) by (simp add: x)
  ultimately obtain l1 where 1: "GetSym l = Inr (s, l1)" "lastLine l1 ('' '' @ showTokens ts)" "lx_text l1 = t"
    using GetSym_lastLine Cons.prems(2) by blast
  obtain l2 where "readTokens (length ts) l1 = Inr (ts, l2)"
    using Cons.IH [of l1 "'' ''"] lastLine_atLine [of l1] 1(2) Cons.prems(3) by auto
  then show ?case by (simp add: x 1 GetText_def tokenText_cstr [OF ok])
qed simp

text \<open>From a fresh lexer the first token reads the line in.\<close>

text \<open>C3. Tokens of a line printed with a blank behind each are read back by GetSym as the same
  tokens with the same texts.\<close>

lemma readTokens_showTokens:
  assumes "list_all (\<lambda>(s, t). tokenText s t) ts"
  shows "\<exists>l. readTokens (length ts) (Lexer_new (showTokens ts)) = Inr (ts, l)"
proof (cases ts)
  case (Cons x xs)
  obtain s t where x: "x = (s, t)" by (cases x)
  have nl: "CHR 0x0A \<notin> set (showTokens ts)"
    using assms tokenText_printable [of _ _ "CHR 0x0A"]
    by (auto simp: showTokens_def showToken_def list_all_iff control_def)
  let ?l = "Lexer_new (showTokens ts)"
  let ?l1 = "?l\<lparr>lx_buf := showTokens ts, lx_rest := [], lx_good := False, lx_line := 1, lx_bufp := 0\<rparr>"
  have tw: "takeWhile (\<lambda>c. c \<noteq> CHR 0x0A) (showTokens ts) = showTokens ts"
    using nl by (auto simp: takeWhile_eq_all_conv)
  have fill: "fillIfEOB ?l = Inr ((), ?l1)"
    using nl by (auto simp: fillIfEOB_def fillBuffer_def EOB_def getline_def Lexer_new_def tw Let_def)
  have "lastLine ?l1 (showTokens ts)" by (simp add: lastLine_def Lexer_new_def)
  with fill have "atLine ?l ([] @ showTokens ts)" by (auto simp: atLine_def Lexer_new_def)
  from readTokens_atLine [OF this _ assms] show ?thesis by simp
qed simp

lemma readTokens_witness:
  "\<exists>l. readTokens 5 (Lexer_new ''at: 42 ---- + [ '') =
     Inr ([(Keyword, ''at:''), (Integer, ''42''), (Separator, ''----''), (Plus, ''+''), (NewBlock, ''['')], l)"
proof -
  let ?ts = "[(Keyword, ''at:''), (Integer, ''42''), (Separator, ''----''), (Plus, ''+''), (NewBlock, ''['')]"
  have "tokenText Keyword (''at'' @ '':'')"
    by (rule keywordWord) (simp_all add: identText_def isalpha_def identChar_def char_code_def PRIMITIVE_def BUFSIZ_def)
  moreover have "tokenText Integer ''42''"
    by (rule number) (simp_all add: isdigit_def char_code_def BUFSIZ_def)
  moreover have "tokenText Separator ''----''" by (rule separator) (simp_all add: BUFSIZ_def)
  moreover have "tokenText Plus ''+''" by (rule operator) (simp add: single_ops_def)
  moreover have "tokenText NewBlock ''[''" by (rule bracket) (simp add: brackets_def)
  ultimately have "list_all (\<lambda>(s, t). tokenText s t) ?ts" by simp
  note run = readTokens_showTokens [OF this]
  have 1: "length ?ts = 5" by simp
  have 2: "showTokens ?ts = ''at: 42 ---- + [ ''" by (simp add: showTokens_def showToken_def)
  show ?thesis using run unfolding 1 2 .
qed

end
