(* ===== verification/CommandLine.thy ===== *)
theory CommandLine
  imports Compiler
begin

text \<open>
  The command line of \<^verbatim>\<open>src/vm/Universe.cpp\<close>: \<^verbatim>\<open>handleArguments\<close>, \<^verbatim>\<open>getClassPathExt\<close>,
  \<^verbatim>\<open>setupClassPath\<close> and \<^verbatim>\<open>addClassPath\<close>. The state is what they set in the universe. The text
  \<^verbatim>\<open>printUsageAndExit\<close> prints is left out.
\<close>

record cmdline =
  g_classPath :: "string list"
  g_dumpBytecodes :: int
  g_gcVerbosity :: int
  g_heapSize :: int
  g_vmArgs :: "string list"

type_synonym 'a cmdM = "(cmdline, 'a) se"

section \<open>Strings\<close>

text \<open>\<^verbatim>\<open>std::string::find_last_of\<close> of one character and \<^verbatim>\<open>find\<close> of a string.\<close>

definition find_last_of :: "string \<Rightarrow> char \<Rightarrow> nat option" where
  "find_last_of s c = map_option (\<lambda>i. length s - 1 - i) (index_of c (rev s))"

fun find_sub :: "string \<Rightarrow> string \<Rightarrow> nat option" where
  "find_sub pat [] = (if pat = [] then Some 0 else None)"
| "find_sub pat (c # cs) = (if prefix pat (c # cs) then Some 0 else map_option Suc (find_sub pat cs))"

text \<open>\<^verbatim>\<open>getline(ss, token, separator)\<close> until it fails: a separator at the end starts no token.\<close>

function split_on :: "char \<Rightarrow> string \<Rightarrow> string list" where
  "split_on sep s =
     (if s = [] then []
      else takeWhile (\<lambda>c. c \<noteq> sep) s # split_on sep (tl (dropWhile (\<lambda>c. c \<noteq> sep) s)))"
  by pat_completeness auto
termination
proof (relation "measure (length \<circ> snd)")
  fix sep :: char and s :: string assume "s \<noteq> []"
  have "length (tl (dropWhile (\<lambda>c. c \<noteq> sep) s)) \<le> length s - 1"
    using length_dropWhile_le [of "\<lambda>c. c \<noteq> sep" s] by (simp only: length_tl diff_le_mono)
  moreover have "length s - 1 < length s" using \<open>s \<noteq> []\<close> by simp
  ultimately have "length (tl (dropWhile (\<lambda>c. c \<noteq> sep) s)) < length s" by (rule le_less_trans)
  then show "((sep, tl (dropWhile (\<lambda>c. c \<noteq> sep) s)), sep, s) \<in> measure (length \<circ> snd)" by simp
qed simp

declare split_on.simps [simp del]

text \<open>\<^verbatim>\<open>atoi\<close>: blanks, a sign, digits; saturating, as the 32-bit \<^verbatim>\<open>strtol\<close> behind it.\<close>

definition atoi :: "string \<Rightarrow> int" where
  "atoi s =
     (let t = dropWhile isspace s;
          neg = (t \<noteq> [] \<and> hd t = CHR ''-'');
          u = (if t \<noteq> [] \<and> (hd t = CHR ''-'' \<or> hd t = CHR ''+'') then tl t else t);
          k = int (digits_value (takeWhile isdigit u)) in
      if neg then max (- 2147483648) (- k) else min 2147483647 k)"

section \<open>The class path\<close>

definition addClassPath :: "string \<Rightarrow> int cmdM" where
  "addClassPath cp =
     thenE (modifyE (\<lambda>g. g\<lparr>g_classPath := g_classPath g @ [cp]\<rparr>)) (returnE ERR_SUCCESS)"

definition setupClassPath :: "string \<Rightarrow> int cmdM" where
  "setupClassPath cp =
     thenE (forE (split_on (CHR '':'') cp) (\<lambda>token. modifyE (\<lambda>g. g\<lparr>g_classPath := g_classPath g @ [token]\<rparr>)))
       (returnE ERR_SUCCESS)"

text \<open>\<^verbatim>\<open>tokens\<close> holds two empty strings when \<^verbatim>\<open>getClassPathExt\<close> is called: the result code, the
  directory and the class name. The first \<^verbatim>\<open>.som\<close> counts, and only behind the last separator.\<close>

definition getClassPathExt :: "string \<Rightarrow> int \<times> string \<times> string" where
  "getClassPathExt arg =
     (let slash = find_last_of arg (CHR ''/'');
          fpIndex = (case slash of None \<Rightarrow> -1 | Some i \<Rightarrow> int i);
          tokens0 = (case slash of None \<Rightarrow> [] | Some i \<Rightarrow> take i arg);
          ssepIndex = (case find_sub ''.som'' arg of
              None \<Rightarrow> int (length arg)
            | Some s \<Rightarrow> if fpIndex < int s then int s - 1 else int (length arg));
          rest = drop (nat (fpIndex + 1)) arg;
          n = ssepIndex - fpIndex in
      (if slash = None then ERR_FAIL else ERR_SUCCESS, tokens0, take (nat n) rest))"

section \<open>The arguments\<close>

definition printUsageAndExit :: "unit cmdM" where
  "printUsageAndExit = throwE (Quit ERR_SUCCESS)"

fun handleLoop :: "string list \<Rightarrow> unit cmdM" where
  "handleLoop [] = returnE ()"
| "handleLoop (a # as) =
     (if prefix ''-cp'' a then
        bindE (getsE (\<lambda>g. g_classPath g \<noteq> [])) (\<lambda>hasPath.
          case as of
            [] \<Rightarrow> printUsageAndExit
          | cp # bs \<Rightarrow>
              if hasPath then printUsageAndExit
              else thenE (setupClassPath cp) (handleLoop bs))
      else if prefix ''-d'' a then
        thenE (modifyE (\<lambda>g. g\<lparr>g_dumpBytecodes := g_dumpBytecodes g + 1\<rparr>)) (handleLoop as)
      else if prefix ''-g'' a then
        thenE (modifyE (\<lambda>g. g\<lparr>g_gcVerbosity := g_gcVerbosity g + 1\<rparr>)) (handleLoop as)
      else if prefix ''-H'' a then
        thenE (modifyE (\<lambda>g. g\<lparr>g_heapSize := atoi (drop 2 a)\<rparr>)) (handleLoop as)
      else if prefix ''-h'' a \<or> prefix ''--help'' a then printUsageAndExit
      else
        let r = getClassPathExt a in
        thenE (whenE (fst r = ERR_SUCCESS) (thenE (addClassPath (fst (snd r))) (returnE ())))
       (thenE (modifyE (\<lambda>g. g\<lparr>g_vmArgs := g_vmArgs g @ [snd (snd r)]\<rparr>)) (handleLoop as)))"

text \<open>\<open>args\<close> is \<^verbatim>\<open>argv[1..]\<close>.\<close>

definition handleArguments :: "string list \<Rightarrow> string list cmdM" where
  "handleArguments args =
     thenE (modifyE (\<lambda>g. g\<lparr>g_dumpBytecodes := 0, g_gcVerbosity := 0, g_vmArgs := []\<rparr>))
    (thenE (handleLoop args)
    (thenE (addClassPath ''.'')
       (getsE g_vmArgs)))"

text \<open>The universe at the start of \<^verbatim>\<open>initialize\<close>.\<close>

definition cmdline0 :: cmdline where
  "cmdline0 = \<lparr>g_classPath = [], g_dumpBytecodes = 0, g_gcVerbosity = 0, g_heapSize = 2 * 1024 * 1024, g_vmArgs = []\<rparr>"

section \<open>Facts\<close>

fun join_with :: "char \<Rightarrow> string list \<Rightarrow> string" where
  "join_with sep [] = []"
| "join_with sep [t] = t"
| "join_with sep (t # ts) = t @ sep # join_with sep ts"

lemma split_on_sep: "t \<in> set (split_on sep s) \<Longrightarrow> sep \<notin> set t"
proof (induction sep s arbitrary: t rule: split_on.induct)
  case (1 sep s)
  show ?case
  proof (cases "s = []")
    case False
    with "1.prems" have "t = takeWhile (\<lambda>c. c \<noteq> sep) s \<or> t \<in> set (split_on sep (tl (dropWhile (\<lambda>c. c \<noteq> sep) s)))"
      by (simp add: split_on.simps [of sep s])
    with "1.IH" [OF False] show ?thesis by (auto dest: set_takeWhileD)
  qed (use "1.prems" in \<open>simp add: split_on.simps\<close>)
qed

lemma find_last_of_Some:
  assumes "find_last_of s c = Some i"
  shows "i < length s \<and> s ! i = c \<and> c \<notin> set (drop (Suc i) s)"
proof -
  obtain j where j: "index_of c (rev s) = Some j" "i = length s - 1 - j"
    using assms by (auto simp: find_last_of_def)
  from index_of_SomeD [OF j(1)] have *: "j < length s" "rev s ! j = c" "c \<notin> set (take j (rev s))" by auto
  then have "take j (rev s) = rev (drop (length s - j) s)" by (simp add: take_rev)
  moreover have "Suc i = length s - j" using j(2) *(1) by simp
  ultimately show ?thesis using * j(2) by (simp add: rev_nth)
qed

lemma find_last_of_None: "find_last_of s c = None \<longleftrightarrow> c \<notin> set s"
  by (simp add: find_last_of_def index_of_None)

lemma find_sub_SomeD:
  "find_sub pat s = Some i \<Longrightarrow> i + length pat \<le> length s \<and> take (length pat) (drop i s) = pat \<and>
     (\<forall>j < i. take (length pat) (drop j s) \<noteq> pat)"
proof (induction s arbitrary: i)
  case Nil
  then show ?case by (auto split: if_splits)
next
  case (Cons c cs)
  show ?case
  proof (cases "prefix pat (c # cs)")
    case True
    then obtain zs where "c # cs = pat @ zs" by (auto simp: prefix_def)
    then have "length pat \<le> length (c # cs)" by (metis length_append le_add1)
    moreover have "take (length pat) (c # cs) = pat" using \<open>c # cs = pat @ zs\<close> by (metis append_eq_conv_conj)
    ultimately show ?thesis using True Cons.prems by simp
  next
    case False
    with Cons.prems obtain k where k: "find_sub pat cs = Some k" "i = Suc k" by auto
    have "take (length pat) (drop j (c # cs)) \<noteq> pat" if "j < i" for j
    proof (cases j)
      case 0
      then show ?thesis using False take_is_prefix [of "length pat" "c # cs"] by auto
    next
      case (Suc m)
      with Cons.IH [OF k(1)] k(2) that show ?thesis by simp
    qed
    with Cons.IH [OF k(1)] k(2) show ?thesis by simp
  qed
qed

lemma addClassPath_run: "addClassPath cp g = Inr (0, g\<lparr>g_classPath := g_classPath g @ [cp]\<rparr>)"
  by (simp add: addClassPath_def ERR_SUCCESS_def)

lemma forE_append:
  "forE ts (\<lambda>t. modifyE (\<lambda>g. g\<lparr>g_classPath := g_classPath g @ [t]\<rparr>)) g = Inr ((), g\<lparr>g_classPath := g_classPath g @ ts\<rparr>)"
  by (induction ts arbitrary: g) simp_all

lemma setupClassPath_run:
  "setupClassPath cp g = Inr (0, g\<lparr>g_classPath := g_classPath g @ split_on (CHR '':'') cp\<rparr>)"
  by (simp add: setupClassPath_def forE_append ERR_SUCCESS_def)

end
