(* ===== verification/CommandLineProperties.thy ===== *)
theory CommandLineProperties
  imports CommandLine
begin

text \<open>The properties of the command line: the class path, class arguments and the order of options.\<close>

section \<open>The class path\<close>

lemma split_on_token:
  assumes "sep \<notin> set t" "t \<noteq> []"
  shows "split_on sep (t @ sep # s) = t # split_on sep s" "split_on sep t = [t]"
proof -
  have "takeWhile (\<lambda>c. c \<noteq> sep) (t @ sep # s) = t" "dropWhile (\<lambda>c. c \<noteq> sep) (t @ sep # s) = sep # s"
    using assms(1) by (auto simp: takeWhile_append dropWhile_append)
  then show "split_on sep (t @ sep # s) = t # split_on sep s" by (simp add: split_on.simps [of sep "t @ sep # s"])
  have "takeWhile (\<lambda>c. c \<noteq> sep) t = t" "dropWhile (\<lambda>c. c \<noteq> sep) t = []"
    using assms(1) by (auto simp: takeWhile_eq_all_conv dropWhile_eq_Nil_conv)
  then show "split_on sep t = [t]"
    using assms(2) by (subst split_on.simps) (simp only: list.sel(2) split_on.simps [of sep "[]"] if_True if_False simp_thms)
qed

lemma split_on_empty: "split_on sep (sep # s) = [] # split_on sep s"
  by (simp add: split_on.simps [of sep "sep # s"])

lemma split_join:
  assumes "\<And>t. t \<in> set ts \<Longrightarrow> sep \<notin> set t" "ts \<noteq> []" "last ts \<noteq> []"
  shows "split_on sep (join_with sep ts) = ts"
  using assms
proof (induction sep ts rule: join_with.induct)
  case (3 sep t u ts)
  then have "split_on sep (join_with sep (u # ts)) = u # ts" by simp
  moreover have "sep \<notin> set t" using 3 by simp
  ultimately show ?case
    by (cases "t = []") (simp_all add: split_on_token(1) split_on_empty)
qed (simp_all add: split_on_token(2))

text \<open>C40. Directories joined by colons are the entries of the class path again, empty ones
  included, unless the last one is empty.\<close>

lemma setupClassPath_join:
  assumes "\<forall>t\<in>set ts. CHR '':'' \<notin> set t" "ts \<noteq> []" "last ts \<noteq> []"
  shows "setupClassPath (join_with (CHR '':'') ts) g = Inr (ERR_SUCCESS, g\<lparr>g_classPath := g_classPath g @ ts\<rparr>)"
  using assms by (simp add: setupClassPath_run split_join ERR_SUCCESS_def)

lemma setupClassPath_join_witness:
  "setupClassPath ''Smalltalk::lib/x'' cmdline0 = Inr (ERR_SUCCESS, cmdline0\<lparr>g_classPath := [''Smalltalk'', [], ''lib/x'']\<rparr>)"
  using setupClassPath_join [of "[''Smalltalk'', [], ''lib/x'']" cmdline0] by (simp add: cmdline0_def)

section \<open>Class arguments\<close>

lemma som_not_early:
  assumes "\<not> prefix ''.som'' (c # cs)"
  shows "\<not> prefix ''.som'' (c # cs @ ''.som'')"
proof (cases cs)
  case (Cons d ds)
  then show ?thesis
  proof (cases ds)
    case (Cons e es)
    with \<open>cs = d # ds\<close> assms show ?thesis by (cases es) auto
  qed (use \<open>cs = d # ds\<close> in simp)
qed simp

lemma find_sub_som: "find_sub ''.som'' s = None \<Longrightarrow> find_sub ''.som'' (s @ ''.som'') = Some (length s)"
proof (induction s)
  case (Cons c cs)
  then have "\<not> prefix ''.som'' (c # cs)" "find_sub ''.som'' cs = None" by (auto split: if_splits)
  with Cons.IH som_not_early [of c cs] show ?case by (simp del: prefix_code Cons_prefix_Cons)
qed simp

lemma getClassPathExt_class:
  assumes "CHR ''/'' \<notin> set name" "find_sub ''.som'' (dir @ ''/'' @ name) = None"
  shows "getClassPathExt (dir @ ''/'' @ name @ ''.som'') = (ERR_SUCCESS, dir, name)"
proof -
  let ?arg = "dir @ ''/'' @ name @ ''.som''"
  have slash: "find_last_of ?arg (CHR ''/'') = Some (length dir)"
  proof -
    have "index_of (CHR ''/'') (rev ?arg) = Some (length name + 4)"
      using assms(1) index_of_append_notin [of "CHR ''/''" "''mos.'' @ rev name" "CHR ''/'' # rev dir"] by simp
    then show ?thesis by (simp add: find_last_of_def)
  qed
  have "find_sub ''.som'' ?arg = Some (length dir + 1 + length name)"
    using find_sub_som [OF assms(2)] by simp
  with slash show ?thesis by (simp add: getClassPathExt_def Let_def nat_add_distrib)
qed

lemma getClassPathExt_class_witness:
  "getClassPathExt ''Examples/Hello.som'' = (ERR_SUCCESS, ''Examples'', ''Hello'')"
  using getClassPathExt_class [of "''Hello''" "''Examples''"] by simp

text \<open>The first \<open>.som\<close> of the argument decides: one in a directory keeps the suffix, one inside the
  name cuts it short.\<close>

lemma getClassPathExt_early_som:
  "getClassPathExt ''a.somlib/Foo.som'' = (ERR_SUCCESS, ''a.somlib'', ''Foo.som'')"
  "getClassPathExt ''b/Foo.something'' = (ERR_SUCCESS, ''b'', ''Foo'')"
  by (simp_all add: getClassPathExt_def find_last_of_def ERR_SUCCESS_def)

section \<open>The options\<close>

lemma handleLoop_step:
  assumes "handleLoop (a # as) g = Inr ((), g')"
  shows "\<exists>bs h ts. length bs < length (a # as) \<and> handleLoop bs h = Inr ((), g') \<and> g_classPath h = g_classPath g @ ts"
proof (cases "prefix ''-cp'' a")
  case True
  with assms obtain cp bs where as: "as = cp # bs" "g_classPath g = []"
    by (auto simp: bindE_def printUsageAndExit_def split: list.splits if_splits)
  with True assms have "handleLoop bs (g\<lparr>g_classPath := split_on (CHR '':'') cp\<rparr>) = Inr ((), g')"
    by (simp add: setupClassPath_run)
  with as show ?thesis by (intro exI [of _ bs]) force
next
  case False
  then have rest: "handleLoop as (g\<lparr>g_dumpBytecodes := g_dumpBytecodes g + 1\<rparr>) = Inr ((), g') \<or>
      handleLoop as (g\<lparr>g_gcVerbosity := g_gcVerbosity g + 1\<rparr>) = Inr ((), g') \<or>
      handleLoop as (g\<lparr>g_heapSize := atoi (drop 2 a)\<rparr>) = Inr ((), g') \<or>
      handleLoop as (g\<lparr>g_classPath := g_classPath g @ [fst (snd (getClassPathExt a))],
         g_vmArgs := g_vmArgs g @ [snd (snd (getClassPathExt a))]\<rparr>) = Inr ((), g') \<or>
      handleLoop as (g\<lparr>g_vmArgs := g_vmArgs g @ [snd (snd (getClassPathExt a))]\<rparr>) = Inr ((), g')"
    using assms by (cases "fst (getClassPathExt a) = ERR_SUCCESS")
      (simp_all add: addClassPath_run printUsageAndExit_def Let_def split: if_splits)
  have 1: ?thesis if "handleLoop as h = Inr ((), g')" "g_classPath h = g_classPath g @ ts" for h ts
    using that by (intro exI [of _ as] exI [of _ h] exI [of _ ts]) simp
  from rest show ?thesis
    by (elim disjE) (erule 1 [where ts = "[]"] 1 [where ts = "[fst (snd (getClassPathExt a))]"]; simp)+
qed

lemma handleLoop_path:
  "handleLoop as g = Inr ((), g') \<Longrightarrow> \<exists>ts. g_classPath g' = g_classPath g @ ts"
proof (induction as arbitrary: g rule: length_induct)
  case (1 as)
  show ?case
  proof (cases as)
    case (Cons a cs)
    with handleLoop_step 1(2) obtain bs h ts where "length bs < length as" "handleLoop bs h = Inr ((), g')"
      "g_classPath h = g_classPath g @ ts" by metis
    with 1(1) show ?thesis by fastforce
  qed (use 1(2) in simp)
qed

lemma handleArguments_path:
  assumes "handleArguments args g = Inr (vmArgs, g')"
  shows "g_vmArgs g' = vmArgs \<and> (\<exists>ts. g_classPath g' = g_classPath g @ ts @ [''.''])"
proof -
  obtain g1 where g1: "handleLoop args (g\<lparr>g_dumpBytecodes := 0, g_gcVerbosity := 0, g_vmArgs := []\<rparr>) = Inr ((), g1)"
    and g': "g' = g1\<lparr>g_classPath := g_classPath g1 @ [''.'']\<rparr>" "vmArgs = g_vmArgs g1"
    using assms by (cases "handleLoop args (g\<lparr>g_dumpBytecodes := 0, g_gcVerbosity := 0, g_vmArgs := []\<rparr>)")
      (auto simp: handleArguments_def thenE_def bindE_def addClassPath_run)
  from handleLoop_path [OF g1] g' show ?thesis by auto
qed


lemma handleArguments_path_witness:
  "\<exists>vmArgs g'. handleArguments [''-cp'', ''Smalltalk'', ''Examples/Hello.som''] cmdline0 = Inr (vmArgs, g') \<and>
     vmArgs = [''Hello''] \<and> g_vmArgs g' = [''Hello''] \<and> (\<exists>ts. g_classPath g' = ts @ [''.''])"
proof -
  have e: "getClassPathExt ''Examples/Hello.som'' = (ERR_SUCCESS, ''Examples'', ''Hello'')"
    using getClassPathExt_class [of "''Hello''" "''Examples''"] by simp
  have s: "split_on (CHR '':'') ''Smalltalk'' = [''Smalltalk'']" by (rule split_on_token(2)) simp_all
  obtain g' where g': "handleArguments [''-cp'', ''Smalltalk'', ''Examples/Hello.som''] cmdline0 = Inr ([''Hello''], g')"
    by (simp add: handleArguments_def setupClassPath_run s e addClassPath_run cmdline0_def Let_def)
  with handleArguments_path [OF g'] show ?thesis by (auto simp: cmdline0_def)
qed

text \<open>A second class path, or one that comes behind a class with a directory, ends the program
  with the usage message, and so does a \<^verbatim>\<open>-cp\<close> without a value.\<close>

lemma handleLoop_cp:
  assumes "g_classPath g \<noteq> [] \<or> as = []"
  shows "handleLoop (''-cp'' # as) g = Inl (Quit ERR_SUCCESS)"
  using assms by (cases as) (auto simp: printUsageAndExit_def)

lemma handleLoop_cp_witness:
  "handleLoop [''-cp'', ''lib''] (cmdline0\<lparr>g_classPath := [''Examples'']\<rparr>) = Inl (Quit ERR_SUCCESS)"
  by (rule handleLoop_cp) simp

end
