(* ===== verification/FrameLaws.thy ===== *)
theory FrameLaws
  imports Interpreter ObjectLaws
begin

text \<open>
  Arrays and frames as data structures: a frame is a stack of bounded room whose content is
  its slots up to the stack pointer. The locale \<open>bounded_stack\<close> is the interface the
  instructions, the primitives and the calls rely on; it is interpreted on the operations of
  \<^verbatim>\<open>VMFrame\<close>, for a fixed frame and for the current frame of the interpreter.
\<close>

section \<open>Arrays\<close>

definition arrayOf :: "vm \<Rightarrow> ptr \<Rightarrow> vmobject option" where
  "arrayOf v p = (case heap v p of None \<Rightarrow> None
     | Some ob \<Rightarrow> if o_kind ob \<in> set arrayKinds \<and> array_size_ok ob then Some ob else None)"

lemma arrayOf_heap: "arrayOf v p = Some ob \<Longrightarrow> heap v p = Some ob \<and> o_kind ob \<in> set arrayKinds \<and> array_size_ok ob"
  by (auto simp: arrayOf_def split: option.splits if_splits)

lemma arrayOf_deref: "arrayOf v p = Some ob \<Longrightarrow> derefAs arrayKinds p v = Inr (ob, v)"
  by (auto simp: derefAs_def deref_def dest: arrayOf_heap)

lemma GetNumberOfIndexableFields_run:
  "arrayOf v p = Some ob \<Longrightarrow> GetNumberOfIndexableFields p v = Inr (int (length (o_slots ob)), v)"
  using arrayOf_heap by (simp add: GetNumberOfIndexableFields_def arrayOf_deref ArrayLength_ok)

lemma ArrayGet_run:
  assumes "arrayOf v p = Some ob"
  shows "ArrayGet p i v =
     (if 0 \<le> i \<and> i < int (length (o_slots ob)) then Inr (o_slots ob ! nat i, v) else Inl (ErrorExit boundsError))"
  using arrayOf_heap [OF assms] by (auto simp: ArrayGet_def arrayOf_deref [OF assms] ArrayLength_ok)

lemma ArraySet_run:
  assumes "arrayOf v p = Some ob"
  shows "ArraySet p i x v =
     (if 0 \<le> i \<and> i < int (length (o_slots ob))
      then Inr ((), v\<lparr>heap := (heap v)(p \<mapsto> ob\<lparr>o_slots := (o_slots ob)[nat i := x]\<rparr>)\<rparr>)
      else Inl (ErrorExit boundsError))"
  using arrayOf_heap [OF assms] by (auto simp: ArraySet_def arrayOf_deref [OF assms] ArrayLength_ok store_def)

lemma array_size_ok_upd [simp]: "array_size_ok (ob\<lparr>o_slots := (o_slots ob)[i := x]\<rparr>) = array_size_ok ob"
  by (simp add: array_size_ok_def)

section \<open>Frames as stacks\<close>

definition frameOf :: "vm \<Rightarrow> ptr \<Rightarrow> vmobject option" where
  "frameOf v f = (case heap v f of None \<Rightarrow> None
     | Some ob \<Rightarrow>
         if o_kind ob = KFrame \<and> o_data ob = NoData \<and> array_size_ok ob \<and> length (o_fields ob) = 7 \<and>
            distinct [o_fields ob ! 4, o_fields ob ! 5, o_fields ob ! 6]
         then Some ob else None)"

lemma frameOf_facts:
  assumes "frameOf v f = Some ob"
  shows "heap v f = Some ob" "o_kind ob = KFrame" "o_data ob = NoData" "array_size_ok ob"
    "length (o_fields ob) = 7" "o_fields ob ! 4 \<noteq> o_fields ob ! 5" "o_fields ob ! 4 \<noteq> o_fields ob ! 6"
    "o_fields ob ! 5 \<noteq> o_fields ob ! 6" "arrayOf v f = Some ob"
  using assms by (auto simp: frameOf_def arrayOf_def arrayKinds_def split: option.splits if_splits)

lemma frameOf_member:
  "frameOf v f = Some ob \<Longrightarrow> i < 7 \<Longrightarrow> getMember [KFrame] i f v = Inr (o_fields ob ! i, v)"
  by (simp add: getMember_def derefAs_def deref_def frameOf_facts)

text \<open>The whole content of a frame as a stack, the top first: temporaries, locals, arguments.\<close>

definition stackOf :: "vm \<Rightarrow> ptr \<Rightarrow> ptr list option" where
  "stackOf v f = (case frameOf v f of None \<Rightarrow> None
     | Some ob \<Rightarrow> (case intOf v (o_fields ob ! 4) of None \<Rightarrow> None
         | Some sp \<Rightarrow> if - 1 \<le> sp \<and> sp < int (length (o_slots ob))
                     then Some (rev (take (nat (sp + 1)) (o_slots ob))) else None))"

definition roomOf :: "vm \<Rightarrow> ptr \<Rightarrow> nat" where
  "roomOf v f = (case (frameOf v f, stackOf v f) of
       (Some ob, Some xs) \<Rightarrow> length (o_slots ob) - length xs | _ \<Rightarrow> 0)"

lemma stackOfE:
  assumes "stackOf v f = Some xs"
  obtains ob where "frameOf v f = Some ob" "intOf v (o_fields ob ! 4) = Some (int (length xs) - 1)"
    "length xs \<le> length (o_slots ob)" "xs = rev (take (length xs) (o_slots ob))"
    "roomOf v f = length (o_slots ob) - length xs"
proof -
  obtain ob sp where f: "frameOf v f = Some ob" "intOf v (o_fields ob ! 4) = Some sp"
    "- 1 \<le> sp" "sp < int (length (o_slots ob))" "xs = rev (take (nat (sp + 1)) (o_slots ob))"
    using assms by (auto simp: stackOf_def split: option.splits if_splits)
  then have "length xs = nat (sp + 1)" by simp
  with f show ?thesis using that [of ob] assms by (simp add: roomOf_def)
qed

lemma stackOfI:
  assumes "frameOf v f = Some ob" "intOf v (o_fields ob ! 4) = Some (int n - 1)" "n \<le> length (o_slots ob)"
  shows "stackOf v f = Some (rev (take n (o_slots ob)))" "roomOf v f = length (o_slots ob) - n"
  using assms by (simp_all add: stackOf_def roomOf_def)

section \<open>What stack operations keep\<close>

text \<open>\<open>keeps S v v'\<close>: the objects that are there keep their layout and their data, but for the
  values of the integers in \<open>S\<close> and the slots of arrays and frames.\<close>

definition keptObject :: "bool \<Rightarrow> vmobject \<Rightarrow> vmobject \<Rightarrow> bool" where
  "keptObject counter a b \<longleftrightarrow>
     o_kind b = o_kind a \<and> o_size b = o_size a \<and> o_fields b = o_fields a \<and>
     length (o_slots b) = length (o_slots a) \<and> (o_kind a \<notin> set arrayKinds \<longrightarrow> o_slots b = o_slots a) \<and>
     (if counter then (\<exists>i j. o_data a = IntData i \<and> o_data b = IntData j) else o_data b = o_data a)"

definition keeps :: "ptr set \<Rightarrow> vm \<Rightarrow> vm \<Rightarrow> bool" where
  "keeps S v v' \<longleftrightarrow> (\<forall>p a. heap v p = Some a \<longrightarrow> (\<exists>b. heap v' p = Some b \<and>
      keptObject (p \<in> S \<and> intOf v p \<noteq> None) a b))"

lemma keptObject_refl: "(counter \<longrightarrow> (\<exists>i. o_data a = IntData i)) \<Longrightarrow> keptObject counter a a"
  by (auto simp: keptObject_def)

lemma intOf_Some: "intOf v p = Some i \<longleftrightarrow> (\<exists>a. heap v p = Some a \<and> o_data a = IntData i)"
  by (auto simp: intOf_def split: option.splits payload.splits)

lemma keeps_refl: "keeps S v v"
  by (auto simp: keeps_def intOf_Some intro!: keptObject_refl)

lemma keeps_int:
  assumes "keeps S v v'"
  shows "intOf v p \<noteq> None \<Longrightarrow> intOf v' p \<noteq> None" and "intOf v p = Some i \<Longrightarrow> p \<notin> S \<Longrightarrow> intOf v' p = Some i"
proof -
  have kept: "\<exists>b. heap v' p = Some b \<and> keptObject (p \<in> S \<and> intOf v p \<noteq> None) a b" if "heap v p = Some a" for a
    using assms that unfolding keeps_def by blast
  show "intOf v' p \<noteq> None" if "intOf v p \<noteq> None"
  proof -
    from that obtain a i where "heap v p = Some a" "o_data a = IntData i" by (auto simp: intOf_Some)
    with kept [OF this(1)] show ?thesis by (fastforce simp: keptObject_def intOf_Some split: if_splits)
  qed
  show "intOf v' p = Some i" if "intOf v p = Some i" "p \<notin> S"
  proof -
    from that obtain a where "heap v p = Some a" "o_data a = IntData i" by (auto simp: intOf_Some)
    with kept [OF this(1)] that show ?thesis by (auto simp: keptObject_def intOf_Some)
  qed
qed

lemma keeps_trans:
  assumes "keeps S u v" "keeps S v w"
  shows "keeps S u w"
  unfolding keeps_def
proof (intro allI impI)
  fix p a assume a: "heap u p = Some a"
  then obtain b where b: "heap v p = Some b" "keptObject (p \<in> S \<and> intOf u p \<noteq> None) a b"
    using assms(1) unfolding keeps_def by blast
  then obtain c where c: "heap w p = Some c" "keptObject (p \<in> S \<and> intOf v p \<noteq> None) b c"
    using assms(2) unfolding keeps_def by blast
  have "intOf u p \<noteq> None \<Longrightarrow> intOf v p \<noteq> None" by (rule keeps_int [OF assms(1)])
  with b c have "keptObject (p \<in> S \<and> intOf u p \<noteq> None) a c"
    using a by (auto simp: keptObject_def intOf_Some split: if_splits)
  with c show "\<exists>c. heap w p = Some c \<and> keptObject (p \<in> S \<and> intOf u p \<noteq> None) a c" by blast
qed

lemma keeps_frame:
  assumes "keeps S v v'" "frameOf v f = Some ob"
  obtains ob' where "frameOf v' f = Some ob'" "o_fields ob' = o_fields ob" "length (o_slots ob') = length (o_slots ob)"
proof -
  note fr = frameOf_facts [OF assms(2)]
  obtain b where b: "heap v' f = Some b" "keptObject (f \<in> S \<and> intOf v f \<noteq> None) ob b"
    using assms(1) fr(1) unfolding keeps_def by blast
  have "intOf v f = None" using fr(1,3) by (simp add: intOf_def)
  with b fr have "frameOf v' f = Some b" by (auto simp: frameOf_def keptObject_def array_size_ok_def)
  with b that show thesis by (simp add: keptObject_def)
qed


lemma keeps_mono: "keeps S v v' \<Longrightarrow> S \<subseteq> T \<Longrightarrow> keeps T v v'"
  unfolding keeps_def
proof (intro allI impI)
  fix p a assume k: "\<forall>p a. heap v p = Some a \<longrightarrow> (\<exists>b. heap v' p = Some b \<and> keptObject (p \<in> S \<and> intOf v p \<noteq> None) a b)"
    and "S \<subseteq> T" and a: "heap v p = Some a"
  then obtain b where "heap v' p = Some b" "keptObject (p \<in> S \<and> intOf v p \<noteq> None) a b" by blast
  moreover from this \<open>S \<subseteq> T\<close> a have "keptObject (p \<in> T \<and> intOf v p \<noteq> None) a b"
    by (auto simp: keptObject_def intOf_Some split: if_splits)
  ultimately show "\<exists>b. heap v' p = Some b \<and> keptObject (p \<in> T \<and> intOf v p \<noteq> None) a b" by blast
qed

lemma keeps_slots:
  assumes "heap v p = Some ob" "o_kind ob \<in> set arrayKinds"
  shows "keeps S v (v\<lparr>heap := (heap v)(p \<mapsto> ob\<lparr>o_slots := (o_slots ob)[i := x]\<rparr>)\<rparr>)"
  using assms by (auto simp: keeps_def keptObject_def intOf_Some)

lemma keeps_intUpd:
  assumes "heap v p = Some ob" "intOf v p \<noteq> None" "p \<in> S"
  shows "keeps S v (v\<lparr>heap := (heap v)(p \<mapsto> ob\<lparr>o_data := IntData i\<rparr>)\<rparr>)"
  using assms by (auto simp: keeps_def keptObject_def intOf_Some)

text \<open>What a stack operation on \<open>f\<close> may change: the slots of the frame and its stack pointer.\<close>

definition frameStep :: "ptr \<Rightarrow> vm \<Rightarrow> vm \<Rightarrow> bool" where
  "frameStep f v v' \<longleftrightarrow> (\<exists>ob h. frameOf v f = Some ob \<and> v' = v\<lparr>heap := h\<rparr> \<and> keeps {o_fields ob ! 4} v v' \<and>
     (\<forall>p. p \<noteq> f \<and> p \<noteq> o_fields ob ! 4 \<longrightarrow> h p = heap v p) \<and>
     (\<forall>p. (h p = None) = (heap v p = None)))"

lemma intOf_upd:
  "intOf (v\<lparr>heap := (heap v)(p \<mapsto> ob)\<rparr>) q = (if q = p then (case o_data ob of IntData i \<Rightarrow> Some i | _ \<Rightarrow> None) else intOf v q)"
  by (simp add: intOf_def)

lemma SetStackPointerValue_run:
  assumes "frameOf v f = Some ob" "intOf v (o_fields ob ! 4) = Some sp"
  shows "\<exists>io. heap v (o_fields ob ! 4) = Some io \<and> f \<noteq> o_fields ob ! 4 \<and> SetStackPointerValue f i v =
     Inr ((), v\<lparr>heap := (heap v)(o_fields ob ! 4 \<mapsto> io\<lparr>o_data := IntData i\<rparr>)\<rparr>)"
proof -
  obtain io where io: "heap v (o_fields ob ! 4) = Some io" "o_data io = IntData sp"
    using assms(2) by (auto simp: intOf_def split: option.splits payload.splits)
  with frameOf_facts(1,3) [OF assms(1)] have "f \<noteq> o_fields ob ! 4" by auto
  with io show ?thesis
    by (simp add: SetStackPointerValue_def frameOf_member [OF assms(1)] SetEmbeddedInteger_def deref_def store_def)
qed

lemma StackPointer_run:
  "frameOf v f = Some ob \<Longrightarrow> intOf v (o_fields ob ! 4) = Some sp \<Longrightarrow> StackPointer f v = Inr (sp, v)"
  by (simp add: StackPointer_def frameOf_member GetEmbeddedInteger_run)

lemma frameOf_upd_other: "p \<noteq> f \<Longrightarrow> frameOf (v\<lparr>heap := (heap v)(p \<mapsto> x)\<rparr>) f = frameOf v f"
  by (simp add: frameOf_def)

lemma frameOf_upd:
  "frameOf v f = Some ob \<Longrightarrow>
     frameOf (v\<lparr>heap := (heap v)(f \<mapsto> ob\<lparr>o_slots := (o_slots ob)[i := x]\<rparr>)\<rparr>) f = Some (ob\<lparr>o_slots := (o_slots ob)[i := x]\<rparr>)"
  by (auto simp: frameOf_def array_size_ok_def split: option.splits if_splits)

lemma Push_run:
  assumes "stackOf v f = Some xs" "0 < roomOf v f"
  shows "\<exists>v'. Push f x v = Inr ((), v') \<and> stackOf v' f = Some (x # xs) \<and> roomOf v' f = roomOf v f - 1 \<and>
     frameStep f v v'"
proof -
  obtain ob where f: "frameOf v f = Some ob" "intOf v (o_fields ob ! 4) = Some (int (length xs) - 1)"
    "length xs \<le> length (o_slots ob)" "xs = rev (take (length xs) (o_slots ob))"
    "roomOf v f = length (o_slots ob) - length xs" by (rule stackOfE [OF assms(1)])
  let ?n = "length xs" and ?sp = "o_fields ob ! 4"
  have n: "?n < length (o_slots ob)" using assms(2) f(5) by simp
  obtain io where io: "heap v ?sp = Some io" "f \<noteq> ?sp"
    "SetStackPointerValue f (int ?n) v = Inr ((), v\<lparr>heap := (heap v)(?sp \<mapsto> io\<lparr>o_data := IntData (int ?n)\<rparr>)\<rparr>)"
    using SetStackPointerValue_run [OF f(1,2)] by blast
  let ?v1 = "v\<lparr>heap := (heap v)(?sp \<mapsto> io\<lparr>o_data := IntData (int ?n)\<rparr>)\<rparr>"
  let ?ob = "ob\<lparr>o_slots := (o_slots ob)[?n := x]\<rparr>"
  let ?v2 = "?v1\<lparr>heap := (heap ?v1)(f \<mapsto> ?ob)\<rparr>"
  have f1: "frameOf ?v1 f = Some ob" using f(1) io(2) by (simp add: frameOf_def)
  have run: "Push f x v = Inr ((), ?v2)"
    using ArraySet_run [OF frameOf_facts(9) [OF f1], of "int ?n" x] n
    by (simp add: Push_def StackPointer_run [OF f(1,2)] Let_def io(3))
  have f2: "frameOf ?v2 f = Some ?ob" by (rule frameOf_upd [OF f1])
  have "intOf ?v2 (o_fields ?ob ! 4) = Some (int (Suc ?n) - 1)" using io(2) by (simp add: intOf_def)
  from stackOfI [OF f2 this] n
  have "stackOf ?v2 f = Some (rev (take (Suc ?n) (o_slots ?ob)))" "roomOf ?v2 f = roomOf v f - 1"
    by (simp_all add: f(5))
  moreover have "rev (take (Suc ?n) (o_slots ?ob)) = x # xs"
    using n f(4) by (simp add: take_Suc_conv_app_nth)
  moreover have "frameStep f v ?v2"
  proof -
    have "keeps {?sp} v ?v1" by (rule keeps_intUpd) (use io f(2) in auto)
    moreover have "keeps {?sp} ?v1 ?v2"
      by (rule keeps_slots) (use frameOf_facts(1,2) [OF f1] in \<open>auto simp: arrayKinds_def\<close>)
    ultimately have "keeps {?sp} v ?v2" by (rule keeps_trans)
    then show ?thesis
      unfolding frameStep_def
      by (intro exI [of _ ob] exI [of _ "heap ?v2"]) (use f(1) io frameOf_facts(1) [OF f(1)] in auto)
  qed
  ultimately show ?thesis using run by metis
qed

lemma Push_full:
  assumes "stackOf v f = Some xs" "roomOf v f = 0"
  shows "Push f x v = Inl (ErrorExit boundsError)"
proof -
  obtain ob where f: "frameOf v f = Some ob" "intOf v (o_fields ob ! 4) = Some (int (length xs) - 1)"
    "length xs \<le> length (o_slots ob)" "roomOf v f = length (o_slots ob) - length xs" by (rule stackOfE [OF assms(1)])
  let ?n = "length xs" and ?sp = "o_fields ob ! 4"
  obtain io where io: "heap v ?sp = Some io" "f \<noteq> ?sp"
    "SetStackPointerValue f (int ?n) v = Inr ((), v\<lparr>heap := (heap v)(?sp \<mapsto> io\<lparr>o_data := IntData (int ?n)\<rparr>)\<rparr>)"
    using SetStackPointerValue_run [OF f(1,2)] by blast
  have "frameOf (v\<lparr>heap := (heap v)(?sp \<mapsto> io\<lparr>o_data := IntData (int ?n)\<rparr>)\<rparr>) f = Some ob"
    using f(1) io(2) by (simp add: frameOf_def)
  from ArraySet_run [OF frameOf_facts(9) [OF this], of "int ?n" x] f assms(2) show ?thesis
    by (simp add: Push_def StackPointer_run [OF f(1,2)] Let_def io(3))
qed

lemma Pop_run:
  assumes "stackOf v f = Some (x # xs)"
  shows "\<exists>v'. Pop f v = Inr (x, v') \<and> stackOf v' f = Some xs \<and> roomOf v' f = roomOf v f + 1 \<and> frameStep f v v'"
proof -
  obtain ob where f: "frameOf v f = Some ob" "intOf v (o_fields ob ! 4) = Some (int (length (x # xs)) - 1)"
    "length (x # xs) \<le> length (o_slots ob)" "x # xs = rev (take (length (x # xs)) (o_slots ob))"
    "roomOf v f = length (o_slots ob) - length (x # xs)" by (rule stackOfE [OF assms(1)])
  let ?n = "length xs" and ?sp = "o_fields ob ! 4"
  have n: "?n < length (o_slots ob)" using f(3) by simp
  have "take (Suc ?n) (o_slots ob) = take ?n (o_slots ob) @ [o_slots ob ! ?n]"
    using n by (simp add: take_Suc_conv_app_nth)
  with f(4) have x: "x = o_slots ob ! ?n" "xs = rev (take ?n (o_slots ob))" by simp_all
  obtain io where io: "heap v ?sp = Some io" "f \<noteq> ?sp"
    "SetStackPointerValue f (int ?n - 1) v = Inr ((), v\<lparr>heap := (heap v)(?sp \<mapsto> io\<lparr>o_data := IntData (int ?n - 1)\<rparr>)\<rparr>)"
    using SetStackPointerValue_run [OF f(1,2)] by blast
  let ?v1 = "v\<lparr>heap := (heap v)(?sp \<mapsto> io\<lparr>o_data := IntData (int ?n - 1)\<rparr>)\<rparr>"
  have f1: "frameOf ?v1 f = Some ob" using f(1) io(2) by (simp add: frameOf_def)
  have "Pop f v = Inr (x, ?v1)"
    using ArrayGet_run [OF frameOf_facts(9) [OF f1], of "int ?n"] n x(1)
    by (simp add: Pop_def StackPointer_run [OF f(1,2)] io(3))
  moreover have "intOf ?v1 (o_fields ob ! 4) = Some (int ?n - 1)" by (simp add: intOf_def)
  from stackOfI [OF f1 this] n x(2) have "stackOf ?v1 f = Some xs" "roomOf ?v1 f = roomOf v f + 1"
    by (simp_all add: f(5))
  moreover have "frameStep f v ?v1"
  proof -
    have "keeps {?sp} v ?v1" by (rule keeps_intUpd) (use io f(2) in auto)
    then show ?thesis
      unfolding frameStep_def by (intro exI [of _ ob] exI [of _ "heap ?v1"]) (use f(1) io in auto)
  qed
  ultimately show ?thesis by blast
qed

lemma Pop_empty:
  assumes "stackOf v f = Some []"
  shows "Pop f v = Inl (ErrorExit boundsError)"
proof -
  obtain ob where f: "frameOf v f = Some ob" "intOf v (o_fields ob ! 4) = Some (int 0 - 1)"
    by (rule stackOfE [OF assms(1)]) simp
  let ?sp = "o_fields ob ! 4"
  obtain io where io: "heap v ?sp = Some io" "f \<noteq> ?sp"
    "SetStackPointerValue f (- 2) v = Inr ((), v\<lparr>heap := (heap v)(?sp \<mapsto> io\<lparr>o_data := IntData (- 2)\<rparr>)\<rparr>)"
    using SetStackPointerValue_run [OF f(1,2)] by blast
  have "frameOf (v\<lparr>heap := (heap v)(?sp \<mapsto> io\<lparr>o_data := IntData (- 2)\<rparr>)\<rparr>) f = Some ob"
    using f(1) io(2) by (simp add: frameOf_def)
  from ArrayGet_run [OF frameOf_facts(9) [OF this]] show ?thesis
    using StackPointer_run [OF f(1,2)] by (simp add: Pop_def io(3))
qed

lemma GetStackElement_run:
  assumes "stackOf v f = Some xs" "i < length xs"
  shows "GetStackElement f (int i) v = Inr (xs ! i, v)"
proof -
  obtain ob where f: "frameOf v f = Some ob" "intOf v (o_fields ob ! 4) = Some (int (length xs) - 1)"
    "length xs \<le> length (o_slots ob)" "xs = rev (take (length xs) (o_slots ob))"
    by (rule stackOfE [OF assms(1)])
  define n where "n = length xs"
  define ys where "ys = take n (o_slots ob)"
  have xs: "xs = rev ys" and ly: "length ys = n" using f(3,4) by (simp_all add: n_def ys_def)
  have i: "i < n" using assms(2) by (simp add: n_def)
  have "nat (int (length xs) - 1 - int i) = n - Suc i" using i n_def by linarith
  moreover have "xs ! i = ys ! (n - Suc i)" using i ly by (simp add: xs rev_nth)
  moreover have "ys ! (n - Suc i) = o_slots ob ! (n - Suc i)" using i by (simp add: ys_def)
  ultimately have "xs ! i = o_slots ob ! nat (int (length xs) - 1 - int i)" by simp
  then show ?thesis
    using ArrayGet_run [OF frameOf_facts(9) [OF f(1)], of "int (length xs) - 1 - int i"] assms(2) f(3)
    by (simp add: GetStackElement_def StackPointer_run [OF f(1,2)])
qed

lemma RemainingStackSize_run:
  assumes "stackOf v f = Some xs"
  shows "RemainingStackSize f v = Inr (int (roomOf v f), v)"
proof -
  obtain ob where f: "frameOf v f = Some ob" "intOf v (o_fields ob ! 4) = Some (int (length xs) - 1)"
    "length xs \<le> length (o_slots ob)" "roomOf v f = length (o_slots ob) - length xs"
    by (rule stackOfE [OF assms(1)])
  then show ?thesis
    using GetNumberOfIndexableFields_run [OF frameOf_facts(9) [OF f(1)]]
    by (simp add: RemainingStackSize_def StackPointer_run [OF f(1,2)])
qed


lemma frameStep_refl: "frameOf v f = Some ob \<Longrightarrow> frameStep f v v"
  unfolding frameStep_def by (intro exI [of _ ob] exI [of _ "heap v"]) (simp add: keeps_refl)

lemma frameStep_frame:
  assumes "frameStep f v v'" "frameOf v f = Some ob"
  obtains ob' where "frameOf v' f = Some ob'" "o_fields ob' = o_fields ob" "length (o_slots ob') = length (o_slots ob)"
proof -
  have "keeps {o_fields ob ! 4} v v'" using assms by (auto simp: frameStep_def)
  from keeps_frame [OF this assms(2)] that show thesis by blast
qed

lemma frameStep_trans:
  assumes "frameStep f u v" "frameStep f v w"
  shows "frameStep f u w"
proof -
  obtain a h where 1: "frameOf u f = Some a" "v = u\<lparr>heap := h\<rparr>" "keeps {o_fields a ! 4} u v"
    "\<forall>p. p \<noteq> f \<and> p \<noteq> o_fields a ! 4 \<longrightarrow> h p = heap u p" "\<forall>p. (h p = None) = (heap u p = None)"
    using assms(1) unfolding frameStep_def by blast
  obtain b k where 2: "frameOf v f = Some b" "w = v\<lparr>heap := k\<rparr>" "keeps {o_fields b ! 4} v w"
    "\<forall>p. p \<noteq> f \<and> p \<noteq> o_fields b ! 4 \<longrightarrow> k p = heap v p" "\<forall>p. (k p = None) = (heap v p = None)"
    using assms(2) unfolding frameStep_def by blast
  have b: "o_fields b = o_fields a" using frameStep_frame [OF assms(1) 1(1)] 2(1) by auto
  have "keeps {o_fields a ! 4} u w" using 1(3) 2(3) unfolding b by (rule keeps_trans)
  with 1 2 b show ?thesis
    unfolding frameStep_def by (intro exI [of _ a] exI [of _ k]) auto
qed

lemma frameStep_other:
  assumes "frameStep f v v'" "frameOf v f = Some ob" "p \<noteq> f" "p \<noteq> o_fields ob ! 4"
  shows "heap v' p = heap v p"
  using assms by (auto simp: frameStep_def)

lemma frameStep_curFrame: "frameStep f v v' \<Longrightarrow> curFrame v' = curFrame v"
  by (auto simp: frameStep_def)

lemma stackOf_frameStep_refl: "stackOf v f = Some xs \<Longrightarrow> frameStep f v v"
  by (erule stackOfE) (rule frameStep_refl)

section \<open>The interface of a bounded stack\<close>

locale bounded_stack =
  fixes push :: "'x \<Rightarrow> ('s, unit) se"
    and pop :: "('s, 'x) se"
    and content :: "'s \<Rightarrow> 'x list option"
    and room :: "'s \<Rightarrow> nat"
    and within :: "'s \<Rightarrow> 's \<Rightarrow> bool"
  assumes push_room: "content s = Some xs \<Longrightarrow> 0 < room s \<Longrightarrow>
        \<exists>s'. push x s = Inr ((), s') \<and> content s' = Some (x # xs) \<and> room s' = room s - 1 \<and> within s s'"
    and push_no_room: "content s = Some xs \<Longrightarrow> room s = 0 \<Longrightarrow> push x s = Inl (ErrorExit boundsError)"
    and pop_top: "content s = Some (x # xs) \<Longrightarrow>
        \<exists>s'. pop s = Inr (x, s') \<and> content s' = Some xs \<and> room s' = room s + 1 \<and> within s s'"
    and pop_none: "content s = Some [] \<Longrightarrow> pop s = Inl (ErrorExit boundsError)"
    and within_refl: "content s = Some xs \<Longrightarrow> within s s"
    and within_trans: "within s t \<Longrightarrow> within t u \<Longrightarrow> within s u"
begin

lemma push_pop:
  assumes "content s = Some xs" "0 < room s"
  shows "\<exists>s'. bindE (push x) (\<lambda>_. pop) s = Inr (x, s') \<and> content s' = Some xs \<and> room s' = room s \<and> within s s'"
proof -
  obtain s1 where 1: "push x s = Inr ((), s1)" "content s1 = Some (x # xs)" "room s1 = room s - 1" "within s s1"
    using push_room [OF assms] by blast
  obtain s2 where "pop s1 = Inr (x, s2)" "content s2 = Some xs" "room s2 = room s1 + 1" "within s1 s2"
    using pop_top [OF 1(2)] by blast
  with 1 assms(2) within_trans [OF 1(4)] show ?thesis by simp
qed

lemma push_all:
  "content s = Some xs \<Longrightarrow> length ys \<le> room s \<Longrightarrow>
     \<exists>s'. forE ys push s = Inr ((), s') \<and> content s' = Some (rev ys @ xs) \<and>
       room s' = room s - length ys \<and> within s s'"
proof (induction ys arbitrary: s xs)
  case Nil
  then show ?case by (simp add: within_refl)
next
  case (Cons y ys)
  then have "0 < room s" by simp
  from push_room [OF Cons.prems(1) this, of y] obtain s1 where
    1: "push y s = Inr ((), s1)" "content s1 = Some (y # xs)" "room s1 = room s - 1" "within s s1" by blast
  have "length ys \<le> room s1" using Cons.prems(2) 1(3) by simp
  from Cons.IH [OF 1(2) this] obtain s2 where
    "forE ys push s1 = Inr ((), s2)" "content s2 = Some (rev ys @ y # xs)" "room s2 = room s1 - length ys" "within s1 s2"
    by blast
  with 1 within_trans [OF 1(4)] show ?case by simp
qed

lemma push_all_overflow:
  "content s = Some xs \<Longrightarrow> room s < length ys \<Longrightarrow> forE ys push s = Inl (ErrorExit boundsError)"
proof (induction ys arbitrary: s xs)
  case (Cons y ys)
  show ?case
  proof (cases "room s = 0")
    case True
    with push_no_room [OF Cons.prems(1)] show ?thesis by simp
  next
    case False
    with push_room [OF Cons.prems(1), of y] obtain s1 where
      "push y s = Inr ((), s1)" "content s1 = Some (y # xs)" "room s1 = room s - 1" by blast
    with Cons False show ?thesis by simp
  qed
qed simp

lemma pop_many:
  "content s = Some (ys @ xs) \<Longrightarrow> length js = length ys \<Longrightarrow>
     \<exists>s'. forE js (\<lambda>_. thenE pop (returnE ())) s = Inr ((), s') \<and> content s' = Some xs \<and>
       room s' = room s + length ys \<and> within s s'"
proof (induction ys arbitrary: s js)
  case Nil
  then show ?case by (simp add: within_refl)
next
  case (Cons y ys)
  then obtain j ks where js: "js = j # ks" "length ks = length ys" by (cases js) auto
  from pop_top [of s y "ys @ xs"] Cons.prems(1) obtain s1 where
    1: "pop s = Inr (y, s1)" "content s1 = Some (ys @ xs)" "room s1 = room s + 1" "within s s1" by auto
  from Cons.IH [OF 1(2) js(2)] obtain s2 where
    "forE ks (\<lambda>_. thenE pop (returnE ())) s1 = Inr ((), s2)" "content s2 = Some xs"
    "room s2 = room s1 + length ys" "within s1 s2" by blast
  moreover have "thenE pop (returnE ()) s = Inr ((), s1)" using 1(1) by simp
  ultimately show ?case
    using 1(3) within_trans [OF 1(4)] by (simp add: js(1) del: returnE_run)
qed

end

interpretation frame_stack: bounded_stack "Push f" "Pop f" "\<lambda>v. stackOf v f" "\<lambda>v. roomOf v f" "frameStep f" for f
  by unfold_locales
    (rule Push_run Push_full Pop_run Pop_empty stackOf_frameStep_refl frameStep_trans; assumption)+

interpretation current_stack: bounded_stack "\<lambda>x. bindE GetFrame (\<lambda>f. Push f x)" "bindE GetFrame Pop"
    "\<lambda>v. stackOf v (curFrame v)" "\<lambda>v. roomOf v (curFrame v)" "\<lambda>v v'. frameStep (curFrame v) v v'"
proof
  fix s :: vm and xs x
  assume "stackOf s (curFrame s) = Some xs" "0 < roomOf s (curFrame s)"
  from Push_run [OF this, of x] show "\<exists>s'. bindE GetFrame (\<lambda>f. Push f x) s = Inr ((), s') \<and>
      stackOf s' (curFrame s') = Some (x # xs) \<and> roomOf s' (curFrame s') = roomOf s (curFrame s) - 1 \<and>
      frameStep (curFrame s) s s'"
    by (auto simp: GetFrame_def frameStep_curFrame)
next
  fix s :: vm and xs x
  assume "stackOf s (curFrame s) = Some (x # xs)"
  from Pop_run [OF this] show "\<exists>s'. bindE GetFrame Pop s = Inr (x, s') \<and>
      stackOf s' (curFrame s') = Some xs \<and> roomOf s' (curFrame s') = roomOf s (curFrame s) + 1 \<and>
      frameStep (curFrame s) s s'"
    by (auto simp: GetFrame_def frameStep_curFrame)
qed (auto simp: GetFrame_def frameStep_curFrame intro: Push_full Pop_empty stackOf_frameStep_refl frameStep_trans)

end
