(* ===== verification/Activation.thy ===== *)
theory Activation
  imports FrameLaws Assembly
begin

text \<open>
  A frame that runs a verified method. \<open>keeps S v v'\<close> is what every instruction keeps of the
  objects that are there: their layout, the slots of methods, and all data but the values of
  the integers in \<open>S\<close>, the stack pointer and the bytecode index of the running frame.
\<close>

text \<open>The integers a method reads its sizes from.\<close>

definition methodInts :: "vmobject \<Rightarrow> ptr set" where
  "methodInts mo = {o_fields mo ! 3, o_fields mo ! 4, o_fields mo ! 6, o_fields mo ! 7}"

lemma keeps_method:
  assumes "keeps S v v'" "heap v m = Some mo" "o_kind mo = KMethod" "methodInts mo \<inter> S = {}"
    "methodParts v m = Some x"
  shows "methodParts v' m = Some x \<and> (\<exists>mo'. heap v' m = Some mo' \<and> o_kind mo' = KMethod \<and> o_fields mo' = o_fields mo)"
proof -
  obtain code nl na ms where parts: "length (o_fields mo) = 8" "o_data mo = CodeData code"
    "intOf v (o_fields mo ! 3) = Some nl" "intOf v (o_fields mo ! 6) = Some na" "intOf v (o_fields mo ! 4) = Some ms"
    "intOf v (o_fields mo ! 7) = Some (int (length (o_slots mo)))" "0 \<le> nl" "0 \<le> na"
    "x = (code, o_slots mo, nat nl, nat na, ms)"
    using assms(2,5) unfolding methodParts_def by (auto split: option.splits if_splits payload.splits)
  obtain b where b: "heap v' m = Some b" "keptObject (m \<in> S \<and> intOf v m \<noteq> None) mo b"
    using assms(1,2) unfolding keeps_def by blast
  have "intOf v m = None" using assms(2) parts(2) by (simp add: intOf_def)
  with b(2) assms(3) have "o_kind b = KMethod" "o_fields b = o_fields mo" "o_slots b = o_slots mo" "o_data b = o_data mo"
    by (auto simp: keptObject_def arrayKinds_def)
  with parts b(1) assms(4) keeps_int(2) [OF assms(1)] show ?thesis
    by (simp add: methodParts_def methodInts_def)
qed

section \<open>Contexts\<close>

text \<open>The frames of the chain of contexts a block runs in have room for the locals and the
  arguments the compiler counted, and find their locals behind their arguments.\<close>

fun contexts :: "ptr set \<Rightarrow> vm \<Rightarrow> ptr \<Rightarrow> env \<Rightarrow> bool" where
  "contexts S v f [] = True"
| "contexts S v f ((nl, na) # env) =
     (case frameOf v f of None \<Rightarrow> False
      | Some ob \<Rightarrow> na + nl \<le> length (o_slots ob) \<and> intOf v (o_fields ob ! 6) = Some (int na) \<and>
          o_fields ob ! 6 \<notin> S \<and> contexts S v (o_fields ob ! 2) env)"

lemma keeps_contexts: "keeps S v v' \<Longrightarrow> contexts S v f env \<Longrightarrow> contexts S v' f env"
proof (induction S v f env rule: contexts.induct)
  case (2 S v f nl na env)
  from 2(3) obtain ob where ob: "frameOf v f = Some ob" by (auto split: option.splits)
  obtain ob' where ob': "frameOf v' f = Some ob'" "o_fields ob' = o_fields ob" "length (o_slots ob') = length (o_slots ob)"
    by (rule keeps_frame [OF 2(2) ob])
  from 2(1) [OF ob 2(2)] 2(3) ob ob' keeps_int(2) [OF 2(2)] show ?case by simp
qed simp

text \<open>The frames of the chain.\<close>

fun chainFrames :: "vm \<Rightarrow> ptr \<Rightarrow> env \<Rightarrow> ptr set" where
  "chainFrames v f [] = {}"
| "chainFrames v f (x # env) =
     insert f (case frameOf v f of None \<Rightarrow> {} | Some ob \<Rightarrow> chainFrames v (o_fields ob ! 2) env)"

lemma keeps_chainFrames: "keeps S v v' \<Longrightarrow> contexts S v f env \<Longrightarrow> chainFrames v' f env = chainFrames v f env"
proof (induction S v f env rule: contexts.induct)
  case (2 S v f nl na env)
  from 2(3) obtain ob where ob: "frameOf v f = Some ob" by (auto split: option.splits)
  obtain ob' where ob': "frameOf v' f = Some ob'" "o_fields ob' = o_fields ob"
    by (rule keeps_frame [OF 2(2) ob])
  from 2(1) [OF ob 2(2)] 2(3) ob ob' show ?case by simp
qed simp

lemma contexts_level:
  "contexts S v f env \<Longrightarrow> b < length env \<Longrightarrow>
     \<exists>g ob. GetContextLevel b f v = Inr (g, v) \<and> g \<in> chainFrames v f env \<and> frameOf v g = Some ob \<and>
       fst (env ! b) + snd (env ! b) \<le> length (o_slots ob) \<and>
       intOf v (o_fields ob ! 6) = Some (int (snd (env ! b)))"
proof (induction b arbitrary: f env)
  case 0
  then show ?case by (cases env) (auto split: option.splits)
next
  case (Suc b)
  then obtain nl na rest where env: "env = (nl, na) # rest" by (cases env) auto
  with Suc.prems obtain ob where ob: "frameOf v f = Some ob" "contexts S v (o_fields ob ! 2) rest"
    by (auto split: option.splits)
  have "GetContext f v = Inr (o_fields ob ! 2, v)" by (simp add: GetContext_def frameOf_member [OF ob(1)])
  with Suc.IH [OF ob(2)] Suc.prems(2) env ob(1) show ?case by auto
qed

section \<open>Running frames\<close>

definition counters :: "vmobject \<Rightarrow> ptr set" where
  "counters ob = {o_fields ob ! 4, o_fields ob ! 5}"

text \<open>Frame \<open>f\<close> runs a method with this code, these literals and this stack size in the
  environment; it stands at index \<open>i\<close> with \<open>d\<close> values on its evaluation stack.\<close>

definition running :: "vm \<Rightarrow> ptr \<Rightarrow> env \<Rightarrow> u8 list \<Rightarrow> ptr list \<Rightarrow> nat \<Rightarrow> nat \<Rightarrow> nat \<Rightarrow> bool" where
  "running v f env code lits ms i d \<longleftrightarrow>
     (case (frameOf v f, stackOf v f) of
        (Some ob, Some xs) \<Rightarrow>
          (case (heap v (o_fields ob ! 3), env) of
             (Some mo, (nl, na) # outer) \<Rightarrow>
               contexts (counters ob) v f env \<and>
               length xs = na + nl + d \<and> length (o_slots ob) = na + nl + ms \<and>
               methodParts v (o_fields ob ! 3) = Some (code, lits, nl, na, int ms) \<and>
               methodInts mo \<inter> counters ob = {} \<and>
               intOf v (o_fields ob ! 5) = Some (int i)
           | _ \<Rightarrow> False)
      | _ \<Rightarrow> False)"

lemma runningE:
  assumes "running v f env code lits ms i d"
  obtains ob xs mo nl na outer where "frameOf v f = Some ob" "stackOf v f = Some xs" "heap v (o_fields ob ! 3) = Some mo"
    "env = (nl, na) # outer" "contexts (counters ob) v f env" "length xs = na + nl + d"
    "length (o_slots ob) = na + nl + ms" "methodParts v (o_fields ob ! 3) = Some (code, lits, nl, na, int ms)"
    "methodInts mo \<inter> counters ob = {}"
    "intOf v (o_fields ob ! 5) = Some (int i)"
  using assms unfolding running_def by (auto split: option.splits list.splits prod.splits)

lemma methodParts_kind: "methodParts v m = Some x \<Longrightarrow> heap v m = Some mo \<Longrightarrow> o_kind mo = KMethod"
  by (auto simp: methodParts_def split: option.splits if_splits payload.splits)

text \<open>Depth and index after a step that keeps the objects.\<close>

lemma running_step:
  assumes "running v f env code lits ms i d" "frameOf v f = Some ob" "keeps (counters ob) v v'"
    "stackOf v f = Some xs" "stackOf v' f = Some xs'" "length xs' + d = length xs + d'"
    "intOf v' (o_fields ob ! 5) = Some (int i')"
  shows "running v' f env code lits ms i' d'"
proof -
  obtain ob2 xs2 mo nl na outer where q: "frameOf v f = Some ob2" "stackOf v f = Some xs2"
    and q': "heap v (o_fields ob2 ! 3) = Some mo"
    "env = (nl, na) # outer" "contexts (counters ob2) v f env" "length xs2 = na + nl + d"
    "length (o_slots ob2) = na + nl + ms" "methodParts v (o_fields ob2 ! 3) = Some (code, lits, nl, na, int ms)"
    "methodInts mo \<inter> counters ob2 = {}"
    by (rule runningE [OF assms(1)])
  have "ob2 = ob" "xs2 = xs" using q assms(2,4) by simp_all
  note r = q' [unfolded this]
  obtain ob' where ob': "frameOf v' f = Some ob'" "o_fields ob' = o_fields ob" "length (o_slots ob') = length (o_slots ob)"
    by (rule keeps_frame [OF assms(3,2)])
  have m: "methodParts v' (o_fields ob ! 3) = Some (code, lits, nl, na, int ms) \<and>
      (\<exists>mo'. heap v' (o_fields ob ! 3) = Some mo' \<and> o_kind mo' = KMethod \<and> o_fields mo' = o_fields mo)"
    by (rule keeps_method [OF assms(3) r(1) methodParts_kind [OF r(6,1)] r(7,6)])
  have "contexts (counters ob) v' f env" by (rule keeps_contexts [OF assms(3) r(3)])
  moreover have "counters ob' = counters ob" using ob'(2) by (simp add: counters_def)
  moreover obtain mo' where "heap v' (o_fields ob ! 3) = Some mo'" "o_fields mo' = o_fields mo" using m by blast
  moreover have "length xs' = na + nl + d'" using r(4) assms(6) by linarith
  ultimately show ?thesis
    using r(2,5,7) m ob' assms(5,7) unfolding running_def by (simp add: methodInts_def)
qed


text \<open>What an instruction may change: the slots of the frames of the chain, the stack pointer and
  the bytecode index of the frame it runs in.\<close>

definition moves :: "ptr \<Rightarrow> env \<Rightarrow> vm \<Rightarrow> vm \<Rightarrow> bool" where
  "moves f env v v' \<longleftrightarrow> (\<exists>ob h. frameOf v f = Some ob \<and> v' = v\<lparr>heap := h\<rparr> \<and> keeps (counters ob) v v' \<and>
     (\<forall>p. p \<notin> chainFrames v f env \<union> counters ob \<longrightarrow> h p = heap v p) \<and>
     (\<forall>p. (h p = None) = (heap v p = None)))"

lemma moves_refl: "running v f env code lits ms i d \<Longrightarrow> moves f env v v"
proof -
  assume "running v f env code lits ms i d"
  then obtain ob where "frameOf v f = Some ob" by (rule runningE)
  then show ?thesis
    unfolding moves_def by (intro exI [of _ ob] exI [of _ "heap v"]) (simp add: keeps_refl)
qed

lemma moves_curFrame: "moves f env v v' \<Longrightarrow> curFrame v' = curFrame v"
  by (auto simp: moves_def)

lemma moves_trans:
  assumes "running u f env code lits ms i d" "moves f env u v" "moves f env v w"
  shows "moves f env u w"
proof -
  obtain a h where 1: "frameOf u f = Some a" "v = u\<lparr>heap := h\<rparr>" "keeps (counters a) u v"
    "\<forall>p. p \<notin> chainFrames u f env \<union> counters a \<longrightarrow> h p = heap u p" "\<forall>p. (h p = None) = (heap u p = None)"
    using assms(2) unfolding moves_def by blast
  obtain b k where 2: "frameOf v f = Some b" "w = v\<lparr>heap := k\<rparr>" "keeps (counters b) v w"
    "\<forall>p. p \<notin> chainFrames v f env \<union> counters b \<longrightarrow> k p = heap v p" "\<forall>p. (k p = None) = (heap v p = None)"
    using assms(3) unfolding moves_def by blast
  obtain a2 where "frameOf u f = Some a2" "contexts (counters a2) u f env" by (rule runningE [OF assms(1)])
  then have "contexts (counters a) u f env" using 1(1) by simp
  with 1(3) have ch: "chainFrames v f env = chainFrames u f env" by (rule keeps_chainFrames)
  obtain b2 where "frameOf v f = Some b2" "o_fields b2 = o_fields a" by (rule keeps_frame [OF 1(3,1)])
  then have cs: "counters b = counters a" using 2(1) by (simp add: counters_def)
  have "keeps (counters a) u w" using 1(3) 2(3) unfolding cs by (rule keeps_trans)
  with 1 2 ch cs show ?thesis
    unfolding moves_def by (intro exI [of _ a] exI [of _ k]) auto
qed

section \<open>The stack and the variables of a running frame\<close>

lemma frameStep_keeps:
  assumes "frameStep f v v'" "frameOf v f = Some ob"
  shows "keeps (counters ob) v v'"
proof -
  have "keeps {o_fields ob ! 4} v v'" using assms by (auto simp: frameStep_def)
  then show ?thesis by (rule keeps_mono) (simp add: counters_def)
qed

lemma running_frameStep:
  assumes "running v f env code lits ms i d" "frameStep f v v'" "stackOf v f = Some xs"
    "stackOf v' f = Some xs'" "length xs' + d = length xs + d'"
  shows "running v' f env code lits ms i d'"
proof -
  obtain ob where ob: "frameOf v f = Some ob" "intOf v (o_fields ob ! 5) = Some (int i)"
    by (rule runningE [OF assms(1)])
  have "f \<noteq> o_fields ob ! 5"
    using ob(2) frameOf_facts(1,3) [OF ob(1)] by (auto simp: intOf_def)
  moreover have "o_fields ob ! 5 \<noteq> o_fields ob ! 4" using frameOf_facts(6) [OF ob(1)] by simp
  ultimately have "heap v' (o_fields ob ! 5) = heap v (o_fields ob ! 5)"
    using frameStep_other [OF assms(2) ob(1)] by simp
  with ob(2) have "intOf v' (o_fields ob ! 5) = Some (int i)" by (simp add: intOf_def)
  from running_step [OF assms(1) ob(1) frameStep_keeps [OF assms(2) ob(1)] assms(3,4,5) this]
  show ?thesis .
qed

lemma running_stack:
  assumes "running v f env code lits ms i d"
  obtains xs where "stackOf v f = Some xs" "length xs = snd (hd env) + fst (hd env) + d" "env \<noteq> []" "roomOf v f = ms - d"
proof -
  obtain ob xs nl na outer where r: "frameOf v f = Some ob" "stackOf v f = Some xs" "env = (nl, na) # outer"
    "length xs = na + nl + d" "length (o_slots ob) = na + nl + ms"
    by (rule runningE [OF assms])
  then have "roomOf v f = ms - d" by (simp add: roomOf_def)
  with r that show thesis by simp
qed

lemma moves_frameStep:
  assumes "running v f env code lits ms i d" "frameStep f v v'"
  shows "moves f env v v'"
proof -
  obtain ob nl na outer where ob: "frameOf v f = Some ob" "env = (nl, na) # outer" by (rule runningE [OF assms(1)])
  obtain h where h: "v' = v\<lparr>heap := h\<rparr>" "\<forall>p. p \<noteq> f \<and> p \<noteq> o_fields ob ! 4 \<longrightarrow> h p = heap v p"
    "\<forall>p. (h p = None) = (heap v p = None)"
    using assms(2) ob(1) unfolding frameStep_def by auto
  with ob frameStep_keeps [OF assms(2) ob(1)] show ?thesis
    unfolding moves_def by (intro exI [of _ ob] exI [of _ h]) (auto simp: counters_def)
qed

lemma running_Push:
  assumes "running v f env code lits ms i d" "d < ms"
  shows "\<exists>v'. Push f x v = Inr ((), v') \<and> running v' f env code lits ms i (d + 1) \<and> moves f env v v' \<and>
     stackOf v' f = map_option ((#) x) (stackOf v f)"
proof -
  obtain xs where xs: "stackOf v f = Some xs" "roomOf v f = ms - d" by (rule running_stack [OF assms(1)])
  with assms(2) frame_stack.push_room [of v f xs x] obtain v' where v': "Push f x v = Inr ((), v')"
    "stackOf v' f = Some (x # xs)" "frameStep f v v'" by auto
  with running_frameStep [OF assms(1) v'(3) xs(1) v'(2), of "d + 1"] moves_frameStep [OF assms(1) v'(3)] xs(1)
  show ?thesis by auto
qed

lemma running_Pop:
  assumes "running v f env code lits ms i d" "1 \<le> d"
  shows "\<exists>x v'. Pop f v = Inr (x, v') \<and> running v' f env code lits ms i (d - 1) \<and> moves f env v v' \<and>
     stackOf v f = map_option ((#) x) (stackOf v' f)"
proof -
  obtain xs where xs: "stackOf v f = Some xs" "length xs = snd (hd env) + fst (hd env) + d"
    by (rule running_stack [OF assms(1)])
  then obtain x ys where "xs = x # ys" using assms(2) by (cases xs) auto
  with xs frame_stack.pop_top [of v f x ys] obtain v' where v': "Pop f v = Inr (x, v')"
    "stackOf v' f = Some ys" "frameStep f v v'" by auto
  with running_frameStep [OF assms(1) v'(3) xs(1) v'(2), of "d - 1"] moves_frameStep [OF assms(1) v'(3)] \<open>xs = x # ys\<close> assms(2) xs(1)
  show ?thesis by auto
qed

lemma running_level:
  assumes "running v f env code lits ms i d" "b < length env"
  obtains g ob where "GetContextLevel b f v = Inr (g, v)" "frameOf v g = Some ob"
    "fst (env ! b) + snd (env ! b) \<le> length (o_slots ob)" "LocalOffset g v = Inr (int (snd (env ! b)), v)"
    "g \<in> chainFrames v f env"
proof -
  obtain fo where "contexts (counters fo) v f env" by (rule runningE [OF assms(1)])
  from contexts_level [OF this assms(2)] that show thesis
    by (auto simp: LocalOffset_def frameOf_member GetEmbeddedInteger_run)
qed

text \<open>A slot below the top of the running frame, as an element of its stack.\<close>

lemma rev_take_update:
  assumes "k < n" "n \<le> length ys"
  shows "rev (take n (ys[k := x])) = (rev (take n ys))[n - Suc k := x]"
  using assms by (simp add: take_update_swap rev_update)

lemma running_slot:
  assumes "running v f env code lits ms i d" "frameOf v f = Some ob" "k < fst (hd env) + snd (hd env)"
  shows "\<exists>xs. stackOf v f = Some xs \<and> k < length xs \<and> length xs \<le> length (o_slots ob) \<and>
     xs = rev (take (length xs) (o_slots ob)) \<and> o_slots ob ! k = xs ! (length xs - Suc k)"
proof -
  obtain xs where xs: "stackOf v f = Some xs" "length xs = snd (hd env) + fst (hd env) + d"
    by (rule running_stack [OF assms(1)])
  then have k: "k < length xs" using assms(3) by simp
  obtain ob2 where "frameOf v f = Some ob2" "length xs \<le> length (o_slots ob2)" "xs = rev (take (length xs) (o_slots ob2))"
    by (rule stackOfE [OF xs(1)])
  then have s: "length xs \<le> length (o_slots ob)" "xs = rev (take (length xs) (o_slots ob))"
    using assms(2) by simp_all
  have "rev xs = take (length xs) (o_slots ob)" using s(2) by (metis rev_rev_ident)
  then have "rev xs ! k = o_slots ob ! k" using k by simp
  then have "o_slots ob ! k = xs ! (length xs - Suc k)" using k by (simp add: rev_nth)
  with xs(1) k s show ?thesis by blast
qed

lemma running_GetArgument:
  assumes "running v f env code lits ms i d" "b < length env" "a < snd (env ! b)"
  shows "\<exists>x. GetArgument f a b v = Inr (x, v) \<and>
     (b = 0 \<longrightarrow> (\<exists>xs. stackOf v f = Some xs \<and> x = xs ! (length xs - Suc a)))"
proof -
  obtain g ob where g: "GetContextLevel b f v = Inr (g, v)" "frameOf v g = Some ob"
    "fst (env ! b) + snd (env ! b) \<le> length (o_slots ob)"
    by (rule running_level [OF assms(1,2)])
  have "b = 0 \<longrightarrow> (\<exists>xs. stackOf v f = Some xs \<and> o_slots ob ! a = xs ! (length xs - Suc a))"
    using running_slot [OF assms(1), of ob a] g(1,2) assms(2,3) by (auto simp: hd_conv_nth)
  with assms(3) g show ?thesis
    by (simp add: GetArgument_def ArrayGet_run [OF frameOf_facts(9) [OF g(2)]])
qed

lemma running_GetLocal:
  assumes "running v f env code lits ms i d" "b < length env" "a < fst (env ! b)"
  shows "\<exists>x. GetLocal f a b v = Inr (x, v) \<and>
     (b = 0 \<longrightarrow> (\<exists>xs. stackOf v f = Some xs \<and> x = xs ! (length xs - Suc (snd (hd env) + a))))"
proof -
  obtain g ob where g: "GetContextLevel b f v = Inr (g, v)" "frameOf v g = Some ob"
    "fst (env ! b) + snd (env ! b) \<le> length (o_slots ob)" "LocalOffset g v = Inr (int (snd (env ! b)), v)"
    by (rule running_level [OF assms(1,2)])
  have "b = 0 \<longrightarrow> (\<exists>xs. stackOf v f = Some xs \<and>
      o_slots ob ! (snd (env ! b) + a) = xs ! (length xs - Suc (snd (hd env) + a)))"
    using running_slot [OF assms(1), of ob "snd (hd env) + a"] g(1,2) assms(2,3) by (auto simp: hd_conv_nth)
  moreover have "nat (int (snd (env ! b)) + int a) = snd (env ! b) + a" by simp
  ultimately show ?thesis
    using assms(3) g by (simp add: GetLocal_def ArrayGet_run [OF frameOf_facts(9) [OF g(2)]])
qed

text \<open>A store into a slot of any frame.\<close>

lemma running_ArraySet:
  assumes "running v f env code lits ms i d" "frameOf v g = Some ob" "k < length (o_slots ob)" "g \<in> chainFrames v f env"
  shows "\<exists>v'. ArraySet g (int k) x v = Inr ((), v') \<and> running v' f env code lits ms i d \<and> moves f env v v' \<and>
     (g = f \<and> k < fst (hd env) + snd (hd env) \<longrightarrow> stackOf v' f = map_option (\<lambda>xs. xs[length xs - Suc k := x]) (stackOf v f))"
proof -
  let ?v' = "v\<lparr>heap := (heap v)(g \<mapsto> ob\<lparr>o_slots := (o_slots ob)[k := x]\<rparr>)\<rparr>"
  note go = frameOf_facts [OF assms(2)]
  have run: "ArraySet g (int k) x v = Inr ((), ?v')"
    using assms(3) by (simp add: ArraySet_run [OF go(9)])
  obtain fo xs where f: "frameOf v f = Some fo" "stackOf v f = Some xs" "intOf v (o_fields fo ! 5) = Some (int i)"
    by (rule runningE [OF assms(1)])
  have keep: "keeps (counters fo) v ?v'"
    by (rule keeps_slots [OF go(1)]) (simp add: go(2) arrayKinds_def)
  have ints: "intOf ?v' q = intOf v q" for q using go(1,3) by (simp add: intOf_def)
  obtain fo' where fo': "frameOf ?v' f = Some fo'" "o_fields fo' = o_fields fo" "length (o_slots fo') = length (o_slots fo)"
    by (rule keeps_frame [OF keep f(1)])
  obtain fo2 where fo2: "frameOf v f = Some fo2" "intOf v (o_fields fo2 ! 4) = Some (int (length xs) - 1)" "length xs \<le> length (o_slots fo2)"
    by (rule stackOfE [OF f(2)])
  then have "fo2 = fo" using f(1) by simp
  with fo2 fo' have st: "stackOf ?v' f = Some (rev (take (length xs) (o_slots fo')))"
    by (intro stackOfI(1)) (simp_all add: ints)
  have "stackOf ?v' f = map_option (\<lambda>xs. xs[length xs - Suc k := x]) (stackOf v f)"
    if g: "g = f" "k < fst (hd env) + snd (hd env)"
  proof -
    have "fo' = ob\<lparr>o_slots := (o_slots ob)[k := x]\<rparr>" using fo'(1) g(1) frameOf_upd [OF assms(2)] by simp
    moreover have "k < length xs" "length xs \<le> length (o_slots ob)" "xs = rev (take (length xs) (o_slots ob))"
      using running_slot [OF assms(1), of ob k] f(2) assms(2) g by auto
    ultimately show ?thesis using st f(2) rev_take_update [of k "length xs" "o_slots ob" x] by simp
  qed
  moreover from running_step [OF assms(1) f(1) keep f(2) st, of d i] f(3) \<open>fo2 = fo\<close> fo2(3) fo'(3)
  have "running ?v' f env code lits ms i d" by (simp add: ints)
  moreover have "moves f env v ?v'"
    unfolding moves_def
    by (intro exI [of _ fo] exI [of _ "heap ?v'"]) (use f(1) keep assms(4) go(1) in auto)
  ultimately show ?thesis using run by auto
qed

lemma running_SetArgument:
  assumes "running v f env code lits ms i d" "b < length env" "a < snd (env ! b)"
  shows "\<exists>v'. SetArgument f a b x v = Inr ((), v') \<and> running v' f env code lits ms i d \<and> moves f env v v' \<and>
     (b = 0 \<longrightarrow> stackOf v' f = map_option (\<lambda>xs. xs[length xs - Suc a := x]) (stackOf v f))"
proof -
  obtain g ob where g: "GetContextLevel b f v = Inr (g, v)" "frameOf v g = Some ob"
    "fst (env ! b) + snd (env ! b) \<le> length (o_slots ob)" "g \<in> chainFrames v f env"
    by (rule running_level [OF assms(1,2)])
  have z: "b = 0 \<Longrightarrow> g = f \<and> a < fst (hd env) + snd (hd env)"
    using g(1) assms(2,3) by (auto simp: hd_conv_nth)
  from g show ?thesis
    using running_ArraySet [OF assms(1) g(2), of a x] assms(3) z by (auto simp: SetArgument_def)
qed

lemma running_SetLocal:
  assumes "running v f env code lits ms i d" "b < length env" "a < fst (env ! b)"
  shows "\<exists>v'. SetLocal f a b x v = Inr ((), v') \<and> running v' f env code lits ms i d \<and> moves f env v v' \<and>
     (b = 0 \<longrightarrow> stackOf v' f = map_option (\<lambda>xs. xs[length xs - Suc (snd (hd env) + a) := x]) (stackOf v f))"
proof -
  obtain g ob where g: "GetContextLevel b f v = Inr (g, v)" "frameOf v g = Some ob"
    "fst (env ! b) + snd (env ! b) \<le> length (o_slots ob)" "LocalOffset g v = Inr (int (snd (env ! b)), v)" "g \<in> chainFrames v f env"
    by (rule running_level [OF assms(1,2)])
  have z: "b = 0 \<Longrightarrow> g = f \<and> snd (hd env) + a < fst (hd env) + snd (hd env) \<and> snd (hd env) = snd (env ! b)"
    using g(1) assms(2,3) by (auto simp: hd_conv_nth)
  obtain v' where "ArraySet g (int (snd (env ! b) + a)) x v = Inr ((), v')" "running v' f env code lits ms i d" "moves f env v v'"
    "g = f \<and> snd (env ! b) + a < fst (hd env) + snd (hd env) \<longrightarrow>
       stackOf v' f = map_option (\<lambda>xs. xs[length xs - Suc (snd (env ! b) + a) := x]) (stackOf v f)"
    using running_ArraySet [OF assms(1) g(2) _ g(5), of "snd (env ! b) + a" x] assms(3) g(3) by auto
  with g(1,4) z show ?thesis by (auto simp: SetLocal_def)
qed


section \<open>Fetching\<close>

lemma GetBytecode_run:
  assumes "methodParts v m = Some (code, x)" "k < length code"
  shows "GetBytecode m (int k) v = Inr (code ! k, v)"
  using assms
  by (auto simp: methodParts_def GetBytecode_def derefAs_def deref_def split: option.splits if_splits payload.splits)

lemma NumberOfConstants_run:
  assumes "methodParts v m = Some (code, lits, x)"
  shows "NumberOfConstants m v = Inr (int (length lits), v)"
  using assms
  by (auto simp: methodParts_def NumberOfConstants_def getMember_def derefAs_def deref_def GetEmbeddedInteger_run
      split: option.splits if_splits payload.splits)

lemma GetIndexableField_run:
  assumes "methodParts v m = Some (code, lits, x)" "k < length lits"
  shows "GetIndexableField m (int k) v = Inr (lits ! k, v)"
proof -
  obtain mo where "heap v m = Some mo" "o_kind mo = KMethod" "o_slots mo = lits"
    using assms(1) by (auto simp: methodParts_def split: option.splits if_splits payload.splits)
  then show ?thesis
    using assms(2) by (simp add: GetIndexableField_def NumberOfConstants_run [OF assms(1)] derefAs_def deref_def)
qed

lemma GetConstant_run:
  assumes "methodParts v m = Some (code, lits, x)" "Suc k < length code" "unat (code ! Suc k) < length lits"
  shows "GetConstant m (int k) v = Inr (lits ! unat (code ! Suc k), v)"
proof -
  have "GetBytecode m (int k + 1) v = Inr (code ! Suc k, v)"
    using GetBytecode_run [OF assms(1,2)] by (simp add: add.commute)
  moreover have "\<not> int (length lits) \<le> int (unat (code ! Suc k))" using assms(3) by linarith
  ultimately show ?thesis
    by (simp add: GetConstant_def NumberOfConstants_run [OF assms(1)] GetIndexableField_run [OF assms(1,3)] del: of_nat_unat)
qed

lemma running_method:
  assumes "running v f env code lits ms i d" "curFrame v = f"
  obtains m nl na where "GetMethod v = Inr (m, v)" "methodParts v m = Some (code, lits, nl, na, int ms)"
    "FrameGetMethod f v = Inr (m, v)"
proof -
  obtain ob nl na where r: "frameOf v f = Some ob" "methodParts v (o_fields ob ! 3) = Some (code, lits, nl, na, int ms)"
    by (rule runningE [OF assms(1)])
  have "FrameGetMethod f v = Inr (o_fields ob ! 3, v)" by (simp add: FrameGetMethod_def frameOf_member [OF r(1)])
  then show thesis
    by (intro that [OF _ r(2)]) (simp_all add: GetMethod_def GetFrame_def assms(2))
qed

lemma running_SetBytecodeIndex:
  assumes "running v f env code lits ms i d"
  shows "\<exists>v'. SetBytecodeIndex f (int k) v = Inr ((), v') \<and> running v' f env code lits ms k d \<and> moves f env v v' \<and>
     stackOf v' f = stackOf v f"
proof -
  obtain ob xs where r: "frameOf v f = Some ob" "stackOf v f = Some xs" "intOf v (o_fields ob ! 5) = Some (int i)"
    by (rule runningE [OF assms])
  let ?bi = "o_fields ob ! 5"
  obtain io where io: "heap v ?bi = Some io" "o_data io = IntData (int i)"
    using r(3) by (auto simp: intOf_Some)
  let ?v' = "v\<lparr>heap := (heap v)(?bi \<mapsto> io\<lparr>o_data := IntData (int k)\<rparr>)\<rparr>"
  have run: "SetBytecodeIndex f (int k) v = Inr ((), ?v')"
    by (simp add: SetBytecodeIndex_def frameOf_member [OF r(1)] SetEmbeddedInteger_def deref_def store_def io)
  have keep: "keeps (counters ob) v ?v'"
    by (rule keeps_intUpd [OF io(1)]) (simp_all add: r(3) counters_def)
  obtain ob2 where ob2: "frameOf v f = Some ob2" "intOf v (o_fields ob2 ! 4) = Some (int (length xs) - 1)"
    "length xs \<le> length (o_slots ob2)" "xs = rev (take (length xs) (o_slots ob2))" by (rule stackOfE [OF r(2)])
  then have ob: "ob2 = ob" using r(1) by simp
  have bi: "f \<noteq> ?bi" using io frameOf_facts(1,3) [OF r(1)] by auto
  then have "frameOf ?v' f = Some ob" using r(1) by (simp add: frameOf_def)
  moreover have "intOf ?v' (o_fields ob ! 4) = Some (int (length xs) - 1)"
    using ob2(2) frameOf_facts(6) [OF r(1)] ob by (simp add: intOf_def)
  ultimately have st: "stackOf ?v' f = Some (rev (take (length xs) (o_slots ob)))"
    using ob2(3) ob by (intro stackOfI(1)) simp_all
  then have "stackOf ?v' f = stackOf v f" using ob2(4) ob r(2) by simp
  moreover from running_step [OF assms r(1) keep r(2) st, of d k] ob2(3) ob
  have "running ?v' f env code lits ms k d" by (simp add: intOf_def)
  moreover have "moves f env v ?v'"
    unfolding moves_def
    by (intro exI [of _ ob] exI [of _ "heap ?v'"]) (use r(1) keep io(1) in \<open>auto simp: counters_def\<close>)
  ultimately show ?thesis using run by auto
qed

lemma running_fetch:
  assumes "running v f env code lits ms i d" "curFrame v = f" "i < length code" "opcode_of (code ! i) = Some op"
  shows "\<exists>v'. fetch v = Inr ((int i, code ! i), v') \<and> running v' f env code lits ms (i + bc_length op) d \<and> moves f env v v' \<and>
     stackOf v' f = stackOf v f"
proof -
  obtain ob where r: "frameOf v f = Some ob" "intOf v (o_fields ob ! 5) = Some (int i)"
    by (rule runningE [OF assms(1)])
  obtain m nl na where m: "GetMethod v = Inr (m, v)" "methodParts v m = Some (code, lits, nl, na, int ms)"
    by (rule running_method [OF assms(1,2)])
  obtain v' where v': "SetBytecodeIndex f (int (i + bc_length op)) v = Inr ((), v')"
    "running v' f env code lits ms (i + bc_length op) d" "moves f env v v'" "stackOf v' f = stackOf v f"
    using running_SetBytecodeIndex [OF assms(1)] by blast
  have "code ! i = opcode op" using assms(4) by (rule opcode_of_SomeD)
  then show ?thesis
    using v' by (simp add: fetch_def GetFrame_def assms(2) GetBytecodeIndex_def frameOf_member [OF r(1)]
        GetEmbeddedInteger_run [OF r(2)] m(1) GetBytecode_run [OF m(2) assms(3)] del: opcode.simps)
qed

lemma running_operands:
  assumes "running v f env code lits ms j d" "curFrame v = f" "i + 3 \<le> length code"
  shows "operands (int i) v = Inr ((byteAt (drop i code) 1, byteAt (drop i code) 2), v)"
proof -
  obtain m nl na where m: "GetMethod v = Inr (m, v)" "methodParts v m = Some (code, lits, nl, na, int ms)"
    by (rule running_method [OF assms(1,2)])
  have "GetBytecode m (int i + 1) v = Inr (code ! (i + 1), v)" "GetBytecode m (int i + 2) v = Inr (code ! (i + 2), v)"
    using GetBytecode_run [OF m(2), of "i + 1"] GetBytecode_run [OF m(2), of "i + 2"] assms(3)
    by (simp_all add: add.commute)
  then show ?thesis using assms(3) by (simp add: operands_def m(1) byteAt_def less_diff_conv)
qed

lemma running_constant:
  assumes "running v f env code lits ms j d" "curFrame v = f" "i + 2 \<le> length code"
    "byteAt (drop i code) 1 < length lits"
  shows "constantAt (int i) v = Inr (lits ! byteAt (drop i code) 1, v)"
proof -
  obtain m nl na where m: "GetMethod v = Inr (m, v)" "methodParts v m = Some (code, lits, nl, na, int ms)"
    by (rule running_method [OF assms(1,2)])
  have b: "byteAt (drop i code) 1 = unat (code ! Suc i)" using assms(3) by (simp add: byteAt_def less_diff_conv)
  with GetConstant_run [OF m(2), of i] assms(3,4) show ?thesis by (simp add: constantAt_def m(1))
qed


section \<open>Instructions that send nothing\<close>

definition straight :: "bytecode \<Rightarrow> bool" where
  "straight op \<longleftrightarrow> op \<in> {BC_DUP, BC_PUSH_LOCAL, BC_PUSH_ARGUMENT, BC_PUSH_CONSTANT, BC_POP, BC_POP_LOCAL, BC_POP_ARGUMENT}"

text \<open>What these instructions do to the whole stack of a frame, whose locals and arguments are
  at its bottom.\<close>

fun stackOp :: "nat \<Rightarrow> ptr list \<Rightarrow> bytecode \<Rightarrow> nat \<Rightarrow> ptr list \<Rightarrow> ptr list" where
  "stackOp na lits BC_DUP a xs = hd xs # xs"
| "stackOp na lits BC_PUSH_LOCAL a xs = xs ! (length xs - Suc (na + a)) # xs"
| "stackOp na lits BC_PUSH_ARGUMENT a xs = xs ! (length xs - Suc a) # xs"
| "stackOp na lits BC_PUSH_CONSTANT a xs = lits ! a # xs"
| "stackOp na lits BC_POP a xs = tl xs"
| "stackOp na lits BC_POP_LOCAL a xs = (tl xs)[length (tl xs) - Suc (na + a) := hd xs]"
| "stackOp na lits BC_POP_ARGUMENT a xs = (tl xs)[length (tl xs) - Suc a := hd xs]"
| "stackOp na lits op a xs = xs"

abbreviation runsOp :: "unit vmM \<Rightarrow> vm \<Rightarrow> ptr \<Rightarrow> env \<Rightarrow> u8 list \<Rightarrow> ptr list \<Rightarrow> nat \<Rightarrow> nat \<Rightarrow> nat \<Rightarrow>
    bytecode \<Rightarrow> nat \<Rightarrow> bool" where
  "runsOp m v f env code lits ms j d op i \<equiv>
     \<exists>v'. m v = Inr ((), v') \<and> running v' f env code lits ms j d \<and> moves f env v v' \<and>
       (length env = 1 \<longrightarrow> stackOf v' f = map_option (stackOp (snd (hd env)) lits op (byteAt (drop i code) 1)) (stackOf v f))"

lemma doDup_run:
  assumes "running v f env code lits ms j d" "curFrame v = f" "1 \<le> d" "d < ms"
  shows "runsOp doDup v f env code lits ms j (d + 1) BC_DUP i"
proof -
  obtain xs where xs: "stackOf v f = Some xs" "length xs = snd (hd env) + fst (hd env) + d"
    by (rule running_stack [OF assms(1)])
  then have "GetStackElement f 0 v = Inr (xs ! 0, v)" using GetStackElement_run [OF xs(1), of 0] assms(3) by simp
  moreover have "xs ! 0 = hd xs" using xs(2) assms(3) by (cases xs) auto
  ultimately show ?thesis
    using running_Push [OF assms(1,4), of "hd xs"] assms(2) xs(1) by (simp add: doDup_def GetFrame_def) blast
qed

lemma doPop_run:
  assumes "running v f env code lits ms j d" "curFrame v = f" "1 \<le> d"
  shows "runsOp doPop v f env code lits ms j (d - 1) BC_POP i"
proof -
  obtain x v' where v': "Pop f v = Inr (x, v')" "running v' f env code lits ms j (d - 1)" "moves f env v v'"
    "stackOf v f = map_option ((#) x) (stackOf v' f)"
    using running_Pop [OF assms(1,3)] by blast
  then show ?thesis using assms(2) by (auto simp: doPop_def GetFrame_def option.map_comp comp_def option.map_ident)
qed

lemma single_level: "length (env :: env) = 1 \<Longrightarrow> b < length env \<Longrightarrow> b = 0"
  by simp

lemma doPushArgument_run:
  assumes "running v f env code lits ms j d" "curFrame v = f" "i + 3 \<le> length code" "d < ms"
    "byteAt (drop i code) 2 < length env" "byteAt (drop i code) 1 < snd (env ! byteAt (drop i code) 2)"
  shows "runsOp (doPushArgument (int i)) v f env code lits ms j (d + 1) BC_PUSH_ARGUMENT i"
proof -
  let ?a = "byteAt (drop i code) 1" and ?b = "byteAt (drop i code) 2"
  obtain x where x: "GetArgument f ?a ?b v = Inr (x, v)"
    "?b = 0 \<longrightarrow> (\<exists>xs. stackOf v f = Some xs \<and> x = xs ! (length xs - Suc ?a))"
    using running_GetArgument [OF assms(1,5,6)] by (elim exE conjE) (rule that)
  obtain v' where v': "Push f x v = Inr ((), v')" "running v' f env code lits ms j (d + 1)" "moves f env v v'"
    "stackOf v' f = map_option ((#) x) (stackOf v f)"
    using running_Push [OF assms(1,4), of x] by blast
  have "stackOf v' f = map_option (stackOp (snd (hd env)) lits BC_PUSH_ARGUMENT ?a) (stackOf v f)" if "length env = 1"
    using v'(4) x(2) single_level [OF that assms(5)] by auto
  with v' x(1) show ?thesis
    by (simp add: doPushArgument_def running_operands [OF assms(1,2,3)] GetFrame_def assms(2))
qed

lemma doPushLocal_run:
  assumes "running v f env code lits ms j d" "curFrame v = f" "i + 3 \<le> length code" "d < ms"
    "byteAt (drop i code) 2 < length env" "byteAt (drop i code) 1 < fst (env ! byteAt (drop i code) 2)"
  shows "runsOp (doPushLocal (int i)) v f env code lits ms j (d + 1) BC_PUSH_LOCAL i"
proof -
  let ?a = "byteAt (drop i code) 1" and ?b = "byteAt (drop i code) 2"
  obtain x where x: "GetLocal f ?a ?b v = Inr (x, v)"
    "?b = 0 \<longrightarrow> (\<exists>xs. stackOf v f = Some xs \<and> x = xs ! (length xs - Suc (snd (hd env) + ?a)))"
    using running_GetLocal [OF assms(1,5,6)] by (elim exE conjE) (rule that)
  obtain v' where v': "Push f x v = Inr ((), v')" "running v' f env code lits ms j (d + 1)" "moves f env v v'"
    "stackOf v' f = map_option ((#) x) (stackOf v f)"
    using running_Push [OF assms(1,4), of x] by blast
  have "stackOf v' f = map_option (stackOp (snd (hd env)) lits BC_PUSH_LOCAL ?a) (stackOf v f)" if "length env = 1"
    using v'(4) x(2) single_level [OF that assms(5)] by auto
  with v' x(1) show ?thesis
    by (simp add: doPushLocal_def running_operands [OF assms(1,2,3)] GetFrame_def assms(2))
qed

lemma doPushConstant_run:
  assumes "running v f env code lits ms j d" "curFrame v = f" "i + 2 \<le> length code" "d < ms"
    "byteAt (drop i code) 1 < length lits"
  shows "runsOp (doPushConstant (int i)) v f env code lits ms j (d + 1) BC_PUSH_CONSTANT i"
proof -
  let ?x = "lits ! byteAt (drop i code) 1"
  obtain v' where v': "Push f ?x v = Inr ((), v')" "running v' f env code lits ms j (d + 1)" "moves f env v v'"
    "stackOf v' f = map_option ((#) ?x) (stackOf v f)"
    using running_Push [OF assms(1,4), of ?x] by blast
  have "stackOp (snd (hd env)) lits BC_PUSH_CONSTANT (byteAt (drop i code) 1) = (#) ?x" by (rule ext) simp
  with v' show ?thesis
    by (simp add: doPushConstant_def running_constant [OF assms(1,2,3,5)] GetFrame_def assms(2))
qed

text \<open>A store of the top of the stack: a pop, then the assignment.\<close>

lemma pop_store:
  assumes "stackOf v f = map_option ((#) x) (stackOf w f)" "stackOf w' f = map_option (\<lambda>xs. xs[length xs - Suc k := x]) (stackOf w f)"
  shows "stackOf w' f = map_option (\<lambda>xs. (tl xs)[length (tl xs) - Suc k := hd xs]) (stackOf v f)"
  using assms by (cases "stackOf w f") simp_all

lemma doPopLocal_run:
  assumes "running v f env code lits ms j d" "curFrame v = f" "i + 3 \<le> length code" "1 \<le> d"
    "byteAt (drop i code) 2 < length env" "byteAt (drop i code) 1 < fst (env ! byteAt (drop i code) 2)"
  shows "runsOp (doPopLocal (int i)) v f env code lits ms j (d - 1) BC_POP_LOCAL i"
proof -
  let ?a = "byteAt (drop i code) 1" and ?b = "byteAt (drop i code) 2"
  obtain x w where w: "Pop f v = Inr (x, w)" "running w f env code lits ms j (d - 1)" "moves f env v w" "curFrame w = f"
    "stackOf v f = map_option ((#) x) (stackOf w f)"
    using running_Pop [OF assms(1,4)] moves_curFrame [of f env v] assms(2) by (elim exE conjE) (rule that, simp_all)
  obtain v' where v': "SetLocal f ?a ?b x w = Inr ((), v')" "running v' f env code lits ms j (d - 1)" "moves f env w v'"
    "?b = 0 \<longrightarrow> stackOf v' f = map_option (\<lambda>xs. xs[length xs - Suc (snd (hd env) + ?a) := x]) (stackOf w f)"
    using running_SetLocal [OF w(2) assms(5,6), of x] by (elim exE conjE) (rule that)
  have fn: "stackOp (snd (hd env)) lits BC_POP_LOCAL ?a = (\<lambda>xs. (tl xs)[length (tl xs) - Suc (snd (hd env) + ?a) := hd xs])"
    by (rule ext) simp
  have "stackOf v' f = map_option (stackOp (snd (hd env)) lits BC_POP_LOCAL ?a) (stackOf v f)" if "length env = 1"
    unfolding fn using v'(4) single_level [OF that assms(5)] by (intro pop_store [OF w(5)]) simp
  with v' w moves_trans [OF assms(1) w(3) v'(3)] show ?thesis
    by (simp add: doPopLocal_def running_operands [OF assms(1,2,3)] GetFrame_def assms(2))
qed

lemma doPopArgument_run:
  assumes "running v f env code lits ms j d" "curFrame v = f" "i + 3 \<le> length code" "1 \<le> d"
    "byteAt (drop i code) 2 < length env" "byteAt (drop i code) 1 < snd (env ! byteAt (drop i code) 2)"
  shows "runsOp (doPopArgument (int i)) v f env code lits ms j (d - 1) BC_POP_ARGUMENT i"
proof -
  let ?a = "byteAt (drop i code) 1" and ?b = "byteAt (drop i code) 2"
  obtain x w where w: "Pop f v = Inr (x, w)" "running w f env code lits ms j (d - 1)" "moves f env v w" "curFrame w = f"
    "stackOf v f = map_option ((#) x) (stackOf w f)"
    using running_Pop [OF assms(1,4)] moves_curFrame [of f env v] assms(2) by (elim exE conjE) (rule that, simp_all)
  obtain v' where v': "SetArgument f ?a ?b x w = Inr ((), v')" "running v' f env code lits ms j (d - 1)" "moves f env w v'"
    "?b = 0 \<longrightarrow> stackOf v' f = map_option (\<lambda>xs. xs[length xs - Suc ?a := x]) (stackOf w f)"
    using running_SetArgument [OF w(2) assms(5,6), of x] by (elim exE conjE) (rule that)
  have fn: "stackOp (snd (hd env)) lits BC_POP_ARGUMENT ?a = (\<lambda>xs. (tl xs)[length (tl xs) - Suc ?a := hd xs])"
    by (rule ext) simp
  have "stackOf v' f = map_option (stackOp (snd (hd env)) lits BC_POP_ARGUMENT ?a) (stackOf v f)" if "length env = 1"
    unfolding fn using v'(4) single_level [OF that assms(5)] by (intro pop_store [OF w(5)]) simp
  with v' w moves_trans [OF assms(1) w(3) v'(3)] show ?thesis
    by (simp add: doPopArgument_def running_operands [OF assms(1,2,3)] GetFrame_def assms(2))
qed

lemma running_straight:
  assumes run: "running v f env code lits ms i d" "curFrame v = f" and op: "straight op"
    and st: "scanStep env lt (drop i code) d = Some (d', rest)" "opcode_of (code ! i) = Some op" "i < length code"
    and lt: "\<And>a l. lt a = Some l \<Longrightarrow> a < length lits" and ms: "d' \<le> ms"
  shows "\<exists>v'. step ext n v = Inr (True, v') \<and> running v' f env code lits ms (i + bc_length op) d' \<and> moves f env v v' \<and>
     (length env = 1 \<longrightarrow> stackOf v' f = map_option (stackOp (snd (hd env)) lits op (byteAt (drop i code) 1)) (stackOf v f))"
proof -
  obtain c cs op' where c: "drop i code = c # cs" "opcode_of c = Some op'" "bc_length op' \<le> length (drop i code)"
    "effect env lt op' (byteAt (drop i code) 1) (byteAt (drop i code) 2) d = Some d'"
    using st(1) by (rule scanStepE)
  have "c = code ! i" using c(1) st(3) by (metis Cons_nth_drop_Suc list.inject)
  then have "op' = op" using c(2) st(2) by simp
  note e = c(4) [unfolded this] and len = c(3) [unfolded this]
  obtain w where w: "fetch v = Inr ((int i, code ! i), w)" "running w f env code lits ms (i + bc_length op) d" "moves f env v w"
    "stackOf w f = stackOf v f"
    using running_fetch [OF run st(3,2)] by blast
  have cur: "curFrame w = f" using moves_curFrame [OF w(3)] run(2) by simp
  have fin: "?thesis" if "runsOp m w f env code lits ms (i + bc_length op) d' op i"
    and "execute ext n (code ! i) (int i) w = thenE m (returnE True) w" for m
  proof -
    from that(1) obtain v' where "m w = Inr ((), v')" "running v' f env code lits ms (i + bc_length op) d'" "moves f env w v'"
      "length env = 1 \<longrightarrow> stackOf v' f = map_option (stackOp (snd (hd env)) lits op (byteAt (drop i code) 1)) (stackOf w f)"
      by (elim exE conjE) (rule that)
    with that(2) w(1,4) moves_trans [OF run(1) w(3)] show ?thesis by (intro exI [of _ v']) (simp add: step_def)
  qed
  let ?a = "byteAt (drop i code) 1" and ?b = "byteAt (drop i code) 2"
  have 3: "bc_length op = 3 \<Longrightarrow> i + 3 \<le> length code" and 2: "bc_length op = 2 \<Longrightarrow> i + 2 \<le> length code"
    using len st(3) by simp_all
  consider "op = BC_DUP" | "op = BC_PUSH_LOCAL" | "op = BC_PUSH_ARGUMENT" | "op = BC_PUSH_CONSTANT" | "op = BC_POP"
    | "op = BC_POP_LOCAL" | "op = BC_POP_ARGUMENT" using op by (auto simp: straight_def)
  then show ?thesis
  proof cases
    case o: 1
    have r: "1 \<le> d" "d' = d + 1" "d < ms" using e ms o by (auto split: if_splits)
    show ?thesis
      by (rule fin [where m = doDup, OF doDup_run [OF w(2) cur r(1,3), of i, folded r(2) o]]) (simp add: execute_def st(2) o)
  next
    case o: 2
    have r: "?b < length env" "?a < fst (env ! ?b)" "d' = d + 1" "d < ms" "i + 3 \<le> length code"
      using e ms o 3 by (auto split: if_splits)
    show ?thesis
      by (rule fin [where m = "doPushLocal (int i)", OF doPushLocal_run [OF w(2) cur r(5,4,1,2), folded r(3) o]]) (simp add: execute_def st(2) o)
  next
    case o: 3
    have r: "?b < length env" "?a < snd (env ! ?b)" "d' = d + 1" "d < ms" "i + 3 \<le> length code"
      using e ms o 3 by (auto split: if_splits)
    show ?thesis
      by (rule fin [where m = "doPushArgument (int i)", OF doPushArgument_run [OF w(2) cur r(5,4,1,2), folded r(3) o]]) (simp add: execute_def st(2) o)
  next
    case o: 4
    have r: "?a < length lits" "d' = d + 1" "d < ms" "i + 2 \<le> length code"
      using e ms o 2 lt by (auto split: option.splits)
    show ?thesis
      by (rule fin [where m = "doPushConstant (int i)", OF doPushConstant_run [OF w(2) cur r(4,3,1), folded r(2) o]]) (simp add: execute_def st(2) o)
  next
    case o: 5
    have r: "1 \<le> d" "d' = d - 1" using e o by (auto split: if_splits)
    show ?thesis
      by (rule fin [where m = doPop, OF doPop_run [OF w(2) cur r(1), of i, folded r(2) o]]) (simp add: execute_def st(2) o)
  next
    case o: 6
    have r: "1 \<le> d" "?b < length env" "?a < fst (env ! ?b)" "d' = d - 1" "i + 3 \<le> length code"
      using e o 3 by (auto split: if_splits)
    show ?thesis
      by (rule fin [where m = "doPopLocal (int i)", OF doPopLocal_run [OF w(2) cur r(5,1,2,3), folded r(4) o]]) (simp add: execute_def st(2) o)
  next
    case o: 7
    have r: "1 \<le> d" "?b < length env" "?a < snd (env ! ?b)" "d' = d - 1" "i + 3 \<le> length code"
      using e o 3 by (auto split: if_splits)
    show ?thesis
      by (rule fin [where m = "doPopArgument (int i)", OF doPopArgument_run [OF w(2) cur r(5,1,2,3), folded r(4) o]]) (simp add: execute_def st(2) o)
  qed
qed


function straightCode :: "u8 list \<Rightarrow> bool" where
  "straightCode code =
     (case code of [] \<Rightarrow> True
      | c # cs \<Rightarrow> (case opcode_of c of None \<Rightarrow> False
                   | Some op \<Rightarrow> straight op \<and> straightCode (drop (bc_length op - 1) cs)))"
  by pat_completeness auto
termination by (relation "measure length") auto

declare straightCode.simps [simp del]

text \<open>The reference evaluation of such code, on the arguments of the activation, its locals and
  its temporaries, the top first.\<close>

fun evalOp :: "ptr list \<Rightarrow> bytecode \<Rightarrow> nat \<Rightarrow> ptr list \<times> ptr list \<times> ptr list \<Rightarrow> ptr list \<times> ptr list \<times> ptr list" where
  "evalOp lits BC_DUP a (args, locs, st) = (args, locs, hd st # st)"
| "evalOp lits BC_PUSH_LOCAL a (args, locs, st) = (args, locs, locs ! a # st)"
| "evalOp lits BC_PUSH_ARGUMENT a (args, locs, st) = (args, locs, args ! a # st)"
| "evalOp lits BC_PUSH_CONSTANT a (args, locs, st) = (args, locs, lits ! a # st)"
| "evalOp lits BC_POP a (args, locs, st) = (args, locs, tl st)"
| "evalOp lits BC_POP_LOCAL a (args, locs, st) = (args, locs[a := hd st], tl st)"
| "evalOp lits BC_POP_ARGUMENT a (args, locs, st) = (args[a := hd st], locs, tl st)"
| "evalOp lits op a c = c"

function evalCode :: "ptr list \<Rightarrow> u8 list \<Rightarrow> ptr list \<times> ptr list \<times> ptr list \<Rightarrow> ptr list \<times> ptr list \<times> ptr list" where
  "evalCode lits code x =
     (case code of [] \<Rightarrow> x
      | c # cs \<Rightarrow> (case opcode_of c of None \<Rightarrow> x
                   | Some op \<Rightarrow> evalCode lits (drop (bc_length op - 1) cs) (evalOp lits op (byteAt code 1) x)))"
  by pat_completeness auto
termination by (relation "measure (\<lambda>(lits, code, x). length code)") auto

declare evalCode.simps [simp del]

text \<open>The stack of the frame that holds an activation.\<close>

fun flat :: "ptr list \<times> ptr list \<times> ptr list \<Rightarrow> ptr list" where
  "flat (args, locs, st) = st @ rev locs @ rev args"

text \<open>An activation with so many locals, arguments and temporaries.\<close>

fun sized :: "nat \<Rightarrow> nat \<Rightarrow> nat \<Rightarrow> ptr list \<times> ptr list \<times> ptr list \<Rightarrow> bool" where
  "sized nl na d (args, locs, st) \<longleftrightarrow> length args = na \<and> length locs = nl \<and> length st = d"

lemma slot_from_below:
  assumes "a < length ys"
  shows "(xs @ rev ys @ zs) ! (length xs + (length ys - Suc a)) = ys ! a"
    "(xs @ rev ys @ zs)[length xs + (length ys - Suc a) := x] = xs @ rev (ys[a := x]) @ zs"
proof -
  show "(xs @ rev ys @ zs) ! (length xs + (length ys - Suc a)) = ys ! a"
    unfolding nth_append_length_plus using assms by (subst nth_append) (simp add: rev_nth, linarith)
  have "(xs @ rev ys @ zs)[length xs + (length ys - Suc a) := x] = xs @ (rev ys @ zs)[length ys - Suc a := x]"
    by (subst list_update_append) (simp del: add_diff_assoc)
  also have "(rev ys @ zs)[length ys - Suc a := x] = rev (ys[a := x]) @ zs"
    using assms by (subst list_update_append) (auto simp: rev_update)
  finally show "(xs @ rev ys @ zs)[length xs + (length ys - Suc a) := x] = xs @ rev (ys[a := x]) @ zs" .
qed

lemma flat_arg:
  assumes "a < length args"
  shows "(st @ rev locs @ rev args) ! (length st + length locs + length args - Suc a) = args ! a"
    "(st @ rev locs @ rev args)[length st + length locs + length args - Suc a := x] = st @ rev locs @ rev (args[a := x])"
proof -
  have "length st + length locs + length args - Suc a = length (st @ rev locs) + (length args - Suc a)"
    using assms by simp
  with slot_from_below [OF assms, of "st @ rev locs" "[]"]
  show "(st @ rev locs @ rev args) ! (length st + length locs + length args - Suc a) = args ! a"
    "(st @ rev locs @ rev args)[length st + length locs + length args - Suc a := x] = st @ rev locs @ rev (args[a := x])"
    by (simp_all only: append_assoc append_Nil2)
qed

lemma flat_local:
  assumes "a < length locs"
  shows "(st @ rev locs @ rev args) ! (length st + length locs + length args - Suc (length args + a)) = locs ! a"
    "(st @ rev locs @ rev args)[length st + length locs + length args - Suc (length args + a) := x] =
       st @ rev (locs[a := x]) @ rev args"
proof -
  have "length st + length locs + length args - Suc (length args + a) = length st + (length locs - Suc a)"
    using assms by simp
  with slot_from_below [OF assms, of st "rev args"]
  show "(st @ rev locs @ rev args) ! (length st + length locs + length args - Suc (length args + a)) = locs ! a"
    "(st @ rev locs @ rev args)[length st + length locs + length args - Suc (length args + a) := x] =
       st @ rev (locs[a := x]) @ rev args"
    by (simp_all only:)
qed

text \<open>On the stack of the frame, an instruction does what the reference does.\<close>

lemma evalOp_flat:
  assumes "effect [(nl, na)] lt op a b d = Some d'" "straight op" "sized nl na d x"
  shows "sized nl na d' (evalOp lits op a x) \<and> stackOp na lits op a (flat x) = flat (evalOp lits op a x)"
proof -
  obtain args locs st where x: "x = (args, locs, st)" "length args = na" "length locs = nl" "length st = d"
    using assms(3) by (cases x) auto
  consider "op = BC_DUP" | "op = BC_PUSH_LOCAL" | "op = BC_PUSH_ARGUMENT" | "op = BC_PUSH_CONSTANT" | "op = BC_POP"
    | "op = BC_POP_LOCAL" | "op = BC_POP_ARGUMENT" using assms(2) by (auto simp: straight_def)
  then show ?thesis
  proof cases
    case 1
    with assms(1) x show ?thesis by (cases st) (auto split: if_splits)
  next
    case 2
    with assms(1) x flat_local(1) [of a locs st args] show ?thesis by (auto simp: add.assoc split: if_splits)
  next
    case 3
    with assms(1) x flat_arg(1) [of a args st locs] show ?thesis by (auto simp: add.assoc split: if_splits)
  next
    case 4
    with assms(1) x show ?thesis by (auto split: option.splits)
  next
    case 5
    with assms(1) x show ?thesis by (cases st) (auto split: if_splits)
  next
    case 6
    with assms(1) x flat_local(2) [of a locs "tl st" args "hd st"] show ?thesis
      by (cases st) (auto simp: add.assoc split: if_splits)
  next
    case 7
    with assms(1) x flat_arg(2) [of a args "tl st" locs "hd st"] show ?thesis
      by (cases st) (auto simp: add.assoc split: if_splits)
  qed
qed

lemma evalOp_operand:
  assumes "straight op" "bc_length op = 1"
  shows "evalOp lits op a x = evalOp lits op b x"
  using assms by (cases x) (auto simp: straight_def)

lemma evalCode_step:
  assumes "code = c # cs" "opcode_of c = Some op"
  shows "evalCode lits code x = evalCode lits (drop (bc_length op) code) (evalOp lits op (byteAt code 1) x)"
proof -
  obtain z where "bc_length op = Suc z" using gr0_implies_Suc [OF bc_length_pos] by blast
  with assms show ?thesis by (subst evalCode.simps) simp
qed

text \<open>A segment of such code runs to its end in as many steps as it has instructions.\<close>

lemma run_segment:
  "running v f env code lits ms (length pre) d \<Longrightarrow> curFrame v = f \<Longrightarrow> code = pre @ seg @ post \<Longrightarrow>
   straightCode seg \<Longrightarrow> scan env lt seg d = Some (df, mx) \<Longrightarrow> mx \<le> ms \<Longrightarrow>
   (\<And>a l. lt a = Some l \<Longrightarrow> a < length lits) \<Longrightarrow>
     \<exists>k v'. (\<forall>j. Start ext n (k + j) v = Start ext n j v') \<and>
       running v' f env code lits ms (length pre + length seg) df \<and> moves f env v v' \<and>
       (\<forall>nl na x. env = [(nl, na)] \<and> sized nl na d x \<and> stackOf v f = Some (flat x) \<longrightarrow>
          sized nl na df (evalCode lits seg x) \<and> stackOf v' f = Some (flat (evalCode lits seg x)))"
proof (induction env lt seg d arbitrary: v pre mx rule: scan.induct)
  case (1 env lt seg d)
  show ?case
  proof (cases "seg = []")
    case True
    with 1 moves_refl [OF 1(2)] show ?thesis by (intro exI [of _ 0] exI [of _ v]) (simp add: evalCode.simps)
  next
    case False
    with 1(6) obtain d' rest k where st: "scanStep env lt seg d = Some (d', rest)"
      and sc: "scan env lt rest d' = Some (df, k)" "mx = max d k" by (rule scan_stepE)
    from st obtain c cs op where c: "seg = c # cs" "opcode_of c = Some op" "bc_length op \<le> length seg"
      "rest = drop (bc_length op) seg" "effect env lt op (byteAt seg 1) (byteAt seg 2) d = Some d'" by (rule scanStepE)
    have op: "straight op" "straightCode rest"
      using 1(5) c(1,2,4) by (auto simp: straightCode.simps [of "c # cs"] drop_Cons')
    have ci: "code ! length pre = c" "length pre < length code" "drop (length pre) code = seg @ post"
      using 1(4) c(1) by simp_all
    have d': "d' \<le> ms" using scan_max [OF sc(1)] sc(2) 1(7) by simp
    have sp: "scanStep env lt (drop (length pre) code) d = Some (d', rest @ post)"
      using scanStep_append [OF st] ci(3) by simp
    have "opcode_of (code ! length pre) = Some op" using ci(1) c(2) by simp
    then have "\<exists>w. step ext n v = Inr (True, w) \<and> running w f env code lits ms (length pre + bc_length op) d' \<and>
      moves f env v w \<and> (length env = 1 \<longrightarrow> stackOf w f =
        map_option (stackOp (snd (hd env)) lits op (byteAt (drop (length pre) code) 1)) (stackOf v f))"
      by (intro running_straight [OF 1(2,3) op(1) sp _ ci(2) _ d']) (use 1(8) in auto)
    then obtain w where
      w: "step ext n v = Inr (True, w)" "running w f env code lits ms (length pre + bc_length op) d'" "moves f env v w"
      "length env = 1 \<longrightarrow> stackOf w f = map_option (stackOp (snd (hd env)) lits op (byteAt (drop (length pre) code) 1)) (stackOf v f)"
      by (elim exE conjE) (rule that)
    from sp obtain op' where "opcode_of (hd (drop (length pre) code)) = Some op'"
      "effect env lt op' (byteAt (drop (length pre) code) 1) (byteAt (drop (length pre) code) 2) d = Some d'"
      by (rule scanStepE) auto
    then have eff: "effect env lt op (byteAt (drop (length pre) code) 1) (byteAt (drop (length pre) code) 2) d = Some d'"
      using c(1,2) ci(3) by simp
    have b1: "evalOp lits op (byteAt (drop (length pre) code) 1) x = evalOp lits op (byteAt seg 1) x" for x
    proof (cases "length seg = 1")
      case True
      with c(3) have "bc_length op \<le> 1" by simp
      moreover have "0 < bc_length op" by (rule bc_length_pos)
      ultimately have "bc_length op = 1" by linarith
      with op(1) show ?thesis by (rule evalOp_operand)
    next
      case False
      then have "1 < length seg" using c(1) by (cases "length seg") auto
      then show ?thesis using ci(3) by (simp add: byteAt_def nth_append)
    qed
    let ?pre = "pre @ take (bc_length op) seg"
    have lp: "length ?pre = length pre + bc_length op" using c(3) by simp
    have "running w f env code lits ms (length ?pre) d'" using w(2) by (simp only: lp)
    moreover have "code = ?pre @ rest @ post" using 1(4) c(4) by simp
    moreover have "k \<le> ms" using sc(2) 1(7) by simp
    ultimately obtain m v' where v': "\<forall>j. Start ext n (m + j) w = Start ext n j v'"
      "running v' f env code lits ms (length ?pre + length rest) df" "moves f env w v'"
      "\<forall>nl na x. env = [(nl, na)] \<and> sized nl na d' x \<and> stackOf w f = Some (flat x) \<longrightarrow>
          sized nl na df (evalCode lits rest x) \<and> stackOf v' f = Some (flat (evalCode lits rest x))"
      using 1(1) [OF False st refl, of w ?pre k] moves_curFrame [OF w(3)] 1(3) op(2) sc(1) 1(8) by blast
    have len: "length ?pre + length rest = length pre + length seg" using lp c(3,4) by simp
    have "running v' f env code lits ms (length pre + length seg) df" using v'(2) unfolding len .
    moreover have "Start ext n (Suc m + j) v = Start ext n j v'" for j using w(1) v'(1) by simp
    moreover have "sized nl na df (evalCode lits seg x) \<and> stackOf v' f = Some (flat (evalCode lits seg x))"
      if x: "env = [(nl, na)] \<and> sized nl na d x \<and> stackOf v f = Some (flat x)" for nl na x
    proof -
      have "sized nl na d' (evalOp lits op (byteAt seg 1) x) \<and> stackOf w f = Some (flat (evalOp lits op (byteAt seg 1) x))"
        using evalOp_flat [of nl na lt op _ _ d d' x lits, OF eff [unfolded conjunct1 [OF x]] op(1)] w(4) x b1 by simp
      with v'(4) [rule_format, of nl na "evalOp lits op (byteAt seg 1) x"] x
      show ?thesis unfolding evalCode_step [OF c(1,2), of lits x] c(4) by blast
    qed
    ultimately show ?thesis using moves_trans [OF 1(2) w(3) v'(3)] by blast
  qed
qed

end
