(* ===== verification/CallLaws.thy ===== *)
theory CallLaws
  imports Activation
begin

text \<open>
  Calls: the frame a method is invoked in, the return from it, and the call of a method whose
  body sends nothing, from the invocation to the return.
\<close>

section \<open>New frames\<close>

definition frameName :: "vm \<Rightarrow> string option" where
  "frameName v = (case heap v (frameClass v) of None \<Rightarrow> None
     | Some c \<Rightarrow> if o_kind c = KClass \<and> 2 < length (o_fields c) then strOf v (o_fields c ! 2) else None)"

definition counterObject :: "vm \<Rightarrow> int \<Rightarrow> vmobject" where
  "counterObject v i = \<lparr>o_kind = KInteger, o_size = sizeof_VMObject + 4, o_fields = [integerClass v],
     o_slots = [], o_data = IntData i\<rparr>"

definition frameObject :: "ptr list \<Rightarrow> ptr list \<Rightarrow> vmobject" where
  "frameObject fs sl =
     \<lparr>o_kind = KFrame, o_size = sizeof_VMObject + 24 + int (length sl) * sizeof_pointer,
      o_fields = fs, o_slots = sl, o_data = NoData\<rparr>"

text \<open>The state with a frame at the end of the heap, and its three integers behind it.\<close>

definition withFrame :: "vm \<Rightarrow> ptr list \<Rightarrow> ptr list \<Rightarrow> int \<Rightarrow> int \<Rightarrow> int \<Rightarrow> vm" where
  "withFrame v fs sl lo bi sp =
     v\<lparr>heap := (heap v)(nextPtr v \<mapsto> frameObject (fs @ [nextPtr v + 3, nextPtr v + 2, nextPtr v + 1]) sl,
         nextPtr v + 1 \<mapsto> counterObject v lo, nextPtr v + 2 \<mapsto> counterObject v bi,
         nextPtr v + 3 \<mapsto> counterObject v sp),
       nextPtr := nextPtr v + 4\<rparr>"

lemma withFrame_heap:
  "heap (withFrame v fs sl lo bi sp) (nextPtr v) = Some (frameObject (fs @ [nextPtr v + 3, nextPtr v + 2, nextPtr v + 1]) sl)"
  "heap (withFrame v fs sl lo bi sp) (nextPtr v + 1) = Some (counterObject v lo)"
  "heap (withFrame v fs sl lo bi sp) (nextPtr v + 2) = Some (counterObject v bi)"
  "heap (withFrame v fs sl lo bi sp) (nextPtr v + 3) = Some (counterObject v sp)"
  "p < nextPtr v \<Longrightarrow> heap (withFrame v fs sl lo bi sp) p = heap v p"
  by (simp_all add: withFrame_def)

lemma withFrame_le:
  assumes "vm_ok v"
  shows "vm_le v (withFrame v fs sl lo bi sp)" and "vm_ok (withFrame v fs sl lo bi sp)"
proof -
  have "withFrame v fs sl lo bi sp = v\<lparr>heap := heap (withFrame v fs sl lo bi sp), nextPtr := nextPtr v + 4, rootTable := rootTable v\<rparr>"
    by (simp add: withFrame_def)
  from vm_le_alloc [OF assms _ _ this] assms
  show "vm_le v (withFrame v fs sl lo bi sp)" "vm_ok (withFrame v fs sl lo bi sp)"
    by (simp_all add: withFrame_heap(5) withFrame_def vm_ok_fresh)
qed

lemma withFrameI:
  assumes "heap w = (heap v)(nextPtr v \<mapsto> frameObject (fs @ [nextPtr v + 3, nextPtr v + 2, nextPtr v + 1]) sl,
         nextPtr v + 1 \<mapsto> counterObject v lo, nextPtr v + 2 \<mapsto> counterObject v bi,
         nextPtr v + 3 \<mapsto> counterObject v sp)"
    and "w = v\<lparr>heap := heap w, nextPtr := nextPtr v + 4\<rparr>"
  shows "w = withFrame v fs sl lo bi sp"
  using assms(2) unfolding withFrame_def assms(1) .

lemma NewInteger_eq:
  "NewInteger i w = Inr (nextPtr w, w\<lparr>heap := (heap w)(nextPtr w \<mapsto> counterObject w i), nextPtr := nextPtr w + 1\<rparr>)"
  by (simp add: NewInteger_def allocate_def counterObject_def)

lemma setMember_eq:
  assumes "heap w p = Some ob" "o_kind ob \<in> set ks" "i < length (o_fields ob)"
  shows "setMember ks i p x w = Inr ((), w\<lparr>heap := (heap w)(p \<mapsto> ob\<lparr>o_fields := (o_fields ob)[i := x]\<rparr>)\<rparr>)"
  using assms by (simp add: setMember_def derefAs_def deref_def store_def)

lemma VMFrame_new_run:
  assumes "sz < 536870912"
  shows "VMFrame_new (int sz) v = Inr (nextPtr v, withFrame v [NULL, nilObject v, nilObject v, nilObject v]
     (replicate sz (nilObject v)) 0 0 0)"
proof -
  let ?n = "nextPtr v" and ?nil = "nilObject v"
  let ?ob = "\<lambda>a b c. frameObject [NULL, ?nil, ?nil, ?nil, a, b, c] (replicate sz ?nil)"
  let ?c = "counterObject v 0"
  let ?v1 = "v\<lparr>heap := (heap v)(?n \<mapsto> ?ob ?nil ?nil ?nil), nextPtr := ?n + 1\<rparr>"
  let ?v2 = "v\<lparr>heap := (heap v)(?n \<mapsto> ?ob ?nil ?nil (?n + 1), ?n + 1 \<mapsto> ?c), nextPtr := ?n + 2\<rparr>"
  let ?v3 = "v\<lparr>heap := (heap v)(?n \<mapsto> ?ob ?nil (?n + 2) (?n + 1), ?n + 1 \<mapsto> ?c, ?n + 2 \<mapsto> ?c), nextPtr := ?n + 3\<rparr>"
  have new: "newFields v 6 = [NULL, ?nil, ?nil, ?nil, ?nil, ?nil, ?nil]"
    by (simp add: newFields_def eval_nat_numeral)
  have upd: "(?ob a b c)\<lparr>o_fields := (o_fields (?ob a b c))[6 := x]\<rparr> = ?ob a b x"
    "(?ob a b c)\<lparr>o_fields := (o_fields (?ob a b c))[5 := x]\<rparr> = ?ob a x c"
    "(?ob a b c)\<lparr>o_fields := (o_fields (?ob a b c))[4 := x]\<rparr> = ?ob x b c" for a b c x
    by (simp_all add: frameObject_def eval_nat_numeral)
  have kind: "o_kind (?ob a b c) \<in> set [KFrame]" "length (o_fields (?ob a b c)) = 7" for a b c
    by (simp_all add: frameObject_def)
  have 1: "allocate \<lparr>o_kind = KFrame, o_size = sizeof_VMObject + 24 + int sz * sizeof_pointer,
      o_fields = newFields v 6, o_slots = replicate sz ?nil, o_data = NoData\<rparr> v = Inr (?n, ?v1)"
    by (simp add: allocate_def new frameObject_def)
  have 2: "bindE (NewInteger 0) (setMember [KFrame] 6 ?n) ?v1 = Inr ((), ?v2)"
    using kind by (simp add: NewInteger_eq setMember_eq upd fun_upd_twist [of ?n] counterObject_def)
  have 3: "bindE (NewInteger 0) (setMember [KFrame] 5 ?n) ?v2 = Inr ((), ?v3)"
    using kind by (simp add: NewInteger_eq setMember_eq upd fun_upd_twist [of ?n] counterObject_def)
  have 4: "bindE (NewInteger 0) (setMember [KFrame] 4 ?n) ?v3 = Inr ((), withFrame v [NULL, ?nil, ?nil, ?nil] (replicate sz ?nil) 0 0 0)"
    using kind by (simp add: NewInteger_eq setMember_eq upd fun_upd_twist [of ?n] counterObject_def withFrame_def)
  have assoc: "bindE m (\<lambda>x. thenE (g x) k) = thenE (bindE m g) k" for m :: "ptr vmM" and g and k :: "ptr vmM"
    by (rule ext) (simp add: bindE_def thenE_def split: sum.splits)
  show ?thesis using assms 1 2 3 4 by (simp add: VMFrame_new_def assoc)
qed

lemma store_withFrame:
  "store (nextPtr v) (frameObject (fs' @ [nextPtr v + 3, nextPtr v + 2, nextPtr v + 1]) sl') (withFrame v fs sl lo bi sp) =
     Inr ((), withFrame v fs' sl' lo bi sp)"
  unfolding store_def modifyE_run by (auto intro!: withFrameI simp: withFrame_def fun_eq_iff)

lemma setMember_withFrame:
  assumes "length fs = 4" "i < 4" "KFrame \<in> set ks"
  shows "setMember ks i (nextPtr v) x (withFrame v fs sl lo bi sp) = Inr ((), withFrame v (fs[i := x]) sl lo bi sp)"
proof -
  have "(frameObject (fs @ [nextPtr v + 3, nextPtr v + 2, nextPtr v + 1]) sl)
      \<lparr>o_fields := (o_fields (frameObject (fs @ [nextPtr v + 3, nextPtr v + 2, nextPtr v + 1]) sl))[i := x]\<rparr> =
    frameObject (fs[i := x] @ [nextPtr v + 3, nextPtr v + 2, nextPtr v + 1]) sl"
    using assms by (simp add: frameObject_def list_update_append)
  with store_withFrame assms show ?thesis
    by (simp add: setMember_def derefAs_def deref_def withFrame_heap frameObject_def)
qed


lemma setInt_withFrame:
  "SetEmbeddedInteger (nextPtr v + 1) i (withFrame v fs sl lo bi sp) = Inr ((), withFrame v fs sl i bi sp)"
  "SetEmbeddedInteger (nextPtr v + 2) i (withFrame v fs sl lo bi sp) = Inr ((), withFrame v fs sl lo i sp)"
  "SetEmbeddedInteger (nextPtr v + 3) i (withFrame v fs sl lo bi sp) = Inr ((), withFrame v fs sl lo bi i)"
proof -
  have upd: "(counterObject v k)\<lparr>o_data := IntData i\<rparr> = counterObject v i" "o_data (counterObject v k) = IntData k" for k
    by (simp_all add: counterObject_def)
  show "SetEmbeddedInteger (nextPtr v + 1) i (withFrame v fs sl lo bi sp) = Inr ((), withFrame v fs sl i bi sp)"
    "SetEmbeddedInteger (nextPtr v + 2) i (withFrame v fs sl lo bi sp) = Inr ((), withFrame v fs sl lo i sp)"
    "SetEmbeddedInteger (nextPtr v + 3) i (withFrame v fs sl lo bi sp) = Inr ((), withFrame v fs sl lo bi i)"
    by (simp_all add: SetEmbeddedInteger_def deref_def store_def withFrame_heap [simplified] upd) (auto intro!: withFrameI simp: withFrame_def fun_eq_iff)
qed

lemma member_withFrame:
  assumes "length fs = 4" "KFrame \<in> set ks"
  shows "i < 4 \<Longrightarrow> getMember ks i (nextPtr v) (withFrame v fs sl lo bi sp) = Inr (fs ! i, withFrame v fs sl lo bi sp)"
    "getMember ks 4 (nextPtr v) (withFrame v fs sl lo bi sp) = Inr (nextPtr v + 3, withFrame v fs sl lo bi sp)"
    "getMember ks 5 (nextPtr v) (withFrame v fs sl lo bi sp) = Inr (nextPtr v + 2, withFrame v fs sl lo bi sp)"
    "getMember ks 6 (nextPtr v) (withFrame v fs sl lo bi sp) = Inr (nextPtr v + 1, withFrame v fs sl lo bi sp)"
  using assms by (simp_all add: getMember_def derefAs_def deref_def withFrame_heap frameObject_def nth_append)

definition newFrame :: "vm \<Rightarrow> ptr \<Rightarrow> ptr \<Rightarrow> ptr list" where
  "newFrame v prev m = [frameClass v, if prev \<noteq> NULL then prev else nilObject v, nilObject v, m]"

lemma methodParts_reads:
  assumes "methodParts v m = Some (code, lits, nl, na, int ms)"
  shows "MethodGetNumberOfArguments m v = Inr (int na, v)" "GetNumberOfLocals m v = Inr (int nl, v)"
    "GetMaximumNumberOfStackElements m v = Inr (int ms, v)"
proof -
  obtain mo where mo: "heap v m = Some mo" "o_kind mo = KMethod" "length (o_fields mo) = 8"
    "intOf v (o_fields mo ! 3) = Some (int nl)" "intOf v (o_fields mo ! 6) = Some (int na)"
    "intOf v (o_fields mo ! 4) = Some (int ms)"
    using assms by (auto simp: methodParts_def split: option.splits if_splits payload.splits)
  then show "MethodGetNumberOfArguments m v = Inr (int na, v)" "GetNumberOfLocals m v = Inr (int nl, v)"
    "GetMaximumNumberOfStackElements m v = Inr (int ms, v)"
    by (simp_all add: MethodGetNumberOfArguments_def GetNumberOfLocals_def GetMaximumNumberOfStackElements_def
        getMember_def derefAs_def deref_def GetEmbeddedInteger_run)
qed

lemma NewFrame_run:
  assumes ok: "vm_ok v" and m: "methodParts v m = Some (code, lits, nl, na, int ms)"
    and fc: "frameName v = Some s" and sz: "na + nl + ms < 536870912"
  shows "NewFrame prev m v = Inr (nextPtr v,
     (withFrame v (newFrame v prev m) (replicate (na + nl + ms) (nilObject v)) (int na) 0 (int (na + nl) - 1))
       \<lparr>rootTable := (rootTable v)(s \<mapsto> nextPtr v)\<rparr>)"
proof -
  let ?sl = "replicate (na + nl + ms) (nilObject v)" and ?n = "nextPtr v"
  have mw: "methodParts (withFrame v fs sl lo bi sp) m = Some (code, lits, nl, na, int ms)" for fs sl lo bi sp
    by (rule methodParts_le [OF withFrame_le(1) [OF ok] m])
  note reads = methodParts_reads [OF m] methodParts_reads [OF mw]
  have fcl: "frameClass (withFrame v fs sl lo bi sp) = frameClass v" "rootTable (withFrame v fs sl lo bi sp) = rootTable v"
    for fs sl lo bi sp by (simp_all add: withFrame_def)
  obtain c where c: "heap v (frameClass v) = Some c" "o_kind c = KClass" "2 < length (o_fields c)" "strOf v (o_fields c ! 2) = Some s"
    using fc by (auto simp: frameName_def split: option.splits if_splits)
  have cw: "getMember [KClass] 2 (frameClass v) (withFrame v fs sl lo bi sp) = Inr (o_fields c ! 2, withFrame v fs sl lo bi sp)"
    "GetStdString (o_fields c ! 2) (withFrame v fs sl lo bi sp) = Inr (s, withFrame v fs sl lo bi sp)" for fs sl lo bi sp
    using vm_le_heap [OF withFrame_le(1) [OF ok] c(1)] vm_le_strOf [OF withFrame_le(1) [OF ok] c(4)] c(2,3)
    by (simp_all add: getMember_def derefAs_def deref_def GetStdString_run)
  have new: "VMFrame_new (int na + int nl + int ms) v = Inr (?n, withFrame v [NULL, nilObject v, nilObject v, nilObject v] ?sl 0 0 0)"
    using VMFrame_new_run [OF sz] by simp
  have upd: "[a, b, c, d][0 := x] = [x, b, c, d]" "[a, b, c, d][1 := x] = [a, x, c, d]" "[a, b, c, d][3 := x] = [a, b, c, x]"
    "[a, b, c, d] ! 3 = d" for a b c d x :: ptr by (simp_all add: eval_nat_numeral)
  show ?thesis
    by (simp add: upd NewFrame_def reads new fcl SetClass_def FrameSetMethod_def SetPreviousFrame_def setMember_withFrame
        ResetStackPointer_def FrameGetMethod_def member_withFrame SetLocalOffset_def SetStackPointerValue_def
        SetBytecodeIndex_def setInt_withFrame cw SetGlobal_def newFrame_def
        del: One_nat_def add_2_eq_Suc' list_update.simps nth_Cons_numeral)
qed


section \<open>Entering a method\<close>

text \<open>The state in which a method starts: its frame at the end of the heap is the current one.\<close>

definition entered :: "vm \<Rightarrow> ptr \<Rightarrow> ptr \<Rightarrow> string \<Rightarrow> ptr list \<Rightarrow> nat \<Rightarrow> nat \<Rightarrow> vm" where
  "entered v f m s sl nl na =
     (withFrame v (newFrame v f m) sl (int na) 0 (int (na + nl) - 1))
       \<lparr>rootTable := (rootTable v)(s \<mapsto> nextPtr v), curFrame := nextPtr v\<rparr>"

lemma entered_heap:
  "heap (entered v f m s sl nl na) = heap (withFrame v (newFrame v f m) sl (int na) 0 (int (na + nl) - 1))"
  by (simp add: entered_def)

lemma entered_old: "p < nextPtr v \<Longrightarrow> heap (entered v f m s sl nl na) p = heap v p"
  by (simp add: entered_heap withFrame_heap)

lemma frameOf_cong: "heap w f = heap v f \<Longrightarrow> frameOf w f = frameOf v f"
  by (simp add: frameOf_def)

lemma intOf_cong: "heap w p = heap v p \<Longrightarrow> intOf w p = intOf v p"
  by (simp add: intOf_def)

lemma methodParts_cong:
  assumes "heap w = heap v"
  shows "methodParts w m = methodParts v m"
proof -
  have "intOf w = intOf v" by (rule ext) (simp add: intOf_def assms)
  then show ?thesis unfolding methodParts_def assms by (simp only:)
qed

lemma stackOf_cong:
  assumes "frameOf w f = frameOf v f" "\<And>p. intOf w p = intOf v p"
  shows "stackOf w f = stackOf v f" "roomOf w f = roomOf v f"
  unfolding roomOf_def stackOf_def assms by (rule refl)+

lemma vm_ok_cong: "heap w = heap v \<Longrightarrow> nextPtr w = nextPtr v \<Longrightarrow> symtab w = symtab v \<Longrightarrow> vm_ok w = vm_ok v"
  by (simp add: vm_ok_def symOf_def)

lemma entered_ok:
  assumes "vm_ok v"
  shows "vm_ok (entered v f m s sl nl na)"
  using vm_ok_cong [OF entered_heap] withFrame_le(2) [OF assms] by (simp add: entered_def)

lemma stackOf_below:
  assumes "vm_ok v" "stackOf v f = Some xs" "\<And>p. p < nextPtr v \<Longrightarrow> heap w p = heap v p"
  shows "stackOf w f = Some xs" "roomOf w f = roomOf v f"
proof -
  obtain ob where ob: "frameOf v f = Some ob" "intOf v (o_fields ob ! 4) = Some (int (length xs) - 1)"
    by (rule stackOfE [OF assms(2)])
  have "f < nextPtr v" using vm_ok_bound [OF assms(1)] frameOf_facts(1) [OF ob(1)] by blast
  moreover have "o_fields ob ! 4 < nextPtr v" using vm_ok_bound [OF assms(1)] ob(2) by (auto simp: intOf_Some)
  ultimately have "frameOf w f = frameOf v f" "intOf w (o_fields ob ! 4) = intOf v (o_fields ob ! 4)"
    using assms(3) by (auto intro: frameOf_cong intOf_cong)
  with ob assms(2) show "stackOf w f = Some xs" "roomOf w f = roomOf v f"
    by (simp_all add: stackOf_def roomOf_def)
qed

lemma entered_frame:
  assumes "length sl < 536870912"
  shows "frameOf (entered v f m s sl nl na) (nextPtr v) =
     Some (frameObject (newFrame v f m @ [nextPtr v + 3, nextPtr v + 2, nextPtr v + 1]) sl)"
  using assms
  by (simp add: frameOf_def entered_heap withFrame_heap frameObject_def newFrame_def array_size_ok_def
      sizeof_pointer_def nth_append)

lemma entered_ArraySet:
  assumes "length sl < 536870912" "i < length sl"
  shows "ArraySet (nextPtr v) (int i) x (entered v f m s sl nl na) = Inr ((), entered v f m s (sl[i := x]) nl na)"
proof -
  have "ArraySet (nextPtr v) (int i) x (entered v f m s sl nl na) = Inr ((), (entered v f m s sl nl na)
     \<lparr>heap := (heap (entered v f m s sl nl na))(nextPtr v \<mapsto> frameObject (newFrame v f m @ [nextPtr v + 3, nextPtr v + 2, nextPtr v + 1]) (sl[i := x]))\<rparr>)"
    using assms by (subst ArraySet_run [OF frameOf_facts(9) [OF entered_frame]]) (simp_all add: frameObject_def)
  moreover have "(heap (entered v f m s sl nl na))(nextPtr v \<mapsto> frameObject (newFrame v f m @ [nextPtr v + 3, nextPtr v + 2, nextPtr v + 1]) (sl[i := x]))
      = heap (entered v f m s (sl[i := x]) nl na)"
    by (auto simp: entered_heap withFrame_def fun_eq_iff)
  ultimately show ?thesis by (simp add: entered_def withFrame_def)
qed

lemma invokeMethod_run:
  assumes ok: "vm_ok v" and m: "methodParts v m = Some (code, lits, nl, na, int ms)"
    and fc: "frameName v = Some s" and sz: "na + nl + ms < 536870912"
    and f: "curFrame v = f" "stackOf v f = Some xs" "na \<le> length xs"
  shows "invokeMethod m f v = Inr ((), entered v f m s (rev (take na xs) @ replicate (nl + ms) (nilObject v)) nl na)"
proof -
  let ?sl = "\<lambda>i. map (\<lambda>j. xs ! (na - 1 - j)) [0..<i] @ drop i (replicate (na + nl + ms) (nilObject v))"
  let ?w = "\<lambda>i. entered v f m s (?sl i) nl na"
  have len: "i \<le> na \<Longrightarrow> length (?sl i) = na + nl + ms" for i by simp
  have st: "stackOf (entered v f m s sl nl na) f = Some xs" for sl
    by (rule stackOf_below(1) [OF ok f(2)]) (rule entered_old)
  let ?body = "\<lambda>i. bindE (GetStackElement f (int na - 1 - int i)) (\<lambda>x. ArraySet (nextPtr v) (int i) x)"
  have "\<exists>w. forE [0..<na] ?body (?w 0) = Inr ((), w) \<and> w = ?w na"
  proof (rule forE_total [where I = "\<lambda>i w. w = ?w i"])
    fix i w assume i: "i < na" "w = ?w i"
    have ge: "GetStackElement f (int na - 1 - int i) (?w i) = Inr (xs ! (na - 1 - i), ?w i)"
    proof -
      have "int na - 1 - int i = int (na - 1 - i)" using i(1) by linarith
      with GetStackElement_run [OF st, of "na - 1 - i"] i(1) f(3) show ?thesis by simp
    qed
    have "(?sl i)[i := xs ! (na - 1 - i)] = ?sl (Suc i)"
      using i(1) by (intro nth_equalityI) (auto simp: nth_append nth_list_update less_Suc_eq)
    then have "ArraySet (nextPtr v) (int i) (xs ! (na - 1 - i)) (?w i) = Inr ((), ?w (Suc i))"
      using entered_ArraySet [of "?sl i" i v "xs ! (na - 1 - i)" f m s nl na] i(1) sz len [of i] by simp
    with ge i(2) show "\<exists>w'. ?body i w = Inr ((), w') \<and> w' = ?w (Suc i)" by simp
  qed simp_all
  then have loop: "forE [0..<na] ?body (?w 0) = Inr ((), ?w na)" by blast
  have "map (\<lambda>j. xs ! (na - 1 - j)) [0..<na] = rev (take na xs)"
    using f(3) by (intro nth_equalityI) (auto simp: rev_nth)
  then have fin: "?sl na = rev (take na xs) @ replicate (nl + ms) (nilObject v)" by simp
  have push: "PushNewFrame m v = Inr (nextPtr v, ?w 0)"
    using NewFrame_run [OF ok m fc sz, of f]
    by (simp add: PushNewFrame_def GetFrame_def SetFrame_def f(1) entered_def)
  have w0: "FrameGetMethod (nextPtr v) (?w 0) = Inr (m, ?w 0)"
    using entered_frame [of "?sl 0" v f m s nl na] sz len [of 0]
    by (simp add: FrameGetMethod_def frameOf_member frameObject_def newFrame_def nth_append)
  have "methodParts (?w 0) m = methodParts (withFrame v (newFrame v f m) (?sl 0) (int na) 0 (int (na + nl) - 1)) m"
    by (rule methodParts_cong) (rule entered_heap)
  then have "methodParts (?w 0) m = Some (code, lits, nl, na, int ms)"
    using methodParts_le [OF withFrame_le(1) [OF ok] m] by simp
  note reads = methodParts_reads [OF this]
  show ?thesis
    using push w0 reads(1) loop unfolding fin by (simp add: invokeMethod_def CopyArgumentsFrom_def)
qed


lemma entered_running:
  assumes ok: "vm_ok v" and m: "methodParts v m = Some (code, lits, nl, na, int ms)"
    and sl: "length sl = na + nl + ms" "na + nl + ms < 536870912"
  shows "running (entered v f m s sl nl na) (nextPtr v) [(nl, na)] code lits ms 0 0"
    and "chainFrames (entered v f m s sl nl na) (nextPtr v) [(nl, na)] = {nextPtr v}"
proof -
  let ?w = "entered v f m s sl nl na" and ?n = "nextPtr v"
  let ?fo = "frameObject (newFrame v f m @ [?n + 3, ?n + 2, ?n + 1]) sl"
  have fr: "frameOf ?w ?n = Some ?fo" using entered_frame sl by simp
  have fs: "o_fields ?fo ! 3 = m" "o_fields ?fo ! 4 = ?n + 3" "o_fields ?fo ! 5 = ?n + 2" "o_fields ?fo ! 6 = ?n + 1"
    "o_slots ?fo = sl"
    by (simp_all add: frameObject_def newFrame_def nth_append)
  have ints: "intOf ?w (?n + 3) = Some (int (na + nl) - 1)" "intOf ?w (?n + 2) = Some 0" "intOf ?w (?n + 1) = Some (int na)"
    by (simp_all add: intOf_Some entered_heap withFrame_heap [simplified] counterObject_def)
  have st: "stackOf ?w ?n = Some (rev (take (na + nl) sl))"
    using stackOfI(1) [OF fr, of "na + nl"] ints(1) fs sl(1) by simp
  obtain mo where mo: "heap v m = Some mo" "methodInts mo \<subseteq> {p. intOf v p \<noteq> None}"
    using m by (auto simp: methodParts_def methodInts_def split: option.splits if_splits payload.splits)
  have lt: "intOf v p \<noteq> None \<Longrightarrow> p < ?n" for p using vm_ok_bound [OF ok] by (auto simp: intOf_Some)
  have "m < ?n" using vm_ok_bound [OF ok mo(1)] by simp
  then have mw: "heap ?w m = Some mo" using mo(1) entered_old by simp
  have "methodParts ?w m = methodParts (withFrame v (newFrame v f m) sl (int na) 0 (int (na + nl) - 1)) m"
    by (rule methodParts_cong) (rule entered_heap)
  then have mp: "methodParts ?w m = Some (code, lits, nl, na, int ms)"
    using methodParts_le [OF withFrame_le(1) [OF ok] m] by simp
  have dis: "methodInts mo \<inter> counters ?fo = {}"
    using mo(2) lt unfolding counters_def fs by fastforce
  have "contexts (counters ?fo) ?w ?n [(nl, na)]"
    using fr ints(3) sl(1) unfolding counters_def fs by (simp add: fs(4,5) del: One_nat_def add_2_eq_Suc')
  then show "running ?w ?n [(nl, na)] code lits ms 0 0"
    unfolding running_def using fr st mw mp dis ints(2) sl by (simp add: fs del: One_nat_def add_2_eq_Suc')
  show "chainFrames ?w ?n [(nl, na)] = {?n}" using fr by simp
qed

lemma entered_stack:
  assumes "length sl = na + nl + ms" "na + nl + ms < 536870912"
  shows "stackOf (entered v f m s sl nl na) (nextPtr v) = Some (rev (take (na + nl) sl))"
proof -
  let ?w = "entered v f m s sl nl na" and ?n = "nextPtr v"
  let ?fo = "frameObject (newFrame v f m @ [?n + 3, ?n + 2, ?n + 1]) sl"
  have fr: "frameOf ?w ?n = Some ?fo" using entered_frame assms by simp
  have "o_fields ?fo ! 4 = ?n + 3" "o_slots ?fo = sl" by (simp_all add: frameObject_def newFrame_def nth_append)
  moreover have "intOf ?w (?n + 3) = Some (int (na + nl) - 1)"
    by (simp add: intOf_Some entered_heap withFrame_heap [simplified] counterObject_def)
  ultimately show ?thesis using stackOfI(1) [OF fr, of "na + nl"] assms(1) by simp
qed

section \<open>Returning\<close>

definition popped :: "vm \<Rightarrow> ptr \<Rightarrow> vmobject \<Rightarrow> vm" where
  "popped v g gob = v\<lparr>curFrame := o_fields gob ! 1,
     heap := (heap v)(g \<mapsto> gob\<lparr>o_fields := (o_fields gob)[1 := nilObject v]\<rparr>)\<rparr>"

lemma popFrame_run:
  assumes "curFrame v = g" "frameOf v g = Some gob"
  shows "popFrame v = Inr (g, popped v g gob)"
proof -
  let ?v1 = "v\<lparr>curFrame := o_fields gob ! 1\<rparr>"
  have "setMember [KFrame] 1 g (nilObject v) ?v1 = Inr ((), popped v g gob)"
    using frameOf_facts [OF assms(2)] by (subst setMember_eq [of _ _ gob]) (simp_all add: popped_def)
  then show ?thesis
    by (simp add: popFrame_def GetFrame_def SetFrame_def assms(1) GetPreviousFrame_def frameOf_member [OF assms(2)]
        ClearPreviousFrame_def)
qed

lemma intOf_frame: "frameOf v g = Some gob \<Longrightarrow> intOf v g = None"
  using frameOf_facts(1,3) by (simp add: intOf_def)

lemma popped_other:
  assumes "frameOf v g = Some gob"
  shows "p \<noteq> g \<Longrightarrow> heap (popped v g gob) p = heap v p" and "intOf (popped v g gob) p = intOf v p"
proof -
  show 1: "p \<noteq> g \<Longrightarrow> heap (popped v g gob) p = heap v p" by (simp add: popped_def)
  show "intOf (popped v g gob) p = intOf v p"
    using frameOf_facts(1,3) [OF assms] by (simp add: intOf_def popped_def)
qed

lemma popFrameAndPushResult_run:
  assumes g: "curFrame v = g" "frameOf v g = Some gob" "o_fields gob ! 1 = f" "f \<noteq> g"
    and m: "methodParts v (o_fields gob ! 3) = Some (code, lits, nl, na, int ms)"
    and f: "stackOf v f = Some (args @ rest)" "length args = na" "0 < roomOf v f + na"
  shows "\<exists>v'. popFrameAndPushResult res v = Inr ((), v') \<and> stackOf v' f = Some (res # rest) \<and>
     roomOf v' f = roomOf v f + na - 1 \<and> frameStep f (popped v g gob) v' \<and> curFrame v' = f"
proof -
  let ?w = "popped v g gob" and ?m = "o_fields gob ! 3"
  note go = frameOf_facts [OF g(2)]
  have cur: "curFrame ?w = f" using g(3) by (simp add: popped_def)
  have gm: "FrameGetMethod g ?w = Inr (?m, ?w)"
    using go by (simp add: FrameGetMethod_def getMember_def derefAs_def deref_def popped_def)
  have "?m \<noteq> g" using m go(1,2) by (auto simp: methodParts_def)
  then have "heap ?w ?m = heap v ?m" by (simp add: popped_def)
  then have "methodParts ?w ?m = methodParts v ?m"
    unfolding methodParts_def by (simp add: popped_other(2) [OF g(2)] cong: option.case_cong if_cong)
  note na = methodParts_reads(1) [OF this [unfolded m]]
  have fw: "frameOf ?w f = frameOf v f" by (rule frameOf_cong) (rule popped_other(1) [OF g(2,4)])
  then have sw: "stackOf ?w (curFrame ?w) = Some (args @ rest)" "roomOf ?w (curFrame ?w) = roomOf v f"
    using f(1) stackOf_cong [OF fw popped_other(2) [OF g(2)]] unfolding cur by simp_all
  obtain u where u: "forE [0..<nat (int na)] (\<lambda>_. thenE (bindE GetFrame Pop) (returnE ())) ?w = Inr ((), u)"
    "stackOf u (curFrame u) = Some rest" "roomOf u (curFrame u) = roomOf v f + na" "frameStep f ?w u"
    using current_stack.pop_many [OF sw(1), of "[0..<nat (int na)]"] f(2) sw(2) cur by auto
  have cu: "curFrame u = f" using frameStep_curFrame [OF u(4)] cur by simp
  obtain v' where v': "Push f res u = Inr ((), v')" "stackOf v' f = Some (res # rest)"
    "roomOf v' f = roomOf u f - 1" "frameStep f u v'"
    using frame_stack.push_room [of u f rest res] u(2,3) f(3) cu by auto
  have "popFrameAndPushResult res v = Inr ((), v')"
    using u(1) by (simp add: popFrameAndPushResult_def popFrame_run [OF g(1,2)] gm na GetFrame_def cu v'(1))
  moreover have "curFrame v' = f" using frameStep_curFrame [OF v'(4)] cu by simp
  ultimately show ?thesis using v' u(3) cu frameStep_trans [OF u(4) v'(4)] by simp
qed


section \<open>Calls of methods that send nothing\<close>

lemma keeps_below:
  assumes "vm_ok v" "\<And>p. p < nextPtr v \<Longrightarrow> heap w p = heap v p"
  shows "keeps S v w"
  unfolding keeps_def
proof (intro allI impI)
  fix p a assume a: "heap v p = Some a"
  then have "heap w p = Some a" using assms vm_ok_bound by metis
  then show "\<exists>b. heap w p = Some b \<and> keptObject (p \<in> S \<and> intOf v p \<noteq> None) a b"
    using a by (auto intro: keptObject_refl simp: intOf_Some)
qed

lemma moves_below:
  assumes "moves g env v w" "frameOf v g = Some gob" "\<And>p. p \<in> chainFrames v g env \<union> counters gob \<Longrightarrow> n \<le> p" "p < n"
  shows "heap w p = heap v p"
  using assms by (fastforce simp: moves_def)

lemma scan_bound: "scan env lt code d = Some (df, mx) \<Longrightarrow> mx \<le> d + length code"
proof (induction env lt code d arbitrary: df mx rule: scan.induct)
  case (1 env lt code d)
  show ?case
  proof (cases "code = []")
    case False
    with 1(2) obtain d' rest k where st: "scanStep env lt code d = Some (d', rest)"
      and r: "scan env lt rest d' = Some (df, k)" "mx = max d k" by (rule scan_stepE)
    have "d' \<le> d + 1" using st by (metis scanStepE effect_bound)
    with 1(1) [OF False st refl r(1)] r(2) scanStep_shorter [OF st] show ?thesis by simp
  qed (use 1(2) in simp)
qed

text \<open>The instruction a method returns with.\<close>

lemma running_return:
  assumes run: "running v g env code lits ms i d" "curFrame v = g" "1 \<le> d"
    and i: "i < length code" "code ! i = opcode BC_RETURN_LOCAL"
  shows "\<exists>res w gob. step ext n v = thenE (popFrameAndPushResult res) (returnE True) w \<and> moves g env v w \<and>
     running w g env code lits ms (Suc i) (d - 1) \<and> stackOf v g = map_option ((#) res) (stackOf w g)"
proof -
  obtain w1 where w1: "fetch v = Inr ((int i, code ! i), w1)" "running w1 g env code lits ms (i + bc_length BC_RETURN_LOCAL) d"
    "moves g env v w1" "stackOf w1 g = stackOf v g"
    using running_fetch [OF run(1,2) i(1), of BC_RETURN_LOCAL] i(2) by (auto simp del: opcode.simps)
  have cur: "curFrame w1 = g" using moves_curFrame [OF w1(3)] run(2) by simp
  obtain res w2 where w2: "Pop g w1 = Inr (res, w2)" "running w2 g env code lits ms (Suc i) (d - 1)" "moves g env w1 w2"
    "stackOf w1 g = map_option ((#) res) (stackOf w2 g)"
    using running_Pop [OF w1(2) run(3)] by auto
  have "execute ext n (code ! i) (int i) = thenE doReturnLocal (returnE True)"
    unfolding execute_def i(2) opcode_of_opcode by simp
  then have "step ext n v = thenE (popFrameAndPushResult res) (returnE True) w2"
    using w1(1) w2(1) cur by (simp add: step_def doReturnLocal_def GetFrame_def bindE_def thenE_def)
  with w2(2,4) w1(4) moves_trans [OF run(1) w1(3) w2(3)] show ?thesis by metis
qed

text \<open>The value a method that sends nothing returns, by the reference evaluation of its code on its
  receiver and arguments and on nil locals.\<close>

definition methodValue :: "vm \<Rightarrow> u8 list \<Rightarrow> ptr list \<Rightarrow> nat \<Rightarrow> ptr list \<Rightarrow> ptr" where
  "methodValue v body lits nl args = hd (snd (snd (evalCode lits body (args, replicate nl (nilObject v), []))))"

text \<open>Invoking such a method and running it to its return replaces the arguments of the caller
  by the value of the method, and leaves the caller otherwise as it was.\<close>

lemma leaf_call:
  assumes ok: "vm_ok v" and fc: "frameName v = Some s"
    and caller: "running v f env' code' lits' ms' i d" "curFrame v = f" "na \<le> d" "1 \<le> na"
    and m: "methodParts v m = Some (body @ [opcode BC_RETURN_LOCAL], lits, nl, na, int ms)" "na + nl + ms < 536870912"
    and body: "straightCode body" "scan [(nl, na)] (litOf v lits) body 0 = Some (1, mx)" "mx \<le> ms"
  shows "\<exists>k v'. (\<forall>j. thenE (invoke ext (Suc n) m f) (Start ext n' (k + j)) v = Start ext n' j v') \<and>
     running v' f env' code' lits' ms' i (d - na + 1) \<and> curFrame v' = f \<and>
     (\<forall>xs. stackOf v f = Some xs \<longrightarrow> stackOf v' f = Some (methodValue v body lits nl (rev (take na xs)) # drop na xs))"
proof -
  let ?code = "body @ [opcode BC_RETURN_LOCAL]" and ?g = "nextPtr v" and ?env = "[(nl, na)]"
  obtain xs where xs: "stackOf v f = Some xs" "length xs = snd (hd env') + fst (hd env') + d"
    by (rule running_stack [OF caller(1)])
  then have nx: "na \<le> length xs" using caller(3) by simp
  define args where "args = take na xs"
  define rest where "rest = drop na xs"
  have xs': "stackOf v f = Some (args @ rest)" "length args = na" "length xs = na + length rest"
    using xs(1) nx by (simp_all add: args_def rest_def)
  let ?sl = "rev args @ replicate (nl + ms) (nilObject v)"
  let ?w = "entered v f m s ?sl nl na"
  have enter: "invokeMethod m f v = Inr ((), ?w)"
    using invokeMethod_run [OF ok m(1) fc m(2) caller(2) xs(1) nx] by (simp add: args_def)
  have len: "length ?sl = na + nl + ms" using xs'(2) by simp
  note w = entered_running [OF ok m(1) len m(2)]
  have wc: "curFrame ?w = ?g" by (simp add: entered_def)
  have lt: "litOf v lits a = Some l \<Longrightarrow> a < length lits" for a l by (simp add: litOf_def split: if_splits)
  let ?x = "(rev args, replicate nl (nilObject v), [])"
  have st0: "stackOf ?w ?g = Some (flat ?x)" "sized nl na 0 ?x"
    using entered_stack [OF len m(2), of v f m s] xs'(2) by simp_all
  obtain k u where u: "\<forall>j. Start ext n' (k + j) ?w = Start ext n' j u"
    "running u ?g ?env ?code lits ms (length body) 1" "moves ?g ?env ?w u"
    "sized nl na 1 (evalCode lits body ?x)" "stackOf u ?g = Some (flat (evalCode lits body ?x))"
    using run_segment [of ?w ?g ?env ?code lits ms "[]" 0 body "[opcode BC_RETURN_LOCAL]" "litOf v lits" 1 mx ext n']
      w(1) wc body lt st0 by (auto simp del: opcode.simps flat.simps sized.simps)
  have uc: "curFrame u = ?g" using moves_curFrame [OF u(3)] wc by simp
  obtain res z where z: "step ext n' u = thenE (popFrameAndPushResult res) (returnE True) z" "moves ?g ?env u z"
    "running z ?g ?env ?code lits ms (Suc (length body)) 0" "stackOf u ?g = map_option ((#) res) (stackOf z ?g)"
    using running_return [OF u(2) uc, of ext n'] by (auto simp del: opcode.simps)
  obtain as ls st where fin: "evalCode lits body ?x = (as, ls, st)" by (cases "evalCode lits body ?x")
  then have "length st = 1" using u(4) by simp
  then obtain r where "st = [r]" by (cases st) auto
  with fin u(5) z(4) have "res = r" by auto
  with fin \<open>st = [r]\<close> have res: "res = methodValue v body lits nl (rev args)" by (simp add: methodValue_def)
  have mz: "moves ?g ?env ?w z" by (rule moves_trans [OF w(1) u(3) z(2)])
  have zc: "curFrame z = ?g" using moves_curFrame [OF mz] wc by simp
  have gw: "frameOf ?w ?g = Some (frameObject (newFrame v f m @ [?g + 3, ?g + 2, ?g + 1]) ?sl)" (is "_ = Some ?gw")
    by (rule entered_frame) (simp only: len m(2))
  obtain gob where gob: "frameOf z ?g = Some gob" "o_fields gob = o_fields ?gw"
    using mz gw keeps_frame unfolding moves_def by (metis option.inject)
  have fNULL: "f \<noteq> NULL" "f < ?g" using xs(1) vm_ok_bound [OF ok] frameOf_facts(1) by (metis stackOfE)+
  have fs: "o_fields gob ! 1 = f" "o_fields gob ! 3 = m"
    using fNULL(1) unfolding gob(2) by (simp_all add: frameObject_def newFrame_def nth_append)
  have old: "heap z p = heap v p" if "p < ?g" for p
  proof -
    have "heap z p = heap ?w p"
      by (rule moves_below [OF mz gw _ that]) (use w(2) in \<open>auto simp: counters_def frameObject_def newFrame_def nth_append\<close>)
    then show ?thesis using entered_old [OF that] by simp
  qed
  obtain x where mp: "methodParts z m = Some (?code, lits, nl, na, int ms)"
    using z(3) fs(2) gob(1) by (auto elim!: runningE)
  note sz = stackOf_below [OF ok xs'(1) old]
  obtain v' where v': "popFrameAndPushResult res z = Inr ((), v')" "stackOf v' f = Some (res # rest)"
    "frameStep f (popped z ?g gob) v'" "curFrame v' = f"
    using popFrameAndPushResult_run [OF zc gob(1) fs(1) _ _ sz(1) xs'(2), of ?code lits nl ms res] mp fs(2) fNULL(2) caller(4) by auto
  have go: "step ext n' u = Inr (True, v')" using z(1) v'(1) by simp
  let ?p = "popped z ?g gob"
  have oldp: "heap ?p p = heap v p" if "p < ?g" for p
    using popped_other(1) [OF gob(1), of p] old [OF that] that by simp
  obtain fob where fob: "frameOf v f = Some fob" "intOf v (o_fields fob ! 5) = Some (int i)"
    by (rule runningE [OF caller(1)])
  have fp: "frameOf ?p f = Some fob" using fob(1) frameOf_cong [OF oldp [OF fNULL(2)]] by simp
  have "keeps (counters fob) v ?p" by (rule keeps_below [OF ok oldp])
  then have keep: "keeps (counters fob) v v'" by (rule keeps_trans) (rule frameStep_keeps [OF v'(3) fp])
  have "heap v' (o_fields fob ! 5) = heap ?p (o_fields fob ! 5)"
    using fob frameOf_facts(6) [OF fob(1)] intOf_frame [OF fob(1)]
    by (intro frameStep_other [OF v'(3) fp]) auto
  moreover have "o_fields fob ! 5 < ?g" using fob(2) vm_ok_bound [OF ok] by (auto simp: intOf_Some)
  ultimately have "intOf v' (o_fields fob ! 5) = Some (int i)" using fob(2) oldp by (simp add: intOf_def)
  then have caller_runs: "running v' f env' code' lits' ms' i (d - na + 1)"
    using xs'(3) caller(3) by (intro running_step [OF caller(1) fob(1) keep xs(1) v'(2)]) simp_all
  obtain mo where "heap v m = Some mo" using m(1) by (auto simp: methodParts_def split: option.splits)
  with methodParts_kind [OF m(1)] have "derefAs invokableKinds m v = Inr (mo, v)" "o_kind mo = KMethod"
    by (simp_all add: derefAs_def deref_def invokableKinds_def)
  then have "thenE (invoke ext (Suc n) m f) (Start ext n' (Suc k + j)) v = Start ext n' j v'" for j
    using enter go u(1) [rule_format, of "Suc j"] by (simp add: thenE_def bindE_def)
  moreover have "stackOf v' f = Some (methodValue v body lits nl (rev (take na ys)) # drop na ys)"
    if "stackOf v f = Some ys" for ys
    using that xs(1) v'(2) res by (simp add: args_def rest_def)
  ultimately show ?thesis using caller_runs v'(4) by blast
qed

end
