(* ===== verification/ClassLookup.thy ===== *)
theory ClassLookup
  imports CallLaws
begin

text \<open>
  Method lookup: the dictionary of a class as a list of signatures and invokables, the chain of
  its superclasses, and the search of \<^verbatim>\<open>VMClass::LookupInvokable\<close> over them.
\<close>

section \<open>Classes\<close>

definition classOf :: "vm \<Rightarrow> ptr \<Rightarrow> vmobject option" where
  "classOf v c = (case heap v c of None \<Rightarrow> None
     | Some ob \<Rightarrow> if o_kind ob = KClass \<and> length (o_fields ob) = 5 \<and> o_data ob = NoData then Some ob else None)"

lemma classOf_facts:
  assumes "classOf v c = Some ob"
  shows "heap v c = Some ob" "o_kind ob = KClass" "length (o_fields ob) = 5" "o_data ob = NoData"
  using assms by (auto simp: classOf_def split: option.splits if_splits)

lemma classOf_member: "classOf v c = Some ob \<Longrightarrow> i < 5 \<Longrightarrow> getMember [KClass] i c v = Inr (o_fields ob ! i, v)"
  by (simp add: getMember_def derefAs_def deref_def classOf_facts)

text \<open>The signature of an invokable.\<close>

definition signatureOf :: "vm \<Rightarrow> ptr \<Rightarrow> ptr option" where
  "signatureOf v p = (case heap v p of None \<Rightarrow> None
     | Some ob \<Rightarrow> if o_kind ob \<in> set invokableKinds \<and> 2 < length (o_fields ob) \<and> (\<forall>i. o_data ob \<noteq> IntData i)
                 then Some (o_fields ob ! 1) else None)"

lemma signatureOf_facts:
  assumes "signatureOf v p = Some s"
  obtains ob where "heap v p = Some ob" "o_kind ob \<in> set invokableKinds" "2 < length (o_fields ob)" "s = o_fields ob ! 1"
    "\<And>i. o_data ob \<noteq> IntData i"
  using assms by (auto simp: signatureOf_def split: option.splits if_splits)

lemma GetSignature_run: "signatureOf v p = Some s \<Longrightarrow> GetSignature p v = Inr (s, v)"
  by (erule signatureOf_facts) (simp add: GetSignature_def getMember_def derefAs_def deref_def)

lemma cast_run: "signatureOf v p = Some s \<Longrightarrow> dynamic_cast_VMInvokable p v = Inr (p, v)"
  by (erule signatureOf_facts) (simp add: dynamic_cast_VMInvokable_def deref_def)

text \<open>The method dictionary: the invokables of a class in the order of its array.\<close>

definition dictOf :: "vm \<Rightarrow> ptr \<Rightarrow> ptr list option" where
  "dictOf v c = (case classOf v c of None \<Rightarrow> None
     | Some ob \<Rightarrow> (case arrayOf v (o_fields ob ! 4) of None \<Rightarrow> None
         | Some a \<Rightarrow> if o_kind a = KArray \<and> o_data a = NoData \<and>
                       (\<forall>p\<in>set (o_slots a). signatureOf v p \<noteq> None \<and> p \<noteq> NULL) then Some (o_slots a) else None))"

lemma dictOf_facts:
  assumes "dictOf v c = Some ps"
  obtains ob a where "classOf v c = Some ob" "arrayOf v (o_fields ob ! 4) = Some a" "o_slots a = ps" "o_kind a = KArray"
    "o_data a = NoData" "\<And>p. p \<in> set ps \<Longrightarrow> signatureOf v p \<noteq> None \<and> p \<noteq> NULL"
  using assms by (auto simp: dictOf_def split: option.splits if_splits)

lemma GetInstanceInvokables_run:
  assumes "dictOf v c = Some ps"
  obtains d a where "GetInstanceInvokables c v = Inr (d, v)" "arrayOf v d = Some a" "o_slots a = ps"
  using assms by (auto elim!: dictOf_facts simp: GetInstanceInvokables_def classOf_member)

lemma dict_reads:
  assumes "dictOf v c = Some ps"
  shows "GetNumberOfInstanceInvokables c v = Inr (int (length ps), v)"
    "i < length ps \<Longrightarrow> GetInstanceInvokable c (int i) v = Inr (ps ! i, v)"
  using assms
  by (auto elim!: GetInstanceInvokables_run simp: GetNumberOfInstanceInvokables_def GetInstanceInvokable_def
      GetNumberOfIndexableFields_run ArrayGet_run)

section \<open>Search in one class\<close>

definition hasSignature :: "vm \<Rightarrow> ptr \<Rightarrow> ptr \<Rightarrow> bool" where
  "hasSignature v name p \<longleftrightarrow> signatureOf v p = Some name"

lemma findInvokable_run:
  assumes "dictOf v c = Some ps"
  shows "k \<le> length ps \<Longrightarrow> findInvokable c name (map int [length ps - k..<length ps]) v =
     Inr ((case find (hasSignature v name) (drop (length ps - k) ps) of Some p \<Rightarrow> p | None \<Rightarrow> NULL), v)"
proof (induction k)
  case (Suc k)
  let ?i = "length ps - Suc k"
  have i: "?i < length ps" "Suc ?i = length ps - k" using Suc.prems by auto
  have up: "[?i..<length ps] = ?i # [length ps - k..<length ps]" using i by (simp add: upt_conv_Cons)
  have dr: "drop ?i ps = ps ! ?i # drop (length ps - k) ps" using i by (metis Cons_nth_drop_Suc)
  have "signatureOf v (ps ! ?i) \<noteq> None \<and> ps ! ?i \<noteq> NULL"
    using dictOf_facts [OF assms] nth_mem [OF i(1)] by metis
  then obtain s where s: "signatureOf v (ps ! ?i) = Some s" "ps ! ?i \<noteq> NULL" by blast
  show ?case
    using Suc s(2) unfolding up dr
    by (simp add: dict_reads(2) [OF assms i(1)] GetSignature_run [OF s(1)] hasSignature_def s(1) del: of_nat_diff)
qed simp

lemma findInvokable_all:
  assumes "dictOf v c = Some ps"
  shows "findInvokable c name (map int [0..<length ps]) v =
     Inr ((case find (hasSignature v name) ps of Some p \<Rightarrow> p | None \<Rightarrow> NULL), v)"
  using findInvokable_run [OF assms, of "length ps" name] by simp

section \<open>The chain of superclasses\<close>

definition superOf :: "vm \<Rightarrow> ptr \<Rightarrow> ptr option" where
  "superOf v c = (case classOf v c of None \<Rightarrow> None
     | Some ob \<Rightarrow> let s = o_fields ob ! 1 in if s \<noteq> NULL \<and> s \<noteq> nilObject v then Some s else None)"

inductive chain :: "vm \<Rightarrow> ptr \<Rightarrow> (ptr \<times> ptr list) list \<Rightarrow> bool" for v :: vm where
  chain_top: "dictOf v c = Some ps \<Longrightarrow> superOf v c = None \<Longrightarrow> chain v c [(c, ps)]"
| chain_sub: "dictOf v c = Some ps \<Longrightarrow> superOf v c = Some s \<Longrightarrow> chain v s cs \<Longrightarrow> chain v c ((c, ps) # cs)"

inductive_cases chainE: "chain v c cs"

lemma super_reads:
  assumes "dictOf v c = Some ps"
  shows "HasSuperClass c v = Inr (superOf v c \<noteq> None, v)"
    "superOf v c = Some s \<Longrightarrow> GetSuperClass c v = Inr (s, v)"
proof -
  obtain ob where ob: "classOf v c = Some ob" using assms by (rule dictOf_facts)
  show "HasSuperClass c v = Inr (superOf v c \<noteq> None, v)"
    using classOf_member [OF ob, of 1] by (simp add: HasSuperClass_def superOf_def ob Let_def)
  show "superOf v c = Some s \<Longrightarrow> GetSuperClass c v = Inr (s, v)"
    using classOf_member [OF ob, of 1] by (auto simp: GetSuperClass_def superOf_def ob Let_def split: if_splits)
qed

lemma lookupInvokable_run:
  "chain v c cs \<Longrightarrow> length cs \<le> n \<Longrightarrow> lookupInvokable n c name v =
     Inr ((case find (hasSignature v name) (concat (map snd cs)) of Some p \<Rightarrow> p | None \<Rightarrow> NULL), v)"
proof (induction arbitrary: n rule: chain.induct)
  case (chain_top c ps)
  then obtain k where n: "n = Suc k" by (cases n) auto
  have "find (hasSignature v name) ps = Some p \<Longrightarrow> p \<noteq> NULL" for p
    using dictOf_facts [OF chain_top(1)] by (metis find_Some_iff nth_mem)
  with chain_top show ?case
    by (auto simp: n dict_reads(1) findInvokable_all super_reads(1) split: option.splits)
next
  case (chain_sub c ps s cs)
  then obtain k where n: "n = Suc k" "length cs \<le> k" by (cases n) auto
  have nn: "find (hasSignature v name) ps = Some p \<Longrightarrow> p \<noteq> NULL" for p
    using dictOf_facts [OF chain_sub(1)] by (metis find_Some_iff nth_mem)
  have "find (hasSignature v name) (ps @ xs) = (case find (hasSignature v name) ps of Some p \<Rightarrow> Some p
      | None \<Rightarrow> find (hasSignature v name) xs)" for xs
    by (induction ps) auto
  with chain_sub nn show ?case
    by (auto simp: n dict_reads(1) findInvokable_all super_reads split: option.splits)
qed

text \<open>A chain that ends has no class twice, so it is shorter than the heap.\<close>

lemma chain_unique: "chain v c cs \<Longrightarrow> chain v c ds \<Longrightarrow> cs = ds"
proof (induction arbitrary: ds rule: chain.induct)
  case (chain_top c ps)
  from chain_top(3) show ?case
  proof cases
    case (chain_top qs)
    then show ?thesis using \<open>dictOf v c = Some ps\<close> by simp
  next
    case (chain_sub qs s cs)
    then show ?thesis using \<open>superOf v c = None\<close> by simp
  qed
next
  case (chain_sub c ps s cs)
  note IH = chain_sub
  from chain_sub(5) show ?case
  proof cases
    case (chain_top qs)
    then show ?thesis using IH(2) by simp
  next
    case (chain_sub qs t es)
    with IH(1,2) have "qs = ps" "chain v s es" by simp_all
    with IH(4) chain_sub(1) show ?thesis by simp
  qed
qed

lemma chain_suffix: "chain v c cs \<Longrightarrow> (d, qs) \<in> set cs \<Longrightarrow> \<exists>us ds. cs = us @ ds \<and> chain v d ds"
proof (induction rule: chain.induct)
  case (chain_top c ps)
  then have "[(c, ps)] = [] @ [(c, ps)]" "chain v d [(c, ps)]" using chain.chain_top [OF chain_top(1,2)] by simp_all
  then show ?case by blast
next
  case (chain_sub c ps s cs)
  show ?case
  proof (cases "(d, qs) = (c, ps)")
    case True
    then have "(c, ps) # cs = [] @ (c, ps) # cs" "chain v d ((c, ps) # cs)"
      using chain.chain_sub [OF chain_sub(1-3)] by simp_all
    then show ?thesis by blast
  next
    case False
    with chain_sub(5) have "(d, qs) \<in> set cs" by auto
    from chain_sub(4) [OF this] obtain us ds where "cs = us @ ds" "chain v d ds" by blast
    then have "(c, ps) # cs = ((c, ps) # us) @ ds" "chain v d ds" by simp_all
    then show ?thesis by blast
  qed
qed

lemma chain_distinct: "chain v c cs \<Longrightarrow> distinct (map fst cs)"
proof (induction rule: chain.induct)
  case (chain_sub c ps s cs)
  have "c \<notin> fst ` set cs"
  proof
    assume "c \<in> fst ` set cs"
    then obtain qs where "(c, qs) \<in> set cs" by auto
    from chain_suffix [OF chain_sub(3) this] obtain us ds where "cs = us @ ds" "chain v c ds" by blast
    with chain_unique [OF chain.chain_sub [OF chain_sub(1-3)]] show False by force
  qed
  with chain_sub show ?case by auto
qed simp

lemma chain_bound:
  assumes "chain v c cs" "vm_ok v"
  shows "length cs \<le> nextPtr v"
proof -
  have "dictOf v d \<noteq> None" if "d \<in> fst ` set cs" for d
    using assms(1) that by (induction rule: chain.induct) auto
  then have "fst ` set cs \<subseteq> {..<nextPtr v}"
    using vm_ok_bound [OF assms(2)] by (fastforce elim!: dictOf_facts dest: classOf_facts(1))
  then have "card (fst ` set cs) \<le> nextPtr v" by (metis card_lessThan card_mono finite_lessThan)
  moreover have "card (fst ` set cs) = length cs"
    using distinct_card [OF chain_distinct [OF assms(1)]] by simp
  ultimately show ?thesis by simp
qed

lemma LookupInvokable_run:
  assumes "chain v c cs" "vm_ok v"
  shows "LookupInvokable c name v =
     Inr ((case find (hasSignature v name) (concat (map snd cs)) of Some p \<Rightarrow> p | None \<Rightarrow> NULL), v)"
  using lookupInvokable_run [OF assms(1) chain_bound [OF assms]] by (simp add: LookupInvokable_def)


section \<open>What running code cannot change\<close>

text \<open>Objects that are neither frames nor integers stay as they are while a frame runs.\<close>

definition statics :: "vm \<Rightarrow> vm \<Rightarrow> bool" where
  "statics v v' \<longleftrightarrow> nilObject v' = nilObject v \<and> frameClass v' = frameClass v \<and>
     (\<forall>p ob. heap v p = Some ob \<longrightarrow> o_kind ob \<noteq> KFrame \<longrightarrow> (\<forall>i. o_data ob \<noteq> IntData i) \<longrightarrow> heap v' p = Some ob)"

lemma staticsD: "statics v v' \<Longrightarrow> heap v p = Some ob \<Longrightarrow> o_kind ob \<noteq> KFrame \<Longrightarrow> (\<And>i. o_data ob \<noteq> IntData i) \<Longrightarrow>
    heap v' p = Some ob"
  by (simp add: statics_def)

lemma contexts_frames: "contexts S v f env \<Longrightarrow> p \<in> chainFrames v f env \<Longrightarrow> frameOf v p \<noteq> None"
  by (induction S v f env rule: contexts.induct) (auto split: option.splits)

lemma moves_statics:
  assumes "running v f env code lits ms i d" "moves f env v v'"
  shows "statics v v'"
proof -
  obtain ob xs where ob: "frameOf v f = Some ob" "stackOf v f = Some xs" "contexts (counters ob) v f env"
    "intOf v (o_fields ob ! 5) = Some (int i)" by (rule runningE [OF assms(1)])
  have "intOf v (o_fields ob ! 4) = Some (int (length xs) - 1)" using ob(1) by (auto intro: stackOfE [OF ob(2)])
  with ob(4) have ints: "p \<in> counters ob \<Longrightarrow> intOf v p \<noteq> None" for p by (auto simp: counters_def)
  obtain h where h: "v' = v\<lparr>heap := h\<rparr>" "\<And>p. p \<notin> chainFrames v f env \<union> counters ob \<Longrightarrow> h p = heap v p"
    using assms(2) ob(1) unfolding moves_def by auto
  have "h p = Some a" if "heap v p = Some a" "o_kind a \<noteq> KFrame" "\<forall>i. o_data a \<noteq> IntData i" for p a
  proof -
    have "p \<notin> chainFrames v f env" using contexts_frames [OF ob(3), of p] that(1,2) frameOf_facts(1,2) by fastforce
    moreover have "p \<notin> counters ob" using ints [of p] that(1,3) by (auto simp: intOf_Some)
    ultimately show ?thesis using h(2) [of p] that(1) by simp
  qed
  with h(1) show ?thesis by (simp add: statics_def)
qed

lemma statics_signature: "statics v v' \<Longrightarrow> signatureOf v p = Some s \<Longrightarrow> signatureOf v' p = Some s"
  by (erule signatureOf_facts) (auto simp: signatureOf_def invokableKinds_def dest!: staticsD)

lemma statics_class: "statics v v' \<Longrightarrow> classOf v c = Some ob \<Longrightarrow> classOf v' c = Some ob"
  by (frule classOf_facts(1)) (auto simp: classOf_def dest!: staticsD split: if_splits)

lemma statics_dict:
  assumes "statics v v'" "dictOf v c = Some ps"
  shows "dictOf v' c = Some ps"
proof -
  obtain ob a where d: "classOf v c = Some ob" "arrayOf v (o_fields ob ! 4) = Some a" "o_slots a = ps" "o_kind a = KArray"
    "o_data a = NoData" "\<And>p. p \<in> set ps \<Longrightarrow> signatureOf v p \<noteq> None \<and> p \<noteq> NULL"
    using assms(2) by (rule dictOf_facts) blast
  have "heap v' (o_fields ob ! 4) = Some a"
    using arrayOf_heap [OF d(2)] d(4,5) by (intro staticsD [OF assms(1)]) auto
  then have "arrayOf v' (o_fields ob ! 4) = Some a" using arrayOf_heap [OF d(2)] by (simp add: arrayOf_def)
  moreover have "signatureOf v' p \<noteq> None \<and> p \<noteq> NULL" if "p \<in> set ps" for p
    using d(6) [OF that] statics_signature [OF assms(1)] by auto
  ultimately show ?thesis using statics_class [OF assms(1) d(1)] d(3-5) by (simp add: dictOf_def)
qed

lemma statics_super:
  assumes "statics v v'" "dictOf v c = Some ps"
  shows "superOf v' c = superOf v c"
proof -
  obtain ob where "classOf v c = Some ob" using assms(2) by (rule dictOf_facts)
  with statics_class [OF assms(1) this] assms(1) show ?thesis by (simp add: superOf_def statics_def)
qed

lemma statics_chain: "chain v c cs \<Longrightarrow> statics v v' \<Longrightarrow> chain v' c cs"
proof (induction rule: chain.induct)
  case (chain_top c ps)
  with statics_dict statics_super show ?case by (metis chain.chain_top)
next
  case (chain_sub c ps s cs)
  with statics_dict statics_super show ?case by (metis chain.chain_sub)
qed

lemma statics_find:
  assumes "statics v v'" "\<And>p. p \<in> set ps \<Longrightarrow> signatureOf v p \<noteq> None"
  shows "find (hasSignature v' name) ps = find (hasSignature v name) ps"
  using assms(2)
proof (induction ps)
  case (Cons p ps)
  then obtain s where "signatureOf v p = Some s" by fastforce
  with statics_signature [OF assms(1) this] Cons show ?case by (simp add: hasSignature_def)
qed simp

lemma chain_signatures: "chain v c cs \<Longrightarrow> p \<in> set (concat (map snd cs)) \<Longrightarrow> signatureOf v p \<noteq> None"
  by (induction rule: chain.induct) (auto elim: dictOf_facts)


lemma keeps_symOf:
  assumes "keeps S v v'" "heap v p \<noteq> None"
  shows "symOf v' p = symOf v p"
proof -
  obtain a where a: "heap v p = Some a" using assms(2) by blast
  then obtain b where "heap v' p = Some b" "keptObject (p \<in> S \<and> intOf v p \<noteq> None) a b"
    using assms(1) unfolding keeps_def by blast
  with a show ?thesis
    by (cases "p \<in> S \<and> intOf v p \<noteq> None") (auto simp: symOf_def keptObject_def split: payload.splits)
qed

lemma moves_keeps:
  assumes "moves f env v v'"
  obtains ob where "frameOf v f = Some ob" "keeps (counters ob) v v'" "nextPtr v' = nextPtr v" "symtab v' = symtab v"
    "\<forall>p. (heap v' p = None) = (heap v p = None)"
proof -
  obtain ob h where m: "frameOf v f = Some ob" "v' = v\<lparr>heap := h\<rparr>" "keeps (counters ob) v v'"
     "\<forall>p. (h p = None) = (heap v p = None)" using assms unfolding moves_def by blast
  show thesis by (rule that [OF m(1,3)]) (use m(2,4) in simp_all)
qed

lemma moves_ok:
  assumes "moves f env v v'" "vm_ok v"
  shows "vm_ok v'"
proof -
  obtain ob where k: "keeps (counters ob) v v'" "nextPtr v' = nextPtr v" "symtab v' = symtab v"
    "\<forall>p. (heap v' p = None) = (heap v p = None)" by (rule moves_keeps [OF assms(1)])
  have "symOf v' p = Some t" if "symOf v p = Some t" for p t
    using keeps_symOf [OF k(1), of p] that by (auto simp: symOf_def split: option.splits)
  with assms(2) k(2-4) show ?thesis by (simp add: vm_ok_def)
qed

lemma keeps_litOf:
  assumes "keeps S v v'" "litOf v lits a = Some l"
  shows "litOf v' lits a = Some l"
proof -
  obtain ob where ob: "heap v (lits ! a) = Some ob"
    using assms(2) by (auto simp: litOf_def symOf_def split: if_splits option.splits)
  then obtain b where b: "heap v' (lits ! a) = Some b" "o_kind b = o_kind ob"
    using assms(1) unfolding keeps_def keptObject_def by blast
  have "symOf v' (lits ! a) = symOf v (lits ! a)" using keeps_symOf [OF assms(1)] ob by simp
  with assms(2) ob b show ?thesis by (auto simp: litOf_def split: if_splits option.splits)
qed

lemma keeps_strOf:
  assumes "keeps S v v'" "strOf v p = Some s"
  shows "strOf v' p = Some s"
proof -
  obtain a t where a: "heap v p = Some a" "o_data a = StrData t"
    using assms(2) by (auto simp: strOf_def split: option.splits payload.splits)
  then obtain b where "heap v' p = Some b" "keptObject (p \<in> S \<and> intOf v p \<noteq> None) a b"
    using assms(1) unfolding keeps_def by blast
  with a assms(2) show ?thesis by (auto simp: strOf_def keptObject_def split: if_splits)
qed

lemma keeps_object:
  assumes "keeps S v v'" "heap v p = Some a"
  obtains b where "heap v' p = Some b" "o_kind b = o_kind a" "o_fields b = o_fields a"
  using assms unfolding keeps_def keptObject_def by blast

lemma keeps_frameName:
  assumes "keeps S v v'" "frameClass v' = frameClass v" "frameName v = Some s"
  shows "frameName v' = Some s"
proof -
  obtain c where c: "heap v (frameClass v) = Some c" "o_kind c = KClass" "2 < length (o_fields c)" "strOf v (o_fields c ! 2) = Some s"
    using assms(3) by (auto simp: frameName_def split: option.splits if_splits)
  obtain b where "heap v' (frameClass v) = Some b" "o_kind b = o_kind c" "o_fields b = o_fields c"
    by (rule keeps_object [OF assms(1) c(1)])
  with c keeps_strOf [OF assms(1) c(4)] assms(2) show ?thesis by (simp add: frameName_def)
qed

section \<open>Sending a message\<close>

text \<open>What a send finds: the receiver below the arguments, its class, and the first method with
  the selector along the chain of its superclasses.\<close>

definition finds :: "vm \<Rightarrow> ptr \<Rightarrow> nat \<Rightarrow> ptr \<Rightarrow> ptr \<Rightarrow> bool" where
  "finds v f na sel m \<longleftrightarrow> (\<exists>xs rob cs. stackOf v f = Some xs \<and> 1 \<le> na \<and> na \<le> length xs \<and>
     heap v (xs ! (na - 1)) = Some rob \<and> o_fields rob \<noteq> [] \<and> chain v (hd (o_fields rob)) cs \<and>
     find (hasSignature v sel) (concat (map snd cs)) = Some m)"

lemma doSend_run:
  assumes ok: "vm_ok v" and run: "running v f env code lits ms j d" "curFrame v = f"
    and i: "i + 2 \<le> length code" "byteAt (drop i code) 1 < length lits" "lits ! byteAt (drop i code) 1 = sel"
    and sel: "symOf v sel = Some s" "GetNumberOfArguments s = na" "finds v f na sel m"
  shows "doSend ext n (int i) v = invoke ext n m f v"
proof -
  obtain xs rob cs where x: "stackOf v f = Some xs" "1 \<le> na" "na \<le> length xs"
     "heap v (xs ! (na - 1)) = Some rob" "o_fields rob \<noteq> []" "chain v (hd (o_fields rob)) cs"
     "find (hasSignature v sel) (concat (map snd cs)) = Some m"
    using sel(3) unfolding finds_def by blast
  have "int na - 1 = int (na - 1)" using x(2) by simp
  then have rc: "GetStackElement f (int na - 1) v = Inr (xs ! (na - 1), v)"
    using GetStackElement_run [OF x(1), of "na - 1"] x(2,3) by simp
  have cl: "GetClass (xs ! (na - 1)) v = Inr (hd (o_fields rob), v)"
    using x(4,5) by (simp add: GetClass_def getMember_def derefAs_def deref_def hd_conv_nth)
  have lk: "LookupInvokable (hd (o_fields rob)) sel v = Inr (m, v)"
    using LookupInvokable_run [OF x(6) ok, of sel] x(7) by simp
  have "m \<in> set (concat (map snd cs))" using x(7) by (metis find_Some_iff nth_mem)
  then obtain sg where sg: "signatureOf v m = Some sg" using chain_signatures [OF x(6)] by fastforce
  then obtain mob where "heap v m = Some mob" by (rule signatureOf_facts)
  then have "m \<noteq> NULL" using vm_ok_bound [OF ok] by blast
  then show ?thesis
    using rc cl lk cast_run [OF sg] i(3) sel(2) run(2)
    by (simp add: doSend_def running_constant [OF run i(1,2)] GetStdString_run [OF symOf_strOf [OF sel(1)]]
        GetFrame_def send_def)
qed

text \<open>A send whose receiver has a method that sends nothing: executed to its return, it replaces
  the receiver and the arguments by the result and goes on behind the instruction.\<close>

lemma send_leaf:
  assumes ok: "vm_ok v" "frameName v = Some fs"
    and run: "running v f env code lits ms i d" "curFrame v = f"
    and i: "i + 2 \<le> length code" "code ! i = opcode BC_SEND" "byteAt (drop i code) 1 < length lits"
      "lits ! byteAt (drop i code) 1 = sel"
    and sel: "symOf v sel = Some s" "GetNumberOfArguments s = na" "finds v f na sel m" "na \<le> d"
    and m: "methodParts v m = Some (body @ [opcode BC_RETURN_LOCAL], mlits, nl, na, int mms)" "na + nl + mms < 536870912"
      "\<And>mo fo. heap v m = Some mo \<Longrightarrow> frameOf v f = Some fo \<Longrightarrow> methodInts mo \<inter> counters fo = {}"
    and body: "straightCode body" "scan [(nl, na)] (litOf v mlits) body 0 = Some (1, mx)" "mx \<le> mms"
  shows "\<exists>k v'. (\<forall>j. Start ext (Suc n) (k + j) v = Start ext (Suc n) j v') \<and>
     running v' f env code lits ms (i + 2) (d - na + 1) \<and> curFrame v' = f \<and>
     (\<forall>xs. stackOf v f = Some xs \<longrightarrow> stackOf v' f = Some (methodValue v body mlits nl (rev (take na xs)) # drop na xs))"
proof -
  obtain w where w: "fetch v = Inr ((int i, code ! i), w)" "running w f env code lits ms (i + bc_length BC_SEND) d" "moves f env v w"
    "stackOf w f = stackOf v f"
    using running_fetch [OF run, of BC_SEND] i(1,2) by (auto simp del: opcode.simps)
  have cur: "curFrame w = f" using moves_curFrame [OF w(3)] run(2) by simp
  note st = moves_statics [OF run(1) w(3)]
  obtain fo where k: "frameOf v f = Some fo" "keeps (counters fo) v w" by (rule moves_keeps [OF w(3)])
  have ok': "vm_ok w" by (rule moves_ok [OF w(3) ok(1)])
  have fn: "frameName w = Some fs" using keeps_frameName [OF k(2) _ ok(2)] st by (simp add: statics_def)
  have sy: "symOf w sel = Some s"
  proof -
    have "heap v sel \<noteq> None" using sel(1) by (auto simp: symOf_def split: option.splits)
    with keeps_symOf [OF k(2)] sel(1) show ?thesis by simp
  qed
  obtain mo where mo: "heap v m = Some mo" using m(1) by (auto simp: methodParts_def split: option.splits)
  have mp: "methodParts w m = Some (body @ [opcode BC_RETURN_LOCAL], mlits, nl, na, int mms)"
    using keeps_method [OF k(2) mo methodParts_kind [OF m(1) mo] m(3) [OF mo k(1)] m(1)] by blast
  have sc: "scan [(nl, na)] (litOf w mlits) body 0 = Some (1, mx)"
    by (rule scan_mono [OF body(2)]) (rule keeps_litOf [OF k(2)])
  have fd: "finds w f na sel m"
  proof -
    obtain xs rob cs where x: "stackOf v f = Some xs" "1 \<le> na" "na \<le> length xs" "heap v (xs ! (na - 1)) = Some rob"
      "o_fields rob \<noteq> []" "chain v (hd (o_fields rob)) cs" "find (hasSignature v sel) (concat (map snd cs)) = Some m"
      using sel(3) unfolding finds_def by blast
    obtain rob' where "heap w (xs ! (na - 1)) = Some rob'" "o_fields rob' = o_fields rob"
      by (rule keeps_object [OF k(2) x(4)])
    moreover have "find (hasSignature w sel) (concat (map snd cs)) = Some m"
      using x(7) by (subst statics_find [OF st]) (rule chain_signatures [OF x(6)])
    ultimately show ?thesis
      using x w(4) statics_chain [OF x(6) st] unfolding finds_def by metis
  qed
  have "na \<ge> 1" using sel(3) by (auto simp: finds_def)
  then obtain kk v' where v': "\<forall>j. thenE (invoke ext (Suc n) m f) (Start ext (Suc n) (kk + j)) w = Start ext (Suc n) j v'"
    "running v' f env code lits ms (i + bc_length BC_SEND) (d - na + 1)" "curFrame v' = f"
    "\<forall>xs. stackOf w f = Some xs \<longrightarrow> stackOf v' f = Some (methodValue w body mlits nl (rev (take na xs)) # drop na xs)"
    using leaf_call [OF ok' fn w(2) cur sel(4) _ mp m(2) body(1) sc body(3), of ext n "Suc n"] by blast
  have ds: "doSend ext (Suc n) (int i) w = invoke ext (Suc n) m f w"
    by (rule doSend_run [OF ok' w(2) cur i(1,3,4) sy sel(2) fd])
  have "execute ext (Suc n) (code ! i) (int i) = thenE (doSend ext (Suc n) (int i)) (returnE True)"
    unfolding execute_def i(2) opcode_of_opcode by simp
  then have stp: "step ext (Suc n) v = thenE (doSend ext (Suc n) (int i)) (returnE True) w"
    using w(1) by (simp add: step_def)
  have "Start ext (Suc n) (Suc kk + j) v = Start ext (Suc n) j v'" for j
  proof (cases "invoke ext (Suc n) m f w")
    case (Inl e)
    then have "Start ext (Suc n) j v' = Inl e" using v'(1) [rule_format, of j] by (simp add: thenE_def bindE_def)
    with Inl show ?thesis by (simp add: stp ds bindE_def thenE_def del: invoke.simps)
  next
    case (Inr r)
    with v'(1) [rule_format, of j] show ?thesis by (simp add: stp ds bindE_def thenE_def del: invoke.simps)
  qed
  moreover have "running v' f env code lits ms (i + 2) (d - na + 1)" using v'(2) by simp
  moreover have "methodValue w body mlits nl as = methodValue v body mlits nl as" for as
    using w(3) by (auto simp: methodValue_def moves_def)
  ultimately show ?thesis using v'(3,4) w(4) by metis
qed

end
