(* ===== verification/SampleMachine.thy ===== *)
theory SampleMachine
  imports ClassLookup Evaluation
begin

text \<open>
  A small machine in the middle of a run, on which the properties of the interpreter are applied:
  classes, methods, an instance and a frame, with the facts about them the properties ask for.
\<close>

section \<open>A sample machine\<close>

text \<open>Object 12 is an instance of class 4, whose only method 6 returns its receiver. Frame 19 runs
  method 13, which sends that method's selector to the value on top of its stack.\<close>

definition sampleExt :: external where
  "sampleExt = \<lparr>fp_add = (\<lambda>x y. x), fp_sub = (\<lambda>x y. x), fp_mul = (\<lambda>x y. x), fp_div = (\<lambda>x y. x), fp_sqrt = (\<lambda>x. x),
     fp_show = (\<lambda>x. []), sys_rand = (\<lambda>v. 0), sys_clock = (\<lambda>v. (0, 0)), sys_start = (0, 0),
     foreign = (\<lambda>cname fname frame. returnE ())\<rparr>"

definition sampleInt :: "int \<Rightarrow> vmobject" where
  "sampleInt i = \<lparr>o_kind = KInteger, o_size = 52, o_fields = [NULL], o_slots = [], o_data = IntData i\<rparr>"

definition sampleSymbol :: "string \<Rightarrow> vmobject" where
  "sampleSymbol s = \<lparr>o_kind = KSymbol, o_size = 53 + int (length s), o_fields = [NULL], o_slots = [], o_data = StrData s\<rparr>"

definition sampleMethod :: "nat \<Rightarrow> u8 list \<Rightarrow> ptr list \<Rightarrow> vmobject" where
  "sampleMethod k code lits = \<lparr>o_kind = KMethod, o_size = 76 + int (length code) + 4 * int (length lits),
     o_fields = [NULL, 23, 4, k, k + 1, k + 2, k + 3, k + 4], o_slots = lits, o_data = CodeData code\<rparr>"

definition sampleHeap :: "(ptr \<times> vmobject) list" where
  "sampleHeap =
     [(23, sampleSymbol ''m''), (3, sampleSymbol ''Frame''),
      (2, \<lparr>o_kind = KClass, o_size = 64, o_fields = [NULL, NULL, 3, NULL, NULL], o_slots = [], o_data = NoData\<rparr>),
      (4, \<lparr>o_kind = KClass, o_size = 64, o_fields = [NULL, NULL, 23, NULL, 5], o_slots = [], o_data = NoData\<rparr>),
      (5, \<lparr>o_kind = KArray, o_size = 52, o_fields = [NULL], o_slots = [6], o_data = NoData\<rparr>),
      (6, sampleMethod 7 [3, 0, 0, 14] []),
      (7, sampleInt 0), (8, sampleInt 1), (9, sampleInt 4), (10, sampleInt 1), (11, sampleInt 0),
      (12, \<lparr>o_kind = KObject, o_size = 48, o_fields = [4], o_slots = [], o_data = NoData\<rparr>),
      (13, sampleMethod 14 [12, 0, 0] [23]),
      (14, sampleInt 1), (15, sampleInt 2), (16, sampleInt 3), (17, sampleInt 1), (18, sampleInt 1),
      (19, \<lparr>o_kind = KFrame, o_size = 88, o_fields = [2, NULL, NULL, 13, 20, 21, 22], o_slots = [12, NULL, 12, NULL], o_data = NoData\<rparr>),
      (20, sampleInt 2), (21, sampleInt 0), (22, sampleInt 1)]"

definition vm1 :: vm where
  "vm1 = vm0\<lparr>heap := map_of sampleHeap, nextPtr := 24, curFrame := 19, frameClass := 2\<rparr>"

lemmas vm1_eval = vm1_def vm0_def sampleHeap_def sampleInt_def sampleSymbol_def sampleMethod_def

lemma vm1_heap:
  "heap vm1 23 = Some (sampleSymbol ''m'')" "heap vm1 3 = Some (sampleSymbol ''Frame'')"
  "heap vm1 2 = Some \<lparr>o_kind = KClass, o_size = 64, o_fields = [NULL, NULL, 3, NULL, NULL], o_slots = [], o_data = NoData\<rparr>"
  "heap vm1 4 = Some \<lparr>o_kind = KClass, o_size = 64, o_fields = [NULL, NULL, 23, NULL, 5], o_slots = [], o_data = NoData\<rparr>"
  "heap vm1 5 = Some \<lparr>o_kind = KArray, o_size = 52, o_fields = [NULL], o_slots = [6], o_data = NoData\<rparr>"
  "heap vm1 6 = Some (sampleMethod 7 [3, 0, 0, 14] [])"
  "heap vm1 12 = Some \<lparr>o_kind = KObject, o_size = 48, o_fields = [4], o_slots = [], o_data = NoData\<rparr>"
  "heap vm1 13 = Some (sampleMethod 14 [12, 0, 0] [23])"
  "heap vm1 19 = Some \<lparr>o_kind = KFrame, o_size = 88, o_fields = [2, NULL, NULL, 13, 20, 21, 22],
    o_slots = [12, NULL, 12, NULL], o_data = NoData\<rparr>"
  by (simp_all add: vm1_def sampleHeap_def)

lemma vm1_int:
  "intOf vm1 7 = Some 0" "intOf vm1 8 = Some 1" "intOf vm1 9 = Some 4" "intOf vm1 10 = Some 1" "intOf vm1 11 = Some 0"
  "intOf vm1 14 = Some 1" "intOf vm1 15 = Some 2" "intOf vm1 16 = Some 3" "intOf vm1 17 = Some 1" "intOf vm1 18 = Some 1"
  "intOf vm1 20 = Some 2" "intOf vm1 21 = Some 0" "intOf vm1 22 = Some 1"
  by (simp_all add: intOf_def vm1_def sampleHeap_def sampleInt_def)

lemma vm1_ptrs: "nilObject vm1 = NULL" "frameClass vm1 = 2" "curFrame vm1 = 19" "nextPtr vm1 = 24" "symtab vm1 s = NULL"
  by (simp_all add: vm1_def vm0_def)

lemmas vm1_facts = vm1_heap vm1_int vm1_ptrs sampleSymbol_def sampleMethod_def

lemma vm1_ok: "vm_ok vm1"
  by (auto simp: vm_ok_def vm1_eval NULL_def)

lemma vm1_frameName: "frameName vm1 = Some ''Frame''"
  by (simp add: frameName_def vm1_facts strOf_def cstr_def)

lemma vm1_frame: "frameOf vm1 19 = Some \<lparr>o_kind = KFrame, o_size = 88, o_fields = [2, NULL, NULL, 13, 20, 21, 22],
    o_slots = [12, NULL, 12, NULL], o_data = NoData\<rparr>"
  by (simp add: frameOf_def vm1_facts array_size_ok_def sizeof_VMObject_def sizeof_pointer_def)

lemma vm1_stack: "stackOf vm1 19 = Some [12, NULL, 12]" "roomOf vm1 19 = 1"
  by (simp_all add: stackOf_def roomOf_def vm1_frame vm1_facts)

lemma vm1_parts: "methodParts vm1 13 = Some ([12, 0, 0], [23], 1, 1, 2)" "methodParts vm1 6 = Some ([3, 0, 0, 14], [], 0, 1, 1)"
  by (simp_all add: methodParts_def vm1_facts)

lemma vm1_running: "running vm1 19 [(1, 1)] [12, 0, 0] [23] 2 0 1"
  by (simp add: running_def vm1_frame vm1_stack vm1_parts methodInts_def counters_def vm1_facts)

lemma vm1_signature: "signatureOf vm1 6 = Some 23"
  by (simp add: signatureOf_def vm1_facts invokableKinds_def)

lemma vm1_chain: "chain vm1 4 [(4, [6])]"
proof -
  have "classOf vm1 4 = Some \<lparr>o_kind = KClass, o_size = 64, o_fields = [NULL, NULL, 23, NULL, 5], o_slots = [], o_data = NoData\<rparr>"
    by (simp add: classOf_def vm1_facts)
  then have "dictOf vm1 4 = Some [6]" "superOf vm1 4 = None"
    by (simp_all add: dictOf_def superOf_def arrayOf_def vm1_signature)
       (simp_all add: vm1_facts vm1_signature NULL_def arrayKinds_def array_size_ok_def sizeof_VMObject_def sizeof_pointer_def)
  then show ?thesis by (rule chain_top)
qed

lemma vm1_finds: "finds vm1 19 1 23 6"
proof -
  have "find (hasSignature vm1 23) (concat (map snd [(4, [6])])) = Some 6"
    by (simp add: hasSignature_def vm1_signature)
  with vm1_chain vm1_stack(1) vm1_heap(7) show ?thesis
    unfolding finds_def by (intro exI [of _ "[12, NULL, 12]"]) force
qed

lemma vm1_send: "byteAt [12, 0, 0] 1 = 0" "symOf vm1 23 = Some ''m''" "GetNumberOfArguments ''m'' = 1"
  by (simp_all add: byteAt_def symOf_def vm1_facts cstr_def GetNumberOfArguments_def IsBinary_def binary_chars_def)

end
