(* ===== verification/RuntimeProperties.thy ===== *)
theory RuntimeProperties
  imports SampleMachine CompilerProperties
begin

section \<open>The evaluation stack\<close>

text \<open>C16. A frame implements a stack of bounded room: Push, Pop, GetStackElement and
  RemainingStackSize are the operations on the list of its slots up to the stack pointer, with
  the bounds error exactly when it is full or empty.\<close>

lemma frame_refines_stack:
  assumes "stackOf v f = Some xs"
  shows "(if 0 < roomOf v f
      then \<exists>v'. Push f x v = Inr ((), v') \<and> stackOf v' f = Some (x # xs) \<and> roomOf v' f = roomOf v f - 1 \<and> frameStep f v v'
      else Push f x v = Inl (ErrorExit boundsError)) \<and>
    (case xs of [] \<Rightarrow> Pop f v = Inl (ErrorExit boundsError)
     | y # ys \<Rightarrow> \<exists>v'. Pop f v = Inr (y, v') \<and> stackOf v' f = Some ys \<and> roomOf v' f = roomOf v f + 1 \<and> frameStep f v v') \<and>
    (\<forall>i<length xs. GetStackElement f (int i) v = Inr (xs ! i, v)) \<and>
    RemainingStackSize f v = Inr (int (roomOf v f), v)"
proof (intro conjI)
  show "if 0 < roomOf v f
      then \<exists>v'. Push f x v = Inr ((), v') \<and> stackOf v' f = Some (x # xs) \<and> roomOf v' f = roomOf v f - 1 \<and> frameStep f v v'
      else Push f x v = Inl (ErrorExit boundsError)"
    using frame_stack.push_room [OF assms, of x] frame_stack.push_no_room [OF assms, of x] by simp
  show "case xs of [] \<Rightarrow> Pop f v = Inl (ErrorExit boundsError)
     | y # ys \<Rightarrow> \<exists>v'. Pop f v = Inr (y, v') \<and> stackOf v' f = Some ys \<and> roomOf v' f = roomOf v f + 1 \<and> frameStep f v v'"
    using frame_stack.pop_top [of v f] frame_stack.pop_none [of v f] assms by (cases xs) simp_all
qed (use assms in \<open>simp_all add: GetStackElement_run RemainingStackSize_run\<close>)

lemma frame_refines_stack_witness:
  "\<exists>v'. Push 19 7 vm1 = Inr ((), v') \<and> stackOf v' 19 = Some [7, 12, NULL, 12] \<and> roomOf v' 19 = 0"
  using conjunct1 [OF frame_refines_stack [OF vm1_stack(1), of 7]] vm1_stack(2) by auto

section \<open>Variables\<close>

lemma keeps_level:
  "keeps S v v' \<Longrightarrow> contexts S v f env \<Longrightarrow> b < length env \<Longrightarrow> GetContextLevel b f v = Inr (g, v) \<Longrightarrow>
     GetContextLevel b f v' = Inr (g, v')"
proof (induction b arbitrary: f env)
  case (Suc b)
  then obtain nl na rest where env: "env = (nl, na) # rest" by (cases env) auto
  with Suc.prems obtain ob where ob: "frameOf v f = Some ob" "contexts S v (o_fields ob ! 2) rest"
    by (auto split: option.splits)
  obtain ob' where ob': "frameOf v' f = Some ob'" "o_fields ob' = o_fields ob"
    by (rule keeps_frame [OF Suc.prems(1) ob(1)])
  have "GetContext f v = Inr (o_fields ob ! 2, v)" "GetContext f v' = Inr (o_fields ob ! 2, v')"
    by (simp_all add: GetContext_def frameOf_member [OF ob(1)] frameOf_member [OF ob'(1)] ob'(2))
  with Suc.IH [OF Suc.prems(1) ob(2)] Suc.prems(3,4) env show ?case by simp
qed simp

text \<open>The slot a variable of a context lives in.\<close>

lemma variable_slots:
  assumes "running v f env code lits ms i d" "b < length env"
  obtains g ob where "frameOf v g = Some ob" "fst (env ! b) + snd (env ! b) \<le> length (o_slots ob)"
    "\<And>k. k < length (o_slots ob) \<Longrightarrow> GetArgument f k b v = Inr (o_slots ob ! k, v)"
    "\<And>k. snd (env ! b) + k < length (o_slots ob) \<Longrightarrow> GetLocal f k b v = Inr (o_slots ob ! (snd (env ! b) + k), v)"
    "\<And>k x. snd (env ! b) + k < length (o_slots ob) \<Longrightarrow> SetLocal f k b x v =
       Inr ((), v\<lparr>heap := (heap v)(g \<mapsto> ob\<lparr>o_slots := (o_slots ob)[snd (env ! b) + k := x]\<rparr>)\<rparr>)"
    "GetContextLevel b f v = Inr (g, v)"
proof -
  obtain g ob where g: "GetContextLevel b f v = Inr (g, v)" "frameOf v g = Some ob"
    "fst (env ! b) + snd (env ! b) \<le> length (o_slots ob)" "LocalOffset g v = Inr (int (snd (env ! b)), v)"
    by (rule running_level [OF assms])
  note arr = frameOf_facts(9) [OF g(2)]
  have int: "int (snd (env ! b)) + int k = int (snd (env ! b) + k)" for k by simp
  show thesis
    by (rule that [OF g(2,3) _ _ _ g(1)])
      (simp_all add: GetArgument_def GetLocal_def SetLocal_def g(1,4) ArrayGet_run [OF arr] ArraySet_run [OF arr]
        nat_add_distrib)
qed

lemma SetLocal_GetLocal:
  assumes "running v f env code lits ms i d" "b < length env" "a < fst (env ! b)"
  shows "\<exists>v'. SetLocal f a b x v = Inr ((), v') \<and> running v' f env code lits ms i d \<and>
     (\<forall>c < fst (env ! b). \<exists>y. GetLocal f c b v = Inr (y, v) \<and> GetLocal f c b v' = Inr (if c = a then x else y, v')) \<and>
     (\<forall>c < snd (env ! b). \<exists>y. GetArgument f c b v = Inr (y, v) \<and> GetArgument f c b v' = Inr (y, v'))"
proof -
  obtain g ob where g: "frameOf v g = Some ob" "fst (env ! b) + snd (env ! b) \<le> length (o_slots ob)"
    "\<forall>k. k < length (o_slots ob) \<longrightarrow> GetArgument f k b v = Inr (o_slots ob ! k, v)"
    "\<forall>k. snd (env ! b) + k < length (o_slots ob) \<longrightarrow> GetLocal f k b v = Inr (o_slots ob ! (snd (env ! b) + k), v)"
    "\<forall>k x. snd (env ! b) + k < length (o_slots ob) \<longrightarrow> SetLocal f k b x v =
       Inr ((), v\<lparr>heap := (heap v)(g \<mapsto> ob\<lparr>o_slots := (o_slots ob)[snd (env ! b) + k := x]\<rparr>)\<rparr>)"
    "GetContextLevel b f v = Inr (g, v)"
    by (rule variable_slots [OF assms(1,2)]) blast
  let ?ob = "ob\<lparr>o_slots := (o_slots ob)[snd (env ! b) + a := x]\<rparr>"
  let ?v' = "v\<lparr>heap := (heap v)(g \<mapsto> ?ob)\<rparr>"
  have set: "SetLocal f a b x v = Inr ((), ?v')" using g(2,5) assms(3) by simp
  then have run: "running ?v' f env code lits ms i d" using running_SetLocal [OF assms, of x] by auto
  obtain fo where fo: "contexts (counters fo) v f env" by (rule runningE [OF assms(1)])
  have "keeps (counters fo) v ?v'"
    by (rule keeps_slots) (use frameOf_facts(1,2) [OF g(1)] in \<open>auto simp: arrayKinds_def\<close>)
  from keeps_level [OF this fo assms(2) g(6)] have lev: "GetContextLevel b f ?v' = Inr (g, ?v')" .
  obtain h ob2 where h: "frameOf ?v' h = Some ob2" 
    "\<forall>k. k < length (o_slots ob2) \<longrightarrow> GetArgument f k b ?v' = Inr (o_slots ob2 ! k, ?v')"
    "\<forall>k. snd (env ! b) + k < length (o_slots ob2) \<longrightarrow> GetLocal f k b ?v' = Inr (o_slots ob2 ! (snd (env ! b) + k), ?v')"
    "GetContextLevel b f ?v' = Inr (h, ?v')"
    by (rule variable_slots [OF run assms(2)]) blast
  have "h = g" using h(4) lev by simp
  then have "ob2 = ?ob" using h(1) frameOf_upd [OF g(1)] by simp
  then show ?thesis
    using set run g(2,3,4) h(2,3) assms(3) by (intro exI [of _ ?v']) (auto simp: nth_list_update)
qed

lemma SetLocal_GetLocal_witness:
  "\<exists>v' y. SetLocal 19 0 0 7 vm1 = Inr ((), v') \<and> GetLocal 19 0 0 v' = Inr (7, v') \<and> GetArgument 19 0 0 v' = Inr (y, v')"
  using SetLocal_GetLocal [OF vm1_running, of 0 0 7] by auto

section \<open>Calls\<close>

text \<open>C17. A method is entered with its receiver and arguments in their order, all locals nil, an
  empty evaluation stack, the bytecode index 0 and the caller as previous frame, and no old
  object is touched.\<close>

lemma invokeMethod_enters:
  assumes "vm_ok v" "methodParts v m = Some (code, lits, nl, na, int ms)" "frameName v = Some s"
    and "na + nl + ms < 536870912" "curFrame v = f" "stackOf v f = Some xs" "na \<le> length xs"
  shows "\<exists>v' g. invokeMethod m f v = Inr ((), v') \<and> curFrame v' = g \<and> running v' g [(nl, na)] code lits ms 0 0 \<and>
     (\<forall>i<na. GetArgument g i 0 v' = Inr (xs ! (na - 1 - i), v')) \<and>
     (\<forall>i<nl. GetLocal g i 0 v' = Inr (nilObject v, v')) \<and>
     (\<forall>p<nextPtr v. heap v' p = heap v p) \<and> vm_ok v' \<and> (\<exists>gob. frameOf v' g = Some gob \<and> o_fields gob ! 1 = f)"
proof -
  let ?sl = "rev (take na xs) @ replicate (nl + ms) (nilObject v)"
  let ?w = "entered v f m s ?sl nl na" and ?g = "nextPtr v"
  let ?fs = "newFrame v f m @ [?g + 3, ?g + 2, ?g + 1]"
  have len: "length ?sl = na + nl + ms" using assms(7) by simp
  have fr: "frameOf ?w ?g = Some (frameObject ?fs ?sl)" by (rule entered_frame) (simp only: len assms(4))
  have run: "running ?w ?g [(nl, na)] code lits ms 0 0" by (rule entered_running(1) [OF assms(1,2) len assms(4)])
  have lo: "LocalOffset ?g ?w = Inr (int na, ?w)"
    by (rule running_level [OF run, of 0]) simp_all
  have get: "ArrayGet ?g (int k) ?w = Inr (?sl ! k, ?w)" if "k < length ?sl" for k
    using ArrayGet_run [OF frameOf_facts(9) [OF fr]] that by (simp add: frameObject_def)
  have 1: "GetArgument ?g i 0 ?w = Inr (xs ! (na - 1 - i), ?w)" if "i < na" for i
  proof -
    have "?sl ! i = xs ! (na - 1 - i)" using that assms(7) by (simp add: nth_append rev_nth)
    with get [of i] that len show ?thesis by (simp add: GetArgument_def)
  qed
  have 2: "GetLocal ?g i 0 ?w = Inr (nilObject v, ?w)" if "i < nl" for i
  proof -
    have "?sl ! (na + i) = nilObject v" using that assms(7) by (simp add: nth_append)
    with get [of "na + i"] that len lo show ?thesis by (simp add: GetLocal_def)
  qed
  have "f \<noteq> NULL" using vm_ok_bound [OF assms(1)] frameOf_facts(1) assms(6) by (metis stackOfE)
  then have 3: "o_fields (frameObject ?fs ?sl) ! 1 = f" by (simp add: frameObject_def newFrame_def)
  have "curFrame ?w = ?g" by (simp add: entered_def)
  then show ?thesis
    using invokeMethod_run [OF assms(1,2,3,4,5,6,7)] run 1 2 3 fr entered_old entered_ok [OF assms(1)] by blast
qed

lemma invokeMethod_enters_witness:
  "\<exists>v' g. invokeMethod 6 19 vm1 = Inr ((), v') \<and> curFrame v' = g \<and> GetArgument g 0 0 v' = Inr (12, v')"
proof -
  have "methodParts vm1 6 = Some ([3, 0, 0, 14], [], 0, 1, int 1)" using vm1_parts(2) by simp
  from invokeMethod_enters [OF vm1_ok this vm1_frameName _ vm1_ptrs(3) vm1_stack(1)] obtain v' g where
    "invokeMethod 6 19 vm1 = Inr ((), v')" "curFrame v' = g" "\<forall>i<1. GetArgument g i 0 v' = Inr ([12, NULL, 12] ! (1 - 1 - i), v')"
    by auto
  then show ?thesis by auto
qed

lemma return_replaces_arguments:
  assumes "curFrame v = g" "frameOf v g = Some gob" "o_fields gob ! 1 = f" "f \<noteq> g"
    and "methodParts v (o_fields gob ! 3) = Some (code, lits, nl, na, int ms)"
    and "stackOf v f = Some (args @ rest)" "length args = na" "0 < na"
  shows "\<exists>v'. popFrameAndPushResult res v = Inr ((), v') \<and> curFrame v' = f \<and> stackOf v' f = Some (res # rest) \<and>
     roomOf v' f = roomOf v f + na - 1"
  using popFrameAndPushResult_run [OF assms(1-7), of res] assms(8) by auto


lemma return_replaces_arguments_witness:
  "\<exists>v' u. invokeMethod 6 19 vm1 = Inr ((), v') \<and> popFrameAndPushResult 7 v' = Inr ((), u) \<and> curFrame u = 19 \<and>
     stackOf u 19 = Some [7, NULL, 12]"
proof -
  have mp: "methodParts vm1 6 = Some ([3, 0, 0, 14], [], 0, 1, int 1)" using vm1_parts(2) by simp
  let ?sl = "rev (take 1 [12, NULL, 12]) @ replicate (0 + 1) (nilObject vm1)"
  let ?w = "entered vm1 19 6 ''Frame'' ?sl 0 1"
  have inv: "invokeMethod 6 19 vm1 = Inr ((), ?w)"
    by (rule invokeMethod_run [OF vm1_ok mp vm1_frameName _ vm1_ptrs(3) vm1_stack(1)]) simp_all
  have fr: "frameOf ?w 24 = Some (frameObject (newFrame vm1 19 6 @ [24 + 3, 24 + 2, 24 + 1]) ?sl)"
    using entered_frame [of ?sl vm1 19 6 "''Frame''" 0 1] by (simp only: vm1_ptrs) simp
  have st: "stackOf ?w 19 = Some ([12] @ [NULL, 12])"
    using stackOf_below(1) [OF vm1_ok vm1_stack(1) entered_old] by simp
  have "methodParts ?w 6 = methodParts (withFrame vm1 (newFrame vm1 19 6) ?sl (int 1) 0 (int (1 + 0) - 1)) 6"
    by (rule methodParts_cong) (rule entered_heap)
  then have "methodParts ?w 6 = Some ([3, 0, 0, 14], [], 0, 1, int 1)"
    using methodParts_le [OF withFrame_le(1) [OF vm1_ok] mp] by simp
  with return_replaces_arguments [OF _ fr _ _ _ st, of "[3, 0, 0, 14]" "[]" 0 1 1 7] inv
  show ?thesis
    by (fastforce simp: entered_def vm1_ptrs frameObject_def newFrame_def NULL_def)
qed

section \<open>Sends\<close>








section \<open>Straight code\<close>



section \<open>Compiled methods run\<close>




section \<open>Method lookup\<close>

text \<open>C38. LookupInvokable finds the first method with the selector in the dictionaries of the class
  and then of its superclasses, and NULL when there is none.\<close>

lemma lookup_first:
  assumes "chain v c cs" "vm_ok v"
  shows "LookupInvokable c name v =
     Inr ((case find (hasSignature v name) (concat (map snd cs)) of Some p \<Rightarrow> p | None \<Rightarrow> NULL), v)"
  by (rule LookupInvokable_run [OF assms])

lemma lookup_first_witness: "LookupInvokable 4 23 vm1 = Inr (6, vm1) \<and> LookupInvokable 4 3 vm1 = Inr (NULL, vm1)"
  using lookup_first [OF vm1_chain vm1_ok, of 23] lookup_first [OF vm1_chain vm1_ok, of 3] vm1_signature
  by (simp add: hasSignature_def)

end
