(* ===== verification/ObjectProperties.thy ===== *)
theory ObjectProperties
  imports SampleMachine
begin

text \<open>
  Laws and properties of the object memory: interned symbols, globals, arrays that grow, and
  method dictionaries that grow or have a method replaced.
\<close>

section \<open>Symbols\<close>

lemma symbols_interned:
  assumes "vm_ok v" "SymbolFor s v = Inr (p, v1)" "vm_le v1 v2" "vm_ok v2" "SymbolFor t v2 = Inr (q, v3)"
  shows "p = q \<longleftrightarrow> cstr s = cstr t"
  by (rule symbols.intern_eq_iff [OF assms])

lemma symbols_interned_witness:
  "\<exists>p v1 q v2. SymbolFor ''at:put:'' vm0 = Inr (p, v1) \<and> SymbolFor ''at:'' v1 = Inr (q, v2) \<and> p \<noteq> q"
proof -
  obtain p v1 where 1: "SymbolFor ''at:put:'' vm0 = Inr (p, v1)" "vm_ok v1" using SymbolFor_run [OF vm0_ok] by metis
  obtain q v2 where 2: "SymbolFor ''at:'' v1 = Inr (q, v2)" using SymbolFor_run [OF 1(2)] by metis
  have "cstr ''at:put:'' \<noteq> cstr ''at:''" by (simp add: cstr_def)
  with symbols_interned [OF vm0_ok 1(1) vm_le_refl 1(2) 2] 1 2 show ?thesis by blast
qed

section \<open>Globals\<close>

text \<open>The interface of the table of globals: a store keyed by the characters of a name.\<close>

locale global_table =
  fixes put :: "'k \<Rightarrow> 'a \<Rightarrow> ('s, unit) se"
    and get :: "'k \<Rightarrow> ('s, 'a) se"
    and key :: "'s \<Rightarrow> 'k \<Rightarrow> string option"
    and absent :: "'a"
  assumes put_get: "key s n = Some t \<Longrightarrow> \<exists>s'. put n x s = Inr ((), s') \<and> key s' = key s \<and>
      (\<forall>m u. key s m = Some u \<longrightarrow> (\<exists>y. get m s = Inr (y, s) \<and> get m s' = Inr (if u = t then x else y, s')))"
begin

lemma put_twice:
  assumes "key s n = Some t" "key s m = Some t"
  shows "\<exists>s1 s2. put n x s = Inr ((), s1) \<and> put m y s1 = Inr ((), s2) \<and> get n s2 = Inr (y, s2)"
proof -
  obtain s1 where 1: "put n x s = Inr ((), s1)" "key s1 = key s" using put_get [OF assms(1)] by blast
  obtain s2 where 2: "put m y s1 = Inr ((), s2)" "key s2 = key s1"
    "\<forall>k u. key s1 k = Some u \<longrightarrow> (\<exists>z. get k s1 = Inr (z, s1) \<and> get k s2 = Inr (if u = t then y else z, s2))"
    using put_get [of s1 m t y] 1(2) assms(2) by auto
  with 1 assms(1) show ?thesis by fastforce
qed

end

interpretation globals: global_table SetGlobal GetGlobal strOf NULL
proof
  fix s :: vm and n t and x :: ptr
  assume n: "strOf s n = Some t"
  let ?s = "s\<lparr>rootTable := (rootTable s)(t \<mapsto> x)\<rparr>"
  have k: "strOf ?s = strOf s" by (rule ext) (simp add: strOf_def)
  have "SetGlobal n x s = Inr ((), ?s)" by (simp add: SetGlobal_def GetStdString_run [OF n])
  moreover have "\<exists>y. GetGlobal m s = Inr (y, s) \<and> GetGlobal m ?s = Inr (if u = t then x else y, ?s)"
    if "strOf s m = Some u" for m u
  proof -
    have "strOf ?s m = Some u" using that k by simp
    then show ?thesis
      by (simp add: GetGlobal_def HasGlobal_def GetStdString_run [OF that] GetStdString_run)
  qed
  ultimately show "\<exists>s'. SetGlobal n x s = Inr ((), s') \<and> strOf s' = strOf s \<and>
      (\<forall>m u. strOf s m = Some u \<longrightarrow> (\<exists>y. GetGlobal m s = Inr (y, s) \<and> GetGlobal m s' = Inr (if u = t then x else y, s')))"
    using k by blast
qed

lemma global_set_get:
  assumes "strOf v n = Some s" "strOf v m = Some t"
  shows "\<exists>v' y. SetGlobal n x v = Inr ((), v') \<and> GetGlobal m v = Inr (y, v) \<and>
     GetGlobal m v' = Inr (if t = s then x else y, v')"
  using globals.put_get [OF assms(1), of x] assms(2) by blast

lemma global_set_get_witness:
  "\<exists>v'. SetGlobal 23 7 vm1 = Inr ((), v') \<and> GetGlobal 23 v' = Inr (7, v')"
  using global_set_get [of vm1 23 "''m''" 23 "''m''" 7] by (auto simp: strOf_def vm1_heap sampleSymbol_def cstr_def)

section \<open>Arrays\<close>

lemma vm_ok_update:
  assumes "vm_ok v" "heap v p = Some a" "o_kind a \<noteq> KSymbol"
  shows "vm_ok (v\<lparr>heap := (heap v)(p \<mapsto> b)\<rparr>)"
proof -
  have p: "p < nextPtr v" "p \<noteq> NULL" using vm_ok_bound [OF assms(1,2)] by simp_all
  have "symOf (v\<lparr>heap := (heap v)(p \<mapsto> b)\<rparr>) q = symOf v q" if "symOf v q = Some s" for q s
    using that assms(2,3) by (auto simp: symOf_def split: payload.splits)
  with assms(1) p show ?thesis by (auto simp: vm_ok_def)
qed

lemma vm_le_update_new:
  assumes "vm_ok v" "vm_le v v1" "nextPtr v \<le> p"
  shows "vm_le v (v1\<lparr>heap := (heap v1)(p \<mapsto> b)\<rparr>)"
  using assms vm_ok_fresh [OF assms(1,3)] by (auto simp: vm_le_def vm_rest_def map_le_def dom_def)

lemma NewArray_run:
  assumes "vm_ok v" "n < 536870912"
  shows "\<exists>v'. NewArray (int n) v = Inr (nextPtr v, v') \<and> vm_le v v' \<and> vm_ok v' \<and> nextPtr v' = nextPtr v + 1 \<and>
     rootTable v' = rootTable v \<and>
     heap v' (nextPtr v) = Some \<lparr>o_kind = KArray, o_size = sizeof_VMObject + int n * sizeof_pointer,
       o_fields = [arrayClass v], o_slots = replicate n (nilObject v), o_data = NoData\<rparr>"
proof -
  let ?ob = "\<lparr>o_kind = KArray, o_size = sizeof_VMObject + int n * sizeof_pointer,
       o_fields = [arrayClass v], o_slots = replicate n (nilObject v), o_data = NoData\<rparr>"
  let ?v' = "v\<lparr>heap := (heap v)(nextPtr v \<mapsto> ?ob), nextPtr := nextPtr v + 1\<rparr>"
  have "vm_le v ?v' \<and> vm_ok ?v'" by (rule vm_le_alloc1 [OF assms(1) refl])
  with assms(2) show ?thesis by (simp add: NewArray_def allocate_def)
qed

text \<open>Copying the slots of an array into a longer one.\<close>

lemma CopyIndexableFieldsTo_run:
  assumes "arrayOf v p = Some a" "arrayOf v q = Some b" "p \<noteq> q" "length (o_slots a) \<le> length (o_slots b)"
  shows "CopyIndexableFieldsTo p q v =
     Inr ((), v\<lparr>heap := (heap v)(q \<mapsto> b\<lparr>o_slots := o_slots a @ drop (length (o_slots a)) (o_slots b)\<rparr>)\<rparr>)"
proof -
  let ?w = "\<lambda>i. v\<lparr>heap := (heap v)(q \<mapsto> b\<lparr>o_slots := take i (o_slots a) @ drop i (o_slots b)\<rparr>)\<rparr>"
  let ?n = "length (o_slots a)"
  let ?body = "\<lambda>i. bindE (ArrayGet p (int i)) (\<lambda>x. ArraySet q (int i) x)"
  have w0: "?w 0 = v"
  proof -
    have "(heap v)(q \<mapsto> b) = heap v" using arrayOf_heap [OF assms(2)] by (simp add: fun_upd_idem)
    then show ?thesis by simp
  qed
  have "\<exists>w. forE [0..<?n] ?body (?w 0) = Inr ((), w) \<and> w = ?w ?n"
  proof (rule forE_total [where I = "\<lambda>i w. w = ?w i"])
    fix i w assume i: "i < ?n" "w = ?w i"
    have pa: "arrayOf (?w i) p = Some a" using assms(1,3) by (simp add: arrayOf_def)
    have len: "length (take i (o_slots a) @ drop i (o_slots b)) = length (o_slots b)" using i(1) assms(4) by simp
    have "array_size_ok (b\<lparr>o_slots := take i (o_slots a) @ drop i (o_slots b)\<rparr>)"
      using arrayOf_heap [OF assms(2)] len by (simp add: array_size_ok_def)
    then have qa: "arrayOf (?w i) q = Some (b\<lparr>o_slots := take i (o_slots a) @ drop i (o_slots b)\<rparr>)"
      using arrayOf_heap [OF assms(2)] by (simp add: arrayOf_def)
    have "(take i (o_slots a) @ drop i (o_slots b))[i := o_slots a ! i] = take (Suc i) (o_slots a) @ drop (Suc i) (o_slots b)"
    proof -
      have "drop i (o_slots b) = o_slots b ! i # drop (Suc i) (o_slots b)" using i(1) assms(4) by (simp add: Cons_nth_drop_Suc)
      with i(1) show ?thesis by (simp add: list_update_append take_Suc_conv_app_nth)
    qed
    then show "\<exists>w'. ?body i w = Inr ((), w') \<and> w' = ?w (Suc i)"
      using i assms(4) len by (simp add: ArrayGet_run [OF pa] ArraySet_run [OF qa])
  qed simp_all
  then show ?thesis
    using w0 GetNumberOfIndexableFields_run [OF assms(1)] by (simp add: CopyIndexableFieldsTo_def)
qed

lemma CopyAndExtendWith_run:
  assumes "vm_ok v" "arrayOf v p = Some a" "Suc (length (o_slots a)) < 536870912"
  shows "\<exists>v' b. CopyAndExtendWith p x v = Inr (nextPtr v, v') \<and> vm_le v v' \<and> vm_ok v' \<and>
     heap v' (nextPtr v) = Some b \<and> o_kind b = KArray \<and> o_data b = NoData \<and> arrayOf v' (nextPtr v) = Some b \<and>
     o_slots b = o_slots a @ [x]"
proof -
  let ?n = "length (o_slots a)" and ?q = "nextPtr v"
  obtain v1 where v1: "NewArray (int (Suc ?n)) v = Inr (?q, v1)" "vm_le v v1" "vm_ok v1" "nextPtr v1 = ?q + 1"
    "heap v1 ?q = Some \<lparr>o_kind = KArray, o_size = sizeof_VMObject + int (Suc ?n) * sizeof_pointer,
       o_fields = [arrayClass v], o_slots = replicate (Suc ?n) (nilObject v), o_data = NoData\<rparr>" (is "_ = Some ?b")
    using NewArray_run [OF assms(1,3)] by blast
  have pq: "p \<noteq> ?q" using vm_ok_bound [OF assms(1)] arrayOf_heap [OF assms(2)] by blast
  have pa: "arrayOf v1 p = Some a" using vm_le_heap [OF v1(2)] arrayOf_heap [OF assms(2)] by (simp add: arrayOf_def)
  have qb: "arrayOf v1 ?q = Some ?b" using v1(5) assms(3)
    by (simp add: arrayOf_def array_size_ok_def arrayKinds_def sizeof_pointer_def del: replicate_Suc)
  let ?c = "?b\<lparr>o_slots := o_slots a @ [nilObject v]\<rparr>" and ?d = "?b\<lparr>o_slots := o_slots a @ [x]\<rparr>"
  let ?v2 = "v1\<lparr>heap := (heap v1)(?q \<mapsto> ?c)\<rparr>" and ?v3 = "v1\<lparr>heap := (heap v1)(?q \<mapsto> ?d)\<rparr>"
  have "drop ?n (replicate (Suc ?n) (nilObject v)) = [nilObject v]" by (simp add: replicate_append_same [symmetric])
  then have copy: "CopyIndexableFieldsTo p ?q v1 = Inr ((), ?v2)"
    using CopyIndexableFieldsTo_run [OF pa qb pq] by (simp del: replicate_Suc)
  have qc: "arrayOf ?v2 ?q = Some ?c"
    using assms(3) by (simp add: arrayOf_def array_size_ok_def arrayKinds_def sizeof_pointer_def)
  have set: "ArraySet ?q (int ?n) x ?v2 = Inr ((), ?v3)"
    using ArraySet_run [OF qc, of "int ?n" x] by simp
  have "CopyAndExtendWith p x v = Inr (?q, ?v3)"
    using v1(1) copy set by (simp add: CopyAndExtendWith_def GetNumberOfIndexableFields_run [OF assms(2)] add.commute)
  moreover have "vm_le v ?v3" by (rule vm_le_update_new [OF assms(1) v1(2)]) simp
  moreover have "vm_ok ?v3" by (rule vm_ok_update [OF v1(3,5)]) simp
  moreover have "arrayOf ?v3 ?q = Some ?d"
    using assms(3) by (simp add: arrayOf_def array_size_ok_def arrayKinds_def sizeof_pointer_def)
  ultimately show ?thesis by (intro exI [of _ ?v3] exI [of _ ?d]) simp
qed


lemma array_extends:
  assumes "vm_ok v" "arrayOf v p = Some a" "Suc (length (o_slots a)) < 536870912"
  shows "\<exists>q v' b. CopyAndExtendWith p x v = Inr (q, v') \<and> vm_le v v' \<and> vm_ok v' \<and> heap v q = None \<and>
     arrayOf v' q = Some b \<and> o_slots b = o_slots a @ [x] \<and>
     GetNumberOfIndexableFields q v' = Inr (int (length (o_slots a)) + 1, v') \<and>
     (\<forall>i<length (o_slots a). ArrayGet q (int i) v' = Inr (o_slots a ! i, v')) \<and>
     ArrayGet q (int (length (o_slots a))) v' = Inr (x, v')"
proof -
  obtain v' b where b: "CopyAndExtendWith p x v = Inr (nextPtr v, v')" "vm_le v v'" "vm_ok v'"
    "arrayOf v' (nextPtr v) = Some b" "o_slots b = o_slots a @ [x]"
    using CopyAndExtendWith_run [OF assms] by blast
  have "heap v (nextPtr v) = None" using assms(1) by (simp add: vm_ok_fresh)
  with b show ?thesis
    by (intro exI [of _ "nextPtr v"] exI [of _ v'] exI [of _ b])
      (simp add: GetNumberOfIndexableFields_run [OF b(4)] ArrayGet_run [OF b(4)] nth_append)
qed

lemma array_extends_witness:
  "\<exists>q v'. CopyAndExtendWith 5 7 vm1 = Inr (q, v') \<and> ArrayGet q 0 v' = Inr (6, v') \<and> ArrayGet q 1 v' = Inr (7, v')"
proof -
  have "arrayOf vm1 5 = Some \<lparr>o_kind = KArray, o_size = 52, o_fields = [NULL], o_slots = [6], o_data = NoData\<rparr>"
    by (simp add: arrayOf_def vm1_heap arrayKinds_def array_size_ok_def sizeof_VMObject_def sizeof_pointer_def)
  from array_extends [OF vm1_ok this, of 7] show ?thesis by auto
qed

section \<open>Method dictionaries\<close>

lemma replaceInvokable_run:
  assumes "dictOf v c = Some ps" "signatureOf v p = Some s"
  shows "k \<le> length ps \<Longrightarrow> replaceInvokable c p (map int [length ps - k..<length ps]) v =
     (case find (\<lambda>i. hasSignature v s (ps ! i)) [length ps - k..<length ps] of
        None \<Rightarrow> Inr (False, v)
      | Some i \<Rightarrow> thenE (SetInstanceInvokable c (int i) p) (returnE True) v)"
proof (induction k)
  case (Suc k)
  let ?i = "length ps - Suc k"
  have i: "?i < length ps" "Suc ?i = length ps - k" using Suc.prems by auto
  have up: "[?i..<length ps] = ?i # [length ps - k..<length ps]" using i by (simp add: upt_conv_Cons)
  have "signatureOf v (ps ! ?i) \<noteq> None \<and> ps ! ?i \<noteq> NULL"
    using dictOf_facts [OF assms(1)] nth_mem [OF i(1)] by metis
  then obtain t where t: "signatureOf v (ps ! ?i) = Some t" "ps ! ?i \<noteq> NULL" by blast
  show ?case
    using Suc t(2) unfolding up
    by (simp add: dict_reads(2) [OF assms(1) i(1)] cast_run [OF t(1)] GetSignature_run [OF t(1)]
        GetSignature_run [OF assms(2)] hasSignature_def t(1) eq_commute [of t] del: of_nat_diff)
qed simp

lemma replaceInvokable_all:
  assumes "dictOf v c = Some ps" "signatureOf v p = Some s"
  shows "replaceInvokable c p (map int [0..<length ps]) v =
     (case find (\<lambda>i. hasSignature v s (ps ! i)) [0..<length ps] of
        None \<Rightarrow> Inr (False, v)
      | Some i \<Rightarrow> thenE (SetInstanceInvokable c (int i) p) (returnE True) v)"
  using replaceInvokable_run [OF assms, of "length ps"] by simp

text \<open>A new method goes behind the others.\<close>

lemma AddInstanceInvokable_new:
  assumes "vm_ok v" "dictOf v c = Some ps" "signatureOf v p = Some s" "p \<noteq> NULL" "Suc (length ps) < 536870912"
    and "\<forall>q\<in>set ps. \<not> hasSignature v s q"
  shows "\<exists>v'. AddInstanceInvokable c p v = Inr (True, v') \<and> dictOf v' c = Some (ps @ [p]) \<and> vm_ok v' \<and>
     superOf v' c = superOf v c \<and> nilObject v' = nilObject v \<and> (\<forall>q. q \<noteq> c \<and> heap v q \<noteq> None \<longrightarrow> heap v' q = heap v q)"
proof -
  obtain ob a where d: "classOf v c = Some ob" "arrayOf v (o_fields ob ! 4) = Some a" "o_slots a = ps" "o_kind a = KArray"
    "o_data a = NoData" using assms(2) by (rule dictOf_facts) blast
  have dn: "q \<in> set ps \<Longrightarrow> signatureOf v q \<noteq> None \<and> q \<noteq> NULL" for q using dictOf_facts [OF assms(2)] by metis
  note co = classOf_facts [OF d(1)]
  have "find (\<lambda>i. hasSignature v s (ps ! i)) [0..<length ps] = None"
    using assms(6) by (auto simp: find_None_iff)
  then have rep: "replaceInvokable c p (map int [0..<length ps]) v = Inr (False, v)"
    by (simp add: replaceInvokable_all [OF assms(2,3)])
  have "Suc (length (o_slots a)) < 536870912" using assms(5) d(3) by simp
  from CopyAndExtendWith_run [OF assms(1) d(2) this] obtain v1 b where
    v1: "CopyAndExtendWith (o_fields ob ! 4) p v = Inr (nextPtr v, v1)" "vm_le v v1" "vm_ok v1"
    "o_kind b = KArray" "o_data b = NoData" "arrayOf v1 (nextPtr v) = Some b" "o_slots b = o_slots a @ [p]"
    by blast
  have bs: "o_slots b = ps @ [p]" using v1(7) d(3) by simp
  let ?q = "nextPtr v" and ?ob = "ob\<lparr>o_fields := (o_fields ob)[4 := nextPtr v]\<rparr>"
  let ?v2 = "v1\<lparr>heap := (heap v1)(c \<mapsto> ?ob)\<rparr>"
  have c1: "heap v1 c = Some ob" using vm_le_heap [OF v1(2) co(1)] .
  have run: "AddInstanceInvokable c p v = Inr (True, ?v2)"
    using assms(4) v1(1) c1 co(2,3) rep
    by (simp add: AddInstanceInvokable_def cast_run [OF assms(3)] dict_reads(1) [OF assms(2)] GetInstanceInvokables_def
        classOf_member [OF d(1)] setMember_eq)
  have "c \<noteq> ?q" using vm_ok_bound [OF assms(1) co(1)] by simp
  then have arr: "arrayOf ?v2 ?q = Some b" using v1(6) by (simp add: arrayOf_def)
  have sig: "signatureOf ?v2 q \<noteq> None" if q: "signatureOf v q \<noteq> None" for q
  proof -
    obtain t where "signatureOf v q = Some t" using q by blast
    then obtain qb where qb: "heap v q = Some qb" "o_kind qb \<in> set invokableKinds" "2 < length (o_fields qb)"
      "\<And>i. o_data qb \<noteq> IntData i" by (rule signatureOf_facts) blast
    then have "q \<noteq> c" using co(1,2) by (auto simp: invokableKinds_def)
    then have "heap ?v2 q = Some qb" using vm_le_heap [OF v1(2) qb(1)] by simp
    with qb show ?thesis by (simp add: signatureOf_def)
  qed
  have cl: "classOf ?v2 c = Some ?ob" using co by (simp add: classOf_def)
  have q4: "o_fields ?ob ! 4 = ?q" using co(3) by simp
  have all: "\<forall>q\<in>set (ps @ [p]). signatureOf ?v2 q \<noteq> None \<and> q \<noteq> NULL"
  proof
    fix q assume "q \<in> set (ps @ [p])"
    then have "signatureOf v q \<noteq> None \<and> q \<noteq> NULL" using dn assms(3,4) by auto
    with sig show "signatureOf ?v2 q \<noteq> None \<and> q \<noteq> NULL" by blast
  qed
  have dict: "dictOf ?v2 c = Some (ps @ [p])"
    by (simp only: dictOf_def cl arr q4 v1(4,5) bs option.case simp_thms if_P [OF all])
  have nil: "nilObject ?v2 = nilObject v" 
  proof -
    have "vm_rest v1 = vm_rest v" using v1(2) by (simp add: vm_le_def)
    then have "nilObject v1 = nilObject v" by (rule vm_rest_fields(1))
    then show ?thesis by simp
  qed
  have sup: "superOf ?v2 c = superOf v c" using nil cl d(1) co(3) by (simp add: superOf_def Let_def)
  have ok2: "vm_ok ?v2" by (rule vm_ok_update [OF v1(3) c1]) (simp add: co(2))
  have old: "\<forall>q. q \<noteq> c \<and> heap v q \<noteq> None \<longrightarrow> heap ?v2 q = heap v q"
    using vm_le_heap [OF v1(2)] by auto
  show ?thesis
    by (rule exI [of _ ?v2]) (intro conjI run dict ok2 sup nil old)
qed

text \<open>The array a class keeps its methods in.\<close>

definition dictArray :: "vm \<Rightarrow> ptr \<Rightarrow> ptr" where
  "dictArray v c = (case classOf v c of None \<Rightarrow> NULL | Some ob \<Rightarrow> o_fields ob ! 4)"

text \<open>A method with the selector of one that is there takes its place.\<close>

lemma AddInstanceInvokable_replace:
  assumes "vm_ok v" "dictOf v c = Some ps" "signatureOf v p = Some s" "p \<noteq> NULL" "p \<noteq> nilObject v"
    and "find (\<lambda>i. hasSignature v s (ps ! i)) [0..<length ps] = Some i"
  shows "\<exists>v'. AddInstanceInvokable c p v = Inr (False, v') \<and> dictOf v' c = Some (ps[i := p]) \<and> vm_ok v' \<and>
     superOf v' c = superOf v c \<and> nilObject v' = nilObject v \<and> (\<forall>q. q \<noteq> p \<and> q \<noteq> dictArray v c \<longrightarrow> heap v' q = heap v q) \<and>
     GetHolder p v' = Inr (c, v') \<and> signatureOf v' p = Some s"
proof -
  obtain ob a where d: "classOf v c = Some ob" "arrayOf v (o_fields ob ! 4) = Some a" "o_slots a = ps" "o_kind a = KArray"
    "o_data a = NoData" using assms(2) by (rule dictOf_facts) blast
  have dn: "q \<in> set ps \<Longrightarrow> signatureOf v q \<noteq> None \<and> q \<noteq> NULL" for q using dictOf_facts [OF assms(2)] by metis
  note co = classOf_facts [OF d(1)]
  have i: "i < length ps" using assms(6) by (auto simp: find_Some_iff)
  let ?d = "o_fields ob ! 4"
  obtain po where po: "heap v p = Some po" "o_kind po \<in> set invokableKinds" "2 < length (o_fields po)" "s = o_fields po ! 1"
    "\<And>i. o_data po \<noteq> IntData i" using assms(3) by (rule signatureOf_facts) blast
  have ah: "heap v ?d = Some a" using arrayOf_heap [OF d(2)] by simp
  have ne: "p \<noteq> c" "p \<noteq> ?d" "c \<noteq> ?d"
    using po(1,2) co(1,2) ah d(4) by (auto simp: invokableKinds_def)
  let ?a = "a\<lparr>o_slots := ps[i := p]\<rparr>" and ?po = "po\<lparr>o_fields := (o_fields po)[2 := c]\<rparr>"
  let ?v1 = "v\<lparr>heap := (heap v)(?d \<mapsto> ?a)\<rparr>"
  let ?v2 = "v\<lparr>heap := (heap v)(?d \<mapsto> ?a, p \<mapsto> ?po)\<rparr>"
  have p1: "heap ?v1 p = Some po" using po(1) ne by simp
  have "dynamic_cast_VMInvokable p ?v1 = Inr (p, ?v1)"
    using assms(4) po(2) p1 by (simp add: dynamic_cast_VMInvokable_def deref_def)
  moreover have "SetHolder p c ?v1 = Inr ((), ?v2)"
    using p1 po(2,3) by (simp add: SetHolder_def setMember_eq)
  moreover have "ArraySet ?d (int i) p v = Inr ((), ?v1)"
    using i d(3) by (simp add: ArraySet_run [OF d(2)])
  ultimately have set: "SetInstanceInvokable c (int i) p v = Inr ((), ?v2)"
    using assms(5) by (simp add: SetInstanceInvokable_def GetInstanceInvokables_def classOf_member [OF d(1)])
  have "replaceInvokable c p (map int [0..<length ps]) v = Inr (True, ?v2)"
    using set assms(6) by (simp add: replaceInvokable_all [OF assms(2,3)])
  then have run: "AddInstanceInvokable c p v = Inr (False, ?v2)"
    using assms(4) by (simp add: AddInstanceInvokable_def cast_run [OF assms(3)] dict_reads(1) [OF assms(2)])
  have sig: "signatureOf ?v2 q = Some t" if qs: "signatureOf v q = Some t" for q t
  proof -
    obtain qb where qb: "heap v q = Some qb" "o_kind qb \<in> set invokableKinds" "2 < length (o_fields qb)" "t = o_fields qb ! 1"
      "\<And>i. o_data qb \<noteq> IntData i" using qs by (rule signatureOf_facts) blast
    have "q \<noteq> ?d" using qb(1,2) ah d(4) by (auto simp: invokableKinds_def)
    with qb po show ?thesis by (cases "q = p") (simp_all add: signatureOf_def)
  qed
  have cl: "classOf ?v2 c = Some ob" using co ne by (simp add: classOf_def)
  have "arrayOf ?v2 ?d = Some ?a" using arrayOf_heap [OF d(2)] d(3) ne by (simp add: arrayOf_def array_size_ok_def)
  moreover have "\<forall>q\<in>set (ps[i := p]). signatureOf ?v2 q \<noteq> None \<and> q \<noteq> NULL"
  proof
    fix q assume "q \<in> set (ps[i := p])"
    then have "q = p \<or> q \<in> set ps" by (metis set_update_subset_insert insert_iff subsetD)
    then show "signatureOf ?v2 q \<noteq> None \<and> q \<noteq> NULL" using dn sig assms(3,4) by fastforce
  qed
  ultimately have "dictOf ?v2 c = Some (ps[i := p])" using cl d(4,5) by (simp add: dictOf_def)
  moreover have "vm_ok ?v2"
  proof -
    have "vm_ok ?v1" by (rule vm_ok_update [OF assms(1) ah]) (simp add: d(4))
    moreover have "o_kind po \<noteq> KSymbol" using po(2) by (auto simp: invokableKinds_def)
    ultimately show ?thesis using vm_ok_update [OF _ p1, of ?po] by simp
  qed
  moreover have "superOf ?v2 c = superOf v c" using cl d(1) by (simp add: superOf_def)
  moreover have "GetHolder p ?v2 = Inr (c, ?v2)" using po(2,3) by (simp add: GetHolder_def getMember_def derefAs_def deref_def)
  moreover have "dictArray v c = ?d" using d(1) by (simp add: dictArray_def)
  ultimately show ?thesis using run sig [OF assms(3)] by (intro exI [of _ ?v2]) simp
qed

section \<open>Adding and looking up\<close>

lemma dictOf_I:
  assumes "classOf v c = Some ob" "arrayOf v (o_fields ob ! 4) = Some a" "o_kind a = KArray" "o_data a = NoData"
    "o_slots a = ps" "\<And>q. q \<in> set ps \<Longrightarrow> signatureOf v q \<noteq> None \<and> q \<noteq> NULL"
  shows "dictOf v c = Some ps"
  using assms by (simp add: dictOf_def)

lemma find_append_option: "find P (xs @ ys) = (case find P xs of None \<Rightarrow> find P ys | Some x \<Rightarrow> Some x)"
  by (induction xs) auto

lemma find_update_hit:
  assumes "find (\<lambda>i. P (xs ! i)) [0..<length xs] = Some i" "\<And>x. x \<in> set xs \<Longrightarrow> Q x = P x" "Q y"
  shows "find Q (xs[i := y]) = Some y"
  using assms by (auto simp: find_Some_iff intro!: exI [of _ i])

lemma find_update_miss:
  assumes "\<And>x. x \<in> set xs \<Longrightarrow> Q x = P x" "\<not> Q y" "\<not> P (xs ! i)"
  shows "find Q (xs[i := y]) = find P xs"
  using assms
proof (induction xs arbitrary: i)
  case (Cons x xs)
  then show ?case by (cases i) (auto intro: find_cong)
qed simp

lemma find_hasSignature_cong:
  assumes "\<And>q. q \<in> set ps \<Longrightarrow> signatureOf v' q = signatureOf v q"
  shows "find (hasSignature v' t) ps = find (hasSignature v t) ps"
  using assms by (induction ps) (simp_all add: hasSignature_def)

lemma chain_frame:
  assumes "chain v d cs" "nilObject v' = nilObject v"
    and "\<And>q t. signatureOf v q = Some t \<Longrightarrow> signatureOf v' q = Some t"
    and "\<And>e. e \<in> fst ` set cs \<Longrightarrow> classOf v' e = classOf v e \<and> arrayOf v' (dictArray v e) = arrayOf v (dictArray v e)"
  shows "chain v' d cs"
proof -
  have step: "dictOf v' c = Some ps \<and> superOf v' c = superOf v c" if c: "dictOf v c = Some ps" "c \<in> fst ` set cs" for c ps
  proof -
    obtain ob a where d: "classOf v c = Some ob" "arrayOf v (o_fields ob ! 4) = Some a" "o_slots a = ps" "o_kind a = KArray"
      "o_data a = NoData" "\<And>q. q \<in> set ps \<Longrightarrow> signatureOf v q \<noteq> None \<and> q \<noteq> NULL" using c(1) by (rule dictOf_facts) blast
    have e: "classOf v' c = Some ob" "arrayOf v' (o_fields ob ! 4) = Some a"
      using assms(4) [OF c(2)] d(1,2) by (simp_all add: dictArray_def)
    have "signatureOf v' q \<noteq> None \<and> q \<noteq> NULL" if "q \<in> set ps" for q
      using d(6) [OF that] assms(3) by auto
    with dictOf_I [OF e d(4,5,3)] have "dictOf v' c = Some ps" by blast
    with e(1) d(1) assms(2) show ?thesis by (simp add: superOf_def)
  qed
  have "chain v d ds \<Longrightarrow> set ds \<subseteq> set cs \<Longrightarrow> chain v' d ds" for d ds
  proof (induction rule: chain.induct)
    case (chain_top c ps)
    with step [OF chain_top(1)] show ?case by (intro chain.chain_top) force+
  next
    case (chain_sub c ps s ds)
    with step [OF chain_sub(1)] show ?case by (intro chain.chain_sub) force+
  qed
  with assms(1) show ?thesis by blast
qed

lemma chain_Cons:
  assumes "chain v c ((c, ps) # cs)" "dictOf v' c = Some ps'" "superOf v' c = superOf v c"
    and "\<And>d. superOf v c = Some d \<Longrightarrow> chain v d cs \<Longrightarrow> chain v' d cs"
  shows "chain v' c ((c, ps') # cs)"
  using assms(1)
proof cases
  case chain_top
  with assms(2,3) show ?thesis by (auto intro: chain.chain_top)
next
  case (chain_sub s)
  with assms(2-4) show ?thesis by (auto intro: chain.chain_sub)
qed

lemma dictOf_signature: "dictOf v c = Some ps \<Longrightarrow> q \<in> set ps \<Longrightarrow> signatureOf v q \<noteq> None"
  by (auto elim: dictOf_facts)

lemma chain_dicts: "chain v c cs \<Longrightarrow> (d, ps) \<in> set cs \<Longrightarrow> dictOf v d = Some ps"
  by (induction rule: chain.induct) auto

text \<open>Objects that are not invokables may change: signatures stay.\<close>

lemma signature_kept:
  assumes "signatureOf v q = Some t" "\<And>ob. heap v q = Some ob \<Longrightarrow> o_kind ob \<in> set invokableKinds \<Longrightarrow> heap v' q = heap v q"
  shows "signatureOf v' q = Some t"
  using assms(1) by (rule signatureOf_facts) (auto simp: signatureOf_def assms(2))

lemma AddInstanceInvokable_chain:
  assumes "vm_ok v" "chain v c ((c, ps) # cs)" "signatureOf v p = Some s" "p \<noteq> NULL" "p \<noteq> nilObject v"
    "Suc (length ps) < 536870912" "\<forall>d\<in>fst ` set cs. dictArray v d \<noteq> dictArray v c"
  shows "\<exists>b v' qs. AddInstanceInvokable c p v = Inr (b, v') \<and> vm_ok v' \<and> chain v' c ((c, qs) # cs) \<and>
     (\<forall>q t. signatureOf v q = Some t \<longrightarrow> signatureOf v' q = Some t) \<and>
     find (hasSignature v' s) qs = Some p \<and> (\<forall>t. t \<noteq> s \<longrightarrow> find (hasSignature v' t) qs = find (hasSignature v t) ps)"
proof -
  have dp: "dictOf v c = Some ps" using assms(2) by (auto elim: chain.cases)
  have dist: "c \<notin> fst ` set cs" using chain_distinct [OF assms(2)] by simp
  note sg = dictOf_signature [OF dp]
  show ?thesis
  proof (cases "find (\<lambda>i. hasSignature v s (ps ! i)) [0..<length ps]")
    case None
    then have no: "\<forall>q\<in>set ps. \<not> hasSignature v s q" by (auto simp: find_None_iff in_set_conv_nth)
    from AddInstanceInvokable_new [OF assms(1) dp assms(3,4,6) no] obtain v' where
      v': "AddInstanceInvokable c p v = Inr (True, v')" "dictOf v' c = Some (ps @ [p])" "vm_ok v'"
        "superOf v' c = superOf v c" "nilObject v' = nilObject v" "\<forall>q. q \<noteq> c \<and> heap v q \<noteq> None \<longrightarrow> heap v' q = heap v q"
      by blast
    have kc: "\<exists>ob. heap v c = Some ob \<and> o_kind ob = KClass"
      using dp by (auto elim!: dictOf_facts dest: classOf_facts(1,2))
    have sig: "signatureOf v' q = Some t" if "signatureOf v q = Some t" for q t
    proof (rule signature_kept [OF that])
      fix ob assume "heap v q = Some ob" "o_kind ob \<in> set invokableKinds"
      moreover from this have "q \<noteq> c" using kc by (auto simp: invokableKinds_def)
      ultimately show "heap v' q = heap v q" using v'(6) by simp
    qed
    have fr: "classOf v' e = classOf v e \<and> arrayOf v' (dictArray v e) = arrayOf v (dictArray v e)"
      if e: "e \<in> fst ` set cs" for e
    proof -
      obtain qs where "dictOf v e = Some qs" using e chain_dicts [OF assms(2)] by fastforce
      then obtain ob a where d: "classOf v e = Some ob" "arrayOf v (o_fields ob ! 4) = Some a" "o_kind a = KArray"
        by (rule dictOf_facts) blast
      have "heap v' e = heap v e" using e dist v'(6) classOf_facts(1) [OF d(1)] by auto
      moreover have "heap v' (o_fields ob ! 4) = heap v (o_fields ob ! 4)"
      proof -
        have ah: "heap v (o_fields ob ! 4) = Some a" using arrayOf_heap [OF d(2)] by simp
        then have "o_fields ob ! 4 \<noteq> c" using d(3) kc by auto
        with ah v'(6) show ?thesis by simp
      qed
      ultimately show ?thesis using d(1) by (simp add: classOf_def arrayOf_def dictArray_def)
    qed
    have ch: "chain v' c ((c, ps @ [p]) # cs)"
      by (rule chain_Cons [OF assms(2) v'(2,4)]) (rule chain_frame [OF _ v'(5) sig fr])
    have same: "find (hasSignature v' t) ps = find (hasSignature v t) ps" for t
      by (rule find_hasSignature_cong) (use sg sig in fastforce)
    have ps: "hasSignature v' t p = (t = s)" for t using sig [OF assms(3)] by (auto simp: hasSignature_def)
    have "find (hasSignature v s) ps = None" using no by (simp add: find_None_iff)
    then have "find (hasSignature v' t) (ps @ [p]) = find (hasSignature v t) ps"
      if "t \<noteq> s" for t using that by (simp add: find_append_option same ps split: option.split)
    moreover have "find (hasSignature v' s) (ps @ [p]) = Some p"
      using \<open>find (hasSignature v s) ps = None\<close> by (simp add: find_append_option same ps)
    ultimately show ?thesis using v'(1,3) ch sig by blast
  next
    case (Some i)
    from AddInstanceInvokable_replace [OF assms(1) dp assms(3-5) Some] obtain v' where
      v': "AddInstanceInvokable c p v = Inr (False, v')" "dictOf v' c = Some (ps[i := p])" "vm_ok v'"
        "superOf v' c = superOf v c" "nilObject v' = nilObject v"
        "\<forall>q. q \<noteq> p \<and> q \<noteq> dictArray v c \<longrightarrow> heap v' q = heap v q" "signatureOf v' p = Some s"
      by blast
    obtain ob a where d: "classOf v c = Some ob" "arrayOf v (o_fields ob ! 4) = Some a" "o_kind a = KArray"
      using dp by (rule dictOf_facts) blast
    have da: "heap v (dictArray v c) = Some a" using arrayOf_heap [OF d(2)] d(1) by (simp add: dictArray_def)
    have sig: "signatureOf v' q = Some t" if q: "signatureOf v q = Some t" for q t
    proof (cases "q = p")
      case True
      with q v'(7) assms(3) show ?thesis by simp
    next
      case False
      have "heap v' q = heap v q" if "heap v q = Some ob" "o_kind ob \<in> set invokableKinds" for ob
      proof -
        have "q \<noteq> dictArray v c" using that da d(3) by (auto simp: invokableKinds_def)
        with False v'(6) show ?thesis by simp
      qed
      then show ?thesis by (rule signature_kept [OF q])
    qed
    obtain po where po: "heap v p = Some po" "o_kind po \<in> set invokableKinds" using assms(3) by (rule signatureOf_facts)
    have fr: "classOf v' e = classOf v e \<and> arrayOf v' (dictArray v e) = arrayOf v (dictArray v e)"
      if e: "e \<in> fst ` set cs" for e
    proof -
      obtain qs where "dictOf v e = Some qs" using e chain_dicts [OF assms(2)] by fastforce
      then obtain eo b where d': "classOf v e = Some eo" "arrayOf v (o_fields eo ! 4) = Some b" "o_kind b = KArray"
        by (rule dictOf_facts) blast
      have de: "dictArray v e = o_fields eo ! 4" using d'(1) by (simp add: dictArray_def)
      have "e \<noteq> p" "e \<noteq> dictArray v c" using classOf_facts(1,2) [OF d'(1)] po da d(3) by (auto simp: invokableKinds_def)
      then have he: "heap v' e = heap v e" using v'(6) by simp
      have "dictArray v e \<noteq> p" using arrayOf_heap [OF d'(2)] d'(3) de po by (auto simp: invokableKinds_def)
      moreover have "dictArray v e \<noteq> dictArray v c" using assms(7) e by (rule bspec)
      ultimately have "heap v' (dictArray v e) = heap v (dictArray v e)" using v'(6) by simp
      with he show ?thesis by (simp add: classOf_def arrayOf_def)
    qed
    have ch: "chain v' c ((c, ps[i := p]) # cs)"
      by (rule chain_Cons [OF assms(2) v'(2,4)]) (rule chain_frame [OF _ v'(5) sig fr])
    have same: "hasSignature v' t q = hasSignature v t q" if "q \<in> set ps" for t q
      using sg [OF that] sig by (fastforce simp: hasSignature_def)
    have "find (hasSignature v' s) (ps[i := p]) = Some p"
    proof (rule find_update_hit [where P = "hasSignature v s"])
    qed (use Some same v'(7) in \<open>auto simp: hasSignature_def\<close>)
    moreover have "find (hasSignature v' t) (ps[i := p]) = find (hasSignature v t) ps" if "t \<noteq> s" for t
    proof (rule find_update_miss)
      have "hasSignature v s (ps ! i)" using Some by (auto simp: find_Some_iff)
      then show "\<not> hasSignature v t (ps ! i)" using that by (simp add: hasSignature_def)
    qed (use that same v'(7) in \<open>auto simp: hasSignature_def\<close>)
    ultimately show ?thesis using v'(1,3) ch sig by blast
  qed
qed


text \<open>The dictionary of a class as an interface: what is put is found, and the rest stays.\<close>

text \<open>C35. After a method has been added to a class, looking its signature up in the class finds it,
  whether it replaced a method with that signature or not, and every other signature is found
  as before.\<close>

lemma add_then_lookup:
  assumes "vm_ok v" "chain v c ((c, ps) # cs)" "signatureOf v p = Some s" "p \<noteq> NULL" "p \<noteq> nilObject v"
    "Suc (length ps) < 536870912" "\<forall>d\<in>fst ` set cs. dictArray v d \<noteq> dictArray v c"
  shows "\<exists>b v'. AddInstanceInvokable c p v = Inr (b, v') \<and> LookupInvokable c s v' = Inr (p, v') \<and>
     (\<forall>t q. t \<noteq> s \<and> LookupInvokable c t v = Inr (q, v) \<longrightarrow> LookupInvokable c t v' = Inr (q, v'))"
proof -
  from AddInstanceInvokable_chain [OF assms] obtain b v' qs where
    r: "AddInstanceInvokable c p v = Inr (b, v')" "vm_ok v'" "chain v' c ((c, qs) # cs)"
      "\<forall>q t. signatureOf v q = Some t \<longrightarrow> signatureOf v' q = Some t"
      "find (hasSignature v' s) qs = Some p" "\<forall>t. t \<noteq> s \<longrightarrow> find (hasSignature v' t) qs = find (hasSignature v t) ps"
    by blast
  have sup: "find (hasSignature v' t) (concat (map snd cs)) = find (hasSignature v t) (concat (map snd cs))" for t
  proof (rule find_hasSignature_cong)
    fix q assume "q \<in> set (concat (map snd cs))"
    then obtain u where "signatureOf v q = Some u" using chain_signatures [OF assms(2), of q] by auto
    with r(4) show "signatureOf v' q = signatureOf v q" by simp
  qed
  have "LookupInvokable c s v' = Inr (p, v')"
    using LookupInvokable_run [OF r(3,2), of s] r(5) by (simp add: find_append_option)
  moreover have "LookupInvokable c t v' = Inr (q, v')" if t: "t \<noteq> s" "LookupInvokable c t v = Inr (q, v)" for t q
  proof -
    have "find (hasSignature v' t) (concat (map snd ((c, qs) # cs))) = find (hasSignature v t) (concat (map snd ((c, ps) # cs)))"
    proof -
      have "find (hasSignature v' t) qs = find (hasSignature v t) ps" using r(6) t(1) by blast
      with sup [of t] show ?thesis by (simp only: list.map concat.simps snd_conv find_append_option)
    qed
    with LookupInvokable_run [OF r(3,2), of t] LookupInvokable_run [OF assms(2,1), of t] t(2) show ?thesis
      by (simp split: option.splits)
  qed
  ultimately show ?thesis using r(1) by blast
qed

lemma add_then_lookup_witness:
  "\<exists>b v'. AddInstanceInvokable 4 6 vm1 = Inr (b, v') \<and> LookupInvokable 4 23 v' = Inr (6, v') \<and>
     LookupInvokable 4 3 v' = Inr (NULL, v')"
proof -
  have "LookupInvokable 4 3 vm1 = Inr (NULL, vm1)"
    using LookupInvokable_run [OF vm1_chain vm1_ok, of 3] by (simp add: hasSignature_def vm1_signature)
  with add_then_lookup [OF vm1_ok vm1_chain vm1_signature] show ?thesis
    by (fastforce simp: NULL_def vm1_ptrs)
qed

end
