(* ===== verification/ArithmeticProperties.thy ===== *)
theory ArithmeticProperties
  imports ObjectProperties
begin

text \<open>
  The arithmetic of the integer primitives: what they take from the stack of the frame, the number
  they leave there, and the class of the result.
\<close>

section \<open>Numbers\<close>

definition numberOf :: "vm \<Rightarrow> ptr \<Rightarrow> int option" where
  "numberOf v p = (case heap v p of None \<Rightarrow> None
     | Some ob \<Rightarrow> (case o_data ob of IntData i \<Rightarrow> if o_kind ob = KInteger then Some i else None
         | BigData i \<Rightarrow> if o_kind ob = KBigInteger then Some i else None | _ \<Rightarrow> None))"

definition kindAt :: "vm \<Rightarrow> ptr \<Rightarrow> kind option" where
  "kindAt v p = map_option o_kind (heap v p)"

text \<open>\<open>leaves v f xs n M\<close>: \<open>M\<close> ends with a new number n pushed on the stack \<open>xs\<close> of \<open>f\<close>, an Integer
  when it fits 32 bits and a BigInteger otherwise.\<close>

definition leaves :: "vm \<Rightarrow> ptr \<Rightarrow> ptr list \<Rightarrow> int \<Rightarrow> unit vmM \<Rightarrow> bool" where
  "leaves v f xs n M \<longleftrightarrow> (\<exists>v' q. M v = Inr ((), v') \<and> stackOf v' f = Some (q # xs) \<and> heap v q = None \<and>
     numberOf v' q = Some n \<and> kindAt v' q = Some (if in_i32 n then KInteger else KBigInteger) \<and> vm_ok v')"

text \<open>The same with a BigInteger whatever its value, and with a truth value.\<close>

definition leavesBig :: "vm \<Rightarrow> ptr \<Rightarrow> ptr list \<Rightarrow> int \<Rightarrow> unit vmM \<Rightarrow> bool" where
  "leavesBig v f xs n M \<longleftrightarrow> (\<exists>v' q. M v = Inr ((), v') \<and> stackOf v' f = Some (q # xs) \<and> heap v q = None \<and>
     numberOf v' q = Some n \<and> kindAt v' q = Some KBigInteger \<and> vm_ok v')"

definition leavesBool :: "vm \<Rightarrow> ptr \<Rightarrow> ptr list \<Rightarrow> bool \<Rightarrow> unit vmM \<Rightarrow> bool" where
  "leavesBool v f xs b M \<longleftrightarrow> (\<exists>v'. M v = Inr ((), v') \<and> stackOf v' f = Some ((if b then trueObject v else falseObject v) # xs))"

lemma numberOf_cases:
  assumes "numberOf v p = Some i"
  obtains ob where "heap v p = Some ob" "o_kind ob = KInteger" "o_data ob = IntData i"
  | ob where "heap v p = Some ob" "o_kind ob = KBigInteger" "o_data ob = BigData i"
  using assms by (auto simp: numberOf_def split: option.splits payload.splits if_splits)

lemma frameStep_ok:
  assumes "frameStep f v v'" "vm_ok v"
  shows "vm_ok v'"
proof -
  obtain ob h where h: "frameOf v f = Some ob" "v' = v\<lparr>heap := h\<rparr>" "keeps {o_fields ob ! 4} v v'"
    "\<forall>p. (h p = None) = (heap v p = None)" using assms(1) unfolding frameStep_def by blast
  have "symOf v' p = Some s" if sy: "symOf v p = Some s" for p s
  proof -
    obtain a where a: "heap v p = Some a" using sy by (cases "heap v p") (auto simp: symOf_def)
    then obtain b where b: "heap v' p = Some b" "keptObject (p \<in> {o_fields ob ! 4} \<and> intOf v p \<noteq> None) a b"
      using h(3) unfolding keeps_def by blast
    have "intOf v p = None" using sy a by (auto simp: symOf_def intOf_def split: payload.splits if_splits)
    with a b sy show ?thesis by (auto simp: symOf_def keptObject_def split: payload.splits if_splits)
  qed
  with assms(2) h(2,4) show ?thesis by (auto simp: vm_ok_def)
qed

lemma stackOf_alloc:
  assumes "vm_ok v" "stackOf v f = Some xs"
  shows "stackOf (v\<lparr>heap := (heap v)(nextPtr v \<mapsto> ob), nextPtr := nextPtr v + 1\<rparr>) f = Some xs"
    "roomOf (v\<lparr>heap := (heap v)(nextPtr v \<mapsto> ob), nextPtr := nextPtr v + 1\<rparr>) f = roomOf v f"
    "frameOf (v\<lparr>heap := (heap v)(nextPtr v \<mapsto> ob), nextPtr := nextPtr v + 1\<rparr>) f = frameOf v f"
    "\<And>fo. frameOf v f = Some fo \<Longrightarrow> nextPtr v \<noteq> f \<and> nextPtr v \<noteq> o_fields fo ! 4"
proof -
  obtain fo where fo: "frameOf v f = Some fo" "intOf v (o_fields fo ! 4) = Some (int (length xs) - 1)"
    using assms(2) by (rule stackOfE)
  have ne: "nextPtr v \<noteq> f" "nextPtr v \<noteq> o_fields fo ! 4"
    using vm_ok_fresh [OF assms(1), of "nextPtr v"] frameOf_facts(1) [OF fo(1)] fo(2) by (auto simp: intOf_Some)
  show "stackOf (v\<lparr>heap := (heap v)(nextPtr v \<mapsto> ob), nextPtr := nextPtr v + 1\<rparr>) f = Some xs"
    "roomOf (v\<lparr>heap := (heap v)(nextPtr v \<mapsto> ob), nextPtr := nextPtr v + 1\<rparr>) f = roomOf v f"
    "frameOf (v\<lparr>heap := (heap v)(nextPtr v \<mapsto> ob), nextPtr := nextPtr v + 1\<rparr>) f = frameOf v f"
    using assms(2) fo ne by (simp_all add: stackOf_def roomOf_def frameOf_def intOf_def)
  show "frameOf v f = Some fo' \<Longrightarrow> nextPtr v \<noteq> f \<and> nextPtr v \<noteq> o_fields fo' ! 4" for fo' using fo(1) ne by simp
qed

text \<open>Pushing a new object.\<close>

lemma Push_new:
  assumes "vm_ok v" "stackOf v f = Some xs" "0 < roomOf v f" "\<forall>i. o_data ob \<noteq> IntData i \<or> o_kind ob = KInteger"
  shows "\<exists>v'. bindE (allocate ob) (Push f) v = Inr ((), v') \<and> stackOf v' f = Some (nextPtr v # xs) \<and>
     heap v' (nextPtr v) = Some ob \<and> vm_ok v'"
proof -
  let ?v1 = "v\<lparr>heap := (heap v)(nextPtr v \<mapsto> ob), nextPtr := nextPtr v + 1\<rparr>"
  have ok: "vm_le v ?v1" "vm_ok ?v1" using vm_le_alloc1 [OF assms(1) refl] by blast+
  obtain fo where fo: "frameOf v f = Some fo" using assms(2) by (rule stackOfE)
  note st = stackOf_alloc [OF assms(1,2)]
  obtain v2 where v2: "Push f (nextPtr v) ?v1 = Inr ((), v2)" "stackOf v2 f = Some (nextPtr v # xs)" "frameStep f ?v1 v2"
  proof -
    have "0 < roomOf ?v1 f" using st(2) assms(3) by simp
    from Push_run [OF st(1) this] that show thesis by metis
  qed
  have "frameOf ?v1 f = Some fo" using fo st(3) by simp
  from frameStep_other [OF v2(3) this] st(4) [OF fo] have "heap v2 (nextPtr v) = Some ob" by simp
  with v2 frameStep_ok [OF v2(3) ok(2)] show ?thesis by (simp add: allocate_def)
qed

lemma pushResult_leaves:
  assumes "vm_ok v" "stackOf v f = Some xs" "0 < roomOf v f"
  shows "leaves v f xs n (pushResult f n)" and "leaves v f xs n (PUSH_INT_OR_BIGINT f n)"
proof -
  have fresh: "heap v (nextPtr v) = None" using assms(1) by (simp add: vm_ok_fresh)
  have eq: "PUSH_INT_OR_BIGINT f n = pushResult f n" by (simp add: prim_defs)
  show "leaves v f xs n (pushResult f n)"
  proof (cases "in_i32 n")
    case True
    let ?ob = "\<lparr>o_kind = KInteger, o_size = sizeof_VMObject + 4, o_fields = [integerClass v], o_slots = [], o_data = IntData n\<rparr>"
    have "pushResult f n v = bindE (allocate ?ob) (Push f) v" using True by (simp add: pushResult_def NewInteger_def bindE_def getsE_def)
    with Push_new [OF assms, of ?ob] fresh True show ?thesis by (auto simp: leaves_def numberOf_def kindAt_def)
  next
    case False
    let ?ob = "\<lparr>o_kind = KBigInteger, o_size = sizeof_VMObject + 8, o_fields = [bigIntegerClass v], o_slots = [], o_data = BigData n\<rparr>"
    have "pushResult f n v = bindE (allocate ?ob) (Push f) v" using False by (auto simp: pushResult_def NewBigInteger_def bindE_def getsE_def)
    with Push_new [OF assms, of ?ob] fresh False show ?thesis by (auto simp: leaves_def numberOf_def kindAt_def)
  qed
  with eq show "leaves v f xs n (PUSH_INT_OR_BIGINT f n)" by simp
qed

lemma NewBigInteger_leaves:
  assumes "vm_ok v" "stackOf v f = Some xs" "0 < roomOf v f"
  shows "leavesBig v f xs n (bindE (NewBigInteger n) (Push f))"
proof -
  have fresh: "heap v (nextPtr v) = None" using assms(1) by (simp add: vm_ok_fresh)
  let ?ob = "\<lparr>o_kind = KBigInteger, o_size = sizeof_VMObject + 8, o_fields = [bigIntegerClass v], o_slots = [], o_data = BigData n\<rparr>"
  have "bindE (NewBigInteger n) (Push f) v = bindE (allocate ?ob) (Push f) v" by (auto simp: NewBigInteger_def bindE_def getsE_def)
  with Push_new [OF assms, of ?ob] fresh show ?thesis by (auto simp: leavesBig_def numberOf_def kindAt_def)
qed

lemma PushBool_leaves:
  assumes "stackOf v f = Some xs" "0 < roomOf v f"
  shows "leavesBool v f xs b (PushBool f b)"
proof -
  obtain v' where "Push f (if b then trueObject v else falseObject v) v = Inr ((), v')"
    "stackOf v' f = Some ((if b then trueObject v else falseObject v) # xs)"
    using Push_run [OF assms] by metis
  then show ?thesis by (auto simp: leavesBool_def PushBool_def)
qed

section \<open>Operands\<close>

text \<open>Two numbers on the stack of a frame, neither of them its stack pointer.\<close>

definition operands :: "vm \<Rightarrow> ptr \<Rightarrow> ptr list \<Rightarrow> ptr \<Rightarrow> ptr \<Rightarrow> bool" where
  "operands v f xs l r \<longleftrightarrow> vm_ok v \<and> stackOf v f = Some (r # l # xs) \<and>
     (\<forall>ob. frameOf v f = Some ob \<longrightarrow> l \<noteq> o_fields ob ! 4 \<and> r \<noteq> o_fields ob ! 4) \<and>
     numberOf v l \<noteq> None \<and> numberOf v r \<noteq> None"

lemma pop_operands:
  assumes "operands v f xs l r"
  obtains v1 v2 where "Pop f v = Inr (r, v1)" "Pop f v1 = Inr (l, v2)" "stackOf v2 f = Some xs" "0 < roomOf v2 f" "vm_ok v2"
    "heap v2 l = heap v l" "heap v2 r = heap v r" "\<forall>p. heap v2 p = None \<longleftrightarrow> heap v p = None"
    "trueObject v2 = trueObject v" "falseObject v2 = falseObject v"
proof -
  have o: "vm_ok v" "stackOf v f = Some (r # l # xs)" "numberOf v l \<noteq> None" "numberOf v r \<noteq> None"
    using assms by (simp_all add: operands_def)
  obtain ob where ob: "frameOf v f = Some ob" using o(2) by (rule stackOfE)
  obtain v1 where v1: "Pop f v = Inr (r, v1)" "stackOf v1 f = Some (l # xs)" "frameStep f v v1"
    using Pop_run [OF o(2)] by blast
  obtain v2 where v2: "Pop f v1 = Inr (l, v2)" "stackOf v2 f = Some xs" "roomOf v2 f = roomOf v1 f + 1" "frameStep f v1 v2"
    using Pop_run [OF v1(2)] by blast
  have st: "frameStep f v v2" by (rule frameStep_trans [OF v1(3) v2(4)])
  have nf: "p \<noteq> f" if "numberOf v p \<noteq> None" for p
    using that frameOf_facts(1,2) [OF ob] by (auto simp: numberOf_def split: payload.splits)
  have "heap v2 l = heap v l" "heap v2 r = heap v r"
    using frameStep_other [OF st ob] nf [OF o(3)] nf [OF o(4)] assms ob by (simp_all add: operands_def)
  moreover have "heap v2 p = None \<longleftrightarrow> heap v p = None" for p using st by (auto simp: frameStep_def)
  moreover have "trueObject v2 = trueObject v" "falseObject v2 = falseObject v" using st by (auto simp: frameStep_def)
  ultimately show thesis using that v1(1) v2(1-3) frameStep_ok [OF st o(1)] by simp
qed

lemma leaves_cong: "M v = N v2 \<Longrightarrow> \<forall>p. heap v p \<noteq> None \<longrightarrow> heap v2 p \<noteq> None \<Longrightarrow> leaves v2 f xs n N \<Longrightarrow> leaves v f xs n M"
  unfolding leaves_def by metis

text \<open>The operation meets the stack without the operands.\<close>

lemma Integer_binary_leaves:
  assumes "operands v f xs l r" "kindAt v l = Some KInteger" "kindAt v r = Some KInteger" "numberOf v l = Some a" "numberOf v r = Some b"
  obtains v2 where "Integer_binary sd op g f v = g a b v2" "stackOf v2 f = Some xs" "0 < roomOf v2 f" "vm_ok v2"
    "\<forall>p. heap v2 p = None \<longleftrightarrow> heap v p = None"
proof -
  obtain v1 v2 where p: "Pop f v = Inr (r, v1)" "Pop f v1 = Inr (l, v2)" "stackOf v2 f = Some xs" "0 < roomOf v2 f" "vm_ok v2"
    "heap v2 l = heap v l" "heap v2 r = heap v r" "\<forall>p. heap v2 p = None \<longleftrightarrow> heap v p = None"
    by (rule pop_operands [OF assms(1)])
  obtain lo ro where h: "heap v l = Some lo" "o_kind lo = KInteger" "o_data lo = IntData a"
    "heap v r = Some ro" "o_kind ro = KInteger" "o_data ro = IntData b"
    using numberOf_cases [OF assms(4)] numberOf_cases [OF assms(5)] assms(2,3) unfolding kindAt_def by fastforce
  then have "intOf v2 l = Some a" "intOf v2 r = Some b" using p(6,7) by (simp_all add: intOf_def)
  then have "Integer_binary sd op g f v = g a b v2"
    using p(1,2,7) h by (simp add: Integer_binary_def CHECK_COERCION_def kindOf_def GetEmbeddedInteger_run)
  with p that show thesis by blast
qed

lemma BigInteger_binary_leaves:
  assumes "operands v f xs l r" "kindAt v l = Some KBigInteger" "numberOf v l = Some a" "numberOf v r = Some b"
    "in_i64 b"
  obtains v2 where "BigInteger_binary g f v = g a b v2" "stackOf v2 f = Some xs" "0 < roomOf v2 f" "vm_ok v2"
    "\<forall>p. heap v p \<noteq> None \<longrightarrow> heap v2 p \<noteq> None" "trueObject v2 = trueObject v" "falseObject v2 = falseObject v"
proof -
  obtain v1 v2 where p: "Pop f v = Inr (r, v1)" "Pop f v1 = Inr (l, v2)" "stackOf v2 f = Some xs" "0 < roomOf v2 f" "vm_ok v2"
    "heap v2 l = heap v l" "heap v2 r = heap v r" "\<forall>p. heap v2 p = None \<longleftrightarrow> heap v p = None"
    "trueObject v2 = trueObject v" "falseObject v2 = falseObject v"
    by (rule pop_operands [OF assms(1)])
  obtain lo where lo: "heap v2 l = Some lo" "o_data lo = BigData a"
    using numberOf_cases [OF assms(3)] assms(2) p(6) unfolding kindAt_def by fastforce
  from assms(4) show thesis
  proof (cases rule: numberOf_cases)
    case (1 ro)
    let ?ob = "\<lparr>o_kind = KBigInteger, o_size = sizeof_VMObject + 8, o_fields = [bigIntegerClass v2], o_slots = [], o_data = BigData b\<rparr>"
    let ?v3 = "v2\<lparr>heap := (heap v2)(nextPtr v2 \<mapsto> ?ob), nextPtr := nextPtr v2 + 1\<rparr>"
    have ok: "vm_le v2 ?v3" "vm_ok ?v3" using vm_le_alloc1 [OF p(5) refl] by blast+
    have "intOf v2 r = Some b" using 1 p(7) by (simp add: intOf_def)
    then have "CHECK_BIGINT r v2 = Inr (nextPtr v2, ?v3)"
      using 1 p(7) assms(5) by (simp add: CHECK_BIGINT_def kindOf_def GetEmbeddedInteger_run NewBigInteger_def allocate_def)
    moreover have "heap ?v3 l = Some lo" using vm_le_heap [OF ok(1) lo(1)] .
    ultimately have run: "BigInteger_binary g f v = g a b ?v3"
      using p(1,2) lo(2) by (simp add: BigInteger_binary_def GetEmbeddedBigInteger_def deref_def)
    have st: "stackOf ?v3 f = Some xs" "roomOf ?v3 f = roomOf v2 f" using stackOf_alloc [OF p(5,3)] by blast+
    have "\<forall>p. heap v p \<noteq> None \<longrightarrow> heap ?v3 p \<noteq> None"
      using p(8) by (metis (mono_tags, lifting) ok(1) vm_le_heap option.exhaust)
    with st p(4,9,10) ok(2) show thesis by (intro that [OF run]) simp_all
  next
    case (2 ro)
    have "CHECK_BIGINT r v2 = Inr (r, v2)" using 2 p(7) by (simp add: CHECK_BIGINT_def kindOf_def)
    then have run: "BigInteger_binary g f v = g a b v2"
      using p(1,2,7) lo 2 by (simp add: BigInteger_binary_def GetEmbeddedBigInteger_def deref_def)
    have "\<forall>p. heap v p \<noteq> None \<longrightarrow> heap v2 p \<noteq> None" using p(8) by simp
    with p(3-5,9,10) show thesis by (intro that [OF run])
  qed
qed


lemma Integer_op:
  assumes "operands v f xs l r" "kindAt v l = Some KInteger" "kindAt v r = Some KInteger" "numberOf v l = Some a" "numberOf v r = Some b"
    and "\<And>w. stackOf w f = Some xs \<Longrightarrow> 0 < roomOf w f \<Longrightarrow> vm_ok w \<Longrightarrow> leaves w f xs n (g a b)"
  shows "leaves v f xs n (Integer_binary sd op g f)"
proof -
  obtain v2 where v2: "Integer_binary sd op g f v = g a b v2" "stackOf v2 f = Some xs" "0 < roomOf v2 f" "vm_ok v2"
    "\<forall>p. heap v2 p = None \<longleftrightarrow> heap v p = None" by (rule Integer_binary_leaves [OF assms(1-5)])
  from v2(5) have "\<forall>p. heap v p \<noteq> None \<longrightarrow> heap v2 p \<noteq> None" by simp
  then show ?thesis using leaves_cong [where M = "Integer_binary sd op g f" and N = "g a b" and v = v, OF v2(1)] assms(6) [OF v2(2-4)] by blast
qed

lemma BigInteger_op:
  assumes "operands v f xs l r" "kindAt v l = Some KBigInteger" "numberOf v l = Some a" "numberOf v r = Some b" "in_i64 b"
  shows "(\<And>w. stackOf w f = Some xs \<Longrightarrow> 0 < roomOf w f \<Longrightarrow> vm_ok w \<Longrightarrow> leaves w f xs n (g a b)) \<Longrightarrow>
      leaves v f xs n (BigInteger_binary g f)"
    and "(\<And>w. stackOf w f = Some xs \<Longrightarrow> 0 < roomOf w f \<Longrightarrow> vm_ok w \<Longrightarrow> leavesBig w f xs n (g a b)) \<Longrightarrow>
      leavesBig v f xs n (BigInteger_binary g f)"
    and "(\<And>w. stackOf w f = Some xs \<Longrightarrow> 0 < roomOf w f \<Longrightarrow> vm_ok w \<Longrightarrow> leavesBool w f xs c (g a b)) \<Longrightarrow>
      leavesBool v f xs c (BigInteger_binary g f)"
    and "(\<And>w. g a b w = Inl e) \<Longrightarrow> BigInteger_binary g f v = Inl e"
proof -
  obtain v2 where v2: "BigInteger_binary g f v = g a b v2" "stackOf v2 f = Some xs" "0 < roomOf v2 f" "vm_ok v2"
    "\<forall>p. heap v p \<noteq> None \<longrightarrow> heap v2 p \<noteq> None" "trueObject v2 = trueObject v" "falseObject v2 = falseObject v"
    by (rule BigInteger_binary_leaves [OF assms])
  show "leaves v f xs n (BigInteger_binary g f)"
    if "\<And>w. stackOf w f = Some xs \<Longrightarrow> 0 < roomOf w f \<Longrightarrow> vm_ok w \<Longrightarrow> leaves w f xs n (g a b)"
    using leaves_cong [where M = "BigInteger_binary g f" and N = "g a b" and v = v, OF v2(1)] that [OF v2(2-4)] v2(5) by blast
  show "leavesBig v f xs n (BigInteger_binary g f)"
    if "\<And>w. stackOf w f = Some xs \<Longrightarrow> 0 < roomOf w f \<Longrightarrow> vm_ok w \<Longrightarrow> leavesBig w f xs n (g a b)"
    using that [OF v2(2-4)] v2(1,5) unfolding leavesBig_def by metis
  show "leavesBool v f xs c (BigInteger_binary g f)"
    if "\<And>w. stackOf w f = Some xs \<Longrightarrow> 0 < roomOf w f \<Longrightarrow> vm_ok w \<Longrightarrow> leavesBool w f xs c (g a b)"
    using that [OF v2(2-4)] unfolding leavesBool_def v2(1,6,7) .
  show "BigInteger_binary g f v = Inl e" if "\<And>w. g a b w = Inl e"
    using that v2(1) by simp
qed

section \<open>Results\<close>

lemma c_mod_bound: "\<bar>c_mod a b\<bar> \<le> \<bar>a\<bar>"
proof -
  have "c_mod a b = sgn a * (\<bar>a\<bar> mod \<bar>b\<bar>)"
    by (auto simp: c_mod_def c_div_def sgn_if minus_mult_div_eq_mod [symmetric] algebra_simps)
  then show ?thesis
    using zmod_le_nonneg_dividend [of "\<bar>a\<bar>" "\<bar>b\<bar>"] by (cases "b = 0") (auto simp: abs_mult sgn_if split: if_splits)
qed

text \<open>Sums, differences, products and quotients of 32-bit numbers fit 64 bits.\<close>

lemma i32_results:
  assumes "in_i32 a" "in_i32 b"
  shows "in_i64 (a + b)" "in_i64 (a - b)" "in_i64 (a * b)" "in_i64 (c_div a b)" "\<bar>c_mod a b\<bar> \<le> \<bar>a\<bar>"
proof -
  show "in_i64 (a + b)" "in_i64 (a - b)" using assms by auto
  have "\<bar>a * b\<bar> \<le> 2147483648 * 2147483648" unfolding abs_mult using assms by (intro mult_mono) auto
  then show "in_i64 (a * b)" by auto
  have "\<bar>a\<bar> div \<bar>b\<bar> \<le> \<bar>a\<bar>" "0 \<le> \<bar>a\<bar> div \<bar>b\<bar>"
    using div_le_dividend [of "nat \<bar>a\<bar>" "nat \<bar>b\<bar>"] 
    by (simp_all add: nat_div_distrib [symmetric] pos_imp_zdiv_nonneg_iff div_int_pos_iff)
  then show "in_i64 (c_div a b)" using assms by (auto simp: c_div_def sgn_if)
  show "\<bar>c_mod a b\<bar> \<le> \<bar>a\<bar>" by (rule c_mod_bound)
qed

definition integerPair :: "vm \<Rightarrow> ptr \<Rightarrow> ptr list \<Rightarrow> int \<Rightarrow> int \<Rightarrow> bool" where
  "integerPair v f xs a b \<longleftrightarrow> (\<exists>l r. operands v f xs l r \<and> kindAt v l = Some KInteger \<and> kindAt v r = Some KInteger \<and>
     numberOf v l = Some a \<and> numberOf v r = Some b \<and> in_i32 a \<and> in_i32 b)"

lemma integerPair_op:
  assumes "integerPair v f xs a b" "in_i64 n"
    and "\<And>w. g a b w = pushResult f (to_i64 n) w"
  shows "leaves v f xs n (Integer_binary sd op g f)"
proof -
  obtain l r where o: "operands v f xs l r" "kindAt v l = Some KInteger" "kindAt v r = Some KInteger"
     "numberOf v l = Some a" "numberOf v r = Some b" using assms(1) unfolding integerPair_def by blast
  have "g a b = pushResult f n" using assms(2,3) by (simp add: fun_eq_iff)
  then show ?thesis using Integer_op [OF o] pushResult_leaves(1) by metis
qed

text \<open>C32. The operations of Integer are exact: on two 32-bit integers +, -, *, / and % leave one
  new object with the sum, difference, product, truncated quotient or remainder on the stack,
  a BigInteger exactly when it does not fit 32 bits; division by zero traps.\<close>

theorem integer_arithmetic:
  assumes "integerPair v f xs a b"
  shows "leaves v f xs (a + b) (Integer_Plus sd f) \<and> leaves v f xs (a - b) (Integer_Minus sd f) \<and>
     leaves v f xs (a * b) (Integer_Star sd f) \<and>
     (if b = 0 then Integer_Slash sd f v = Inl (Signal ''SIGFPE'') \<and> Integer_Percent sd f v = Inl (Signal ''SIGFPE'')
      else leaves v f xs (c_div a b) (Integer_Slash sd f) \<and> leaves v f xs (c_mod a b) (Integer_Percent sd f))"
proof -
  obtain l r where o: "operands v f xs l r" "kindAt v l = Some KInteger" "kindAt v r = Some KInteger"
     "numberOf v l = Some a" "numberOf v r = Some b" and ab: "in_i32 a" "in_i32 b"
    using assms unfolding integerPair_def by blast
  note i64 = i32_results [OF ab]
  have m64: "in_i64 (c_mod a b)" using i64(5) ab by auto
  have "Integer_binary sd op g f v = Inl e" if "\<And>w. g a b w = Inl e" for op g e
  proof -
    obtain v2 where "Integer_binary sd op g f v = g a b v2" by (rule Integer_binary_leaves [OF o])
    with that show ?thesis by simp
  qed
  then have "b = 0 \<longrightarrow> Integer_Slash sd f v = Inl (Signal ''SIGFPE'') \<and> Integer_Percent sd f v = Inl (Signal ''SIGFPE'')"
    by (simp add: Integer_Slash_def Integer_Percent_def throwE_def)
  moreover have "leaves v f xs (a + b) (Integer_Plus sd f)" "leaves v f xs (a - b) (Integer_Minus sd f)"
    "leaves v f xs (a * b) (Integer_Star sd f)"
    unfolding Integer_Plus_def Integer_Minus_def Integer_Star_def using i64(1-3) by (auto intro!: integerPair_op [OF assms])
  moreover have "b \<noteq> 0 \<Longrightarrow> leaves v f xs (c_div a b) (Integer_Slash sd f) \<and> leaves v f xs (c_mod a b) (Integer_Percent sd f)"
    unfolding Integer_Slash_def Integer_Percent_def using i64(4) m64 by (auto intro!: integerPair_op [OF assms])
  ultimately show ?thesis by simp
qed


text \<open>A frame with the greatest 32-bit integer and 1 on its stack, and one with the greatest 64-bit
  integer and 1.\<close>

definition vm2 :: vm where
  "vm2 = vm1\<lparr>nextPtr := 26, heap := (heap vm1)(24 \<mapsto> sampleInt 2147483647, 25 \<mapsto> sampleInt 1,
     19 \<mapsto> \<lparr>o_kind = KFrame, o_size = 88, o_fields = [2, NULL, NULL, 13, 20, 21, 22],
             o_slots = [12, 24, 25, NULL], o_data = NoData\<rparr>)\<rparr>"

lemma vm2_ok: "vm_ok vm2"
proof -
  let ?a = "vm1\<lparr>heap := (heap vm1)(24 \<mapsto> sampleInt 2147483647), nextPtr := 25\<rparr>"
  let ?b = "?a\<lparr>heap := (heap ?a)(25 \<mapsto> sampleInt 1), nextPtr := 26\<rparr>"
  have "vm_ok ?a" using vm_le_alloc1 [OF vm1_ok refl] by (simp add: vm1_ptrs)
  from vm_le_alloc1 [OF this refl] have "vm_ok ?b" by simp
  from vm_ok_update [OF this, of 19] show ?thesis by (simp add: vm1_heap vm2_def)
qed

lemma vm2_heap:
  "heap vm2 24 = Some (sampleInt 2147483647)" "heap vm2 25 = Some (sampleInt 1)"
  "heap vm2 19 = Some \<lparr>o_kind = KFrame, o_size = 88, o_fields = [2, NULL, NULL, 13, 20, 21, 22],
     o_slots = [12, 24, 25, NULL], o_data = NoData\<rparr>"
  "intOf vm2 20 = Some 2"
  using vm1_int(11) by (simp_all add: vm2_def intOf_def)

lemma frameOf_19:
  assumes "heap v 19 = Some \<lparr>o_kind = KFrame, o_size = 88, o_fields = [2, NULL, NULL, 13, 20, 21, 22],
     o_slots = [12, 24, 25, NULL], o_data = NoData\<rparr>" "intOf v 20 = Some 2"
  shows "stackOf v 19 = Some [25, 24, 12]" "frameOf v 19 = heap v 19"
proof -
  show "frameOf v 19 = heap v 19"
    using assms(1) by (simp add: frameOf_def array_size_ok_def sizeof_VMObject_def sizeof_pointer_def)
  with assms show "stackOf v 19 = Some [25, 24, 12]" by (simp add: stackOf_def)
qed

lemma vm2_pair: "integerPair vm2 19 [12] 2147483647 1"
proof -
  have "operands vm2 19 [12] 24 25"
    using vm2_ok frameOf_19 [OF vm2_heap(3,4)] by (simp add: operands_def numberOf_def vm2_heap sampleInt_def)
  then show ?thesis
    unfolding integerPair_def
    by (intro exI [of _ 24] exI [of _ 25]) (simp add: kindAt_def numberOf_def vm2_heap sampleInt_def)
qed

theorem integer_arithmetic_witness:
  "leaves vm2 19 [12] 2147483648 (Integer_Plus (\<lambda>_ _ _. throwE BadCast) 19)"
  using integer_arithmetic [OF vm2_pair, of "\<lambda>_ _ _. throwE BadCast"] by simp

section \<open>Big integers\<close>

text \<open>C34. The operations of BigInteger, with an Integer or a BigInteger on the right: +, -, * and /
  wrap around at 64 bits and come back to an Integer as soon as the result fits 32 bits; % and
  & leave a BigInteger whatever their value; / and % trap for zero; = and < compare the
  numbers.\<close>

theorem big_integer_arithmetic:
  assumes "operands v f xs l r" "kindAt v l = Some KBigInteger" "numberOf v l = Some a" "numberOf v r = Some b" "in_i64 b"
  shows "leaves v f xs (to_i64 (a + b)) (BigInteger_Plus f) \<and> leaves v f xs (to_i64 (a - b)) (BigInteger_Minus f) \<and>
     leaves v f xs (to_i64 (a * b)) (BigInteger_Star f) \<and>
     (if b = 0 then BigInteger_Slash f v = Inl (Signal ''SIGFPE'') \<and> BigInteger_Percent f v = Inl (Signal ''SIGFPE'')
      else leaves v f xs (to_i64 (c_div a b)) (BigInteger_Slash f) \<and> leavesBig v f xs (to_i64 (c_mod a b)) (BigInteger_Percent f)) \<and>
     leavesBig v f xs (and a b) (BigInteger_And f) \<and>
     leavesBool v f xs (a = b) (BigInteger_Equal f) \<and> leavesBool v f xs (a < b) (BigInteger_Lowerthan f)"
proof -
  note op = BigInteger_op [OF assms]
  have "leaves v f xs (to_i64 (a + b)) (BigInteger_Plus f)" "leaves v f xs (to_i64 (a - b)) (BigInteger_Minus f)"
    "leaves v f xs (to_i64 (a * b)) (BigInteger_Star f)" "b \<noteq> 0 \<Longrightarrow> leaves v f xs (to_i64 (c_div a b)) (BigInteger_Slash f)"
    unfolding BigInteger_Plus_def BigInteger_Minus_def BigInteger_Star_def BigInteger_Slash_def
    by (auto intro!: op(1) pushResult_leaves(2))
  moreover have "b \<noteq> 0 \<Longrightarrow> leavesBig v f xs (to_i64 (c_mod a b)) (BigInteger_Percent f)" "leavesBig v f xs (and a b) (BigInteger_And f)"
    unfolding BigInteger_Percent_def BigInteger_And_def by (auto intro!: op(2) NewBigInteger_leaves)
  moreover have "leavesBool v f xs (a = b) (BigInteger_Equal f)" "leavesBool v f xs (a < b) (BigInteger_Lowerthan f)"
    unfolding BigInteger_Equal_def BigInteger_Lowerthan_def by (auto intro!: op(3) PushBool_leaves)
  moreover have "b = 0 \<Longrightarrow> BigInteger_Slash f v = Inl (Signal ''SIGFPE'')" "b = 0 \<Longrightarrow> BigInteger_Percent f v = Inl (Signal ''SIGFPE'')"
    unfolding BigInteger_Slash_def BigInteger_Percent_def by (auto intro!: op(4))
  ultimately show ?thesis by simp
qed

definition vm3 :: vm where
  "vm3 = vm2\<lparr>heap := (heap vm2)(24 \<mapsto> \<lparr>o_kind = KBigInteger, o_size = 52, o_fields = [NULL], o_slots = [],
     o_data = BigData 9223372036854775807\<rparr>)\<rparr>"

theorem big_integer_arithmetic_witness:
  "leaves vm3 19 [12] (- 9223372036854775808) (BigInteger_Plus 19) \<and> leaves vm3 19 [12] 9223372036854775806 (BigInteger_Minus 19) \<and>
     leavesBig vm3 19 [12] 0 (BigInteger_Percent 19)"
proof -
  have h: "heap vm3 19 = heap vm2 19" "heap vm3 25 = heap vm2 25" "intOf vm3 20 = intOf vm2 20"
    "heap vm3 24 = Some \<lparr>o_kind = KBigInteger, o_size = 52, o_fields = [NULL], o_slots = [],
     o_data = BigData 9223372036854775807\<rparr>"
    by (simp_all add: vm3_def intOf_def)
  have "vm_ok vm3" using vm_ok_update [OF vm2_ok vm2_heap(1)] by (simp add: vm3_def sampleInt_def)
  then have "operands vm3 19 [12] 24 25"
    using frameOf_19 [of vm3] by (simp add: operands_def numberOf_def h vm2_heap sampleInt_def)
  from big_integer_arithmetic [OF this, of 9223372036854775807 1] show ?thesis
    by (simp add: kindAt_def numberOf_def h vm2_heap sampleInt_def to_i64_def signed_take_bit_eq_take_bit_shift take_bit_eq_mod c_mod_def c_div_def)
qed

end
