(* ===== verification/DoubleProperties.thy ===== *)
theory DoubleProperties
  imports ArithmeticProperties
begin

text \<open>
  The primitives of Double on integers. An integer below 2 to the 53 has an exact double: the
  first section reads its sign, exponent and fraction back from the 64 bits, and shows that the
  order and the truncation of such doubles are those of the integers. The second runs the
  primitives on a frame whose stack holds the operands.
\<close>

section \<open>Integers as doubles\<close>

lemma bit_length_bounds:
  assumes "0 < n"
  shows "2 ^ (bit_length n - 1) \<le> n" "n < 2 ^ bit_length n" "0 < bit_length n"
proof -
  have "2 ^ (bit_length n - 1) \<le> n \<and> n < 2 ^ bit_length n \<and> 0 < bit_length n"
    using assms
  proof (induction n rule: less_induct)
    case (less n)
    have l: "bit_length n = Suc (bit_length (n div 2))" using less.prems by (subst bit_length.simps) simp
    show ?case
    proof (cases "n = 1")
      case True
      have "bit_length 0 = 0" by (subst bit_length.simps) simp
      with True l show ?thesis by simp
    next
      case False
      then have d: "0 < n div 2" "n div 2 < n" using less.prems by auto
      obtain k where k: "bit_length (n div 2) = Suc k" using less.IH [OF d(2,1)] by (cases "bit_length (n div 2)") auto
      with less.IH [OF d(2,1)] have "2 ^ k \<le> n div 2" "n div 2 < 2 * 2 ^ k" by simp_all
      with l k show ?thesis by simp linarith
    qed
  qed
  then show "2 ^ (bit_length n - 1) \<le> n" "n < 2 ^ bit_length n" "0 < bit_length n" by simp_all
qed

text \<open>The bits of a positive integer below 2 to the 53, without the sign.\<close>

definition fp_bits :: "nat \<Rightarrow> nat" where
  "fp_bits n = (if n = 0 then 0 else (bit_length n + 1022) * 2 ^ 52 + (n * 2 ^ (53 - bit_length n) - 2 ^ 52))"

lemma fp_normal:
  assumes "0 < n" "n < 2 ^ 53"
  shows "bit_length n \<le> 53" "2 ^ 52 \<le> n * 2 ^ (53 - bit_length n)" "n * 2 ^ (53 - bit_length n) < 2 ^ 53"
proof -
  note b = bit_length_bounds [OF assms(1)]
  have "(2::nat) ^ (bit_length n - 1) < 2 ^ 53" using b(1) assms(2) by (rule le_less_trans)
  then have "bit_length n - 1 < 53" by (rule power_less_imp_less_exp [rotated]) simp
  then show l: "bit_length n \<le> 53" by simp
  have "(2::nat) ^ 52 = 2 ^ (bit_length n - 1) * 2 ^ (53 - bit_length n)"
    using l b(3) by (simp only: power_add [symmetric], simp)
  then show "2 ^ 52 \<le> n * 2 ^ (53 - bit_length n)" using b(1) by (metis mult_le_mono1)
  have "(2::nat) ^ 53 = 2 ^ bit_length n * 2 ^ (53 - bit_length n)"
    using l by (simp only: power_add [symmetric], simp)
  then show "n * 2 ^ (53 - bit_length n) < 2 ^ 53" using b(2) by (metis mult_less_mono1 zero_less_numeral zero_less_power)
qed

lemma split_bits: "m < k \<Longrightarrow> (a * k + m) div k = a" "m < k \<Longrightarrow> (a * k + m) mod k = m" for k :: nat
  by simp_all

lemma fp_bits_fields:
  assumes "0 < n" "n < 2 ^ 53"
  shows "fp_bits n div 2 ^ 52 = bit_length n + 1022" "fp_bits n mod 2 ^ 52 = n * 2 ^ (53 - bit_length n) - 2 ^ 52"
    "fp_bits n < 2 ^ 63"
proof -
  let ?m = "n * 2 ^ (53 - bit_length n) - 2 ^ 52"
  have m: "?m < 2 ^ 52" using fp_normal [OF assms] by simp
  have f: "fp_bits n = (bit_length n + 1022) * 2 ^ 52 + ?m" using assms by (simp add: fp_bits_def)
  show d: "fp_bits n div 2 ^ 52 = bit_length n + 1022" "fp_bits n mod 2 ^ 52 = ?m" unfolding f by (rule split_bits [OF m])+
  have "bit_length n + 1022 \<le> 1075" using fp_normal(1) [OF assms] by simp
  then have "(bit_length n + 1022) * 2 ^ 52 \<le> 1075 * 2 ^ 52" by (rule mult_le_mono1)
  with m show "fp_bits n < 2 ^ 63" unfolding f by simp
qed

lemma fp_bits_small: "n < 2 ^ 53 \<Longrightarrow> fp_bits n < 2 ^ 63"
  using fp_bits_fields(3) [of n] by (cases "n = 0") (simp_all add: fp_bits_def)

lemma double_bits:
  assumes "\<bar>i\<bar> < 2 ^ 53"
  shows "unat (double_of_int i) = (if i < 0 then 2 ^ 63 else 0) + fp_bits (nat \<bar>i\<bar>)"
proof (cases "i = 0")
  case True
  then show ?thesis by (simp add: double_of_int_def fp_bits_def)
next
  case False
  let ?n = "nat \<bar>i\<bar>" and ?s = "(if i < 0 then 2 ^ 63 else 0) :: nat"
  have n: "0 < ?n" "?n < 2 ^ 53" using False assms by auto
  have "double_of_int i = word_of_int (int (?s + fp_bits ?n))"
    using False n fp_normal(1) [OF n] by (simp add: double_of_int_def Let_def fp_bits_def)
  then have "double_of_int i = of_nat (?s + fp_bits ?n)" by simp
  moreover have "?s + fp_bits ?n < 2 ^ 64"
  proof -
    have "s + b < 2 ^ 64" if "b < 2 ^ 63" "s \<le> 2 ^ 63" for s b :: nat using that by simp
    from this [OF fp_bits_small [OF n(2)]] show ?thesis by simp
  qed
  ultimately show ?thesis by (simp only: unat_of_nat) (simp add: take_bit_nat_eq_self unsigned_of_nat)
qed

lemma double_fields:
  assumes "\<bar>i\<bar> < 2 ^ 53"
  shows "fp_negative (double_of_int i) \<longleftrightarrow> i < 0"
    and "fp_exponent (double_of_int i) = fp_bits (nat \<bar>i\<bar>) div 2 ^ 52"
    and "fp_fraction (double_of_int i) = fp_bits (nat \<bar>i\<bar>) mod 2 ^ 52"
    and "fp_key (double_of_int i) = sgn i * int (fp_bits (nat \<bar>i\<bar>))"
proof -
  let ?b = "fp_bits (nat \<bar>i\<bar>)"
  have b: "?b < 2 ^ 63" using assms by (intro fp_bits_small) simp
  note u = double_bits [OF assms]
  have b': "\<not> 2 ^ 63 \<le> ?b" using b by simp
  show neg: "fp_negative (double_of_int i) \<longleftrightarrow> i < 0" unfolding fp_negative_def u using b' by (cases "i < 0") simp_all
  have signed: "((if i < 0 then 2 ^ 63 else 0) + c) div 2 ^ 52 mod 2 ^ 11 = c div 2 ^ 52"
    "((if i < 0 then 2 ^ 63 else 0) + c) mod 2 ^ 52 = c mod 2 ^ 52" "((if i < 0 then 2 ^ 63 else 0) + c) mod 2 ^ 63 = c"
    if "c < 2 ^ 63" for c :: nat
  proof -
    have "c div 2 ^ 52 < 2 ^ 11" using that by (simp add: less_mult_imp_div_less)
    moreover have "(2 ^ 63 + c) div 2 ^ 52 = 2 ^ 11 + c div 2 ^ 52" using div_mult_self3 [of "2 ^ 52" "2 ^ 11" c] by simp
    moreover have "(2 ^ 63 + c) mod 2 ^ 52 = c mod 2 ^ 52" using mod_mult_self3 [of "2 ^ 11" "2 ^ 52" c] by simp
    ultimately show "((if i < 0 then 2 ^ 63 else 0) + c) div 2 ^ 52 mod 2 ^ 11 = c div 2 ^ 52"
      "((if i < 0 then 2 ^ 63 else 0) + c) mod 2 ^ 52 = c mod 2 ^ 52" "((if i < 0 then 2 ^ 63 else 0) + c) mod 2 ^ 63 = c"
      using that by simp_all
  qed
  show "fp_exponent (double_of_int i) = ?b div 2 ^ 52" unfolding fp_exponent_def u by (rule signed(1) [OF b])
  show "fp_fraction (double_of_int i) = ?b mod 2 ^ 52" unfolding fp_fraction_def u by (rule signed(2) [OF b])
  have "unat (double_of_int i) mod 2 ^ 63 = ?b" unfolding u by (rule signed(3) [OF b])
  then show "fp_key (double_of_int i) = sgn i * int ?b"
    using neg by (cases "i = 0") (auto simp: fp_key_def Let_def sgn_if fp_bits_def)
qed

lemma double_not_nan: "\<bar>i\<bar> < 2 ^ 53 \<Longrightarrow> \<not> fp_nan (double_of_int i)"
proof -
  assume i: "\<bar>i\<bar> < 2 ^ 53"
  show ?thesis
  proof (cases "i = 0")
    case True
    then show ?thesis using double_fields [OF i] by (simp add: fp_nan_def fp_bits_def)
  next
    case False
    then have n: "0 < nat \<bar>i\<bar>" "nat \<bar>i\<bar> < 2 ^ 53" using i by auto
    have "fp_exponent (double_of_int i) \<le> 1075" using double_fields(2) [OF i] fp_bits_fields(1) [OF n] fp_normal(1) [OF n] by simp
    then show ?thesis by (simp add: fp_nan_def)
  qed
qed

lemma fp_bits_mono:
  assumes "m < n" "n < 2 ^ 53"
  shows "fp_bits m < fp_bits n"
proof (cases "m = 0")
  case True
  have "0 < n" using assms by simp
  then have "0 < fp_bits n" by (simp add: fp_bits_def)
  with True show ?thesis by (simp add: fp_bits_def)
next
  case False
  have m: "0 < m" "m < 2 ^ 53" and n: "0 < n" using assms False by simp_all
  note fm = fp_bits_fields [OF m] and fn = fp_bits_fields [OF n assms(2)]
  show ?thesis
  proof (cases "bit_length m = bit_length n")
    case True
    then have "m * 2 ^ (53 - bit_length m) < n * 2 ^ (53 - bit_length n)" using assms(1) by simp
    then show ?thesis using m n fp_normal(2) [OF m] fp_normal(2) [OF n assms(2)] True by (simp add: fp_bits_def)
  next
    case False
    have "bit_length m < bit_length n"
    proof (rule ccontr)
      assume "\<not> bit_length m < bit_length n"
      then have pw: "(2::nat) ^ bit_length n \<le> 2 ^ (bit_length m - 1)" using False by (intro power_increasing) auto
      have "n < m" using less_le_trans [OF bit_length_bounds(2) [OF n] order_trans [OF pw bit_length_bounds(1) [OF m(1)]]] .
      with assms(1) show False by simp
    qed
    then have "fp_bits m div 2 ^ 52 < fp_bits n div 2 ^ 52" using fm(1) fn(1) by simp
    then show ?thesis by (meson div_le_mono leD leI)
  qed
qed

text \<open>The order and the truncation of the doubles of integers are those of the integers.\<close>

lemma double_order:
  assumes "\<bar>i\<bar> < 2 ^ 53" "\<bar>j\<bar> < 2 ^ 53"
  shows "fp_lt (double_of_int i) (double_of_int j) \<longleftrightarrow> i < j" "fp_eq (double_of_int i) (double_of_int j) \<longleftrightarrow> i = j"
proof -
  have lt: "fp_key (double_of_int i) < fp_key (double_of_int j)" if ij: "i < j" and b: "\<bar>i\<bar> < 2 ^ 53" "\<bar>j\<bar> < 2 ^ 53" for i j
  proof -
    have pos: "0 < fp_bits (nat \<bar>k\<bar>)" if "k \<noteq> 0" for k using that by (simp add: fp_bits_def)
    consider "i < 0" "j < 0" | "i < 0" "0 \<le> j" | "0 \<le> i" using ij by linarith
    then show ?thesis
    proof cases
      case 1
      then have "fp_bits (nat \<bar>j\<bar>) < fp_bits (nat \<bar>i\<bar>)" using ij b by (intro fp_bits_mono) auto
      with 1 show ?thesis using double_fields(4) b by simp
    next
      case 2
      then show ?thesis using double_fields(4) b pos [of i] by (cases "j = 0") (simp_all add: sgn_if)
    next
      case 3
      then have "fp_bits (nat \<bar>i\<bar>) < fp_bits (nat \<bar>j\<bar>)" using ij b by (intro fp_bits_mono) auto
      with 3 ij show ?thesis using double_fields(4) b by (cases "i = 0") (simp_all add: sgn_if fp_bits_def)
    qed
  qed
  show "fp_lt (double_of_int i) (double_of_int j) \<longleftrightarrow> i < j"
    using lt [of i j] lt [of j i] assms double_not_nan unfolding fp_lt_def by (metis less_asym linorder_neqE_linordered_idom less_irrefl)
  show "fp_eq (double_of_int i) (double_of_int j) \<longleftrightarrow> i = j"
    using lt [of i j] lt [of j i] assms double_not_nan unfolding fp_eq_def by (metis less_irrefl linorder_neqE_linordered_idom)
qed

lemma double_trunc:
  assumes "\<bar>i\<bar> < 2 ^ 53"
  shows "fp_trunc (double_of_int i) = i"
proof (cases "i = 0")
  case True
  then show ?thesis using double_fields [OF assms] by (simp add: fp_trunc_def fp_bits_def)
next
  case False
  let ?n = "nat \<bar>i\<bar>" and ?l = "bit_length (nat \<bar>i\<bar>)"
  have n: "0 < ?n" "?n < 2 ^ 53" using False assms by auto
  note f = double_fields [OF assms] and g = fp_bits_fields [OF n] and l = fp_normal [OF n]
  have e: "fp_exponent (double_of_int i) = ?l + 1022" using f(2) g(1) by simp
  have m: "2 ^ 52 + fp_fraction (double_of_int i) = ?n * 2 ^ (53 - ?l)" using f(3) g(2) l(2) by simp
  have t: "(if 1075 \<le> ?l + 1022 then (?n * 2 ^ (53 - ?l)) * 2 ^ (?l + 1022 - 1075) else ?n * 2 ^ (53 - ?l) div 2 ^ (1075 - (?l + 1022))) = ?n"
    using l(1) by (cases "?l = 53") auto
  have e1: "?l + 1022 \<noteq> 0" "?l + 1022 \<noteq> 2047" "max (?l + 1022) 1 = ?l + 1022" using l(1) by simp_all
  have r: "(if i < 0 then - int ?n else int ?n) = i" by simp
  have "\<bar>i\<bar> < 9007199254740992" using assms by simp
  then have "\<not> (i < - 9223372036854775808)" "\<not> (9223372036854775807 < i)" by linarith+
  then show ?thesis unfolding fp_trunc_def Let_def e m f(1) by (simp only: e1 if_False t r simp_thms)
qed

section \<open>The primitives of Double\<close>

text \<open>\<open>doubles v f xs l r a b\<close>: on the stack of f lie the double of the integer a and the integer b, as
  a Double, an Integer or a BigInteger.\<close>

definition doubleAt :: "vm \<Rightarrow> ptr \<Rightarrow> 64 word \<Rightarrow> bool" where
  "doubleAt v p w \<longleftrightarrow> (\<exists>ob. heap v p = Some ob \<and> o_kind ob = KDouble \<and> o_data ob = DoubleData w)"

definition doubles :: "vm \<Rightarrow> ptr \<Rightarrow> ptr list \<Rightarrow> int \<Rightarrow> int \<Rightarrow> bool" where
  "doubles v f xs a b \<longleftrightarrow> (\<exists>l r. vm_ok v \<and> stackOf v f = Some (r # l # xs) \<and>
     (\<forall>ob. frameOf v f = Some ob \<longrightarrow> l \<noteq> o_fields ob ! 4 \<and> r \<noteq> o_fields ob ! 4) \<and>
     doubleAt v l (double_of_int a) \<and> (doubleAt v r (double_of_int b) \<or> numberOf v r = Some b))"

definition leavesDouble :: "vm \<Rightarrow> ptr \<Rightarrow> ptr list \<Rightarrow> 64 word \<Rightarrow> unit vmM \<Rightarrow> bool" where
  "leavesDouble v f xs w M \<longleftrightarrow> (\<exists>v' q. M v = Inr ((), v') \<and> stackOf v' f = Some (q # xs) \<and> heap v q = None \<and> doubleAt v' q w)"

text \<open>The operands reach the operation as the doubles of the integers.\<close>

lemma operands_reach:
  assumes "doubles v f xs a b"
  obtains w where "PREPARE_OPERANDS g f v = g (double_of_int a) (double_of_int b) w" "stackOf w f = Some xs" "0 < roomOf w f" "vm_ok w"
    "\<forall>p. heap w p = None \<longleftrightarrow> heap v p = None" "trueObject w = trueObject v" "falseObject w = falseObject v"
proof -
  obtain l r where o: "vm_ok v" "stackOf v f = Some (r # l # xs)" "\<forall>ob. frameOf v f = Some ob \<longrightarrow> l \<noteq> o_fields ob ! 4 \<and> r \<noteq> o_fields ob ! 4"
    "doubleAt v l (double_of_int a)" "doubleAt v r (double_of_int b) \<or> numberOf v r = Some b"
    using assms unfolding doubles_def by blast
  obtain ob where ob: "frameOf v f = Some ob" using o(2) by (rule stackOfE)
  obtain v1 where v1: "Pop f v = Inr (r, v1)" "stackOf v1 f = Some (l # xs)" "frameStep f v v1"
    using Pop_run [OF o(2)] by blast
  obtain v2 where v2: "Pop f v1 = Inr (l, v2)" "stackOf v2 f = Some xs" "roomOf v2 f = roomOf v1 f + 1" "frameStep f v1 v2"
    using Pop_run [OF v1(2)] by blast
  have st: "frameStep f v v2" by (rule frameStep_trans [OF v1(3) v2(4)])
  have nf: "l \<noteq> f" "r \<noteq> f"
    using o(4,5) frameOf_facts(1,2) [OF ob] by (auto simp: doubleAt_def numberOf_def split: payload.splits)
  have keep: "heap v1 r = heap v r" "heap v2 l = heap v l"
    using frameStep_other [OF v1(3) ob] frameStep_other [OF st ob] nf o(3) ob by simp_all
  have "coerceDouble r v1 = Inr (double_of_int b, v1)"
    using o(5)
  proof
    assume "doubleAt v r (double_of_int b)"
    then show ?thesis using keep(1) by (auto simp: doubleAt_def coerceDouble_def kindOf_def GetEmbeddedDouble_def deref_def)
  next
    assume "numberOf v r = Some b"
    then show ?thesis
      by (cases rule: numberOf_cases)
        (use keep(1) in \<open>auto simp: coerceDouble_def kindOf_def GetEmbeddedInteger_def GetEmbeddedBigInteger_def deref_def\<close>)
  qed
  moreover have "GetEmbeddedDouble l v2 = Inr (double_of_int a, v2)"
    using o(4) keep(2) by (auto simp: doubleAt_def GetEmbeddedDouble_def deref_def)
  ultimately have run: "PREPARE_OPERANDS g f v = g (double_of_int a) (double_of_int b) v2"
    using v1(1) v2(1) by (simp add: PREPARE_OPERANDS_def)
  have "\<forall>p. heap v2 p = None \<longleftrightarrow> heap v p = None" "trueObject v2 = trueObject v" "falseObject v2 = falseObject v"
    using st by (auto simp: frameStep_def)
  then show thesis using that [OF run v2(2)] v2(3) frameStep_ok [OF st o(1)] by simp
qed

lemma NewDouble_leaves:
  assumes "vm_ok v" "stackOf v f = Some xs" "0 < roomOf v f"
  shows "leavesDouble v f xs w (bindE (NewDouble w) (Push f))"
proof -
  let ?ob = "\<lparr>o_kind = KDouble, o_size = sizeof_VMObject + 8, o_fields = [doubleClass v], o_slots = [], o_data = DoubleData w\<rparr>"
  have "bindE (NewDouble w) (Push f) v = bindE (allocate ?ob) (Push f) v" by (simp add: NewDouble_def bindE_def getsE_def)
  moreover have "heap v (nextPtr v) = None" using assms(1) by (simp add: vm_ok_fresh)
  ultimately show ?thesis using Push_new [OF assms, of ?ob] by (auto simp: leavesDouble_def doubleAt_def)
qed

lemma doubles_op:
  assumes "doubles v f xs a b"
  shows "(\<And>w. vm_ok w \<Longrightarrow> stackOf w f = Some xs \<Longrightarrow> 0 < roomOf w f \<Longrightarrow> leavesDouble w f xs d (g (double_of_int a) (double_of_int b)))
      \<Longrightarrow> leavesDouble v f xs d (PREPARE_OPERANDS g f)"
    and "(\<And>w. stackOf w f = Some xs \<Longrightarrow> 0 < roomOf w f \<Longrightarrow> leavesBool w f xs c (g (double_of_int a) (double_of_int b)))
      \<Longrightarrow> leavesBool v f xs c (PREPARE_OPERANDS g f)"
    and "(\<And>w. g (double_of_int a) (double_of_int b) w = Inl e) \<Longrightarrow> PREPARE_OPERANDS g f v = Inl e"
proof -
  obtain w where w: "PREPARE_OPERANDS g f v = g (double_of_int a) (double_of_int b) w" "stackOf w f = Some xs" "0 < roomOf w f" "vm_ok w"
    "\<forall>p. heap w p = None \<longleftrightarrow> heap v p = None" "trueObject w = trueObject v" "falseObject w = falseObject v"
    by (rule operands_reach [OF assms])
  show "leavesDouble v f xs d (PREPARE_OPERANDS g f)"
    if "\<And>w. vm_ok w \<Longrightarrow> stackOf w f = Some xs \<Longrightarrow> 0 < roomOf w f \<Longrightarrow> leavesDouble w f xs d (g (double_of_int a) (double_of_int b))"
    using that [OF w(4,2,3)] w(1,5) by (simp add: leavesDouble_def)
  show "leavesBool v f xs c (PREPARE_OPERANDS g f)"
    if "\<And>w. stackOf w f = Some xs \<Longrightarrow> 0 < roomOf w f \<Longrightarrow> leavesBool w f xs c (g (double_of_int a) (double_of_int b))"
    using that [OF w(2,3)] w(1) unfolding leavesBool_def w(6,7) by simp
  show "PREPARE_OPERANDS g f v = Inl e" if "\<And>w. g (double_of_int a) (double_of_int b) w = Inl e"
    using that w(1) by simp
qed

text \<open>C33. Double computes on integers below 2 to the 53 as on their doubles, whether the right
  operand is a Double, an Integer or a BigInteger: = and < compare the integers, % is the
  remainder and traps for zero, & the conjunction, and +, -, * and // are the operations of
  the host.\<close>

theorem double_arithmetic:
  assumes "doubles v f xs a b" "\<bar>a\<bar> < 2 ^ 53" "\<bar>b\<bar> < 2 ^ 53"
  shows "leavesBool v f xs (a = b) (Double_Equal f) \<and> leavesBool v f xs (a < b) (Double_Lowerthan f) \<and>
     (if b = 0 then Double_Percent f v = Inl (Signal ''SIGFPE'')
      else leavesDouble v f xs (double_of_int (c_mod a b)) (Double_Percent f)) \<and>
     leavesDouble v f xs (double_of_int (and a b)) (Double_And f) \<and>
     leavesDouble v f xs (fp_add ext (double_of_int a) (double_of_int b)) (Double_Plus ext f) \<and>
     leavesDouble v f xs (fp_sub ext (double_of_int a) (double_of_int b)) (Double_Minus ext f) \<and>
     leavesDouble v f xs (fp_mul ext (double_of_int a) (double_of_int b)) (Double_Star ext f) \<and>
     leavesDouble v f xs (fp_div ext (double_of_int a) (double_of_int b)) (Double_Slashslash ext f)"
proof -
  note op = doubles_op [OF assms(1)] and ord = double_order [OF assms(2,3)]
    and tr = double_trunc [OF assms(2)] double_trunc [OF assms(3)]
  have "\<bar>c_mod a b\<bar> \<le> \<bar>a\<bar>" using c_mod_bound by blast
  then have m: "to_i64 (c_mod a b) = c_mod a b" using assms(2) by (intro to_i64_id) auto
  have "leavesBool v f xs (a = b) (Double_Equal f)" "leavesBool v f xs (a < b) (Double_Lowerthan f)"
    unfolding Double_Equal_def Double_Lowerthan_def by (rule op(2); simp add: ord PushBool_leaves)+
  moreover have "b = 0 \<longrightarrow> Double_Percent f v = Inl (Signal ''SIGFPE'')"
    unfolding Double_Percent_def by (intro impI op(3)) (use tr(2) in simp)
  moreover have "b \<noteq> 0 \<longrightarrow> leavesDouble v f xs (double_of_int (c_mod a b)) (Double_Percent f)"
    unfolding Double_Percent_def by (intro impI op(1)) (simp add: tr m NewDouble_leaves)
  moreover have "leavesDouble v f xs (double_of_int (and a b)) (Double_And f)"
    unfolding Double_And_def by (rule op(1)) (simp add: tr NewDouble_leaves)
  moreover have "leavesDouble v f xs (fp_add ext (double_of_int a) (double_of_int b)) (Double_Plus ext f)"
    "leavesDouble v f xs (fp_sub ext (double_of_int a) (double_of_int b)) (Double_Minus ext f)"
    "leavesDouble v f xs (fp_mul ext (double_of_int a) (double_of_int b)) (Double_Star ext f)"
    "leavesDouble v f xs (fp_div ext (double_of_int a) (double_of_int b)) (Double_Slashslash ext f)"
    unfolding Double_Plus_def Double_Minus_def Double_Star_def Double_Slashslash_def
    by (rule op(1); rule NewDouble_leaves; assumption)+
  ultimately show ?thesis by simp
qed

text \<open>The sample frame with the double of 3 and the integer 1 on its stack.\<close>

definition vm7 :: vm where
  "vm7 = vm2\<lparr>heap := (heap vm2)(24 \<mapsto> \<lparr>o_kind = KDouble, o_size = 56, o_fields = [NULL], o_slots = [],
     o_data = DoubleData (double_of_int 3)\<rparr>)\<rparr>"

lemma vm7_doubles: "doubles vm7 19 [12] 3 1"
proof -
  have h: "heap vm7 19 = heap vm2 19" "heap vm7 25 = heap vm2 25" "intOf vm7 20 = intOf vm2 20"
    "heap vm7 24 = Some \<lparr>o_kind = KDouble, o_size = 56, o_fields = [NULL], o_slots = [], o_data = DoubleData (double_of_int 3)\<rparr>"
    by (simp_all add: vm7_def intOf_def)
  have "vm_ok vm7" using vm_ok_update [OF vm2_ok vm2_heap(1)] by (simp add: vm7_def sampleInt_def)
  then show ?thesis
    unfolding doubles_def using frameOf_19 [of vm7]
    by (intro exI [of _ 24] exI [of _ 25]) (simp add: doubleAt_def numberOf_def h vm2_heap sampleInt_def)
qed

theorem double_arithmetic_witness:
  "leavesBool vm7 19 [12] False (Double_Lowerthan 19) \<and> leavesDouble vm7 19 [12] (double_of_int 0) (Double_Percent 19)"
  using double_arithmetic [OF vm7_doubles, of sampleExt] by (simp add: c_mod_def c_div_def)

end
