(* ===== verification/HeapTyping.thy ===== *)
theory HeapTyping
  imports Interpreter ObjectLaws
begin

text \<open>
  The typing of the heap: every object has the size, the fields and the data its class gives it,
  and nothing the machine does changes them. \<open>shaped m\<close> says that of one operation; it holds of
  the access functions of the heap by computation and of everything built from them by rule.
\<close>

section \<open>Layouts\<close>

text \<open>What of an object never changes: the class it was constructed with, its size, the number
  of its fields and of its indexable pointers, the length of code, the kind of payload, and the
  value of strings, big integers and doubles.\<close>

definition fixedData :: "payload \<Rightarrow> payload" where
  "fixedData d = (case d of IntData i \<Rightarrow> IntData 0 | CodeData bs \<Rightarrow> CodeData (replicate (length bs) 0)
     | PrimData r e \<Rightarrow> PrimData EmptyRoutine False | EvalData r e n \<Rightarrow> EvalData EmptyRoutine False NULL | _ \<Rightarrow> d)"

definition shape :: "vmobject \<Rightarrow> kind \<times> int \<times> nat \<times> nat \<times> payload" where
  "shape ob = (o_kind ob, o_size ob, length (o_fields ob), length (o_slots ob), fixedData (o_data ob))"

fun laidOut :: "kind \<times> int \<times> nat \<times> nat \<times> payload \<Rightarrow> bool" where
  "laidOut (KObject, sz, f, s, d) \<longleftrightarrow> 0 < f \<and> s = 0 \<and> d = NoData \<and> sz = 44 + 4 * int f"
| "laidOut (KClass, sz, f, s, d) \<longleftrightarrow> 5 \<le> f \<and> s = 0 \<and> d = NoData \<and> sz = 44 + 4 * int f"
| "laidOut (KArray, sz, f, s, d) \<longleftrightarrow> f = 1 \<and> d = NoData \<and> sz = 48 + 4 * int s \<and> s < 536870912"
| "laidOut (KFrame, sz, f, s, d) \<longleftrightarrow> f = 7 \<and> d = NoData \<and> sz = 72 + 4 * int s \<and> s < 536870912"
| "laidOut (KMethod, sz, f, s, d) \<longleftrightarrow> f = 8 \<and> (case d of CodeData bs \<Rightarrow> sz = 76 + 4 * int s + int (length bs) | _ \<Rightarrow> False)"
| "laidOut (KPrimitive, sz, f, s, d) \<longleftrightarrow> f = 3 \<and> s = 0 \<and> sz = 64 \<and> (case d of PrimData _ _ \<Rightarrow> True | _ \<Rightarrow> False)"
| "laidOut (KEvaluationPrimitive, sz, f, s, d) \<longleftrightarrow> f = 3 \<and> s = 0 \<and> sz = 68 \<and> (case d of EvalData _ _ _ \<Rightarrow> True | _ \<Rightarrow> False)"
| "laidOut (KInteger, sz, f, s, d) \<longleftrightarrow> f = 1 \<and> s = 0 \<and> sz = 52 \<and> (case d of IntData _ \<Rightarrow> True | _ \<Rightarrow> False)"
| "laidOut (KBigInteger, sz, f, s, d) \<longleftrightarrow> f = 1 \<and> s = 0 \<and> sz = 56 \<and> (case d of BigData _ \<Rightarrow> True | _ \<Rightarrow> False)"
| "laidOut (KDouble, sz, f, s, d) \<longleftrightarrow> f = 1 \<and> s = 0 \<and> sz = 56 \<and> (case d of DoubleData _ \<Rightarrow> True | _ \<Rightarrow> False)"
| "laidOut (KString, sz, f, s, d) \<longleftrightarrow> f = 1 \<and> s = 0 \<and> (case d of StrData t \<Rightarrow> sz = 53 + int (length t) \<and> cstr t = t | _ \<Rightarrow> False)"
| "laidOut (KSymbol, sz, f, s, d) \<longleftrightarrow> f = 1 \<and> s = 0 \<and> (case d of StrData t \<Rightarrow> sz = 53 + int (length t) \<and> cstr t = t | _ \<Rightarrow> False)"
| "laidOut (KBlock, sz, f, s, d) \<longleftrightarrow> f = 3 \<and> s = 0 \<and> d = NoData \<and> sz = 56"

definition typed :: "vm \<Rightarrow> bool" where
  "typed v \<longleftrightarrow> vm_ok v \<and> (\<forall>p ob. heap v p = Some ob \<longrightarrow> laidOut (shape ob))"

definition extends :: "vm \<Rightarrow> vm \<Rightarrow> bool" where
  "extends v v' \<longleftrightarrow> nextPtr v \<le> nextPtr v' \<and>
     (\<forall>p ob. heap v p = Some ob \<longrightarrow> (\<exists>ob'. heap v' p = Some ob' \<and> shape ob' = shape ob)) \<and>
     (\<forall>s. symtab v s \<noteq> NULL \<longrightarrow> symtab v' s = symtab v s)"

lemma extends_refl: "extends v v"
  by (simp add: extends_def)

lemma extends_trans: "extends u v \<Longrightarrow> extends v w \<Longrightarrow> extends u w"
  unfolding extends_def by (metis order_trans)

definition shaped :: "'a vmM \<Rightarrow> bool" where
  "shaped m \<longleftrightarrow> (\<forall>v x v'. typed v \<longrightarrow> m v = Inr (x, v') \<longrightarrow> typed v' \<and> extends v v')"

named_theorems shaped_intro \<open>operations that keep the typing of the heap\<close>

lemma shapedI: "(\<And>v x v'. typed v \<Longrightarrow> m v = Inr (x, v') \<Longrightarrow> typed v' \<and> extends v v') \<Longrightarrow> shaped m"
  by (simp add: shaped_def)

lemma shapedD: "shaped m \<Longrightarrow> typed v \<Longrightarrow> m v = Inr (x, v') \<Longrightarrow> typed v' \<and> extends v v'"
  by (simp add: shaped_def)

section \<open>Composition\<close>

lemma shaped_return [shaped_intro]: "shaped (returnE x)"
  by (simp add: shaped_def extends_refl)

lemma shaped_throw [shaped_intro]: "shaped (throwE e)"
  by (simp add: shaped_def)

lemma shaped_gets [shaped_intro]: "shaped (getsE f)"
  by (simp add: shaped_def extends_refl)

lemma shaped_bind [shaped_intro]: "shaped m \<Longrightarrow> (\<And>x. shaped (f x)) \<Longrightarrow> shaped (bindE m f)"
  unfolding shaped_def by (blast elim: bindE_InrE intro: extends_trans)

lemma shaped_then [shaped_intro]: "shaped m \<Longrightarrow> shaped k \<Longrightarrow> shaped (thenE m k)"
  unfolding thenE_def by (rule shaped_bind)

lemma shaped_if [shaped_intro]: "(b \<Longrightarrow> shaped m) \<Longrightarrow> (\<not> b \<Longrightarrow> shaped k) \<Longrightarrow> shaped (if b then m else k)"
  by simp

lemma shaped_when [shaped_intro]: "shaped m \<Longrightarrow> shaped (whenE b m)"
  unfolding whenE_def by (intro shaped_if shaped_return)

lemma shaped_let [shaped_intro]: "shaped (f x) \<Longrightarrow> shaped (Let x f)"
  by simp

lemma shaped_cases [shaped_intro]:
  "shaped m \<Longrightarrow> (\<And>x. shaped (f x)) \<Longrightarrow> shaped (case opt of None \<Rightarrow> m | Some x \<Rightarrow> f x)"
  "(\<And>x y. shaped (g x y)) \<Longrightarrow> shaped (case q of (x, y) \<Rightarrow> g x y)"
  by (cases opt; simp) (cases q; simp)

lemma shaped_for [shaped_intro]: "(\<And>x. shaped (f x)) \<Longrightarrow> shaped (forE xs f)"
  by (induction xs) (auto intro: shaped_return shaped_then)

text \<open>Globals, output and the current frame are no part of the typing.\<close>

lemma shaped_modify: "(\<And>v. heap (f v) = heap v \<and> nextPtr (f v) = nextPtr v \<and> symtab (f v) = symtab v) \<Longrightarrow> shaped (modifyE f)"
  by (auto simp: shaped_def typed_def extends_def vm_ok_def symOf_def)

section \<open>The heap\<close>

lemma shaped_deref [shaped_intro]: "shaped (deref p)"
  by (auto simp: shaped_def deref_def extends_refl split: option.splits)

lemma shaped_derefAs [shaped_intro]: "shaped (derefAs ks p)"
  unfolding derefAs_def by (intro shaped_intro)

text \<open>An object replaced by one of the same shape.\<close>

lemma symOf_shape: "heap v p = Some ob \<Longrightarrow> heap v' p = Some ob' \<Longrightarrow> shape ob' = shape ob \<Longrightarrow> symOf v' p = symOf v p"
  by (auto simp: symOf_def shape_def fixedData_def split: payload.splits)

lemma update_shape:
  assumes "typed v" "heap v p = Some ob" "shape ob' = shape ob"
  shows "typed (v\<lparr>heap := (heap v)(p \<mapsto> ob')\<rparr>) \<and> extends v (v\<lparr>heap := (heap v)(p \<mapsto> ob')\<rparr>)"
proof
  let ?v = "v\<lparr>heap := (heap v)(p \<mapsto> ob')\<rparr>"
  have ok: "vm_ok v" and lo: "\<And>p ob. heap v p = Some ob \<Longrightarrow> laidOut (shape ob)" using assms(1) by (auto simp: typed_def)
  have sy: "symOf ?v q = symOf v q" for q
    using symOf_shape [OF assms(2) _ assms(3), of ?v] by (cases "q = p") (simp_all add: symOf_def)
  have "p < nextPtr v" "p \<noteq> NULL" using vm_ok_bound [OF ok assms(2)] by simp_all
  then have "vm_ok ?v" using ok by (simp add: vm_ok_def sy)
  moreover have "laidOut (shape ob')" using lo [OF assms(2)] assms(3) by simp
  ultimately show "typed ?v" using lo by (simp add: typed_def)
  show "extends v ?v" using assms(2,3) by (simp add: extends_def)
qed

text \<open>\<open>shapedAt p ob m\<close>: as \<open>shaped\<close>, from states that have \<open>ob\<close> at p.\<close>

definition shapedAt :: "ptr \<Rightarrow> vmobject \<Rightarrow> 'a vmM \<Rightarrow> bool" where
  "shapedAt p ob m \<longleftrightarrow> (\<forall>v x v'. typed v \<longrightarrow> heap v p = Some ob \<longrightarrow> m v = Inr (x, v') \<longrightarrow> typed v' \<and> extends v v')"

lemma shaped_deref_bind: "(\<And>ob. shapedAt p ob (f ob)) \<Longrightarrow> shaped (bindE (deref p) f)"
  by (auto simp: shaped_def shapedAt_def deref_def bindE_def split: option.splits)

lemma shaped_derefAs_bind: "(\<And>ob. shapedAt p ob (f ob)) \<Longrightarrow> shaped (bindE (derefAs ks p) f)"
  by (auto simp: shaped_def shapedAt_def derefAs_def deref_def bindE_def split: option.splits if_splits)

lemma shapedAt_any: "shaped m \<Longrightarrow> shapedAt p ob m"
  by (simp add: shaped_def shapedAt_def)

lemma shapedAt_if: "shapedAt p ob m \<Longrightarrow> shapedAt p ob k \<Longrightarrow> shapedAt p ob (if b then m else k)"
  by simp

lemma shapedAt_let: "shapedAt p ob (f x) \<Longrightarrow> shapedAt p ob (Let x f)"
  by simp

lemma shapedAt_throw: "shapedAt p ob (throwE e)"
  by (simp add: shapedAt_def)

lemma shapedAt_store: "shape ob' = shape ob \<Longrightarrow> shapedAt p ob (store p ob')"
  by (auto simp: shapedAt_def store_def dest: update_shape)

lemmas shapedAt_intro = shapedAt_if shapedAt_let shapedAt_throw shapedAt_store

lemma shaped_setMember [shaped_intro]: "shaped (setMember ks i p x)"
  unfolding setMember_def by (intro shaped_derefAs_bind shapedAt_intro) (simp add: shape_def)

lemma shaped_SetField [shaped_intro]: "shaped (SetField p i x)"
  unfolding SetField_def by (intro shaped_deref_bind shapedAt_intro) (simp_all add: shape_def)

lemma shaped_ArraySet [shaped_intro]: "shaped (ArraySet p i x)"
  unfolding ArraySet_def by (intro shaped_derefAs_bind shapedAt_intro) (simp add: shape_def)

lemma shaped_SetEmbeddedInteger [shaped_intro]: "shaped (SetEmbeddedInteger p i)"
  unfolding SetEmbeddedInteger_def
  by (rule shaped_deref_bind) (auto split: payload.split intro!: shapedAt_intro simp: shape_def fixedData_def)

lemma shaped_SetBytecode [shaped_intro]: "shaped (SetBytecode p i b)"
  unfolding SetBytecode_def
  by (rule shaped_derefAs_bind) (auto split: payload.split intro!: shapedAt_intro simp: shape_def fixedData_def)

lemma shaped_SetRoutine [shaped_intro]: "shaped (SetRoutine p r)" "shaped (SetEmpty p e)"
  unfolding SetRoutine_def SetEmpty_def
  by (rule shaped_deref_bind; auto split: payload.split intro!: shapedAt_intro simp: shape_def fixedData_def)+

lemma alloc_shape:
  assumes "typed v" "laidOut (shape ob)" "v' = v\<lparr>heap := (heap v)(nextPtr v \<mapsto> ob), nextPtr := nextPtr v + 1\<rparr>"
  shows "typed v' \<and> extends v v'"
proof -
  have ok: "vm_ok v" using assms(1) by (simp add: typed_def)
  from vm_le_alloc1 [OF ok assms(3)] have le: "vm_le v v'" "vm_ok v'" by blast+
  have "extends v v'" using le(1) vm_le_heap [OF le(1)] by (auto simp: extends_def vm_le_def)
  with le(2) assms show ?thesis by (auto simp: typed_def)
qed

lemma shaped_allocate: "laidOut (shape ob) \<Longrightarrow> shaped (allocate ob)"
  by (rule shapedI) (auto simp: allocate_def intro: alloc_shape [THEN conjunct1] alloc_shape [THEN conjunct2])

section \<open>Object operations\<close>

lemma shaped_payload [shaped_intro]:
  assumes "shaped a" "\<And>i. shaped (b i)" "\<And>i. shaped (c i)" "\<And>w. shaped (d w)" "\<And>s. shaped (e s)" "\<And>s. shaped (f s)"
    "\<And>r x. shaped (g r x)" "\<And>r x n. shaped (h r x n)"
  shows "shaped (case y of NoData \<Rightarrow> a | IntData i \<Rightarrow> b i | BigData i \<Rightarrow> c i | DoubleData w \<Rightarrow> d w | StrData s \<Rightarrow> e s
     | CodeData s \<Rightarrow> f s | PrimData r x \<Rightarrow> g r x | EvalData r x n \<Rightarrow> h r x n)"
  using assms by (cases y) simp_all

lemma shaped_gets_bind: "(\<And>v. shaped (f (g v))) \<Longrightarrow> shaped (bindE (getsE g) f)"
  by (simp add: shaped_def bindE_def)

lemma shaped_access [shaped_intro]:
  "\<And>ks i p. shaped (getMember ks i p)"
    "\<And>p. shaped (GetClass p)"
    "\<And>p cl. shaped (SetClass p cl)"
    "\<And>p. shaped (GetNumberOfFields p)"
    "\<And>p. shaped (GetObjectSize p)"
    "\<And>p. shaped (GetHash p)"
    "\<And>p index. shaped (GetField p index)"
    "\<And>p. shaped (GetEmbeddedInteger p)"
    "\<And>p. shaped (GetEmbeddedBigInteger p)"
    "\<And>p. shaped (GetStdString p)"
    "\<And>p. shaped (GetStringLength p)"
    "\<And>restrict. shaped (symtab_lookup restrict)"
    "\<And>name. shaped (HasGlobal name)"
    "\<And>name. shaped (GetGlobal name)"
    "\<And>p. shaped (GetNumberOfIndexableFields p)"
    "\<And>p idx. shaped (ArrayGet p idx)"
  unfolding getMember_def GetClass_def SetClass_def GetNumberOfFields_def GetObjectSize_def
    GetHash_def GetField_def GetEmbeddedInteger_def GetEmbeddedBigInteger_def GetStdString_def
    GetStringLength_def symtab_lookup_def HasGlobal_def GetGlobal_def GetNumberOfIndexableFields_def
    ArrayGet_def
  by (intro shaped_intro)+

lemmas layout_simps = shape_def fixedData_def sizeof_VMObject_def sizeof_VMString_def sizeof_pointer_def newFields_def

lemma shaped_New [shaped_intro]:
  "shaped (NewInteger value)" "shaped (NewBigInteger value)" "shaped (NewString str)"
  "shaped (VMPrimitive_new sig)" "shaped VMBlock_new" "shaped (VMClass_new n)" "shaped (NewDouble w)"
  unfolding NewInteger_def NewBigInteger_def NewString_def VMPrimitive_new_def VMBlock_new_def VMClass_new_def
    NewDouble_def
  by (intro shaped_if shaped_throw shaped_gets_bind shaped_allocate; simp add: layout_simps)+

lemma shaped_NewArray [shaped_intro]: "shaped (NewArray sz)"
  unfolding NewArray_def
proof (intro shaped_if shaped_throw shaped_gets_bind shaped_allocate)
  fix v :: vm assume "\<not> (sz < 0 \<or> 536870912 \<le> sz)"
  then show "laidOut (shape \<lparr>o_kind = KArray, o_size = sizeof_VMObject + sz * sizeof_pointer,
     o_fields = [fst (arrayClass v, nilObject v)], o_slots = replicate (nat sz) (snd (arrayClass v, nilObject v)), o_data = NoData\<rparr>)"
    by (simp add: layout_simps, arith)
qed

text \<open>A symbol is entered into the table as it is made, under its own characters.\<close>

lemma shaped_SymbolFor [shaped_intro]: "shaped (SymbolFor s)"
proof (rule shapedI)
  fix v p v' assume v: "typed v" and run: "SymbolFor s v = Inr (p, v')"
  have ok: "vm_ok v" using v by (simp add: typed_def)
  show "typed v' \<and> extends v v'"
  proof (cases "symtab v (cstr s) = NULL")
    case False
    with run v show ?thesis by (simp add: SymbolFor_def symtab_lookup_def extends_refl)
  next
    case True
    let ?ob = "\<lparr>o_kind = KSymbol, o_size = sizeof_VMString + int (length (cstr s)) + 1,
       o_fields = [symbolClass v], o_slots = [], o_data = StrData (cstr s)\<rparr>"
    have le: "vm_le v v'" "vm_ok v'" using SymbolFor_run [OF ok, of s] run by auto
    have "heap v' = (heap v)(nextPtr v \<mapsto> ?ob)"
      using True run by (auto simp: SymbolFor_def symtab_lookup_def NewSymbol_def allocate_def symtab_insert_def
          GetStdString_def deref_def)
    then have "typed v'" using v le(2) by (auto simp: typed_def layout_simps)
    moreover have "extends v v'" using le(1) vm_le_heap [OF le(1)] by (auto simp: extends_def vm_le_def)
    ultimately show ?thesis by simp
  qed
qed

lemma shaped_SetGlobal [shaped_intro]: "shaped (SetGlobal n p)"
  unfolding SetGlobal_def by (intro shaped_intro shaped_modify) simp

lemma shaped_fillStrings [shaped_intro]: "shaped (fillStrings p j ss)"
  by (induction ss arbitrary: j) (simp_all, (intro shaped_intro | assumption)+)

lemma shaped_arrays [shaped_intro]:
  "\<And>fr t. shaped (CopyIndexableFieldsTo fr t)"
    "\<And>p item. shaped (CopyAndExtendWith p item)"
    "\<And>list. shaped (NewArrayList list)"
    "\<And>argv. shaped (NewArrayFromArgv argv)"
  unfolding CopyIndexableFieldsTo_def CopyAndExtendWith_def NewArrayList_def NewArrayFromArgv_def
  by (intro shaped_intro)+

section \<open>Methods, primitives and blocks\<close>

lemma shaped_invokables [shaped_intro]:
  "\<And>p. shaped (dynamic_cast_VMInvokable p)"
    "\<And>p. shaped (IsPrimitive p)"
    "\<And>p. shaped (GetSignature p)"
    "\<And>p. shaped (GetHolder p)"
    "\<And>p hld. shaped (SetHolder p hld)"
    "\<And>p. shaped (GetNumberOfLocals p)"
    "\<And>p nol. shaped (SetNumberOfLocals p nol)"
    "\<And>p. shaped (GetMaximumNumberOfStackElements p)"
    "\<And>p stel. shaped (SetMaximumNumberOfStackElements p stel)"
    "\<And>p. shaped (GetNumberOfBytecodes p)"
    "\<And>p. shaped (MethodGetNumberOfArguments p)"
    "\<And>p noa. shaped (SetNumberOfArguments p noa)"
    "\<And>p. shaped (NumberOfConstants p)"
    "\<And>p sig. shaped (SetSignature p sig)"
    "\<And>p idx. shaped (GetIndexableField p idx)"
    "\<And>p indx. shaped (GetBytecode p indx)"
    "\<And>p indx. shaped (GetConstant p indx)"
    "\<And>p hld. shaped (SetHolderAll p hld)"
    "\<And>p. shaped (IsEmpty p)"
    "\<And>p. shaped (GetRoutine p)"
    "\<And>sig. shaped (GetEmptyPrimitive sig)"
    "\<And>p. shaped (EvaluationArguments p)"
    "\<And>p m. shaped (BlockSetMethod p m)"
    "\<And>p. shaped (BlockGetMethod p)"
    "\<And>p c. shaped (BlockSetContext p c)"
    "\<And>p. shaped (BlockGetContext p)"
  unfolding dynamic_cast_VMInvokable_def IsPrimitive_def GetSignature_def GetHolder_def
    SetHolder_def GetNumberOfLocals_def SetNumberOfLocals_def GetMaximumNumberOfStackElements_def
    SetMaximumNumberOfStackElements_def GetNumberOfBytecodes_def MethodGetNumberOfArguments_def
    SetNumberOfArguments_def NumberOfConstants_def SetSignature_def GetIndexableField_def
    GetBytecode_def GetConstant_def SetHolderAll_def IsEmpty_def GetRoutine_def
    GetEmptyPrimitive_def EvaluationArguments_def BlockSetMethod_def BlockGetMethod_def
    BlockSetContext_def BlockGetContext_def
  by (intro shaped_intro)+

lemma shaped_SetIndexableField [shaped_intro]: "shaped (SetIndexableField p i x)"
  unfolding SetIndexableField_def
  by (rule shaped_bind [OF shaped_invokables(13)], intro shaped_if shaped_throw shaped_derefAs_bind shapedAt_intro) (simp add: shape_def)

lemma shaped_VMMethod_new [shaped_intro]: "shaped (VMMethod_new b c)"
  unfolding VMMethod_new_def
  by (intro shaped_gets_bind, rule shaped_bind, rule shaped_allocate) (simp add: layout_simps, intro shaped_intro)

text \<open>The number of arguments of an evaluation primitive is set in the object just made.\<close>

lemma shaped_EvalData: "shaped (bindE (allocate \<lparr>o_kind = KEvaluationPrimitive, o_size = sz, o_fields = fs, o_slots = [],
     o_data = EvalData r e x\<rparr>) (\<lambda>p. bindE (NewInteger i) (\<lambda>n.
     thenE (bindE (deref p) (\<lambda>ob. store p (ob\<lparr>o_data := EvalData r e n\<rparr>))) (returnE p))))"
  if sz: "sz = 68" "length fs = 3"
proof (rule shapedI)
  let ?ob = "\<lparr>o_kind = KEvaluationPrimitive, o_size = sz, o_fields = fs, o_slots = [], o_data = EvalData r e x\<rparr>"
  let ?k = "\<lambda>p. bindE (NewInteger i) (\<lambda>n. thenE (bindE (deref p) (\<lambda>ob. store p (ob\<lparr>o_data := EvalData r e n\<rparr>))) (returnE p))"
  fix v q v' assume v: "typed v" and run: "bindE (allocate ?ob) ?k v = Inr (q, v')"
  let ?v1 = "v\<lparr>heap := (heap v)(nextPtr v \<mapsto> ?ob), nextPtr := nextPtr v + 1\<rparr>"
  have 1: "typed ?v1 \<and> extends v ?v1" using sz by (intro alloc_shape [OF v _ refl]) (simp add: layout_simps)
  have "allocate ?ob v = Inr (nextPtr v, ?v1)" by (simp add: allocate_def)
  from bindE_Inr [where f = ?k and m = "allocate ?ob" and s = v, OF this] run have "?k (nextPtr v) ?v1 = Inr (q, v')" by (simp only: fst_conv snd_conv)
  then obtain n v2 where 2: "NewInteger i ?v1 = Inr (n, v2)"
    "thenE (bindE (deref (nextPtr v)) (\<lambda>ob. store (nextPtr v) (ob\<lparr>o_data := EvalData r e n\<rparr>))) (returnE (nextPtr v)) v2 = Inr (q, v')"
    by (rule bindE_InrE)
  have h: "heap v2 (nextPtr v) = Some ?ob" using 2(1) by (auto simp: NewInteger_def allocate_def)
  have 3: "typed v2 \<and> extends ?v1 v2" using shapedD [OF shaped_New(1)] 1 2(1) by blast
  have "v' = v2\<lparr>heap := (heap v2)(nextPtr v \<mapsto> ?ob\<lparr>o_data := EvalData r e n\<rparr>)\<rparr>"
    using 2(2) h by (auto simp: deref_def store_def bindE_def thenE_def returnE_def)
  then have "typed v' \<and> extends v2 v'" using update_shape [OF _ h] 3 by (simp add: shape_def fixedData_def)
  with 1 3 show "typed v' \<and> extends v v'" using extends_trans by blast
qed

lemma shaped_VMEvaluationPrimitive_new [shaped_intro]: "shaped (VMEvaluationPrimitive_new argc)"
  unfolding VMEvaluationPrimitive_new_def
  by (rule shaped_bind [OF shaped_SymbolFor], rule shaped_gets_bind, rule shaped_EvalData) (simp_all add: layout_simps)

lemma shaped_NewMethod [shaped_intro]:
  "\<And>signature numberOfBytecodes numberOfConstants. shaped (NewMethod signature numberOfBytecodes numberOfConstants)"
  unfolding NewMethod_def
  by (intro shaped_intro)+

section \<open>Frames\<close>

lemma shaped_contexts [shaped_intro]: "shaped (GetContextLevel b f)" "shaped (outerContext n f)"
proof -
  have c: "shaped (GetContext f)" "shaped (HasContext f)" for f
    unfolding GetContext_def HasContext_def by (intro shaped_intro)+
  show "shaped (GetContextLevel b f)"
    by (induction b arbitrary: f) (simp_all, (intro shaped_intro c | assumption)+)
  show "shaped (outerContext n f)"
    by (induction n arbitrary: f) (simp_all, (intro shaped_intro c | assumption)+)
qed

lemma shaped_VMFrame_new [shaped_intro]: "shaped (VMFrame_new len)"
  unfolding VMFrame_new_def
proof (intro shaped_if shaped_throw shaped_gets_bind, rule shaped_bind, rule shaped_allocate)
  fix v assume "\<not> (len < 0 \<or> 536870912 \<le> len)"
  then show "laidOut (shape \<lparr>o_kind = KFrame, o_size = sizeof_VMObject + 24 + len * sizeof_pointer,
     o_fields = fst (newFields v 6, nilObject v), o_slots = replicate (nat len) (snd (newFields v 6, nilObject v)), o_data = NoData\<rparr>)"
    by (simp add: layout_simps, arith)
qed (intro shaped_intro)

lemma shaped_frames [shaped_intro]:
  "\<And>f. shaped (GetPreviousFrame f)"
    "\<And>f frm. shaped (SetPreviousFrame f frm)"
    "\<And>f. shaped (ClearPreviousFrame f)"
    "\<And>f. shaped (HasPreviousFrame f)"
    "\<And>f. shaped (IsBootstrapFrame f)"
    "\<And>f. shaped (GetContext f)"
    "\<And>f frm. shaped (SetContext f frm)"
    "\<And>f. shaped (HasContext f)"
    "\<And>f. shaped (FrameGetMethod f)"
    "\<And>f m. shaped (FrameSetMethod f m)"
    "\<And>f. shaped (GetStackPointer f)"
    "\<And>f. shaped (StackPointer f)"
    "\<And>f i. shaped (SetStackPointerValue f i)"
    "\<And>f. shaped (GetBytecodeIndex f)"
    "\<And>f i. shaped (SetBytecodeIndex f i)"
    "\<And>f. shaped (LocalOffset f)"
    "\<And>f i. shaped (SetLocalOffset f i)"
    "\<And>f. shaped (GetOuterContext f)"
    "\<And>f. shaped (RemainingStackSize f)"
    "\<And>f. shaped (Pop f)"
    "\<And>f obj. shaped (Push f obj)"
    "\<And>f. shaped (ResetStackPointer f)"
    "\<And>f index. shaped (GetStackElement f index)"
    "\<And>f index obj. shaped (SetStackElement f index obj)"
    "\<And>f index contextLevel. shaped (GetLocal f index contextLevel)"
    "\<And>f index contextLevel value. shaped (SetLocal f index contextLevel value)"
    "\<And>f index contextLevel. shaped (GetArgument f index contextLevel)"
    "\<And>f index contextLevel value. shaped (SetArgument f index contextLevel value)"
    "\<And>f index. shaped (ArgumentStackIndex f index)"
    "\<And>f frame. shaped (CopyArgumentsFrom f frame)"
    "\<And>fr extraLength. shaped (EmergencyFrameFrom fr extraLength)"
    "\<And>previousFrame me. shaped (NewFrame previousFrame me)"
  unfolding GetPreviousFrame_def SetPreviousFrame_def ClearPreviousFrame_def
    HasPreviousFrame_def IsBootstrapFrame_def GetContext_def SetContext_def HasContext_def
    FrameGetMethod_def FrameSetMethod_def GetStackPointer_def StackPointer_def
    SetStackPointerValue_def GetBytecodeIndex_def SetBytecodeIndex_def LocalOffset_def
    SetLocalOffset_def GetOuterContext_def RemainingStackSize_def Pop_def Push_def
    ResetStackPointer_def GetStackElement_def SetStackElement_def GetLocal_def SetLocal_def
    GetArgument_def SetArgument_def ArgumentStackIndex_def CopyArgumentsFrom_def
    EmergencyFrameFrom_def NewFrame_def
  by (intro shaped_intro)+

section \<open>Classes\<close>

lemma shaped_class_fields [shaped_intro]:
  "\<And>c. shaped (GetSuperClass c)"
    "\<And>c sc. shaped (SetSuperClass c sc)"
    "\<And>c. shaped (HasSuperClass c)"
    "\<And>c. shaped (GetName c)"
    "\<And>c n. shaped (SetName c n)"
    "\<And>c. shaped (GetInstanceFields c)"
    "\<And>c a. shaped (SetInstanceFields c a)"
    "\<And>c. shaped (GetInstanceInvokables c)"
    "\<And>c. shaped (GetNumberOfInstanceInvokables c)"
    "\<And>c index. shaped (GetInstanceInvokable c index)"
    "\<And>c index invokable. shaped (SetInstanceInvokable c index invokable)"
    "\<And>c invokables. shaped (SetInstanceInvokables c invokables)"
  unfolding GetSuperClass_def SetSuperClass_def HasSuperClass_def GetName_def SetName_def
    GetInstanceFields_def SetInstanceFields_def GetInstanceInvokables_def
    GetNumberOfInstanceInvokables_def GetInstanceInvokable_def SetInstanceInvokable_def
    SetInstanceInvokables_def
  by (intro shaped_intro)+

lemma shaped_class_loops [shaped_intro]:
  "\<And>js. shaped (replaceInvokable c p js)" "\<And>js. shaped (findInvokable c p js)" "\<And>js. shaped (anyPrimitive c js)"
proof -
  show "shaped (replaceInvokable c p js)" for js by (induction js) (simp_all only: replaceInvokable.simps, (intro shaped_intro | assumption)+)
  show "shaped (findInvokable c p js)" for js by (induction js) (simp_all only: findInvokable.simps, (intro shaped_intro | assumption)+)
  show "shaped (anyPrimitive c js)" for js by (induction js) (simp_all only: anyPrimitive.simps, (intro shaped_intro | assumption)+)
qed

lemma shaped_class_walks [shaped_intro]: "shaped (lookupInvokable n c name)" "shaped (numberOfInstanceFields n c)"
proof -
  show "shaped (lookupInvokable n c name)" by (induction n arbitrary: c) (simp_all only: lookupInvokable.simps, (intro shaped_intro | assumption)+)
  show "shaped (numberOfInstanceFields n c)" by (induction n arbitrary: c) (simp_all only: numberOfInstanceFields.simps, (intro shaped_intro | assumption)+)
qed

lemma shaped_dictionary [shaped_intro]:
  "\<And>c ptr. shaped (AddInstanceInvokable c ptr)"
    "\<And>c ptr. shaped (AddInstancePrimitive c ptr)"
    "\<And>c name. shaped (LookupInvokable c name)"
    "\<And>c. shaped (HasPrimitives c)"
    "\<And>c. shaped (GetNumberOfInstanceFields c)"
    "\<And>c. shaped (numberOfSuperInstanceFields c)"
  unfolding AddInstanceInvokable_def AddInstancePrimitive_def LookupInvokable_def
    HasPrimitives_def GetNumberOfInstanceFields_def numberOfSuperInstanceFields_def
  by (intro shaped_intro)+

lemma shaped_fieldName [shaped_intro]: "shaped (instanceFieldName n c i)"
  by (induction n arbitrary: c) (simp_all only: instanceFieldName.simps, (intro shaped_intro | assumption)+)

lemma shaped_GetInstanceFieldName [shaped_intro]: "shaped (GetInstanceFieldName c i)"
  unfolding GetInstanceFieldName_def by (intro shaped_intro)

lemma shaped_findFieldIndex [shaped_intro]: "shaped (findFieldIndex c name js)"
  by (induction js) (simp_all only: findFieldIndex.simps, (intro shaped_intro | assumption)+)

lemma shaped_fields [shaped_intro]:
  "\<And>c name. shaped (LookupFieldIndex c name)"
    "\<And>p index. shaped (GetFieldName p index)"
    "\<And>p fieldName. shaped (GetFieldIndex p fieldName)"
    "\<And>path. shaped (loadLib path)"
    "\<And>c handle cname. shaped (setPrimitives c handle cname)"
  unfolding LookupFieldIndex_def GetFieldName_def GetFieldIndex_def loadLib_def setPrimitives_def
  by (intro shaped_intro)+

lemma shaped_findLibrary [shaped_intro]: "shaped (findLibrary cname cps)"
  by (induction cps) (simp_all only: findLibrary.simps, (intro shaped_intro | assumption)+)

lemma shaped_LoadPrimitives [shaped_intro]:
  "\<And>c cp. shaped (LoadPrimitives c cp)"
  unfolding LoadPrimitives_def
  by (intro shaped_intro)+

lemma shaped_print [shaped_intro]: "shaped (print s)"
  unfolding print_def by (rule shaped_modify) simp

lemma shaped_NewClass [shaped_intro]:
  "\<And>p. shaped (dynamic_cast_VMClass p)"
    "\<And>classOfClass. shaped (NewClass classOfClass)"
  unfolding dynamic_cast_VMClass_def NewClass_def
  by (intro shaped_intro)+

lemma shaped_NewInstance [shaped_intro]: "shaped (NewInstance c)"
  unfolding NewInstance_def Let_def
proof (intro shaped_bind [OF shaped_dictionary(5)] shaped_if shaped_throw shaped_gets_bind)
  fix n :: int and v :: vm assume "\<not> n - 1 < 0"
  then have "shaped (allocate \<lparr>o_kind = KObject, o_size = sizeof_VMObject + (n - 1) * sizeof_pointer,
     o_fields = newFields v (nat (n - 1)), o_slots = [], o_data = NoData\<rparr>)"
    by (intro shaped_allocate) (simp add: layout_simps)
  then show "shaped (bindE (allocate \<lparr>o_kind = KObject, o_size = sizeof_VMObject + (n - 1) * sizeof_pointer,
     o_fields = newFields v (nat (n - 1)), o_slots = [], o_data = NoData\<rparr>)
     (\<lambda>result. thenE (SetClass result c) (returnE result)))"
    by (rule shaped_bind) (intro shaped_intro)
qed

lemma shaped_start [shaped_intro]:
  "\<And>filename message. shaped (showCompilationError filename message)"
    "\<And>value. shaped (AssertU value)"
    "\<And>cl. shaped (loadPrimitivesOf cl)"
    "shaped NewMetaclassClass"
    "\<And>sysClass superClass name. shaped (InitializeSystemClass sysClass superClass name)"
    "\<And>c sysClass. shaped (AssembleSystemClass c sysClass)"
    "shaped NewSystemClass"
  unfolding showCompilationError_def AssertU_def loadPrimitivesOf_def NewMetaclassClass_def
    InitializeSystemClass_def AssembleSystemClass_def NewSystemClass_def
  by (intro shaped_intro)+

end
