(* ===== verification/MachineTyping.thy ===== *)
theory MachineTyping
  imports HeapTyping
begin

text \<open>
  The typing of the heap is kept by the compiler, the loader of classes, the primitives, the
  interpreter and the shell: by the whole run of the virtual machine.
\<close>

section \<open>The generation contexts\<close>

lemma shaped_depthStep [shaped_intro]: "shaped (depthStep code lits i d)"
proof (cases "opcode_of (code ! i)")
  case (Some b)
  then show ?thesis
    by (cases b) (simp_all only: depthStep_def option.case bytecode.case, (intro shaped_intro)+)
qed (simp only: depthStep_def option.case, intro shaped_intro)

lemma shaped_depthLoop [shaped_intro]: "shaped (depthLoop n code lits i d m)"
  by (induction n arbitrary: i d m) (simp_all only: depthLoop.simps, (intro shaped_intro | assumption)+)

lemma shaped_contexts_ops [shaped_intro]:
  "\<And>m. shaped (ComputeStackDepth m)" "\<And>m. shaped (MethodAssemble m)" "\<And>m. shaped (AssemblePrimitive m)"
  unfolding ComputeStackDepth_def MethodAssemble_def AssemblePrimitive_def by (intro shaped_intro)+

lemma shaped_FindField [shaped_intro]: "shaped (FindField c f)"
  unfolding FindField_def by (intro shaped_intro)

section \<open>The parser\<close>

text \<open>The parser works on the heap through \<open>vmM\<close> only.\<close>

definition parsing :: "'a PM \<Rightarrow> bool" where
  "parsing m \<longleftrightarrow> (\<forall>s x s'. typed (p_vm s) \<longrightarrow> m s = Inr (x, s') \<longrightarrow> typed (p_vm s') \<and> extends (p_vm s) (p_vm s'))"

named_theorems parsing_intro \<open>parser operations that keep the typing of the heap\<close>

lemma parsing_return [parsing_intro]: "parsing (returnE x)"
  by (simp add: parsing_def extends_refl)

lemma parsing_throw [parsing_intro]: "parsing (throwE e)"
  by (simp add: parsing_def)

lemma parsing_gets [parsing_intro]: "parsing (getsE f)"
  by (simp add: parsing_def extends_refl)

lemma parsing_bind [parsing_intro]: "parsing m \<Longrightarrow> (\<And>x. parsing (f x)) \<Longrightarrow> parsing (bindE m f)"
  unfolding parsing_def by (blast elim: bindE_InrE intro: extends_trans)

lemma parsing_then [parsing_intro]: "parsing m \<Longrightarrow> parsing k \<Longrightarrow> parsing (thenE m k)"
  unfolding thenE_def by (rule parsing_bind)

lemma parsing_if [parsing_intro]: "parsing m \<Longrightarrow> parsing k \<Longrightarrow> parsing (if b then m else k)"
  by simp

lemma parsing_cases [parsing_intro]:
  "parsing m \<Longrightarrow> (\<And>x. parsing (f x)) \<Longrightarrow> parsing (case opt of None \<Rightarrow> m | Some x \<Rightarrow> f x)"
  "(\<And>x y. parsing (g x y)) \<Longrightarrow> parsing (case q of (x, y) \<Rightarrow> g x y)"
  by (cases opt; simp) (cases q; simp)

lemma parsing_for [parsing_intro]: "(\<And>x. parsing (f x)) \<Longrightarrow> parsing (forE xs f)"
  by (induction xs) (auto intro: parsing_return parsing_then)

lemma parsing_while [parsing_intro]:
  assumes "parsing b" "parsing m"
  shows "parsing (whileM n b m)" "parsing (doWhileM n m b)"
proof -
  show "parsing (whileM n b m)" for n
    by (induction n) (simp_all only: whileM.simps, (intro parsing_intro assms | assumption)+)
  then show "parsing (doWhileM n m b)" unfolding doWhileM_def by (intro parsing_intro assms)
qed

lemma parsing_modify: "(\<And>s. p_vm (f s) = p_vm s) \<Longrightarrow> parsing (modifyE f)"
  by (simp add: parsing_def extends_refl)

lemma parsing_lexM [parsing_intro]: "parsing (lexM m)"
  by (auto simp: parsing_def lexM_def liftE_def extends_refl split: sum.splits)

lemma parsing_vmM [parsing_intro]: "shaped m \<Longrightarrow> parsing (vmM m)"
  by (auto simp: parsing_def vmM_def liftE_def shaped_def split: sum.splits)

lemma parsing_state [parsing_intro]:
  "parsing mgenc" "\<And>f. parsing (onMgenc f)" "\<And>f. parsing (onCgenc f)" "\<And>m. parsing (enterContext m)" "parsing leaveContext"
  "parsing sym" "parsing textM" "\<And>ss. parsing (parseError ss)"
  unfolding onCgenc_def enterContext_def leaveContext_def sym_def textM_def parseError_def
  by ((intro parsing_intro parsing_modify; simp) |
      (auto simp: parsing_def mgenc_def onMgenc_def extends_refl split: list.splits))+

lemma parsing_GETSYM [parsing_intro]: "parsing GETSYM" "parsing PEEK"
  unfolding GETSYM_def PEEK_def by (rule parsing_bind [OF parsing_lexM], rule parsing_modify, simp)+

declare shaped_intro [parsing_intro]

lemma parsing_symIn [parsing_intro]: "parsing (symIn ss)"
  by (induction ss) (simp_all only: symIn.simps, (intro parsing_intro | assumption)+)

lemma parsing_orElse [parsing_intro]: "parsing m \<Longrightarrow> parsing k \<Longrightarrow> parsing (orElse m k)"
  unfolding orElse_def by (intro parsing_intro)

lemma parsing_tokens [parsing_intro]:
  "\<And>x. parsing (accept x)"
    "\<And>ss. parsing (acceptOneOf ss)"
    "\<And>x. parsing (expect x)"
    "\<And>ss. parsing (expectOneOf ss)"
    "parsing atBinary"
    "parsing atMessage"
    unfolding accept_def acceptOneOf_def expect_def expectOneOf_def atBinary_def atMessage_def
  by (intro parsing_intro)+

lemma parsing_names [parsing_intro]:
  "\<And>var. parsing (genPushVariable var)"
    "\<And>var. parsing (genPopVariable var)"
    "parsing identifierM"
    "parsing variable"
    "parsing argument"
    "parsing keywordM"
    "parsing stringM"
    "parsing unarySelector"
    "parsing binarySelector"
    "parsing keywordSelector"
    "parsing selector"
    unfolding genPushVariable_def genPopVariable_def identifierM_def variable_def argument_def
    keywordM_def stringM_def unarySelector_def binarySelector_def keywordSelector_def selector_def
  by (intro parsing_intro)+

lemma parsing_literals [parsing_intro]:
  "parsing literalInteger"
    "parsing literalDecimal"
    "parsing negativeDecimal"
    "\<And>lit. parsing (addConstant lit)"
    "parsing literalNumber"
    "parsing literalSymbol"
    "parsing literalString"
    "parsing literal"
    unfolding literalInteger_def literalDecimal_def negativeDecimal_def addConstant_def
    literalNumber_def literalSymbol_def literalString_def literal_def
  by (intro parsing_intro)+

lemma parsing_parts [parsing_intro]:
  "\<And>super msg. parsing (emitSend super msg)"
    "\<And>super. parsing (unaryMessage super)"
    "\<And>n. parsing (blockArguments n)"
    "\<And>n. parsing (blockPattern n)"
    "\<And>n. parsing (localsM n)"
    "parsing assignment"
    unfolding emitSend_def unaryMessage_def blockArguments_def blockPattern_def localsM_def
    assignment_def
  by (intro parsing_intro)+

lemma parsing_assignments [parsing_intro]: "parsing (assignments n l)"
  by (induction n arbitrary: l) (simp_all only: assignments.simps, (intro parsing_intro | assumption)+)

text \<open>Behind the recursion: what holds of the calls holds of the callers.\<close>

lemma parsing_rec1:
  assumes "\<And>nt. parsing (rc nt)"
  shows "parsing (nestedTerm rc)"
    "\<And>n. parsing (blockContents n rc)"
    "\<And>n. parsing (nestedBlock n rc)"
    unfolding nestedTerm_def blockContents_def nestedBlock_def
  by (intro parsing_intro assms)+

lemma parsing_rec2:
  assumes "\<And>nt. parsing (rc nt)"
  shows "\<And>n. parsing (primary n rc)"
    "\<And>n. parsing (binaryOperand n rc)"
    "\<And>n super. parsing (binaryMessage n rc super)"
    "\<And>n. parsing (formula n rc)"
    unfolding primary_def binaryOperand_def binaryMessage_def formula_def
  by (intro parsing_intro assms parsing_rec1 [OF assms])+

lemma parsing_keywordParts:
  assumes "\<And>nt. parsing (rc nt)"
  shows "parsing (keywordParts j n rc kw)"
  by (induction j arbitrary: kw) (simp_all only: keywordParts.simps, (intro parsing_intro parsing_rec2 [OF assms] | assumption)+)

lemma parsing_rec3:
  assumes "\<And>nt. parsing (rc nt)"
  shows "\<And>n super. parsing (keywordMessage n rc super)"
    "\<And>n super. parsing (messages n rc super)"
    "\<And>n. parsing (evaluation n rc)"
    "\<And>n. parsing (assignation n rc)"
    "\<And>n. parsing (expression n rc)"
    unfolding keywordMessage_def messages_def evaluation_def assignation_def expression_def
  by (intro parsing_intro assms parsing_rec2 [OF assms] parsing_keywordParts [OF assms])+

lemma parsing_body:
  assumes "\<And>nt. parsing (rc nt)" "parsing ex"
  shows "parsing (result ex)" "parsing (blockBody ex rc b)"
  unfolding result_def blockBody_def by (intro parsing_intro assms)+

lemma parsing_parseN [parsing_intro]: "parsing (parseN n nt)"
proof (induction n arbitrary: nt)
  case 0
  then show ?case by (simp only: parseN.simps, intro parsing_intro)
next
  case (Suc n)
  from parsing_rec3(5) [OF Suc] parsing_body(2) [OF Suc parsing_rec3(5) [OF Suc]] show ?case
    by (cases nt) simp_all
qed

lemma parsing_keywordPatternParts [parsing_intro]: "parsing (keywordPatternParts n kw)"
  by (induction n arbitrary: kw) (simp_all only: keywordPatternParts.simps, (intro parsing_intro | assumption)+)

lemma parsing_patterns [parsing_intro]:
  "parsing unaryPattern"
    "parsing binaryPattern"
    "\<And>n. parsing (keywordPattern n)"
    "\<And>n. parsing (pattern n)"
    "parsing primitiveBlock"
    "\<And>n add. parsing (fieldsM n add)"
    "\<And>n. parsing (instanceFields n)"
    "\<And>n. parsing (classFields n)"
    unfolding unaryPattern_def binaryPattern_def keywordPattern_def pattern_def primitiveBlock_def
    fieldsM_def instanceFields_def classFields_def
  by (intro parsing_intro)+

lemma parsing_methods:
  assumes "\<And>nt. parsing (rc nt)"
  shows "\<And>n. parsing (methodBlock n rc)"
    "\<And>n. parsing (methodM n rc)"
    "\<And>n add. parsing (methodOfClass n rc add)"
    unfolding methodBlock_def methodM_def methodOfClass_def
  by (intro parsing_intro assms parsing_rec1 [OF assms])+

lemma parsing_Classdef [parsing_intro]: "parsing (Classdef n)"
  unfolding Classdef_def by (intro parsing_intro parsing_methods)

lemma parsing_parseClass: "parsing (parseClass src)"
  unfolding parseClass_def by (intro parsing_intro)

lemma shaped_parseSource [shaped_intro]: "shaped (parseSource src)"
proof (rule shapedI)
  fix v c v' assume v: "typed v" and run: "parseSource src v = Inr (c, v')"
  let ?s = "Parser_start src ClassGenerationContext_new v"
  obtain s' where s': "parseClass src ?s = Inr ((), s')" "v' = p_vm s'"
    using run by (auto simp: parseSource_def split: sum.splits)
  have "p_vm ?s = v" by (simp add: Parser_start_def)
  with parsing_parseClass [of src] s' v show "typed v' \<and> extends v v'" unfolding parsing_def by metis
qed

section \<open>The compiler and class loading\<close>

lemma shaped_compile:
  assumes "\<And>p. shaped (load p)"
  shows "\<And>c. shaped (Assemble load c)"
    "\<And>src sysClass. shaped (compile load src sysClass)"
    "\<And>stream sysClass. shaped (CompileClassString load stream sysClass)"
    "\<And>path name sysClass. shaped (CompileClass load path name sysClass)"
    unfolding Assemble_def compile_def CompileClassString_def CompileClass_def
  by (intro shaped_intro assms)+

lemma shaped_loadFrom:
  assumes "\<And>p. shaped (load p)"
  shows "shaped (loadFrom load name sysClass cps)"
  by (induction cps) (simp_all only: loadFrom.simps, (intro shaped_intro shaped_compile [OF assms] | assumption)+)

lemma shaped_LoadClassBasic:
  assumes "\<And>p. shaped (load p)"
  shows "\<And>name sysClass. shaped (LoadClassBasic load name sysClass)"
    unfolding LoadClassBasic_def
  by (intro shaped_intro assms shaped_loadFrom)+

lemma shaped_LoadClass [shaped_intro]: "shaped (LoadClass n name)"
  by (induction n arbitrary: name)
    (simp_all only: LoadClass.simps, (intro shaped_intro | rule shaped_LoadClassBasic | assumption)+)

lemma shaped_loading [shaped_intro]:
  "\<And>n sysClass. shaped (LoadSystemClass n sysClass)"
    "\<And>n stmt. shaped (LoadShellClass n stmt)"
    "\<And>n numberOfArguments. shaped (GetBlockClassWithArgs n numberOfArguments)"
    "\<And>n meth context arguments. shaped (NewBlock n meth context arguments)"
  unfolding LoadSystemClass_def LoadShellClass_def GetBlockClassWithArgs_def NewBlock_def
  by (intro shaped_intro shaped_LoadClassBasic shaped_compile)+

lemma shaped_assign: "shaped m \<Longrightarrow> (\<And>p v. heap (upd p v) = heap v \<and> nextPtr (upd p v) = nextPtr v \<and> symtab (upd p v) = symtab v) \<Longrightarrow>
    shaped (assignE upd m)"
  unfolding assignE_def by (intro shaped_bind shaped_modify)

lemma shaped_for_in: "(\<And>x. x \<in> set xs \<Longrightarrow> shaped (f x)) \<Longrightarrow> shaped (forE xs f)"
  by (induction xs) (auto intro: shaped_return shaped_then)

lemma shaped_InitializeGlobals [shaped_intro]: "shaped (InitializeGlobals n)"
proof -
  have nil: "shaped (allocate \<lparr>o_kind = KObject, o_size = sizeof_VMObject, o_fields = [NULL], o_slots = [], o_data = NoData\<rparr>)"
    by (rule shaped_allocate) (simp add: layout_simps)
  have sys: "shaped (forE upds (\<lambda>upd. assignE upd NewSystemClass))"
    if "\<And>upd p v. upd \<in> set upds \<Longrightarrow> heap (upd p v) = heap v \<and> nextPtr (upd p v) = nextPtr v \<and> symtab (upd p v) = symtab v" for upds
    by (rule shaped_for_in) (rule shaped_assign [OF _ that], intro shaped_intro)
  show ?thesis
    unfolding InitializeGlobals_def
    by (intro shaped_then shaped_assign nil sys, (intro shaped_intro | simp | auto)+)
qed

section \<open>Primitives\<close>

lemma shaped_prim_parts [shaped_intro]:
  "\<And>p. shaped (kindOf p)"
    "\<And>frame b. shaped (PushBool frame b)"
    "\<And>frame res. shaped (pushResult frame res)"
    "\<And>obj. shaped (CHECK_BIGINT obj)"
    "\<And>frame res. shaped (PUSH_INT_OR_BIGINT frame res)"
    "\<And>str pos n. shaped (substr str pos n)"
  unfolding kindOf_def PushBool_def pushResult_def CHECK_BIGINT_def PUSH_INT_OR_BIGINT_def
    substr_def
  by (intro shaped_intro)+

lemma shaped_resend:
  assumes "\<And>a b c. shaped (sd a b c)"
  shows "\<And>op left right. shaped (resendAsBigInteger sd op left right)"
    "\<And>op left right. shaped (resendAsDouble sd op left right)"
    unfolding resendAsBigInteger_def resendAsDouble_def
  by (intro shaped_intro assms)+

lemma shaped_binary:
  "(\<And>a b c. shaped (sd a b c)) \<Longrightarrow> shaped rest \<Longrightarrow> shaped (CHECK_COERCION sd x r op rest)"
  "(\<And>a b c. shaped (sd a b c)) \<Longrightarrow> (\<And>l r. shaped (g l r)) \<Longrightarrow> shaped (Integer_binary sd op g frame)"
  "(\<And>l r. shaped (g l r)) \<Longrightarrow> shaped (BigInteger_binary g frame)"
  unfolding Integer_binary_def BigInteger_binary_def CHECK_COERCION_def by (intro shaped_intro shaped_resend; assumption)+

lemma shaped_integers:
  assumes "\<And>a b c. shaped (sd a b c)"
  shows "\<And>frame. shaped (Integer_Plus sd frame)"
    "\<And>frame. shaped (Integer_Minus sd frame)"
    "\<And>frame. shaped (Integer_Star sd frame)"
    "\<And>frame. shaped (Integer_Slash sd frame)"
    "\<And>frame. shaped (Integer_Percent sd frame)"
    "\<And>frame. shaped (Integer_And sd frame)"
    "\<And>frame. shaped (Integer_Equal sd frame)"
    "\<And>frame. shaped (Integer_Lowerthan sd frame)"
    unfolding Integer_Plus_def Integer_Minus_def Integer_Star_def Integer_Slash_def
    Integer_Percent_def Integer_And_def Integer_Equal_def Integer_Lowerthan_def
  by (intro shaped_intro assms shaped_binary)+

lemma shaped_big_integers [shaped_intro]:
  "\<And>frame. shaped (Integer_AsString frame)"
    "\<And>frame. shaped (BigInteger_Plus frame)"
    "\<And>frame. shaped (BigInteger_Minus frame)"
    "\<And>frame. shaped (BigInteger_Star frame)"
    "\<And>frame. shaped (BigInteger_Slash frame)"
    "\<And>frame. shaped (BigInteger_Percent frame)"
    "\<And>frame. shaped (BigInteger_And frame)"
    "\<And>frame. shaped (BigInteger_Equal frame)"
    "\<And>frame. shaped (BigInteger_Lowerthan frame)"
    "\<And>frame. shaped (BigInteger_AsString frame)"
  unfolding Integer_AsString_def BigInteger_Plus_def BigInteger_Minus_def BigInteger_Star_def
    BigInteger_Slash_def BigInteger_Percent_def BigInteger_And_def BigInteger_Equal_def
    BigInteger_Lowerthan_def BigInteger_AsString_def
  by (intro shaped_intro shaped_binary)+

lemma shaped_primitives [shaped_intro]:
  "\<And>frame. shaped (Array_At frame)"
    "\<And>frame. shaped (Array_At_Put frame)"
    "\<And>frame. shaped (Array_Length frame)"
    "\<And>frame. shaped (Array_New frame)"
    "\<And>frame. shaped (String_Concatenate frame)"
    "\<And>frame. shaped (String_AsSymbol frame)"
    "\<And>frame. shaped (String_Hashcode frame)"
    "\<And>frame. shaped (String_Length frame)"
    "\<And>frame. shaped (String_Equal frame)"
    "\<And>frame. shaped (String_PrimSubstringFrom_To frame)"
    "\<And>frame. shaped (Symbol_AsString frame)"
    "\<And>frame. shaped (System_Global frame)"
    "\<And>frame. shaped (System_Global_put frame)"
    "\<And>n frame. shaped (System_Load n frame)"
    "\<And>frame. shaped (System_Exit frame)"
    "\<And>frame. shaped (System_PrintString frame)"
    "\<And>frame. shaped (System_PrintNewline frame)"
    "\<And>frame. shaped (System_FullGC frame)"
    "\<And>frame. shaped (Object_Equalequal frame)"
    "\<And>frame. shaped (Object_ObjectSize frame)"
    "\<And>frame. shaped (Object_Hashcode frame)"
    "\<And>frame. shaped (Class_New frame)"
    "\<And>frame. shaped (Block_Value frame)"
    "\<And>frame. shaped (Block_Value1 frame)"
    "\<And>frame. shaped (Block_Value_with frame)"
    "\<And>frame. shaped (Block_Restart frame)"
  unfolding Array_At_def Array_At_Put_def Array_Length_def Array_New_def String_Concatenate_def
    String_AsSymbol_def String_Hashcode_def String_Length_def String_Equal_def
    String_PrimSubstringFrom_To_def Symbol_AsString_def System_Global_def System_Global_put_def
    System_Load_def System_Exit_def System_PrintString_def System_PrintNewline_def System_FullGC_def
    Object_Equalequal_def Object_ObjectSize_def Object_Hashcode_def Class_New_def Block_Value_def
    Block_Value1_def Block_Value_with_def Block_Restart_def
  by (intro shaped_intro)+

lemma shaped_doubles [shaped_intro]:
  "\<And>p. shaped (GetEmbeddedDouble p)" "\<And>x. shaped (coerceDouble x)"
  "\<And>ext frame. shaped (Integer_Sqrt ext frame)" "\<And>ext frame. shaped (Integer_AtRandom ext frame)"
  "\<And>ext frame. shaped (BigInteger_Sqrt ext frame)" "\<And>ext frame. shaped (Double_AsString ext frame)"
  "\<And>ext frame. shaped (Double_Sqrt ext frame)" "\<And>ext frame. shaped (System_Time ext frame)"
  unfolding GetEmbeddedDouble_def coerceDouble_def Integer_Sqrt_def Integer_AtRandom_def BigInteger_Sqrt_def
    Double_AsString_def Double_Sqrt_def System_Time_def
  by (intro shaped_intro)+

lemma shaped_PREPARE_OPERANDS: "(\<And>l r. shaped (g l r)) \<Longrightarrow> shaped (PREPARE_OPERANDS g frame)"
  unfolding PREPARE_OPERANDS_def by (intro shaped_intro; assumption)

lemma shaped_double_operations [shaped_intro]:
  "\<And>ext frame. shaped (Double_Plus ext frame)" "\<And>ext frame. shaped (Double_Minus ext frame)"
  "\<And>ext frame. shaped (Double_Star ext frame)" "\<And>ext frame. shaped (Double_Slashslash ext frame)"
  "\<And>frame. shaped (Double_Percent frame)" "\<And>frame. shaped (Double_And frame)"
  "\<And>frame. shaped (Double_Equal frame)" "\<And>frame. shaped (Double_Lowerthan frame)"
  unfolding Double_Plus_def Double_Minus_def Double_Star_def Double_Slashslash_def Double_Percent_def
    Double_And_def Double_Equal_def Double_Lowerthan_def
  by (intro shaped_intro shaped_PREPARE_OPERANDS)+

lemma shaped_Slashslash:
  "(\<And>a b c. shaped (sd a b c)) \<Longrightarrow> shaped (Integer_Slashslash ext sd frame)"
  unfolding Integer_Slashslash_def by (intro shaped_intro shaped_binary; assumption)

text \<open>The routines of other libraries, a parameter of the model, must keep the typing too.\<close>

lemma shaped_runPrimitive:
  assumes "\<And>a b c. shaped (sd a b c)" "\<And>c g f. shaped (foreign ext c g f)"
  shows "shaped (runPrimitive ext sd n cname fname frame)"
proof -
  have "shaped (r frame)" if "map_of (corePrimitives ext sd n) (cname, fname) = Some r" for r
  proof -
    have "r \<in> snd ` set (corePrimitives ext sd n)" using map_of_SomeD [OF that] by force
    then show ?thesis
      unfolding corePrimitives_def
      by (simp only: list.set image_insert image_empty snd_conv insert_iff empty_iff)
        (elim disjE FalseE; simp only:; intro shaped_primitives shaped_big_integers shaped_doubles shaped_double_operations
           shaped_integers [OF assms(1)] shaped_Slashslash [OF assms(1)])
  qed
  then show ?thesis unfolding runPrimitive_def by (auto split: option.split intro: assms)
qed

section \<open>The interpreter\<close>

lemma shaped_SetFrame [shaped_intro]: "shaped (SetFrame f)"
  unfolding SetFrame_def by (rule shaped_modify) simp

lemma shaped_routine [shaped_intro]:
  assumes "shaped a" "shaped b" "\<And>c g. shaped (f c g)"
  shows "shaped (case r of EmptyRoutine \<Rightarrow> a | EvaluationRoutine \<Rightarrow> b | Routine c g \<Rightarrow> f c g)"
  using assms by (cases r) simp_all

lemma shaped_frames_of_interpreter [shaped_intro]:
  "shaped GetFrame"
    "\<And>meth. shaped (PushNewFrame meth)"
    "shaped GetMethod"
    "shaped GetSelf"
    "shaped popFrame"
    "\<And>res. shaped (popFrameAndPushResult res)"
    "\<And>meth frame. shaped (invokeMethod meth frame)"
    "\<And>self. shaped (EmptyRoutine_run self)"
    "\<And>self frame. shaped (evaluationRoutine self frame)"
    "\<And>numberOfArgs. shaped (popArguments numberOfArgs)"
    "\<And>needed. shaped (makeRoom needed)"
  unfolding GetFrame_def PushNewFrame_def GetMethod_def GetSelf_def popFrame_def
    popFrameAndPushResult_def invokeMethod_def EmptyRoutine_run_def evaluationRoutine_def
    popArguments_def makeRoom_def
  by (intro shaped_intro)+

lemma shaped_SendTo:
  assumes "\<And>i f. shaped (call i f)"
  shows "\<And>this selectorString arguments. shaped (SendTo call this selectorString arguments)"
    unfolding SendTo_def
  by (intro shaped_intro assms)+

lemma shaped_invoke:
  assumes "\<And>c g f. shaped (foreign ext c g f)"
  shows "shaped (invoke ext n i f)"
  by (induction n arbitrary: i f)
    (simp_all only: invoke.simps, (intro shaped_intro | rule shaped_runPrimitive shaped_SendTo assms | assumption)+)

lemma shaped_send:
  assumes "\<And>c g f. shaped (foreign ext c g f)"
  shows "\<And>n this s args. shaped (Send ext n this s args)"
    "\<And>n signature receiverClass. shaped (send ext n signature receiverClass)"
    unfolding Send_def send_def
  by (intro shaped_intro assms shaped_SendTo shaped_invoke)+

lemma shaped_instructions [shaped_intro]:
  "shaped doDup"
    "\<And>bytecodeIndex. shaped (operands bytecodeIndex)"
    "\<And>bytecodeIndex. shaped (constantAt bytecodeIndex)"
    "\<And>bytecodeIndex. shaped (doPushLocal bytecodeIndex)"
    "\<And>bytecodeIndex. shaped (doPushArgument bytecodeIndex)"
    "\<And>bytecodeIndex. shaped (doPushField bytecodeIndex)"
    "\<And>n bytecodeIndex. shaped (doPushBlock n bytecodeIndex)"
    "\<And>bytecodeIndex. shaped (doPushConstant bytecodeIndex)"
    "shaped doPop"
    "\<And>bytecodeIndex. shaped (doPopLocal bytecodeIndex)"
    "\<And>bytecodeIndex. shaped (doPopArgument bytecodeIndex)"
    "\<And>bytecodeIndex. shaped (doPopField bytecodeIndex)"
    "shaped doReturnLocal"
  unfolding doDup_def operands_def constantAt_def doPushLocal_def doPushArgument_def
    doPushField_def doPushBlock_def doPushConstant_def doPop_def doPopLocal_def doPopArgument_def
    doPopField_def doReturnLocal_def
  by (intro shaped_intro)+

lemma shaped_unwindTo [shaped_intro]: "shaped (unwindTo n c)"
  by (induction n) (simp_all only: unwindTo.simps, (intro shaped_intro | assumption)+)

lemma shaped_sending:
  assumes "\<And>c g f. shaped (foreign ext c g f)"
  shows "\<And>n bytecodeIndex. shaped (doPushGlobal ext n bytecodeIndex)"
    "\<And>n bytecodeIndex. shaped (doSend ext n bytecodeIndex)"
    "\<And>n bytecodeIndex. shaped (doSuperSend ext n bytecodeIndex)"
    "\<And>n. shaped (doReturnNonLocal ext n)"
    unfolding doPushGlobal_def doSend_def doSuperSend_def doReturnNonLocal_def
  by (intro shaped_intro assms shaped_send shaped_invoke)+

lemma shaped_execute:
  assumes "\<And>c g f. shaped (foreign ext c g f)"
  shows "shaped (execute ext n bc i)"
proof (cases "opcode_of bc")
  case (Some b)
  then show ?thesis
    by (cases b) (simp_all only: execute_def option.case bytecode.case, (intro shaped_intro shaped_sending assms)+)
qed (simp only: execute_def option.case, intro shaped_intro)

lemma shaped_GetBytecodeLength [shaped_intro]: "shaped (GetBytecodeLength bc)"
  unfolding GetBytecodeLength_def by (intro shaped_intro)

lemma shaped_fetch [shaped_intro]:
  "shaped fetch"
  unfolding fetch_def
  by (intro shaped_intro)+

lemma shaped_step:
  assumes "\<And>c g f. shaped (foreign ext c g f)"
  shows "\<And>n. shaped (step ext n)"
    unfolding step_def
  by (intro shaped_intro assms shaped_execute)+

lemma shaped_Start:
  assumes "\<And>c g f. shaped (foreign ext c g f)"
  shows "shaped (Start ext n k)"
  by (induction k) (simp_all only: Start.simps, (intro shaped_intro shaped_step assms | assumption)+)

lemma shaped_bootstrap [shaped_intro]:
  "shaped NewBootstrapMethod"
  unfolding NewBootstrapMethod_def
  by (intro shaped_intro)+

lemma shaped_shellLine:
  assumes "\<And>c g f. shaped (foreign ext c g f)"
  shows "\<And>n k bytecodeIndex counter inp it. shaped (shellLine ext n k bytecodeIndex counter inp it)"
    unfolding shellLine_def
  by (intro shaped_intro assms shaped_invoke shaped_Start)+

lemma shaped_shellLoop:
  assumes "\<And>c g f. shaped (foreign ext c g f)"
  shows "shaped (shellLoop ext n k i ls c it)"
  by (induction ls arbitrary: c it)
    (simp_all only: shellLoop.simps, (intro shaped_intro shaped_shellLine assms | assumption)+)

lemma shaped_initialize:
  assumes "\<And>c g f. shaped (foreign ext c g f)"
  shows "\<And>n k lines bootstrapMethod. shaped (Shell_Start ext n k lines bootstrapMethod)"
    "\<And>n k argv lines. shaped (initialize ext n k argv lines)"
    unfolding Shell_Start_def initialize_def
  by (intro shaped_intro assms shaped_shellLoop shaped_invoke shaped_Start)+

end
