(* ===== verification/CoreRuns.thy ===== *)
theory CoreRuns
  imports Interpreter
begin

text \<open>
  Runs that stay in the code of the virtual machine. The routines of other primitive libraries
  are a parameter of the model and may do anything; \<open>coreOnly ext\<close> is the machine in which a
  call of such a routine ends the run. Each of its steps is a step of the machine itself: a
  lockstep simulation from the primitives up to the instructions.
\<close>

definition coreOnly :: "external \<Rightarrow> external" where
  "coreOnly ext = ext\<lparr>foreign := \<lambda>_ _ _. throwE (ErrorExit ''routine of another library'')\<rparr>"

text \<open>What the one computation does without an error, the other does too.\<close>

definition under :: "'a vmM \<Rightarrow> 'a vmM \<Rightarrow> bool" where
  "under m m' \<longleftrightarrow> (\<forall>s x s'. m s = Inr (x, s') \<longrightarrow> m' s = Inr (x, s'))"

named_theorems under_intro \<open>computations that do what others do\<close>

lemma under_refl [under_intro]: "under m m"
  by (simp add: under_def)

lemma under_throw [under_intro]: "under (throwE e) m"
  by (simp add: under_def)

lemma under_bind [under_intro]: "under m m' \<Longrightarrow> (\<And>x. under (f x) (f' x)) \<Longrightarrow> under (bindE m f) (bindE m' f')"
  unfolding under_def by (fastforce elim: bindE_InrE)

lemma under_then [under_intro]: "under m m' \<Longrightarrow> under k k' \<Longrightarrow> under (thenE m k) (thenE m' k')"
  unfolding thenE_def by (rule under_bind)

lemma under_if [under_intro]: "under m m' \<Longrightarrow> under k k' \<Longrightarrow> under (if b then m else k) (if b then m' else k')"
  by simp

lemma under_cases [under_intro]:
  "(\<And>x y. under (g x y) (g' x y)) \<Longrightarrow> under (case q of (x, y) \<Rightarrow> g x y) (case q of (x, y) \<Rightarrow> g' x y)"
  "under m m' \<Longrightarrow> under k k' \<Longrightarrow> (\<And>c r. under (h c r) (h' c r)) \<Longrightarrow>
     under (case t of EmptyRoutine \<Rightarrow> m | EvaluationRoutine \<Rightarrow> k | Routine c r \<Rightarrow> h c r)
       (case t of EmptyRoutine \<Rightarrow> m' | EvaluationRoutine \<Rightarrow> k' | Routine c r \<Rightarrow> h' c r)"
  by (cases q; simp) (cases t; simp)

section \<open>Primitives\<close>

lemma coreOnly_floats [simp]:
  "fp_add (coreOnly ext) = fp_add ext" "fp_sub (coreOnly ext) = fp_sub ext" "fp_mul (coreOnly ext) = fp_mul ext"
  "fp_div (coreOnly ext) = fp_div ext" "fp_sqrt (coreOnly ext) = fp_sqrt ext" "fp_show (coreOnly ext) = fp_show ext"
  "sys_rand (coreOnly ext) = sys_rand ext" "sys_clock (coreOnly ext) = sys_clock ext" "sys_start (coreOnly ext) = sys_start ext"
  by (simp_all add: coreOnly_def)

lemma coreOnly_routines:
  "Integer_Sqrt (coreOnly ext) = Integer_Sqrt ext" "Integer_AtRandom (coreOnly ext) = Integer_AtRandom ext"
  "BigInteger_Sqrt (coreOnly ext) = BigInteger_Sqrt ext" "Double_Plus (coreOnly ext) = Double_Plus ext"
  "Double_Minus (coreOnly ext) = Double_Minus ext" "Double_Star (coreOnly ext) = Double_Star ext"
  "Double_Slashslash (coreOnly ext) = Double_Slashslash ext" "Double_AsString (coreOnly ext) = Double_AsString ext"
  "Double_Sqrt (coreOnly ext) = Double_Sqrt ext" "System_Time (coreOnly ext) = System_Time ext"
  by (rule HOL.ext,
      simp add: Integer_Sqrt_def Integer_AtRandom_def BigInteger_Sqrt_def Double_Plus_def Double_Minus_def Double_Star_def
        Double_Slashslash_def Double_AsString_def Double_Sqrt_def System_Time_def)+

lemma under_Integer_binary:
  assumes "\<And>a b c. under (sd a b c) (sd' a b c)"
  shows "under (Integer_binary sd op g frame) (Integer_binary sd' op g frame)"
  unfolding Integer_binary_def CHECK_COERCION_def resendAsBigInteger_def resendAsDouble_def
  by (intro under_intro assms)

lemma under_Integers:
  assumes "\<And>a b c. under (sd a b c) (sd' a b c)"
  shows "\<And>f. under (Integer_Plus sd f) (Integer_Plus sd' f)" "\<And>f. under (Integer_Minus sd f) (Integer_Minus sd' f)"
    "\<And>f. under (Integer_Star sd f) (Integer_Star sd' f)" "\<And>f. under (Integer_Slash sd f) (Integer_Slash sd' f)"
    "\<And>f. under (Integer_Percent sd f) (Integer_Percent sd' f)" "\<And>f. under (Integer_And sd f) (Integer_And sd' f)"
    "\<And>f. under (Integer_Lowerthan sd f) (Integer_Lowerthan sd' f)" "\<And>f. under (Integer_Equal sd f) (Integer_Equal sd' f)"
    "\<And>f. under (Integer_Slashslash (coreOnly ext) sd f) (Integer_Slashslash ext sd' f)"
  unfolding Integer_Plus_def Integer_Minus_def Integer_Star_def Integer_Slash_def Integer_Percent_def Integer_And_def
    Integer_Lowerthan_def Integer_Equal_def Integer_Slashslash_def CHECK_COERCION_def resendAsBigInteger_def
    resendAsDouble_def coreOnly_floats
  by (intro under_Integer_binary under_intro assms)+

text \<open>The routines of the core library, one by one, in the order of the table.\<close>

definition routines_under :: "((string \<times> string) \<times> (ptr \<Rightarrow> unit vmM)) list \<Rightarrow>
    ((string \<times> string) \<times> (ptr \<Rightarrow> unit vmM)) list \<Rightarrow> bool" where
  "routines_under = list_all2 (\<lambda>p q. fst p = fst q \<and> (\<forall>f. under (snd p f) (snd q f)))"

lemma routines_under_map_of:
  "routines_under ps qs \<Longrightarrow> rel_option (\<lambda>g h. \<forall>f. under (g f) (h f)) (map_of ps k) (map_of qs k)"
  unfolding routines_under_def by (induction ps qs rule: list_all2_induct) auto

lemma routines_under_Cons:
  "(\<And>f. under (g f) (h f)) \<Longrightarrow> routines_under ps qs \<Longrightarrow> routines_under ((k, g) # ps) ((k, h) # qs)"
  by (simp add: routines_under_def)

lemma routines_under_Nil: "routines_under [] []"
  by (simp add: routines_under_def)

lemma under_corePrimitives:
  assumes "\<And>a b c. under (sd a b c) (sd' a b c)"
  shows "routines_under (corePrimitives (coreOnly ext) sd n) (corePrimitives ext sd' n)"
  unfolding corePrimitives_def coreOnly_routines
  by (intro routines_under_Cons routines_under_Nil under_refl under_Integers assms)

lemma under_runPrimitive:
  assumes "\<And>a b c. under (sd a b c) (sd' a b c)"
  shows "under (runPrimitive (coreOnly ext) sd n c r frame) (runPrimitive ext sd' n c r frame)"
proof -
  from under_corePrimitives [where sd = sd and sd' = sd' and ext = ext and n = n, OF assms]
  have "rel_option (\<lambda>g h. \<forall>f. under (g f) (h f)) (map_of (corePrimitives (coreOnly ext) sd n) (c, r))
      (map_of (corePrimitives ext sd' n) (c, r))"
    by (rule routines_under_map_of)
  then show ?thesis
    unfolding runPrimitive_def by cases (auto simp: coreOnly_def under_throw)
qed

section \<open>The interpreter\<close>

lemma under_SendTo:
  assumes "\<And>i f. under (call i f) (call' i f)"
  shows "under (SendTo call this s args) (SendTo call' this s args)"
  unfolding SendTo_def by (intro under_intro assms)

lemma under_invoke: "under (invoke (coreOnly ext) n i f) (invoke ext n i f)"
  by (induction n arbitrary: i f)
    (simp_all only: invoke.simps, (intro under_intro | rule under_runPrimitive under_SendTo | assumption)+)

lemma under_send:
  "under (Send (coreOnly ext) n this s args) (Send ext n this s args)"
  "under (send (coreOnly ext) n sig c) (send ext n sig c)"
  unfolding Send_def send_def Let_def by (intro under_intro under_SendTo under_invoke)+

lemma under_sending:
  "under (doPushGlobal (coreOnly ext) n i) (doPushGlobal ext n i)"
  "under (doSend (coreOnly ext) n i) (doSend ext n i)"
  "under (doSuperSend (coreOnly ext) n i) (doSuperSend ext n i)"
  "under (doReturnNonLocal (coreOnly ext) n) (doReturnNonLocal ext n)"
  unfolding doPushGlobal_def doSend_def doSuperSend_def doReturnNonLocal_def Let_def
  by (intro under_intro under_send under_invoke)+

lemma under_execute: "under (execute (coreOnly ext) n bc i) (execute ext n bc i)"
proof (cases "opcode_of bc")
  case (Some b)
  then show ?thesis
    by (cases b) (simp_all only: execute_def option.case bytecode.case, (intro under_intro under_sending)+)
qed (simp only: execute_def option.case under_refl)

lemma under_step: "under (step (coreOnly ext) n) (step ext n)"
  unfolding step_def by (intro under_intro under_execute)

lemma step_coreOnly: "step (coreOnly ext) n u = Inr r \<Longrightarrow> step ext n u = Inr r"
  using under_step [of ext n] by (cases r) (auto simp: under_def)

end
