(* ===== verification/TypingProperties.thy ===== *)
theory TypingProperties
  imports MachineTyping SampleMachine CoreRuns
begin

text \<open>
  What the typing of the heap says of whole runs. A run of the machine \<open>coreOnly ext\<close> is a run in
  which no routine of another primitive library is called: nothing is asked of those routines.
\<close>

section \<open>Runs\<close>

inductive runs :: "external \<Rightarrow> nat \<Rightarrow> vm \<Rightarrow> vm \<Rightarrow> bool" for ext :: external and n :: nat and v :: vm where
  runs_start: "runs ext n v v"
| runs_step: "runs ext n v u \<Longrightarrow> step ext n u = Inr (go, w) \<Longrightarrow> runs ext n v w"

text \<open>A run in which no routine of another library is called is a run of the machine.\<close>

lemma runs_coreOnly: "runs (coreOnly ext) n v w \<Longrightarrow> runs ext n v w"
  by (induction rule: runs.induct) (auto intro: runs.intros step_coreOnly)

lemma shaped_coreOnly: "shaped (foreign (coreOnly ext) c f frame)"
  unfolding coreOnly_def external.select_convs external.update_convs by simp (rule shaped_throw)

lemma runs_typed:
  assumes "runs (coreOnly ext) n v w" "typed v"
  shows "typed w \<and> extends v w"
  using assms(1)
proof induction
  case runs_start
  then show ?case using assms(2) extends_refl by simp
next
  case (runs_step u go w)
  have st: "shaped (step (coreOnly ext) n)" by (intro shaped_step shaped_coreOnly)
  from shapedD [OF st _ runs_step(2)] runs_step(3) have "typed w" "extends u w" by simp_all
  with extends_trans [of v u w] runs_step(3) show ?case by simp
qed

text \<open>C12. Whatever instructions run, sends, primitives of the core library and class loading
  included: as long as no routine of another primitive library is called, every object has the
  size, the fields and the payload its class gives it, and no object ever changes its class,
  its size, the number of its fields and slots, the length of its code or the value of a
  string, big integer or double. The routines of other libraries are not assumed to do
  anything.\<close>

lemma run_keeps_types:
  assumes "runs (coreOnly ext) n v w" "typed v"
  shows "runs ext n v w \<and> typed w \<and> (\<forall>p ob. heap v p = Some ob \<longrightarrow> (\<exists>ob'. heap w p = Some ob' \<and> o_kind ob' = o_kind ob \<and>
     o_size ob' = o_size ob \<and> length (o_fields ob') = length (o_fields ob) \<and> length (o_slots ob') = length (o_slots ob) \<and>
     fixedData (o_data ob') = fixedData (o_data ob)))"
proof (intro conjI)
  show "runs ext n v w" by (rule runs_coreOnly [OF assms(1)])
  from runs_typed [OF assms] show "typed w" by simp
  from runs_typed [OF assms] show "\<forall>p ob. heap v p = Some ob \<longrightarrow> (\<exists>ob'. heap w p = Some ob' \<and> o_kind ob' = o_kind ob \<and>
     o_size ob' = o_size ob \<and> length (o_fields ob') = length (o_fields ob) \<and> length (o_slots ob') = length (o_slots ob) \<and>
     fixedData (o_data ob') = fixedData (o_data ob))" unfolding extends_def shape_def by fastforce
qed

section \<open>Strings and symbols\<close>

lemma shape_string: "shape ob' = shape ob \<Longrightarrow> o_data ob = StrData s \<Longrightarrow> o_data ob' = StrData s"
  by (auto simp: shape_def fixedData_def split: payload.splits)

text \<open>C13. Strings and symbols are immutable, and symbols stay interned: during a run in which no
  routine of another primitive library is called every string keeps its characters and every
  interned symbol is found again as the same object.\<close>

lemma run_keeps_strings:
  assumes "runs (coreOnly ext) n v w" "typed v"
  shows "runs ext n v w \<and> (\<forall>p s. strOf v p = Some s \<longrightarrow> strOf w p = Some s) \<and>
     (\<forall>p s. SymbolFor s v = Inr (p, v) \<longrightarrow> SymbolFor s w = Inr (p, w))"
proof -
  have e: "typed w" "extends v w" using runs_typed [OF assms] by simp_all
  have "strOf w p = Some s" if s: "strOf v p = Some s" for p s
  proof -
    obtain ob t where ob: "heap v p = Some ob" "o_data ob = StrData t" "s = cstr t"
      using s by (auto simp: strOf_def split: option.splits payload.splits)
    obtain ob' where ob': "heap w p = Some ob'" "shape ob' = shape ob" using e(2) ob(1) unfolding extends_def by blast
    have "o_data ob' = StrData t" by (rule shape_string [OF ob'(2) ob(2)])
    with ob' ob(3) show ?thesis by (simp add: strOf_def)
  qed
  moreover have "SymbolFor s w = Inr (p, w)" if s: "SymbolFor s v = Inr (p, v)" for p s
  proof -
    have ok: "vm_ok v" using assms(2) by (simp add: typed_def)
    have "symtab v (cstr s) = p \<and> p \<noteq> NULL" using SymbolFor_run [OF ok, of s] s by auto
    moreover from this e(2) have "symtab w (cstr s) = p" unfolding extends_def by blast
    ultimately show ?thesis by (simp add: SymbolFor_def symtab_lookup_def)
  qed
  ultimately show ?thesis using runs_coreOnly [OF assms(1)] by blast
qed

section \<open>A sample run\<close>

lemma laidOut_sample: "\<forall>x\<in>set sampleHeap. laidOut (shape (snd x))"
  by (simp add: sampleHeap_def shape_def fixedData_def sampleSymbol_def sampleMethod_def sampleInt_def cstr_def)

lemma vm1_typed: "typed vm1"
proof -
  have "laidOut (shape ob)" if "heap vm1 p = Some ob" for p ob
  proof -
    have "(p, ob) \<in> set sampleHeap" using that by (auto simp: vm1_def dest: map_of_SomeD)
    with laidOut_sample show ?thesis by fastforce
  qed
  with vm1_ok show ?thesis by (simp add: typed_def)
qed

text \<open>The sample machine with its method entered, one instruction later.\<close>

lemma vm1_run:
  obtains v u where "invokeMethod 6 19 vm1 = Inr ((), v)" "typed v" "runs (coreOnly sampleExt) 0 v u" "curFrame v = 24" "heap v 23 = heap vm1 23"
    "symtab v = symtab vm1" "extends vm1 v"
proof -
  have mp: "methodParts vm1 6 = Some ([3, 0, 0, 14], [], 0, 1, int 1)" using vm1_parts(2) by simp
  let ?sl = "rev (take 1 [12, NULL, 12]) @ replicate (0 + 1) (nilObject vm1)"
  let ?w = "entered vm1 19 6 ''Frame'' ?sl 0 1"
  have inv: "invokeMethod 6 19 vm1 = Inr ((), ?w)"
    by (rule invokeMethod_run [OF vm1_ok mp vm1_frameName _ vm1_ptrs(3) vm1_stack(1)]) simp_all
  have ty: "typed ?w \<and> extends vm1 ?w" 
    using shapedD [where m = "invokeMethod 6 19", OF _ vm1_typed inv] shaped_frames_of_interpreter by blast
  have run: "running ?w (nextPtr vm1) [(0, 1)] [3, 0, 0, 14] [] 1 0 0"
    by (rule entered_running(1) [OF vm1_ok mp]) simp_all
  have sc: "scanStep [(0, 1)] (litOf ?w []) (drop 0 [3, 0, 0, 14]) 0 = Some (1, [14])"
    by (simp add: scanStep_def opcode_of_def all_bytecodes_def byteAt_def)
  obtain u where "step (coreOnly sampleExt) 0 ?w = Inr (True, u)"
    using running_straight [OF run _ _ sc, of BC_PUSH_ARGUMENT "coreOnly sampleExt" 0]
    by (auto simp: entered_def straight_def opcode_of_def all_bytecodes_def litOf_def)
  from runs_step [OF runs_start this] ty inv that [of ?w u] show thesis
    using entered_old [of 23 vm1] by (simp add: entered_def vm1_ptrs withFrame_def)
qed

lemma run_keeps_types_witness:
  "\<exists>v u ob. invokeMethod 6 19 vm1 = Inr ((), v) \<and> runs sampleExt 0 v u \<and> typed u \<and> heap u 19 = Some ob \<and> o_kind ob = KFrame"
proof -
  obtain v u where v: "invokeMethod 6 19 vm1 = Inr ((), v)" "typed v" "runs (coreOnly sampleExt) 0 v u" "extends vm1 v" by (rule vm1_run)
  obtain a where a: "heap v 19 = Some a" "o_kind a = KFrame"
    using v(4) vm1_heap(9) unfolding extends_def shape_def by force
  from run_keeps_types [OF v(3,2)] a have "runs sampleExt 0 v u" "typed u" "\<exists>ob. heap u 19 = Some ob \<and> o_kind ob = KFrame"
    by fastforce+
  with v show ?thesis by blast
qed

lemma run_keeps_strings_witness:
  "\<exists>v u. invokeMethod 6 19 vm1 = Inr ((), v) \<and> runs sampleExt 0 v u \<and> strOf u 23 = Some ''m''"
proof -
  obtain v u where v: "invokeMethod 6 19 vm1 = Inr ((), v)" "typed v" "runs (coreOnly sampleExt) 0 v u" "heap v 23 = heap vm1 23" by (rule vm1_run)
  have "strOf v 23 = Some ''m''" using v(4) by (simp add: strOf_def vm1_facts cstr_def)
  with run_keeps_strings [OF v(3,2)] v(1,3) show ?thesis by blast
qed

section \<open>Compiled objects\<close>

lemma parse_keeps_types:
  assumes "typed v" "parseSource src v = Inr (cg, w)"
  shows "typed w \<and> extends v w"
  using shapedD [OF shaped_parseSource assms] .

lemma vm0_typed: "typed vm0"
  using vm0_ok by (simp add: typed_def vm0_def)

lemma parse_keeps_types_witness:
  "\<exists>cg w. parseSource ''A = ( x = ( ^1 ) )'' vm0 = Inr (cg, w) \<and> typed w"
proof (cases "parseSource ''A = ( x = ( ^1 ) )'' vm0")
  case (Inr r)
  then show ?thesis using parse_keeps_types [OF vm0_typed, of "''A = ( x = ( ^1 ) )''" "fst r" "snd r"] by (cases r) auto
qed (use parse_sample in simp)

end
