(* ===== verification/LiteralProperties.thy ===== *)
theory LiteralProperties
  imports LexerRoundTrip SampleMachine
begin

text \<open>
  Integer literals and the lexer's one token of look-ahead: what the digits of a literal denote once
  \<open>strtoul\<close> and the narrowing to 32 bits have read them, for every sign and size, and that \<open>Peek\<close>
  shows the symbol the next \<open>GetSym\<close> returns without consuming it.
\<close>

section \<open>Integer literals\<close>

declare show_nat.simps [simp del]

lemma digits_value_snoc: "digits_value (ds @ [c]) = 10 * digits_value ds + (char_code c - 48)"
  by (simp add: digits_value_def)

lemma digit_facts: "d < 10 \<Longrightarrow> char_code (char_of (48 + d)) = 48 + d \<and> isdigit (char_of (48 + d))"
  by (simp add: char_code_def isdigit_def)

lemma show_nat_digits: "digits_value (show_nat n) = n \<and> (\<forall>c\<in>set (show_nat n). isdigit c) \<and> show_nat n \<noteq> []"
proof (induction n rule: show_nat.induct)
  case (1 n)
  show ?case
  proof (cases "n < 10")
    case True
    have s: "show_nat n = [char_of (48 + n)]" using True by (subst show_nat.simps) simp
    show ?thesis
      unfolding s using digit_facts [OF True] by (simp add: digits_value_def)
  next
    case False
    have s: "show_nat n = show_nat (n div 10) @ [char_of (48 + n mod 10)]" using False by (subst show_nat.simps) simp
    have "n mod 10 < 10" by simp
    from 1 [OF False] digit_facts [OF this] show ?thesis
      unfolding s by (auto simp: digits_value_snoc)
  qed
qed

lemma strtoul_show: "strtoul (show_nat n) = (if n < 4294967296 then int n else 4294967295)"
proof -
  have d: "\<forall>c\<in>set (show_nat n). isdigit c" "digits_value (show_nat n) = n" "show_nat n \<noteq> []" using show_nat_digits by blast+
  then have t: "takeWhile isdigit (show_nat n) = show_nat n" by (simp add: takeWhile_eq_all_conv)
  have "\<not> isdigit (CHR ''-'')" "\<not> isdigit (CHR ''+'')" by (simp_all add: isdigit_def char_code_def)
  with d(1) hd_in_set [OF d(3)] have "hd (show_nat n) \<noteq> CHR ''-''" "hd (show_nat n) \<noteq> CHR ''+''" by metis+
  moreover have "dropWhile isspace (show_nat n) = show_nat n"
  proof -
    have "\<not> isspace (hd (show_nat n))"
      using d(1) hd_in_set [OF d(3)] by (auto simp: isdigit_def isspace_def Let_def)
    with d(3) show ?thesis by (cases "show_nat n") simp_all
  qed
  ultimately show ?thesis using d(3) by (simp add: strtoul_def Let_def t d(2))
qed

lemma to_i32_eq: "to_i32 k = (k + 2147483648) mod 4294967296 - 2147483648"
  by (simp add: to_i32_def signed_take_bit_eq_take_bit_shift take_bit_eq_mod)

text \<open>The values of the literals with the digits of n, without and with a minus before them.\<close>

definition literalValue :: "nat \<Rightarrow> int" where
  "literalValue n = (if n < 2147483648 then int n else if n < 4294967296 then int n - 4294967296 else - 1)"

definition negatedValue :: "nat \<Rightarrow> int" where
  "negatedValue n = (if n \<le> 2147483648 then - int n else if n < 4294967296 then 4294967296 - int n else 1)"

lemma literal_value: "to_i32 (strtoul (show_nat n)) = literalValue n"
proof (cases "2147483648 \<le> n \<and> n < 4294967296")
  case True
  have "(int n - 2147483648 + 1 * 4294967296) mod 4294967296 = (int n - 2147483648) mod 4294967296" by (rule mod_mult_self1)
  with True show ?thesis by (simp add: strtoul_show to_i32_eq add.commute literalValue_def)
next
  case False
  then consider "n < 2147483648" | "4294967296 \<le> n" by linarith
  then show ?thesis by cases (simp_all add: strtoul_show to_i32_eq literalValue_def)
qed

lemma negated_value: "to_i32 (- literalValue n) = negatedValue n"
proof -
  consider "n < 2147483648" | "n = 2147483648" | "2147483648 < n" "n < 4294967296" | "4294967296 \<le> n" by linarith
  then show ?thesis
    by cases (simp_all add: literalValue_def negatedValue_def to_i32_eq)
qed

text \<open>C30. An integer literal denotes the number written exactly when it fits 32 bits; from 2 to the
  31 to below 2 to the 32 it wraps around, and everything larger is -1 (or 1 behind a minus).\<close>

lemma integer_literals:
  assumes "p_sym p = Integer" "p_text p = show_nat n"
  shows "literalNumber p = thenE (expect Integer) (bindE (vmM (NewInteger (literalValue n))) addConstant) p \<and>
    (\<forall>m b. p_sym m = Minus \<longrightarrow> expect Minus m = Inr (b, p) \<longrightarrow>
      literalNumber m = thenE (expect Integer) (bindE (vmM (NewInteger (negatedValue n))) addConstant) p)"
proof -
  note defs = literalNumber_def negativeDecimal_def literalDecimal_def literalInteger_def sym_def textM_def thenE_def getsE_def
    bindE_lazy returnE_def
  have "literalNumber p = thenE (expect Integer) (bindE (vmM (NewInteger (literalValue n))) addConstant) p"
    using assms by (simp add: defs literal_value split: sum.split)
  moreover have "literalNumber m = thenE (expect Integer) (bindE (vmM (NewInteger (negatedValue n))) addConstant) p"
    if "p_sym m = Minus" "expect Minus m = Inr (b, p)" for m b
    using assms that by (simp add: defs literal_value negated_value split: sum.split)
  ultimately show ?thesis by blast
qed

text \<open>The parser in front of the literal \<open>-2147483648\<close>.\<close>

definition beforeLiteral :: "err + unit \<times> pstate" where
  "beforeLiteral = GETSYM (Parser_start ''-2147483648 '' ClassGenerationContext_new vm0)"

lemma integer_literals_witness:
  "\<exists>m. beforeLiteral = Inr ((), m) \<and> p_sym m = Minus \<and> (\<exists>b p. expect Minus m = Inr (b, p) \<and>
     literalNumber m = thenE (expect Integer) (bindE (vmM (NewInteger (- 2147483648))) addConstant) p)"
proof -
  have "map_sum id (\<lambda>r. (p_sym (snd r), map_sum id (\<lambda>q. (p_sym (snd q), p_text (snd q))) (expect Minus (snd r)))) beforeLiteral =
     Inr (Minus, Inr (Integer, ''2147483648''))"
    by (simp add: beforeLiteral_def eval_simps cong: eval_congs del: eval_dels)
  then obtain m b p where mp: "beforeLiteral = Inr ((), m)" "p_sym m = Minus" "expect Minus m = Inr (b, p)" "p_sym p = Integer"
    "p_text p = ''2147483648''"
    by (auto simp: map_sum_def split: sum.splits)
  have "show_nat 2147483648 = ''2147483648''" by (simp add: show_nat.simps char_of_def bit_iff_odd)
  with integer_literals [of p 2147483648] mp show ?thesis by (auto simp: negatedValue_def)
qed

section \<open>Looking ahead\<close>

text \<open>C31. Peek shows the symbol and the text the next GetSym returns, consumes nothing and leaves
  the current symbol and text; the GetSym behind it ends in the state it would have ended in
  without.\<close>

lemma peek_is_next:
  assumes "Peek l = Inr (s, l')"
  shows "\<exists>l1 l2. GetSym l = Inr (s, l1) \<and> GetSym l' = Inr (s, l2) \<and> GetText l2 = GetText l1 \<and> GetNextText l' = GetText l1 \<and>
     (lx_rest l2, lx_good l2, lx_line l2, lx_buf l2, lx_bufp l2) = (lx_rest l1, lx_good l1, lx_line l1, lx_buf l1, lx_bufp l1) \<and>
     lx_sym l' = lx_sym l \<and> GetText l' = GetText l"
  by (rule Peek_GetSym [OF assms])

lemma peek_is_next_witness:
  "\<exists>l' l1 l2. Peek (Lexer_new ''ab := 1'') = Inr (Identifier, l') \<and> GetSym (Lexer_new ''ab := 1'') = Inr (Identifier, l1) \<and>
     GetSym l' = Inr (Identifier, l2) \<and> GetText l2 = GetText l1"
proof -
  have "map_sum id fst (Peek (Lexer_new ''ab := 1'')) = Inr Identifier"
    by (simp add: eval_simps cong: eval_congs del: eval_dels)
  then obtain l' where "Peek (Lexer_new ''ab := 1'') = Inr (Identifier, l')"
    by (cases "Peek (Lexer_new ''ab := 1'')") auto
  with peek_is_next [OF this] show ?thesis by blast
qed

end
