(* ===== verification/EmergencyFrames.thy ===== *)
theory EmergencyFrames
  imports ObjectProperties SampleMachine
begin

text \<open>
  Emergency frames: a frame without room for what is to be pushed is copied into a larger one
  (\<open>EmergencyFrameFrom\<close>), with the same stack, arguments, method and links.
\<close>

section \<open>Emergency frames\<close>

text \<open>The state with a new frame at the end of the heap, the three integers made for it behind.\<close>

definition withCopy :: "vm \<Rightarrow> ptr list \<Rightarrow> ptr list \<Rightarrow> vm" where
  "withCopy v fs sl =
     (let w = withFrame v [NULL, NULL, NULL, NULL] [] 0 0 0 in w\<lparr>heap := (heap w)(nextPtr v \<mapsto> frameObject fs sl)\<rparr>)"

lemma withCopy_heap:
  "heap (withCopy v fs sl) (nextPtr v) = Some (frameObject fs sl)"
  "p < nextPtr v \<Longrightarrow> heap (withCopy v fs sl) p = heap v p"
  by (simp_all add: withCopy_def Let_def withFrame_def)

lemma withCopy_set:
  "(withCopy v fs sl)\<lparr>heap := (heap (withCopy v fs sl))(nextPtr v \<mapsto> frameObject fs' sl')\<rparr> = withCopy v fs' sl'"
  by (simp add: withCopy_def Let_def)

lemma withFrame_withCopy:
  "withFrame v fs sl 0 0 0 = withCopy v (fs @ [nextPtr v + 3, nextPtr v + 2, nextPtr v + 1]) sl"
  by (simp add: withFrame_def withCopy_def Let_def fun_upd_twist)

lemma withCopy_setMember:
  assumes "i < length fs" "KFrame \<in> set ks"
  shows "setMember ks i (nextPtr v) x (withCopy v fs sl) = Inr ((), withCopy v (fs[i := x]) sl)"
proof -
  have "(frameObject fs sl)\<lparr>o_fields := (o_fields (frameObject fs sl))[i := x]\<rparr> = frameObject (fs[i := x]) sl"
    "o_kind (frameObject fs sl) = KFrame" "o_fields (frameObject fs sl) = fs"
    by (simp_all add: frameObject_def)
  with setMember_eq [OF withCopy_heap(1) [of v fs sl], where ks = ks and i = i and x = x] assms show ?thesis by (simp add: withCopy_set)
qed

lemma withCopy_le:
  assumes "vm_ok v"
  shows "vm_le v (withCopy v fs sl)" and "vm_ok (withCopy v fs sl)"
proof -
  have "withCopy v fs sl = v\<lparr>heap := heap (withCopy v fs sl), nextPtr := nextPtr v + 4, rootTable := rootTable v\<rparr>"
    by (simp add: withCopy_def Let_def withFrame_def)
  from vm_le_alloc [OF assms _ _ this] assms
  show "vm_le v (withCopy v fs sl)" "vm_ok (withCopy v fs sl)"
    by (simp_all add: withCopy_heap(2)) (simp_all add: withCopy_def Let_def withFrame_def vm_ok_fresh)
qed

lemma EmergencyFrameFrom_run:
  assumes ok: "vm_ok v" and f: "frameOf v f = Some ob" and sz: "length (o_slots ob) + e < 536870912"
  shows "EmergencyFrameFrom f (int e) v =
     Inr (nextPtr v, withCopy v (o_fields ob) (o_slots ob @ replicate e (nilObject v)))"
proof -
  let ?n = "length (o_slots ob)" and ?q = "nextPtr v"
  note fr = frameOf_facts [OF f]
  obtain a b c d x y z where fs: "o_fields ob = [a, b, c, d, x, y, z]"
    using fr(5) by (auto simp: length_Suc_conv eval_nat_numeral)
  have fq: "f < ?q" "f \<noteq> ?q" using vm_ok_bound [OF ok fr(1)] by auto
  have hf: "heap (withCopy v gs sl) f = Some ob" for gs sl using withCopy_heap(2) [OF fq(1)] fr(1) by simp
  have fw: "frameOf (withCopy v gs sl) f = Some ob" for gs sl using frameOf_cong [of "withCopy v gs sl" f v] hf fr(1) f by simp
  have new: "VMFrame_new (int ?n + int e) v = Inr (?q, withCopy v [NULL, nilObject v, nilObject v, nilObject v, ?q + 3, ?q + 2, ?q + 1]
      (replicate (?n + e) (nilObject v)))"
    using VMFrame_new_run [OF sz, of v] by (simp add: withFrame_withCopy)
  have arr: "arrayOf (withCopy v gs sl) ?q = Some (frameObject gs sl)" if "length gs = 7" "length sl < 536870912" for gs sl
    using that by (simp add: arrayOf_def withCopy_heap frameObject_def arrayKinds_def array_size_ok_def sizeof_pointer_def)
  have copy: "CopyIndexableFieldsTo f ?q (withCopy v gs (replicate (?n + e) (nilObject v))) =
      Inr ((), withCopy v gs (o_slots ob @ replicate e (nilObject v)))" if "length gs = 7" for gs
  proof -
    have 1: "(frameObject gs (replicate (?n + e) (nilObject v)))\<lparr>o_slots := o_slots ob @ drop ?n (o_slots (frameObject gs (replicate (?n + e) (nilObject v))))\<rparr>
        = frameObject gs (o_slots ob @ replicate e (nilObject v))"
      by (simp add: frameObject_def)
    have 2: "length (o_slots ob) \<le> length (o_slots (frameObject gs (replicate (?n + e) (nilObject v))))" by (simp add: frameObject_def)
    from CopyIndexableFieldsTo_run [OF frameOf_facts(9) [OF fw] arr [OF that] fq(2) 2] sz show ?thesis
      by (simp only: 1 withCopy_set length_replicate)
  qed
  have reads: "GetClass f (withCopy v gs sl) = Inr (a, withCopy v gs sl)"
    "GetPreviousFrame f (withCopy v gs sl) = Inr (b, withCopy v gs sl)" "GetContext f (withCopy v gs sl) = Inr (c, withCopy v gs sl)"
    "FrameGetMethod f (withCopy v gs sl) = Inr (d, withCopy v gs sl)" "getMember [KFrame] 4 f (withCopy v gs sl) = Inr (x, withCopy v gs sl)"
    "getMember [KFrame] 5 f (withCopy v gs sl) = Inr (y, withCopy v gs sl)" "getMember [KFrame] 6 f (withCopy v gs sl) = Inr (z, withCopy v gs sl)" for gs sl
    using hf [of gs sl] fr(2)
    by (simp_all add: GetClass_def GetPreviousFrame_def GetContext_def FrameGetMethod_def getMember_def derefAs_def deref_def fs)
  have upd: "[p0, p1, p2, p3, p4, p5, p6][0 := p] = [p, p1, p2, p3, p4, p5, p6]" "[p0, p1, p2, p3, p4, p5, p6][1 := p] = [p0, p, p2, p3, p4, p5, p6]"
    "[p0, p1, p2, p3, p4, p5, p6][2 := p] = [p0, p1, p, p3, p4, p5, p6]" "[p0, p1, p2, p3, p4, p5, p6][3 := p] = [p0, p1, p2, p, p4, p5, p6]"
    "[p0, p1, p2, p3, p4, p5, p6][4 := p] = [p0, p1, p2, p3, p, p5, p6]" "[p0, p1, p2, p3, p4, p5, p6][5 := p] = [p0, p1, p2, p3, p4, p, p6]"
    "[p0, p1, p2, p3, p4, p5, p6][6 := p] = [p0, p1, p2, p3, p4, p5, p]" for p p0 p1 p2 p3 p4 p5 p6 :: ptr
    by (simp_all add: eval_nat_numeral)
  have set: "setMember ks i ?q p (withCopy v [p0, p1, p2, p3, p4, p5, p6] sl) = Inr ((), withCopy v ([p0, p1, p2, p3, p4, p5, p6][i := p]) sl)"
    if "i < 7" "KFrame \<in> set ks" for ks i p p0 p1 p2 p3 p4 p5 p6 sl
    using withCopy_setMember [of i "[p0, p1, p2, p3, p4, p5, p6]" ks v p sl] that by simp
  show ?thesis
    unfolding EmergencyFrameFrom_def fs
    by (simp add: GetNumberOfIndexableFields_run [OF fr(9)] new reads SetClass_def SetPreviousFrame_def FrameSetMethod_def SetContext_def
        set upd copy del: One_nat_def list_update.simps add_2_eq_Suc')
qed

text \<open>After \<open>makeRoom k\<close> the current frame has room for k more, with the stack as it was.\<close>

lemma makeRoom_run:
  assumes "vm_ok v" "stackOf v (curFrame v) = Some xs" "length xs + k < 536870912" "length xs + roomOf v (curFrame v) < 536870912"
  shows "\<exists>v'. makeRoom (int k) v = Inr ((), v') \<and> stackOf v' (curFrame v') = Some xs \<and> k \<le> roomOf v' (curFrame v') \<and>
     vm_ok v' \<and> (\<forall>p ob. heap v p = Some ob \<longrightarrow> heap v' p = Some ob) \<and> (curFrame v' = curFrame v \<or> heap v (curFrame v') = None) \<and>
     (\<forall>i<7. getMember [KFrame] i (curFrame v') v' = map_sum id (\<lambda>r. (fst r, v')) (getMember [KFrame] i (curFrame v) v))"
proof -
  let ?f = "curFrame v"
  obtain ob where f: "frameOf v ?f = Some ob" "intOf v (o_fields ob ! 4) = Some (int (length xs) - 1)"
    "length xs \<le> length (o_slots ob)" "xs = rev (take (length xs) (o_slots ob))"
    "roomOf v ?f = length (o_slots ob) - length xs" by (rule stackOfE [OF assms(2)])
  show ?thesis
  proof (cases "k \<le> roomOf v ?f")
    case True
    then have "makeRoom (int k) v = Inr ((), v)"
      by (simp add: makeRoom_def GetFrame_def RemainingStackSize_run [OF assms(2)])
    with True assms frameOf_member [OF f(1)] show ?thesis by (intro exI [of _ v]) simp
  next
    case False
    define e where "e = k - roomOf v ?f"
    have e: "int k - int (roomOf v ?f) = int e" "0 < e" "length (o_slots ob) + e = length xs + k" using False f(3,5) by (auto simp: e_def)
    let ?w = "withCopy v (o_fields ob) (o_slots ob @ replicate e (nilObject v))"
    let ?v' = "?w\<lparr>curFrame := nextPtr v\<rparr>"
    have sz: "length (o_slots ob) + e < 536870912" using e(3) assms(3) by simp
    have run: "makeRoom (int k) v = Inr ((), ?v')"
      using e(1,2) EmergencyFrameFrom_run [OF assms(1) f(1) sz]
      by (simp add: makeRoom_def GetFrame_def SetFrame_def RemainingStackSize_run [OF assms(2)])
    have fo: "frameOf ?v' (nextPtr v) = Some (frameObject (o_fields ob) (o_slots ob @ replicate e (nilObject v)))"
      using frameOf_facts [OF f(1)] sz
      by (simp add: frameOf_def withCopy_heap frameObject_def array_size_ok_def sizeof_pointer_def)
    have "o_fields ob ! 4 < nextPtr v" using f(2) vm_ok_bound [OF assms(1)] by (auto simp: intOf_Some)
    then have "intOf ?v' (o_fields ob ! 4) = intOf v (o_fields ob ! 4)" by (simp add: intOf_def withCopy_heap)
    with f(2) have "intOf ?v' (o_fields (frameObject (o_fields ob) (o_slots ob @ replicate e (nilObject v))) ! 4) = Some (int (length xs) - 1)"
      by (simp add: frameObject_def)
    from stackOfI [OF fo this] f(3,4) e(3) have st: "stackOf ?v' (nextPtr v) = Some xs" "roomOf ?v' (nextPtr v) = k"
      by (simp_all add: frameObject_def)
    have ok: "vm_ok ?v'" using withCopy_le(2) [OF assms(1)] vm_ok_cong [of ?v' ?w] by simp
    have old: "\<forall>p ob. heap v p = Some ob \<longrightarrow> heap ?v' p = Some ob"
      using vm_le_heap [OF withCopy_le(1) [OF assms(1)]] by simp
    have "heap v (nextPtr v) = None" using assms(1) by (simp add: vm_ok_fresh)
    moreover have "\<forall>i<7. getMember [KFrame] i (nextPtr v) ?v' = map_sum id (\<lambda>r. (fst r, ?v')) (getMember [KFrame] i ?f v)"
      using frameOf_member [OF f(1)] frameOf_member [OF fo] by (simp add: frameObject_def)
    ultimately show ?thesis using run st ok old by (intro exI [of _ ?v']) simp
  qed
qed

text \<open>C21. After makeRoom k the current frame has room for k more values, with the stack, arguments,
  method and links it had; no existing object is changed.\<close>

lemma makeRoom_room:
  assumes "vm_ok v" "stackOf v (curFrame v) = Some xs" "length xs + k < 536870912" "length xs + roomOf v (curFrame v) < 536870912"
  shows "\<exists>v'. makeRoom (int k) v = Inr ((), v') \<and> stackOf v' (curFrame v') = Some xs \<and> k \<le> roomOf v' (curFrame v') \<and>
     vm_ok v' \<and> (\<forall>p ob. heap v p = Some ob \<longrightarrow> heap v' p = Some ob) \<and> (curFrame v' = curFrame v \<or> heap v (curFrame v') = None) \<and>
     (\<forall>i<7. getMember [KFrame] i (curFrame v') v' = map_sum id (\<lambda>r. (fst r, v')) (getMember [KFrame] i (curFrame v) v))"
  using makeRoom_run [OF assms] .

lemma makeRoom_room_witness:
  "\<exists>v'. makeRoom 3 vm1 = Inr ((), v') \<and> stackOf v' (curFrame v') = Some [12, NULL, 12] \<and> 3 \<le> roomOf v' (curFrame v') \<and>
     heap vm1 (curFrame v') = None"
proof -
  have st: "stackOf vm1 (curFrame vm1) = Some [12, NULL, 12]" "roomOf vm1 (curFrame vm1) = 1" using vm1_stack by (simp_all add: vm1_ptrs)
  obtain v' where v': "makeRoom (int 3) vm1 = Inr ((), v')" "stackOf v' (curFrame v') = Some [12, NULL, 12]" "3 \<le> roomOf v' (curFrame v')"
    "\<forall>p ob. heap vm1 p = Some ob \<longrightarrow> heap v' p = Some ob" "curFrame v' = curFrame vm1 \<or> heap vm1 (curFrame v') = None"
    using makeRoom_room [OF vm1_ok st(1), of 3] by (auto simp: st(2))
  have "curFrame v' \<noteq> curFrame vm1"
  proof
    assume same: "curFrame v' = curFrame vm1"
    obtain ob where ob: "frameOf vm1 19 = Some ob" "length (o_slots ob) = 4" using vm1_frame by simp
    have "heap v' 19 = heap vm1 19" using v'(4) frameOf_facts(1) [OF ob(1)] by simp
    then have "frameOf v' 19 = frameOf vm1 19" by (rule frameOf_cong)
    moreover have "length (o_slots ob) = 4" by (rule ob(2))
    ultimately show False using v'(2,3) ob(1) by (simp add: same vm1_ptrs roomOf_def stackOf_def split: option.splits if_splits)
  qed
  with v' show ?thesis by auto
qed

end
