(* ===== verification/Paths.thy ===== *)
theory Paths
  imports ObjectLaws
begin

text \<open>
  Paths along a link between objects: contexts of frames, callers, superclasses. A path that
  ends has no node twice, so a loop along it is over after as many rounds as the heap has
  objects.
\<close>

section \<open>Nodes on the way\<close>

text \<open>The nodes from one up to another, that one not included, along a link.\<close>

inductive path :: "('a \<Rightarrow> 'a option) \<Rightarrow> 'a \<Rightarrow> 'a \<Rightarrow> 'a list \<Rightarrow> bool" for nx :: "'a \<Rightarrow> 'a option" where
  path_end: "path nx c c []"
| path_step: "nx f = Some g \<Longrightarrow> f \<noteq> c \<Longrightarrow> path nx g c fs \<Longrightarrow> path nx f c (f # fs)"

inductive_cases path_ConsE: "path nx f c (x # fs)"
inductive_cases path_NilE: "path nx f c []"

lemma path_unique: "path nx f c fs \<Longrightarrow> path nx f c gs \<Longrightarrow> gs = fs"
proof (induction arbitrary: gs rule: path.induct)
  case (path_end c)
  then show ?case by (auto elim: path.cases)
next
  case (path_step f g c fs)
  note IH = path_step
  from path_step(5) show ?case
  proof cases
    case (path_step h hs)
    with IH(1) have "path nx g c hs" by simp
    with IH(4) path_step(1) show ?thesis by simp
  qed (use IH(2) in simp)
qed

lemma path_suffix: "path nx f c fs \<Longrightarrow> x \<in> set fs \<Longrightarrow> \<exists>us vs. fs = us @ vs \<and> path nx x c vs"
proof (induction rule: path.induct)
  case (path_step f g c fs)
  show ?case
  proof (cases "x = f")
    case True
    with path.path_step [OF path_step(1-3)] have "f # fs = [] @ (f # fs) \<and> path nx x c (f # fs)" by simp
    then show ?thesis by blast
  next
    case False
    with path_step obtain us vs where "fs = us @ vs" "path nx x c vs" by auto
    then have "f # fs = (f # us) @ vs \<and> path nx x c vs" by simp
    then show ?thesis by blast
  qed
qed simp

lemma path_distinct: "path nx f c fs \<Longrightarrow> distinct fs \<and> c \<notin> set fs"
proof (induction rule: path.induct)
  case (path_step f g c fs)
  have "f \<notin> set fs"
  proof
    assume "f \<in> set fs"
    then obtain us vs where "fs = us @ vs" "path nx f c vs" using path_suffix [OF path_step(3)] by blast
    with path_unique [OF path.path_step [OF path_step(1-3)]] show False by force
  qed
  with path_step show ?case by simp
qed simp

lemma path_nodes: "path nx f c fs \<Longrightarrow> x \<in> set fs \<Longrightarrow> nx x \<noteq> None"
  by (induction rule: path.induct) auto

lemma path_cong: "path nx f c fs \<Longrightarrow> (\<And>x. x \<in> set fs \<Longrightarrow> ny x = nx x) \<Longrightarrow> path ny f c fs"
  by (induction rule: path.induct) (auto intro: path.intros)

text \<open>Links between objects: a path is not longer than the heap.\<close>

lemma path_bound:
  assumes "path nx f c fs" "vm_ok v" "\<And>x. nx x \<noteq> None \<Longrightarrow> heap v x \<noteq> None"
  shows "length fs \<le> nextPtr v"
proof -
  have "set fs \<subseteq> {..<nextPtr v}"
    using path_nodes [OF assms(1)] assms(3) vm_ok_bound [OF assms(2)] by fastforce
  then have "card (set fs) \<le> nextPtr v" by (metis card_lessThan card_mono finite_lessThan)
  with path_distinct [OF assms(1)] show ?thesis by (simp add: distinct_card)
qed

end
