(* ===== verification/NonLocalReturn.thy ===== *)
theory NonLocalReturn
  imports ArithmeticProperties Paths
begin

text \<open>
  The return from a block to the method that made it: the frames in between are unlinked, the
  method's own frame is left as an ordinary return leaves it, and the result is on its caller's stack.
\<close>

section \<open>Contexts and callers\<close>

definition ctxOf :: "vm \<Rightarrow> ptr \<Rightarrow> ptr option" where
  "ctxOf v f = (case frameOf v f of None \<Rightarrow> None | Some ob \<Rightarrow> if o_fields ob ! 2 \<noteq> nilObject v then Some (o_fields ob ! 2) else None)"

definition prevOf :: "vm \<Rightarrow> ptr \<Rightarrow> ptr option" where
  "prevOf v f = map_option (\<lambda>ob. o_fields ob ! 1) (frameOf v f)"

lemma link_heap: "ctxOf v f \<noteq> None \<Longrightarrow> heap v f \<noteq> None" "prevOf v f \<noteq> None \<Longrightarrow> heap v f \<noteq> None"
  by (auto simp: ctxOf_def prevOf_def frameOf_def split: option.splits)

lemma outerContext_run:
  "path (ctxOf v) f c fs \<Longrightarrow> ctxOf v c = None \<Longrightarrow> frameOf v c \<noteq> None \<Longrightarrow> length fs \<le> n \<Longrightarrow> outerContext n f v = Inr (c, v)"
proof (induction arbitrary: n rule: path.induct)
  case (path_end c)
  then obtain ob where "frameOf v c = Some ob" "o_fields ob ! 2 = nilObject v" by (auto simp: ctxOf_def split: if_splits)
  then show ?case by (cases n) (simp_all add: HasContext_def frameOf_member)
next
  case (path_step f g c fs)
  then obtain k where n: "n = Suc k" "length fs \<le> k" by (cases n) auto
  obtain ob where "frameOf v f = Some ob" "o_fields ob ! 2 \<noteq> nilObject v" "g = o_fields ob ! 2"
    using path_step(1) by (auto simp: ctxOf_def split: option.splits if_splits)
  with path_step n show ?case by (simp add: HasContext_def GetContext_def frameOf_member)
qed

lemma GetOuterContext_run:
  assumes "path (ctxOf v) f c fs" "ctxOf v c = None" "frameOf v c \<noteq> None" "vm_ok v"
  shows "GetOuterContext f v = Inr (c, v)"
  using outerContext_run [OF assms(1-3) path_bound [OF assms(1,4) link_heap(1)]] by (simp add: GetOuterContext_def)

section \<open>Unwinding\<close>

text \<open>The frames that are left: each loses its link to its caller.\<close>

definition left :: "vm \<Rightarrow> ptr \<Rightarrow> ptr set \<Rightarrow> vm" where
  "left v c S = v\<lparr>curFrame := c, heap := (\<lambda>p. if p \<in> S
     then map_option (\<lambda>ob. ob\<lparr>o_fields := (o_fields ob)[1 := nilObject v]\<rparr>) (heap v p) else heap v p)\<rparr>"

lemma unwindTo_run:
  "path (prevOf v) f c fs \<Longrightarrow> curFrame v = f \<Longrightarrow> length fs \<le> n \<Longrightarrow> unwindTo n c v = Inr ((), left v c (set fs))"
proof (induction fs arbitrary: f v n)
  case Nil
  then have "f = c" by (auto elim: path_NilE)
  moreover have "left v c {} = v" if "curFrame v = c" using that by (simp add: left_def)
  ultimately show ?case using Nil(2) by (cases n) (simp_all add: GetFrame_def)
next
  case (Cons x fs)
  note p = Cons(2)
  from Cons(2) obtain g where g: "x = f" "prevOf v f = Some g" "f \<noteq> c" "path (prevOf v) g c fs" by (auto elim: path_ConsE)
  obtain ob where ob: "frameOf v f = Some ob" "g = o_fields ob ! 1" using g(2) by (auto simp: prevOf_def)
  obtain k where n: "n = Suc k" "length fs \<le> k" using Cons(4) by (cases n) auto
  let ?w = "popped v f ob"
  have nf: "f \<notin> set fs" using path_distinct [OF p] g(1) by simp
  have "prevOf ?w y = prevOf v y" if "y \<in> set fs" for y
  proof -
    have "heap ?w y = heap v y" by (rule popped_other(1) [OF ob(1)]) (use nf that in blast)
    from frameOf_cong [OF this] show ?thesis by (simp add: prevOf_def)
  qed
  then have "path (prevOf ?w) g c fs" using path_cong [OF g(4)] by metis
  moreover have "curFrame ?w = g" using ob(2) by (simp add: popped_def)
  ultimately have "unwindTo k c ?w = Inr ((), left ?w c (set fs))" using Cons(1) n(2) by blast
  moreover have "left ?w c (set fs) = left v c (set (x # fs))"
    using nf frameOf_facts(1) [OF ob(1)] g(1) by (auto simp: left_def popped_def fun_eq_iff)
  ultimately show ?case
    using g(3) Cons(3) by (simp add: n(1) GetFrame_def popFrame_run [OF Cons(3) ob(1)])
qed

lemma left_other: "p \<notin> S \<Longrightarrow> heap (left v c S) p = heap v p"
  by (simp add: left_def)

lemma left_int: "intOf (left v c S) p = intOf v p"
  by (cases "heap v p") (simp_all add: intOf_def left_def)

text \<open>A stack operation changes no link.\<close>

lemma frameStep_fields:
  assumes "frameStep f v w"
  shows "map_option o_fields (frameOf w p) = map_option o_fields (frameOf v p)"
proof -
  obtain ob h where h: "frameOf v f = Some ob" "w = v\<lparr>heap := h\<rparr>" "keeps {o_fields ob ! 4} v w"
    "\<forall>p. (h p = None) = (heap v p = None)" using assms unfolding frameStep_def by blast
  show ?thesis
  proof (cases "heap v p")
    case None
    with h(2,4) have "heap w p = None" by simp
    with None show ?thesis by (simp add: frameOf_def)
  next
    case (Some a)
    then obtain b where b: "heap w p = Some b" "keptObject (p \<in> {o_fields ob ! 4} \<and> intOf v p \<noteq> None) a b"
      using h(3) unfolding keeps_def by blast
    then show ?thesis
      using Some by (auto simp: frameOf_def keptObject_def array_size_ok_def split: if_splits)
  qed
qed

lemma frameStep_links:
  assumes "frameStep f v w"
  shows "ctxOf w = ctxOf v" "prevOf w = prevOf v"
proof -
  have nil: "nilObject w = nilObject v" using assms by (auto simp: frameStep_def)
  show "ctxOf w = ctxOf v" "prevOf w = prevOf v"
  proof (rule_tac [!] ext)
    fix p
    have "map_option o_fields (frameOf w p) = map_option o_fields (frameOf v p)" by (rule frameStep_fields [OF assms])
    then show "ctxOf w p = ctxOf v p" "prevOf w p = prevOf v p"
      using nil by (cases "frameOf w p"; cases "frameOf v p"; simp add: ctxOf_def prevOf_def)+
  qed
qed

section \<open>Non-local returns\<close>

text \<open>A block returns from the method it was made in: all frames up to that method's are left, and
  the caller of the method gets the result.\<close>

text \<open>C19. A return out of a block leaves every frame between the block and the caller of the method
  that made it, and leaves the result on the stack of that caller in place of the receiver and
  the arguments of the method, as an ordinary return of the method would.\<close>

lemma non_local_return:
  assumes "vm_ok v" "curFrame v = f" "stackOf v f = Some (res # xs)"
    and "path (ctxOf v) f c cs" "ctxOf v c = None" "frameOf v c = Some co" "o_fields co ! 1 = g" "g \<noteq> nilObject v"
    and "path (prevOf v) f c fs" "g \<notin> set (c # fs)" "methodParts v (o_fields co ! 3) = Some (code, lits, nl, na, int ms)"
    and "stackOf v g = Some (args @ rest)" "length args = na" "0 < roomOf v g + na"
    and "\<And>fo go mo. frameOf v f = Some fo \<Longrightarrow> frameOf v g = Some go \<Longrightarrow> heap v (o_fields co ! 3) = Some mo \<Longrightarrow>
       o_fields fo ! 4 \<noteq> o_fields go ! 4 \<and> o_fields fo ! 4 \<notin> methodInts mo"
  shows "\<exists>v'. doReturnNonLocal ext n v = Inr ((), v') \<and> curFrame v' = g \<and> stackOf v' g = Some (res # rest) \<and>
     roomOf v' g = roomOf v g + na - 1 \<and> (\<forall>p\<in>set (c # fs). prevOf v' p = Some (nilObject v))"
proof -
  obtain v1 where v1: "Pop f v = Inr (res, v1)" "stackOf v1 f = Some xs" "frameStep f v v1"
    using Pop_run [OF assms(3)] by blast
  have nil: "nilObject v1 = nilObject v" and cur: "curFrame v1 = f" and np: "nextPtr v1 = nextPtr v"
    using v1(3) assms(2) by (auto simp: frameStep_def)
  have ok: "vm_ok v1" by (rule frameStep_ok [OF v1(3) assms(1)])
  note ln = frameStep_links [OF v1(3)]
  obtain fo where fo: "frameOf v f = Some fo" using assms(3) by (rule stackOfE)
  obtain c1 where c1: "frameOf v1 c = Some c1" "o_fields c1 = o_fields co"
    using frameStep_fields [OF v1(3), of c] assms(6) by auto
  have outer: "GetOuterContext f v1 = Inr (c, v1)"
    by (rule GetOuterContext_run [OF _ _ _ ok]) (use assms(4,5) c1 ln in simp_all)
  have alive: "HasPreviousFrame c v1 = Inr (True, v1)"
    using c1 assms(7,8) nil by (simp add: HasPreviousFrame_def frameOf_member)
  let ?v2 = "left v1 c (set fs)"
  have p1: "path (prevOf v1) f c fs" using assms(9) ln by simp
  have unwind: "unwindTo (nextPtr v1) c v1 = Inr ((), ?v2)"
    by (rule unwindTo_run [OF p1 cur path_bound [OF p1 ok link_heap(2)]])
  obtain mo where mo: "heap v (o_fields co ! 3) = Some mo" "o_kind mo = KMethod"
    using assms(11) by (auto simp: methodParts_def split: option.splits if_splits)
  have cn: "c \<notin> set fs" using path_distinct [OF assms(9)] by simp
  have c2: "frameOf ?v2 c = Some c1" using frameOf_cong [of ?v2 c v1] left_other [OF cn] c1(1) by simp
  have st2: "stackOf ?v2 g = Some (args @ rest)" "roomOf ?v2 g = roomOf v g"
  proof -
    obtain go where go: "frameOf v g = Some go" "intOf v (o_fields go ! 4) = Some (int (length (args @ rest)) - 1)"
      using assms(12) by (rule stackOfE)
    have gf: "g \<noteq> f" 
    proof (cases fs)
      case Nil
      with assms(9) have "f = c" by (blast elim: path_NilE)
      with assms(10) show ?thesis by simp
    next
      case (Cons x ys)
      with assms(9) have "x = f" by (blast elim: path_ConsE)
      with assms(10) Cons show ?thesis by simp
    qed
    obtain sp where sp: "intOf v (o_fields fo ! 4) = Some sp" using assms(3) fo by (auto elim: stackOfE)
    have gs: "g \<noteq> o_fields fo ! 4"
    proof
      assume "g = o_fields fo ! 4"
      then have "intOf v (o_fields fo ! 4) = None" using intOf_frame [OF go(1)] by simp
      with sp show False by simp
    qed
    have "o_fields go ! 4 \<noteq> f" 
    proof
      assume "o_fields go ! 4 = f"
      with go(2) intOf_frame [OF fo] show False by simp
    qed
    moreover have "o_fields go ! 4 \<noteq> o_fields fo ! 4" using assms(15) [OF fo go(1) mo(1)] by (rule conjunct1 [THEN not_sym])
    ultimately have "heap v1 (o_fields go ! 4) = heap v (o_fields go ! 4)" using frameStep_other [OF v1(3) fo] by simp
    then have 1: "intOf ?v2 (o_fields go ! 4) = intOf v (o_fields go ! 4)" unfolding left_int by (rule intOf_cong)
    have "heap ?v2 g = heap v g" using left_other [of g "set fs" v1 c] frameStep_other [OF v1(3) fo gf gs] assms(10) by simp
    then have 2: "frameOf ?v2 g = Some go" using frameOf_cong [of ?v2 g v] go(1) by simp
    show "stackOf ?v2 g = Some (args @ rest)" "roomOf ?v2 g = roomOf v g"
      using assms(12) go 1 2 by (simp_all add: stackOf_def roomOf_def)
  qed
  have mp2: "methodParts ?v2 (o_fields c1 ! 3) = Some (code, lits, nl, na, int ms)"
  proof -
    obtain go where go: "frameOf v g = Some go" using assms(12) by (rule stackOfE)
    have k: "keeps {o_fields fo ! 4} v v1" using v1(3) fo by (auto simp: frameStep_def)
    have "methodParts v1 (o_fields co ! 3) = Some (code, lits, nl, na, int ms)"
    proof -
      have "methodInts mo \<inter> {o_fields fo ! 4} = {}" using assms(15) [OF fo go mo(1)] by simp
      from keeps_method [OF k mo this assms(11)] show ?thesis by blast
    qed
    moreover have "o_fields co ! 3 \<notin> set fs"
    proof
      assume "o_fields co ! 3 \<in> set fs"
      from path_nodes [OF assms(9) this] show False using mo frameOf_facts(1,2) by (fastforce simp: prevOf_def)
    qed
    then have "heap ?v2 (o_fields co ! 3) = heap v1 (o_fields co ! 3)" by (rule left_other)
    ultimately show ?thesis
      unfolding c1(2) by (simp add: methodParts_def left_int cong: option.case_cong if_cong)
  qed
  obtain v' where v': "popFrameAndPushResult res ?v2 = Inr ((), v')" "stackOf v' g = Some (res # rest)"
     "roomOf v' g = roomOf ?v2 g + na - 1" "frameStep g (popped ?v2 c c1) v'" "curFrame v' = g"
    using popFrameAndPushResult_run [of ?v2 c c1 g code lits nl na ms args rest res] c2 c1(2) assms(7,10,13,14) st2 mp2
    by (auto simp: left_def)
  have "doReturnNonLocal ext n v = Inr ((), v')"
    using v1(1) outer alive unwind v'(1) by (simp add: doReturnNonLocal_def GetFrame_def assms(2) cur)
  moreover have "\<forall>p\<in>set (c # fs). prevOf v' p = Some (nilObject v)"
  proof
    fix p assume p: "p \<in> set (c # fs)"
    let ?w = "popped ?v2 c c1"
    have upd: "frameOf w p = Some (ob\<lparr>o_fields := (o_fields ob)[1 := y]\<rparr>)" if "frameOf u p = Some ob"
      "heap w p = Some (ob\<lparr>o_fields := (o_fields ob)[1 := y]\<rparr>)" for u w ob y
      using frameOf_facts [OF that(1)] that(2) by (simp add: frameOf_def array_size_ok_def)
    have "prevOf ?w p = Some (nilObject v)"
    proof (cases "p = c")
      case True
      have "heap ?w c = Some (c1\<lparr>o_fields := (o_fields c1)[1 := nilObject v]\<rparr>)" by (simp add: popped_def left_def nil)
      from upd [of ?v2, unfolded True, OF c2 this] True frameOf_facts(5) [OF c2] show ?thesis by (simp add: prevOf_def)
    next
      case False
      then have pf: "p \<in> set fs" using p by simp
      obtain ob where ob: "frameOf v1 p = Some ob" using path_nodes [OF p1 pf] by (auto simp: prevOf_def)
      have "heap ?w p = Some (ob\<lparr>o_fields := (o_fields ob)[1 := nilObject v]\<rparr>)"
        using popped_other(1) [OF c2 False] pf frameOf_facts(1) [OF ob] by (simp add: left_def nil)
      from upd [OF ob this] frameOf_facts(5) [OF ob] show ?thesis by (simp add: prevOf_def)
    qed
    then show "prevOf v' p = Some (nilObject v)" using frameStep_links(2) [OF v'(4)] by simp
  qed
  ultimately show ?thesis using v' st2 by (intro exI [of _ v']) simp
qed

text \<open>A machine in which frame 28 runs a block of the method of frame 24, called from frame 19.\<close>

definition sampleFrame :: "ptr list \<Rightarrow> ptr list \<Rightarrow> vmobject" where
  "sampleFrame fs sl = \<lparr>o_kind = KFrame, o_size = 72 + 4 * int (length sl), o_fields = fs, o_slots = sl, o_data = NoData\<rparr>"

definition vm4 :: vm where
  "vm4 = vm1\<lparr>heap := (heap vm1)(24 \<mapsto> sampleFrame [2, 19, NULL, 6, 25, 26, 27] [12, NULL], 25 \<mapsto> sampleInt 0,
     26 \<mapsto> sampleInt 0, 27 \<mapsto> sampleInt 1, 28 \<mapsto> sampleFrame [2, 24, 24, 6, 29, 30, 31] [12, 7],
     29 \<mapsto> sampleInt 1, 30 \<mapsto> sampleInt 0, 31 \<mapsto> sampleInt 1), nextPtr := 32, curFrame := 28\<rparr>"

lemma vm4_old: "p < 24 \<Longrightarrow> heap vm4 p = heap vm1 p"
  by (simp add: vm4_def)

lemma vm4_ok: "vm_ok vm4"
proof -
  let ?w = "vm1\<lparr>heap := heap vm4, nextPtr := 32, rootTable := rootTable vm1\<rparr>"
  have "vm_ok ?w"
    by (rule vm_le_alloc(2) [OF vm1_ok _ _ refl]) (use vm1_ok in \<open>simp_all add: vm4_old vm1_ptrs vm4_def vm_ok_fresh\<close>)
  then show ?thesis using vm_ok_cong [of vm4 ?w] by (simp add: vm4_def)
qed

lemma vm4_frames:
  "frameOf vm4 24 = Some (sampleFrame [2, 19, NULL, 6, 25, 26, 27] [12, NULL])"
  "frameOf vm4 28 = Some (sampleFrame [2, 24, 24, 6, 29, 30, 31] [12, 7])"
  "frameOf vm4 19 = frameOf vm1 19" "intOf vm4 29 = Some 1" "intOf vm4 20 = intOf vm1 20"
  using frameOf_cong [OF vm4_old, of 19] intOf_cong [OF vm4_old, of 20]
  by (simp_all add: frameOf_def vm4_def sampleFrame_def array_size_ok_def sizeof_VMObject_def sizeof_pointer_def intOf_def sampleInt_def)

lemma non_local_return_witness:
  "\<exists>v'. doReturnNonLocal sampleExt 0 vm4 = Inr ((), v') \<and> curFrame v' = 19 \<and> stackOf v' 19 = Some [7, NULL, 12]"
proof -
  have ptrs: "nilObject vm4 = NULL" "curFrame vm4 = 28" by (simp_all add: vm4_def vm1_ptrs)
  have st: "stackOf vm4 28 = Some (7 # [12])" "stackOf vm4 19 = Some ([12] @ [NULL, 12])" "roomOf vm4 19 = 1"
    using vm1_stack vm1_frame by (simp_all add: stackOf_def roomOf_def vm4_frames sampleFrame_def)
  have ctx: "ctxOf vm4 28 = Some 24" "ctxOf vm4 24 = None" "prevOf vm4 28 = Some 24"
    by (simp_all add: ctxOf_def prevOf_def vm4_frames sampleFrame_def ptrs NULL_def)
  have paths: "path (ctxOf vm4) 28 24 [28]" "path (prevOf vm4) 28 24 [28]"
    by (rule path_step, rule ctx, simp, rule path_end)+
  have six: "heap vm4 6 = Some (sampleMethod 7 [3, 0, 0, 14] [])" using vm4_old [of 6] vm1_heap by simp
  have mp: "methodParts vm4 6 = Some ([3, 0, 0, 14], [], 0, 1, int 1)"
  proof -
    have "intOf vm4 p = intOf vm1 p" if "p \<in> {7, 10, 8, 9, 11}" for p using that intOf_cong [OF vm4_old] by auto
    then show ?thesis using vm1_parts(2) six vm1_heap(6) by (simp add: methodParts_def sampleMethod_def)
  qed
  have apart: "o_fields fo ! 4 \<noteq> o_fields go ! 4 \<and> o_fields fo ! 4 \<notin> methodInts mo"
    if "frameOf vm4 28 = Some fo" "frameOf vm4 19 = Some go" "heap vm4 6 = Some mo" for fo go mo
    using that by (auto simp: vm4_frames vm1_frame six sampleFrame_def sampleMethod_def methodInts_def)
  note run = non_local_return [OF vm4_ok ptrs(2) st(1) paths(1) ctx(2) vm4_frames(1) _ _ paths(2) _ _ st(2), where na = 1 and ms = 1 and ext = sampleExt and n = 0]
  have "\<exists>v'. doReturnNonLocal sampleExt 0 vm4 = Inr ((), v') \<and> curFrame v' = 19 \<and> stackOf v' 19 = Some (7 # [NULL, 12]) \<and>
     roomOf v' 19 = roomOf vm4 19 + 1 - 1 \<and> (\<forall>p\<in>set (24 # [28]). prevOf v' p = Some (nilObject vm4))"
    by (rule run) (use mp apart in \<open>simp_all add: sampleFrame_def ptrs NULL_def st(3)\<close>)
  then show ?thesis by auto
qed

end
