(* ===== verification/Disassembler.thy ===== *)
theory Disassembler
  imports Interpreter
begin

text \<open>
  \<^verbatim>\<open>src/compiler/Disassembler.cpp\<close>: the dumps of classes and methods (\<^verbatim>\<open>-d\<close>) and the trace
  of the running interpreter (\<^verbatim>\<open>-d -d\<close>), with the part of the fetch loop that writes it. What
  is written to \<^verbatim>\<open>stderr\<close> is collected in \<open>d_err\<close>; \<open>d_indentc\<close> and \<open>d_ikind\<close> are the
  static variables of \<^verbatim>\<open>DumpBytecode\<close>. The conversions \<^verbatim>\<open>%p\<close> and \<^verbatim>\<open>%g\<close>, whose results
  depend on the C library, are the parameter \<open>fmt\<close>. The listing under \<^verbatim>\<open>_DEBUG\<close> is left out.

  A method is dumped with the methods of its blocks; the first parameter of \<open>DumpMethod\<close>
  bounds the depth of this recursion.
\<close>

record formats =
  showPointer :: "ptr \<Rightarrow> string"
  showDouble :: "64 word \<Rightarrow> string"

record dump =
  d_vm :: vm
  d_err :: string
  d_indentc :: int
  d_ikind :: char

type_synonym 'a dumpM = "(dump, 'a) se"

named_theorems dump_defs \<open>definitions of the disassembler\<close>

section \<open>Formatted output\<close>

definition onVM :: "'a vmM \<Rightarrow> 'a dumpM" where
  [dump_defs]: "onVM m = liftE d_vm (\<lambda>v d. d\<lparr>d_vm := v\<rparr>) m"

definition padLeft :: "nat \<Rightarrow> string \<Rightarrow> string" where
  [dump_defs]: "padLeft n s = replicate (n - length s) CHR '' '' @ s"

definition padRight :: "nat \<Rightarrow> string \<Rightarrow> string" where
  [dump_defs]: "padRight n s = s @ replicate (n - length s) CHR '' ''"

text \<open>\<^verbatim>\<open>%04d\<close> and \<^verbatim>\<open>% 10lld\<close>.\<close>

definition zeroPad4 :: "int \<Rightarrow> string" where
  [dump_defs]: "zeroPad4 i =
     (let s = show_nat (nat \<bar>i\<bar>) in
      if i < 0 then CHR ''-'' # replicate (3 - length s) CHR ''0'' @ s
      else replicate (4 - length s) CHR ''0'' @ s)"

definition spaced10 :: "int \<Rightarrow> string" where
  [dump_defs]: "spaced10 i = padLeft 10 (if i < 0 then show_int i else CHR '' '' # show_int i)"

definition showByte :: "u8 \<Rightarrow> string" where
  [dump_defs]: "showByte b = show_int (int (unat b))"

definition tab :: string where
  [dump_defs]: "tab = [CHR 0x09]"

definition quote :: string where
  [dump_defs]: "quote = [CHR 0x22]"

definition DebugPrint :: "string list \<Rightarrow> unit dumpM" where
  [dump_defs]: "DebugPrint ss = modifyE (\<lambda>d. d\<lparr>d_err := d_err d @ concat ss\<rparr>)"

definition DebugPrefix :: "string \<Rightarrow> unit dumpM" where
  [dump_defs]: "DebugPrefix pfx = DebugPrint [padRight 6 pfx, '' '']"

definition DebugDump :: "string list \<Rightarrow> unit dumpM" where
  [dump_defs]: "DebugDump ss = thenE (DebugPrefix ''DUMP:'') (DebugPrint ss)"

definition DebugTrace :: "string list \<Rightarrow> unit dumpM" where
  [dump_defs]: "DebugTrace ss = thenE (DebugPrefix ''TRACE:'') (DebugPrint ss)"

section \<open>Objects\<close>

text \<open>What \<^verbatim>\<open>dispatch\<close> finds out about an object, and what it writes.\<close>

definition dispatchText :: "formats \<Rightarrow> ptr \<Rightarrow> string vmM" where
  [dump_defs]: "dispatchText fmt obj =
     (if obj = NULL then returnE []
      else bindE (getsE id) (\<lambda>v.
        if obj = nilObject v then returnE ''{Nil}''
        else if obj = trueObject v then returnE ''{True}''
        else if obj = falseObject v then returnE ''{False}''
        else if obj = systemClass v then returnE ''{System Class object}''
        else if obj = blockClass v then returnE ''{Block Class object}''
        else bindE (bindE (SymbolFor ''system'') GetGlobal) (\<lambda>system.
          if obj = system then returnE ''{System}''
          else bindE (GetClass obj) (\<lambda>c.
            if c = stringClass v then bindE (GetStdString obj) (\<lambda>s. returnE (quote @ s @ quote))
            else if c = doubleClass v then bindE (GetEmbeddedDouble obj) (\<lambda>x. returnE (showDouble fmt x))
            else if c = bigIntegerClass v then bindE (GetEmbeddedBigInteger obj) (\<lambda>i. returnE (show_int i))
            else if c = integerClass v then bindE (GetEmbeddedInteger obj) (\<lambda>i. returnE (show_int i))
            else if c = symbolClass v then bindE (GetStdString obj) (\<lambda>s. returnE (CHR ''#'' # s))
            else returnE (''address: '' @ showPointer fmt obj)))))"

definition dispatch :: "formats \<Rightarrow> ptr \<Rightarrow> unit dumpM" where
  [dump_defs]: "dispatch fmt obj = bindE (onVM (dispatchText fmt obj)) (\<lambda>s. DebugPrint [s])"

text \<open>\<^verbatim>\<open>o->GetClass()->GetName()->GetChars()\<close>, the characters of a constant that is used as a
  symbol, and \<^verbatim>\<open>dynamic_cast<pVMSymbol>\<close>.\<close>

definition className :: "ptr \<Rightarrow> string vmM" where
  [dump_defs]: "className obj = bindE (GetClass obj) (\<lambda>c. bindE (GetName c) GetStdString)"

definition symbolAt :: "ptr \<Rightarrow> int \<Rightarrow> string vmM" where
  [dump_defs]: "symbolAt meth bc_idx = bindE (GetConstant meth bc_idx) GetStdString"

definition dynamic_cast_VMSymbol :: "ptr \<Rightarrow> ptr vmM" where
  [dump_defs]: "dynamic_cast_VMSymbol p =
     (if p = NULL then returnE NULL
      else bindE (deref p) (\<lambda>ob. returnE (if o_kind ob = KSymbol then p else NULL)))"

section \<open>Methods and classes\<close>

text \<open>The line of one instruction, from the index to the end; \<open>dm\<close> dumps the method of a block.\<close>

definition dumpNamed :: "string \<Rightarrow> ptr \<Rightarrow> int \<Rightarrow> unit dumpM" where
  [dump_defs]: "dumpNamed what meth bc_idx =
     bindE (onVM (GetConstant meth bc_idx)) (\<lambda>cst.
       if cst \<noteq> NULL then
         bindE (onVM (dynamic_cast_VMSymbol cst)) (\<lambda>name.
           if name \<noteq> NULL then
             bindE (onVM (GetBytecode meth (bc_idx + 1))) (\<lambda>b1.
             bindE (onVM (GetStdString name)) (\<lambda>s.
               DebugPrint [''(index: '', showByte b1, '') '', what, '': '', s, newline]))
           else returnE ())
       else bindE (onVM (GetBytecode meth (bc_idx + 1))) (\<lambda>b1.
         DebugPrint [''(index: '', showByte b1, '') '', what, '': !NULL!: error!'', newline]))"

definition dumpTwo :: "string \<Rightarrow> string \<Rightarrow> ptr \<Rightarrow> int \<Rightarrow> unit dumpM" where
  [dump_defs]: "dumpTwo what ctxt meth bc_idx =
     bindE (onVM (GetBytecode meth (bc_idx + 1))) (\<lambda>b1.
     bindE (onVM (GetBytecode meth (bc_idx + 2))) (\<lambda>b2.
       DebugPrint [what, '': '', showByte b1, '', '', ctxt, showByte b2, newline]))"

definition dumpSymbol :: "string \<Rightarrow> ptr \<Rightarrow> int \<Rightarrow> unit dumpM" where
  [dump_defs]: "dumpSymbol what meth bc_idx =
     bindE (onVM (symbolAt meth bc_idx)) (\<lambda>s.
     bindE (onVM (GetBytecode meth (bc_idx + 1))) (\<lambda>b1.
       DebugPrint [''(index: '', showByte b1, '') '', what, '': '', s, newline]))"

definition dumpOperands ::
  "formats \<Rightarrow> (ptr \<Rightarrow> string \<Rightarrow> unit dumpM) \<Rightarrow> ptr \<Rightarrow> string \<Rightarrow> int \<Rightarrow> u8 \<Rightarrow> unit dumpM" where
  [dump_defs]: "dumpOperands fmt dm meth indent bc_idx bytecode =
     (case opcode_of bytecode of
        Some BC_PUSH_LOCAL \<Rightarrow> dumpTwo ''local'' ''context: '' meth bc_idx
      | Some BC_PUSH_ARGUMENT \<Rightarrow> dumpTwo ''argument'' ''context '' meth bc_idx
      | Some BC_PUSH_FIELD \<Rightarrow> dumpNamed ''field'' meth bc_idx
      | Some BC_PUSH_BLOCK \<Rightarrow>
          bindE (onVM (GetBytecode meth (bc_idx + 1))) (\<lambda>b1.
          thenE (DebugPrint [''block: (index: '', showByte b1, '') ''])
         (bindE (onVM (GetConstant meth bc_idx)) (\<lambda>blk. dm blk (indent @ tab))))
      | Some BC_PUSH_CONSTANT \<Rightarrow>
          bindE (onVM (GetConstant meth bc_idx)) (\<lambda>constant.
          bindE (onVM (className constant)) (\<lambda>cname.
          bindE (onVM (GetBytecode meth (bc_idx + 1))) (\<lambda>b1.
          thenE (DebugPrint [''(index: '', showByte b1, '') value: ('', cname, '') ''])
         (thenE (dispatch fmt constant) (DebugPrint [newline])))))
      | Some BC_PUSH_GLOBAL \<Rightarrow> dumpNamed ''value'' meth bc_idx
      | Some BC_POP_LOCAL \<Rightarrow> dumpTwo ''local'' ''context: '' meth bc_idx
      | Some BC_POP_ARGUMENT \<Rightarrow> dumpTwo ''argument'' ''context: '' meth bc_idx
      | Some BC_POP_FIELD \<Rightarrow> dumpSymbol ''field'' meth bc_idx
      | Some BC_SEND \<Rightarrow> dumpSymbol ''signature'' meth bc_idx
      | Some BC_SUPER_SEND \<Rightarrow> dumpSymbol ''signature'' meth bc_idx
      | _ \<Rightarrow> DebugPrint [''<incorrect bytecode>'', newline])"

definition dumpLine ::
  "formats \<Rightarrow> (ptr \<Rightarrow> string \<Rightarrow> unit dumpM) \<Rightarrow> ptr \<Rightarrow> string \<Rightarrow> int \<Rightarrow> unit dumpM" where
  [dump_defs]: "dumpLine fmt dm meth indent bc_idx =
     bindE (onVM (GetBytecode meth bc_idx)) (\<lambda>bytecode.
     bindE (onVM (GetBytecodeName bytecode)) (\<lambda>name.
     thenE (DebugDump [indent, padLeft 4 (show_int bc_idx), '':'', name, ''  ''])
    (bindE (onVM (GetBytecodeLength bytecode)) (\<lambda>len.
       if len = 1 then DebugPrint [newline]
       else dumpOperands fmt dm meth indent bc_idx bytecode))))"

text \<open>The loop over the code, with a bound for its rounds.\<close>

primrec dumpLoop :: "nat \<Rightarrow> (int \<Rightarrow> unit dumpM) \<Rightarrow> ptr \<Rightarrow> int \<Rightarrow> unit dumpM" where
  "dumpLoop 0 line meth bc_idx =
     bindE (onVM (GetNumberOfBytecodes meth)) (\<lambda>n.
       if bc_idx < n then throwE OutOfFuel else returnE ())"
| "dumpLoop (Suc k) line meth bc_idx =
     bindE (onVM (GetNumberOfBytecodes meth)) (\<lambda>n.
       if bc_idx < n then
         thenE (line bc_idx)
        (bindE (onVM (GetBytecode meth bc_idx)) (\<lambda>bc.
         bindE (onVM (GetBytecodeLength bc)) (\<lambda>len.
           dumpLoop k line meth (bc_idx + int len))))
       else returnE ())"

primrec DumpMethod :: "nat \<Rightarrow> formats \<Rightarrow> ptr \<Rightarrow> string \<Rightarrow> unit dumpM" where
  "DumpMethod 0 fmt meth indent = throwE OutOfFuel"
| "DumpMethod (Suc n) fmt meth indent =
     thenE (DebugPrint [''('', newline])
    (bindE (onVM (GetNumberOfLocals meth)) (\<lambda>locals.
     bindE (onVM (GetMaximumNumberOfStackElements meth)) (\<lambda>max_stack.
     bindE (onVM (GetNumberOfBytecodes meth)) (\<lambda>count.
     thenE (DebugDump [indent, ''<'', show_int locals, '' locals, '', show_int max_stack, '' stack, '',
              show_int count, '' bc_count>'', newline])
    (thenE (dumpLoop (nat count) (dumpLine fmt (DumpMethod n fmt) meth indent) meth 0)
       (DebugDump [indent, '')'', newline]))))))"

definition dumpInvokable :: "nat \<Rightarrow> formats \<Rightarrow> ptr \<Rightarrow> int \<Rightarrow> unit dumpM" where
  [dump_defs]: "dumpInvokable n fmt cl i =
     bindE (onVM (GetInstanceInvokable cl i)) (\<lambda>inv.
     bindE (onVM (GetSignature inv)) (\<lambda>sig.
     bindE (onVM (GetName cl)) (\<lambda>cname.
     bindE (onVM (GetStdString cname)) (\<lambda>c.
     bindE (onVM (GetStdString sig)) (\<lambda>s.
     thenE (DebugDump [c, ''>>'', s, '' = ''])
    (bindE (onVM (IsPrimitive inv)) (\<lambda>p.
       if p then DebugPrint [''<primitive>'', newline]
       else DumpMethod n fmt inv tab)))))))"

definition Dump :: "formats \<Rightarrow> ptr \<Rightarrow> unit dumpM" where
  [dump_defs]: "Dump fmt cl =
     bindE (onVM (getsE nextPtr)) (\<lambda>n.
     bindE (onVM (GetNumberOfInstanceInvokables cl)) (\<lambda>k.
       forE [0..<nat k] (\<lambda>i. dumpInvokable n fmt cl (int i))))"

section \<open>The trace of a run\<close>

definition traceHeader :: "ptr \<Rightarrow> int \<Rightarrow> ptr dumpM" where
  [dump_defs]: "traceHeader meth bc_idx =
     bindE (onVM (GetBytecode meth bc_idx)) (\<lambda>bc.
     bindE (onVM (bindE (GetHolder meth) dynamic_cast_VMClass)) (\<lambda>cl.
     bindE (getsE (\<lambda>d. (d_indentc d, d_ikind d))) (\<lambda>(indentc, ikind).
     bindE (if cl \<noteq> NULL then
              bindE (onVM (GetName cl)) (\<lambda>cname.
              bindE (onVM (GetSignature meth)) (\<lambda>sig.
              bindE (onVM (GetStdString cname)) (\<lambda>c.
              bindE (onVM (GetStdString sig)) (\<lambda>s. returnE (padLeft 20 c @ ''>>'' @ padRight 20 s)))))
            else bindE (onVM (GetSignature meth)) (\<lambda>sig.
              bindE (onVM (GetStdString sig)) (\<lambda>s. returnE (padRight 42 s)))) (\<lambda>who.
     bindE (onVM (GetBytecodeName bc)) (\<lambda>name.
     thenE (DebugTrace [who, spaced10 indentc, '' '', [ikind], '' '', zeroPad4 bc_idx, '': '', name, tab])
    (thenE (whenE (ikind \<noteq> CHR ''@'') (modifyE (\<lambda>d. d\<lparr>d_ikind := CHR ''@''\<rparr>)))
       (returnE cl)))))))"

definition traceValue :: "formats \<Rightarrow> ptr \<Rightarrow> string list \<Rightarrow> string list \<Rightarrow> unit dumpM" where
  [dump_defs]: "traceValue fmt obj before after =
     bindE (onVM (className obj)) (\<lambda>cname.
     thenE (DebugPrint (before @ [cname, '') '']))
    (thenE (dispatch fmt obj) (DebugPrint after)))"

definition topOfStack :: "ptr \<Rightarrow> ptr vmM" where
  [dump_defs]: "topOfStack frame = bindE (bindE (GetStackPointer frame) GetEmbeddedInteger) (ArrayGet frame)"

text \<open>\<^verbatim>\<open>SEND\<close> and \<^verbatim>\<open>SUPER_SEND\<close>: primitives do not increase the depth.\<close>

definition traceSend :: "ptr \<Rightarrow> int \<Rightarrow> unit dumpM" where
  [dump_defs]: "traceSend meth bc_idx =
     bindE (onVM (GetConstant meth bc_idx)) (\<lambda>sel.
     bindE (onVM (GetBytecode meth (bc_idx + 1))) (\<lambda>b1.
     bindE (onVM (GetStdString sel)) (\<lambda>s.
     thenE (DebugPrint [''(index: '', showByte b1, '') signature: '', s, '' (''])
    (bindE (onVM (bindE GetFrame (\<lambda>f. GetStackElement f (int (GetNumberOfArguments s) - 1)))) (\<lambda>elem.
     bindE (onVM (bindE (GetClass elem) (\<lambda>c. bindE (LookupInvokable c sel) dynamic_cast_VMInvokable))) (\<lambda>inv.
     bindE (if inv \<noteq> NULL then onVM (IsPrimitive inv) else returnE False) (\<lambda>prim.
       if prim then DebugPrint [''*)'', newline]
       else thenE (DebugPrint [newline])
         (modifyE (\<lambda>d. d\<lparr>d_indentc := d_indentc d + 1, d_ikind := CHR ''>''\<rparr>)))))))))"

definition traceOperands :: "formats \<Rightarrow> ptr \<Rightarrow> ptr \<Rightarrow> int \<Rightarrow> ptr \<Rightarrow> bytecode \<Rightarrow> unit dumpM" where
  [dump_defs]: "traceOperands fmt frame meth bc_idx cl bc =
    (let BC_1 = onVM (GetBytecode meth (bc_idx + 1)); BC_2 = onVM (GetBytecode meth (bc_idx + 2)) in
     case bc of
       BC_HALT \<Rightarrow> DebugPrint [''<halting>'', newline, newline, newline]
     | BC_DUP \<Rightarrow>
         bindE (onVM (GetStackElement frame 0)) (\<lambda>obj.
         thenE (if obj \<noteq> NULL then traceValue fmt obj [''<to dup: (''] []
                else DebugPrint [''<to dup: address: '', showPointer fmt obj])
           (DebugPrint [''>'', newline]))
     | BC_PUSH_LOCAL \<Rightarrow>
         bindE BC_1 (\<lambda>b1. bindE BC_2 (\<lambda>b2.
         bindE (onVM (GetLocal frame (unat b1) (unat b2))) (\<lambda>obj.
           traceValue fmt obj [''local: '', showByte b1, '', context: '', showByte b2, '' <(''] [''>'', newline])))
     | BC_PUSH_ARGUMENT \<Rightarrow>
         bindE BC_1 (\<lambda>b1. bindE BC_2 (\<lambda>b2.
         bindE (onVM (GetArgument frame (unat b1) (unat b2))) (\<lambda>obj.
         thenE (DebugPrint [''argument: '', showByte b1, '', context: '', showByte b2])
        (thenE (whenE (cl \<noteq> NULL) (traceValue fmt obj [''<(''] [''>'']))
           (DebugPrint [newline])))))
     | BC_PUSH_FIELD \<Rightarrow>
         bindE (onVM (GetOuterContext frame)) (\<lambda>ctxt.
         bindE (onVM (GetArgument ctxt 0 0)) (\<lambda>arg.
         bindE (onVM (GetConstant meth bc_idx)) (\<lambda>name.
         bindE (onVM (GetFieldIndex arg name)) (\<lambda>field_index.
         bindE (onVM (GetField arg field_index)) (\<lambda>obj.
         bindE BC_1 (\<lambda>b1. bindE (onVM (GetStdString name)) (\<lambda>s.
           traceValue fmt obj [''(index: '', showByte b1, '') field: '', s, '' <(''] [''>'', newline])))))))
     | BC_PUSH_BLOCK \<Rightarrow>
         bindE BC_1 (\<lambda>b1.
         thenE (DebugPrint [''block: (index: '', showByte b1, '') ''])
        (bindE (onVM (GetConstant meth bc_idx)) (\<lambda>m.
         bindE (onVM (getsE nextPtr)) (\<lambda>n. DumpMethod n fmt m ''$''))))
     | BC_PUSH_CONSTANT \<Rightarrow>
         bindE (onVM (GetConstant meth bc_idx)) (\<lambda>constant. bindE BC_1 (\<lambda>b1.
           traceValue fmt constant [''(index: '', showByte b1, '') value: (''] [newline]))
     | BC_PUSH_GLOBAL \<Rightarrow>
         bindE (onVM (GetConstant meth bc_idx)) (\<lambda>name.
         bindE (onVM (GetGlobal name)) (\<lambda>obj.
         bindE (if obj \<noteq> NULL then onVM (className obj) else returnE ''NULL'') (\<lambda>c.
         bindE BC_1 (\<lambda>b1. bindE (onVM (GetStdString name)) (\<lambda>s.
         thenE (DebugPrint [''(index: '', showByte b1, '')value: '', s, '' <('', c, '') ''])
        (thenE (dispatch fmt obj) (DebugPrint [''>'', newline])))))))
     | BC_POP \<Rightarrow>
         bindE (onVM (topOfStack frame)) (\<lambda>obj. traceValue fmt obj [''popped <(''] [''>'', newline])
     | BC_POP_LOCAL \<Rightarrow>
         bindE (onVM (topOfStack frame)) (\<lambda>obj. bindE BC_1 (\<lambda>b1. bindE BC_2 (\<lambda>b2.
           traceValue fmt obj [''popped local: '', showByte b1, '', context: '', showByte b2, '' <(''] [''>'', newline])))
     | BC_POP_ARGUMENT \<Rightarrow>
         bindE (onVM (topOfStack frame)) (\<lambda>obj. bindE BC_1 (\<lambda>b1. bindE BC_2 (\<lambda>b2.
           traceValue fmt obj [''argument: '', showByte b1, '', context: '', showByte b2, '' <(''] [''>'', newline])))
     | BC_POP_FIELD \<Rightarrow>
         bindE (onVM (topOfStack frame)) (\<lambda>obj.
         bindE (onVM (GetConstant meth bc_idx)) (\<lambda>name. bindE BC_1 (\<lambda>b1. bindE (onVM (GetStdString name)) (\<lambda>s.
           traceValue fmt obj [''(index: '', showByte b1, '') field: '', s, '' <(''] [''>'', newline]))))
     | BC_RETURN_LOCAL \<Rightarrow>
         thenE (DebugPrint ['')'', newline])
           (modifyE (\<lambda>d. d\<lparr>d_indentc := d_indentc d - 1, d_ikind := CHR ''<''\<rparr>))
     | BC_RETURN_NON_LOCAL \<Rightarrow>
         thenE (DebugPrint ['')'', newline])
           (modifyE (\<lambda>d. d\<lparr>d_indentc := d_indentc d - 1, d_ikind := CHR ''<''\<rparr>))
     | _ \<Rightarrow> traceSend meth bc_idx)"

definition DumpBytecode :: "formats \<Rightarrow> ptr \<Rightarrow> ptr \<Rightarrow> int \<Rightarrow> unit dumpM" where
  [dump_defs]: "DumpBytecode fmt frame meth bc_idx =
     bindE (onVM (GetBytecode meth bc_idx)) (\<lambda>b.
     bindE (traceHeader meth bc_idx) (\<lambda>cl.
       case opcode_of b of
         Some bc \<Rightarrow> traceOperands fmt frame meth bc_idx cl bc
       | None \<Rightarrow> DebugPrint [''<incorrect bytecode>'', newline]))"

text \<open>One round of the fetch loop with \<^verbatim>\<open>dumpBytecodes > 1\<close>.\<close>

definition tracedStep :: "formats \<Rightarrow> external \<Rightarrow> nat \<Rightarrow> bool dumpM" where
  [dump_defs]: "tracedStep fmt ext n =
     bindE (onVM GetFrame) (\<lambda>f.
     bindE (onVM (GetBytecodeIndex f)) (\<lambda>bytecodeIndex.
     bindE (onVM GetMethod) (\<lambda>meth.
     bindE (onVM (GetBytecode meth bytecodeIndex)) (\<lambda>bc.
     bindE (onVM (GetBytecodeLength bc)) (\<lambda>bytecodeLength.
     thenE (DumpBytecode fmt f meth bytecodeIndex)
    (thenE (onVM (SetBytecodeIndex f (bytecodeIndex + int bytecodeLength)))
       (onVM (execute ext n bc bytecodeIndex))))))))"

primrec tracedStart :: "formats \<Rightarrow> external \<Rightarrow> nat \<Rightarrow> nat \<Rightarrow> unit dumpM" where
  "tracedStart fmt ext n 0 = throwE OutOfFuel"
| "tracedStart fmt ext n (Suc k) =
     bindE (tracedStep fmt ext n) (\<lambda>go. if go then tracedStart fmt ext n k else returnE ())"

end
