(* ===== verification/DisassemblerProperties.thy ===== *)
theory DisassemblerProperties
  imports Disassembler TypingProperties
begin

text \<open>
  What the disassembler does to the machine: nothing, but for the symbol \<^verbatim>\<open>system\<close>, which
  \<^verbatim>\<open>dispatch\<close> asks for and so interns when it is not in the symbol table yet. An operation of the
  virtual machine is \<open>reading\<close> when it changes no more than that, and an operation of the
  disassembler is \<open>watching\<close> when it does no more to its part of the machine.
\<close>

section \<open>Operations that only read\<close>

text \<open>The machine is left as it was, or has the symbol \<^verbatim>\<open>system\<close> besides.\<close>

definition atMostSystem :: "vm \<Rightarrow> vm \<Rightarrow> bool" where
  "atMostSystem v v' \<longleftrightarrow> v' = v \<or> symtab v ''system'' = NULL \<and> (\<exists>p. SymbolFor ''system'' v = Inr (p, v'))"

lemma atMostSystem_same: "atMostSystem v v' \<Longrightarrow> symtab v ''system'' \<noteq> NULL \<Longrightarrow> v' = v"
  by (simp add: atMostSystem_def)

lemma atMostSystem_ok:
  assumes "atMostSystem v v'" "vm_ok v"
  shows "vm_ok v'"
  using assms SymbolFor_run [OF assms(2), of "''system''"] by (auto simp: atMostSystem_def)

lemma atMostSystem_trans:
  assumes "atMostSystem u v" "atMostSystem v w" "vm_ok u"
  shows "atMostSystem u w"
proof (cases "v = u")
  case False
  then obtain p where p: "symtab u ''system'' = NULL" "SymbolFor ''system'' u = Inr (p, v)"
    using assms(1) by (auto simp: atMostSystem_def)
  have "cstr ''system'' = ''system''" by (simp add: cstr_def)
  with p(2) SymbolFor_run [OF assms(3), of "''system''"] have "symtab v ''system'' \<noteq> NULL" by auto
  with assms(2) have "w = v" by (rule atMostSystem_same)
  with assms(1) show ?thesis by simp
qed (use assms(2) in simp)

definition reading :: "'a vmM \<Rightarrow> bool" where
  "reading m \<longleftrightarrow> (\<forall>v x v'. vm_ok v \<longrightarrow> m v = Inr (x, v') \<longrightarrow> atMostSystem v v')"

named_theorems reading_intro \<open>operations that only read\<close>

lemma readingD: "reading m \<Longrightarrow> vm_ok v \<Longrightarrow> m v = Inr (x, v') \<Longrightarrow> atMostSystem v v'"
  by (simp add: reading_def)

lemma reading_base [reading_intro]:
  "reading (returnE x)" "reading (throwE e)" "reading (getsE f)" "reading (deref p)" "reading GetFrame"
  by (auto simp: reading_def deref_def GetFrame_def atMostSystem_def split: option.splits)

lemma reading_bind [reading_intro]: "reading m \<Longrightarrow> (\<And>x. reading (f x)) \<Longrightarrow> reading (bindE m f)"
  unfolding reading_def
proof (intro allI impI)
  fix v y w
  assume m: "\<forall>v x v'. vm_ok v \<longrightarrow> m v = Inr (x, v') \<longrightarrow> atMostSystem v v'"
    and f: "\<And>x. \<forall>v y v'. vm_ok v \<longrightarrow> f x v = Inr (y, v') \<longrightarrow> atMostSystem v v'"
    and ok: "vm_ok v" and run: "bindE m f v = Inr (y, w)"
  obtain x u where u: "m v = Inr (x, u)" "f x u = Inr (y, w)" using run by (rule bindE_InrE)
  with m ok have vu: "atMostSystem v u" by blast
  with u f atMostSystem_ok [OF vu ok] have "atMostSystem u w" by blast
  with vu show "atMostSystem v w" using ok by (rule atMostSystem_trans)
qed

lemma reading_if [reading_intro]: "(b \<Longrightarrow> reading m) \<Longrightarrow> (\<not> b \<Longrightarrow> reading k) \<Longrightarrow> reading (if b then m else k)"
  by simp

lemma reading_let [reading_intro]: "reading (f x) \<Longrightarrow> reading (Let x f)"
  by simp

lemma reading_members [reading_intro]:
  "reading (derefAs ks p)" "reading (getMember ks i p)" "reading (GetClass p)" "reading (GetField p k)"
  unfolding derefAs_def getMember_def GetClass_def GetField_def by (intro reading_intro)+

lemma reading_payloads [reading_intro]:
  "reading (GetEmbeddedInteger p)" "reading (GetEmbeddedBigInteger p)" "reading (GetStdString p)" "reading (GetEmbeddedDouble p)"
  "reading (GetBytecode p k)"
  unfolding GetEmbeddedInteger_def GetEmbeddedBigInteger_def GetStdString_def GetEmbeddedDouble_def GetBytecode_def
  by (rule reading_bind, intro reading_intro, simp split: payload.split, intro allI impI conjI reading_intro)+

lemma reading_tables [reading_intro]:
  "reading (GetBytecodeLength bc)" "reading (GetBytecodeName bc)" "reading (HasGlobal p)" "reading (GetGlobal p)"
  "reading (SymbolFor ''system'')"
proof -
  show "reading (SymbolFor ''system'')"
    by (auto simp: reading_def atMostSystem_def SymbolFor_def symtab_lookup_def cstr_def split: if_splits)
  show "reading (HasGlobal p)" "reading (GetGlobal p)" "reading (GetBytecodeLength bc)" "reading (GetBytecodeName bc)"
    unfolding GetGlobal_def HasGlobal_def GetBytecodeLength_def GetBytecodeName_def by (intro reading_intro)+
qed

lemma reading_arrays [reading_intro]:
  "reading (GetNumberOfIndexableFields p)" "reading (ArrayGet p k)"
  unfolding GetNumberOfIndexableFields_def ArrayGet_def by (intro reading_intro)+

lemma reading_invokables [reading_intro]:
  "reading (dynamic_cast_VMInvokable p)" "reading (dynamic_cast_VMClass p)" "reading (dynamic_cast_VMSymbol p)"
  "reading (IsPrimitive p)" "reading (GetSignature p)" "reading (GetHolder p)"
  unfolding dynamic_cast_VMInvokable_def dynamic_cast_VMClass_def dynamic_cast_VMSymbol_def IsPrimitive_def GetSignature_def
    GetHolder_def by (intro reading_intro)+

lemma reading_methods [reading_intro]:
  "reading (GetNumberOfLocals p)" "reading (GetMaximumNumberOfStackElements p)" "reading (GetNumberOfBytecodes p)"
  "reading (NumberOfConstants p)" "reading (GetIndexableField p k)" "reading (GetConstant p k)"
  unfolding GetNumberOfLocals_def GetMaximumNumberOfStackElements_def GetNumberOfBytecodes_def NumberOfConstants_def
    GetIndexableField_def GetConstant_def by (intro reading_intro)+

lemma reading_classes [reading_intro]:
  "reading (GetName c)" "reading (HasSuperClass c)" "reading (GetSuperClass c)" "reading (GetInstanceFields c)"
  "reading (GetNumberOfInstanceInvokables c)" "reading (GetInstanceInvokable c k)"
  unfolding GetName_def HasSuperClass_def GetSuperClass_def GetInstanceFields_def GetNumberOfInstanceInvokables_def
    GetInstanceInvokables_def GetInstanceInvokable_def by (intro reading_intro)+

lemma reading_findInvokable [reading_intro]: "reading (findInvokable c name js)"
  by (induction c name js rule: findInvokable.induct) (simp_all only: findInvokable.simps, (intro reading_intro | assumption)+)

lemma reading_lookupInvokable [reading_intro]: "reading (lookupInvokable n c name)"
  by (induction n arbitrary: c) (simp_all only: lookupInvokable.simps, (intro reading_intro | assumption)+)

lemma reading_LookupInvokable [reading_intro]: "reading (LookupInvokable c name)"
  unfolding LookupInvokable_def by (intro reading_intro)

lemma reading_numberOfInstanceFields [reading_intro]: "reading (numberOfInstanceFields n c)"
  by (induction n arbitrary: c) (simp_all only: numberOfInstanceFields.simps, (intro reading_intro | assumption)+)

lemma reading_fields [reading_intro]: "reading (GetNumberOfInstanceFields c)" "reading (numberOfSuperInstanceFields c)"
  unfolding GetNumberOfInstanceFields_def numberOfSuperInstanceFields_def by (intro reading_intro)+

lemma reading_instanceFieldName [reading_intro]: "reading (instanceFieldName n c k)"
  by (induction n arbitrary: c) (simp_all only: instanceFieldName.simps, (intro reading_intro | assumption)+)

lemma reading_GetInstanceFieldName [reading_intro]: "reading (GetInstanceFieldName c k)"
  unfolding GetInstanceFieldName_def by (intro reading_intro)

lemma reading_findFieldIndex [reading_intro]: "reading (findFieldIndex c name js)"
  by (induction c name js rule: findFieldIndex.induct) (simp_all only: findFieldIndex.simps, (intro reading_intro | assumption)+)

lemma reading_GetFieldIndex [reading_intro]: "reading (GetFieldIndex p name)"
  unfolding GetFieldIndex_def LookupFieldIndex_def by (intro reading_intro)

lemma reading_frames [reading_intro]:
  "reading (GetContext f)" "reading (HasContext f)" "reading (GetStackPointer f)" "reading (StackPointer f)"
  "reading (LocalOffset f)" "reading (GetStackElement f k)" "reading (topOfStack f)" "reading (FrameGetMethod f)"
  "reading (GetBytecodeIndex f)" "reading GetMethod"
  unfolding GetContext_def HasContext_def GetStackPointer_def StackPointer_def LocalOffset_def GetStackElement_def topOfStack_def
    FrameGetMethod_def GetBytecodeIndex_def GetMethod_def by (intro reading_intro)+

lemma reading_contexts [reading_intro]: "reading (GetContextLevel n f)" "reading (outerContext n f)"
  by (induction n arbitrary: f)
    (simp_all only: GetContextLevel.simps outerContext.simps, (intro reading_intro | assumption)+)

lemma reading_variables [reading_intro]: "reading (GetLocal f i l)" "reading (GetArgument f i l)" "reading (GetOuterContext f)"
  unfolding GetLocal_def GetArgument_def GetOuterContext_def by (intro reading_intro)+

lemma reading_texts [reading_intro]: "reading (dispatchText fmt p)" "reading (className p)" "reading (symbolAt m i)"
  unfolding dispatchText_def className_def symbolAt_def by (intro reading_intro)+

section \<open>The disassembler\<close>

definition watching :: "'a dumpM \<Rightarrow> bool" where
  "watching m \<longleftrightarrow> (\<forall>d x d'. vm_ok (d_vm d) \<longrightarrow> m d = Inr (x, d') \<longrightarrow> atMostSystem (d_vm d) (d_vm d'))"

named_theorems watching_intro \<open>operations that leave the machine alone\<close>

lemma watchingD: "watching m \<Longrightarrow> vm_ok (d_vm d) \<Longrightarrow> m d = Inr (x, d') \<Longrightarrow> atMostSystem (d_vm d) (d_vm d')"
  unfolding watching_def by blast

lemma onVM_run: "onVM m d = (case m (d_vm d) of Inl e \<Rightarrow> Inl e | Inr r \<Rightarrow> Inr (fst r, d\<lparr>d_vm := snd r\<rparr>))"
  by (simp add: onVM_def liftE_def)

lemma watching_onVM [watching_intro]: "reading m \<Longrightarrow> watching (onVM m)"
  unfolding watching_def using readingD [of m] by (fastforce simp: onVM_run split: sum.splits)

lemma watching_base [watching_intro]:
  "watching (returnE x)" "watching (throwE e)" "watching (getsE g)" "watching (DebugPrint ss)"
  by (auto simp: watching_def DebugPrint_def atMostSystem_def)

lemma watching_statics [watching_intro]:
  "watching (modifyE (\<lambda>d. d\<lparr>d_ikind := c\<rparr>))" "watching (modifyE (\<lambda>d. d\<lparr>d_indentc := f d, d_ikind := c\<rparr>))"
  by (auto simp: watching_def atMostSystem_def)

lemma watching_bind [watching_intro]: "watching m \<Longrightarrow> (\<And>x. watching (f x)) \<Longrightarrow> watching (bindE m f)"
  unfolding watching_def
proof (intro allI impI)
  fix d y e
  assume m: "\<forall>d x d'. vm_ok (d_vm d) \<longrightarrow> m d = Inr (x, d') \<longrightarrow> atMostSystem (d_vm d) (d_vm d')"
    and f: "\<And>x. \<forall>d y d'. vm_ok (d_vm d) \<longrightarrow> f x d = Inr (y, d') \<longrightarrow> atMostSystem (d_vm d) (d_vm d')"
    and ok: "vm_ok (d_vm d)" and run: "bindE m f d = Inr (y, e)"
  obtain x c where c: "m d = Inr (x, c)" "f x c = Inr (y, e)" using run by (rule bindE_InrE)
  with m ok have dc: "atMostSystem (d_vm d) (d_vm c)" by blast
  with c f atMostSystem_ok [OF dc ok] have "atMostSystem (d_vm c) (d_vm e)" by blast
  with dc show "atMostSystem (d_vm d) (d_vm e)" using ok by (rule atMostSystem_trans)
qed

lemma watching_then [watching_intro]: "watching m \<Longrightarrow> watching k \<Longrightarrow> watching (thenE m k)"
  unfolding thenE_def by (rule watching_bind)

lemma watching_if [watching_intro]: "(b \<Longrightarrow> watching m) \<Longrightarrow> (\<not> b \<Longrightarrow> watching k) \<Longrightarrow> watching (if b then m else k)"
  by simp

lemma watching_when [watching_intro]: "watching m \<Longrightarrow> watching (whenE b m)"
  unfolding whenE_def by (intro watching_intro)

lemma watching_let [watching_intro]: "watching (f x) \<Longrightarrow> watching (Let x f)"
  by simp

lemma watching_split [watching_intro]: "(\<And>x y. watching (g x y)) \<Longrightarrow> watching (case q of (x, y) \<Rightarrow> g x y)"
  by (cases q) simp

lemma watching_for [watching_intro]: "(\<And>x. watching (f x)) \<Longrightarrow> watching (forE xs f)"
  by (induction xs) (auto intro: watching_intro)

lemma watching_print [watching_intro]: "watching (DebugDump ss)" "watching (DebugTrace ss)" "watching (dispatch fmt p)"
  "watching (traceValue fmt p ss ts)"
  unfolding DebugDump_def DebugTrace_def DebugPrefix_def dispatch_def traceValue_def by (intro watching_intro reading_intro)+

lemma watching_lines [watching_intro]: "watching (dumpNamed s m i)" "watching (dumpTwo s t m i)" "watching (dumpSymbol s m i)"
  unfolding dumpNamed_def dumpTwo_def dumpSymbol_def by (intro watching_intro reading_intro)+

lemma watching_dumpOperands [watching_intro]:
  assumes "\<And>p s. watching (dm p s)"
  shows "watching (dumpOperands fmt dm meth indent i bc)"
  unfolding dumpOperands_def
  by (auto split: option.split bytecode.split intro!: watching_intro reading_intro assms)

lemma watching_dumpLine: "(\<And>p s. watching (dm p s)) \<Longrightarrow> watching (dumpLine fmt dm meth indent i)"
  unfolding dumpLine_def by (intro watching_intro reading_intro)

lemma watching_dumpLoop: "(\<And>i. watching (line i)) \<Longrightarrow> watching (dumpLoop k line meth i)"
  by (induction k arbitrary: i) (simp_all only: dumpLoop.simps, (intro watching_intro reading_intro | assumption | blast)+)

lemma watching_DumpMethod [watching_intro]: "watching (DumpMethod n fmt meth indent)"
  by (induction n arbitrary: meth indent)
    (simp_all only: DumpMethod.simps, (intro watching_intro reading_intro watching_dumpLoop watching_dumpLine | assumption | blast)+)

lemma watching_Dump [watching_intro]: "watching (Dump fmt cl)"
  unfolding Dump_def dumpInvokable_def by (intro watching_intro reading_intro)

lemma watching_traceHeader [watching_intro]: "watching (traceHeader meth i)"
  unfolding traceHeader_def by (intro watching_intro reading_intro)

lemma watching_traceSend [watching_intro]: "watching (traceSend meth i)"
  unfolding traceSend_def by (intro watching_intro reading_intro)

lemma watching_traceOperands [watching_intro]: "watching (traceOperands fmt frame meth i cl bc)"
  unfolding traceOperands_def Let_def by (cases bc; simp only: bytecode.case; intro watching_intro reading_intro)

lemma watching_DumpBytecode [watching_intro]: "watching (DumpBytecode fmt frame meth i)"
  unfolding DumpBytecode_def
  by (rule watching_bind, intro watching_intro reading_intro, rule watching_bind, intro watching_intro)
    (auto split: option.split intro: watching_intro)

section \<open>Traced runs\<close>

lemma onVM_InrE:
  assumes "onVM m d = Inr (x, d')"
  obtains v where "m (d_vm d) = Inr (x, v)" "d' = d\<lparr>d_vm := v\<rparr>"
  using assms by (auto simp: onVM_run split: sum.splits)

lemma bind_readE:
  assumes "bindE (onVM m) g d = Inr r" "reading m" "vm_ok (d_vm d) \<and> symtab (d_vm d) ''system'' \<noteq> NULL"
  obtains x where "m (d_vm d) = Inr (x, d_vm d)" "g x d = Inr r"
proof -
  obtain x e where x: "onVM m d = Inr (x, e)" "g x e = Inr r" using assms(1) by (rule bindE_InrE)
  obtain v where v: "m (d_vm d) = Inr (x, v)" "e = d\<lparr>d_vm := v\<rparr>" using x(1) by (rule onVM_InrE)
  with readingD [OF assms(2)] atMostSystem_same assms(3) have "v = d_vm d" by blast
  with v x that show thesis by simp
qed

lemma tracedStep_step:
  assumes "tracedStep fmt ext n d = Inr (go, d')" and sys: "vm_ok (d_vm d) \<and> symtab (d_vm d) ''system'' \<noteq> NULL"
  shows "step ext n (d_vm d) = Inr (go, d_vm d')"
proof -
  obtain f i meth bc len where q: "GetFrame (d_vm d) = Inr (f, d_vm d)" "GetBytecodeIndex f (d_vm d) = Inr (i, d_vm d)"
    "GetMethod (d_vm d) = Inr (meth, d_vm d)" "GetBytecode meth i (d_vm d) = Inr (bc, d_vm d)"
    "GetBytecodeLength bc (d_vm d) = Inr (len, d_vm d)"
    and 1: "thenE (DumpBytecode fmt f meth i) (thenE (onVM (SetBytecodeIndex f (i + int len))) (onVM (execute ext n bc i))) d = Inr (go, d')"
    using assms(1) unfolding tracedStep_def
    by (elim bind_readE [OF _ _ sys]) (rule reading_intro | blast)+
  obtain u d1 where d1: "DumpBytecode fmt f meth i d = Inr (u, d1)"
    and 2: "thenE (onVM (SetBytecodeIndex f (i + int len))) (onVM (execute ext n bc i)) d1 = Inr (go, d')"
    using 1 by (rule thenE_InrE)
  have "atMostSystem (d_vm d) (d_vm d1)" by (rule watchingD [OF watching_DumpBytecode _ d1]) (simp add: sys)
  then have same: "d_vm d1 = d_vm d" using sys by (blast dest: atMostSystem_same)
  obtain u2 d2 where d2: "onVM (SetBytecodeIndex f (i + int len)) d1 = Inr (u2, d2)" "onVM (execute ext n bc i) d2 = Inr (go, d')"
    using 2 by (rule thenE_InrE)
  obtain v where v: "SetBytecodeIndex f (i + int len) (d_vm d) = Inr (u2, v)" "d2 = d1\<lparr>d_vm := v\<rparr>"
    using d2(1) same by (auto elim: onVM_InrE)
  obtain w where w: "execute ext n bc i v = Inr (go, w)" "d' = d2\<lparr>d_vm := w\<rparr>"
    using d2(2) v(2) by (auto elim: onVM_InrE)
  show ?thesis using q v w by (simp add: step_def fetch_def)
qed

lemma tracedStart_Start:
  assumes "tracedStart fmt (coreOnly ext) n k d = Inr ((), d')" "typed (d_vm d)" "symtab (d_vm d) ''system'' \<noteq> NULL"
  shows "Start ext n k (d_vm d) = Inr ((), d_vm d')"
  using assms
proof (induction k arbitrary: d)
  case 0
  then show ?case by simp
next
  case (Suc k)
  obtain go e where e: "tracedStep fmt (coreOnly ext) n d = Inr (go, e)"
    "(if go then tracedStart fmt (coreOnly ext) n k else returnE ()) e = Inr ((), d')"
    using Suc.prems(1) unfolding tracedStart.simps by (rule bindE_InrE)
  have "vm_ok (d_vm d)" using Suc.prems(2) by (simp add: typed_def)
  then have st: "step (coreOnly ext) n (d_vm d) = Inr (go, d_vm e)" using Suc.prems(3) by (intro tracedStep_step [OF e(1)]) simp
  have "shaped (step (coreOnly ext) n)" by (intro shaped_step shaped_coreOnly)
  from shapedD [OF this Suc.prems(2) st] have "typed (d_vm e)" "symtab (d_vm e) ''system'' \<noteq> NULL"
    using Suc.prems(3) unfolding extends_def by auto
  with Suc.IH [of e] e(2) step_coreOnly [OF st] show ?case by (cases go) auto
qed

text \<open>C39. The disassembler only observes. Once the symbol system is interned, a run with the
  bytecode trace switched on that comes to its end and calls no routine of another primitive
  library leaves the machine the run without the trace leaves. Dumping a class changes
  nothing, except that it interns the symbol system when there is none yet, as during the
  start-up.\<close>

lemma tracing_transparent:
  assumes "typed (d_vm d)"
  shows "(\<forall>d'. tracedStart fmt (coreOnly ext) n k d = Inr ((), d') \<and> symtab (d_vm d) ''system'' \<noteq> NULL \<longrightarrow>
       Start ext n k (d_vm d) = Inr ((), d_vm d')) \<and>
    (\<forall>cl e. Dump fmt cl d = Inr ((), e) \<longrightarrow> d_vm e = d_vm d \<or>
       symtab (d_vm d) ''system'' = NULL \<and> (\<exists>p. SymbolFor ''system'' (d_vm d) = Inr (p, d_vm e)))"
proof (intro conjI allI impI)
  fix d' assume "tracedStart fmt (coreOnly ext) n k d = Inr ((), d') \<and> symtab (d_vm d) ''system'' \<noteq> NULL"
  with assms show "Start ext n k (d_vm d) = Inr ((), d_vm d')" by (blast intro: tracedStart_Start)
next
  fix cl e assume e: "Dump fmt cl d = Inr ((), e)"
  have "vm_ok (d_vm d)" using assms by (simp add: typed_def)
  from watchingD [OF watching_Dump this e] show "d_vm e = d_vm d \<or>
      symtab (d_vm d) ''system'' = NULL \<and> (\<exists>p. SymbolFor ''system'' (d_vm d) = Inr (p, d_vm e))"
    unfolding atMostSystem_def .
qed

section \<open>A sample trace\<close>

text \<open>The sample machine with a method that duplicates the top of its stack and halts.\<close>

definition vm5 :: vm where
  "vm5 = vm1\<lparr>heap := (heap vm1)(13 \<mapsto> sampleMethod 14 [1, 0] [], 16 \<mapsto> sampleInt 2, 18 \<mapsto> sampleInt 0, 24 \<mapsto> sampleSymbol ''system''),
     nextPtr := 25, symtab := (symtab vm1)(''system'' := 24)\<rparr>"

definition sampleDump :: dump where
  "sampleDump = \<lparr>d_vm = vm5, d_err = [], d_indentc = 0, d_ikind = CHR ''@''\<rparr>"

definition sampleFormats :: formats where
  "sampleFormats = \<lparr>showPointer = (\<lambda>p. show_nat p), showDouble = (\<lambda>x. [])\<rparr>"

lemma vm5_typed: "typed vm5"
proof -
  have "laidOut (shape ob)" if ob: "heap vm5 p = Some ob" for p ob
  proof (cases "p \<in> {13, 16, 18, 24}")
    case True
    then show ?thesis using ob by (auto simp: vm5_def shape_def fixedData_def sampleSymbol_def sampleMethod_def sampleInt_def cstr_def)
  next
    case False
    then have "heap vm1 p = Some ob" using ob by (simp add: vm5_def split: if_splits)
    with vm1_typed show ?thesis by (auto simp: typed_def)
  qed
  moreover have "vm_ok vm5"
    by (auto simp: vm_ok_def vm5_def vm1_eval NULL_def symOf_def cstr_def split: if_splits)
  ultimately show ?thesis by (simp add: typed_def)
qed

lemma tracedStart_lazy: "tracedStart fmt ext n k = (if k = 0 then throwE OutOfFuel else
     bindE (tracedStep fmt ext n) (\<lambda>go. if go then tracedStart fmt ext n (k - 1) else returnE ()))"
  by (cases k) (simp_all cong: if_cong)

lemma replicate_lazy: "replicate n x = (if n = 0 then [] else x # replicate (n - 1) x)"
  by (cases n) simp_all

lemma sample_numbers: "show_nat 0 = ''0''" "show_nat (Suc 0) = ''1''" "show_nat 12 = ''12''"
  by (simp_all add: show_nat.simps char_of_def bit_iff_odd)

lemma vm5_trace: "\<exists>d'. tracedStart sampleFormats (coreOnly sampleExt) 0 2 sampleDump = Inr ((), d') \<and> d_err d' =
   ''TRACE:                    m>>m                            0 @ 0000: DUP             '' @ tab @ ''<to dup: (m) address: 12>'' @ newline @
   ''TRACE:                    m>>m                            0 @ 0001: HALT            '' @ tab @ ''<halting>'' @ newline @ newline @ newline"
  by (simp add: tracedStart_lazy tracedStep_def lazy vm_defs execute_def doDup_def dump_defs sampleDump_def sampleFormats_def vm5_def
    vm1_def vm0_def sampleHeap_def sampleSymbol_def sampleMethod_def sampleInt_def NULL_def ArrayLength_def additional_def
    GetAdditionalSpaceConsumption_def sizeof_VMObject_def sizeof_pointer_def to_u32_def take_bit_int_eq_self cstr_def
    show_int_def Let_def sample_numbers replicate_lazy
    anyKind_def invokableKinds_def arrayKinds_def opcode_of_def all_bytecodes_def GetBytecodeName_def bytecodeNames_def GetBytecodeLength_def
    bytecodeLengths_def cong: lazy_cong del: show_nat.simps bindE_Inr bindE_Inl thenE_Inr thenE_Inl forE.simps)
lemma tracing_transparent_witness:
  "\<exists>d'. tracedStart sampleFormats (coreOnly sampleExt) 0 2 sampleDump = Inr ((), d') \<and> Start sampleExt 0 2 vm5 = Inr ((), d_vm d')"
proof -
  have d: "d_vm sampleDump = vm5" "symtab vm5 ''system'' \<noteq> NULL" by (simp_all add: sampleDump_def vm5_def NULL_def)
  obtain d' where "tracedStart sampleFormats (coreOnly sampleExt) 0 2 sampleDump = Inr ((), d')" using vm5_trace by blast
  moreover have "typed (d_vm sampleDump)" using vm5_typed d by simp
  ultimately show ?thesis using tracing_transparent [of sampleDump sampleFormats sampleExt 0 2] d by auto
qed

end
