(* ===== verification/BlockEntry.thy ===== *)
theory BlockEntry
  imports SampleMachine
begin

text \<open>
  Blocks: the evaluation primitive enters the method of a block with the arguments of the call,
  in the context the block was made in, so that the variables of that context are read and
  written one level further out.
\<close>

section \<open>Reads that survive\<close>

text \<open>The objects of \<open>v\<close> are those of \<open>w\<close>: what is read through them is the same.\<close>

definition carried :: "vm \<Rightarrow> vm \<Rightarrow> bool" where
  "carried v w \<longleftrightarrow> (\<forall>p ob. heap v p = Some ob \<longrightarrow> heap w p = Some ob)"

lemma carried_deref: "carried v w \<Longrightarrow> deref p v = Inr (x, v) \<Longrightarrow> deref p w = Inr (x, w)"
  by (auto simp: carried_def deref_def split: option.splits)

lemma carried_derefAs: "carried v w \<Longrightarrow> derefAs ks p v = Inr (x, v) \<Longrightarrow> derefAs ks p w = Inr (x, w)"
  by (auto simp: carried_def derefAs_def deref_def bindE_def split: option.splits if_splits)

lemma carried_getMember: "carried v w \<Longrightarrow> getMember ks i p v = Inr (x, v) \<Longrightarrow> getMember ks i p w = Inr (x, w)"
  by (auto simp: carried_def getMember_def derefAs_def deref_def bindE_def split: option.splits if_splits)

lemma carried_ArrayGet: "carried v w \<Longrightarrow> ArrayGet p k v = Inr (x, v) \<Longrightarrow> ArrayGet p k w = Inr (x, w)"
  by (auto simp: carried_def ArrayGet_def derefAs_def deref_def bindE_def split: option.splits if_splits)

lemma carried_GetEmbeddedInteger: "carried v w \<Longrightarrow> GetEmbeddedInteger p v = Inr (x, v) \<Longrightarrow> GetEmbeddedInteger p w = Inr (x, w)"
  by (auto simp: carried_def GetEmbeddedInteger_def deref_def bindE_def split: option.splits payload.splits)

lemma getMember_state: "getMember ks i p v = Inr (x, u) \<Longrightarrow> u = v"
  by (auto simp: getMember_def derefAs_def deref_def bindE_def split: option.splits if_splits)

lemma GetContextLevel_state: "GetContextLevel l p v = Inr (x, u) \<Longrightarrow> u = v"
  by (induction l arbitrary: p) (auto simp: GetContext_def elim!: bindE_InrE dest: getMember_state)

lemma carried_GetContextLevel:
  assumes "carried v w"
  shows "GetContextLevel l p v = Inr (x, v) \<Longrightarrow> GetContextLevel l p w = Inr (x, w)"
proof (induction l arbitrary: p)
  case (Suc l)
  from Suc.prems obtain q u where q: "GetContext p v = Inr (q, u)" "GetContextLevel l q u = Inr (x, v)"
    unfolding GetContextLevel.simps by (rule bindE_InrE)
  then have u: "u = v" unfolding GetContext_def by (blast dest: getMember_state)
  have "GetContext p w = Inr (q, w)" using carried_getMember [OF assms] q(1) unfolding GetContext_def u by blast
  with Suc.IH [of q] q(2) u show ?case by simp
qed simp

lemma carried_GetArgument:
  assumes "carried v w" "GetArgument p i l v = Inr (x, v)"
  shows "GetArgument p i l w = Inr (x, w)"
proof -
  obtain q u where q: "GetContextLevel l p v = Inr (q, u)" "ArrayGet q (int i) u = Inr (x, v)"
    using assms(2) unfolding GetArgument_def by (rule bindE_InrE)
  then have "u = v" by (blast dest: GetContextLevel_state)
  with q carried_GetContextLevel [OF assms(1)] carried_ArrayGet [OF assms(1)] show ?thesis by (simp add: GetArgument_def)
qed

lemma carried_GetLocal:
  assumes "carried v w" "GetLocal p i l v = Inr (x, v)"
  shows "GetLocal p i l w = Inr (x, w)"
proof -
  obtain q u where q: "GetContextLevel l p v = Inr (q, u)" "bindE (LocalOffset q) (\<lambda>lo. ArrayGet q (lo + int i)) u = Inr (x, v)"
    using assms(2) unfolding GetLocal_def by (rule bindE_InrE)
  then have u: "u = v" by (blast dest: GetContextLevel_state)
  obtain o1 u1 where o1: "LocalOffset q v = Inr (o1, u1)" "ArrayGet q (o1 + int i) u1 = Inr (x, v)"
    using q(2) unfolding u by (rule bindE_InrE)
  obtain a u2 where a: "getMember [KFrame] 6 q v = Inr (a, u2)" "GetEmbeddedInteger a u2 = Inr (o1, u1)"
    using o1(1) unfolding LocalOffset_def by (rule bindE_InrE)
  then have u2: "u2 = v" by (blast dest: getMember_state)
  then have u1: "u1 = v" using a(2) by (auto simp: GetEmbeddedInteger_def deref_def bindE_def split: option.splits payload.splits)
  have "LocalOffset q w = Inr (o1, w)"
    using carried_getMember [OF assms(1)] carried_GetEmbeddedInteger [OF assms(1)] a unfolding u1 u2 by (simp add: LocalOffset_def)
  with carried_GetContextLevel [OF assms(1)] carried_ArrayGet [OF assms(1)] q(1) o1(2) u u1 show ?thesis by (simp add: GetLocal_def)
qed

section \<open>Entering a block\<close>

text \<open>C18. Evaluating a block enters its method in a new frame, with the block and the arguments of
  the call, nil locals, an empty evaluation stack and the bytecode index 0, in the context the
  block was made in: a variable of that context is the same variable one level further out,
  and no old object is touched.\<close>

lemma block_enters:
  assumes ok: "vm_ok v" and na: "EvaluationArguments p v = Inr (int na, v)" "0 < na"
    and f: "curFrame v = f" "stackOf v f = Some xs" "na \<le> length xs"
    and b: "heap v (xs ! (na - 1)) = Some b" "o_kind b = KBlock" "o_fields b = [cl, m, ctx]"
    and m: "methodParts v m = Some (code, lits, nl, na, int ms)" "frameName v = Some s" "na + nl + ms < 536870912"
  shows "\<exists>v' g. evaluationRoutine p f v = Inr ((), v') \<and> curFrame v' = g \<and> heap v g = None \<and>
     stackOf v' g = Some (replicate nl (nilObject v) @ take na xs) \<and> roomOf v' g = ms \<and>
     GetPreviousFrame g v' = Inr (if f = NULL then nilObject v else f, v') \<and> GetContext g v' = Inr (ctx, v') \<and> FrameGetMethod g v' = Inr (m, v') \<and>
     GetBytecodeIndex g v' = Inr (0, v') \<and>
     (\<forall>i<na. GetArgument g i 0 v' = Inr (xs ! (na - 1 - i), v')) \<and> (\<forall>i<nl. GetLocal g i 0 v' = Inr (nilObject v, v')) \<and>
     (\<forall>i l x. GetArgument ctx i l v = Inr (x, v) \<longrightarrow> GetArgument g i (Suc l) v' = Inr (x, v')) \<and>
     (\<forall>i l x. GetLocal ctx i l v = Inr (x, v) \<longrightarrow> GetLocal g i (Suc l) v' = Inr (x, v')) \<and>
     (\<forall>q ob. heap v q = Some ob \<longrightarrow> heap v' q = Some ob)"
proof -
  let ?sl = "rev (take na xs) @ replicate (nl + ms) (nilObject v)" and ?g = "nextPtr v"
  let ?e = "entered v f m s ?sl nl na"
  let ?fo = "frameObject (newFrame v f m @ [?g + 3, ?g + 2, ?g + 1]) ?sl"
  let ?fc = "?fo\<lparr>o_fields := (o_fields ?fo)[2 := ctx]\<rparr>"
  let ?v' = "?e\<lparr>heap := (heap ?e)(?g \<mapsto> ?fc)\<rparr>"
  have len: "length ?sl = na + nl + ms" using f(3) by simp
  have eg: "frameOf ?e ?g = Some ?fo" by (rule entered_frame) (simp only: len m(3))
  have block: "GetStackElement f (int na - 1) v = Inr (xs ! (na - 1), v)"
    using GetStackElement_run [OF f(2), of "na - 1"] f(3) na(2) by (simp add: of_nat_diff)
  have reads: "BlockGetContext (xs ! (na - 1)) v = Inr (ctx, v)" "BlockGetMethod (xs ! (na - 1)) v = Inr (m, v)"
    using b by (simp_all add: BlockGetContext_def BlockGetMethod_def getMember_def derefAs_def deref_def)
  have enter: "bindE (PushNewFrame m) (\<lambda>frm. CopyArgumentsFrom frm f) v = Inr ((), ?e)"
    using invokeMethod_run [OF ok m f] unfolding invokeMethod_def .
  obtain e0 where e0: "PushNewFrame m v = Inr (?g, e0)"
    using NewFrame_run [OF ok m, of f] by (simp add: PushNewFrame_def GetFrame_def SetFrame_def f(1))
  with enter have copy: "CopyArgumentsFrom ?g f e0 = Inr ((), ?e)" by simp
  have set: "SetContext ?g ctx ?e = Inr ((), ?v')"
    unfolding SetContext_def using frameOf_facts [OF eg] by (subst setMember_eq [of _ _ ?fo]) simp_all
  have run: "evaluationRoutine p f v = Inr ((), ?v')"
    by (simp add: evaluationRoutine_def na block reads e0 copy set del: One_nat_def add_2_eq_Suc')
  have fg: "frameOf ?v' ?g = Some ?fc"
    using frameOf_facts [OF eg] by (simp add: frameOf_def array_size_ok_def)
  have fs: "o_slots ?fc = ?sl" "o_fields ?fc ! 1 = (if f = NULL then nilObject v else f)" "o_fields ?fc ! 2 = ctx" "o_fields ?fc ! 3 = m"
    "o_fields ?fc ! 4 = ?g + 3" "o_fields ?fc ! 5 = ?g + 2" "o_fields ?fc ! 6 = ?g + 1"
    by (simp_all add: frameObject_def newFrame_def nth_append)
  have get: "ArrayGet ?g (int k) ?v' = Inr (?sl ! k, ?v')" if "k < length ?sl" for k
    using ArrayGet_run [OF frameOf_facts(9) [OF fg], of "int k"] that by (simp only: fs(1)) simp
  have ints: "intOf ?v' (?g + 3) = Some (int (na + nl) - 1)" "intOf ?v' (?g + 2) = Some 0" "intOf ?v' (?g + 1) = Some (int na)"
    by (simp_all add: intOf_def entered_heap withFrame_heap [simplified] counterObject_def)
  note mem = frameOf_member [OF fg]
  have st: "stackOf ?v' ?g = Some (rev (take (na + nl) ?sl))" "roomOf ?v' ?g = length ?sl - (na + nl)"
    using stackOfI [OF fg, of "na + nl"] ints(1) len unfolding fs by simp_all
  have stk: "rev (take (na + nl) ?sl) = replicate nl (nilObject v) @ take na xs" using f(3) by simp
  have old: "carried v ?v'" unfolding carried_def
  proof (intro allI impI)
    fix q ob assume q: "heap v q = Some ob"
    then have "q < ?g" using vm_ok_bound [OF ok] by blast
    with q entered_old show "heap ?v' q = Some ob" by simp
  qed
  have args: "GetArgument ?g i 0 ?v' = Inr (xs ! (na - 1 - i), ?v')" if "i < na" for i
  proof -
    have "?sl ! i = xs ! (na - 1 - i)" using that f(3) by (simp add: nth_append rev_nth)
    with get [of i] that len show ?thesis by (simp add: GetArgument_def)
  qed
  have lo: "LocalOffset ?g ?v' = Inr (int na, ?v')"
    using mem [of 6] GetEmbeddedInteger_run [OF ints(3)] fs(7) by (simp add: LocalOffset_def del: One_nat_def)
  have locals: "GetLocal ?g i 0 ?v' = Inr (nilObject v, ?v')" if "i < nl" for i
  proof -
    have "?sl ! (na + i) = nilObject v" using that f(3) by (simp add: nth_append)
    with get [of "na + i"] that len lo show ?thesis by (simp add: GetLocal_def)
  qed
  have ctx: "GetContext ?g ?v' = Inr (ctx, ?v')" using mem [of 2] fs(3) by (simp add: GetContext_def)
  have outer: "GetArgument ?g i (Suc l) ?v' = Inr (x, ?v')" if "GetArgument ctx i l v = Inr (x, v)" for i l x
    using carried_GetArgument [OF old that] ctx by (simp add: GetArgument_def bindE_lazy)
  have outer': "GetLocal ?g i (Suc l) ?v' = Inr (x, ?v')" if "GetLocal ctx i l v = Inr (x, v)" for i l x
    using carried_GetLocal [OF old that] ctx by (simp add: GetLocal_def bindE_lazy)
  have "heap v ?g = None" using ok by (simp add: vm_ok_fresh)
  moreover have "GetPreviousFrame ?g ?v' = Inr (if f = NULL then nilObject v else f, ?v')" "FrameGetMethod ?g ?v' = Inr (m, ?v')"
    "GetBytecodeIndex ?g ?v' = Inr (0, ?v')"
    using mem [of 1] mem [of 3] mem [of 5] GetEmbeddedInteger_run [OF ints(2)] fs
    by (simp_all add: GetPreviousFrame_def FrameGetMethod_def GetBytecodeIndex_def del: One_nat_def)
  moreover have "curFrame ?v' = ?g" by (simp add: entered_def)
  moreover have "stackOf ?v' ?g = Some (replicate nl (nilObject v) @ take na xs)" "roomOf ?v' ?g = ms"
    using st len unfolding stk by simp_all
  ultimately show ?thesis
    using run args locals ctx outer outer' old unfolding carried_def by (intro exI [of _ ?v'] exI [of _ ?g]) blast
qed

text \<open>The sample machine with a block on top of the stack, made in the current frame, and the
  evaluation primitive of blocks without arguments.\<close>

definition vm6 :: vm where
  "vm6 = vm1\<lparr>heap := (heap vm1)(12 \<mapsto> \<lparr>o_kind = KBlock, o_size = 56, o_fields = [4, 6, 19], o_slots = [], o_data = NoData\<rparr>,
     24 \<mapsto> \<lparr>o_kind = KEvaluationPrimitive, o_size = 68, o_fields = [NULL, 23, NULL], o_slots = [], o_data = EvalData EvaluationRoutine False 25\<rparr>,
     25 \<mapsto> sampleInt 1), nextPtr := 26\<rparr>"

lemma vm6_heap: "p \<noteq> 12 \<Longrightarrow> p < 24 \<Longrightarrow> heap vm6 p = heap vm1 p"
  by (simp add: vm6_def)

lemma vm6_ok: "vm_ok vm6"
  by (auto simp: vm_ok_def vm6_def vm1_eval NULL_def split: if_splits)

lemma vm6_facts:
  "stackOf vm6 19 = Some [12, NULL, 12]" "frameName vm6 = Some ''Frame''" "methodParts vm6 6 = Some ([3, 0, 0, 14], [], 0, 1, int 1)"
  "curFrame vm6 = 19" "nilObject vm6 = NULL"
proof -
  show "curFrame vm6 = 19" "nilObject vm6 = NULL" by (simp_all add: vm6_def vm1_ptrs)
  have fr: "frameOf vm6 19 = frameOf vm1 19" using frameOf_cong [OF vm6_heap, of 19] by simp
  have int: "intOf vm6 q = intOf vm1 q" if "q \<in> {7, 8, 9, 10, 11, 20}" for q using that intOf_cong [OF vm6_heap, of q] by auto
  show "stackOf vm6 19 = Some [12, NULL, 12]" using vm1_stack(1) int [of 20] by (simp add: stackOf_def fr vm1_frame)
  show "frameName vm6 = Some ''Frame''" by (simp add: frameName_def vm6_def vm1_facts strOf_def cstr_def)
  show "methodParts vm6 6 = Some ([3, 0, 0, 14], [], 0, 1, int 1)"
    using vm1_parts(2) int vm1_heap(6) vm6_heap [of 6] by (simp add: methodParts_def sampleMethod_def)
qed

lemma block_enters_witness:
  "\<exists>v' g. evaluationRoutine 24 19 vm6 = Inr ((), v') \<and> curFrame v' = g \<and> GetContext g v' = Inr (19, v') \<and>
     GetArgument g 0 0 v' = Inr (12, v') \<and> GetLocal g 0 1 v' = Inr (NULL, v')"
proof -
  have na: "EvaluationArguments 24 vm6 = Inr (int 1, vm6)"
    by (simp add: EvaluationArguments_def deref_def vm6_def GetEmbeddedInteger_def sampleInt_def)
  have loc: "GetLocal 19 0 0 vm6 = Inr (NULL, vm6)"
  proof -
    have fr: "frameOf vm6 19 = frameOf vm1 19" using frameOf_cong [OF vm6_heap, of 19] by simp
    then have "ArrayGet 19 1 vm6 = Inr (NULL, vm6)" "getMember [KFrame] 6 19 vm6 = Inr (22, vm6)"
      using ArrayGet_run [OF frameOf_facts(9), of vm6 19] frameOf_member [of vm6 19 _ 6] by (simp_all add: vm1_frame)
    moreover have "intOf vm6 22 = Some 1" using intOf_cong [OF vm6_heap, of 22] vm1_int by simp
    ultimately show ?thesis by (simp add: GetLocal_def LocalOffset_def GetEmbeddedInteger_run)
  qed
  have blk: "heap vm6 ([12, NULL, 12] ! (1 - 1)) = Some \<lparr>o_kind = KBlock, o_size = 56, o_fields = [4, 6, 19], o_slots = [], o_data = NoData\<rparr>"
    by (simp add: vm6_def)
  obtain v' g where v': "evaluationRoutine 24 19 vm6 = Inr ((), v')" "curFrame v' = g" "GetContext g v' = Inr (19, v')"
    "\<forall>i<1. GetArgument g i 0 v' = Inr ([12, NULL, 12] ! (1 - 1 - i), v')"
    "\<forall>i l x. GetLocal 19 i l vm6 = Inr (x, vm6) \<longrightarrow> GetLocal g i (Suc l) v' = Inr (x, v')"
    using block_enters [OF vm6_ok na _ vm6_facts(4) vm6_facts(1) _ blk _ _ vm6_facts(3) vm6_facts(2)] by auto
  then have "GetArgument g 0 0 v' = Inr (12, v')" "GetLocal g 0 (Suc 0) v' = Inr (NULL, v')" using loc by auto
  with v' show ?thesis by auto
qed

end
