(* ===== verification/FieldLayout.thy ===== *)
theory FieldLayout
  imports Paths SampleMachine
begin

text \<open>
  The layout of instances: the fields of the superclasses first, then those of the class itself.
  \<^verbatim>\<open>GetNumberOfInstanceFields\<close>, \<^verbatim>\<open>GetInstanceFieldName\<close> and \<^verbatim>\<open>LookupFieldIndex\<close> walk the chain of
  superclasses; here they are the length, the elements and the search of one list.
\<close>

section \<open>The list of fields\<close>

definition fieldsOf :: "vm \<Rightarrow> ptr \<Rightarrow> ptr list option" where
  "fieldsOf v c = (case classOf v c of None \<Rightarrow> None | Some ob \<Rightarrow> map_option o_slots (arrayOf v (o_fields ob ! 3)))"

definition layout :: "vm \<Rightarrow> ptr list \<Rightarrow> ptr list" where
  "layout v cs = concat (map (\<lambda>c. the (fieldsOf v c)) (rev cs))"

definition ancestry :: "vm \<Rightarrow> ptr \<Rightarrow> ptr list \<Rightarrow> bool" where
  "ancestry v c cs \<longleftrightarrow> (\<exists>r ds. cs = ds @ [r] \<and> path (superOf v) c r ds \<and> superOf v r = None \<and> (\<forall>d\<in>set cs. fieldsOf v d \<noteq> None))"

lemma fieldsOf_reads:
  assumes "fieldsOf v c = Some fs"
  shows "bindE (GetInstanceFields c) GetNumberOfIndexableFields v = Inr (int (length fs), v)"
    "bindE (GetInstanceFields c) (\<lambda>a. ArrayGet a k) v =
       (if 0 \<le> k \<and> k < int (length fs) then Inr (fs ! nat k, v) else Inl (ErrorExit boundsError))"
    "HasSuperClass c v = Inr (superOf v c \<noteq> None, v)"
    "superOf v c = Some s \<Longrightarrow> GetSuperClass c v = Inr (s, v)"
proof -
  obtain ob a where ob: "classOf v c = Some ob" "arrayOf v (o_fields ob ! 3) = Some a" "fs = o_slots a"
    using assms by (auto simp: fieldsOf_def split: option.splits)
  have arr: "GetInstanceFields c v = Inr (o_fields ob ! 3, v)" using classOf_member [OF ob(1), of 3] by (simp add: GetInstanceFields_def)
  show "bindE (GetInstanceFields c) GetNumberOfIndexableFields v = Inr (int (length fs), v)"
    using arr GetNumberOfIndexableFields_run [OF ob(2)] ob(3) by simp
  show "bindE (GetInstanceFields c) (\<lambda>a. ArrayGet a k) v =
       (if 0 \<le> k \<and> k < int (length fs) then Inr (fs ! nat k, v) else Inl (ErrorExit boundsError))"
    using arr ArrayGet_run [OF ob(2), of k] ob(3) by simp
  show "HasSuperClass c v = Inr (superOf v c \<noteq> None, v)"
    using classOf_member [OF ob(1), of 1] by (simp add: HasSuperClass_def superOf_def ob(1) Let_def)
  show "superOf v c = Some s \<Longrightarrow> GetSuperClass c v = Inr (s, v)"
    using classOf_member [OF ob(1), of 1] by (auto simp: GetSuperClass_def superOf_def ob(1) Let_def split: if_splits)
qed

text \<open>One step along the chain.\<close>

lemma ancestry_cases:
  assumes "ancestry v c cs"
  obtains (top) fs where "cs = [c]" "superOf v c = None" "fieldsOf v c = Some fs" "layout v cs = fs"
  | (sub) fs s ds where "cs = c # ds" "superOf v c = Some s" "fieldsOf v c = Some fs" "ancestry v s ds" "layout v cs = layout v ds @ fs"
proof -
  obtain r ds where ds: "cs = ds @ [r]" "path (superOf v) c r ds" "superOf v r = None" "\<forall>d\<in>set cs. fieldsOf v d \<noteq> None"
    using assms by (auto simp: ancestry_def)
  from ds(2) show thesis
  proof cases
    case path_end
    with ds top show thesis by (auto simp: layout_def)
  next
    case (path_step s es)
    then have "ancestry v s (es @ [r])" using ds by (auto simp: ancestry_def)
    moreover obtain fs where "fieldsOf v c = Some fs" using ds(1,4) path_step(1) by auto
    ultimately show thesis using sub [of "es @ [r]" s fs] ds(1) path_step by (auto simp: layout_def)
  qed
qed

lemma ancestry_bound:
  assumes "ancestry v c cs" "vm_ok v"
  shows "length cs \<le> nextPtr v"
proof -
  obtain r ds where ds: "cs = ds @ [r]" "path (superOf v) c r ds" "\<forall>d\<in>set cs. fieldsOf v d \<noteq> None"
    using assms(1) by (auto simp: ancestry_def)
  have "distinct cs" using path_distinct [OF ds(2)] ds(1) by simp
  moreover have "set cs \<subseteq> {..<nextPtr v}"
    using ds(3) vm_ok_bound [OF assms(2)] classOf_facts(1) by (fastforce simp: fieldsOf_def split: option.splits)
  ultimately show ?thesis by (metis card_lessThan card_mono distinct_card finite_lessThan)
qed

section \<open>The operations of classes\<close>

lemma numberOfInstanceFields_run:
  "ancestry v c cs \<Longrightarrow> length cs \<le> n \<Longrightarrow> numberOfInstanceFields n c v = Inr (int (length (layout v cs)), v)"
proof (induction cs arbitrary: c n)
  case Nil
  then show ?case by (simp add: ancestry_def)
next
  case (Cons d ds)
  then obtain k where n: "n = Suc k" "length ds \<le> k" by (cases n) auto
  from Cons.prems(1) show ?case
  proof (cases rule: ancestry_cases)
    case (top fs)
    with fieldsOf_reads [OF top(3)] show ?thesis unfolding n(1) numberOfInstanceFields.simps by simp
  next
    case (sub fs s es)
    with Cons.IH [of s k] n(2) have "numberOfInstanceFields k s v = Inr (int (length (layout v es)), v)" by simp
    with sub fieldsOf_reads [OF sub(3)] show ?thesis unfolding n(1) numberOfInstanceFields.simps by simp
  qed
qed

lemma GetNumberOfInstanceFields_run:
  "ancestry v c cs \<Longrightarrow> vm_ok v \<Longrightarrow> GetNumberOfInstanceFields c v = Inr (int (length (layout v cs)), v)"
  by (simp add: GetNumberOfInstanceFields_def numberOfInstanceFields_run ancestry_bound)

lemma numberOfSuperInstanceFields_run:
  assumes "ancestry v c cs" "vm_ok v"
  obtains fs ds where "fieldsOf v c = Some fs" "layout v cs = layout v ds @ fs"
    "numberOfSuperInstanceFields c v = Inr (int (length (layout v ds)), v)"
    "ds = [] \<or> (\<exists>s. superOf v c = Some s \<and> ancestry v s ds \<and> cs = c # ds)"
  using assms(1)
proof (cases rule: ancestry_cases)
  case (top fs)
  then show thesis using that [of fs "[]"] fieldsOf_reads [OF top(3)] by (simp add: numberOfSuperInstanceFields_def layout_def)
next
  case (sub fs s ds)
  then show thesis
    using that [of fs ds] fieldsOf_reads [OF sub(3)] GetNumberOfInstanceFields_run [OF sub(4) assms(2)]
    by (simp add: numberOfSuperInstanceFields_def)
qed

lemma instanceFieldName_run:
  assumes "vm_ok v"
  shows "ancestry v c cs \<Longrightarrow> length cs \<le> n \<Longrightarrow> instanceFieldName n c (int i) v =
     (if i < length (layout v cs) then Inr (layout v cs ! i, v) else Inl (ErrorExit boundsError))"
proof (induction n arbitrary: c cs)
  case 0
  then show ?case by (auto simp: ancestry_def)
next
  case (Suc n)
  obtain fs ds where d: "fieldsOf v c = Some fs" "layout v cs = layout v ds @ fs"
    "numberOfSuperInstanceFields c v = Inr (int (length (layout v ds)), v)"
    "ds = [] \<or> (\<exists>s. superOf v c = Some s \<and> ancestry v s ds \<and> cs = c # ds)"
    by (rule numberOfSuperInstanceFields_run [OF Suc.prems(1) assms])
  show ?case
  proof (cases "length (layout v ds) \<le> i")
    case True
    then have "nat (int i - int (length (layout v ds))) = i - length (layout v ds)" by linarith
    with True d(2,3) fieldsOf_reads(2) [OF d(1), of "int i - int (length (layout v ds))"] show ?thesis
      by (auto simp: nth_append)
  next
    case False
    then have "ds \<noteq> []" by (auto simp: layout_def)
    with d(4) obtain s where s: "superOf v c = Some s" "ancestry v s ds" "cs = c # ds" by blast
    with Suc.IH [of s ds] Suc.prems(2) have "instanceFieldName n s (int i) v = Inr (layout v ds ! i, v)" using False by simp
    with False d(2,3) fieldsOf_reads(4) [OF d(1) s(1)] show ?thesis by (simp add: nth_append)
  qed
qed

lemma GetInstanceFieldName_run:
  "vm_ok v \<Longrightarrow> ancestry v c cs \<Longrightarrow> GetInstanceFieldName c (int i) v =
     (if i < length (layout v cs) then Inr (layout v cs ! i, v) else Inl (ErrorExit boundsError))"
  by (simp add: GetInstanceFieldName_def instanceFieldName_run ancestry_bound)

text \<open>The search compares pointers and then characters; behind the last field it fails.\<close>

lemma findFieldIndex_run:
  assumes "vm_ok v" "ancestry v c cs" "strOf v name = Some s" "\<forall>f\<in>set (layout v cs). strOf v f \<noteq> None"
  shows "k \<le> length (layout v cs) \<Longrightarrow> findFieldIndex c name (map int [length (layout v cs) - k..<Suc (length (layout v cs))]) v =
     (let rest = takeWhile (\<lambda>f. strOf v f \<noteq> Some s) (drop (length (layout v cs) - k) (layout v cs)) in
      if length rest < k then Inr (int (length (layout v cs) - k + length rest), v) else Inl (ErrorExit boundsError))"
proof (induction k)
  case 0
  then show ?case using GetInstanceFieldName_run [OF assms(1,2), of "length (layout v cs)"] by simp
next
  case (Suc k)
  let ?L = "layout v cs"
  let ?i = "length ?L - Suc k"
  have i: "?i < length ?L" "Suc ?i = length ?L - k" using Suc.prems by auto
  have up: "[?i..<Suc (length ?L)] = ?i # [length ?L - k..<Suc (length ?L)]" using i by (simp add: upt_conv_Cons)
  have dr: "drop ?i ?L = ?L ! ?i # drop (length ?L - k) ?L" using i by (metis Cons_nth_drop_Suc)
  obtain t where t: "strOf v (?L ! ?i) = Some t" using assms(4) nth_mem [OF i(1)] by blast
  have get: "GetInstanceFieldName c (int ?i) v = Inr (?L ! ?i, v)" using GetInstanceFieldName_run [OF assms(1,2), of ?i] i(1) by simp
  have same: "name = ?L ! ?i \<Longrightarrow> t = s" using t assms(3) by simp
  show ?case
    using Suc same unfolding up dr list.map findFieldIndex.simps
    by (auto simp: get GetStdString_run [OF t] GetStdString_run [OF assms(3)] t Let_def i(2) [symmetric] simp del: of_nat_diff)
qed

text \<open>C36. The fields of a class are one list, those of its superclasses first:
  GetNumberOfInstanceFields is its length, GetInstanceFieldName its elements, LookupFieldIndex
  the first index whose name has the same characters; an unknown field ends in the bounds
  error, never in -1.\<close>

lemma fields_layout:
  assumes "vm_ok v" "ancestry v c cs"
  shows "GetNumberOfInstanceFields c v = Inr (int (length (layout v cs)), v) \<and>
    (\<forall>i. GetInstanceFieldName c (int i) v =
       (if i < length (layout v cs) then Inr (layout v cs ! i, v) else Inl (ErrorExit boundsError))) \<and>
    (\<forall>name s. strOf v name = Some s \<longrightarrow> (\<forall>f\<in>set (layout v cs). strOf v f \<noteq> None) \<longrightarrow>
       LookupFieldIndex c name v = (let i = length (takeWhile (\<lambda>f. strOf v f \<noteq> Some s) (layout v cs)) in
         if i < length (layout v cs) then Inr (int i, v) else Inl (ErrorExit boundsError)))"
proof (intro conjI allI impI)
  fix name s assume "strOf v name = Some s" "\<forall>f\<in>set (layout v cs). strOf v f \<noteq> None"
  from findFieldIndex_run [OF assms this, of "length (layout v cs)"]
  show "LookupFieldIndex c name v = (let i = length (takeWhile (\<lambda>f. strOf v f \<noteq> Some s) (layout v cs)) in
         if i < length (layout v cs) then Inr (int i, v) else Inl (ErrorExit boundsError))"
    by (simp add: LookupFieldIndex_def GetNumberOfInstanceFields_run [OF assms(2,1)] Let_def nat_add_distrib)
qed (simp_all add: GetNumberOfInstanceFields_run GetInstanceFieldName_run assms)

section \<open>New instances\<close>

text \<open>C37. A new instance has exactly the fields of its class, all nil but the class itself, and
  each field can be set and read back without touching another field or object.\<close>

lemma NewInstance_fields:
  assumes "vm_ok v" "ancestry v c cs" "layout v cs \<noteq> []"
  shows "\<exists>p v'. NewInstance c v = Inr (p, v') \<and> heap v p = None \<and> (\<forall>q ob. heap v q = Some ob \<longrightarrow> heap v' q = Some ob) \<and> vm_ok v' \<and>
    GetNumberOfFields p v' = Inr (int (length (layout v cs)), v') \<and> GetClass p v' = Inr (c, v') \<and>
    (\<forall>i. GetField p (int i) v' = (if i < length (layout v cs) then Inr (if i = 0 then c else nilObject v, v') else Inl OutOfRange)) \<and>
    (\<forall>i x. i < length (layout v cs) \<longrightarrow> (\<exists>w. SetField p (int i) x v' = Inr ((), w) \<and>
       (\<forall>j<length (layout v cs). GetField p (int j) w = Inr (if j = i then x else if j = 0 then c else nilObject v, w)) \<and>
       (\<forall>q. q \<noteq> p \<longrightarrow> heap w q = heap v' q)))"
proof -
  let ?p = "nextPtr v" and ?n = "length (layout v cs)"
  let ?ob = "\<lparr>o_kind = KObject, o_size = sizeof_VMObject + (int ?n - 1) * sizeof_pointer,
    o_fields = c # replicate (?n - 1) (nilObject v), o_slots = [], o_data = NoData\<rparr>"
  let ?v' = "v\<lparr>heap := (heap v)(?p \<mapsto> ?ob), nextPtr := ?p + 1, rootTable := rootTable v\<rparr>"
  have n: "0 < ?n" using assms(3) by simp
  then have nn: "nat (int ?n - 1) = ?n - 1" "\<not> int ?n - 1 < 0" by auto
  have run: "NewInstance c v = Inr (?p, ?v')"
    by (simp add: NewInstance_def GetNumberOfInstanceFields_run [OF assms(2,1)] nn Let_def newFields_def allocate_def SetClass_def
        setMember_def derefAs_def deref_def store_def assms(3))
  have fresh: "heap v ?p = None" using assms(1) by (simp add: vm_ok_fresh)
  have le: "vm_le v ?v'" "vm_ok ?v'" by (rule vm_le_alloc [OF assms(1) _ _ refl]; use assms(1) in \<open>simp add: vm_ok_fresh\<close>)+
  have sn: "Suc (?n - Suc 0) = ?n" using n by linarith
  have hp: "heap ?v' ?p = Some ?ob" by simp
  have len: "length (o_fields ?ob) = ?n" 
  proof -
    have "Suc (?n - 1) = ?n" using n by linarith
    then show ?thesis by simp
  qed
  have get: "GetField ?p (int i) ?v' = (if i < ?n then Inr (if i = 0 then c else nilObject v, ?v') else Inl OutOfRange)" for i
    using n by (simp add: GetField_def deref_def nth_Cons' del: replicate_Suc)
  have set: "\<exists>w. SetField ?p (int i) x ?v' = Inr ((), w) \<and>
       (\<forall>j<?n. GetField ?p (int j) w = Inr (if j = i then x else if j = 0 then c else nilObject v, w)) \<and>
       (\<forall>q. q \<noteq> ?p \<longrightarrow> heap w q = heap ?v' q)" if i: "i < ?n" for i x
  proof -
    let ?w = "?v'\<lparr>heap := (heap ?v')(?p \<mapsto> ?ob\<lparr>o_fields := (o_fields ?ob)[i := x]\<rparr>)\<rparr>"
    have "SetField ?p (int i) x ?v' = Inr ((), ?w)" using i n by (simp add: SetField_def deref_def store_def Let_def)
    moreover have "GetField ?p (int j) ?w = Inr (if j = i then x else if j = 0 then c else nilObject v, ?w)" if "j < ?n" for j
    proof -
      have "GetField ?p (int j) ?w = Inr ((o_fields ?ob)[i := x] ! j, ?w)" using that sn by (simp add: GetField_def deref_def del: list_update.simps)
      moreover have "(o_fields ?ob)[i := x] ! j = (if j = i then x else if j = 0 then c else nilObject v)"
        using that i sn by (auto simp: nth_list_update nth_Cons' simp del: list_update.simps)
      ultimately show ?thesis by simp
    qed
    ultimately show ?thesis by (intro exI [of _ ?w]) simp
  qed
  have "GetNumberOfFields ?p ?v' = Inr (int ?n, ?v')" "GetClass ?p ?v' = Inr (c, ?v')"
    using n by (simp_all add: GetNumberOfFields_def GetClass_def getMember_def derefAs_def deref_def)
  then show ?thesis
    using run fresh le vm_le_heap [OF le(1)] get set by (intro exI [of _ ?p] exI [of _ ?v'] conjI) blast+
qed

section \<open>A sample hierarchy\<close>

text \<open>The sample machine with class 24, which adds the field \<open>m\<close> to the field \<open>Frame\<close> of class 25.\<close>

definition sampleClass :: "ptr list \<Rightarrow> vmobject" where
  "sampleClass fs = \<lparr>o_kind = KClass, o_size = 64, o_fields = fs, o_slots = [], o_data = NoData\<rparr>"

definition sampleArray :: "ptr list \<Rightarrow> vmobject" where
  "sampleArray xs = \<lparr>o_kind = KArray, o_size = 48 + 4 * int (length xs), o_fields = [NULL], o_slots = xs, o_data = NoData\<rparr>"

definition vm7 :: vm where
  "vm7 = vm1\<lparr>heap := (heap vm1)(24 \<mapsto> sampleClass [NULL, 25, 23, 26, 5], 25 \<mapsto> sampleClass [NULL, NULL, 3, 27, 5],
     26 \<mapsto> sampleArray [23], 27 \<mapsto> sampleArray [3]), nextPtr := 28\<rparr>"

lemma vm7_ok: "vm_ok vm7"
  by (auto simp: vm_ok_def vm7_def vm1_eval NULL_def split: if_splits)

lemma vm7_fields: "ancestry vm7 24 [24, 25]" "layout vm7 [24, 25] = [3, 23]" "strOf vm7 23 = Some ''m''" "strOf vm7 3 = Some ''Frame''"
proof -
  have c: "classOf vm7 24 = Some (sampleClass [NULL, 25, 23, 26, 5])" "classOf vm7 25 = Some (sampleClass [NULL, NULL, 3, 27, 5])"
    by (simp_all add: classOf_def vm7_def sampleClass_def)
  have f: "fieldsOf vm7 24 = Some [23]" "fieldsOf vm7 25 = Some [3]"
    unfolding fieldsOf_def c by (simp_all add: sampleClass_def arrayOf_def vm7_def sampleArray_def arrayKinds_def array_size_ok_def
        sizeof_VMObject_def sizeof_pointer_def)
  have s: "superOf vm7 24 = Some 25" "superOf vm7 25 = None"
    unfolding superOf_def c by (simp_all add: sampleClass_def vm7_def vm1_ptrs NULL_def)
  have "path (superOf vm7) 24 25 [24]" by (rule path_step, rule s, simp, rule path_end)
  with s f show "ancestry vm7 24 [24, 25]" unfolding ancestry_def by (intro exI [of _ 25] exI [of _ "[24]"]) simp
  show "layout vm7 [24, 25] = [3, 23]" by (simp add: layout_def f)
  show "strOf vm7 23 = Some ''m''" "strOf vm7 3 = Some ''Frame''" by (simp_all add: strOf_def vm7_def vm1_facts cstr_def)
qed

lemma fields_layout_witness:
  "GetNumberOfInstanceFields 24 vm7 = Inr (2, vm7) \<and> LookupFieldIndex 24 23 vm7 = Inr (1, vm7) \<and>
   GetInstanceFieldName 24 2 vm7 = Inl (ErrorExit boundsError)"
proof -
  have all: "GetNumberOfInstanceFields 24 vm7 = Inr (int (length [3, 23 :: nat]), vm7)"
    "\<forall>i. GetInstanceFieldName 24 (int i) vm7 = (if i < length [3, 23 :: nat] then Inr ([3, 23] ! i, vm7) else Inl (ErrorExit boundsError))"
    "\<forall>name s. strOf vm7 name = Some s \<longrightarrow> (\<forall>f\<in>set [3, 23]. strOf vm7 f \<noteq> None) \<longrightarrow>
       LookupFieldIndex 24 name vm7 = (let i = length (takeWhile (\<lambda>f. strOf vm7 f \<noteq> Some s) [3, 23]) in
         if i < length [3, 23 :: nat] then Inr (int i, vm7) else Inl (ErrorExit boundsError))"
    using fields_layout [OF vm7_ok vm7_fields(1)] unfolding vm7_fields(2) by blast+
  from all(2) [THEN spec, of 2] have "GetInstanceFieldName 24 2 vm7 = Inl (ErrorExit boundsError)" by simp
  moreover have "LookupFieldIndex 24 23 vm7 = Inr (1, vm7)"
    using all(3) [THEN spec, THEN spec, THEN mp, OF vm7_fields(3), THEN mp] by (simp add: vm7_fields)
  ultimately show ?thesis using all(1) by simp
qed

lemma NewInstance_fields_witness:
  "\<exists>p v'. NewInstance 24 vm7 = Inr (p, v') \<and> GetNumberOfFields p v' = Inr (2, v') \<and> GetClass p v' = Inr (24, v') \<and> GetField p 1 v' = Inr (NULL, v')"
proof -
  obtain p v' where p: "NewInstance 24 vm7 = Inr (p, v')" "GetNumberOfFields p v' = Inr (2, v')" "GetClass p v' = Inr (24, v')"
    "\<forall>i. GetField p (int i) v' = (if i < 2 then Inr (if i = 0 then 24 else nilObject vm7, v') else Inl OutOfRange)"
    using NewInstance_fields [OF vm7_ok vm7_fields(1)] unfolding vm7_fields(2) by auto
  from p(4) [THEN spec, of 1] have "GetField p 1 v' = Inr (nilObject vm7, v')" by simp
  with p show ?thesis by (auto simp: vm7_def vm1_ptrs)
qed

end
