(* ===== verification/NotUnderstood.thy ===== *)
theory NotUnderstood
  imports EmergencyFrames ArithmeticProperties
begin

text \<open>
  Messages nobody understands: the arguments go from the stack into an array, in their order, and
  \<^verbatim>\<open>doesNotUnderstand:arguments:\<close> is sent with the signature and the array to the receiver.
\<close>

section \<open>What stack operations leave alone\<close>

lemma frameStep_unrelated:
  assumes "frameStep f v v'" "stackOf v f = Some xs" "heap v p = Some ob" "o_kind ob \<noteq> KFrame \<or> o_data ob \<noteq> NoData"
    "\<And>i. o_data ob \<noteq> IntData i"
  shows "heap v' p = Some ob"
proof -
  obtain fo where fo: "frameOf v f = Some fo" "intOf v (o_fields fo ! 4) = Some (int (length xs) - 1)"
    using assms(2) by (rule stackOfE)
  have "p \<noteq> f" using frameOf_facts(1,2,3) [OF fo(1)] assms(3,4) by auto
  moreover have "p \<noteq> o_fields fo ! 4" using fo(2) assms(3,5) by (auto simp: intOf_def split: payload.splits)
  ultimately show ?thesis using frameStep_other [OF assms(1) fo(1)] assms(3) by simp
qed

lemma frameStep_strOf:
  assumes "frameStep f v v'" "stackOf v f = Some xs" "strOf v p = Some s"
  shows "strOf v' p = Some s"
proof -
  obtain ob t where ob: "heap v p = Some ob" "o_data ob = StrData t" "s = cstr t"
    using assms(3) by (auto simp: strOf_def split: option.splits payload.splits)
  from frameStep_unrelated [OF assms(1,2) ob(1)] ob show ?thesis by (simp add: strOf_def)
qed

text \<open>An array that is no frame, with its elements.\<close>

definition elements :: "vm \<Rightarrow> ptr \<Rightarrow> ptr list \<Rightarrow> bool" where
  "elements v p ys \<longleftrightarrow> (\<exists>a. heap v p = Some a \<and> arrayOf v p = Some a \<and> o_kind a = KArray \<and> o_data a = NoData \<and> o_slots a = ys)"

lemma elements_ArrayGet: "elements v p ys \<Longrightarrow> i < length ys \<Longrightarrow> ArrayGet p (int i) v = Inr (ys ! i, v)"
  by (auto simp: elements_def ArrayGet_run)

lemma elements_cong: "heap v p = heap w p \<Longrightarrow> elements v p ys = elements w p ys"
  by (simp add: elements_def arrayOf_def)

lemma elements_ArraySet:
  assumes "elements v p ys" "i < length ys" "stackOf v f = Some xs" "vm_ok v"
  shows "\<exists>w. ArraySet p (int i) x v = Inr ((), w) \<and> elements w p (ys[i := x]) \<and> stackOf w f = Some xs \<and> roomOf w f = roomOf v f \<and>
    vm_ok w \<and> curFrame w = curFrame v \<and> (\<forall>q. q \<noteq> p \<longrightarrow> heap w q = heap v q)"
proof -
  obtain a where a: "heap v p = Some a" "arrayOf v p = Some a" "o_kind a = KArray" "o_data a = NoData" "o_slots a = ys"
    using assms(1) by (auto simp: elements_def)
  let ?a = "a\<lparr>o_slots := (o_slots a)[i := x]\<rparr>"
  let ?w = "v\<lparr>heap := (heap v)(p \<mapsto> ?a)\<rparr>"
  have run: "ArraySet p (int i) x v = Inr ((), ?w)" using ArraySet_run [OF a(2), of "int i" x] assms(2) a(5) by simp
  have fr: "frameOf ?w f = frameOf v f" using a(1,3) by (simp add: frameOf_def)
  have int: "intOf ?w q = intOf v q" for q using a(1,4) by (simp add: intOf_def)
  have st: "stackOf ?w f = Some xs" "roomOf ?w f = roomOf v f" using stackOf_cong [of ?w f v, OF fr int] assms(3) by simp_all
  have sy: "symOf ?w q = symOf v q" for q using a(1,4) by (simp add: symOf_def)
  have "vm_ok ?w" using assms(4) a(1) sy by (auto simp: vm_ok_def)
  moreover have "elements ?w p (ys[i := x])" using a by (auto simp: elements_def arrayOf_def array_size_ok_def split: if_splits)
  ultimately show ?thesis using run st by (intro exI [of _ ?w]) simp
qed

section \<open>The array of the arguments\<close>

lemma popInto:
  assumes "curFrame v = f" "vm_ok v" "stackOf v f = Some ys" "elements v p sl" "k \<le> length ys" "k \<le> length sl"
  shows "\<exists>w. forE (rev [0..<k]) (\<lambda>i. bindE (bindE GetFrame Pop) (\<lambda>x. ArraySet p (int i) x)) v = Inr ((), w) \<and>
     curFrame w = f \<and> vm_ok w \<and> stackOf w f = Some (drop k ys) \<and> roomOf w f = roomOf v f + k \<and>
     elements w p (rev (take k ys) @ drop k sl) \<and> (\<forall>q s. strOf v q = Some s \<longrightarrow> strOf w q = Some s)"
  using assms
proof (induction k arbitrary: v ys sl)
  case 0
  then show ?case by simp
next
  case (Suc k)
  obtain y zs where ys: "ys = y # zs" using Suc.prems(5) by (cases ys) auto
  obtain v1 where v1: "Pop f v = Inr (y, v1)" "stackOf v1 f = Some zs" "roomOf v1 f = roomOf v f + 1" "frameStep f v v1"
    using Pop_run [of v f y zs] Suc.prems(3) ys by blast
  have pop: "bindE GetFrame Pop v = Inr (y, v1)" using v1(1) Suc.prems(1) by (simp add: GetFrame_def)
  have ok1: "vm_ok v1" by (rule frameStep_ok [OF v1(4) Suc.prems(2)])
  obtain a where a: "heap v p = Some a" "o_kind a = KArray" "o_data a = NoData" using Suc.prems(4) by (auto simp: elements_def)
  have "heap v1 p = Some a" using frameStep_unrelated [OF v1(4) Suc.prems(3) a(1)] a(2,3) by simp
  with a(1) Suc.prems(4) have el1: "elements v1 p sl" using elements_cong [of v1 p v] by simp
  obtain w where w: "ArraySet p (int k) y v1 = Inr ((), w)" "elements w p (sl[k := y])" "stackOf w f = Some zs"
    "roomOf w f = roomOf v1 f" "vm_ok w" "curFrame w = curFrame v1" "\<forall>q. q \<noteq> p \<longrightarrow> heap w q = heap v1 q"
    using elements_ArraySet [OF el1 _ v1(2) ok1, of k y] Suc.prems(6) by auto
  have cur: "curFrame w = f" using w(6) frameStep_curFrame [OF v1(4)] Suc.prems(1) by simp
  obtain u where u: "forE (rev [0..<k]) (\<lambda>i. bindE (bindE GetFrame Pop) (\<lambda>x. ArraySet p (int i) x)) w = Inr ((), u)"
    "curFrame u = f" "vm_ok u" "stackOf u f = Some (drop k zs)" "roomOf u f = roomOf w f + k"
    "elements u p (rev (take k zs) @ drop k (sl[k := y]))" "\<forall>q s. strOf w q = Some s \<longrightarrow> strOf u q = Some s"
    using Suc.IH [OF cur w(5,3,2)] Suc.prems(5,6) ys by auto
  have "drop k (sl[k := y]) = y # drop (Suc k) sl"
    using Suc.prems(6) by (simp add: drop_update_swap Cons_nth_drop_Suc [symmetric] Suc_le_eq)
  moreover have "strOf u q = Some s" if "strOf v q = Some s" for q s
  proof -
    have "strOf v1 q = Some s" by (rule frameStep_strOf [OF v1(4) Suc.prems(3) that])
    moreover have "q \<noteq> p" using that a(1,3) by (auto simp: strOf_def)
    ultimately have "strOf w q = Some s" using w(7) by (simp add: strOf_def)
    with u(7) show ?thesis by blast
  qed
  ultimately show ?case
    using u v1 w pop by (intro exI [of _ u]) (simp add: ys)
qed

lemma popArguments_run:
  assumes "curFrame v = f" "vm_ok v" "stackOf v f = Some xs" "n \<le> length xs" "n < 536870912"
  shows "\<exists>w. popArguments n v = Inr (nextPtr v, w) \<and> curFrame w = f \<and> vm_ok w \<and> stackOf w f = Some (drop n xs) \<and>
     roomOf w f = roomOf v f + n \<and> elements w (nextPtr v) (rev (take n xs)) \<and> (\<forall>q s. strOf v q = Some s \<longrightarrow> strOf w q = Some s)"
proof -
  obtain v1 where v1: "NewArray (int n) v = Inr (nextPtr v, v1)" "vm_le v v1" "vm_ok v1"
    "heap v1 (nextPtr v) = Some \<lparr>o_kind = KArray, o_size = sizeof_VMObject + int n * sizeof_pointer,
       o_fields = [arrayClass v], o_slots = replicate n (nilObject v), o_data = NoData\<rparr>"
    using NewArray_run [OF assms(2,5)] by blast
  have "vm_rest v1 = vm_rest v" using v1(2) by (simp add: vm_le_def)
  from vm_rest_fields(8) [OF this] have cur: "curFrame v1 = f" using assms(1) by simp
  have old: "heap v1 p = heap v p" if "p < nextPtr v" for p
  proof -
    have "v1 = v\<lparr>heap := (heap v)(nextPtr v \<mapsto> \<lparr>o_kind = KArray, o_size = sizeof_VMObject + int n * sizeof_pointer,
       o_fields = [arrayClass v], o_slots = replicate n (nilObject v), o_data = NoData\<rparr>), nextPtr := nextPtr v + 1\<rparr>"
      using v1(1) assms(5) by (simp add: NewArray_def allocate_def)
    with that show ?thesis by simp
  qed
  note st = stackOf_below [OF assms(2,3) old]
  have el: "elements v1 (nextPtr v) (replicate n (nilObject v))"
    using v1(4) assms(5) by (simp add: elements_def arrayOf_def arrayKinds_def array_size_ok_def)
  obtain w where w: "forE (rev [0..<n]) (\<lambda>i. bindE (bindE GetFrame Pop) (\<lambda>x. ArraySet (nextPtr v) (int i) x)) v1 = Inr ((), w)"
     "curFrame w = f" "vm_ok w" "stackOf w f = Some (drop n xs)" "roomOf w f = roomOf v1 f + n"
     "elements w (nextPtr v) (rev (take n xs) @ drop n (replicate n (nilObject v)))" "\<forall>q s. strOf v1 q = Some s \<longrightarrow> strOf w q = Some s"
    using popInto [OF cur v1(3) st(1) el assms(4)] by auto
  then show ?thesis using v1(1,2) st(2) vm_le_strOf by (intro exI [of _ w]) (auto simp: popArguments_def)
qed

section \<open>The message\<close>

lemma Push_keeps:
  assumes "stackOf v f = Some xs" "0 < roomOf v f" "vm_ok v"
  shows "\<exists>w. Push f x v = Inr ((), w) \<and> stackOf w f = Some (x # xs) \<and> roomOf w f = roomOf v f - 1 \<and> vm_ok w \<and>
    curFrame w = curFrame v \<and> (\<forall>q s. strOf v q = Some s \<longrightarrow> strOf w q = Some s) \<and> (\<forall>q ys. elements v q ys \<longrightarrow> elements w q ys)"
proof -
  obtain w where w: "Push f x v = Inr ((), w)" "stackOf w f = Some (x # xs)" "roomOf w f = roomOf v f - 1" "frameStep f v w"
    using Push_run [OF assms(1,2)] by blast
  have "elements w q ys" if el: "elements v q ys" for q ys
  proof -
    obtain a where a: "heap v q = Some a" "o_kind a = KArray" "o_data a = NoData" using el by (auto simp: elements_def)
    have "heap w q = Some a" using frameStep_unrelated [OF w(4) assms(1) a(1)] a(2,3) by simp
    with a(1) el show ?thesis using elements_cong [of w q v] by simp
  qed
  with w frameStep_ok [OF w(4) assms(3)] frameStep_curFrame [OF w(4)] frameStep_strOf [OF w(4) assms(1)] show ?thesis by blast
qed

lemma extended_reads:
  assumes "\<forall>p ob. heap v p = Some ob \<longrightarrow> heap w p = Some ob"
  shows "stackOf v f = Some xs \<Longrightarrow> stackOf w f = Some xs" "stackOf v f = Some xs \<Longrightarrow> roomOf w f = roomOf v f"
    "strOf v p = Some s \<Longrightarrow> strOf w p = Some s" "elements v p ys \<Longrightarrow> elements w p ys"
proof -
  have st: "frameOf w f = frameOf v f \<and> (\<forall>ob. frameOf v f = Some ob \<longrightarrow> intOf w (o_fields ob ! 4) = intOf v (o_fields ob ! 4))"
    if f: "stackOf v f = Some xs"
  proof -
    obtain ob where ob: "frameOf v f = Some ob" "intOf v (o_fields ob ! 4) = Some (int (length xs) - 1)" using f by (rule stackOfE)
    have "heap w f = heap v f" using frameOf_facts(1) [OF ob(1)] assms by simp
    then have "frameOf w f = frameOf v f" by (rule frameOf_cong)
    moreover have "heap w (o_fields ob ! 4) = heap v (o_fields ob ! 4)" using ob(2) assms by (auto simp: intOf_Some)
    then have "intOf w (o_fields ob ! 4) = intOf v (o_fields ob ! 4)" by (rule intOf_cong)
    ultimately show ?thesis using ob(1) by simp
  qed
  show "stackOf w f = Some xs" "roomOf w f = roomOf v f" if f: "stackOf v f = Some xs"
  proof -
    obtain ob where ob: "frameOf v f = Some ob" using f by (rule stackOfE)
    then have "frameOf w f = Some ob" "intOf w (o_fields ob ! 4) = intOf v (o_fields ob ! 4)" using st [OF f] by simp_all
    with f ob show "stackOf w f = Some xs" "roomOf w f = roomOf v f" by (simp_all add: stackOf_def roomOf_def)
  qed
  show "strOf w p = Some s" if "strOf v p = Some s"
    using that assms by (auto simp: strOf_def split: option.splits payload.splits)
  show "elements w p ys" if "elements v p ys"
    using that assms by (auto simp: elements_def arrayOf_def split: option.splits)
qed

text \<open>C20. A message without a method becomes doesNotUnderstand:arguments: to its receiver: the
  receiver and the arguments leave the stack and become, in their order, the elements of a new
  array, and the receiver, the signature and that array are pushed, in an emergency frame when
  there is no room, before that message is looked up.\<close>

lemma message_not_understood:
  assumes "curFrame v = f" "vm_ok v" "stackOf v f = Some xs" "LookupInvokable cls sig v = Inr (NULL, v)" "strOf v sig = Some s"
    and "GetNumberOfArguments s = na" "na \<le> length xs" "length xs + roomOf v f + 3 < 536870912"
  shows "\<exists>w g sel args. stackOf w g = Some (args # sig # xs ! (na - 1) # drop na xs) \<and> curFrame w = g \<and> vm_ok w \<and>
     strOf w sel = Some dnu \<and> strOf w sig = Some s \<and> heap v args = None \<and> (\<forall>i<na. ArrayGet args (int i) w = Inr (xs ! (na - 1 - i), w)) \<and>
     send ext n sig cls v = bindE (GetClass (xs ! (na - 1))) (\<lambda>cl. bindE (LookupInvokable cl sel) (\<lambda>i. invoke ext n i g)) w"
proof -
  let ?recv = "xs ! (na - 1)" and ?args = "nextPtr v"
  have na: "0 < na" using assms(6) by (auto simp: GetNumberOfArguments_def)
  have recv: "GetStackElement f (int na - 1) v = Inr (?recv, v)"
    using GetStackElement_run [OF assms(3), of "na - 1"] na assms(7) by (simp add: of_nat_diff)
  obtain v1 where v1: "popArguments na v = Inr (?args, v1)" "curFrame v1 = f" "vm_ok v1" "stackOf v1 f = Some (drop na xs)"
    "roomOf v1 f = roomOf v f + na" "elements v1 ?args (rev (take na xs))" "\<forall>q s. strOf v q = Some s \<longrightarrow> strOf v1 q = Some s"
    using popArguments_run [OF assms(1,2,3,7)] assms(7,8) by auto
  have st1: "stackOf v1 (curFrame v1) = Some (drop na xs)" "length (drop na xs) + 3 < 536870912"
    "length (drop na xs) + roomOf v1 (curFrame v1) < 536870912"
    using v1(2,4,5) assms(7,8) by simp_all
  obtain v2 where v2: "makeRoom (int 3) v1 = Inr ((), v2)" "stackOf v2 (curFrame v2) = Some (drop na xs)" "3 \<le> roomOf v2 (curFrame v2)"
    "vm_ok v2" "\<forall>p ob. heap v1 p = Some ob \<longrightarrow> heap v2 p = Some ob"
    using makeRoom_run [OF v1(3) st1] by blast
  let ?g = "curFrame v2"
  obtain sel v3 where v3: "SymbolFor dnu v2 = Inr (sel, v3)" "vm_le v2 v3" "vm_ok v3" "symOf v3 sel = Some (cstr dnu)"
    using SymbolFor_run [OF v2(4), of dnu] by blast
  have "vm_rest v3 = vm_rest v2" using v3(2) by (simp add: vm_le_def)
  then have cur3: "curFrame v3 = ?g" by (rule vm_rest_fields(8))
  have sel3: "strOf v3 sel = Some dnu" using v3(4) by (auto simp: symOf_def strOf_def cstr_def dnu_def split: option.splits payload.splits if_splits)
  have le3: "\<forall>p ob. heap v2 p = Some ob \<longrightarrow> heap v3 p = Some ob" using vm_le_heap [OF v3(2)] by blast
  note up2 = extended_reads [OF v2(5)] and up3 = extended_reads [OF le3]
  have sig3: "strOf v3 sig = Some s" using assms(5) v1(7) up2(3) up3(3) by blast
  have el3: "elements v3 ?args (rev (take na xs))" using v1(6) up2(4) up3(4) by blast
  have st3: "stackOf v3 ?g = Some (drop na xs)" "3 \<le> roomOf v3 ?g" using up3(1,2) [OF v2(2)] v2(3) by simp_all
  obtain v4 where v4: "Push ?g ?recv v3 = Inr ((), v4)" "stackOf v4 ?g = Some (?recv # drop na xs)" "roomOf v4 ?g = roomOf v3 ?g - 1"
    "vm_ok v4" "curFrame v4 = ?g" "\<forall>q s. strOf v3 q = Some s \<longrightarrow> strOf v4 q = Some s" "\<forall>q ys. elements v3 q ys \<longrightarrow> elements v4 q ys"
    using Push_keeps [OF st3(1) _ v3(3), of ?recv] st3(2) cur3 by auto
  have r4: "0 < roomOf v4 ?g" using v4(3) st3(2) by linarith
  obtain v5 where v5: "Push ?g sig v4 = Inr ((), v5)" "stackOf v5 ?g = Some (sig # ?recv # drop na xs)" "roomOf v5 ?g = roomOf v4 ?g - 1"
    "vm_ok v5" "curFrame v5 = ?g" "\<forall>q s. strOf v4 q = Some s \<longrightarrow> strOf v5 q = Some s" "\<forall>q ys. elements v4 q ys \<longrightarrow> elements v5 q ys"
    using Push_keeps [OF v4(2) r4 v4(4), of sig] v4(5) by auto
  have r5: "0 < roomOf v5 ?g" using v5(3) v4(3) st3(2) by linarith
  obtain w where w: "Push ?g ?args v5 = Inr ((), w)" "stackOf w ?g = Some (?args # sig # ?recv # drop na xs)"
    "vm_ok w" "curFrame w = ?g" "\<forall>q s. strOf v5 q = Some s \<longrightarrow> strOf w q = Some s" "\<forall>q ys. elements v5 q ys \<longrightarrow> elements w q ys"
    using Push_keeps [OF v5(2) r5 v5(4), of ?args] v5(5) by auto
  have elw: "elements w ?args (rev (take na xs))" using el3 v4(7) v5(7) w(6) by blast
  have strw: "strOf w sel = Some dnu" "strOf w sig = Some s" using sel3 sig3 v4(6) v5(6) w(5) by blast+
  have get: "ArrayGet ?args (int i) w = Inr (xs ! (na - 1 - i), w)" if "i < na" for i
    using elements_ArrayGet [OF elw, of i] that assms(7) by (simp add: rev_nth)
  have cast: "dynamic_cast_VMInvokable NULL v = Inr (NULL, v)" by (simp add: dynamic_cast_VMInvokable_def)
  have run: "send ext n sig cls v = bindE (GetClass ?recv) (\<lambda>cl. bindE (LookupInvokable cl sel) (\<lambda>i. invoke ext n i ?g)) w"
    using v2(1) by (simp add: send_def assms(4) cast GetStdString_run [OF assms(5)] Let_def assms(6) GetFrame_def assms(1) recv v1(1)
        Send_def SendTo_def v3(1) cur3 v4(1) v5(1) w(1) del: One_nat_def)
  have "heap v ?args = None" using assms(2) by (simp add: vm_ok_fresh)
  with run get strw w show ?thesis by (intro exI [of _ w] exI [of _ ?g] exI [of _ sel] exI [of _ ?args]) blast
qed

lemma message_not_understood_witness:
  "LookupInvokable 4 3 vm1 = Inr (NULL, vm1) \<and> (\<exists>w g args. stackOf w g = Some [args, 3, 12, NULL, 12] \<and> ArrayGet args 0 w = Inr (12, w) \<and>
     (\<exists>sel. strOf w sel = Some dnu \<and>
        send sampleExt 1 3 4 vm1 = bindE (GetClass 12) (\<lambda>cl. bindE (LookupInvokable cl sel) (\<lambda>i. invoke sampleExt 1 i g)) w))"
proof -
  have look: "LookupInvokable 4 3 vm1 = Inr (NULL, vm1)"
    using LookupInvokable_run [OF vm1_chain vm1_ok, of 3] by (simp add: hasSignature_def vm1_signature)
  have str: "strOf vm1 3 = Some ''Frame''" by (simp add: strOf_def vm1_facts cstr_def)
  have na: "GetNumberOfArguments ''Frame'' = 1" by (simp add: GetNumberOfArguments_def IsBinary_def binary_chars_def)
  obtain w g sel args where w: "stackOf w g = Some (args # 3 # [12, NULL, 12] ! (1 - 1) # drop 1 [12, NULL, 12])" "strOf w sel = Some dnu"
    "\<forall>i<1. ArrayGet args (int i) w = Inr ([12, NULL, 12] ! (1 - 1 - i), w)"
    "send sampleExt 1 3 4 vm1 = bindE (GetClass ([12, NULL, 12] ! (1 - 1))) (\<lambda>cl. bindE (LookupInvokable cl sel) (\<lambda>i. invoke sampleExt 1 i g)) w"
    using message_not_understood [OF vm1_ptrs(3) vm1_ok vm1_stack(1) look str na, of sampleExt 1] vm1_stack(2) by auto
  have "ArrayGet args 0 w = Inr (12, w)" using w(3) [THEN spec, of 0] by simp
  with w look show ?thesis by auto
qed

end
