(* ===== verification/Collector.thy ===== *)
theory Collector
  imports Interpreter
begin

text \<open>
  The collector: \<^verbatim>\<open>src/memory/Heap.cpp\<close>, the marking callbacks of
  \<^verbatim>\<open>src/glue/CollectorLanguageInterfaceImpl.cpp\<close>, what \<^verbatim>\<open>src/vmobjects/\<close> tells them of an
  object, and the marking loop of \<^verbatim>\<open>omr32/gc/base/MarkingScheme\<close> that drives them. The build
  configures a collector that marks and sweeps, stops the world and moves nothing.

  The state puts around the virtual machine what the collector keeps: the array of recent
  allocations with its greatest length so far, the counter of \<^verbatim>\<open>Heap\<close>, the mark map, the work
  stack and the table of all objects. The order in which a hash table is walked is an argument:
  the names of the root table in that order.
\<close>

record gc =
  g_vm :: vm
  recent :: "ptr list"
  maxRecent :: nat
  uninterruptableCounter :: int
  marked :: "ptr set"
  workStack :: "ptr list"
  objectTable :: "ptr list"

type_synonym 'a gcM = "(gc, 'a) se"

named_theorems gc_defs \<open>definitions of the collector\<close>

section \<open>Recent allocations\<close>

text \<open>\<^verbatim>\<open>UninterruptableAllocationObjectArray\<close> is a static array of 65536 entries, which the code
  fills without a test of the bound.\<close>

definition addUninterruptableAllocationObject :: "ptr \<Rightarrow> unit gcM" where
  [gc_defs]: "addUninterruptableAllocationObject objptr = (\<lambda>g.
     if 65536 \<le> length (recent g) then Inl BufferOverflow
     else Inr ((), g\<lparr>recent := recent g @ [objptr],
                    maxRecent := max (maxRecent g) (length (recent g) + 1)\<rparr>))"

definition removeAllUninterruptableAllocationObject :: "unit gcM" where
  [gc_defs]: "removeAllUninterruptableAllocationObject = modifyE (\<lambda>g. g\<lparr>recent := []\<rparr>)"

definition StartUninterruptableAllocation :: "unit gcM" where
  [gc_defs]: "StartUninterruptableAllocation =
     modifyE (\<lambda>g. g\<lparr>uninterruptableCounter := uninterruptableCounter g + 1\<rparr>)"

definition EndUninterruptableAllocation :: "unit gcM" where
  [gc_defs]: "EndUninterruptableAllocation =
     thenE (modifyE (\<lambda>g. g\<lparr>uninterruptableCounter := uninterruptableCounter g - 1\<rparr>))
    (bindE (getsE uninterruptableCounter) (\<lambda>c.
       whenE (c = 0) removeAllUninterruptableAllocationObject))"

text \<open>The constructor of \<^verbatim>\<open>VMObject\<close> enters every object into the object table, under a name made
  from its address; an entry with that name is reused.\<close>

definition addToObjectTable :: "ptr \<Rightarrow> unit gcM" where
  [gc_defs]: "addToObjectTable p = modifyE (\<lambda>g. g\<lparr>objectTable := List.insert p (objectTable g)\<rparr>)"

text \<open>An operation of the virtual machine whose objects need no constructor with a section of its
  own: \<^verbatim>\<open>Heap::Allocate\<close> records each new object, the constructor enters it into the table.\<close>

definition onMachine :: "'a vmM \<Rightarrow> 'a gcM" where
  [gc_defs]: "onMachine m = (\<lambda>g. case m (g_vm g) of Inl e \<Rightarrow> Inl e
     | Inr r \<Rightarrow>
         thenE (forE [nextPtr (g_vm g)..<nextPtr (snd r)] (\<lambda>p.
                  thenE (addUninterruptableAllocationObject p) (addToObjectTable p)))
           (returnE (fst r)) (g\<lparr>g_vm := snd r\<rparr>))"

section \<open>What an object shows the collector\<close>

text \<open>A primitive has two fields behind the pointers of \<^verbatim>\<open>VMInvokable\<close>, the routine and the flag
  \<^verbatim>\<open>empty\<close>; they are no object pointers and not among \<open>o_fields\<close>.\<close>

definition nonPointerFields :: "kind \<Rightarrow> int" where
  "nonPointerFields k = (if k = KPrimitive \<or> k = KEvaluationPrimitive then 2 else 0)"

definition numberOfIndexableFields :: "ptr \<Rightarrow> int vmM" where
  [gc_defs]: "numberOfIndexableFields p =
     bindE (deref p) (\<lambda>ob.
       if o_kind ob \<in> set arrayKinds then GetNumberOfIndexableFields p
       else if o_kind ob = KMethod then NumberOfConstants p
       else returnE 0)"

definition GetNumberOfMarkableFields :: "ptr \<Rightarrow> int vmM" where
  [gc_defs]: "GetNumberOfMarkableFields p =
     bindE (deref p) (\<lambda>ob.
       let n = int (length (o_fields ob)) + nonPointerFields (o_kind ob) in
       if o_kind ob = KPrimitive then returnE (n - 2)
       else if o_kind ob = KEvaluationPrimitive then returnE (n - 2 + 1)
       else bindE (numberOfIndexableFields p) (\<lambda>m. returnE (n + m)))"

text \<open>The field, the indexable pointer behind the fields, or for the evaluation primitive its
  \<^verbatim>\<open>numberOfArguments\<close>. Both accesses are unchecked.\<close>

definition GetMarkableFieldObj :: "ptr \<Rightarrow> int \<Rightarrow> ptr vmM" where
  [gc_defs]: "GetMarkableFieldObj p idx =
     bindE (deref p) (\<lambda>ob.
       if o_kind ob = KEvaluationPrimitive then
         bindE (GetNumberOfMarkableFields p) (\<lambda>mfn.
           if idx < mfn - 1 then GetField p idx
           else if idx = mfn - 1 then
             (case o_data ob of EvalData _ _ n \<Rightarrow> returnE n | _ \<Rightarrow> throwE BadCast)
           else returnE NULL)
       else
         bindE (numberOfIndexableFields p) (\<lambda>m.
           let fn = int (length (o_fields ob)) + nonPointerFields (o_kind ob) in
           if idx < fn + m then GetField p idx else returnE NULL))"

section \<open>Marking\<close>

text \<open>The heap is the range of addresses handed out so far. The assertion of
  \<^verbatim>\<open>assertSaneObjectPtr\<close> stops the program.\<close>

definition isHeapObject :: "gc \<Rightarrow> ptr \<Rightarrow> bool" where
  "isHeapObject g p \<longleftrightarrow> p \<noteq> NULL \<and> p < nextPtr (g_vm g)"

definition inlineMarkObjectNoCheck :: "ptr \<Rightarrow> bool gcM" where
  [gc_defs]: "inlineMarkObjectNoCheck objectPtr = (\<lambda>g.
     if \<not> isHeapObject g objectPtr then Inl (Signal ''SIGABRT'')
     else if objectPtr \<in> marked g then Inr (False, g)
     else Inr (True, g\<lparr>marked := insert objectPtr (marked g), workStack := objectPtr # workStack g\<rparr>))"

definition inlineMarkObject :: "ptr \<Rightarrow> bool gcM" where
  [gc_defs]: "inlineMarkObject objectPtr =
     (if objectPtr \<noteq> NULL then inlineMarkObjectNoCheck objectPtr else returnE False)"

definition markObject :: "ptr \<Rightarrow> bool gcM" where
  [gc_defs]: "markObject objectPtr = inlineMarkObject objectPtr"

definition isMarked :: "gc \<Rightarrow> ptr \<Rightarrow> bool" where
  "isMarked g p \<longleftrightarrow> (if isHeapObject g p then p \<in> marked g else True)"

text \<open>Reading the machine from a callback.\<close>

definition inspect :: "'a vmM \<Rightarrow> 'a gcM" where
  [gc_defs]: "inspect m = liftE g_vm (\<lambda>v g. g\<lparr>g_vm := v\<rparr>) m"

definition ignoreE :: "('s, 'a) se \<Rightarrow> ('s, unit) se" where
  "ignoreE m = bindE m (\<lambda>_. returnE ())"

definition scanObject :: "ptr \<Rightarrow> unit gcM" where
  [gc_defs]: "scanObject objectPtr =
     bindE (inspect (GetNumberOfMarkableFields objectPtr)) (\<lambda>totalfields.
       forE [0..<nat totalfields] (\<lambda>i.
         bindE (inspect (GetMarkableFieldObj objectPtr (int i))) (\<lambda>onefield.
         bindE (getsE (\<lambda>g. isHeapObject g onefield)) (\<lambda>h.
           whenE (onefield \<noteq> NULL \<and> h) (ignoreE (markObject onefield))))))"

definition scanRoots :: "string list \<Rightarrow> unit gcM" where
  [gc_defs]: "scanRoots names =
     thenE (forE names (\<lambda>n.
              bindE (getsE (\<lambda>g. rootTable (g_vm g) n)) (\<lambda>rEntry.
                case rEntry of Some rootPtr \<Rightarrow> ignoreE (markObject rootPtr) | None \<Rightarrow> returnE ())))
    (bindE (getsE recent) (\<lambda>rs. forE rs (\<lambda>p. ignoreE (markObject p))))"

text \<open>\<^verbatim>\<open>while (NULL != (objectPtr = env->_workStack.pop(env))) scanObject(...)\<close>. The work stack
  of the model does not overflow, so the loop around it makes one round. Every object is pushed
  once, as it is marked: the number of objects bounds the rounds.\<close>

definition popWork :: "ptr gcM" where
  [gc_defs]: "popWork = (\<lambda>g. case workStack g of [] \<Rightarrow> Inr (NULL, g)
     | p # ps \<Rightarrow> Inr (p, g\<lparr>workStack := ps\<rparr>))"

definition completeScan :: "unit gcM" where
  [gc_defs]: "completeScan =
     bindE (getsE (\<lambda>g. nextPtr (g_vm g))) (\<lambda>bound.
       whileE bound (\<lambda>g. workStack g \<noteq> []) (bindE popWork scanObject))"

definition masterCleanupAfterGC :: "unit gcM" where
  [gc_defs]: "masterCleanupAfterGC =
     modifyE (\<lambda>g. g\<lparr>objectTable := filter (isMarked g) (objectTable g)\<rparr>)"

text \<open>\<^verbatim>\<open>MM_ParallelGlobalGC::markAll\<close> with the task it runs: reset the work stack and the mark
  map, mark the roots, scan, clean up.\<close>

definition markAll :: "string list \<Rightarrow> unit gcM" where
  [gc_defs]: "markAll names =
     thenE (modifyE (\<lambda>g. g\<lparr>marked := {}, workStack := []\<rparr>))
    (thenE (scanRoots names)
    (thenE completeScan masterCleanupAfterGC))"

section \<open>Constructors that protect what they allocate\<close>

text \<open>The parts of \<^verbatim>\<open>VMFrame_new\<close> in the order of the constructors: \<^verbatim>\<open>VMObject\<close>, \<^verbatim>\<open>VMArray\<close> with its
  section, then \<^verbatim>\<open>VMFrame\<close> with its own.\<close>

definition VMFrame_base :: "int \<Rightarrow> ptr gcM" where
  [gc_defs]: "VMFrame_base len =
     (if len < 0 \<or> 536870912 \<le> len then throwE OutOfRange
      else
       bindE (onMachine (bindE (getsE (\<lambda>v. (newFields v 6, nilObject v))) (\<lambda>fn.
           allocate \<lparr>o_kind = KFrame,
             o_size = sizeof_VMObject + 24 + len * sizeof_pointer,
             o_fields = fst fn, o_slots = replicate (nat len) (snd fn), o_data = NoData\<rparr>))) (\<lambda>p.
       thenE StartUninterruptableAllocation
      (thenE EndUninterruptableAllocation
         (returnE p))))"

definition VMFrame_members :: "ptr \<Rightarrow> unit gcM" where
  [gc_defs]: "VMFrame_members p =
     thenE StartUninterruptableAllocation
    (bindE (onMachine (NewInteger 0)) (\<lambda>lo. thenE (onMachine (setMember [KFrame] 6 p lo))
    (bindE (onMachine (NewInteger 0)) (\<lambda>bi. thenE (onMachine (setMember [KFrame] 5 p bi))
    (bindE (onMachine (NewInteger 0)) (\<lambda>sp. thenE (onMachine (setMember [KFrame] 4 p sp))
       EndUninterruptableAllocation))))))"

definition VMFrame_gc :: "int \<Rightarrow> ptr gcM" where
  [gc_defs]: "VMFrame_gc len = bindE (VMFrame_base len) (\<lambda>p. thenE (VMFrame_members p) (returnE p))"

definition VMMethod_base :: "nat \<Rightarrow> nat \<Rightarrow> ptr gcM" where
  [gc_defs]: "VMMethod_base bcCount numberOfConstants =
     bindE (onMachine (bindE (getsE (\<lambda>v. (newFields v 7, nilObject v))) (\<lambda>fn.
       allocate \<lparr>o_kind = KMethod,
         o_size = sizeof_VMObject + 28 + int bcCount + int numberOfConstants * sizeof_pointer,
         o_fields = fst fn, o_slots = replicate numberOfConstants (snd fn),
         o_data = CodeData (replicate bcCount 0)\<rparr>))) (\<lambda>p.
     thenE StartUninterruptableAllocation (returnE p))"

definition VMMethod_gc :: "nat \<Rightarrow> nat \<Rightarrow> ptr gcM" where
  [gc_defs]: "VMMethod_gc bcCount numberOfConstants =
     bindE (VMMethod_base bcCount numberOfConstants) (\<lambda>p.
     bindE (onMachine (NewInteger (int bcCount))) (\<lambda>i. thenE (onMachine (setMember [KMethod] 5 p i))
    (bindE (onMachine (NewInteger 0)) (\<lambda>i. thenE (onMachine (setMember [KMethod] 3 p i))
    (bindE (onMachine (NewInteger 0)) (\<lambda>i. thenE (onMachine (setMember [KMethod] 4 p i))
    (bindE (onMachine (NewInteger 0)) (\<lambda>i. thenE (onMachine (setMember [KMethod] 6 p i))
    (bindE (onMachine (NewInteger (int numberOfConstants))) (\<lambda>i. thenE (onMachine (setMember [KMethod] 7 p i))
    (thenE EndUninterruptableAllocation
       (returnE p))))))))))))"

text \<open>The constructors of arrays and of plain primitives have one section around what they store.\<close>

definition VMArray_gc :: "int \<Rightarrow> ptr gcM" where
  [gc_defs]: "VMArray_gc sz =
     bindE (onMachine (NewArray sz)) (\<lambda>p.
     thenE StartUninterruptableAllocation
    (thenE EndUninterruptableAllocation
       (returnE p)))"

definition VMPrimitive_gc :: "ptr \<Rightarrow> ptr gcM" where
  [gc_defs]: "VMPrimitive_gc signature =
     bindE (onMachine (VMPrimitive_new signature)) (\<lambda>p.
     thenE StartUninterruptableAllocation
    (thenE EndUninterruptableAllocation
       (returnE p)))"

section \<open>The hash tables\<close>

text \<open>The callbacks of the root table and of the object table: \<^verbatim>\<open>hash = (hash << 5) - hash + name[i]\<close>
  in 32 bits, with a signed \<^verbatim>\<open>char\<close>, and \<^verbatim>\<open>strcmp\<close>.\<close>

definition signedChar :: "char \<Rightarrow> 32 word" where
  "signedChar c = word_of_int (signed_take_bit 7 (of_char c))"

definition rootTableHashFn :: "string \<Rightarrow> 32 word" where
  "rootTableHashFn name = foldl (\<lambda>hash c. push_bit 5 hash - hash + signedChar c) 0 (cstr name)"

definition rootTableHashEqualFn :: "string \<Rightarrow> string \<Rightarrow> bool" where
  "rootTableHashEqualFn leftName rightName \<longleftrightarrow> cstr leftName = cstr rightName"

definition objectTableHashFn :: "string \<Rightarrow> 32 word" where
  "objectTableHashFn name = foldl (\<lambda>hash c. push_bit 5 hash - hash + signedChar c) 0 (cstr name)"

definition objectTableHashEqualFn :: "string \<Rightarrow> string \<Rightarrow> bool" where
  "objectTableHashEqualFn leftName rightName \<longleftrightarrow> cstr leftName = cstr rightName"

end
