(* ===== verification/Marking.thy ===== *)
theory Marking
  imports Collector HeapTyping
begin

text \<open>
  Laws of the collector: what an object shows the marking, the invariant of the marking loop and
  its end, and the constructors with their sections as the operations of the machine they are.
\<close>

section \<open>Reachability\<close>

definition pointersOf :: "vmobject \<Rightarrow> ptr list" where
  "pointersOf ob = o_fields ob @ o_slots ob @ (case o_data ob of EvalData _ _ n \<Rightarrow> [n] | _ \<Rightarrow> [])"

inductive_set reachable :: "vm \<Rightarrow> ptr set \<Rightarrow> ptr set" for v :: vm and R :: "ptr set" where
  root: "p \<in> R \<Longrightarrow> p \<noteq> NULL \<Longrightarrow> p \<in> reachable v R"
| field: "p \<in> reachable v R \<Longrightarrow> heap v p = Some ob \<Longrightarrow> q \<in> set (pointersOf ob) \<Longrightarrow>
    q \<noteq> NULL \<Longrightarrow> q < nextPtr v \<Longrightarrow> q \<in> reachable v R"

definition rootsOf :: "gc \<Rightarrow> ptr set" where
  "rootsOf g = ran (rootTable (g_vm g)) \<union> set (recent g)"

text \<open>An object a callback can scan: laid out as its class says, a method with the number of its
  constants in place.\<close>

definition scannable :: "vm \<Rightarrow> vmobject \<Rightarrow> bool" where
  "scannable v ob \<longleftrightarrow> laidOut (shape ob) \<and>
     (o_kind ob = KMethod \<longrightarrow> intOf v (o_fields ob ! 7) = Some (int (length (o_slots ob))))"

definition sound :: "vm \<Rightarrow> ptr set \<Rightarrow> bool" where
  "sound v R \<longleftrightarrow> (\<forall>p\<in>reachable v R. \<exists>ob. heap v p = Some ob \<and> scannable v ob)"

lemma reachable_least:
  assumes "\<And>p. p \<in> R \<Longrightarrow> p \<noteq> NULL \<Longrightarrow> p \<in> S"
    and "\<And>p ob q. p \<in> S \<Longrightarrow> heap v p = Some ob \<Longrightarrow> q \<in> set (pointersOf ob) \<Longrightarrow> q \<noteq> NULL \<Longrightarrow> q < nextPtr v \<Longrightarrow> q \<in> S"
  shows "reachable v R \<subseteq> S"
proof
  fix p assume "p \<in> reachable v R"
  then show "p \<in> S" by induction (auto intro: assms)
qed

lemma reachable_NULL: "NULL \<notin> reachable v R"
proof
  assume "NULL \<in> reachable v R"
  then show False by cases auto
qed

section \<open>Scanning an object\<close>

text \<open>What one call of markObject on a heap pointer does.\<close>

definition pushMark :: "ptr \<Rightarrow> gc \<Rightarrow> gc" where
  "pushMark q g = (if isHeapObject g q \<and> q \<notin> marked g
     then g\<lparr>marked := insert q (marked g), workStack := q # workStack g\<rparr> else g)"

lemma pushMark_keeps [simp]:
  "g_vm (pushMark q g) = g_vm g" "recent (pushMark q g) = recent g" "objectTable (pushMark q g) = objectTable g"
  "isHeapObject (pushMark q g) p = isHeapObject g p"
  by (simp_all add: pushMark_def isHeapObject_def)

lemma foldPush_keeps [simp]:
  "g_vm (foldl (\<lambda>g q. pushMark q g) g qs) = g_vm g" "recent (foldl (\<lambda>g q. pushMark q g) g qs) = recent g"
  "objectTable (foldl (\<lambda>g q. pushMark q g) g qs) = objectTable g"
  "isHeapObject (foldl (\<lambda>g q. pushMark q g) g qs) p = isHeapObject g p"
  by (induction qs arbitrary: g) simp_all

lemma markObject_run: "q = NULL \<or> isHeapObject g q \<Longrightarrow> ignoreE (markObject q) g = Inr ((), pushMark q g)"
  by (auto simp: ignoreE_def markObject_def inlineMarkObject_def inlineMarkObjectNoCheck_def pushMark_def isHeapObject_def bindE_def)

lemma forE_fold:
  assumes "\<And>i g. i < length xs \<Longrightarrow> g_vm g = v \<Longrightarrow> f i g = Inr ((), pushMark (xs ! i) g)" and "g_vm g = v"
  shows "forE [0..<length xs] f g = Inr ((), foldl (\<lambda>g q. pushMark q g) g xs)"
proof -
  have "forE [k..<length xs] f g = Inr ((), foldl (\<lambda>g q. pushMark q g) g (drop k xs))" if "k \<le> length xs" "g_vm g = v" for k g
    using that
  proof (induction "length xs - k" arbitrary: k g)
    case 0
    then show ?case by simp
  next
    case (Suc n)
    then have k: "k < length xs" by simp
    then have "drop k xs = xs ! k # drop (Suc k) xs" by (simp add: Cons_nth_drop_Suc)
    moreover have "forE [Suc k..<length xs] f (pushMark (xs ! k) g) =
        Inr ((), foldl (\<lambda>g q. pushMark q g) (pushMark (xs ! k) g) (drop (Suc k) xs))"
      using Suc k by (intro Suc.hyps(1)) auto
    ultimately show ?case using k assms(1) [OF k Suc.prems(2)] by (simp add: upt_conv_Cons)
  qed
  from this [of 0, OF _ assms(2)] show ?thesis by simp
qed

lemma numberOfIndexableFields_run:
  assumes "heap v p = Some ob" "scannable v ob" "nonPointerFields (o_kind ob) = 0"
  shows "numberOfIndexableFields p v = Inr (int (length (o_slots ob)), v)"
proof (cases "o_kind ob \<in> set arrayKinds")
  case True
  then have "array_size_ok ob" using assms(2)
    by (auto simp: scannable_def shape_def arrayKinds_def array_size_ok_def sizeof_VMObject_def sizeof_pointer_def)
  with True assms(1) show ?thesis
    by (simp add: numberOfIndexableFields_def GetNumberOfIndexableFields_def derefAs_def deref_def ArrayLength_ok)
next
  case False
  show ?thesis
  proof (cases "o_kind ob = KMethod")
    case True
    then have "7 < length (o_fields ob)" "intOf v (o_fields ob ! 7) = Some (int (length (o_slots ob)))"
      using assms(2) by (auto simp: scannable_def shape_def)
    with True False assms(1) show ?thesis
      by (simp add: numberOfIndexableFields_def NumberOfConstants_def getMember_def derefAs_def deref_def GetEmbeddedInteger_run)
  next
    case noMethod: False
    then have "o_slots ob = []" using False assms(2,3)
      by (cases "o_kind ob") (auto simp: scannable_def shape_def arrayKinds_def nonPointerFields_def)
    with noMethod False assms(1) show ?thesis by (simp add: numberOfIndexableFields_def deref_def)
  qed
qed

lemma markable_run:
  assumes "heap v p = Some ob" "scannable v ob"
  shows "GetNumberOfMarkableFields p v = Inr (int (length (pointersOf ob)), v)"
    and "i < length (pointersOf ob) \<Longrightarrow> GetMarkableFieldObj p (int i) v = Inr (pointersOf ob ! i, v)"
proof -
  have *: "GetNumberOfMarkableFields p v = Inr (int (length (pointersOf ob)), v) \<and>
    (i < length (pointersOf ob) \<longrightarrow> GetMarkableFieldObj p (int i) v = Inr (pointersOf ob ! i, v))"
  proof (cases "nonPointerFields (o_kind ob) = 0")
    case True
    then have k: "o_kind ob \<noteq> KPrimitive" "o_kind ob \<noteq> KEvaluationPrimitive" by (auto simp: nonPointerFields_def split: if_splits)
    then have p: "pointersOf ob = o_fields ob @ o_slots ob" using assms(2)
      by (cases "o_kind ob") (auto simp: pointersOf_def scannable_def shape_def fixedData_def split: payload.splits)
    show ?thesis using k p numberOfIndexableFields_run [OF assms True] True assms(1)
      by (simp add: GetNumberOfMarkableFields_def GetMarkableFieldObj_def deref_def GetField_def)
  next
    case False
    then consider (prim) "o_kind ob = KPrimitive" | (eval) "o_kind ob = KEvaluationPrimitive"
      by (auto simp: nonPointerFields_def split: if_splits)
    then show ?thesis
    proof cases
      case prim
      then have l: "length (o_fields ob) = 3" "o_slots ob = []" "pointersOf ob = o_fields ob" using assms(2)
        by (auto simp: scannable_def shape_def pointersOf_def fixedData_def split: payload.splits)
      with prim assms(1) show ?thesis
        by (simp add: GetNumberOfMarkableFields_def GetMarkableFieldObj_def deref_def GetField_def nonPointerFields_def
            numberOfIndexableFields_def arrayKinds_def)
    next
      case eval
      then obtain r e n where l: "length (o_fields ob) = 3" "o_slots ob = []" "o_data ob = EvalData r e n" using assms(2)
        by (auto simp: scannable_def shape_def fixedData_def split: payload.splits)
      then have "pointersOf ob = o_fields ob @ [n]" by (simp add: pointersOf_def)
      with eval assms(1) l show ?thesis
        by (auto simp: GetNumberOfMarkableFields_def GetMarkableFieldObj_def deref_def GetField_def nonPointerFields_def nth_append)
    qed
  qed
  from * show "GetNumberOfMarkableFields p v = Inr (int (length (pointersOf ob)), v)" by blast
  from * show "i < length (pointersOf ob) \<Longrightarrow> GetMarkableFieldObj p (int i) v = Inr (pointersOf ob ! i, v)" by blast
qed

lemma scanObject_run:
  assumes "heap (g_vm g) p = Some ob" "scannable (g_vm g) ob"
  shows "scanObject p g = Inr ((), foldl (\<lambda>g q. pushMark q g) g (pointersOf ob))"
proof -
  have ins: "inspect m h = Inr (x, h)" if "m (g_vm h) = Inr (x, g_vm h)" for m :: "'a vmM" and x h
    using that by (simp add: inspect_def)
  have step: "bindE (inspect (GetMarkableFieldObj p (int i))) (\<lambda>onefield.
         bindE (getsE (\<lambda>g. isHeapObject g onefield)) (\<lambda>h.
           whenE (onefield \<noteq> NULL \<and> h) (ignoreE (markObject onefield)))) h = Inr ((), pushMark (pointersOf ob ! i) h)"
    if "i < length (pointersOf ob)" "g_vm h = g_vm g" for i h
    using ins [of "GetMarkableFieldObj p (int i)" h "pointersOf ob ! i"] markable_run(2) [OF assms that(1)] that(2)
    by (cases "isHeapObject h (pointersOf ob ! i)") (auto simp: markObject_run isHeapObject_def pushMark_def)
  show ?thesis unfolding scanObject_def
    using ins [of "GetNumberOfMarkableFields p" g] markable_run(1) [OF assms] forE_fold [of "pointersOf ob", OF step refl] by simp
qed

section \<open>Marking\<close>

text \<open>The invariant of the marking: everything marked is reachable, the roots are marked, and what a
  marked object behind the work stack points to is marked.\<close>

definition marking :: "vm \<Rightarrow> ptr set \<Rightarrow> gc \<Rightarrow> bool" where
  "marking v R g \<longleftrightarrow> g_vm g = v \<and> marked g \<subseteq> reachable v R \<and> set (workStack g) \<subseteq> marked g \<and>
     (\<forall>p ob q. p \<in> marked g \<longrightarrow> p \<notin> set (workStack g) \<longrightarrow> heap v p = Some ob \<longrightarrow> q \<in> set (pointersOf ob) \<longrightarrow>
        q \<noteq> NULL \<longrightarrow> q < nextPtr v \<longrightarrow> q \<in> marked g)"

text \<open>Objects still to be marked, and those marked but not scanned: each round takes one away.\<close>

definition workLeft :: "vm \<Rightarrow> gc \<Rightarrow> nat" where
  "workLeft v g = card ({..<nextPtr v} - {NULL} - marked g) + length (workStack g)"

lemma foldPush_effect:
  assumes "h = foldl (\<lambda>g q. pushMark q g) g qs"
  shows "marked h = marked g \<union> {q \<in> set qs. isHeapObject g q}"
    and "set (workStack h) = set (workStack g) \<union> (marked h - marked g)"
    and "g_vm g = v \<Longrightarrow> workLeft v h = workLeft v g"
proof -
  have "marked h = marked g \<union> {q \<in> set qs. isHeapObject g q} \<and>
    set (workStack h) = set (workStack g) \<union> (marked h - marked g) \<and> (g_vm g = v \<longrightarrow> workLeft v h = workLeft v g)"
    using assms
  proof (induction qs arbitrary: g)
    case Nil
    then show ?case by simp
  next
    case (Cons q qs)
    have left: "workLeft v (pushMark q g) = workLeft v g" if "g_vm g = v"
    proof (cases "isHeapObject g q \<and> q \<notin> marked g")
      case True
      let ?A = "{..<nextPtr v} - {NULL} - marked g"
      have q: "q \<in> ?A" "finite ?A" using True that by (auto simp: isHeapObject_def)
      have "{..<nextPtr v} - {NULL} - insert q (marked g) = ?A - {q}" by auto
      moreover have "Suc (card (?A - {q})) = card ?A" using card_Suc_Diff1 [OF q(2,1)] .
      ultimately show ?thesis using True by (simp add: workLeft_def pushMark_def)
    qed (auto simp: pushMark_def)
    have "h = foldl (\<lambda>g q. pushMark q g) (pushMark q g) qs" using Cons.prems by simp
    note ih = Cons.IH [OF this]
    show ?case
    proof (intro conjI impI)
      show "marked h = marked g \<union> {x \<in> set (q # qs). isHeapObject g x}" using ih by (auto simp: pushMark_def isHeapObject_def)
      show "set (workStack h) = set (workStack g) \<union> (marked h - marked g)" using ih by (auto simp: pushMark_def isHeapObject_def split: if_splits)
      show "workLeft v h = workLeft v g" if "g_vm g = v" using ih left [OF that] that by simp
    qed
  qed
  then show "marked h = marked g \<union> {q \<in> set qs. isHeapObject g q}"
    "set (workStack h) = set (workStack g) \<union> (marked h - marked g)" "g_vm g = v \<Longrightarrow> workLeft v h = workLeft v g" by simp_all
qed

lemma marking_push:
  assumes "marking v R g" "\<And>q. q \<in> set qs \<Longrightarrow> isHeapObject g q \<Longrightarrow> q \<in> reachable v R"
  shows "marking v R (foldl (\<lambda>g q. pushMark q g) g qs)"
  using assms foldPush_effect(1,2) [OF refl, where g = g and qs = qs] unfolding marking_def by auto

text \<open>One round: the object taken from the work stack is scanned.\<close>

lemma marking_round:
  assumes "sound v R" "marking v R g" "workStack g \<noteq> []"
  shows "\<exists>g'. bindE popWork scanObject g = Inr ((), g') \<and> marking v R g' \<and> marked g \<subseteq> marked g' \<and>
     workLeft v g' < workLeft v g \<and> recent g' = recent g \<and> objectTable g' = objectTable g"
proof -
  obtain p ps where ws: "workStack g = p # ps" using assms(3) by (cases "workStack g") auto
  let ?g = "g\<lparr>workStack := ps\<rparr>"
  have gv: "g_vm g = v" and pr: "p \<in> reachable v R" using assms(2) ws by (auto simp: marking_def)
  obtain ob where ob: "heap v p = Some ob" "scannable v ob" using assms(1) pr unfolding sound_def by blast
  let ?h = "foldl (\<lambda>g q. pushMark q g) ?g (pointersOf ob)"
  have run: "scanObject p ?g = Inr ((), ?h)" by (rule scanObject_run) (use ob gv in simp_all)
  have eff: "marked ?h = marked g \<union> {q \<in> set (pointersOf ob). isHeapObject g q}"
    "set (workStack ?h) = set ps \<union> (marked ?h - marked g)" "workLeft v ?h = workLeft v ?g"
    using foldPush_effect [OF refl, where g = ?g and qs = "pointersOf ob"] gv by (simp_all add: isHeapObject_def)
  have re: "q \<in> reachable v R" if "q \<in> set (pointersOf ob)" "isHeapObject g q" for q
    using reachable.field [OF pr ob(1) that(1)] that(2) gv by (simp add: isHeapObject_def)
  have "marking v R ?h"
    unfolding marking_def
  proof (intro conjI allI impI)
    show "g_vm ?h = v" using gv by simp
    show "marked ?h \<subseteq> reachable v R" using eff(1) re assms(2) by (auto simp: marking_def)
    show "set (workStack ?h) \<subseteq> marked ?h" using eff(1,2) assms(2) ws by (auto simp: marking_def)
    fix r rb q
    assume r: "r \<in> marked ?h" "r \<notin> set (workStack ?h)" "heap v r = Some rb" "q \<in> set (pointersOf rb)" "q \<noteq> NULL" "q < nextPtr v"
    then have rm: "r \<in> marked g" "r \<notin> set ps" using eff by auto
    show "q \<in> marked ?h"
    proof (cases "r = p")
      case True
      then show ?thesis using r eff(1) ob gv by (auto simp: isHeapObject_def)
    next
      case False
      then have "q \<in> marked g" using rm r assms(2) ws unfolding marking_def by auto
      then show ?thesis using eff(1) by simp
    qed
  qed
  moreover have "workLeft v ?g < workLeft v g" using ws by (simp add: workLeft_def)
  ultimately show ?thesis using run ws eff by (intro exI [of _ ?h]) (auto simp: popWork_def bindE_def)
qed

lemma marking_loop:
  assumes "sound v R" "marking v R g" "workLeft v g \<le> n"
  shows "\<exists>g'. whileE n (\<lambda>g. workStack g \<noteq> []) (bindE popWork scanObject) g = Inr ((), g') \<and> marking v R g' \<and>
     marked g \<subseteq> marked g' \<and> workStack g' = [] \<and> recent g' = recent g \<and> objectTable g' = objectTable g"
  using assms
proof (induction n arbitrary: g)
  case 0
  then show ?case by (simp add: workLeft_def)
next
  case (Suc n)
  show ?case
  proof (cases "workStack g = []")
    case True
    with Suc.prems show ?thesis by simp
  next
    case False
    obtain g1 where g1: "bindE popWork scanObject g = Inr ((), g1)" "marking v R g1" "marked g \<subseteq> marked g1"
      "workLeft v g1 < workLeft v g" "recent g1 = recent g" "objectTable g1 = objectTable g"
      using marking_round [OF Suc.prems(1,2) False] by blast
    obtain g2 where "whileE n (\<lambda>g. workStack g \<noteq> []) (bindE popWork scanObject) g1 = Inr ((), g2)" "marking v R g2"
      "marked g1 \<subseteq> marked g2" "workStack g2 = []" "recent g2 = recent g1" "objectTable g2 = objectTable g1"
      using Suc.IH [OF Suc.prems(1) g1(2)] g1(4) Suc.prems(3) by fastforce
    with g1 False show ?thesis by (intro exI [of _ g2]) auto
  qed
qed

text \<open>The roots: the pointers of the root table in the order it is walked, then the recent
  allocations.\<close>

lemma mark_list:
  assumes "\<And>q. q \<in> set qs \<Longrightarrow> q = NULL \<or> isHeapObject g q"
  shows "forE qs (\<lambda>p. ignoreE (markObject p)) g = Inr ((), foldl (\<lambda>g q. pushMark q g) g qs)"
  using assms by (induction qs arbitrary: g) (simp_all add: markObject_run)

lemma mark_table:
  assumes "\<And>n. n \<in> set names \<Longrightarrow> \<exists>p. rootTable (g_vm g) n = Some p \<and> (p = NULL \<or> isHeapObject g p)"
  shows "forE names (\<lambda>n. bindE (getsE (\<lambda>g. rootTable (g_vm g) n)) (\<lambda>rEntry.
      case rEntry of Some rootPtr \<Rightarrow> ignoreE (markObject rootPtr) | None \<Rightarrow> returnE ())) g =
    Inr ((), foldl (\<lambda>g q. pushMark q g) g (map (\<lambda>n. the (rootTable (g_vm g) n)) names))"
  using assms
proof (induction names arbitrary: g)
  case (Cons n ns)
  obtain p where p: "rootTable (g_vm g) n = Some p" "p = NULL \<or> isHeapObject g p" using Cons.prems [of n] by auto
  have "\<exists>q. rootTable (g_vm (pushMark p g)) m = Some q \<and> (q = NULL \<or> isHeapObject (pushMark p g) q)" if "m \<in> set ns" for m
    using Cons.prems [of m] that by simp
  from Cons.IH [OF this] p show ?case by (simp add: markObject_run)
qed simp

text \<open>The marking comes to its end within the bound, marks exactly what is reachable from the
  globals and the recent allocations, and leaves exactly that in the object table.\<close>

lemma markAll_run:
  assumes "vm_ok (g_vm g)" "sound (g_vm g) (rootsOf g)" "set names = dom (rootTable (g_vm g))"
  shows "\<exists>g'. markAll names g = Inr ((), g') \<and> marked g' = reachable (g_vm g) (rootsOf g) \<and> g_vm g' = g_vm g \<and>
     recent g' = recent g \<and> objectTable g' = filter (\<lambda>p. isHeapObject g p \<longrightarrow> p \<in> reachable (g_vm g) (rootsOf g)) (objectTable g)"
proof -
  let ?v = "g_vm g" and ?R = "rootsOf g"
  let ?g0 = "g\<lparr>marked := {}, workStack := []\<rparr>"
  let ?qs = "map (\<lambda>n. the (rootTable ?v n)) names"
  have inHeap: "q = NULL \<or> isHeapObject g q" if "q \<in> ?R" for q
  proof (cases "q = NULL")
    case False
    then have "q \<in> reachable ?v ?R" using that by (rule reachable.root [rotated])
    then obtain ob where "heap ?v q = Some ob" using assms(2) unfolding sound_def by blast
    then show ?thesis using vm_ok_bound [OF assms(1)] by (simp add: isHeapObject_def)
  qed simp
  have qs: "set ?qs = ran (rootTable ?v)" using assms(3) by (force simp: ran_def dom_def)
  let ?g1 = "foldl (\<lambda>g q. pushMark q g) ?g0 ?qs"
  let ?g2 = "foldl (\<lambda>g q. pushMark q g) ?g1 (recent g)"
  have r1: "forE names (\<lambda>n. bindE (getsE (\<lambda>g. rootTable (g_vm g) n)) (\<lambda>rEntry.
      case rEntry of Some rootPtr \<Rightarrow> ignoreE (markObject rootPtr) | None \<Rightarrow> returnE ())) ?g0 = Inr ((), ?g1)"
  proof -
    have "\<exists>p. rootTable (g_vm ?g0) n = Some p \<and> (p = NULL \<or> isHeapObject ?g0 p)" if "n \<in> set names" for n
      using that assms(3) inHeap by (fastforce simp: rootsOf_def dom_def ran_def isHeapObject_def)
    from mark_table [of names ?g0, OF this] show ?thesis by simp
  qed
  have r2: "forE (recent g) (\<lambda>p. ignoreE (markObject p)) ?g1 = Inr ((), ?g2)"
    by (rule mark_list) (use inHeap in \<open>auto simp: rootsOf_def isHeapObject_def\<close>)
  have roots: "scanRoots names ?g0 = Inr ((), ?g2)" using r1 r2 by (simp add: scanRoots_def)
  have m0: "marking ?v ?R ?g0" by (simp add: marking_def)
  have "marking ?v ?R ?g1"
    by (rule marking_push [OF m0]) (use qs in \<open>auto simp: rootsOf_def isHeapObject_def intro: reachable.root\<close>)
  then have m2: "marking ?v ?R ?g2"
    by (rule marking_push) (auto simp: rootsOf_def isHeapObject_def intro: reachable.root)
  have rootsMarked: "q \<in> marked ?g2" if "q \<in> ?R" "q \<noteq> NULL" for q
    using that inHeap [OF that(1)] foldPush_effect(1) [OF refl, where g = ?g0 and qs = ?qs] foldPush_effect(1) [OF refl, where g = ?g1 and qs = "recent g"] qs
    by (auto simp: rootsOf_def isHeapObject_def)
  have "workLeft ?v ?g2 = workLeft ?v ?g0"
    using foldPush_effect(3) [OF refl, where g = ?g0 and v = ?v and qs = ?qs] foldPush_effect(3) [OF refl, where g = ?g1 and v = ?v and qs = "recent g"] by simp
  also have "\<dots> \<le> nextPtr ?v" using card_Diff1_le [of "{..<nextPtr ?v}" NULL] by (simp add: workLeft_def)
  finally have "workLeft ?v ?g2 \<le> nextPtr ?v" .
  then obtain g3 where g3: "completeScan ?g2 = Inr ((), g3)" "marking ?v ?R g3" "marked ?g2 \<subseteq> marked g3" "workStack g3 = []"
    "recent g3 = recent g" "objectTable g3 = objectTable g"
    using marking_loop [OF assms(2) m2, of "nextPtr ?v"] by (auto simp: completeScan_def bindE_def)
  have "reachable ?v ?R \<subseteq> marked g3"
    using g3 rootsMarked by (intro reachable_least) (auto simp: marking_def)
  then have eq: "marked g3 = reachable ?v ?R" and gv: "g_vm g3 = ?v" using g3(2) by (auto simp: marking_def)
  have "markAll names g = Inr ((), g3\<lparr>objectTable := filter (isMarked g3) (objectTable g3)\<rparr>)"
    using roots g3(1) by (simp add: markAll_def masterCleanupAfterGC_def)
  moreover have "isMarked g3 = (\<lambda>p. isHeapObject g p \<longrightarrow> p \<in> reachable ?v ?R)"
    using eq gv by (auto simp: isMarked_def isHeapObject_def fun_eq_iff)
  ultimately show ?thesis using eq gv g3(5,6) by (intro exI [of _ "g3\<lparr>objectTable := filter (isMarked g3) (objectTable g3)\<rparr>"]) simp
qed

text \<open>What a sweep of the unmarked objects leaves.\<close>

lemma swept_reachable:
  assumes "sound v R" "\<And>p. p \<in> reachable v R \<Longrightarrow> h p = heap v p"
  shows "reachable (v\<lparr>heap := h\<rparr>) R = reachable v R"
proof
  show "reachable (v\<lparr>heap := h\<rparr>) R \<subseteq> reachable v R"
    by (rule reachable_least) (auto intro: reachable.intros simp: assms(2))
  show "reachable v R \<subseteq> reachable (v\<lparr>heap := h\<rparr>) R"
    by (rule order_trans [OF reachable_least, of R "reachable v R \<inter> reachable (v\<lparr>heap := h\<rparr>) R" v])
       (auto intro: reachable.intros simp: assms(2))
qed

section \<open>Constructors\<close>

text \<open>With its sections, a constructor does to the machine what it does without them.\<close>

definition follows :: "'a gcM \<Rightarrow> 'a vmM \<Rightarrow> bool" where
  "follows M m \<longleftrightarrow> (\<forall>g x g'. M g = Inr (x, g') \<longrightarrow> m (g_vm g) = Inr (x, g_vm g'))"

named_theorems follows_intro \<open>operations of the collector that are operations of the machine\<close>

lemma record_keeps:
  "forE ps (\<lambda>p. thenE (addUninterruptableAllocationObject p) (addToObjectTable p)) g = Inr (x, g') \<Longrightarrow> g_vm g' = g_vm g"
  by (induction ps arbitrary: g)
     (auto simp: addUninterruptableAllocationObject_def addToObjectTable_def thenE_def bindE_def split: if_splits)

lemma follows_onMachine [follows_intro]: "follows (onMachine m) m"
  unfolding follows_def
proof (intro allI impI)
  fix g x g' assume run: "onMachine m g = Inr (x, g')"
  then obtain y v' where m: "m (g_vm g) = Inr (y, v')" by (cases "m (g_vm g)") (auto simp: onMachine_def)
  with run have "thenE (forE [nextPtr (g_vm g)..<nextPtr v'] (\<lambda>p. thenE (addUninterruptableAllocationObject p) (addToObjectTable p)))
      (returnE y) (g\<lparr>g_vm := v'\<rparr>) = Inr (x, g')" by (simp add: onMachine_def)
  then have "x = y" "g_vm g' = v'" by (auto elim!: thenE_InrE dest!: record_keeps)
  with m show "m (g_vm g) = Inr (x, g_vm g')" by simp
qed

lemma follows_sections [follows_intro]:
  "follows StartUninterruptableAllocation (returnE ())" "follows EndUninterruptableAllocation (returnE ())"
  by (auto simp: follows_def StartUninterruptableAllocation_def EndUninterruptableAllocation_def
      removeAllUninterruptableAllocationObject_def bindE_def thenE_def split: if_splits)

lemma follows_return [follows_intro]: "follows (returnE x) (returnE x)"
  by (simp add: follows_def)

lemma follows_throw [follows_intro]: "follows (throwE e) (throwE e)"
  by (simp add: follows_def)

lemma follows_bind [follows_intro]: "follows M m \<Longrightarrow> (\<And>x. follows (F x) (f x)) \<Longrightarrow> follows (bindE M F) (bindE m f)"
  unfolding follows_def by (fastforce elim: bindE_InrE)

lemma follows_then [follows_intro]: "follows M m \<Longrightarrow> follows K k \<Longrightarrow> follows (thenE M K) (thenE m k)"
  unfolding thenE_def by (rule follows_bind)

lemma follows_eq: "follows M m' \<Longrightarrow> m' = m \<Longrightarrow> follows M m"
  by simp

lemma follows_if [follows_intro]: "follows M m \<Longrightarrow> follows K k \<Longrightarrow> follows (if b then M else K) (if b then m else k)"
  by simp

lemma bind_assoc: "bindE (bindE a f) h = bindE a (\<lambda>x. bindE (f x) h)"
  by (auto simp: bindE_def fun_eq_iff split: sum.splits)

lemma bind_return: "bindE a returnE = a" "bindE (returnE x) f = f x"
  by (auto simp: bindE_def returnE_def fun_eq_iff split: sum.splits)

lemma bind_if: "bindE (if b then throwE e else a) f = (if b then throwE e else bindE a f)"
  by (simp add: bindE_def throwE_def fun_eq_iff)

lemmas monad_laws = thenE_def bind_assoc bind_return bind_if

lemma constructors_follow:
  "follows (VMArray_gc sz) (NewArray sz)" "follows (VMPrimitive_gc sig) (VMPrimitive_new sig)"
  "follows (VMFrame_gc len) (VMFrame_new len)" "follows (VMMethod_gc bcs consts) (VMMethod_new bcs consts)"
  subgoal unfolding VMArray_gc_def by (rule follows_eq, (rule follows_intro)+, simp only: monad_laws)
  subgoal unfolding VMPrimitive_gc_def by (rule follows_eq, (rule follows_intro)+, simp only: monad_laws)
  subgoal unfolding VMFrame_gc_def VMFrame_base_def VMFrame_members_def
    by (rule follows_eq, (rule follows_bind follows_then follows_if follows_intro)+, simp only: monad_laws VMFrame_new_def)
  subgoal unfolding VMMethod_gc_def VMMethod_base_def
    by (rule follows_eq, (rule follows_bind follows_then follows_intro)+, simp only: monad_laws VMMethod_new_def)
  done

end
