(* ===== verification/RootGaps.thy ===== *)
theory RootGaps
  imports Marking CallLaws
begin

text \<open>
  What the roots of the collector leave out: the current frame behind a frame that returned, the
  symbol table, and objects whose constructor is at work.
\<close>

section \<open>Machines\<close>

text \<open>A machine all of whose addresses hold scannable objects that point to no address beyond.\<close>

definition wellHeaped :: "vm \<Rightarrow> bool" where
  "wellHeaped v \<longleftrightarrow> vm_ok v \<and>
     (\<forall>p. p \<noteq> NULL \<longrightarrow> p < nextPtr v \<longrightarrow>
        (\<exists>ob. heap v p = Some ob \<and> scannable v ob \<and> (\<forall>q\<in>set (pointersOf ob). q < nextPtr v)))"

lemma wellHeaped_object:
  assumes "wellHeaped v" "heap v p = Some ob"
  shows "scannable v ob" "q \<in> set (pointersOf ob) \<Longrightarrow> q < nextPtr v"
proof -
  have "p \<noteq> NULL" "p < nextPtr v" using vm_ok_bound [of v p ob] assms by (auto simp: wellHeaped_def)
  with assms show "scannable v ob" "q \<in> set (pointersOf ob) \<Longrightarrow> q < nextPtr v" unfolding wellHeaped_def by auto
qed

lemma wellHeaped_sound:
  assumes "wellHeaped v" "\<And>p. p \<in> R \<Longrightarrow> p < nextPtr v"
  shows "sound v R"
proof -
  have "reachable v R \<subseteq> {p. p \<noteq> NULL \<and> p < nextPtr v}"
    by (rule reachable_least) (use assms(2) in auto)
  with assms(1) show ?thesis unfolding sound_def wellHeaped_def by blast
qed

lemma wellHeaped_vm_ok: "wellHeaped v \<Longrightarrow> vm_ok v"
  by (simp add: wellHeaped_def)

lemma scannable_cong:
  assumes "scannable v ob" "o_kind ob = KMethod \<Longrightarrow> intOf w (o_fields ob ! 7) = intOf v (o_fields ob ! 7)"
  shows "scannable w ob"
  using assms by (auto simp: scannable_def)

text \<open>An object nothing points to, but perhaps a given other one that is not reachable from it.\<close>

lemma unreachable:
  assumes "f \<notin> R" "\<And>p ob. heap v p = Some ob \<Longrightarrow> f \<notin> set (pointersOf ob)"
  shows "f \<notin> reachable v R"
proof -
  have "reachable v R \<subseteq> - {f}" by (rule reachable_least) (use assms in auto)
  then show ?thesis by blast
qed

section \<open>Returns\<close>

lemma popped_pointers:
  assumes "frameOf v g = Some gob" "nilObject v \<noteq> f" "f \<notin> set (drop 2 (o_fields gob)) \<union> set (o_slots gob)" "f \<noteq> o_fields gob ! 0"
    and "\<And>p ob. heap v p = Some ob \<Longrightarrow> p \<noteq> g \<Longrightarrow> f \<notin> set (pointersOf ob)"
    and "heap (popped v g gob) p = Some ob"
  shows "f \<notin> set (pointersOf ob)"
proof (cases "p = g")
  case True
  let ?fs = "(o_fields gob)[1 := nilObject v]"
  have ob: "ob = gob\<lparr>o_fields := ?fs\<rparr>" using assms(6) True by (simp add: popped_def)
  obtain a b fs where fs: "o_fields gob = a # b # fs" using frameOf_facts(5) [OF assms(1)]
    by (cases "o_fields gob"; cases "tl (o_fields gob)") auto
  show ?thesis using assms(2,3,4) frameOf_facts(3) [OF assms(1)] by (auto simp: ob pointersOf_def fs)
next
  case False
  then show ?thesis using assms(5,6) popped_other(1) [OF assms(1)] by simp
qed

lemma wellHeaped_popped:
  assumes "wellHeaped v" "frameOf v g = Some gob" "nilObject v < nextPtr v"
  shows "wellHeaped (popped v g gob)"
proof -
  let ?w = "popped v g gob"
  let ?gob = "gob\<lparr>o_fields := (o_fields gob)[1 := nilObject v]\<rparr>"
  have g: "heap v g = Some gob" "o_kind gob = KFrame" using frameOf_facts [OF assms(2)] by simp_all
  have w: "heap ?w = (heap v)(g \<mapsto> ?gob)" "nextPtr ?w = nextPtr v" "symtab ?w = symtab v" by (simp_all add: popped_def)
  have gb: "g \<noteq> NULL" "g < nextPtr v" using vm_ok_bound [OF wellHeaped_vm_ok [OF assms(1)] g(1)] by simp_all
  have sy: "symOf ?w p = symOf v p" for p using frameOf_facts(3) [OF assms(2)] g by (simp add: symOf_def w)
  have ok: "vm_ok ?w" using wellHeaped_vm_ok [OF assms(1)] gb by (simp add: vm_ok_def w sy)
  have "\<exists>ob. heap ?w p = Some ob \<and> scannable ?w ob \<and> (\<forall>q\<in>set (pointersOf ob). q < nextPtr ?w)" if "p \<noteq> NULL" "p < nextPtr v" for p
  proof (cases "p = g")
    case True
    have "scannable v gob" "\<And>q. q \<in> set (pointersOf gob) \<Longrightarrow> q < nextPtr v"
      using wellHeaped_object [OF assms(1) g(1)] by blast+
    then have "scannable ?w ?gob" "\<And>q. q \<in> set (pointersOf ?gob) \<Longrightarrow> q < nextPtr v"
      using g(2) assms(3) by (auto simp: scannable_def shape_def pointersOf_def dest!: set_update_subset_insert [THEN subsetD])
    with True show ?thesis by (simp add: w)
  next
    case False
    obtain ob where "heap v p = Some ob" "scannable v ob" "\<forall>q\<in>set (pointersOf ob). q < nextPtr v"
      using assms(1) \<open>p \<noteq> NULL\<close> \<open>p < nextPtr v\<close> unfolding wellHeaped_def by blast
    with False show ?thesis using scannable_cong [of v ob ?w] popped_other(2) [OF assms(2)] by (simp add: w)
  qed
  with ok show ?thesis by (simp add: wellHeaped_def w(2))
qed

text \<open>When a frame returns, the frame behind it becomes current, and the link from the frame that
  returned, which the root table still holds, is cleared: unless something else points to it, the
  current frame is not marked by a collection from then on.\<close>

lemma return_unprotects:
  assumes "wellHeaped (g_vm gc)" "\<And>p. p \<in> rootsOf gc \<Longrightarrow> p < nextPtr (g_vm gc)" "set names = dom (rootTable (g_vm gc))"
    and "nilObject (g_vm gc) < nextPtr (g_vm gc)" "nilObject (g_vm gc) \<noteq> f"
    and "curFrame (g_vm gc) = g" "frameOf (g_vm gc) g = Some gob" "o_fields gob ! 1 = f" "f \<notin> rootsOf gc"
    and "f \<notin> set (drop 2 (o_fields gob)) \<union> set (o_slots gob)" "f \<noteq> o_fields gob ! 0"
    and "\<And>p ob. heap (g_vm gc) p = Some ob \<Longrightarrow> p \<noteq> g \<Longrightarrow> f \<notin> set (pointersOf ob)"
  shows "\<exists>gc' gc''. inspect popFrame gc = Inr (g, gc') \<and> markAll names gc' = Inr ((), gc'') \<and>
     curFrame (g_vm gc'') = f \<and> f \<notin> marked gc''"
proof -
  let ?v = "g_vm gc" and ?w = "popped (g_vm gc) g gob"
  let ?gc = "gc\<lparr>g_vm := ?w\<rparr>"
  have pop: "inspect popFrame gc = Inr (g, ?gc)" using popFrame_run [OF assms(6,7)] by (simp add: inspect_def)
  have w: "rootTable ?w = rootTable ?v" "nextPtr ?w = nextPtr ?v" "curFrame ?w = f"
    using assms(8) by (simp_all add: popped_def del: One_nat_def)
  have roots: "rootsOf ?gc = rootsOf gc" by (simp add: rootsOf_def w)
  have wh: "wellHeaped ?w" by (rule wellHeaped_popped [OF assms(1,7,4)])
  then have "sound ?w (rootsOf ?gc)" using assms(2) by (intro wellHeaped_sound) (simp_all add: roots w)
  then obtain gc'' where "markAll names ?gc = Inr ((), gc'')" "marked gc'' = reachable ?w (rootsOf ?gc)" "g_vm gc'' = ?w"
    using markAll_run [of ?gc names] wellHeaped_vm_ok [OF wh] assms(3) by (auto simp: w)
  moreover have "f \<notin> reachable ?w (rootsOf ?gc)"
    by (rule unreachable) (use assms(9) roots popped_pointers [OF assms(7,5,10,11,12)] in auto)
  ultimately show ?thesis using pop w(3) by auto
qed

section \<open>Symbols\<close>

text \<open>Lookups of a symbol are answered from the symbol table, which is no root: a symbol made for
  a text, with nothing pointing to it when the next section ends, is not marked and stays in the table.\<close>

lemma onMachine_alloc:
  assumes "m (g_vm g) = Inr (x, v')" "nextPtr v' = nextPtr (g_vm g) + 1" "length (recent g) < 65536"
  shows "onMachine m g = Inr (x, g\<lparr>g_vm := v', recent := recent g @ [nextPtr (g_vm g)],
     maxRecent := max (maxRecent g) (length (recent g) + 1), objectTable := List.insert (nextPtr (g_vm g)) (objectTable g)\<rparr>)"
  using assms by (simp add: onMachine_def addUninterruptableAllocationObject_def addToObjectTable_def)

lemma onMachine_same:
  assumes "m (g_vm g) = Inr (x, v')" "nextPtr v' = nextPtr (g_vm g)"
  shows "onMachine m g = Inr (x, g\<lparr>g_vm := v'\<rparr>)"
  using assms by (simp add: onMachine_def)

text \<open>A whole section outside every other empties the array.\<close>

lemma section_empties:
  "uninterruptableCounter g = 0 \<Longrightarrow>
     thenE StartUninterruptableAllocation EndUninterruptableAllocation g = Inr ((), g\<lparr>recent := []\<rparr>)"
  by (simp add: StartUninterruptableAllocation_def EndUninterruptableAllocation_def removeAllUninterruptableAllocationObject_def)

lemma wellHeaped_alloc:
  assumes "wellHeaped v" "v' = v\<lparr>heap := (heap v)(nextPtr v \<mapsto> ob), nextPtr := nextPtr v + 1, symtab := t\<rparr>" "vm_ok v'"
    and "scannable v' ob" "\<And>q. q \<in> set (pointersOf ob) \<Longrightarrow> q < nextPtr v"
  shows "wellHeaped v'"
proof -
  have "\<exists>ob. heap v' p = Some ob \<and> scannable v' ob \<and> (\<forall>q\<in>set (pointersOf ob). q < nextPtr v')" if "p \<noteq> NULL" "p < nextPtr v'" for p
  proof (cases "p = nextPtr v")
    case True
    with assms(2,4,5) show ?thesis by fastforce
  next
    case False
    then have "p < nextPtr v" using that assms(2) by simp
    then obtain ob' where ob': "heap v p = Some ob'" "scannable v ob'" "\<forall>q\<in>set (pointersOf ob'). q < nextPtr v"
      using assms(1) \<open>p \<noteq> NULL\<close> unfolding wellHeaped_def by blast
    have "intOf v' q = intOf v q" if "intOf v q \<noteq> None" for q
      using that vm_ok_fresh [OF wellHeaped_vm_ok [OF assms(1)], of q] by (auto simp: intOf_def assms(2))
    with ob'(2) have "scannable v' ob'" by (auto simp: scannable_def)
    with ob' False show ?thesis by (auto simp: assms(2))
  qed
  with assms(3) show ?thesis by (simp add: wellHeaped_def)
qed

text \<open>A new object that nothing points to yet is not marked when the array of recent allocations
  is empty.\<close>

lemma fresh_unmarked:
  assumes "wellHeaped v" "\<And>p. p \<in> ran (rootTable v) \<Longrightarrow> p < nextPtr v" "set names = dom (rootTable v)"
    and "g_vm g = v\<lparr>heap := (heap v)(nextPtr v \<mapsto> ob), nextPtr := nextPtr v + 1, symtab := t\<rparr>" "recent g = []" "vm_ok (g_vm g)"
    and "scannable (g_vm g) ob" "\<And>q. q \<in> set (pointersOf ob) \<Longrightarrow> q < nextPtr v"
  shows "\<exists>g'. markAll names g = Inr ((), g') \<and> g_vm g' = g_vm g \<and> nextPtr v \<notin> marked g'"
proof -
  have roots: "rootsOf g = ran (rootTable v)" by (simp add: rootsOf_def assms(4,5))
  have "wellHeaped (g_vm g)" by (rule wellHeaped_alloc [OF assms(1,4,6,7,8)])
  then have "sound (g_vm g) (rootsOf g)"
    using wellHeaped_sound [of "g_vm g" "rootsOf g"] assms(2,4) roots by fastforce
  moreover have names: "set names = dom (rootTable (g_vm g))" using assms(3,4) by simp
  ultimately obtain g' where g': "markAll names g = Inr ((), g')" "marked g' = reachable (g_vm g) (rootsOf g)" "g_vm g' = g_vm g"
    using markAll_run [OF assms(6) _ names] by blast
  have "nextPtr v \<notin> reachable (g_vm g) (rootsOf g)"
  proof (rule unreachable)
    show "nextPtr v \<notin> rootsOf g" using assms(2) roots by fastforce
    show "nextPtr v \<notin> set (pointersOf x)" if "heap (g_vm g) p = Some x" for p x
    proof (cases "p = nextPtr v")
      case True
      with that assms(4) assms(8) [of "nextPtr v"] show ?thesis by auto
    next
      case False
      then have "heap v p = Some x" using that assms(4) by simp
      from wellHeaped_object(2) [OF assms(1) this, of "nextPtr v"] show ?thesis by blast
    qed
  qed
  with g' show ?thesis by auto
qed

lemma symbol_unprotected:
  assumes "wellHeaped (g_vm g)" "\<And>p. p \<in> ran (rootTable (g_vm g)) \<Longrightarrow> p < nextPtr (g_vm g)" "set names = dom (rootTable (g_vm g))"
    and "symtab (g_vm g) (cstr s) = NULL" "symbolClass (g_vm g) < nextPtr (g_vm g)"
    and "uninterruptableCounter g = 0" "length (recent g) < 65536"
  shows "\<exists>p g' g''. thenE (onMachine (SymbolFor s)) (thenE StartUninterruptableAllocation EndUninterruptableAllocation) g = Inr ((), g') \<and>
     markAll names g' = Inr ((), g'') \<and> SymbolFor s (g_vm g'') = Inr (p, g_vm g'') \<and> p \<notin> marked g''"
proof -
  let ?v = "g_vm g" and ?p = "nextPtr (g_vm g)"
  let ?ob = "\<lparr>o_kind = KSymbol, o_size = sizeof_VMString + int (length (cstr s)) + 1,
       o_fields = [symbolClass ?v], o_slots = [], o_data = StrData (cstr s)\<rparr>"
  let ?v' = "?v\<lparr>heap := (heap ?v)(?p \<mapsto> ?ob), nextPtr := ?p + 1, symtab := (symtab ?v)(cstr s := ?p)\<rparr>"
  have ok: "vm_ok ?v" using assms(1) by (rule wellHeaped_vm_ok)
  have run: "SymbolFor s ?v = Inr (?p, ?v')"
    using assms(4) by (simp add: SymbolFor_def symtab_lookup_def NewSymbol_def allocate_def symtab_insert_def GetStdString_def deref_def)
  have le: "vm_ok ?v'" using SymbolFor_run [OF ok, of s] run by auto
  let ?g' = "g\<lparr>g_vm := ?v', recent := [], maxRecent := max (maxRecent g) (length (recent g) + 1),
     objectTable := List.insert ?p (objectTable g)\<rparr>"
  have g': "thenE (onMachine (SymbolFor s)) (thenE StartUninterruptableAllocation EndUninterruptableAllocation) g = Inr ((), ?g')"
    using onMachine_alloc [of "SymbolFor s" g, OF run _ assms(7)] section_empties assms(6) by simp
  have "\<exists>g''. markAll names ?g' = Inr ((), g'') \<and> g_vm g'' = g_vm ?g' \<and> ?p \<notin> marked g''"
    by (rule fresh_unmarked [OF assms(1-3), where g = ?g' and ob = ?ob])
       (use assms(5) le in \<open>simp_all add: scannable_def shape_def fixedData_def sizeof_VMString_def sizeof_VMObject_def pointersOf_def\<close>)
  moreover have "SymbolFor s ?v' = Inr (?p, ?v')"
    using ok by (simp add: SymbolFor_def symtab_lookup_def vm_ok_def)
  ultimately show ?thesis using g' by fastforce
qed

section \<open>Frames under construction\<close>

text \<open>The section of the constructor of \<^verbatim>\<open>VMArray\<close> ends before the one of \<^verbatim>\<open>VMFrame\<close> begins, and
  empties the array: the frame whose integers are allocated next is in no root.\<close>

lemma frame_unprotected:
  assumes "wellHeaped (g_vm g)" "\<And>p. p \<in> ran (rootTable (g_vm g)) \<Longrightarrow> p < nextPtr (g_vm g)" "set names = dom (rootTable (g_vm g))"
    and "nilObject (g_vm g) < nextPtr (g_vm g)" "len < 536870912"
    and "uninterruptableCounter g = 0" "length (recent g) < 65536"
  shows "\<exists>p g' g''. VMFrame_base (int len) g = Inr (p, g') \<and> markAll names g' = Inr ((), g'') \<and>
     heap (g_vm g'') p \<noteq> None \<and> p \<notin> marked g''"
proof -
  let ?v = "g_vm g" and ?p = "nextPtr (g_vm g)"
  let ?ob = "\<lparr>o_kind = KFrame, o_size = sizeof_VMObject + 24 + int len * sizeof_pointer,
       o_fields = newFields ?v 6, o_slots = replicate len (nilObject ?v), o_data = NoData\<rparr>"
  let ?v' = "?v\<lparr>heap := (heap ?v)(?p \<mapsto> ?ob), nextPtr := ?p + 1, symtab := symtab ?v\<rparr>"
  let ?m = "bindE (getsE (\<lambda>v. (newFields v 6, nilObject v))) (\<lambda>fn.
           allocate \<lparr>o_kind = KFrame,
             o_size = sizeof_VMObject + 24 + int len * sizeof_pointer,
             o_fields = fst fn, o_slots = replicate (nat (int len)) (snd fn), o_data = NoData\<rparr>)"
  have ok: "vm_ok ?v" using assms(1) by (rule wellHeaped_vm_ok)
  have run: "?m ?v = Inr (?p, ?v')" by (simp add: allocate_def)
  have le: "vm_ok ?v'" using vm_le_alloc1 [OF ok, of ?v' ?ob] by simp
  let ?g' = "g\<lparr>g_vm := ?v', recent := [], maxRecent := max (maxRecent g) (length (recent g) + 1),
     objectTable := List.insert ?p (objectTable g)\<rparr>"
  have g': "VMFrame_base (int len) g = Inr (?p, ?g')"
    using onMachine_alloc [of ?m g, OF run _ assms(7)] assms(5,6)
    by (simp add: VMFrame_base_def StartUninterruptableAllocation_def EndUninterruptableAllocation_def removeAllUninterruptableAllocationObject_def)
  have ps: "q < ?p" if "q \<in> set (pointersOf ?ob)" for q
    using that assms(4) ok by (auto simp: pointersOf_def newFields_def vm_ok_def NULL_def split: if_splits)
  have "\<exists>g''. markAll names ?g' = Inr ((), g'') \<and> g_vm g'' = g_vm ?g' \<and> ?p \<notin> marked g''"
    by (rule fresh_unmarked [OF assms(1-3), where g = ?g' and ob = ?ob and t = "symtab ?v"])
       (use assms(5) le ps in \<open>simp_all add: scannable_def shape_def fixedData_def sizeof_VMObject_def sizeof_pointer_def newFields_def\<close>)
  then show ?thesis using g' by fastforce
qed

section \<open>Methods under construction\<close>

text \<open>The constructor of \<^verbatim>\<open>VMMethod\<close> up to its first \<open>i\<close> integers: the fields it fills, in their
  order, with the values of the integers.\<close>

definition methodMembers :: "nat \<Rightarrow> nat \<Rightarrow> (nat \<times> int) list" where
  "methodMembers bcCount numberOfConstants =
     [(5, int bcCount), (3, 0), (4, 0), (6, 0), (7, int numberOfConstants)]"

definition fillMember :: "ptr \<Rightarrow> nat \<times> int \<Rightarrow> unit gcM" where
  "fillMember p = (\<lambda>(k, n). bindE (onMachine (NewInteger n)) (\<lambda>i. onMachine (setMember [KMethod] k p i)))"

definition VMMethod_upto :: "nat \<Rightarrow> nat \<Rightarrow> nat \<Rightarrow> ptr gcM" where
  "VMMethod_upto i bcCount numberOfConstants =
     bindE (VMMethod_base bcCount numberOfConstants) (\<lambda>p.
     thenE (forE (take i (methodMembers bcCount numberOfConstants)) (fillMember p))
       (returnE p))"

lemma VMMethod_gc_upto:
  "VMMethod_gc bcs consts = bindE (VMMethod_upto 5 bcs consts) (\<lambda>p. thenE EndUninterruptableAllocation (returnE p))"
  by (simp add: VMMethod_gc_def VMMethod_upto_def methodMembers_def fillMember_def monad_laws del: returnE_def)

text \<open>A method whose number of constants is not in place, in a heap that is in order otherwise.\<close>

definition unfinished :: "string list \<Rightarrow> ptr \<Rightarrow> gc \<Rightarrow> bool" where
  "unfinished names p g \<longleftrightarrow> set names = dom (rootTable (g_vm g)) \<and> p \<in> set (recent g) \<and>
     (\<forall>q\<in>rootsOf g. q < nextPtr (g_vm g)) \<and> vm_ok (g_vm g) \<and>
     intOf (g_vm g) (nilObject (g_vm g)) = None \<and> nilObject (g_vm g) < nextPtr (g_vm g) \<and>
     (\<exists>ob code. heap (g_vm g) p = Some ob \<and> o_kind ob = KMethod \<and> o_data ob = CodeData code \<and>
        length (o_fields ob) = 8 \<and> o_fields ob ! 7 = nilObject (g_vm g)) \<and>
     (\<forall>q. q \<noteq> NULL \<longrightarrow> q \<noteq> p \<longrightarrow> q < nextPtr (g_vm g) \<longrightarrow>
        (\<exists>ob. heap (g_vm g) q = Some ob \<and> scannable (g_vm g) ob))"

lemma unfinished_base:
  assumes "wellHeaped (g_vm g)" "\<And>p. p \<in> rootsOf g \<Longrightarrow> p < nextPtr (g_vm g)" "set names = dom (rootTable (g_vm g))"
    and "intOf (g_vm g) (nilObject (g_vm g)) = None" "length (recent g) < 65536" "nilObject (g_vm g) < nextPtr (g_vm g)"
  shows "\<exists>g'. VMMethod_base bcs consts g = Inr (nextPtr (g_vm g), g') \<and> unfinished names (nextPtr (g_vm g)) g' \<and>
     length (recent g') = length (recent g) + 1"
proof -
  let ?v = "g_vm g" and ?p = "nextPtr (g_vm g)"
  let ?ob = "\<lparr>o_kind = KMethod, o_size = sizeof_VMObject + 28 + int bcs + int consts * sizeof_pointer,
         o_fields = newFields ?v 7, o_slots = replicate consts (nilObject ?v), o_data = CodeData (replicate bcs 0)\<rparr>"
  let ?v' = "?v\<lparr>heap := (heap ?v)(?p \<mapsto> ?ob), nextPtr := ?p + 1\<rparr>"
  let ?m = "bindE (getsE (\<lambda>v. (newFields v 7, nilObject v))) (\<lambda>fn.
       allocate \<lparr>o_kind = KMethod,
         o_size = sizeof_VMObject + 28 + int bcs + int consts * sizeof_pointer,
         o_fields = fst fn, o_slots = replicate consts (snd fn),
         o_data = CodeData (replicate bcs 0)\<rparr>)"
  let ?g' = "g\<lparr>g_vm := ?v', recent := recent g @ [?p], maxRecent := max (maxRecent g) (length (recent g) + 1),
     objectTable := List.insert ?p (objectTable g), uninterruptableCounter := uninterruptableCounter g + 1\<rparr>"
  have run: "?m ?v = Inr (?p, ?v')" by (simp add: allocate_def)
  have g': "VMMethod_base bcs consts g = Inr (?p, ?g')"
    using onMachine_alloc [of ?m g, OF run _ assms(5)] by (simp add: VMMethod_base_def StartUninterruptableAllocation_def)
  have ok: "vm_ok ?v" by (rule wellHeaped_vm_ok [OF assms(1)])
  have roots: "q < Suc ?p" if "q \<in> rootsOf ?g'" for q
    using that assms(2) by (fastforce simp: rootsOf_def)
  have others: "\<exists>ob. heap ?v' q = Some ob \<and> scannable ?v' ob" if q: "q \<noteq> NULL" "q \<noteq> ?p" "q < Suc ?p" for q
  proof -
    obtain ob where ob: "heap ?v q = Some ob" "scannable ?v ob"
      using assms(1) q unfolding wellHeaped_def by (metis less_SucE)
    have "intOf ?v' r = intOf ?v r" if "intOf ?v r \<noteq> None" for r
      using that vm_ok_fresh [OF ok, of r] by (auto simp: intOf_def)
    with ob(2) have "scannable ?v' ob" by (auto simp: scannable_def)
    with ob(1) q(2) show ?thesis by auto
  qed
  have "vm_ok ?v'" using vm_le_alloc1 [OF ok, of ?v' ?ob] by simp
  moreover have "intOf ?v' (nilObject ?v') = None" using assms(4,6) by (simp add: intOf_def)
  moreover have "newFields ?v 7 ! 7 = nilObject ?v" "length (newFields ?v 7) = 8" by (simp_all add: newFields_def eval_nat_numeral)
  ultimately have "unfinished names ?p ?g'"
    using roots others assms(3,6) unfolding unfinished_def by simp
  with g' show ?thesis by (intro exI [of _ ?g']) simp
qed

lemma unfinished_fill:
  assumes "unfinished names p g" "k < 7" "length (recent g) < 65536"
  shows "\<exists>g'. fillMember p (k, n) g = Inr ((), g') \<and> unfinished names p g' \<and> length (recent g') = length (recent g) + 1"
proof -
  let ?v = "g_vm g" and ?i = "nextPtr (g_vm g)"
  obtain ob code where ob: "heap ?v p = Some ob" "o_kind ob = KMethod" "o_data ob = CodeData code" "length (o_fields ob) = 8"
    "o_fields ob ! 7 = nilObject ?v" and ok: "vm_ok ?v" and nil: "intOf ?v (nilObject ?v) = None" "nilObject ?v < ?i"
    and ro: "set names = dom (rootTable ?v)" "p \<in> set (recent g)" "\<forall>q\<in>rootsOf g. q < ?i"
    and others: "\<forall>q. q \<noteq> NULL \<longrightarrow> q \<noteq> p \<longrightarrow> q < ?i \<longrightarrow> (\<exists>ob. heap ?v q = Some ob \<and> scannable ?v ob)"
    using assms(1) unfolding unfinished_def by blast
  have p: "p < ?i" "p \<noteq> NULL" using vm_ok_bound [OF ok ob(1)] by simp_all
  let ?v1 = "?v\<lparr>heap := (heap ?v)(?i \<mapsto> counterObject ?v n), nextPtr := ?i + 1\<rparr>"
  let ?g1 = "g\<lparr>g_vm := ?v1, recent := recent g @ [?i], maxRecent := max (maxRecent g) (length (recent g) + 1),
     objectTable := List.insert ?i (objectTable g)\<rparr>"
  let ?ob = "ob\<lparr>o_fields := (o_fields ob)[k := ?i]\<rparr>"
  let ?w = "?v1\<lparr>heap := (heap ?v1)(p \<mapsto> ?ob)\<rparr>"
  let ?g' = "?g1\<lparr>g_vm := ?w\<rparr>"
  have 1: "onMachine (NewInteger n) g = Inr (?i, ?g1)"
    by (rule onMachine_alloc [OF NewInteger_eq _ assms(3)]) simp
  have "setMember [KMethod] k p ?i ?v1 = Inr ((), ?w)"
    using ob p assms(2) by (intro setMember_eq) simp_all
  then have 2: "onMachine (setMember [KMethod] k p ?i) ?g1 = Inr ((), ?g')"
    using onMachine_same [of "setMember [KMethod] k p ?i" ?g1 "()" ?w] by simp
  have run: "fillMember p (k, n) g = Inr ((), ?g')" using 1 2 by (simp add: fillMember_def)
  have ok1: "vm_ok ?v1" using vm_le_alloc1 [OF ok, of ?v1 "counterObject ?v n"] by simp
  have ints: "intOf ?w q = intOf ?v1 q" for q using ob(1,3) p by (simp add: intOf_def)
  have old: "intOf ?v1 q = intOf ?v q" if "q < ?i" for q using that by (simp add: intOf_def)
  have "symOf ?w q = symOf ?v1 q" for q using ob(1-3) p by (simp add: symOf_def)
  then have okw: "vm_ok ?w" using ok1 p by (auto simp: vm_ok_def)
  have "scannable ?w (counterObject ?v n)"
    by (simp add: scannable_def shape_def fixedData_def counterObject_def sizeof_VMObject_def)
  moreover have "scannable ?w rb" if r: "scannable ?v rb" for rb
  proof (rule scannable_cong [OF r])
    assume "o_kind rb = KMethod"
    with r have "intOf ?v (o_fields rb ! 7) \<noteq> None" by (simp add: scannable_def)
    then have "o_fields rb ! 7 < ?i" using vm_ok_bound [OF ok] by (auto simp: intOf_Some)
    with ints old show "intOf ?w (o_fields rb ! 7) = intOf ?v (o_fields rb ! 7)" by simp
  qed
  ultimately have rest: "\<exists>rb. heap ?w q = Some rb \<and> scannable ?w rb" if "q \<noteq> NULL" "q \<noteq> p" "q < Suc ?i" for q
    using others that by (cases "q = ?i") auto
  have "intOf ?w (nilObject ?v) = None" using nil ints old by simp
  moreover have "q < Suc ?i" if "q \<in> rootsOf ?g'" for q
    using that ro(3) by (auto simp: rootsOf_def intro: less_SucI)
  ultimately have "unfinished names p ?g'"
    using ro okw rest ob nil(2) p assms(2) unfolding unfinished_def by simp
  with run show ?thesis by (intro exI [of _ ?g']) simp
qed

lemma unfinished_fills:
  assumes "unfinished names p g" "\<And>x. x \<in> set xs \<Longrightarrow> fst x < 7" "length (recent g) + length xs \<le> 65536"
  shows "\<exists>g'. forE xs (fillMember p) g = Inr ((), g') \<and> unfinished names p g'"
  using assms
proof (induction xs arbitrary: g)
  case (Cons x xs)
  obtain g1 where g1: "fillMember p x g = Inr ((), g1)" "unfinished names p g1" "length (recent g1) = length (recent g) + 1"
    using unfinished_fill [OF Cons.prems(1), of "fst x" "snd x"] Cons.prems(2,3) by auto
  from Cons.IH [OF g1(2)] Cons.prems(2,3) g1(3) obtain g' where "forE xs (fillMember p) g1 = Inr ((), g')" "unfinished names p g'"
    by auto
  with g1(1) show ?case by auto
qed simp

text \<open>The marking comes to the method, whatever is on the work stack above it, and fails there.\<close>

lemma loop_fails:
  assumes "p \<in> set (workStack g)" "GetNumberOfMarkableFields p w = Inl e" "g_vm g = w" "workLeft w g \<le> n"
    and "\<And>q. q \<in> set (workStack g) \<Longrightarrow> isHeapObject g q"
    and "\<And>q. q \<noteq> NULL \<Longrightarrow> q \<noteq> p \<Longrightarrow> q < nextPtr w \<Longrightarrow> \<exists>ob. heap w q = Some ob \<and> scannable w ob"
  shows "whileE n (\<lambda>g. workStack g \<noteq> []) (bindE popWork scanObject) g = Inl e"
  using assms(1,3-5)
proof (induction n arbitrary: g)
  case 0
  then show ?case by (simp add: workLeft_def)
next
  case (Suc n)
  obtain q qs where ws: "workStack g = q # qs" using Suc.prems(1) by (cases "workStack g") auto
  let ?g = "g\<lparr>workStack := qs\<rparr>"
  have pop: "popWork g = Inr (q, ?g)" by (simp add: popWork_def ws)
  show ?case
  proof (cases "q = p")
    case True
    then have "scanObject q ?g = Inl e"
      using assms(2) Suc.prems(2) by (simp add: scanObject_def inspect_def liftE_def bindE_def)
    with pop ws show ?thesis by simp
  next
    case False
    have "isHeapObject g q" using Suc.prems(4) ws by simp
    then have "q \<noteq> NULL" "q < nextPtr w" using Suc.prems(2) by (simp_all add: isHeapObject_def)
    then obtain ob where ob: "heap w q = Some ob" "scannable w ob" using assms(6) False by blast
    let ?h = "foldl (\<lambda>g q. pushMark q g) ?g (pointersOf ob)"
    have scan: "scanObject q ?g = Inr ((), ?h)" by (rule scanObject_run) (use ob Suc.prems(2) in simp_all)
    have eff: "marked ?h = marked g \<union> {q \<in> set (pointersOf ob). isHeapObject g q}"
      "set (workStack ?h) = set qs \<union> (marked ?h - marked g)" "workLeft w ?h = workLeft w ?g"
      using foldPush_effect [OF refl, where g = ?g and qs = "pointersOf ob"] Suc.prems(2) by (simp_all add: isHeapObject_def)
    have "whileE n (\<lambda>g. workStack g \<noteq> []) (bindE popWork scanObject) ?h = Inl e"
    proof (rule Suc.IH)
      show "p \<in> set (workStack ?h)" using Suc.prems(1) ws False eff(2) by auto
      show "g_vm ?h = w" using Suc.prems(2) by simp
      show "workLeft w ?h \<le> n" using eff(3) Suc.prems(3) ws by (simp add: workLeft_def)
      show "isHeapObject ?h r" if "r \<in> set (workStack ?h)" for r
        using that eff(1,2) Suc.prems(4) ws by (auto simp: isHeapObject_def)
    qed
    with pop scan ws show ?thesis by simp
  qed
qed

lemma unfinished_fails:
  assumes "unfinished names p g"
  shows "\<exists>e. markAll names g = Inl e \<and> e \<in> {NullPointer, BadCast}"
proof -
  let ?v = "g_vm g"
  obtain ob code where ob: "heap ?v p = Some ob" "o_kind ob = KMethod" "o_data ob = CodeData code" "length (o_fields ob) = 8"
    "o_fields ob ! 7 = nilObject ?v" and ok: "vm_ok ?v" and nil: "intOf ?v (nilObject ?v) = None"
    and ro: "set names = dom (rootTable ?v)" "p \<in> set (recent g)" "\<forall>q\<in>rootsOf g. q < nextPtr ?v"
    and others: "\<And>q. q \<noteq> NULL \<Longrightarrow> q \<noteq> p \<Longrightarrow> q < nextPtr ?v \<Longrightarrow> \<exists>ob. heap ?v q = Some ob \<and> scannable ?v ob"
    using assms unfolding unfinished_def by blast
  have p: "p \<noteq> NULL" "p < nextPtr ?v" using vm_ok_bound [OF ok ob(1)] by simp_all
  obtain e where e: "GetEmbeddedInteger (nilObject ?v) ?v = Inl e" "e \<in> {NullPointer, BadCast}"
    using nil by (auto simp: GetEmbeddedInteger_def deref_def intOf_def bindE_def split: option.splits payload.splits)
  have "NumberOfConstants p ?v = Inl e"
    using e(1) ob by (simp add: NumberOfConstants_def getMember_def derefAs_def deref_def)
  then have "numberOfIndexableFields p ?v = Inl e"
    using ob by (simp add: numberOfIndexableFields_def deref_def arrayKinds_def)
  then have scan: "GetNumberOfMarkableFields p ?v = Inl e"
    using ob by (simp add: GetNumberOfMarkableFields_def deref_def)
  let ?g0 = "g\<lparr>marked := {}, workStack := []\<rparr>"
  let ?qs = "map (\<lambda>n. the (rootTable ?v n)) names"
  let ?g1 = "foldl (\<lambda>g q. pushMark q g) ?g0 ?qs"
  let ?g2 = "foldl (\<lambda>g q. pushMark q g) ?g1 (recent g)"
  have inHeap: "q = NULL \<or> isHeapObject g q" if "q \<in> rootsOf g" for q
    using that ro(3) by (auto simp: isHeapObject_def)
  have r1: "forE names (\<lambda>n. bindE (getsE (\<lambda>g. rootTable (g_vm g) n)) (\<lambda>rEntry.
      case rEntry of Some rootPtr \<Rightarrow> ignoreE (markObject rootPtr) | None \<Rightarrow> returnE ())) ?g0 = Inr ((), ?g1)"
  proof -
    have "\<exists>p. rootTable (g_vm ?g0) n = Some p \<and> (p = NULL \<or> isHeapObject ?g0 p)" if "n \<in> set names" for n
      using that ro(1) inHeap by (fastforce simp: rootsOf_def dom_def ran_def isHeapObject_def)
    from mark_table [of names ?g0, OF this] show ?thesis by simp
  qed
  have r2: "forE (recent g) (\<lambda>p. ignoreE (markObject p)) ?g1 = Inr ((), ?g2)"
    by (rule mark_list) (use inHeap in \<open>auto simp: rootsOf_def isHeapObject_def\<close>)
  have roots: "scanRoots names ?g0 = Inr ((), ?g2)" using r1 r2 by (simp add: scanRoots_def)
  note ef1 = foldPush_effect(1,2) [OF refl, where g = ?g0 and qs = ?qs]
  note ef2 = foldPush_effect(1,2) [OF refl, where g = ?g1 and qs = "recent g"]
  have ws: "set (workStack ?g2) = marked ?g2" using ef1(2) ef2(1,2) by auto
  have "workLeft ?v ?g2 = workLeft ?v ?g0"
    using foldPush_effect(3) [OF refl, where g = ?g0 and v = ?v and qs = ?qs]
      foldPush_effect(3) [OF refl, where g = ?g1 and v = ?v and qs = "recent g"] by simp
  also have "\<dots> \<le> nextPtr ?v" using card_Diff1_le [of "{..<nextPtr ?v}" NULL] by (simp add: workLeft_def)
  finally have left: "workLeft ?v ?g2 \<le> nextPtr ?v" .
  have "completeScan ?g2 = Inl e"
  proof -
    have "whileE (nextPtr ?v) (\<lambda>g. workStack g \<noteq> []) (bindE popWork scanObject) ?g2 = Inl e"
    proof (rule loop_fails [OF _ scan _ left _ others])
      have "p \<in> marked ?g2" using ef2(1) ro(2) p by (simp add: isHeapObject_def)
      then show "p \<in> set (workStack ?g2)" by (simp only: ws)
      show "g_vm ?g2 = ?v" by simp
      show "isHeapObject ?g2 q" if "q \<in> set (workStack ?g2)" for q
        using that ef1(1) ef2(1) unfolding ws by (auto simp: isHeapObject_def)
    qed
    then show ?thesis by (simp add: completeScan_def)
  qed
  then show ?thesis using roots e(2) by (simp add: markAll_def)
qed

text \<open>A method whose constructor has not come to its last integer cannot be scanned: the number of
  its constants is read through the field that still is nil.\<close>

lemma method_unscannable:
  assumes "wellHeaped (g_vm g)" "\<And>p. p \<in> rootsOf g \<Longrightarrow> p < nextPtr (g_vm g)" "set names = dom (rootTable (g_vm g))"
    and "intOf (g_vm g) (nilObject (g_vm g)) = None" "nilObject (g_vm g) < nextPtr (g_vm g)"
    and "i \<le> 4" "length (recent g) + i < 65536"
  shows "\<exists>p g' e. VMMethod_upto i bcs consts g = Inr (p, g') \<and> markAll names g' = Inl e \<and> e \<in> {NullPointer, BadCast}"
proof -
  let ?p = "nextPtr (g_vm g)"
  have "length (recent g) < 65536" using assms(7) by simp
  then obtain g1 where g1: "VMMethod_base bcs consts g = Inr (?p, g1)" "unfinished names ?p g1" "length (recent g1) = length (recent g) + 1"
    using unfinished_base [OF assms(1-4) _ assms(5), of bcs "consts"] by blast
  let ?xs = "take i (methodMembers bcs consts)"
  have "set ?xs \<subseteq> set (take 4 (methodMembers bcs consts))" by (rule set_take_subset_set_take [OF assms(6)])
  then have "fst x < 7" if "x \<in> set ?xs" for x using that by (auto simp: methodMembers_def eval_nat_numeral)
  moreover have "length (recent g1) + length ?xs \<le> 65536" using g1(3) assms(7) by simp
  ultimately obtain g' where g': "forE ?xs (fillMember ?p) g1 = Inr ((), g')" "unfinished names ?p g'"
    using unfinished_fills [OF g1(2), of ?xs] by blast
  have "VMMethod_upto i bcs consts g = Inr (?p, g')" using g1(1) g'(1) by (simp add: VMMethod_upto_def)
  with unfinished_fails [OF g'(2)] show ?thesis by blast
qed

end
