(* ===== verification/CollectorProperties.thy ===== *)
theory CollectorProperties
  imports RootGaps SampleMachine
begin

text \<open>
  The properties of the collector: the marking is exact, and the roots it starts from are not all
  the machine needs.
\<close>

section \<open>A sample collector\<close>

text \<open>The sample machine with a nil object and with frame 24, entered from frame 19, as the current
  frame, which is the global \<open>Frame\<close>.\<close>

definition collectorHeap :: "(ptr \<times> vmobject) list" where
  "collectorHeap =
     (1, \<lparr>o_kind = KObject, o_size = 48, o_fields = [NULL], o_slots = [], o_data = NoData\<rparr>) #
     (24, \<lparr>o_kind = KFrame, o_size = 80, o_fields = [2, 19, 1, 6, 25, 26, 27], o_slots = [12, 1], o_data = NoData\<rparr>) #
     (25, sampleInt 0) # (26, sampleInt 0) # (27, sampleInt 1) # sampleHeap"

definition vm6 :: vm where
  "vm6 = vm1\<lparr>heap := map_of collectorHeap, nextPtr := 28, nilObject := 1, curFrame := 24, rootTable := [''Frame'' \<mapsto> 24]\<rparr>"

definition gc1 :: gc where
  "gc1 = \<lparr>g_vm = vm6, recent = [], maxRecent = 0, uninterruptableCounter = 0, marked = {}, workStack = [],
     objectTable = [1..<28]\<rparr>"

lemma collector_addresses: "(\<forall>p\<in>set [1..<28]. map_of collectorHeap p \<noteq> None) \<and> (\<forall>x\<in>set collectorHeap. fst x \<in> set [1..<28])"
  by (simp add: collectorHeap_def sampleHeap_def upt_conv_Cons)

lemma vm6_ints: "intOf vm6 11 = Some 0" "intOf vm6 18 = Some 1"
  by (simp_all add: intOf_def vm6_def collectorHeap_def sampleHeap_def sampleInt_def)

lemma collector_objects: "\<forall>x\<in>set collectorHeap. scannable vm6 (snd x) \<and> (\<forall>q\<in>set (pointersOf (snd x)). q < 28)"
  by (simp add: collectorHeap_def sampleHeap_def scannable_def vm6_ints pointersOf_def NULL_def
      shape_def fixedData_def sampleSymbol_def sampleMethod_def sampleInt_def cstr_def)

lemma vm6_object: "heap vm6 p = Some ob \<Longrightarrow> (p, ob) \<in> set collectorHeap"
  by (simp add: vm6_def map_of_SomeD)

lemma vm6_wellHeaped: "wellHeaped vm6"
proof -
  have "\<exists>ob. heap vm6 p = Some ob \<and> scannable vm6 ob \<and> (\<forall>q\<in>set (pointersOf ob). q < 28)" if "p \<noteq> NULL" "p < 28" for p
  proof -
    have "p \<in> set [1..<28]" using that by (simp add: NULL_def)
    with collector_addresses have "map_of collectorHeap p \<noteq> None" by blast
    then obtain ob where "heap vm6 p = Some ob" by (auto simp: vm6_def)
    with collector_objects vm6_object [OF this] show ?thesis by fastforce
  qed
  moreover have "vm_ok vm6"
  proof -
    have "heap vm6 p = None" if "28 \<le> p \<or> p = NULL" for p
      using that collector_addresses vm6_object [of p] by (cases "heap vm6 p") (fastforce simp: NULL_def)+
    then show ?thesis by (simp add: vm_ok_def vm6_def vm1_ptrs NULL_def)
  qed
  ultimately show ?thesis by (simp add: wellHeaped_def vm6_def)
qed

lemma vm6_ptrs: "nextPtr vm6 = 28" "nilObject vm6 = 1" "curFrame vm6 = 24" "rootTable vm6 = [''Frame'' \<mapsto> 24]"
  "symtab vm6 s = NULL" "symbolClass vm6 = NULL"
  by (simp_all add: vm6_def vm1_def vm0_def)

lemma gc1_roots: "rootsOf gc1 = {24}" "ran (rootTable (g_vm gc1)) = {24}" "set [''Frame''] = dom (rootTable (g_vm gc1))"
  "uninterruptableCounter gc1 = 0" "recent gc1 = []" "g_vm gc1 = vm6" "nextPtr (g_vm gc1) = 28"
  by (simp_all add: rootsOf_def gc1_def vm6_ptrs)

lemma gc1_sound: "sound (g_vm gc1) (rootsOf gc1)"
  using wellHeaped_sound [OF vm6_wellHeaped, of "{24}"] by (simp add: gc1_roots vm6_ptrs)

lemma vm6_frame: "frameOf vm6 24 = Some \<lparr>o_kind = KFrame, o_size = 80, o_fields = [2, 19, 1, 6, 25, 26, 27], o_slots = [12, 1], o_data = NoData\<rparr>"
  by (simp add: frameOf_def vm6_def collectorHeap_def array_size_ok_def sizeof_VMObject_def sizeof_pointer_def)

section \<open>The properties of the collector\<close>

text \<open>C14. A collection marks exactly the objects reachable from the globals and the recent
  allocations, within the bound of its loop, without changing the machine; the object table is
  left with exactly these. A sweep that frees nothing marked leaves every reachable object,
  and nothing else becomes reachable.\<close>

lemma marking_is_reachability:
  assumes "vm_ok (g_vm g)" "sound (g_vm g) (rootsOf g)" "set names = dom (rootTable (g_vm g))"
  shows "\<exists>g'. markAll names g = Inr ((), g') \<and> marked g' = reachable (g_vm g) (rootsOf g) \<and> g_vm g' = g_vm g \<and>
     objectTable g' = filter (\<lambda>p. isHeapObject g p \<longrightarrow> p \<in> reachable (g_vm g) (rootsOf g)) (objectTable g) \<and>
     (\<forall>h. (\<forall>p\<in>marked g'. h p = heap (g_vm g) p) \<longrightarrow>
        reachable ((g_vm g)\<lparr>heap := h\<rparr>) (rootsOf g) = reachable (g_vm g) (rootsOf g))"
proof -
  obtain g' where "markAll names g = Inr ((), g')" "marked g' = reachable (g_vm g) (rootsOf g)" "g_vm g' = g_vm g"
    "objectTable g' = filter (\<lambda>p. isHeapObject g p \<longrightarrow> p \<in> reachable (g_vm g) (rootsOf g)) (objectTable g)"
    using markAll_run [OF assms] by blast
  with swept_reachable [OF assms(2)] show ?thesis by auto
qed

lemma marking_is_reachability_witness:
  "\<exists>g'. markAll [''Frame''] gc1 = Inr ((), g') \<and> {24, 19, 13, 23} \<subseteq> marked g' \<and> 4 \<in> marked g'"
proof -
  obtain g' where g': "markAll [''Frame''] gc1 = Inr ((), g')" "marked g' = reachable (g_vm gc1) (rootsOf gc1)"
    using marking_is_reachability [of gc1 "[''Frame'']", OF _ gc1_sound gc1_roots(3)] wellHeaped_vm_ok [OF vm6_wellHeaped]
    by (auto simp: gc1_roots)
  let ?R = "reachable vm6 {24}"
  have hs: "heap vm6 24 = Some \<lparr>o_kind = KFrame, o_size = 80, o_fields = [2, 19, 1, 6, 25, 26, 27], o_slots = [12, 1], o_data = NoData\<rparr>"
    "heap vm6 19 = heap vm1 19" "heap vm6 13 = heap vm1 13" "heap vm6 12 = heap vm1 12"
    by (simp_all add: vm6_def collectorHeap_def vm1_def)
  have 1: "24 \<in> ?R" by (rule reachable.root) (simp_all add: NULL_def)
  have 2: "19 \<in> ?R" "12 \<in> ?R" by (rule reachable.field [OF 1 hs(1)]; simp add: pointersOf_def NULL_def vm6_ptrs)+
  have 3: "13 \<in> ?R" by (rule reachable.field [OF 2(1) hs(2) [unfolded vm1_heap]]) (simp_all add: pointersOf_def NULL_def vm6_ptrs)
  have 4: "23 \<in> ?R" by (rule reachable.field [OF 3 hs(3) [unfolded vm1_heap]]) (simp_all add: pointersOf_def sampleMethod_def NULL_def vm6_ptrs)
  have 5: "4 \<in> ?R" by (rule reachable.field [OF 2(2) hs(4) [unfolded vm1_heap]]) (simp_all add: pointersOf_def NULL_def vm6_ptrs)
  show ?thesis using g' 1 2 3 4 5 by (simp add: gc1_roots)
qed

text \<open>C22. When a frame returns, the frame behind it becomes current, and the link from the frame
  that returned, which the root table still holds, is cleared: unless something else points to
  it, the current frame is not marked by a collection from then on.\<close>

lemma return_unprotects_caller:
  assumes "wellHeaped (g_vm gc)" "\<And>p. p \<in> rootsOf gc \<Longrightarrow> p < nextPtr (g_vm gc)" "set names = dom (rootTable (g_vm gc))"
    and "nilObject (g_vm gc) < nextPtr (g_vm gc)" "nilObject (g_vm gc) \<noteq> f"
    and "curFrame (g_vm gc) = g" "frameOf (g_vm gc) g = Some gob" "o_fields gob ! 1 = f" "f \<notin> rootsOf gc"
    and "f \<notin> set (drop 2 (o_fields gob)) \<union> set (o_slots gob)" "f \<noteq> o_fields gob ! 0"
    and "\<And>p ob. heap (g_vm gc) p = Some ob \<Longrightarrow> p \<noteq> g \<Longrightarrow> f \<notin> set (pointersOf ob)"
  shows "\<exists>gc' gc''. inspect popFrame gc = Inr (g, gc') \<and> markAll names gc' = Inr ((), gc'') \<and>
     curFrame (g_vm gc'') = f \<and> f \<notin> marked gc''"
  using return_unprotects [OF assms] .

lemma return_unprotects_caller_witness:
  "\<exists>g' g''. inspect popFrame gc1 = Inr (24, g') \<and> markAll [''Frame''] g' = Inr ((), g'') \<and>
     curFrame (g_vm g'') = 19 \<and> 19 \<notin> marked g''"
proof (rule return_unprotects_caller
    [where gob = "\<lparr>o_kind = KFrame, o_size = 80, o_fields = [2, 19, 1, 6, 25, 26, 27], o_slots = [12, 1], o_data = NoData\<rparr>"])
  have "\<forall>x\<in>set collectorHeap. fst x \<noteq> 24 \<longrightarrow> 19 \<notin> set (pointersOf (snd x))"
    by (simp add: collectorHeap_def sampleHeap_def pointersOf_def NULL_def sampleSymbol_def sampleMethod_def sampleInt_def)
  then show "19 \<notin> set (pointersOf ob)" if "heap (g_vm gc1) p = Some ob" "p \<noteq> 24" for p ob
    using that vm6_object [of p ob] by (fastforce simp: gc1_roots)
qed (simp_all only: gc1_roots, simp_all add: vm6_wellHeaped vm6_ptrs vm6_frame)

text \<open>C23. The symbol table is no root: a symbol made for a text is not marked by a collection once
  the array of recent allocations has been emptied, if nothing points to it yet, and the
  symbol table keeps answering with it.\<close>

lemma interned_symbol_unprotected:
  assumes "wellHeaped (g_vm g)" "\<And>p. p \<in> ran (rootTable (g_vm g)) \<Longrightarrow> p < nextPtr (g_vm g)" "set names = dom (rootTable (g_vm g))"
    and "symtab (g_vm g) (cstr s) = NULL" "symbolClass (g_vm g) < nextPtr (g_vm g)"
    and "uninterruptableCounter g = 0" "length (recent g) < 65536"
  shows "\<exists>p g' g''. thenE (onMachine (SymbolFor s)) (thenE StartUninterruptableAllocation EndUninterruptableAllocation) g = Inr ((), g') \<and>
     markAll names g' = Inr ((), g'') \<and> SymbolFor s (g_vm g'') = Inr (p, g_vm g'') \<and> p \<notin> marked g''"
  using symbol_unprotected [OF assms] .

lemma interned_symbol_unprotected_witness:
  "\<exists>p g' g''. thenE (onMachine (SymbolFor ''s'')) (thenE StartUninterruptableAllocation EndUninterruptableAllocation) gc1 = Inr ((), g') \<and>
     markAll [''Frame''] g' = Inr ((), g'') \<and> SymbolFor ''s'' (g_vm g'') = Inr (p, g_vm g'') \<and> p \<notin> marked g''"
  by (rule interned_symbol_unprotected) (simp_all only: gc1_roots, simp_all add: vm6_wellHeaped vm6_ptrs NULL_def)

text \<open>C24. The section of the constructor of VMArray ends before the one of VMFrame begins, and
  empties the array of recent allocations: a collection while the integers of the frame are
  allocated does not mark the frame.\<close>

lemma new_frame_unprotected:
  assumes "wellHeaped (g_vm g)" "\<And>p. p \<in> ran (rootTable (g_vm g)) \<Longrightarrow> p < nextPtr (g_vm g)" "set names = dom (rootTable (g_vm g))"
    and "nilObject (g_vm g) < nextPtr (g_vm g)" "len < 536870912"
    and "uninterruptableCounter g = 0" "length (recent g) < 65536"
  shows "\<exists>p g' g''. VMFrame_base (int len) g = Inr (p, g') \<and> markAll names g' = Inr ((), g'') \<and>
     heap (g_vm g'') p \<noteq> None \<and> p \<notin> marked g''"
  using frame_unprotected [OF assms] .

lemma new_frame_unprotected_witness:
  "\<exists>p g' g''. VMFrame_base (int 2) gc1 = Inr (p, g') \<and> markAll [''Frame''] g' = Inr ((), g'') \<and>
     heap (g_vm g'') p \<noteq> None \<and> p \<notin> marked g''"
  by (rule new_frame_unprotected) (simp_all only: gc1_roots, simp_all add: vm6_wellHeaped vm6_ptrs)

text \<open>C25. A method whose constructor has not come to its last integer cannot be scanned: the
  constructor stores the length of the code, the numbers of locals, of stack elements and of
  arguments, and last the number of constants, and a collection at any moment before that
  reads the number of constants out of the nil object.\<close>

lemma new_method_unscannable:
  assumes "wellHeaped (g_vm g)" "\<And>p. p \<in> rootsOf g \<Longrightarrow> p < nextPtr (g_vm g)" "set names = dom (rootTable (g_vm g))"
    and "intOf (g_vm g) (nilObject (g_vm g)) = None" "nilObject (g_vm g) < nextPtr (g_vm g)"
    and "i \<le> 4" "length (recent g) + i < 65536"
  shows "VMMethod_gc bcs consts = bindE (VMMethod_upto 5 bcs consts) (\<lambda>p. thenE EndUninterruptableAllocation (returnE p)) \<and>
    (\<exists>p g' e. VMMethod_upto i bcs consts g = Inr (p, g') \<and> markAll names g' = Inl e \<and> e \<in> {NullPointer, BadCast})"
  by (rule conjI [OF VMMethod_gc_upto method_unscannable [OF assms]])

lemma new_method_unscannable_witness:
  "\<exists>p g' e. VMMethod_upto 4 1 0 gc1 = Inr (p, g') \<and> markAll [''Frame''] g' = Inl e \<and> e \<in> {NullPointer, BadCast}"
proof (rule conjunct2 [OF new_method_unscannable])
  show "intOf (g_vm gc1) (nilObject (g_vm gc1)) = None"
    by (simp add: gc1_roots vm6_ptrs) (simp add: intOf_def vm6_def collectorHeap_def)
qed (simp_all only: gc1_roots, simp_all add: vm6_wellHeaped vm6_ptrs)

end
