(* ===== verification/ObjectModel.thy ===== *)
theory ObjectModel
  imports Collector
begin

unbundle bit_operations_syntax

text \<open>
  The words of the heap as the collector sees them: the metadata slot of an object
  (\<^verbatim>\<open>src/glue/ObjectModel.hpp\<close>), the headers of free entries
  (\<^verbatim>\<open>omr32/gc/base/HeapLinkedFreeHeader.hpp\<close>), the iterator that walks a region from object to
  object (\<^verbatim>\<open>omr32/gc/base/ObjectHeapIteratorAddressOrderedList\<close>), and the allocation of an object
  (\<^verbatim>\<open>Heap::AllocateObject\<close>). Addresses and sizes are the 32-bit words of the build; the memory
  maps the address of a word to the word. An object has its vtable pointer in the first word and
  its metadata in the second: eight bits of flags, the age among them, below 24 bits of size.
  The members of the object model that only a scavenger calls are not compiled.
\<close>

type_synonym uintptr = "32 word"
type_synonym mem = "uintptr \<Rightarrow> uintptr"

named_theorems om_defs \<open>definitions of the object model\<close>

section \<open>The metadata slot\<close>

record GC_ObjectModel =
  objectAlignmentInBytes :: uintptr
  objectAlignmentShift :: uintptr

definition setObjectAlignmentInBytes :: "uintptr \<Rightarrow> GC_ObjectModel \<Rightarrow> GC_ObjectModel" where
  "setObjectAlignmentInBytes n om = om\<lparr>objectAlignmentInBytes := n\<rparr>"

definition setObjectAlignmentShift :: "uintptr \<Rightarrow> GC_ObjectModel \<Rightarrow> GC_ObjectModel" where
  "setObjectAlignmentShift n om = om\<lparr>objectAlignmentShift := n\<rparr>"

definition adjustSizeInBytes :: "GC_ObjectModel \<Rightarrow> uintptr \<Rightarrow> uintptr" where
  "adjustSizeInBytes om sizeInBytes =
     (let sz = (sizeInBytes + (objectAlignmentInBytes om - 1)) AND NOT (objectAlignmentInBytes om - 1) in
      if sz < 48 then 48 else sz)"

definition OMR_OBJECT_METADATA_SLOT_EA :: "uintptr \<Rightarrow> uintptr" where
  [om_defs]: "OMR_OBJECT_METADATA_SLOT_EA object = object + 4"

definition OMR_OBJECT_FLAGS :: "mem \<Rightarrow> uintptr \<Rightarrow> uintptr" where
  [om_defs]: "OMR_OBJECT_FLAGS m object = m (OMR_OBJECT_METADATA_SLOT_EA object) AND 0xFF"

definition OMR_OBJECT_SIZE :: "mem \<Rightarrow> uintptr \<Rightarrow> uintptr" where
  [om_defs]: "OMR_OBJECT_SIZE m object = drop_bit 8 (m (OMR_OBJECT_METADATA_SLOT_EA object))"

text \<open>A failed assertion of the collector aborts.\<close>

definition setFlags :: "uintptr \<Rightarrow> uintptr \<Rightarrow> uintptr \<Rightarrow> (mem, unit) se" where
  "setFlags objectPtr bitsToClear bitsToSet =
     (if 0xFF < bitsToClear \<or> 0xFF < bitsToSet then throwE (Signal ''SIGABRT'')
      else modifyE (\<lambda>m. m(OMR_OBJECT_METADATA_SLOT_EA objectPtr :=
             (m (OMR_OBJECT_METADATA_SLOT_EA objectPtr) AND NOT bitsToClear) OR bitsToSet)))"

definition getSizeInBytesWithHeader :: "mem \<Rightarrow> uintptr \<Rightarrow> uintptr" where
  [om_defs]: "getSizeInBytesWithHeader m objectPtr = OMR_OBJECT_SIZE m objectPtr"

definition getConsumedSizeInBytesWithHeader :: "mem \<Rightarrow> uintptr \<Rightarrow> uintptr" where
  [om_defs]: "getConsumedSizeInBytesWithHeader m objectPtr = getSizeInBytesWithHeader m objectPtr"

definition setObjectSize :: "uintptr \<Rightarrow> uintptr \<Rightarrow> bool \<Rightarrow> (mem, unit) se" where
  "setObjectSize objectPtr sz preserveAgeAndFlags = modifyE (\<lambda>m.
     let ageAndFlags = (if preserveAgeAndFlags then OMR_OBJECT_FLAGS m objectPtr else 0) in
     m(OMR_OBJECT_METADATA_SLOT_EA objectPtr := push_bit 8 sz OR ageAndFlags))"

definition setRememberedBits :: "uintptr \<Rightarrow> uintptr \<Rightarrow> (mem, unit) se" where
  "setRememberedBits objectPtr bits = setFlags objectPtr 0xF0 bits"

definition getRememberedBits :: "mem \<Rightarrow> uintptr \<Rightarrow> uintptr" where
  [om_defs]: "getRememberedBits m objectPtr = OMR_OBJECT_FLAGS m objectPtr AND 0xF0"

definition STATE_REMEMBERED :: uintptr where
  [om_defs]: "STATE_REMEMBERED = 0x10 AND 0xF0"

definition isRemembered :: "mem \<Rightarrow> uintptr \<Rightarrow> bool" where
  [om_defs]: "isRemembered m objectPtr \<longleftrightarrow> STATE_REMEMBERED \<le> getRememberedBits m objectPtr"

definition clearRemembered :: "uintptr \<Rightarrow> (mem, unit) se" where
  "clearRemembered objectPtr = setRememberedBits objectPtr 0"

section \<open>Free entries\<close>

text \<open>A free entry keeps the address of the next one in its first word, tagged in the two low bits,
  and its size in the second.\<close>

definition getNext :: "mem \<Rightarrow> uintptr \<Rightarrow> uintptr" where
  [om_defs]: "getNext m entry = m entry AND NOT 3"

definition setNext :: "uintptr \<Rightarrow> uintptr \<Rightarrow> (mem, unit) se" where
  [om_defs]: "setNext entry freeEntryPtr = modifyE (\<lambda>m. m(entry := freeEntryPtr OR 1))"

definition updateNext :: "uintptr \<Rightarrow> uintptr \<Rightarrow> (mem, unit) se" where
  [om_defs]: "updateNext entry freeEntryPtr = modifyE (\<lambda>m. m(entry := freeEntryPtr OR (m entry AND 3)))"

definition getSize :: "mem \<Rightarrow> uintptr \<Rightarrow> uintptr" where
  [om_defs]: "getSize m entry = m (entry + 4)"

definition setSize :: "uintptr \<Rightarrow> uintptr \<Rightarrow> (mem, unit) se" where
  [om_defs]: "setSize entry sz = modifyE (\<lambda>m. m(entry + 4 := sz))"

definition expandSize :: "uintptr \<Rightarrow> uintptr \<Rightarrow> (mem, unit) se" where
  [om_defs]: "expandSize entry increment = modifyE (\<lambda>m. m(entry + 4 := m (entry + 4) + increment))"

definition afterEnd :: "mem \<Rightarrow> uintptr \<Rightarrow> uintptr" where
  [om_defs]: "afterEnd m entry = entry + getSize m entry"

text \<open>The loop runs to 0 by steps of a word: from a size that is no multiple of 4 it goes round
  all of \<^verbatim>\<open>uintptr_t\<close> and never meets 0. The first argument bounds its rounds.\<close>

primrec fillWithSingleSlotHoles :: "nat \<Rightarrow> uintptr \<Rightarrow> uintptr \<Rightarrow> (mem, unit) se" where
  "fillWithSingleSlotHoles 0 addrBase freeEntrySize =
     (if freeEntrySize \<noteq> 0 then throwE OutOfFuel else returnE ())"
| "fillWithSingleSlotHoles (Suc n) addrBase freeEntrySize =
     (if freeEntrySize \<noteq> 0
      then thenE (modifyE (\<lambda>m. m(addrBase := 3))) (fillWithSingleSlotHoles n (addrBase + 4) (freeEntrySize - 4))
      else returnE ())"

definition fillWithHoles :: "uintptr \<Rightarrow> uintptr \<Rightarrow> (mem, uintptr) se" where
  "fillWithHoles addrBase freeEntrySize =
     (if freeEntrySize < 8 then thenE (fillWithSingleSlotHoles 2 addrBase freeEntrySize) (returnE 0)
      else thenE (setNext addrBase 0) (thenE (setSize addrBase freeEntrySize) (returnE addrBase)))"

section \<open>Dead objects\<close>

definition isDeadObject :: "mem \<Rightarrow> uintptr \<Rightarrow> bool" where
  [om_defs]: "isDeadObject m objectPtr \<longleftrightarrow> OMR_OBJECT_FLAGS m objectPtr AND 3 = 1"

definition isSingleSlotDeadObject :: "mem \<Rightarrow> uintptr \<Rightarrow> bool" where
  [om_defs]: "isSingleSlotDeadObject m objectPtr \<longleftrightarrow> OMR_OBJECT_FLAGS m objectPtr AND 3 = 3"

definition getSizeInBytesSingleSlotDeadObject :: "mem \<Rightarrow> uintptr \<Rightarrow> uintptr" where
  [om_defs]: "getSizeInBytesSingleSlotDeadObject m objectPtr = 4"

definition getSizeInBytesMultiSlotDeadObject :: "mem \<Rightarrow> uintptr \<Rightarrow> uintptr" where
  [om_defs]: "getSizeInBytesMultiSlotDeadObject m objectPtr = getSize m objectPtr"

definition getSizeInBytesDeadObject :: "mem \<Rightarrow> uintptr \<Rightarrow> uintptr" where
  [om_defs]: "getSizeInBytesDeadObject m objectPtr =
     (if isSingleSlotDeadObject m objectPtr then getSizeInBytesSingleSlotDeadObject m objectPtr
      else getSizeInBytesMultiSlotDeadObject m objectPtr)"

section \<open>Walking a region\<close>

text \<open>The iterator without the flag of \<^verbatim>\<open>nextObjectNoAdvance\<close>, which \<^verbatim>\<open>nextObject\<close> does not read.\<close>

record heapIterator =
  it_includeDeadObjects :: bool
  it_scanPtr :: uintptr
  it_scanPtrTop :: uintptr
  it_isDeadObject :: bool
  it_isSingleSlotHole :: bool
  it_deadObjectSize :: uintptr

definition heapIterator_new :: "uintptr \<Rightarrow> uintptr \<Rightarrow> bool \<Rightarrow> heapIterator" where
  "heapIterator_new base stop includeDeadObjects =
     \<lparr>it_includeDeadObjects = includeDeadObjects, it_scanPtr = base, it_scanPtrTop = stop,
      it_isDeadObject = False, it_isSingleSlotHole = False, it_deadObjectSize = 0\<rparr>"

text \<open>The step over a live object and over a dead one. \<^verbatim>\<open>isDeadObject\<close> asks for the tag of a
  multi-slot hole after masking both bits, so a single slot is no dead object for it.\<close>

definition passLive :: "mem \<Rightarrow> heapIterator \<Rightarrow> heapIterator" where
  [om_defs]: "passLive m it = it\<lparr>it_isDeadObject := False,
     it_scanPtr := it_scanPtr it + getConsumedSizeInBytesWithHeader m (it_scanPtr it)\<rparr>"

definition passDead :: "mem \<Rightarrow> heapIterator \<Rightarrow> heapIterator" where
  [om_defs]: "passDead m it =
     (let single = isSingleSlotDeadObject m (it_scanPtr it);
          sz = (if single then getSizeInBytesSingleSlotDeadObject m (it_scanPtr it)
                  else getSizeInBytesMultiSlotDeadObject m (it_scanPtr it)) in
      it\<lparr>it_isDeadObject := True, it_isSingleSlotHole := single, it_deadObjectSize := sz,
         it_scanPtr := it_scanPtr it + sz\<rparr>)"

text \<open>\<^verbatim>\<open>nextObject\<close>, with a bound on the dead objects it passes, and the loop of the heap walker
  over it, which hands every object to its function: the objects in the order of the calls.\<close>

primrec nextObject :: "nat \<Rightarrow> mem \<Rightarrow> (heapIterator, uintptr) se" where
  "nextObject 0 m = throwE OutOfFuel"
| "nextObject (Suc n) m = (\<lambda>it.
     if it_scanPtr it < it_scanPtrTop it then
       if \<not> isDeadObject m (it_scanPtr it) then Inr (it_scanPtr it, passLive m it)
       else if it_includeDeadObjects it then Inr (it_scanPtr it, passDead m it)
       else nextObject n m (passDead m it)
     else Inr (0, it))"

primrec walkObjects :: "nat \<Rightarrow> mem \<Rightarrow> (heapIterator, uintptr list) se" where
  "walkObjects 0 m = throwE OutOfFuel"
| "walkObjects (Suc n) m =
     bindE (nextObject (Suc n) m) (\<lambda>object.
       if object = 0 then returnE [] else bindE (walkObjects n m) (\<lambda>rest. returnE (object # rest)))"

section \<open>Allocation\<close>

text \<open>The state is that of the collector and the words of the heap. \<open>alloc\<close> is
  \<^verbatim>\<open>allocateObject\<close> of OMR and \<open>cmalloc\<close> the allocation of the C library, both 0 for none.\<close>

type_synonym 'a heapM = "(gc \<times> mem, 'a) se"

definition onWords :: "(mem, 'a) se \<Rightarrow> 'a heapM" where
  "onWords = liftE snd (\<lambda>m s. (fst s, m))"

definition onCollector :: "(gc, 'a) se \<Rightarrow> 'a heapM" where
  "onCollector = liftE fst (\<lambda>g s. (g, snd s))"

definition clearWords :: "uintptr \<Rightarrow> uintptr \<Rightarrow> mem \<Rightarrow> mem" where
  "clearWords base sz m = (\<lambda>a. if a - base < sz then 0 else m a)"

definition internalAllocate :: "(uintptr \<Rightarrow> (mem, uintptr) se) \<Rightarrow> uintptr \<Rightarrow> uintptr heapM" where
  "internalAllocate cmalloc sz =
     (if sz = 0 then returnE 0
      else bindE (onWords (cmalloc sz)) (\<lambda>result.
        if result = 0 then throwE (Quit (-1))
        else thenE (onWords (modifyE (clearWords result sz))) (returnE result)))"

definition Allocate :: "(uintptr \<Rightarrow> (mem, uintptr) se) \<Rightarrow> (uintptr \<Rightarrow> (mem, uintptr) se) \<Rightarrow> uintptr \<Rightarrow> uintptr heapM" where
  "Allocate alloc cmalloc sz =
     (if sz = 0 then returnE 0
      else if sz < 48 then internalAllocate cmalloc sz
      else bindE (onWords (alloc sz)) (\<lambda>obj.
        if obj \<noteq> 0 then
          thenE (onWords (setObjectSize obj sz True))
         (thenE (onCollector (addUninterruptableAllocationObject (unat obj)))
           (returnE obj))
        else
          thenE (onCollector (onMachine (print (''ERROR: allocation failure.'' @ newline)))) (returnE obj)))"

text \<open>The member \<^verbatim>\<open>objectSize\<close> is the fifth word of an object.\<close>

definition SetObjectSize :: "uintptr \<Rightarrow> uintptr \<Rightarrow> (mem, unit) se" where
  "SetObjectSize vmo sz = modifyE (\<lambda>m. m(vmo + 16 := sz))"

text \<open>The message about a size that went round prints the line number with \<^verbatim>\<open>%s\<close>: the process
  ends there, on the string at that address.\<close>

definition AllocateObject ::
  "GC_ObjectModel \<Rightarrow> (uintptr \<Rightarrow> (mem, uintptr) se) \<Rightarrow> (uintptr \<Rightarrow> (mem, uintptr) se) \<Rightarrow> uintptr \<Rightarrow> uintptr heapM" where
  "AllocateObject om alloc cmalloc s =
     (let sz = adjustSizeInBytes om s in
      if sz < s then throwE (Signal ''SIGSEGV'')
      else bindE (Allocate alloc cmalloc sz) (\<lambda>vmo.
        if vmo \<noteq> 0 then thenE (onWords (SetObjectSize vmo s)) (returnE vmo) else returnE vmo))"

end
