(* ===== verification/ObjectModelProperties.thy ===== *)
theory ObjectModelProperties
  imports ObjectModel SampleMachine
begin

text \<open>
  The words of the heap: the fields of the metadata slot, the sizes objects are allocated with,
  and what a walk over a region meets, its live objects and its free entries.
\<close>

section \<open>The metadata slot\<close>

lemma byte_mask: "(0xFF :: uintptr) = mask 8"
  by (simp add: mask_eq_exp_minus_1)

lemma header_size: "drop_bit 8 (push_bit 8 s OR (x AND 0xFF)) = take_bit 24 s" for s x :: uintptr
  unfolding byte_mask by (rule bit_eqI) (auto simp: bit_simps)

lemma header_size0: "drop_bit 8 (push_bit 8 s) = take_bit 24 s" for s :: uintptr
  by (rule bit_eqI) (auto simp: bit_simps)

lemma header_flags: "(push_bit 8 s OR (x AND 0xFF)) AND 0xFF = x AND 0xFF" for s x :: uintptr
  unfolding byte_mask by (rule bit_eqI) (auto simp: bit_simps)

lemma header_flags0: "push_bit 8 s AND 0xFF = 0" for s :: uintptr
  unfolding byte_mask by (rule bit_eqI) (auto simp: bit_simps)

lemma byte_bits: "b \<le> 0xFF \<Longrightarrow> bit b i \<Longrightarrow> i < 8" for b :: uintptr
proof -
  assume b: "b \<le> 0xFF" "bit b i"
  have "odd (unat b div 2 ^ i)" using b(2) bit_imp_le_length [OF b(2)] by (simp add: bit_iff_odd [symmetric] bit_unsigned_iff)
  then have "2 ^ i \<le> unat b" by (cases "unat b < 2 ^ i") auto
  moreover have "unat b < 2 ^ 8" using b(1) by (simp add: word_le_nat_alt)
  ultimately have "(2::nat) ^ i < 2 ^ 8" by (rule le_less_trans)
  then show "i < 8" by (rule power_less_imp_less_exp [rotated]) simp
qed

lemma flags_size:
  fixes c d w :: uintptr
  assumes "c \<le> 0xFF" "d \<le> 0xFF"
  shows "drop_bit 8 ((w AND NOT c) OR d) = drop_bit 8 w" "((w AND NOT c) OR d) AND 0xFF = ((w AND 0xFF) AND NOT c) OR d"
proof -
  have c: "\<not> bit c (i + 8)" "\<not> bit d (i + 8)" for i using byte_bits [OF assms(1)] byte_bits [OF assms(2)] by force+
  show "drop_bit 8 ((w AND NOT c) OR d) = drop_bit 8 w"
    by (rule bit_eqI) (use c bit_imp_le_length [of w "8 + _"] in \<open>auto simp: bit_simps add.commute dest: bit_imp_le_length\<close>)
  show "((w AND NOT c) OR d) AND 0xFF = ((w AND 0xFF) AND NOT c) OR d"
    unfolding byte_mask by (rule bit_eqI) (auto simp: bit_simps dest: byte_bits [OF assms(2)])
qed

lemma low24: "unat (take_bit 24 x :: uintptr) = unat x mod 2 ^ 24"
  by (simp add: take_bit_eq_mod unat_mod_distrib)

text \<open>C29. The size written into a header is read back modulo 2 to the 24, with the flags kept or
  cleared as asked; setFlags changes the flags given and not the size, and traps on masks of
  more than eight bits.\<close>

theorem header_fields:
  "\<exists>m1. setObjectSize obj sz keep m = Inr ((), m1) \<and> m1 = m(obj + 4 := m1 (obj + 4)) \<and>
     unat (getSizeInBytesWithHeader m1 obj) = unat sz mod 2 ^ 24 \<and>
     OMR_OBJECT_FLAGS m1 obj = (if keep then OMR_OBJECT_FLAGS m obj else 0) \<and>
     (if 0xFF < c \<or> 0xFF < d then setFlags obj c d m1 = Inl (Signal ''SIGABRT'')
      else \<exists>m2. setFlags obj c d m1 = Inr ((), m2) \<and> m2 = m1(obj + 4 := m2 (obj + 4)) \<and>
        getSizeInBytesWithHeader m2 obj = getSizeInBytesWithHeader m1 obj \<and>
        OMR_OBJECT_FLAGS m2 obj = (OMR_OBJECT_FLAGS m1 obj AND NOT c) OR d)"
proof -
  define m1 where "m1 = m(obj + 4 := push_bit 8 sz OR (if keep then OMR_OBJECT_FLAGS m obj else 0))"
  have run: "setObjectSize obj sz keep m = Inr ((), m1)" by (simp add: setObjectSize_def m1_def om_defs)
  have u: "unat (take_bit 24 sz) = unat sz mod 2 ^ 24" by (rule low24)
  have f: "OMR_OBJECT_FLAGS m1 obj = (if keep then OMR_OBJECT_FLAGS m obj else 0)"
    "unat (getSizeInBytesWithHeader m1 obj) = unat sz mod 2 ^ 24"
    by (simp_all add: m1_def om_defs header_size header_size0 header_flags header_flags0 low24 del: take_bit_numeral_minus_numeral_word)
  moreover have "\<exists>m2. setFlags obj c d m1 = Inr ((), m2) \<and> m2 = m1(obj + 4 := m2 (obj + 4)) \<and>
        getSizeInBytesWithHeader m2 obj = getSizeInBytesWithHeader m1 obj \<and>
        OMR_OBJECT_FLAGS m2 obj = (OMR_OBJECT_FLAGS m1 obj AND NOT c) OR d"
    if "\<not> (0xFF < c \<or> 0xFF < d)"
  proof -
    have b: "c \<le> 0xFF" "d \<le> 0xFF" using that by (auto simp: not_less)
    show ?thesis using that flags_size [OF b, of "m1 (obj + 4)"] by (simp add: setFlags_def om_defs del: drop_bit_or drop_bit_and)
  qed
  ultimately show ?thesis using run by (auto simp: m1_def setFlags_def)
qed

section \<open>Sizes\<close>

lemma clear_low: "x AND NOT 7 = push_bit 3 (drop_bit 3 x)" for x :: uintptr
proof -
  have seven: "(7 :: uintptr) = mask 3" by (simp add: mask_eq_exp_minus_1)
  show ?thesis unfolding seven by (rule bit_eqI) (auto simp: bit_simps)
qed

lemma align_unat: "unat ((s + 7) AND NOT 7 :: uintptr) = (unat s + 7) mod 2 ^ 32 div 8 * 8"
proof -
  have "unat (push_bit 3 (drop_bit 3 x) :: uintptr) = unat x div 8 * 8" for x :: uintptr
  proof -
    have "unat x < 4294967296" using unsigned_less [of x] by simp
    then have "unat x div 8 * 8 < 2 ^ 32" by (intro le_less_trans [OF div_times_less_eq_dividend]) simp
    moreover have "push_bit 3 (drop_bit 3 x) = x div 8 * 8" by (simp add: push_bit_eq_mult drop_bit_eq_div)
    ultimately show ?thesis by (simp add: unat_word_ariths(2) unat_div_distrib)
  qed
  moreover have "unat (s + 7) = (unat s + 7) mod 2 ^ 32" by (simp add: unat_word_ariths)
  ultimately show ?thesis by (simp only: clear_low)
qed

lemma adjusted:
  assumes "objectAlignmentInBytes om = 8"
  shows "unat (adjustSizeInBytes om s) =
    (if 4294967288 < unat s then 48 else max 48 ((unat s + 7) div 8 * 8))"
proof -
  have b: "unat s < 4294967296" using unsigned_less [of s] by simp
  have "unat ((s + 7) AND NOT 7) = (if 4294967288 < unat s then 0 else (unat s + 7) div 8 * 8)"
  proof (cases "4294967288 < unat s")
    case True
    then have "(unat s + 7) mod 2 ^ 32 = unat s + 7 - 4294967296" using b by (simp add: mod_if)
    then show ?thesis using True b unfolding align_unat by simp
  next
    case False
    then show ?thesis unfolding align_unat by simp
  qed
  then show ?thesis using assms
    by (simp add: adjustSizeInBytes_def Let_def word_less_nat_alt max_def)
qed

text \<open>C28. AllocateObject asks for the least multiple of 8 bytes that holds the object, 48 at least,
  enters the object into the array of recent allocations and writes no word but its metadata
  and its size; a size that goes round 32 bits is found and ends the process.\<close>

theorem allocate_object:
  assumes "objectAlignmentInBytes om = 8" "alloc (adjustSizeInBytes om s) m = Inr (p, m')" "p \<noteq> 0" "length (recent g) < 65536"
  shows "if 4294967288 < unat s then AllocateObject om alloc cmalloc s (g, m) = Inl (Signal ''SIGSEGV'')
     else \<exists>g' m2 n. AllocateObject om alloc cmalloc s (g, m) = Inr (p, (g', m2)) \<and>
       n = unat (adjustSizeInBytes om s) \<and> n = max 48 ((unat s + 7) div 8 * 8) \<and>
       unat (getSizeInBytesWithHeader m2 p) = n mod 2 ^ 24 \<and> OMR_OBJECT_FLAGS m2 p = OMR_OBJECT_FLAGS m' p \<and>
       m2 = m'(p + 4 := m2 (p + 4), p + 16 := s) \<and>
       g' = g\<lparr>recent := recent g @ [unat p], maxRecent := max (maxRecent g) (length (recent g) + 1)\<rparr>"
proof (cases "4294967288 < unat s")
  case True
  then have "adjustSizeInBytes om s < s" by (simp add: word_less_nat_alt adjusted [OF assms(1)])
  with True show ?thesis by (simp add: AllocateObject_def Let_def)
next
  case False
  let ?n = "adjustSizeInBytes om s"
  have n: "unat ?n = max 48 ((unat s + 7) div 8 * 8)" using False by (simp add: adjusted [OF assms(1)])
  have c: "\<not> ?n < s" "?n \<noteq> 0" "\<not> ?n < 48" using n by (auto simp: word_less_nat_alt unat_eq_0 [symmetric] simp del: unat_eq_0)
  define m1 where "m1 = m'(p + 4 := push_bit 8 ?n OR OMR_OBJECT_FLAGS m' p)"
  have d: "p + 16 \<noteq> p + 4" by simp
  have "AllocateObject om alloc cmalloc s (g, m) =
      Inr (p, (g\<lparr>recent := recent g @ [unat p], maxRecent := max (maxRecent g) (length (recent g) + 1)\<rparr>, m1(p + 16 := s)))"
    using c assms(2-4)
    by (simp add: AllocateObject_def Allocate_def Let_def onWords_def onCollector_def liftE_run setObjectSize_def SetObjectSize_def
        addUninterruptableAllocationObject_def m1_def om_defs)
  moreover have "unat (getSizeInBytesWithHeader (m1(p + 16 := s)) p) = unat ?n mod 2 ^ 24"
    "OMR_OBJECT_FLAGS (m1(p + 16 := s)) p = OMR_OBJECT_FLAGS m' p"
    by (simp_all add: m1_def om_defs header_size header_size0 header_flags low24 del: take_bit_numeral_minus_numeral_word)
  moreover have "m1(p + 16 := s) = m'(p + 4 := (m1(p + 16 := s)) (p + 4), p + 16 := s)" by (simp add: m1_def)
  ultimately show ?thesis using False n by metis
qed

section \<open>Walks\<close>

text \<open>The live objects of a region, one behind the other, and its end.\<close>

primrec liveObjects :: "mem \<Rightarrow> uintptr \<Rightarrow> uintptr \<Rightarrow> uintptr list \<Rightarrow> bool" where
  "liveObjects m a stop [] \<longleftrightarrow> a = stop"
| "liveObjects m a stop (ob # obs) \<longleftrightarrow> ob = a \<and> a \<noteq> 0 \<and> a < stop \<and> \<not> isDeadObject m a \<and>
     liveObjects m (a + getSizeInBytesWithHeader m a) stop obs"

lemma walk_live:
  assumes "liveObjects m (it_scanPtr it) (it_scanPtrTop it) obs" "length obs < n"
  shows "\<exists>it'. walkObjects n m it = Inr (obs, it')"
  using assms
proof (induction obs arbitrary: it n)
  case Nil
  then obtain k where "n = Suc k" by (cases n) auto
  with Nil show ?case by simp
next
  case (Cons ob obs)
  then obtain k where k: "n = Suc k" "length obs < k" by (cases n) auto
  have step: "nextObject n m it = Inr (ob, passLive m it)" "ob \<noteq> 0" using Cons.prems(1) k(1) by auto
  have "liveObjects m (it_scanPtr (passLive m it)) (it_scanPtrTop (passLive m it)) obs"
    using Cons.prems(1) by (simp add: passLive_def getConsumedSizeInBytesWithHeader_def)
  from Cons.IH [OF this k(2)] obtain it' where "walkObjects k m (passLive m it) = Inr (obs, it')" by blast
  then show ?case using step k(1) by simp
qed

text \<open>C27. A walk over a region that holds live objects only, one behind the other, comes to its end
  and meets every object once, in the order of their addresses.\<close>

theorem walk_finds_objects:
  assumes "liveObjects m base stop obs" "length obs < n"
  shows "\<exists>it. walkObjects n m (heapIterator_new base stop dead) = Inr (obs, it)"
  by (rule walk_live) (use assms in \<open>simp_all add: heapIterator_new_def\<close>)

text \<open>A free entry in a region.\<close>

lemma low_bits: "4 dvd unat x \<Longrightarrow> x AND 3 = 0" for x :: uintptr
proof -
  assume "4 dvd unat x"
  then have "unat (take_bit 2 x) = 0" by (simp add: take_bit_eq_mod unat_mod_distrib mod_eq_0_iff_dvd)
  moreover have "(3 :: uintptr) = mask 2" by (simp add: mask_eq_exp_minus_1)
  ultimately show ?thesis by (simp add: take_bit_eq_mask unat_eq_0)
qed

text \<open>C26. A free entry is not recognised: fillWithHoles keeps its tag in the first word and its
  size in the second, where isDeadObject looks for the tag. A walk takes the entry for an
  object of a 256th of its size, and never ends at an entry of less than 256 bytes.\<close>

theorem free_entry_taken_for_object:
  assumes "8 \<le> sz" "4 dvd unat sz" "entry \<noteq> 0" "entry < stop"
  shows "\<exists>m'. fillWithHoles entry sz m = Inr (entry, m') \<and> getSize m' entry = sz \<and> getNext m' entry = 0 \<and>
     \<not> isDeadObject m' entry \<and> unat (getConsumedSizeInBytesWithHeader m' entry) = unat sz div 256 \<and>
     (\<exists>it. nextObject 1 m' (heapIterator_new entry stop dead) = Inr (entry, it) \<and>
        it_scanPtr it = entry + of_nat (unat sz div 256)) \<and>
     (if sz < 256 then \<forall>n. walkObjects n m' (heapIterator_new entry stop dead) = Inl OutOfFuel else True)"
proof -
  define m' where "m' = m(entry := 1, entry + 4 := sz)"
  let ?it = "heapIterator_new entry stop dead"
  have e: "entry \<noteq> entry + 4" by simp
  have run: "fillWithHoles entry sz m = Inr (entry, m')" using assms(1)
    by (simp add: fillWithHoles_def om_defs m'_def not_less [symmetric])
  have live: "\<not> isDeadObject m' entry"
    using low_bits [OF assms(2)] by (simp add: om_defs m'_def and.assoc)
  have consumed: "getConsumedSizeInBytesWithHeader m' entry = drop_bit 8 sz" by (simp add: om_defs m'_def)
  have c256: "unat (drop_bit 8 sz) = unat sz div 256" by (simp add: drop_bit_eq_div unat_div_distrib)
  have one: "nextObject (Suc n) m' it = Inr (entry, passLive m' it)"
    if "it_scanPtr it = entry" "it_scanPtrTop it = stop" for n it using that assms(4) live by simp
  have "walkObjects n m' ?it = Inl OutOfFuel" if "sz < 256" for n
  proof -
    have "drop_bit 8 sz = 0" using that c256 by (simp add: word_less_nat_alt unat_eq_0 [symmetric] del: unat_eq_0)
    then have "passLive m' ?it = ?it" using consumed by (simp add: passLive_def heapIterator_new_def)
    then have "nextObject (Suc n) m' ?it = Inr (entry, ?it)" for n using one [of ?it n] by (simp add: heapIterator_new_def)
    then show ?thesis using assms(3) by (induction n) simp_all
  qed
  moreover have "nextObject 1 m' ?it = Inr (entry, passLive m' ?it)" using one [of ?it 0] by (simp add: heapIterator_new_def)
  moreover have "it_scanPtr (passLive m' ?it) = entry + of_nat (unat sz div 256)"
    using consumed by (simp add: passLive_def heapIterator_new_def c256 [symmetric])
  moreover have "getSize m' entry = sz" "getNext m' entry = 0" by (simp_all add: m'_def om_defs)
  ultimately show ?thesis using run live consumed c256 by auto
qed

text \<open>Three objects in the region from 4096 on, allocated by a host that hands out the region in order, and
  the entry behind them.\<close>

definition sampleModel :: GC_ObjectModel where
  "sampleModel = setObjectAlignmentInBytes 8 (setObjectAlignmentShift 3 \<lparr>objectAlignmentInBytes = 0, objectAlignmentShift = 0\<rparr>)"

definition sampleWords :: mem where
  "sampleWords = (\<lambda>_. 0)(4100 := 56 * 256, 4156 := 48 * 256 + 0x10, 4204 := 64 * 256)"

definition sampleCollector :: gc where
  "sampleCollector = \<lparr>g_vm = vm1, recent = [40], maxRecent = 1, uninterruptableCounter = 0, marked = {}, workStack = [], objectTable = []\<rparr>"

lemma allocate_object_witness:
  "\<exists>g' m2. AllocateObject sampleModel (\<lambda>_ m. Inr (4096, m)) (\<lambda>_ m. Inr (0, m)) 50 (sampleCollector, \<lambda>_. 0) = Inr (4096, (g', m2)) \<and>
     unat (getSizeInBytesWithHeader m2 4096) = 56 \<and> m2 4112 = 50 \<and> recent g' = [40, 4096]"
proof -
  have a: "objectAlignmentInBytes sampleModel = 8" by (simp add: sampleModel_def setObjectAlignmentInBytes_def)
  from allocate_object [OF a, of "\<lambda>_ m. Inr (4096, m)" 50 "\<lambda>_. 0" 4096 "\<lambda>_. 0" sampleCollector "\<lambda>_ m. Inr (0, m)"]
  obtain g' m2 where r: "AllocateObject sampleModel (\<lambda>_ m. Inr (4096, m)) (\<lambda>_ m. Inr (0, m)) 50 (sampleCollector, \<lambda>_. 0) = Inr (4096, (g', m2))"
    "unat (getSizeInBytesWithHeader m2 4096) = 56" "m2 = (\<lambda>_. 0)(4096 + 4 := m2 (4096 + 4), 4096 + 16 := 50)" "recent g' = [40, 4096]"
    by (auto simp: sampleCollector_def)
  have "m2 4112 = 50" by (subst r(3)) simp
  with r show ?thesis by blast
qed

lemma walk_finds_objects_witness:
  "\<exists>it. walkObjects 4 sampleWords (heapIterator_new 4096 4264 False) = Inr ([4096, 4152, 4200], it)"
  by (rule walk_finds_objects) (simp_all add: sampleWords_def om_defs)

lemma free_entry_taken_for_object_witness:
  "(\<exists>m'. fillWithHoles 4264 128 sampleWords = Inr (4264, m') \<and> \<not> isDeadObject m' 4264) \<and> (128 :: uintptr) < 256"
  using free_entry_taken_for_object [of 128 4264 8192 sampleWords False] by auto

end
