(* ===== verification/Spec2Isabelle.thy ===== *)
theory Spec2Isabelle
  imports CompilerProperties LexerRoundTrip CommandLineProperties RuntimeProperties ObjectProperties ArithmeticProperties
    DoubleProperties TypingProperties LiteralProperties EmergencyFrames NonLocalReturn DisassemblerProperties BlockEntry
    FieldLayout NotUnderstood CollectorProperties ObjectModelProperties
begin

text \<open>
  A verification development for somr, the virtual machine SOM++ for the Smalltalk dialect SOM on
  the memory manager of Eclipse OMR. The code is under \<^verbatim>\<open>src/src/\<close>; paths below are relative to it
  unless they begin with \<^verbatim>\<open>omr32/\<close>.

  \<^bold>\<open>The program.\<close> \<^verbatim>\<open>Universe\<close> reads the command line, makes the well-known objects and classes and
  starts a method or the shell. Classes are loaded from source files on demand:
  \<^verbatim>\<open>SourcecodeCompiler\<close> runs a one-pass recursive-descent \<^verbatim>\<open>Parser\<close> over the tokens of \<^verbatim>\<open>Lexer\<close>;
  while it reads, the parser emits bytecodes through \<^verbatim>\<open>BytecodeGenerator\<close> into
  \<^verbatim>\<open>MethodGenerationContext\<close>s, one for each nested block, which are assembled into methods in
  the heap and collected by a \<^verbatim>\<open>ClassGenerationContext\<close>. \<^verbatim>\<open>Interpreter\<close> fetches the bytecodes of
  the method of the current frame; sends look methods up in the class of the receiver and push a
  frame or run a primitive; blocks capture the frame they are made in and can return from the
  method that made them. Everything is an object in the heap, frames included. \<^verbatim>\<open>Heap\<close> hands
  allocation to OMR, whose collector calls back to find roots and to scan objects.

  \<^bold>\<open>The model.\<close> A stateful operation is a function from a state to an error or a result with the
  next state (\<open>se\<close> in Prelude). The errors are the ways the code does not return:
  \<^verbatim>\<open>Universe::ErrorExit\<close>, \<^verbatim>\<open>Universe::Quit\<close>, an exception nobody catches, a trap, and undefined
  behaviour (a null pointer, an object used as one of another class, an access out of range, a
  full buffer), where the model stops because the code has no meaning beyond. The state \<open>vm\<close>
  (Objects) is a heap of typed objects with the next free address, the symbol table, the root
  table, the pointers \<^verbatim>\<open>Universe\<close> keeps, the current frame, and what was written to \<^verbatim>\<open>cout\<close>.
  Integers have the width of the code, with the wrap-around of gcc on a 32-bit target.

  \<^item> Prelude: errors, state functions and their rules, conversions of C++ integers, character
    classes. ExtList: \<^verbatim>\<open>misc/ExtendedList.h\<close>.
  \<^item> Bytecodes: \<^verbatim>\<open>interpreter/bytecodes\<close>. Signatures: \<^verbatim>\<open>vmobjects/Signature.cpp\<close>, the names of
    \<^verbatim>\<open>VMSymbol\<close> and of evaluation primitives.
  \<^item> Objects: the layouts of \<^verbatim>\<open>vmobjects/\<close>, the fields and arrays, \<^verbatim>\<open>Symboltable\<close>, the globals and
    the allocation of \<^verbatim>\<open>Universe\<close>. Methods: \<^verbatim>\<open>VMInvokable\<close>, \<^verbatim>\<open>VMMethod\<close>, \<^verbatim>\<open>VMPrimitive\<close>,
    \<^verbatim>\<open>VMEvaluationPrimitive\<close>, \<^verbatim>\<open>VMBlock\<close>. Frames: \<^verbatim>\<open>VMFrame\<close>. Classes: \<^verbatim>\<open>VMClass\<close>.
  \<^item> Lexer, Parser, GenContexts (both generation contexts and the generator), Compiler (assembly of
    classes, class loading, the objects made at the start): \<^verbatim>\<open>compiler/\<close> and the class loading of
    \<^verbatim>\<open>vm/Universe.cpp\<close>.
  \<^item> Primitives: \<^verbatim>\<open>primitives/\<close> and \<^verbatim>\<open>primitivesCore/\<close>. Interpreter: \<^verbatim>\<open>interpreter/Interpreter.cpp\<close>,
    the invocations, \<^verbatim>\<open>VMObject::Send\<close>, \<^verbatim>\<open>vm/Shell.cpp\<close>, \<^verbatim>\<open>Universe::initialize\<close>.
  \<^item> CommandLine: the arguments and the class path of \<^verbatim>\<open>vm/Universe.cpp\<close>. Disassembler:
    \<^verbatim>\<open>compiler/Disassembler.cpp\<close> and the trace of the interpreter.
  \<^item> Collector: the recent allocations and sections of \<^verbatim>\<open>memory/Heap.cpp\<close>, the marking callbacks of
    \<^verbatim>\<open>glue/\<close>, the constructors with their sections, and the marking loop of
    \<^verbatim>\<open>omr32/gc/base/MarkingScheme\<close> that drives them. ObjectModel: the words of the heap below that,
    \<^verbatim>\<open>glue/ObjectModel.hpp\<close> with the free entries and the heap iterator of OMR it serves, and
    \<^verbatim>\<open>Heap::AllocateObject\<close>.

  \<^bold>\<open>What is shown.\<close>

  \<^item> The compiler (ObjectLaws, CodeCheck, Assembly, ParserTokens, EmitLaws, ExprLaws, BodyLaws,
    ClassLaws, CompilerProperties): it returns on every text, and what it leaves verifies. CodeCheck
    defines verified code by a scan of the instructions that follows the depth of the stack and the
    scope of variables; Assembly lifts it to method objects with their nested blocks. ParserTokens
    states what an operation of the parser keeps and how its measure falls; EmitLaws, ExprLaws,
    BodyLaws and ClassLaws go through the grammar. LexerRoundTrip and LiteralProperties: tokens
    read back, the value of literals, the look-ahead.
  \<^item> The interpreter (FrameLaws, Activation, CallLaws, ClassLookup, RuntimeProperties, BlockEntry,
    EmergencyFrames, NonLocalReturn, NotUnderstood, FieldLayout, with Paths for chains of
    objects): a frame is a bounded stack, verified code runs with the depths the scan computes,
    calls are entered and left as promised, lookup finds the innermost method, non-local returns
    and messages nobody understands arrive where they should. \<open>evalCode\<close> (Activation) is a
    reference evaluation of code that sends nothing, on arguments, locals and temporaries: the
    value a method returns is the one it leaves.
  \<^item> Types (HeapTyping, MachineTyping, CoreRuns, TypingProperties): no run changes the layout of an
    object, the characters of a symbol or the interning, as long as no routine of another primitive
    library is called. CoreRuns defines these runs, by a machine in which such a call ends the run,
    and shows that every step of that machine is a step of the one with the routines.
  \<^item> Objects and numbers: ObjectProperties, ArithmeticProperties, DoubleProperties. The command line:
    CommandLineProperties. The disassembler only observes, but for the symbol it may intern:
    DisassemblerProperties.
  \<^item> The collector (Marking, RootGaps, CollectorProperties): it marks what is reachable from its
    roots, and what the roots leave out. ObjectModelProperties: headers, sizes, walks.
  \<^item> Evaluation and SampleMachine hold the small machines the properties are applied to.

  \<^bold>\<open>Interfaces.\<close> \<open>indexed_pool\<close> (ExtList): a literal stored once is found at its index. \<open>symbol_table\<close>
  (ObjectLaws): \<^verbatim>\<open>SymbolFor\<close> interns. \<open>global_table\<close> (ObjectProperties): a global stored is read
  back. \<open>bounded_stack\<close> (FrameLaws): push and pop within the room, for a fixed frame and for the
  current one. Each is interpreted on the operations of the model next to its definition.

  \<^bold>\<open>Bounds.\<close> Loops over a text, a list or an array are structural. The recursion of the parser has the
  bound \<open>parseBound\<close>, twice the length of the text and 5: every production consumes a token or goes
  down a fixed ladder, and the termination property of CompilerProperties shows the bound is never met.
  Loops along a chain of objects (superclasses, contexts, callers) take the number of objects of the
  heap, which a chain without a cycle cannot exceed; on a cycle the source does not return, and the
  model answers \<open>OutOfFuel\<close> for every bound. The marking loop takes that number too, since no object
  is pushed twice, and so does the disassembler for blocks nested in methods. A walk over a region
  takes a number of rounds, enough when it exceeds the number of objects; two rounds fill the less
  than eight bytes that become single slots. The number of instructions of a run, the depth of primitives that send messages
  and the length of a chain of classes to load are arguments: the code gives no bound, and the
  properties that promise an end name a number that is enough.

  \<^bold>\<open>Parameters.\<close> \<open>external\<close> (Primitives): the four rounded operations and the square root of the
  floating-point unit, the text \<^verbatim>\<open>ostream\<close> writes of a double, the clock, the random generator, and
  the routines of primitive libraries that are loaded from shared objects, of which nothing is
  assumed. \<open>formats\<close> (Disassembler):
  the text of an address and of a double. The order in which the collector walks the root table, and
  the allocator below \<open>AllocateObject\<close>.

  \<^bold>\<open>The trace.\<close> The interpreter is modelled with the option that lists every instruction switched off.
  \<open>tracedStep\<close> of the Disassembler is the loop with it; a property shows that it leaves the
  machine the loop without it leaves, once the symbol \<^verbatim>\<open>system\<close> is interned.

  \<^bold>\<open>Not modelled.\<close> OMR (\<^verbatim>\<open>omr32/\<close>) is a library the program is linked with: only what the callbacks are
  called from is here, neither its allocator nor its sweep. The build configures neither the scavenger
  nor the compaction, so the callbacks that only they use are left out. A run of the machine does not
  collect: objects stay in the heap of the model, and the properties of the collector say of a state
  what a collection in it would keep. \<^verbatim>\<open>Main.cpp\<close> and the rest of \<^verbatim>\<open>glue/\<close> start and stop OMR.
  \<^verbatim>\<open>misc/defs.h\<close> and \<^verbatim>\<open>misc/gettimeofday.h\<close> are portability macros. \<^verbatim>\<open>VMFrame::PrintStack\<close>, the usage
  text and the messages on \<^verbatim>\<open>stderr\<close> are output nobody reads back; so are the messages on \<^verbatim>\<open>cout\<close> of
  \<^verbatim>\<open>LoadPrimitives\<close>, of the bounds of arrays and of \<^verbatim>\<open>GetConstant\<close>, which the output of the model
  leaves out. An array of a negative size or one beyond the address space has one error in the
  model, where the source ends in the allocation or writes past it. The two words of a primitive
  that are no object pointers, its routine and its flag, are payload of the object and not among
  its fields.
  \<^verbatim>\<open>ExtendedList::AddAll\<close> does not compile when it is used, and is used nowhere. \<^verbatim>\<open>MarkReferences\<close> of the
  object classes belongs to the collector before OMR and is called by nothing.
\<close>

end
